(* ===== verification/Prelude.thy ===== *)
theory Prelude
  imports Main "HOL-Library.Word"
begin

unbundle bit_operations_syntax

text \<open>
  Shared vocabulary of the development: the machine integer types of the Rust sources, the
  error values that stand for the ways a kernel operation can fail to return (a Rust panic, a
  \<open>runtime_error!\<close>, an \<open>unrecoverable_error!\<close>, a loop that never ends), the error monad
  \<open>bind_res\<close> in which every operation is written, and the generic facts on lists (position
  insertion, sortedness, removal) that the queue proofs share.
\<close>

section \<open>Machine integers\<close>

type_synonym u8 = "8 word"
type_synonym u16 = "16 word"
type_synonym i16 = "16 word"
type_synonym u32 = "32 word"
type_synonym u64 = "64 word"

section \<open>Errors\<close>

text \<open>\<open>RuntimeError\<close> of \<open>kernel/exception.rs\<close>, variant by variant.\<close>

datatype runtime_error =
    IdleTaskSuspend
  | CeilingPriorityViolation
  | LockOwnerViolation
  | TaskTerminated
  | RecursiveLock
  | InterruptHandlerViolation
  | BlockingForbidden
  | IdleThreadCeilingLock

text \<open>\<open>KernelError\<close> of \<open>kernel/exception.rs\<close>.\<close>

datatype kernel_error = StackOverflow string nat

text \<open>\<open>AtomicQueueError\<close> of \<open>kernel/atomic_queue.rs\<close>.\<close>

datatype atomic_queue_error = ItemAlreadyInQueue | ItemNotInQueue

text \<open>
  Everything that ends an execution: the three error enumerations of the sources, a Rust panic
  with its message, \<open>unimplemented!\<close>, \<open>unreachable!\<close>, an arithmetic overflow panic (build
  profiles with overflow checks), an index out of range, a read of uninitialised memory
  (undefined behaviour), and \<open>Diverges\<close> for a loop that never returns.
\<close>

datatype error =
    Runtime runtime_error
  | Kernel kernel_error
  | AtomicQueue atomic_queue_error
  | Panic string
  | Unimplemented
  | Unreachable
  | ArithmeticOverflow
  | IndexOutOfBounds
  | UninitRead
  | Diverges

type_synonym 'a res = "error + 'a"

section \<open>The error monad\<close>

definition bind_res :: "'a res \<Rightarrow> ('a \<Rightarrow> 'b res) \<Rightarrow> 'b res" where
  "bind_res m f = (case m of Inl e \<Rightarrow> Inl e | Inr x \<Rightarrow> f x)"

text \<open>\<open>guard_res b e\<close> raises \<open>e\<close> unless \<open>b\<close>.\<close>

definition guard_res :: "bool \<Rightarrow> error \<Rightarrow> unit res" where
  "guard_res b e = (if b then Inr () else Inl e)"

lemma bind_res_simps [simp]:
  "bind_res (Inl e) f = Inl e"
  "bind_res (Inr x) f = f x"
  by (simp_all add: bind_res_def)

lemma bind_res_eq_Inr: "bind_res m f = Inr y \<longleftrightarrow> (\<exists>x. m = Inr x \<and> f x = Inr y)"
  by (cases m) auto

lemma bind_res_eq_Inl: "bind_res m f = Inl e \<longleftrightarrow> m = Inl e \<or> (\<exists>x. m = Inr x \<and> f x = Inl e)"
  by (cases m) auto

lemma bind_res_InrE:
  assumes "bind_res m f = Inr y"
  obtains x where "m = Inr x" and "f x = Inr y"
  using assms by (auto simp: bind_res_eq_Inr)

lemma bind_res_assoc: "bind_res (bind_res m f) g = bind_res m (\<lambda>x. bind_res (f x) g)"
  by (cases m) auto

lemma guard_res_simps [simp]:
  "guard_res b e = Inr u \<longleftrightarrow> b"
  "guard_res b e = Inl e' \<longleftrightarrow> \<not> b \<and> e' = e"
  "guard_res True e = Inr ()"
  "guard_res False e = Inl e"
  by (auto simp: guard_res_def)

lemma bind_guard_res: "bind_res (guard_res b e) f = (if b then f () else Inl e)"
  by (simp add: guard_res_def)

text \<open>
  \<open>ok_res P m\<close>: the operation returns and its result satisfies \<open>P\<close> (total correctness);
  \<open>safe_res P m\<close>: if it returns, its result satisfies \<open>P\<close>.
\<close>

definition ok_res :: "('a \<Rightarrow> bool) \<Rightarrow> 'a res \<Rightarrow> bool" where
  "ok_res P m = (case m of Inl e \<Rightarrow> False | Inr x \<Rightarrow> P x)"

lemma ok_res_simps [simp]:
  "ok_res P (Inl e) = False"
  "ok_res P (Inr x) = P x"
  by (simp_all add: ok_res_def)

lemma ok_res_bind: "ok_res P (bind_res m f) = ok_res (\<lambda>x. ok_res P (f x)) m"
  by (cases m) auto

lemma ok_resD: "ok_res P m \<Longrightarrow> \<exists>x. m = Inr x \<and> P x"
  by (cases m) auto

lemma ok_res_mono: "ok_res P m \<Longrightarrow> (\<And>x. P x \<Longrightarrow> Q x) \<Longrightarrow> ok_res Q m"
  by (cases m) auto

definition safe_res :: "('a \<Rightarrow> bool) \<Rightarrow> 'a res \<Rightarrow> bool" where
  "safe_res P m = (case m of Inl e \<Rightarrow> True | Inr x \<Rightarrow> P x)"

lemma safe_res_simps [simp]:
  "safe_res P (Inl e) = True"
  "safe_res P (Inr x) = P x"
  by (simp_all add: safe_res_def)

lemma safe_res_bind: "safe_res P (bind_res m f) = safe_res (\<lambda>x. safe_res P (f x)) m"
  by (cases m) auto

lemma safe_resD: "safe_res P m \<Longrightarrow> m = Inr x \<Longrightarrow> P x"
  by simp

lemma safe_res_mono: "safe_res P m \<Longrightarrow> (\<And>x. P x \<Longrightarrow> Q x) \<Longrightarrow> safe_res Q m"
  by (cases m) auto

section \<open>Integer arithmetic\<close>

text \<open>
  The operators \<open>+\<close>, \<open>-\<close> and \<open>*\<close> on unsigned integers. With overflow checks (the development
  profile) an overflow panics; without them (the release profile) the result wraps. Division by
  zero panics in both.
\<close>

definition add_ck :: "bool \<Rightarrow> 'a::len word \<Rightarrow> 'a word \<Rightarrow> 'a word res" where
  "add_ck checks a b =
     (if checks \<and> 2 ^ LENGTH('a) \<le> unat a + unat b then Inl ArithmeticOverflow else Inr (a + b))"

definition sub_ck :: "bool \<Rightarrow> 'a::len word \<Rightarrow> 'a word \<Rightarrow> 'a word res" where
  "sub_ck checks a b = (if checks \<and> a < b then Inl ArithmeticOverflow else Inr (a - b))"

definition mul_ck :: "bool \<Rightarrow> 'a::len word \<Rightarrow> 'a word \<Rightarrow> 'a word res" where
  "mul_ck checks a b =
     (if checks \<and> 2 ^ LENGTH('a) \<le> unat a * unat b then Inl ArithmeticOverflow else Inr (a * b))"

definition div_ck :: "'a::len word \<Rightarrow> 'a word \<Rightarrow> 'a word res" where
  "div_ck a b = (if b = 0 then Inl (Panic ''attempt to divide by zero'') else Inr (a div b))"

lemma add_ck_exact:
  "unat a + unat b < 2 ^ LENGTH('a) \<Longrightarrow>
     add_ck checks a (b :: 'a::len word) = Inr (a + b) \<and> unat (a + b) = unat a + unat b"
  by (auto simp: add_ck_def unat_word_ariths)

lemma mul_ck_exact:
  "unat a * unat b < 2 ^ LENGTH('a) \<Longrightarrow>
     mul_ck checks a (b :: 'a::len word) = Inr (a * b) \<and> unat (a * b) = unat a * unat b"
  by (auto simp: mul_ck_def unat_word_ariths)

lemma sub_ck_exact: "b \<le> a \<Longrightarrow> sub_ck checks a (b :: 'a::len word) = Inr (a - b)"
  by (auto simp: sub_ck_def)

lemma div_mult_word:
  assumes "(b :: 'a::len word) \<noteq> 0" and "unat b * unat a < 2 ^ LENGTH('a)"
  shows "b * a div b = a"
proof -
  have "unat b \<noteq> 0" using assms(1) by (simp add: unat_eq_zero)
  moreover have "unat (b * a) = unat b * unat a" using assms(2) by (simp add: unat_word_ariths)
  ultimately show ?thesis by (simp add: word_unat_eq_iff unat_div)
qed

section \<open>Atomic cells\<close>

text \<open>
  An atomic cell is its value; each operation is one atomic action, so it is a function from the
  old value to the result and the new value. The memory orderings have no effect on a single
  cell. \<open>fetch_update\<close> retries until its exchange succeeds: with no other writer between the
  load and the exchange, the first attempt decides.
\<close>

definition atomic_swap :: "'a \<Rightarrow> 'a \<Rightarrow> 'a \<times> 'a" where
  "atomic_swap cell v = (cell, v)"

definition atomic_compare_exchange :: "'a \<Rightarrow> 'a \<Rightarrow> 'a \<Rightarrow> ('a + 'a) \<times> 'a" where
  "atomic_compare_exchange cell current new =
     (if cell = current then (Inr cell, new) else (Inl cell, cell))"

definition atomic_fetch_update :: "'a \<Rightarrow> ('a \<Rightarrow> 'a option) \<Rightarrow> ('a + 'a) \<times> 'a" where
  "atomic_fetch_update cell f =
     (case f cell of None \<Rightarrow> (Inl cell, cell)
      | Some new \<Rightarrow> atomic_compare_exchange cell cell new)"

section \<open>Lists\<close>

text \<open>First and last element as options, as \<open>LinkedList::head\<close> and \<open>tail\<close> return them.\<close>

definition first_opt :: "'a list \<Rightarrow> 'a option" where
  "first_opt xs = (case xs of [] \<Rightarrow> None | x # _ \<Rightarrow> Some x)"

definition last_opt :: "'a list \<Rightarrow> 'a option" where
  "last_opt xs = (if xs = [] then None else Some (last xs))"

lemma first_opt_simps [simp]:
  "first_opt [] = None"
  "first_opt (x # xs) = Some x"
  "first_opt xs = None \<longleftrightarrow> xs = []"
  by (simp_all add: first_opt_def split: list.splits)

lemma first_opt_append [simp]:
  "first_opt (xs @ ys) = (if xs = [] then first_opt ys else first_opt xs)"
  by (cases xs) simp_all

lemma last_opt_simps [simp]:
  "last_opt [] = None"
  "last_opt (xs @ [x]) = Some x"
  "last_opt xs = None \<longleftrightarrow> xs = []"
  by (simp_all add: last_opt_def)

lemma last_opt_Cons [simp]: "last_opt (x # xs) = (if xs = [] then Some x else last_opt xs)"
  by (simp add: last_opt_def)

lemma last_opt_append [simp]:
  "last_opt (xs @ ys) = (if ys = [] then last_opt xs else last_opt ys)"
  by (simp add: last_opt_def)

lemma first_opt_SomeD: "first_opt xs = Some x \<Longrightarrow> x \<in> set xs"
  by (cases xs) auto

lemma last_opt_SomeD: "last_opt xs = Some x \<Longrightarrow> x \<in> set xs"
  by (auto simp: last_opt_def split: if_splits)

text \<open>
  Position insertion, the contents-level meaning of \<open>LinkedList::insert_after\<close>: skip the
  elements while the predicate holds, then insert.
\<close>

fun insert_after :: "('a \<Rightarrow> bool) \<Rightarrow> 'a \<Rightarrow> 'a list \<Rightarrow> 'a list" where
  "insert_after P x [] = [x]"
| "insert_after P x (y # ys) = (if P y then y # insert_after P x ys else x # y # ys)"

lemma insert_after_takeWhile: "insert_after P x xs = takeWhile P xs @ x # dropWhile P xs"
  by (induction xs) auto

lemma set_insert_after [simp]: "set (insert_after P x xs) = insert x (set xs)"
  by (induction xs) auto

lemma length_insert_after [simp]: "length (insert_after P x xs) = Suc (length xs)"
  by (induction xs) auto

lemma insert_after_not_Nil [simp]: "insert_after P x xs \<noteq> []"
  by (cases xs) auto

lemma distinct_insert_after [simp]:
  "distinct (insert_after P x xs) \<longleftrightarrow> x \<notin> set xs \<and> distinct xs"
  by (induction xs) auto

lemma remove1_insert_after: "x \<notin> set xs \<Longrightarrow> remove1 x (insert_after P x xs) = xs"
  by (induction xs) auto

lemma insert_after_cong:
  "(\<And>y. y \<in> set xs \<Longrightarrow> P y = Q y) \<Longrightarrow> insert_after P x xs = insert_after Q x xs"
  by (induction xs) auto

text \<open>
  Insertion keeps a list sorted with respect to any transitive relation, as long as the skipped
  elements go before the new one and an element that stops the search goes after it.
\<close>

lemma sorted_insert_after:
  assumes "transp R"
    and "sorted_wrt R xs"
    and "\<And>y. y \<in> set xs \<Longrightarrow> P y \<Longrightarrow> R y x"
    and "\<And>y. y \<in> set xs \<Longrightarrow> \<not> P y \<Longrightarrow> R x y"
  shows "sorted_wrt R (insert_after P x xs)"
  using assms(2-4)
proof (induction xs)
  case (Cons y ys)
  show ?case
  proof (cases "P y")
    case True
    with Cons show ?thesis by auto
  next
    case False
    with Cons.prems have "R x y" by simp
    with Cons.prems(1) assms(1) have "\<forall>z \<in> set ys. R x z"
      by (auto elim: transpE)
    with False \<open>R x y\<close> Cons.prems(1) show ?thesis by simp
  qed
qed simp

lemma sorted_wrt_remove1: "sorted_wrt R xs \<Longrightarrow> sorted_wrt R (remove1 x xs)"
proof (induction xs)
  case (Cons y ys)
  then show ?case using set_remove1_subset [of x ys] by auto
qed simp

lemma sorted_wrt_cong_on:
  assumes "\<And>x y. x \<in> set xs \<Longrightarrow> y \<in> set xs \<Longrightarrow> R x y = S x y"
  shows "sorted_wrt R xs = sorted_wrt S xs"
  using assms by (induction xs) auto

lemma sorted_wrt_head_le:
  assumes "sorted_wrt R xs" and "first_opt xs = Some h" and "x \<in> set xs" and "x \<noteq> h"
  shows "R h x"
  using assms by (cases xs) auto

text \<open>In a sorted list a downward closed condition holds of a prefix.\<close>

lemma takeWhile_filter_sorted:
  assumes "sorted_wrt R xs" and "\<And>a b. R a b \<Longrightarrow> P b \<Longrightarrow> P a"
  shows "takeWhile P xs = filter P xs \<and> dropWhile P xs = filter (\<lambda>x. \<not> P x) xs"
  using assms(1)
proof (induction xs)
  case (Cons x xs)
  show ?case
  proof (cases "P x")
    case False
    with Cons.prems assms(2) have "\<forall>y \<in> set xs. \<not> P y" by auto
    with False show ?thesis by (auto simp: filter_id_conv filter_empty_conv)
  qed (use Cons in auto)
qed simp

end
