(* ===== verification/Time.thy ===== *)
theory Time
  imports Prelude
begin

text \<open>
  Durations and instants (\<open>scars/src/time.rs\<close>) and the conversion between clock ticks and
  \<open>timespec\<close> of the simulator (\<open>khal/scars-khal-sim/src/lib.rs\<close>). The tick frequency is the
  constant of the hardware layer, a parameter here; \<open>checks\<close> selects the overflow behaviour of
  the build profile.
\<close>

section \<open>Duration\<close>

record duration = ticks :: u64

definition dur_SECOND :: "u64 \<Rightarrow> duration" where
  "dur_SECOND TICK_FREQ_HZ = \<lparr>ticks = TICK_FREQ_HZ\<rparr>"

definition dur_MILLISECOND :: "u64 \<Rightarrow> duration" where
  "dur_MILLISECOND TICK_FREQ_HZ = \<lparr>ticks = TICK_FREQ_HZ div 1000\<rparr>"

definition dur_MICROSECOND :: "u64 \<Rightarrow> duration" where
  "dur_MICROSECOND TICK_FREQ_HZ = \<lparr>ticks = TICK_FREQ_HZ div 1000000\<rparr>"

definition dur_ZERO :: duration where "dur_ZERO = \<lparr>ticks = 0\<rparr>"
definition dur_MAX :: duration where "dur_MAX = \<lparr>ticks = - 1\<rparr>"

definition dur_new :: "bool \<Rightarrow> u64 \<Rightarrow> u64 \<Rightarrow> u32 \<Rightarrow> duration res" where
  "dur_new checks freq secs nanos =
     bind_res (mul_ck checks (ticks (dur_SECOND freq)) secs) (\<lambda>s.
     bind_res (mul_ck checks (ticks (dur_MICROSECOND freq)) (ucast nanos)) (\<lambda>n.
     bind_res (add_ck checks s (n div 1000)) (\<lambda>t. Inr \<lparr>ticks = t\<rparr>)))"

definition from_secs :: "bool \<Rightarrow> u64 \<Rightarrow> u64 \<Rightarrow> duration res" where
  "from_secs checks freq secs =
     bind_res (mul_ck checks (ticks (dur_SECOND freq)) secs) (\<lambda>t. Inr \<lparr>ticks = t\<rparr>)"

definition from_millis :: "bool \<Rightarrow> u64 \<Rightarrow> u64 \<Rightarrow> duration res" where
  "from_millis checks freq millis =
     bind_res (mul_ck checks (ticks (dur_MILLISECOND freq)) millis) (\<lambda>t. Inr \<lparr>ticks = t\<rparr>)"

definition from_micros :: "bool \<Rightarrow> u64 \<Rightarrow> u64 \<Rightarrow> duration res" where
  "from_micros checks freq micros =
     bind_res (mul_ck checks (ticks (dur_MICROSECOND freq)) micros) (\<lambda>t. Inr \<lparr>ticks = t\<rparr>)"

definition dur_is_zero :: "duration \<Rightarrow> bool" where
  "dur_is_zero d = (ticks d = ticks dur_ZERO)"

definition as_secs :: "u64 \<Rightarrow> duration \<Rightarrow> u64 res" where
  "as_secs freq d = div_ck (ticks d) (ticks (dur_SECOND freq))"

definition as_millis :: "u64 \<Rightarrow> duration \<Rightarrow> u64 res" where
  "as_millis freq d = div_ck (ticks d) (ticks (dur_MILLISECOND freq))"

definition as_micros :: "u64 \<Rightarrow> duration \<Rightarrow> u64 res" where
  "as_micros freq d = div_ck (ticks d) (ticks (dur_MICROSECOND freq))"

definition dur_mul :: "bool \<Rightarrow> duration \<Rightarrow> u32 \<Rightarrow> duration res" where
  "dur_mul checks d rhs = bind_res (mul_ck checks (ticks d) (ucast rhs)) (\<lambda>t. Inr \<lparr>ticks = t\<rparr>)"

definition dur_add :: "bool \<Rightarrow> duration \<Rightarrow> duration \<Rightarrow> duration res" where
  "dur_add checks d rhs = bind_res (add_ck checks (ticks d) (ticks rhs)) (\<lambda>t. Inr \<lparr>ticks = t\<rparr>)"

definition dur_sub :: "bool \<Rightarrow> duration \<Rightarrow> duration \<Rightarrow> duration res" where
  "dur_sub checks d rhs = bind_res (sub_ck checks (ticks d) (ticks rhs)) (\<lambda>t. Inr \<lparr>ticks = t\<rparr>)"

section \<open>Instant\<close>

record instant = tick :: u64

definition instant_ZERO :: instant where "instant_ZERO = \<lparr>tick = 0\<rparr>"

text \<open>\<open>Instant::now\<close>: the reading of the clock is the argument.\<close>

definition instant_now :: "u64 \<Rightarrow> instant" where
  "instant_now clock_ticks = \<lparr>tick = clock_ticks\<rparr>"

definition elapsed :: "u64 \<Rightarrow> instant \<Rightarrow> duration" where
  "elapsed now_tick i =
     (if tick i < now_tick then \<lparr>ticks = now_tick - tick i\<rparr> else \<lparr>ticks = 0\<rparr>)"

definition instant_add :: "bool \<Rightarrow> instant \<Rightarrow> duration \<Rightarrow> instant res" where
  "instant_add checks i rhs =
     bind_res (add_ck checks (tick i) (ticks rhs)) (\<lambda>t. Inr \<lparr>tick = t\<rparr>)"

text \<open>
  The comparisons of \<open>Instant\<close> and of \<open>Option<Instant>\<close> (\<open>None\<close> below every instant), as the
  sleep queue uses them.
\<close>

definition instant_le :: "instant \<Rightarrow> instant \<Rightarrow> bool" where
  "instant_le a b = (tick a \<le> tick b)"

fun deadline_le :: "instant option \<Rightarrow> instant option \<Rightarrow> bool" where
  "deadline_le None _ = True"
| "deadline_le (Some a) None = False"
| "deadline_le (Some a) (Some b) = instant_le a b"

lemma deadline_le_trans: "transp (\<lambda>a b. deadline_le (f a) (f b))"
proof (rule transpI)
  fix x y z assume "deadline_le (f x) (f y)" and "deadline_le (f y) (f z)"
  then show "deadline_le (f x) (f z)"
    by (cases "f x"; cases "f y"; cases "f z") (auto simp: instant_le_def)
qed

lemma deadline_le_total: "\<not> deadline_le a b \<Longrightarrow> deadline_le b a"
  by (cases a; cases b) (auto simp: instant_le_def)

section \<open>Timespec conversion\<close>

text \<open>The two signed 64-bit fields, by their bit patterns.\<close>

record timespec = tv_sec :: u64
  tv_nsec :: u64

definition TIMER_FREQ_HZ :: u64 where "TIMER_FREQ_HZ = 10000000"

definition timespec_to_ticks :: "bool \<Rightarrow> timespec \<Rightarrow> u64 res" where
  "timespec_to_ticks checks time =
     bind_res (mul_ck checks (tv_sec time) TIMER_FREQ_HZ) (\<lambda>s.
     bind_res (mul_ck checks (tv_nsec time) TIMER_FREQ_HZ) (\<lambda>n.
     add_ck checks s (n div 1000000000)))"

definition ticks_to_timespec :: "bool \<Rightarrow> u64 \<Rightarrow> timespec res" where
  "ticks_to_timespec checks t =
     bind_res (mul_ck checks (t mod TIMER_FREQ_HZ) (1000000000 div TIMER_FREQ_HZ)) (\<lambda>n.
       Inr \<lparr>tv_sec = t div TIMER_FREQ_HZ, tv_nsec = n\<rparr>)"


lemmas duration_defs = dur_SECOND_def dur_MILLISECOND_def dur_MICROSECOND_def

section \<open>Properties\<close>

lemma durations_roundtrip_facts:
  assumes "1000000 \<le> freq"
  shows "unat freq * unat n < 2 ^ 64 \<Longrightarrow>
      bind_res (from_secs checks freq n) (as_secs freq) = Inr n"
    and "unat (freq div 1000) * unat n < 2 ^ 64 \<Longrightarrow>
      bind_res (from_millis checks freq n) (as_millis freq) = Inr n"
    and "unat (freq div 1000000) * unat n < 2 ^ 64 \<Longrightarrow>
      bind_res (from_micros checks freq n) (as_micros freq) = Inr n"
proof -
  have f: "1000000 \<le> unat freq" using assms by (simp add: word_le_nat_alt)
  have ne: "freq \<noteq> 0" "freq div 1000 \<noteq> 0" "freq div 1000000 \<noteq> 0"
    using f by (auto simp: word_unat_eq_iff unat_div div_eq_0_iff)
  have rt: "bind_res (mul_ck checks m n) (\<lambda>t. div_ck t m) = Inr n"
    if "m \<noteq> 0" "unat m * unat n < 2 ^ 64" for m :: u64
    using mul_ck_exact [of m n checks] div_mult_word [of m n] that by (simp add: div_ck_def)
  show "unat freq * unat n < 2 ^ 64 \<Longrightarrow> bind_res (from_secs checks freq n) (as_secs freq) = Inr n"
    using rt [of freq] ne by (simp add: from_secs_def as_secs_def duration_defs bind_res_assoc)
  show "unat (freq div 1000) * unat n < 2 ^ 64 \<Longrightarrow>
      bind_res (from_millis checks freq n) (as_millis freq) = Inr n"
    using rt [of "freq div 1000"] ne
    by (simp add: from_millis_def as_millis_def duration_defs bind_res_assoc)
  show "unat (freq div 1000000) * unat n < 2 ^ 64 \<Longrightarrow>
      bind_res (from_micros checks freq n) (as_micros freq) = Inr n"
    using rt [of "freq div 1000000"] ne
    by (simp add: from_micros_def as_micros_def duration_defs bind_res_assoc)
qed

text \<open>
  Conversions of durations are exact: a number of seconds, milliseconds or
  microseconds whose tick count fits in 64 bits is converted without a panic in either build
  profile and converted back to itself, provided the tick frequency has that resolution.
\<close>

theorem durations_roundtrip:
  assumes "1000000 \<le> freq"
  shows "(unat freq * unat n < 2 ^ 64 \<longrightarrow>
      bind_res (from_secs checks freq n) (as_secs freq) = Inr n)
    \<and> (unat (freq div 1000) * unat n < 2 ^ 64 \<longrightarrow>
      bind_res (from_millis checks freq n) (as_millis freq) = Inr n)
    \<and> (unat (freq div 1000000) * unat n < 2 ^ 64 \<longrightarrow>
      bind_res (from_micros checks freq n) (as_micros freq) = Inr n)"
  using durations_roundtrip_facts [OF assms] by blast

theorem durations_roundtrip_witness:
  "bind_res (from_secs True 10000000 7) (as_secs 10000000) = Inr 7
   \<and> bind_res (from_millis True 10000000 7) (as_millis 10000000) = Inr 7
   \<and> bind_res (from_micros True 10000000 7) (as_micros 10000000) = Inr 7"
  using durations_roundtrip [of 10000000 7 True] by simp

lemma timespec_exact:
  "\<exists>ts. ticks_to_timespec checks t = Inr ts \<and> unat (tv_nsec ts) < 1000000000
     \<and> timespec_to_ticks checks ts = Inr t"
proof -
  let ?f = "10000000 :: nat"
  have r: "unat t mod ?f < ?f" by simp
  have t: "unat t < 2 ^ 64" using unsigned_less [of t] by simp
  have q: "unat (t div TIMER_FREQ_HZ) = unat t div ?f" "unat (t mod TIMER_FREQ_HZ) = unat t mod ?f"
    by (simp_all add: TIMER_FREQ_HZ_def unat_div unat_mod)
  have n: "mul_ck checks (t mod TIMER_FREQ_HZ) 100 = Inr (t mod TIMER_FREQ_HZ * 100)"
    "unat (t mod TIMER_FREQ_HZ * 100) = unat t mod ?f * 100"
    using mul_ck_exact [of "t mod TIMER_FREQ_HZ" 100 checks] r q by simp_all
  have s: "mul_ck checks (t div TIMER_FREQ_HZ) TIMER_FREQ_HZ = Inr (t div TIMER_FREQ_HZ * TIMER_FREQ_HZ)"
    "unat (t div TIMER_FREQ_HZ * TIMER_FREQ_HZ) = unat t div ?f * ?f"
    using mul_ck_exact [of "t div TIMER_FREQ_HZ" TIMER_FREQ_HZ checks] q
      le_less_trans [OF div_times_less_eq_dividend [of "unat t" ?f] t]
    by (simp_all add: TIMER_FREQ_HZ_def)
  let ?n = "t mod TIMER_FREQ_HZ * 100"
  have m: "mul_ck checks ?n TIMER_FREQ_HZ = Inr (?n * TIMER_FREQ_HZ)"
    "unat (?n * TIMER_FREQ_HZ) = unat t mod ?f * 100 * ?f"
    using mul_ck_exact [of ?n TIMER_FREQ_HZ checks] n r by (simp_all add: TIMER_FREQ_HZ_def)
  have d: "unat (?n * TIMER_FREQ_HZ div 1000000000) = unat t mod ?f"
    by (simp add: unat_div m(2))
  let ?s = "t div TIMER_FREQ_HZ * TIMER_FREQ_HZ"
  have "unat ?s + unat (?n * TIMER_FREQ_HZ div 1000000000) = unat t"
    unfolding d s(2) by simp
  with add_ck_exact [of ?s "?n * TIMER_FREQ_HZ div 1000000000" checks] t
  have "add_ck checks ?s (?n * TIMER_FREQ_HZ div 1000000000) = Inr t"
    by (auto simp: word_unat_eq_iff)
  moreover have "1000000000 div TIMER_FREQ_HZ = 100" by (simp add: TIMER_FREQ_HZ_def)
  moreover have "unat ?n < 1000000000" using n(2) r by simp
  ultimately show ?thesis
    using n(1) s(1) m(1) by (simp add: ticks_to_timespec_def timespec_to_ticks_def)
qed

text \<open>
  The simulator's clock conversion loses nothing: every 64-bit tick count is turned
  into a \<open>timespec\<close> with fewer than a thousand million nanoseconds and back into the same tick
  count, with no overflow on the way.
\<close>

theorem timespec_roundtrip:
  "\<exists>ts. ticks_to_timespec checks t = Inr ts \<and> unat (tv_nsec ts) < 1000000000
     \<and> timespec_to_ticks checks ts = Inr t"
  by (rule timespec_exact)

lemma instant_arithmetic_facts:
  assumes "unat (tick i) + unat (ticks d) < 2 ^ 64"
  shows "\<exists>j. instant_add checks i d = Inr j \<and> instant_le i j \<and> elapsed (tick j) i = d
      \<and> elapsed (tick i) j = dur_ZERO"
    and "bind_res (dur_add checks \<lparr>ticks = tick i\<rparr> d) (\<lambda>e. dur_sub checks e d) = Inr \<lparr>ticks = tick i\<rparr>"
proof -
  have a: "add_ck checks (tick i) (ticks d) = Inr (tick i + ticks d)"
    "unat (tick i + ticks d) = unat (tick i) + unat (ticks d)"
    using add_ck_exact [of "tick i" "ticks d" checks] assms by simp_all
  then have le: "tick i \<le> tick i + ticks d" "ticks d \<le> tick i + ticks d"
    by (simp_all add: word_le_nat_alt)
  show "bind_res (dur_add checks \<lparr>ticks = tick i\<rparr> d) (\<lambda>e. dur_sub checks e d) = Inr \<lparr>ticks = tick i\<rparr>"
    using a le by (simp add: dur_add_def dur_sub_def sub_ck_exact)
  have "elapsed (tick i + ticks d) i = d"
    using le a by (cases d) (auto simp: elapsed_def word_less_nat_alt word_unat_eq_iff)
  then show "\<exists>j. instant_add checks i d = Inr j \<and> instant_le i j \<and> elapsed (tick j) i = d
      \<and> elapsed (tick i) j = dur_ZERO"
    using a le by (auto simp: instant_add_def instant_le_def elapsed_def dur_ZERO_def)
qed

text \<open>
  Instants and durations fit together: an instant plus a duration that does not
  overflow is not before the instant, and at that time exactly the duration has elapsed; before
  the instant nothing has elapsed; subtracting an added duration gives the original back.
\<close>

theorem instant_arithmetic:
  assumes "unat (tick i) + unat (ticks d) < 2 ^ 64"
  shows "(\<exists>j. instant_add checks i d = Inr j \<and> instant_le i j \<and> elapsed (tick j) i = d
      \<and> elapsed (tick i) j = dur_ZERO)
    \<and> bind_res (dur_add checks \<lparr>ticks = tick i\<rparr> d) (\<lambda>e. dur_sub checks e d) = Inr \<lparr>ticks = tick i\<rparr>"
  using instant_arithmetic_facts [OF assms] by blast

theorem instant_arithmetic_witness:
  "(\<exists>j. instant_add True \<lparr>tick = 5\<rparr> \<lparr>ticks = 7\<rparr> = Inr j \<and> elapsed (tick j) \<lparr>tick = 5\<rparr> = \<lparr>ticks = 7\<rparr>)
   \<and> bind_res (dur_add True \<lparr>ticks = 5\<rparr> \<lparr>ticks = 7\<rparr>) (\<lambda>e. dur_sub True e \<lparr>ticks = 7\<rparr>) = Inr \<lparr>ticks = 5\<rparr>"
  using instant_arithmetic [of "\<lparr>tick = 5\<rparr>" "\<lparr>ticks = 7\<rparr>" True] by auto

end
