(* ===== verification/Hal.thy ===== *)
theory Hal
  imports Time
begin

text \<open>
  The hardware layers below the kernel: the interrupt controllers and clocks of the simulator
  (\<open>khal/scars-khal-sim\<close>), of the e310x (\<open>khal/scars-khal-e310x\<close>) and of the stm32f4
  (\<open>khal/scars-khal-stm32f4\<close>). Device registers are fields of a record; the functions of the
  \<open>cortex-m\<close> crate that the stm32f4 layer calls are arguments.
\<close>

section \<open>The simulator\<close>

record simulator =
  sim_priority :: "u8 list"
  sim_threshold :: u8
  sim_enable :: "bool list"
  INTERRUPTS_ENABLED :: bool
  alarm_signal_blocked :: bool
  sim_wait_until :: "timespec option"

text \<open>
  The signals of the interrupt mask, here the alarm signal, are blocked and unblocked for the
  calling thread. The other system calls of the initialisation have no counterpart.
\<close>

definition SIM_MAX_INTERRUPT_NUMBER :: nat where
  "SIM_MAX_INTERRUPT_NUMBER = 0"

definition sim_controller_new :: simulator where
  "sim_controller_new =
     \<lparr>sim_priority = replicate (SIM_MAX_INTERRUPT_NUMBER + 1) 0, sim_threshold = 0,
      sim_enable = replicate (SIM_MAX_INTERRUPT_NUMBER + 1) False, INTERRUPTS_ENABLED = False,
      alarm_signal_blocked = False, sim_wait_until = None\<rparr>"

definition sim_get_interrupt_priority :: "u16 \<Rightarrow> simulator \<Rightarrow> u8 res" where
  "sim_get_interrupt_priority n s =
     (if unat n < length (sim_priority s) then Inr (sim_priority s ! unat n) else Inl IndexOutOfBounds)"

definition sim_set_interrupt_priority :: "u16 \<Rightarrow> u8 \<Rightarrow> simulator \<Rightarrow> (u8 \<times> simulator) res" where
  "sim_set_interrupt_priority n prio s =
     (if unat n < length (sim_priority s)
      then Inr (sim_priority s ! unat n, s\<lparr>sim_priority := (sim_priority s)[unat n := prio]\<rparr>)
      else Inl IndexOutOfBounds)"

definition sim_get_interrupt_threshold :: "simulator \<Rightarrow> u8" where
  "sim_get_interrupt_threshold s = sim_threshold s"

definition sim_set_interrupt_threshold :: "u8 \<Rightarrow> simulator \<Rightarrow> simulator" where
  "sim_set_interrupt_threshold threshold s = s\<lparr>sim_threshold := threshold\<rparr>"

definition sim_enable_interrupt :: "u16 \<Rightarrow> simulator \<Rightarrow> simulator res" where
  "sim_enable_interrupt n s =
     (if unat n < length (sim_enable s) then Inr (s\<lparr>sim_enable := (sim_enable s)[unat n := True]\<rparr>)
      else Inl IndexOutOfBounds)"

definition sim_disable_interrupt :: "u16 \<Rightarrow> simulator \<Rightarrow> simulator res" where
  "sim_disable_interrupt n s =
     (if unat n < length (sim_enable s) then Inr (s\<lparr>sim_enable := (sim_enable s)[unat n := False]\<rparr>)
      else Inl IndexOutOfBounds)"

definition sim_interrupt_status :: "simulator \<Rightarrow> bool" where
  "sim_interrupt_status s = INTERRUPTS_ENABLED s"

definition sim_acquire :: "simulator \<Rightarrow> bool \<times> simulator" where
  "sim_acquire s =
     (let (old_state, enabled) = atomic_swap (INTERRUPTS_ENABLED s) False;
          s1 = s\<lparr>INTERRUPTS_ENABLED := enabled\<rparr>
      in (old_state, if old_state then s1\<lparr>alarm_signal_blocked := True\<rparr> else s1))"

definition sim_restore :: "bool \<Rightarrow> simulator \<Rightarrow> simulator" where
  "sim_restore restore_state s =
     (if restore_state then s\<lparr>INTERRUPTS_ENABLED := True, alarm_signal_blocked := False\<rparr> else s)"

definition sim_set_wakeup :: "bool \<Rightarrow> u64 option \<Rightarrow> simulator \<Rightarrow> simulator res" where
  "sim_set_wakeup checks at s =
     (case at of
        None \<Rightarrow> Inr (s\<lparr>sim_wait_until := None\<rparr>)
      | Some t \<Rightarrow>
          bind_res (ticks_to_timespec checks t) (\<lambda>time. Inr (s\<lparr>sim_wait_until := Some time\<rparr>)))"

text \<open>
  The timer thread each time it wakes up, at the time \<open>now\<close>: if the alarm is due, it forgets it and
  sends the alarm signal.
\<close>

definition timer_thread_poll :: "bool \<Rightarrow> timespec \<Rightarrow> simulator \<Rightarrow> (bool \<times> simulator) res" where
  "timer_thread_poll checks now s =
     (case sim_wait_until s of
        None \<Rightarrow> Inr (False, s)
      | Some time \<Rightarrow>
          bind_res (timespec_to_ticks checks now) (\<lambda>now_ticks.
          bind_res (timespec_to_ticks checks time) (\<lambda>time_ticks.
            Inr (if now_ticks \<ge> time_ticks then (True, s\<lparr>sim_wait_until := None\<rparr>) else (False, s)))))"

section \<open>The e310x\<close>

record e310x =
  plic_priority :: "u32 list"
  plic_threshold :: u32
  plic_enable :: "u32 list"
  plic_claim :: u32
  plic_completed :: "u32 list"
  mie :: bool
  mtimecmp :: u32
  mtimecmph :: u32

text \<open>
  \<open>plic_claim\<close> is what reading the claim register returns; \<open>plic_completed\<close> are the values
  written to it, latest first.
\<close>

record e310x_claim =
  e_interrupt_number :: u16
  e_restore_threshold :: u8

definition e_interrupt_status :: "e310x \<Rightarrow> bool" where
  "e_interrupt_status s = mie s"

definition e_acquire :: "e310x \<Rightarrow> bool \<times> e310x" where
  "e_acquire s = (mie s, s\<lparr>mie := False\<rparr>)"

definition e_restore :: "bool \<Rightarrow> e310x \<Rightarrow> e310x" where
  "e_restore restore_state s = (if restore_state then s\<lparr>mie := True\<rparr> else s)"

definition e_get_interrupt_priority :: "u16 \<Rightarrow> e310x \<Rightarrow> u8 res" where
  "e_get_interrupt_priority n s =
     (if unat n < length (plic_priority s) then Inr (ucast (plic_priority s ! unat n)) else Inl IndexOutOfBounds)"

definition e_set_interrupt_priority :: "u16 \<Rightarrow> u8 \<Rightarrow> e310x \<Rightarrow> (u8 \<times> e310x) res" where
  "e_set_interrupt_priority n prio s =
     (let (restore_state, s1) = e_acquire s in
      if unat n < length (plic_priority s1) then
        let previous_priority = ucast (plic_priority s1 ! unat n);
            s2 = s1\<lparr>plic_priority := (plic_priority s1)[unat n := ucast prio]\<rparr>
        in Inr (previous_priority, e_restore restore_state s2)
      else Inl IndexOutOfBounds)"

definition e_get_interrupt_threshold :: "e310x \<Rightarrow> u8" where
  "e_get_interrupt_threshold s = ucast (plic_threshold s)"

definition e_set_interrupt_threshold :: "u8 \<Rightarrow> e310x \<Rightarrow> e310x" where
  "e_set_interrupt_threshold threshold s = s\<lparr>plic_threshold := ucast threshold\<rparr>"

definition e_claim_interrupt :: "e310x \<Rightarrow> (e310x_claim \<times> e310x) res" where
  "e_claim_interrupt s =
     (let interrupt_number = ucast (plic_claim s); restore_threshold = e_get_interrupt_threshold s in
      bind_res (e_get_interrupt_priority interrupt_number s) (\<lambda>interrupt_prio.
        let s1 = e_set_interrupt_threshold interrupt_prio s; s2 = e_restore True s1
        in Inr (\<lparr>e_interrupt_number = interrupt_number, e_restore_threshold = restore_threshold\<rparr>, s2)))"

definition e_complete_interrupt :: "e310x_claim \<Rightarrow> e310x \<Rightarrow> e310x" where
  "e_complete_interrupt claim s =
     (let s1 = e_restore False s;
          s2 = e_set_interrupt_threshold (e_restore_threshold claim) s1
      in s2\<lparr>plic_completed := ucast (e_interrupt_number claim) # plic_completed s2\<rparr>)"

text \<open>The enable bits: one word for 32 interrupts. An index outside the array panics.\<close>

definition e_set_enable :: "bool \<Rightarrow> u16 \<Rightarrow> e310x \<Rightarrow> e310x res" where
  "e_set_enable on n s =
     (let (restore_state, s1) = e_acquire s; enable_index = unat n div 32 in
      if enable_index < length (plic_enable s1) then
        let bits = plic_enable s1 ! enable_index;
            mask = push_bit (unat n mod 32) 1;
            bits1 = (if on then bits OR mask else bits AND NOT mask);
            s2 = s1\<lparr>plic_enable := (plic_enable s1)[enable_index := bits1]\<rparr>
        in Inr (e_restore restore_state s2)
      else Inl IndexOutOfBounds)"

definition e_enable_interrupt :: "u16 \<Rightarrow> e310x \<Rightarrow> e310x res" where
  "e_enable_interrupt n s = e_set_enable True n s"

definition e_disable_interrupt :: "u16 \<Rightarrow> e310x \<Rightarrow> e310x res" where
  "e_disable_interrupt n s = e_set_enable False n s"

text \<open>
  \<open>_save_interrupt_threshold\<close> and \<open>_restore_interrupt_threshold\<close>, with the threshold field of the
  context as their argument and result.
\<close>

definition save_interrupt_threshold :: "e310x \<Rightarrow> u32" where
  "save_interrupt_threshold s = plic_threshold s"

definition restore_interrupt_threshold :: "u32 \<Rightarrow> e310x \<Rightarrow> e310x" where
  "restore_interrupt_threshold context_threshold s = s\<lparr>plic_threshold := context_threshold\<rparr>"

text \<open>
  The clock is read in halves while it runs: \<open>clock i\<close> is its value at the \<open>i\<close>-th register access
  of the loop, which makes three accesses each time round.
\<close>

definition high_word :: "u64 \<Rightarrow> u32" where
  "high_word t = ucast (drop_bit 32 t)"

definition low_word :: "u64 \<Rightarrow> u32" where
  "low_word t = ucast t"

partial_function (option) e_clock_loop :: "(nat \<Rightarrow> u64) \<Rightarrow> nat \<Rightarrow> u64 option" where
  [code]: "e_clock_loop clock i =
     (let mtimeh = high_word (clock i); mtime = low_word (clock (i + 1)) in
      if mtimeh = high_word (clock (i + 2)) then Some (ucast mtime + push_bit 32 (ucast mtimeh))
      else e_clock_loop clock (i + 3))"

definition e_clock_ticks :: "(nat \<Rightarrow> u64) \<Rightarrow> u64 option" where
  "e_clock_ticks clock = e_clock_loop clock 0"

text \<open>The register writes of \<open>set_wakeup\<close>, one state after each.\<close>

definition e_set_wakeup_trace :: "u64 option \<Rightarrow> e310x \<Rightarrow> e310x list" where
  "e_set_wakeup_trace at s =
     (let at = (case at of Some t \<Rightarrow> t | None \<Rightarrow> - 1);
          s0 = snd (e_acquire s);
          s1 = s0\<lparr>mtimecmph := - 1\<rparr>;
          s2 = s1\<lparr>mtimecmp := low_word at\<rparr>;
          s3 = s2\<lparr>mtimecmph := high_word at\<rparr>
      in [s0, s1, s2, s3, e_restore (fst (e_acquire s)) s3])"

definition e_set_wakeup :: "u64 option \<Rightarrow> e310x \<Rightarrow> e310x" where
  "e_set_wakeup at s = last (e_set_wakeup_trace at s)"

section \<open>The stm32f4\<close>

text \<open>
  The device has four priority bits. \<open>nvic_get\<close> and \<open>nvic_set\<close> are \<open>NVIC::get_priority\<close> and
  \<open>NVIC::set_priority\<close> on the state of the device, \<open>basepri_read\<close> and \<open>basepri_write\<close> the accesses
  to the \<open>BASEPRI\<close> register, and \<open>primask_is_active\<close>, \<open>disable\<close>, \<open>enable\<close> those to \<open>PRIMASK\<close>.
\<close>

definition NVIC_PRIO_MAX :: u8 where
  "NVIC_PRIO_MAX = 15"

definition NVIC_PRIO_SHIFT :: nat where
  "NVIC_PRIO_SHIFT = 4"

definition stm_get_interrupt_priority :: "bool \<Rightarrow> (u16 \<Rightarrow> 's \<Rightarrow> u8) \<Rightarrow> u16 \<Rightarrow> 's \<Rightarrow> u8 res" where
  "stm_get_interrupt_priority checks nvic_get n s =
     sub_ck checks NVIC_PRIO_MAX (drop_bit NVIC_PRIO_SHIFT (nvic_get n s))"

definition stm_set_interrupt_priority ::
  "bool \<Rightarrow> (u16 \<Rightarrow> 's \<Rightarrow> u8) \<Rightarrow> (u16 \<Rightarrow> u8 \<Rightarrow> 's \<Rightarrow> 's) \<Rightarrow> u16 \<Rightarrow> u8 \<Rightarrow> 's \<Rightarrow> (u8 \<times> 's) res" where
  "stm_set_interrupt_priority checks nvic_get nvic_set n prio s =
     bind_res (sub_ck checks NVIC_PRIO_MAX prio) (\<lambda>cortex_prio.
     bind_res (stm_get_interrupt_priority checks nvic_get n s) (\<lambda>old_prio.
       Inr (old_prio, nvic_set n cortex_prio s)))"

definition stm_get_interrupt_threshold :: "bool \<Rightarrow> ('s \<Rightarrow> u8) \<Rightarrow> 's \<Rightarrow> u8 res" where
  "stm_get_interrupt_threshold checks basepri_read s =
     sub_ck checks NVIC_PRIO_MAX (drop_bit NVIC_PRIO_SHIFT (basepri_read s))"

definition stm_set_interrupt_threshold :: "bool \<Rightarrow> (u8 \<Rightarrow> 's \<Rightarrow> 's) \<Rightarrow> u8 \<Rightarrow> 's \<Rightarrow> 's res" where
  "stm_set_interrupt_threshold checks basepri_write threshold s =
     bind_res (sub_ck checks NVIC_PRIO_MAX threshold) (\<lambda>p.
       Inr (basepri_write (push_bit NVIC_PRIO_SHIFT p) s))"

definition stm_interrupt_status :: "('s \<Rightarrow> bool) \<Rightarrow> 's \<Rightarrow> bool" where
  "stm_interrupt_status primask_is_active s = primask_is_active s"

definition stm_acquire :: "('s \<Rightarrow> bool) \<Rightarrow> ('s \<Rightarrow> 's) \<Rightarrow> 's \<Rightarrow> bool \<times> 's" where
  "stm_acquire primask_is_active disable s =
     (let restore_state = primask_is_active s in (restore_state, disable s))"

definition stm_restore :: "('s \<Rightarrow> 's) \<Rightarrow> bool \<Rightarrow> 's \<Rightarrow> 's" where
  "stm_restore enable restore_state s = (if restore_state then enable s else s)"

definition stm_claim_interrupt :: "bool \<Rightarrow> u32 \<Rightarrow> u8 res" where
  "stm_claim_interrupt checks icsr = sub_ck checks (ucast icsr) 16"

text \<open>
  \<open>unpend\<close>, \<open>unmask\<close> and \<open>nvic_mask\<close> are \<open>NVIC::unpend\<close>, \<open>NVIC::unmask\<close> and \<open>NVIC::mask\<close> on the state of
  the device.
\<close>

definition stm_complete_interrupt :: "(u16 \<Rightarrow> 's \<Rightarrow> 's) \<Rightarrow> u8 \<Rightarrow> 's \<Rightarrow> 's" where
  "stm_complete_interrupt unpend claim s = unpend (ucast claim) s"

definition stm_enable_interrupt :: "(u16 \<Rightarrow> 's \<Rightarrow> 's) \<Rightarrow> u16 \<Rightarrow> 's \<Rightarrow> 's" where
  "stm_enable_interrupt unmask n s = unmask n s"

definition stm_disable_interrupt :: "(u16 \<Rightarrow> 's \<Rightarrow> 's) \<Rightarrow> u16 \<Rightarrow> 's \<Rightarrow> 's" where
  "stm_disable_interrupt nvic_mask n s = nvic_mask n s"

partial_function (option) stm_clock_loop :: "(nat \<Rightarrow> u64) \<Rightarrow> nat \<Rightarrow> u64 option" where
  [code]: "stm_clock_loop clock i =
     (let high = high_word (clock i); low = low_word (clock (i + 1)); new_high = high_word (clock (i + 2)) in
      if new_high = high then Some (push_bit 32 (ucast high) + ucast low)
      else stm_clock_loop clock (i + 3))"

definition stm_clock_ticks :: "(nat \<Rightarrow> u64) \<Rightarrow> u64 option" where
  "stm_clock_ticks clock = stm_clock_loop clock 0"

text \<open>
  \<open>set_wakeup\<close> with the clock \<open>t0\<close> when the high counter is read and \<open>t1\<close> when the low counter is
  read again: the compare values written and whether it triggers the interrupt by software.
\<close>

definition stm_set_wakeup :: "u64 \<Rightarrow> u64 \<Rightarrow> u64 option \<Rightarrow> u32 \<times> u32 \<times> bool" where
  "stm_set_wakeup t0 t1 at =
     (let at = (case at of Some t \<Rightarrow> t | None \<Rightarrow> - 1);
          compare_high = ucast (drop_bit 32 at) :: u32;
          compare_low = ucast (at AND 0xffffffff) :: u32;
          high_cnt = high_word t0
      in (compare_high, compare_low,
          high_cnt = compare_high \<and> low_word t1 > compare_low \<or> high_cnt > compare_high))"

section \<open>Disabling interrupts\<close>

text \<open>
  What a hardware layer promises about its interrupt flag: acquiring returns the old state and
  disables interrupts, restoring an enabled state enables them, restoring a disabled one does
  nothing.
\<close>

locale interrupt_control =
  fixes enabled :: "'s \<Rightarrow> bool" and acquire :: "'s \<Rightarrow> bool \<times> 's" and restore :: "bool \<Rightarrow> 's \<Rightarrow> 's"
  assumes acquire_law: "fst (acquire s) = enabled s" "\<not> enabled (snd (acquire s))"
    and restore_law: "enabled (restore True s)" "restore False s = s"
begin

lemma critical_section:
  assumes "\<not> enabled (f (snd (acquire s)))"
  shows "enabled (restore (fst (acquire s)) (f (snd (acquire s)))) = enabled s"
  using assms acquire_law(1) restore_law by (cases "enabled s") simp_all

end

interpretation sim: interrupt_control sim_interrupt_status sim_acquire sim_restore
  by unfold_locales (simp_all add: sim_interrupt_status_def sim_acquire_def sim_restore_def atomic_swap_def Let_def)

interpretation e310x: interrupt_control e_interrupt_status e_acquire e_restore
  by unfold_locales (simp_all add: e_interrupt_status_def e_acquire_def e_restore_def)

lemma stm_control:
  assumes "\<And>s. \<not> primask_is_active (disable s)" and "\<And>s. primask_is_active (enable s)"
  shows "interrupt_control primask_is_active (stm_acquire primask_is_active disable) (stm_restore enable)"
  using assms by unfold_locales (simp_all add: stm_acquire_def stm_restore_def)

section \<open>Words in halves\<close>

lemma high_low_word: "push_bit 32 (ucast (high_word t)) + ucast (low_word t) = t"
proof -
  have "push_bit 32 (ucast (high_word t)) + ucast (low_word t) = (push_bit 32 (ucast (high_word t)) OR ucast (low_word t) :: u64)"
    by (rule disjunctive_add) (auto simp: bit_simps high_word_def low_word_def)
  also have "\<dots> = t"
    by (rule bit_word_eqI) (auto simp: bit_simps high_word_def low_word_def)
  finally show ?thesis .
qed

lemma unat_high_word: "unat (high_word t) = unat t div 2 ^ 32"
proof -
  have "unat t < 2 ^ 64" using unsigned_less [of t] by simp
  then have "unat t div 2 ^ 32 < 2 ^ 32" by (intro less_mult_imp_div_less) simp
  then show ?thesis
    by (simp add: high_word_def unsigned_ucast_eq take_bit_eq_mod drop_bit_eq_div unat_div)
qed

lemma high_word_mono: "a \<le> b \<Longrightarrow> high_word a \<le> high_word b"
  by (simp add: word_le_nat_alt unat_high_word div_le_mono)

section \<open>Reading the clock\<close>

text \<open>
  A clock that does not run backwards passes from one high word to the next only finitely often,
  so the loop ends.
\<close>

lemma clock_read_stable:
  fixes clock :: "nat \<Rightarrow> u64"
  assumes mono: "\<And>i j. i \<le> j \<Longrightarrow> clock i \<le> clock j"
  shows "\<exists>n. high_word (clock (3 * n)) = high_word (clock (3 * n + 2))"
proof (rule ccontr)
  assume n: "\<nexists>n. high_word (clock (3 * n)) = high_word (clock (3 * n + 2))"
  have "n \<le> unat (high_word (clock (3 * n)))" for n
  proof (induction n)
    case (Suc n)
    have "high_word (clock (3 * n)) \<noteq> high_word (clock (3 * n + 2))" using n by blast
    moreover have "high_word (clock (3 * n)) \<le> high_word (clock (3 * n + 2))"
      "high_word (clock (3 * n + 2)) \<le> high_word (clock (3 * Suc n))" by (intro high_word_mono mono, simp)+
    ultimately have "high_word (clock (3 * n)) < high_word (clock (3 * Suc n))" by (meson order_less_le order_less_le_trans)
    then show ?case using Suc by (simp add: word_less_nat_alt)
  qed simp
  moreover have "unat (high_word (clock (3 * 2 ^ 32))) < 2 ^ 32" using unsigned_less [of "high_word (clock (3 * 2 ^ 32))"] by simp
  ultimately show False by (meson leD)
qed

lemma clock_read_step:
  fixes clock :: "nat \<Rightarrow> u64"
  assumes mono: "\<And>i j. i \<le> j \<Longrightarrow> clock i \<le> clock j" and eq: "high_word (clock i) = high_word (clock (i + 2))"
  shows "e_clock_loop clock i = Some (clock (i + 1)) \<and> stm_clock_loop clock i = Some (clock (i + 1))"
proof -
  have "high_word (clock (i + 1)) = high_word (clock i)"
    using eq high_word_mono [OF mono, of i "i + 1"] high_word_mono [OF mono, of "i + 1" "i + 2"] by simp
  then show ?thesis using eq high_low_word [of "clock (i + 1)"]
    by (simp add: e_clock_loop.simps [of clock i] stm_clock_loop.simps [of clock i] Let_def add.commute)
qed

lemma clock_loop_result:
  fixes clock :: "nat \<Rightarrow> u64"
  assumes mono: "\<And>i j. i \<le> j \<Longrightarrow> clock i \<le> clock j"
    and "high_word (clock (3 * n + i)) = high_word (clock (3 * n + i + 2))"
  shows "\<exists>j. e_clock_loop clock i = Some (clock j) \<and> stm_clock_loop clock i = Some (clock j)"
  using assms(2)
proof (induction n arbitrary: i)
  case 0
  then show ?case using clock_read_step [of clock i, OF mono] by auto
next
  case (Suc n)
  show ?case
  proof (cases "high_word (clock i) = high_word (clock (i + 2))")
    case True
    then show ?thesis using clock_read_step [of clock i, OF mono] by blast
  next
    case False
    have "3 * Suc n + i = 3 * n + (i + 3)" by simp
    then obtain j where "e_clock_loop clock (i + 3) = Some (clock j)" "stm_clock_loop clock (i + 3) = Some (clock j)"
      using Suc.IH [of "i + 3"] Suc.prems by metis
    then show ?thesis using False
      by (intro exI [of _ j]) (auto simp: e_clock_loop.simps [of clock i] stm_clock_loop.simps [of clock i] Let_def)
  qed
qed

section \<open>Register bits\<close>

definition compare_value :: "e310x \<Rightarrow> u64" where
  "compare_value s = push_bit 32 (ucast (mtimecmph s)) + ucast (mtimecmp s)"

lemma unat_compare: "unat (compare_value s) = unat (mtimecmph s) * 2 ^ 32 + unat (mtimecmp s)"
proof -
  have h: "unat (mtimecmph s) < 2 ^ 32" "unat (mtimecmp s) < 2 ^ 32"
    using unsigned_less [of "mtimecmph s"] unsigned_less [of "mtimecmp s"] by simp_all
  have "unat (push_bit 32 (ucast (mtimecmph s) :: u64)) = unat (mtimecmph s) * 2 ^ 32"
    using h(1) by (simp add: push_bit_eq_mult unat_word_ariths unsigned_ucast_eq take_bit_eq_mod)
  moreover have "unat (ucast (mtimecmp s) :: u64) = unat (mtimecmp s)"
    using h(2) by (simp add: unsigned_ucast_eq take_bit_eq_mod)
  ultimately show ?thesis using h by (simp add: compare_value_def unat_word_ariths)
qed

definition interrupt_enabled :: "e310x \<Rightarrow> nat \<Rightarrow> bool" where
  "interrupt_enabled s n \<longleftrightarrow> bit (plic_enable s ! (n div 32)) (n mod 32)"

lemma e_set_enable_bits:
  assumes "unat n div 32 < length (plic_enable s)"
  shows "\<exists>s'. e_set_enable on n s = Inr s' \<and> mie s' = mie s
     \<and> (\<forall>m. interrupt_enabled s' m = (if m = unat n then on else interrupt_enabled s m))"
proof -
  let ?w = "plic_enable s ! (unat n div 32)" and ?m = "push_bit (unat n mod 32) 1 :: u32"
  let ?b = "if on then ?w OR ?m else ?w AND NOT ?m"
  let ?s = "s\<lparr>plic_enable := (plic_enable s)[unat n div 32 := ?b]\<rparr>"
  have "e_set_enable on n s = Inr ?s"
    using assms by (cases s) (simp add: e_set_enable_def e_acquire_def e_restore_def Let_def)
  moreover have "interrupt_enabled ?s m = (if m = unat n then on else interrupt_enabled s m)" for m
  proof (cases "m div 32 = unat n div 32")
    case True
    then have "m = unat n \<longleftrightarrow> m mod 32 = unat n mod 32" by (metis div_mult_mod_eq)
    then show ?thesis using True assms
      by (auto simp: interrupt_enabled_def nth_list_update bit_simps)
  next
    case False
    then show ?thesis by (auto simp: interrupt_enabled_def nth_list_update)
  qed
  ultimately show ?thesis by (intro exI [of _ ?s]) simp
qed

section \<open>Properties\<close>

text \<open>
  Claim C39. Reading the 64-bit clock in halves: on a clock that does not run backwards, the loops
  of the e310x and of the stm32f4 end, and return a value the clock had during the read, even
  when the low half overflows meanwhile.
\<close>

theorem clock_ticks_consistent:
  assumes "\<forall>i j. i \<le> j \<longrightarrow> clock i \<le> clock j"
  shows "\<exists>j. e_clock_ticks clock = Some (clock j) \<and> stm_clock_ticks clock = Some (clock j)"
proof -
  have mono: "\<And>i j. i \<le> j \<Longrightarrow> clock i \<le> clock j" using assms by blast
  obtain n where "high_word (clock (3 * n)) = high_word (clock (3 * n + 2))" using clock_read_stable [of clock, OF mono] by blast
  then have "high_word (clock (3 * n + 0)) = high_word (clock (3 * n + 0 + 2))" by simp
  from clock_loop_result [of clock n 0, OF mono this] show ?thesis by (simp add: e_clock_ticks_def stm_clock_ticks_def)
qed

theorem clock_ticks_consistent_witness:
  "\<exists>j. e_clock_ticks (\<lambda>i. if i = 0 then 0xffffffff else 0x100000000) =
     Some (if j = (0 :: nat) then 0xffffffff else 0x100000000)"
proof -
  have "\<forall>i j :: nat. i \<le> j \<longrightarrow> (if i = 0 then 0xffffffff else 0x100000000 :: u64) \<le> (if j = 0 then 0xffffffff else 0x100000000)"
    by auto
  from clock_ticks_consistent [OF this] show ?thesis by blast
qed

text \<open>
  Programming the e310x timer: the comparator ends at the requested time, or at the
  largest value if there is none, with the interrupt flag as before; and after every single
  register write on the way it is not below both the old and the new time, so no alarm fires that
  neither of them asks for.
\<close>

theorem e310x_wakeup_never_early:
  "compare_value (e_set_wakeup at s) = (case at of Some t \<Rightarrow> t | None \<Rightarrow> - 1) \<and> mie (e_set_wakeup at s) = mie s
   \<and> list_all (\<lambda>s'. compare_value s \<le> compare_value s' \<or> compare_value (e_set_wakeup at s) \<le> compare_value s')
       (e_set_wakeup_trace at s)"
proof -
  let ?t = "case at of Some t \<Rightarrow> t | None \<Rightarrow> - 1"
  have last: "compare_value (e_set_wakeup at s) = ?t" "mie (e_set_wakeup at s) = mie s"
    using high_low_word [of ?t]
    by (simp_all add: e_set_wakeup_def e_set_wakeup_trace_def compare_value_def Let_def e_acquire_def e_restore_def)
  have max: "compare_value a \<le> compare_value b" if "mtimecmph b = - 1" "mtimecmp b = mtimecmp a" for a b
  proof -
    have "unat (mtimecmph a) \<le> unat (- 1 :: u32)" using word_le_nat_alt [of "mtimecmph a" "- 1"] by simp
    then show ?thesis using that by (simp add: word_le_nat_alt unat_compare)
  qed
  let ?s0 = "s\<lparr>mie := False\<rparr>"
  let ?s1 = "?s0\<lparr>mtimecmph := - 1\<rparr>"
  let ?s2 = "?s1\<lparr>mtimecmp := low_word ?t\<rparr>"
  let ?s3 = "?s2\<lparr>mtimecmph := high_word ?t\<rparr>"
  have trace: "e_set_wakeup_trace at s = [?s0, ?s1, ?s2, ?s3, e_set_wakeup at s]"
    by (simp add: e_set_wakeup_def e_set_wakeup_trace_def Let_def e_acquire_def)
  have s0: "compare_value ?s0 = compare_value s" by (simp add: compare_value_def)
  have s1: "compare_value s \<le> compare_value ?s1" by (rule max) simp_all
  have s3: "compare_value ?s3 = ?t" using high_low_word [of ?t] by (simp add: compare_value_def)
  have s2: "compare_value ?s3 \<le> compare_value ?s2" by (rule max) simp_all
  show ?thesis using last s0 s1 s2 s3 unfolding trace by (simp del: select_convs update_convs)
qed

text \<open>
  Claiming an e310x interrupt raises the threshold to its priority, enables interrupts and
  remembers the old threshold. Completing it restores the threshold and acknowledges the interrupt,
  but the call that should disable interrupts first does nothing: they are still enabled when the
  threshold is lowered and the handler is not finished.
\<close>

theorem e310x_complete_leaves_interrupts_enabled:
  assumes "unat (ucast (plic_claim s) :: u16) < length (plic_priority s)" and "unat (plic_threshold s) < 256"
  shows "\<exists>claim s1 p. e_claim_interrupt s = Inr (claim, s1) \<and> mie s1
     \<and> e_get_interrupt_priority (e_interrupt_number claim) s = Inr p \<and> e_get_interrupt_threshold s1 = p
     \<and> (\<forall>s2. plic_threshold (e_complete_interrupt claim s2) = plic_threshold s
            \<and> plic_completed (e_complete_interrupt claim s2) = ucast (e_interrupt_number claim) # plic_completed s2
            \<and> mie (e_complete_interrupt claim s2) = mie s2
            \<and> e_restore False s2 = s2)"
proof -
  have "ucast (ucast (plic_threshold s) :: u8) = plic_threshold s"
    using assms(2) by (simp add: word_unat_eq_iff unsigned_ucast_eq take_bit_eq_mod unat_mod)
  moreover have "ucast (ucast w :: u32) = w" for w :: u8 by (rule bit_word_eqI) (simp add: bit_simps)
  ultimately show ?thesis using assms(1)
    by (simp add: e_claim_interrupt_def e_get_interrupt_priority_def e_get_interrupt_threshold_def
        e_set_interrupt_threshold_def e_restore_def e_complete_interrupt_def Let_def)
qed

lemma unat_drop4: "unat (drop_bit 4 (w :: u8)) = unat w div 16"
  by (simp add: drop_bit_eq_div unat_div)

lemma drop4_le: "drop_bit 4 (w :: u8) \<le> 15"
proof -
  have "unat w < 256" using unsigned_less [of w] by simp
  then have "unat w div 16 \<le> 15" by simp
  then show ?thesis by (simp add: word_le_nat_alt unat_drop4)
qed

lemma unat_prio: "p \<le> 15 \<Longrightarrow> unat (15 - p :: u8) = 15 - unat p"
  by (simp add: unat_sub)

lemma unat_push4: "unat q < 16 \<Longrightarrow> unat (push_bit 4 (q :: u8)) = unat q * 16"
  by (simp add: push_bit_eq_mult unat_word_ariths)

lemma unat_shifted_prio: "p \<le> 15 \<Longrightarrow> unat (push_bit 4 (15 - p :: u8)) = (15 - unat p) * 16"
  using unat_push4 [of "15 - p"] unat_prio [of p] by simp

theorem e310x_complete_leaves_interrupts_enabled_witness:
  "\<exists>claim s1. e_claim_interrupt \<lparr>plic_priority = [0, 5], plic_threshold = 2, plic_enable = [2], plic_claim = 1,
       plic_completed = [], mie = False, mtimecmp = 0, mtimecmph = 0\<rparr> = Inr (claim, s1)
     \<and> mie (e_complete_interrupt claim s1)"
  using e310x_complete_leaves_interrupts_enabled [of "\<lparr>plic_priority = [0, 5], plic_threshold = 2, plic_enable = [2],
      plic_claim = 1, plic_completed = [], mie = False, mtimecmp = 0, mtimecmph = 0\<rparr>"]
  by fastforce

text \<open>
  On the stm32f4 the priority of an interrupt is written without the shift into the
  implemented bits: whatever priority is set, the highest one is read back.
\<close>

theorem stm32_priority_lost:
  assumes "\<forall>n b s. nvic_get n (nvic_set n b s) = b AND 0xf0" and "prio \<le> 15"
  shows "\<exists>old s'. stm_set_interrupt_priority checks nvic_get nvic_set n prio s = Inr (old, s')
     \<and> stm_get_interrupt_priority checks nvic_get n s' = Inr 15"
proof -
  have "drop_bit 4 (15 - prio) = 0"
    using unat_prio [OF assms(2)] by (simp add: word_unat_eq_iff unat_drop4)
  then have "drop_bit 4 ((15 - prio) AND 0xf0) = 0" by (simp add: drop_bit_and)
  moreover have "\<not> prio > 15" "\<not> drop_bit 4 w > 15" for w :: u8 using assms(2) drop4_le [of w] by (simp_all add: not_less)
  ultimately show ?thesis using assms(1)
    by (simp add: stm_set_interrupt_priority_def stm_get_interrupt_priority_def sub_ck_def NVIC_PRIO_MAX_def
        NVIC_PRIO_SHIFT_def)
qed

theorem stm32_priority_lost_witness:
  "\<exists>old s'. stm_set_interrupt_priority True (\<lambda>n s. s n) (\<lambda>n b s. s(n := b AND 0xf0)) 28 3 (\<lambda>_. 0) = Inr (old, s')
     \<and> stm_get_interrupt_priority True (\<lambda>n s. s n) 28 s' = Inr 15"
  by (rule stm32_priority_lost) simp_all

text \<open>
  Claim C40. The stm32f4 threshold masks the interrupts up to and including that priority, except for
  the highest threshold: that writes zero into \<open>BASEPRI\<close>, which masks nothing.
\<close>

theorem stm32_threshold_masks:
  assumes "\<forall>basepri x. masks basepri x \<longleftrightarrow> basepri \<noteq> (0 :: u8) \<and> basepri \<le> x" and "t \<le> 15" and "p \<le> (15 :: u8)"
  shows "\<exists>b. stm_set_interrupt_threshold checks basepri_write t s = Inr (basepri_write b s)
     \<and> (masks b (push_bit 4 (15 - p)) \<longleftrightarrow> t \<noteq> 15 \<and> p \<le> t)"
proof -
  have "unat t \<le> 15" "unat p \<le> 15" using assms(2,3) by (simp_all add: word_le_nat_alt)
  then have "push_bit 4 (15 - t) \<noteq> 0 \<and> push_bit 4 (15 - t) \<le> push_bit 4 (15 - p) \<longleftrightarrow> t \<noteq> 15 \<and> p \<le> t"
    by (simp add: word_unat_eq_iff word_le_nat_alt unat_shifted_prio assms(2,3)) arith
  moreover have "\<not> t > 15" using assms(2) by (simp add: not_less)
  ultimately show ?thesis using assms(1)
    by (simp add: stm_set_interrupt_threshold_def sub_ck_def NVIC_PRIO_MAX_def NVIC_PRIO_SHIFT_def)
      (metis (no_types))?
qed

theorem stm32_threshold_masks_witness:
  "\<exists>b. stm_set_interrupt_threshold True (\<lambda>b _. b) 15 0 = Inr b \<and> \<not> (b \<noteq> 0 \<and> b \<le> push_bit 4 (15 - 7))"
  using stm32_threshold_masks [of "\<lambda>b x. b \<noteq> 0 \<and> b \<le> x" 15 7 True "\<lambda>b _. b" 0] by simp

text \<open>
  On the stm32f4 an interrupt that comes again while its handler runs is forgotten: the processor
  has cleared the pending bit when it entered the handler, so that a bit that is set at the end
  stands for a new interrupt, and completing the interrupt clears it. On entry the active exception
  is the interrupt's number plus 16.
\<close>

theorem stm32_complete_forgets_interrupt:
  assumes "\<forall>m n s. pending m (unpend n s) \<longleftrightarrow> m \<noteq> n \<and> pending m s" and "n < 240"
    and "(ucast icsr :: u8) = ucast n + 16"
  shows "\<exists>claim. stm_claim_interrupt checks icsr = Inr claim
     \<and> (\<forall>s. pending n s \<longrightarrow> \<not> pending n (stm_complete_interrupt unpend claim s))"
proof -
  let ?c = "ucast n :: u8"
  have lt: "unat n < 240" using assms(2) by (simp add: word_less_nat_alt)
  then have c: "unat ?c = unat n" by (simp add: unsigned_ucast_eq take_bit_nat_eq_self take_bit_word_eq_self)
  have "unat (?c + 16) = unat n + 16" using lt c by (simp add: unat_word_ariths)
  then have "\<not> ?c + 16 < 16" by (simp add: word_less_nat_alt)
  then have claim: "stm_claim_interrupt checks icsr = Inr ?c" using assms(3) by (simp add: stm_claim_interrupt_def sub_ck_def)
  have "(ucast ?c :: u16) = n" using lt c by (simp add: word_unat_eq_iff unsigned_ucast_eq take_bit_eq_mod unat_mod)
  with assms(1) claim show ?thesis by (auto simp: stm_complete_interrupt_def)
qed

theorem stm32_complete_forgets_interrupt_witness:
  "\<exists>claim. stm_claim_interrupt True 44 = Inr claim \<and> 28 \<notin> stm_complete_interrupt (\<lambda>n s. s - {n}) claim {28}"
  using stm32_complete_forgets_interrupt [of "\<lambda>m s. m \<in> s" "\<lambda>n s. s - {n}" 28 44 True] by auto

text \<open>
  An alarm of the simulator: once it is set, the timer thread signals it when, and only
  when, the clock has reached it, and then forgets it.
\<close>

theorem sim_alarm_fires_when_due:
  assumes "timespec_to_ticks checks now = Inr n"
  shows "\<exists>s'. sim_set_wakeup checks (Some t) s = Inr s'
     \<and> timer_thread_poll checks now s' =
         Inr (if t \<le> n then (True, s'\<lparr>sim_wait_until := None\<rparr>) else (False, s'))"
  using timespec_exact [of checks t] assms by (auto simp: sim_set_wakeup_def timer_thread_poll_def)

theorem sim_alarm_fires_when_due_witness:
  "\<exists>s'. sim_set_wakeup True (Some 5) sim_controller_new = Inr s'
     \<and> timer_thread_poll True \<lparr>tv_sec = 1, tv_nsec = 0\<rparr> s' = Inr (True, s'\<lparr>sim_wait_until := None\<rparr>)"
proof -
  have "timespec_to_ticks True \<lparr>tv_sec = 1, tv_nsec = 0\<rparr> = Inr 10000000"
    by (simp add: timespec_to_ticks_def TIMER_FREQ_HZ_def mul_ck_def add_ck_def)
  from sim_alarm_fires_when_due [OF this, of 5] show ?thesis by simp
qed

end
