(* ===== verification/Cells.thy ===== *)
theory Cells
  imports Prelude
begin

text \<open>
  Cells with borrow flags (\<open>cell/refcell.rs\<close>, \<open>cell/pincell.rs\<close>), the cells that a lock's key
  opens (\<open>cell/locked_cell.rs\<close>) and cells that are written once (\<open>sync/once.rs\<close>,
  \<open>sync/once_lock.rs\<close>). A reference is a right to read or write the cell it was borrowed from, so
  borrowing changes only the flag of the cell; reading and writing through a reference act on the
  cell's value. A lock key carries no data: it is the permission to call, and is left out.
\<close>

section \<open>Borrow flags\<close>

text \<open>
  \<open>BorrowFlag\<close> is an \<open>isize\<close>; its largest value is that of the 32-bit targets. The flag is only
  ever incremented below that value, so it cannot wrap.
\<close>

type_synonym borrow_flag = int

definition ISIZE_MAX :: int where
  "ISIZE_MAX = 2 ^ 31 - 1"

definition new_mutable :: "borrow_flag \<Rightarrow> borrow_flag res" where
  "new_mutable flag = (if flag \<noteq> 0 then Inl (Panic ''already borrowed'') else Inr (- 1))"

definition new_immutable :: "borrow_flag \<Rightarrow> borrow_flag res" where
  "new_immutable flag =
     (if flag < 0 then Inl (Panic ''already borrowed mutably'')
      else if flag = ISIZE_MAX then Inl (Panic ''overflow'')
      else Inr (flag + 1))"

definition borrow_ref_drop :: "borrow_flag \<Rightarrow> borrow_flag res" where
  "borrow_ref_drop flag =
     (if flag < 0 then Inr 0 else if flag > 0 then Inr (flag - 1) else Inl Unreachable)"

record 't ref_cell =
  cell_borrow :: borrow_flag
  cell_value :: 't

datatype borrow_error = BorrowError

datatype borrow_mut_error = BorrowMutError

definition with_flag :: "(borrow_flag \<Rightarrow> borrow_flag res) \<Rightarrow> 't ref_cell \<Rightarrow> 't ref_cell res" where
  "with_flag f c = bind_res (f (cell_borrow c)) (\<lambda>b. Inr (c\<lparr>cell_borrow := b\<rparr>))"

section \<open>RefCell\<close>

definition rc_new :: "'t \<Rightarrow> 't ref_cell" where
  "rc_new v = \<lparr>cell_borrow = 0, cell_value = v\<rparr>"

definition rc_replace :: "'t \<Rightarrow> 't ref_cell \<Rightarrow> 't \<times> 't ref_cell" where
  "rc_replace t c = (cell_value c, c\<lparr>cell_value := t\<rparr>)"

text \<open>The closure may change the old value before it returns the replacement.\<close>

definition rc_replace_with :: "('t \<Rightarrow> 't \<times> 't) \<Rightarrow> 't ref_cell \<Rightarrow> 't \<times> 't ref_cell" where
  "rc_replace_with f c =
     (let (replacement, dest) = f (cell_value c) in (dest, c\<lparr>cell_value := replacement\<rparr>))"

definition rc_swap :: "'t ref_cell \<Rightarrow> 't ref_cell \<Rightarrow> 't ref_cell \<times> 't ref_cell" where
  "rc_swap c d = (c\<lparr>cell_value := cell_value d\<rparr>, d\<lparr>cell_value := cell_value c\<rparr>)"

definition is_mutably_borrowed :: "'t ref_cell \<Rightarrow> bool" where
  "is_mutably_borrowed c \<longleftrightarrow> cell_borrow c < 0"

definition is_immutably_borrowed :: "'t ref_cell \<Rightarrow> bool" where
  "is_immutably_borrowed c \<longleftrightarrow> cell_borrow c > 0"

definition is_borrowed :: "'t ref_cell \<Rightarrow> bool" where
  "is_borrowed c \<longleftrightarrow> cell_borrow c \<noteq> 0"

definition rc_borrow :: "'t ref_cell \<Rightarrow> 't ref_cell res" where
  "rc_borrow c = with_flag new_immutable c"

definition rc_try_borrow :: "'t ref_cell \<Rightarrow> (borrow_error + 't ref_cell) res" where
  "rc_try_borrow c =
     (if is_immutably_borrowed c then Inr (Inl BorrowError)
      else bind_res (with_flag new_immutable c) (\<lambda>c1. Inr (Inr c1)))"

definition rc_borrow_mut :: "'t ref_cell \<Rightarrow> 't ref_cell res" where
  "rc_borrow_mut c = with_flag new_mutable c"

definition rc_try_borrow_mut :: "'t ref_cell \<Rightarrow> (borrow_mut_error + 't ref_cell) res" where
  "rc_try_borrow_mut c =
     (if is_borrowed c then Inr (Inl BorrowMutError)
      else bind_res (with_flag new_mutable c) (\<lambda>c1. Inr (Inr c1)))"

definition rc_take :: "'t \<Rightarrow> 't ref_cell \<Rightarrow> 't \<times> 't ref_cell" where
  "rc_take dflt c = rc_replace dflt c"

text \<open>\<open>Ref\<close> and \<open>RefMut\<close>: reading, cloning a shared reference, writing, and dropping either.\<close>

definition ref_deref :: "'t ref_cell \<Rightarrow> 't" where
  "ref_deref c = cell_value c"

definition ref_clone :: "'t ref_cell \<Rightarrow> 't ref_cell res" where
  "ref_clone c = with_flag new_immutable c"

definition refmut_deref :: "'t ref_cell \<Rightarrow> 't" where
  "refmut_deref c = cell_value c"

definition refmut_write :: "'t \<Rightarrow> 't ref_cell \<Rightarrow> 't ref_cell" where
  "refmut_write v c = c\<lparr>cell_value := v\<rparr>"

definition ref_drop :: "'t ref_cell \<Rightarrow> 't ref_cell res" where
  "ref_drop c = with_flag borrow_ref_drop c"

section \<open>PinRefCell\<close>

definition prc_new :: "'t \<Rightarrow> 't ref_cell" where
  "prc_new v = \<lparr>cell_borrow = 0, cell_value = v\<rparr>"

definition prc_borrow :: "'t ref_cell \<Rightarrow> 't ref_cell res" where
  "prc_borrow c = with_flag new_immutable c"

definition prc_borrow_mut :: "'t ref_cell \<Rightarrow> 't ref_cell res" where
  "prc_borrow_mut c = with_flag new_mutable c"

definition prc_try_borrow_mut :: "'t ref_cell \<Rightarrow> (borrow_mut_error + 't ref_cell) res" where
  "prc_try_borrow_mut c =
     (if cell_borrow c \<noteq> 0 then Inr (Inl BorrowMutError)
      else bind_res (with_flag new_mutable c) (\<lambda>c1. Inr (Inr c1)))"

definition pinref_clone :: "'t ref_cell \<Rightarrow> 't ref_cell res" where
  "pinref_clone c = with_flag new_immutable c"

definition pinref_as_ref :: "'t ref_cell \<Rightarrow> 't" where
  "pinref_as_ref c = cell_value c"

section \<open>LockedCell\<close>

record 't locked_cell =
  lcell_value :: 't

definition lc_new :: "'t \<Rightarrow> 't locked_cell" where
  "lc_new v = \<lparr>lcell_value = v\<rparr>"

definition lc_get :: "'t locked_cell \<Rightarrow> 't" where
  "lc_get c = lcell_value c"

definition lc_replace :: "'t \<Rightarrow> 't locked_cell \<Rightarrow> 't \<times> 't locked_cell" where
  "lc_replace v c = (lcell_value c, c\<lparr>lcell_value := v\<rparr>)"

definition lc_set :: "'t \<Rightarrow> 't locked_cell \<Rightarrow> 't locked_cell" where
  "lc_set v c = (let (old, c1) = lc_replace v c in c1)"

definition lc_update :: "('t \<Rightarrow> 't) \<Rightarrow> 't locked_cell \<Rightarrow> 't \<times> 't locked_cell" where
  "lc_update f c = (let old = lc_get c; new = f old in (new, lc_set new c))"

definition lc_take :: "'t \<Rightarrow> 't locked_cell \<Rightarrow> 't \<times> 't locked_cell" where
  "lc_take dflt c = lc_replace dflt c"

section \<open>LockedRefCell\<close>

definition lrc_new :: "'t \<Rightarrow> 't ref_cell" where
  "lrc_new v = \<lparr>cell_borrow = 0, cell_value = v\<rparr>"

definition lrc_borrow :: "'t ref_cell \<Rightarrow> 't ref_cell res" where
  "lrc_borrow c = with_flag new_immutable c"

definition lrc_try_borrow :: "'t ref_cell \<Rightarrow> (borrow_error + 't ref_cell) res" where
  "lrc_try_borrow c =
     (if cell_borrow c < 0 then Inr (Inl BorrowError)
      else bind_res (with_flag new_immutable c) (\<lambda>c1. Inr (Inr c1)))"

definition lrc_borrow_mut :: "'t ref_cell \<Rightarrow> 't ref_cell res" where
  "lrc_borrow_mut c = with_flag new_mutable c"

definition lrc_try_borrow_mut :: "'t ref_cell \<Rightarrow> (borrow_mut_error + 't ref_cell) res" where
  "lrc_try_borrow_mut c =
     (if cell_borrow c \<noteq> 0 then Inr (Inl BorrowMutError)
      else bind_res (with_flag new_mutable c) (\<lambda>c1. Inr (Inr c1)))"

definition lref_clone :: "'t ref_cell \<Rightarrow> 't ref_cell res" where
  "lref_clone c = with_flag new_immutable c"

definition lref_deref :: "'t ref_cell \<Rightarrow> 't" where
  "lref_deref c = cell_value c"

definition lrefmut_write :: "'t \<Rightarrow> 't ref_cell \<Rightarrow> 't ref_cell" where
  "lrefmut_write v c = c\<lparr>cell_value := v\<rparr>"

text \<open>
  Replacing borrows the cell mutably until the reference is dropped at the end of the function.
\<close>

definition lrc_replace :: "'t \<Rightarrow> 't ref_cell \<Rightarrow> ('t \<times> 't ref_cell) res" where
  "lrc_replace t c =
     bind_res (lrc_borrow_mut c) (\<lambda>c1.
     bind_res (ref_drop (lrefmut_write t c1)) (\<lambda>c2. Inr (cell_value c1, c2)))"

definition lrc_replace_with :: "('t \<Rightarrow> 't \<times> 't) \<Rightarrow> 't ref_cell \<Rightarrow> ('t \<times> 't ref_cell) res" where
  "lrc_replace_with f c =
     bind_res (lrc_borrow_mut c) (\<lambda>c1.
       let (replacement, dest) = f (cell_value c1) in
       bind_res (ref_drop (lrefmut_write replacement c1)) (\<lambda>c2. Inr (dest, c2)))"

definition lrc_take :: "'t \<Rightarrow> 't ref_cell \<Rightarrow> ('t \<times> 't ref_cell) res" where
  "lrc_take dflt c = lrc_replace dflt c"

text \<open>Swapping two cells of a store, which may be the same cell. \<open>other\<close> is dropped first.\<close>

definition lrc_swap :: "nat \<Rightarrow> nat \<Rightarrow> (nat \<Rightarrow> 't ref_cell) \<Rightarrow> (nat \<Rightarrow> 't ref_cell) res" where
  "lrc_swap a b cells =
     (if a = b then Inr cells
      else
        bind_res (lrc_borrow_mut (cells a)) (\<lambda>dest.
        bind_res (lrc_borrow_mut (cells b)) (\<lambda>other.
        bind_res (ref_drop (lrefmut_write (cell_value dest) other)) (\<lambda>other1.
        bind_res (ref_drop (lrefmut_write (cell_value other) dest)) (\<lambda>dest1.
          Inr (cells(b := other1, a := dest1)))))))"

section \<open>LockedPinRefCell\<close>

definition lprc_new :: "'t \<Rightarrow> 't ref_cell" where
  "lprc_new v = \<lparr>cell_borrow = 0, cell_value = v\<rparr>"

definition lprc_borrow :: "'t ref_cell \<Rightarrow> 't ref_cell res" where
  "lprc_borrow c = with_flag new_immutable c"

definition lprc_borrow_mut :: "'t ref_cell \<Rightarrow> 't ref_cell res" where
  "lprc_borrow_mut c = with_flag new_mutable c"

definition lprc_try_borrow_mut :: "'t ref_cell \<Rightarrow> (borrow_mut_error + 't ref_cell) res" where
  "lprc_try_borrow_mut c =
     (if cell_borrow c \<noteq> 0 then Inr (Inl BorrowMutError)
      else bind_res (with_flag new_mutable c) (\<lambda>c1. Inr (Inr c1)))"

section \<open>Once\<close>

definition UNSTARTED :: u8 where
  "UNSTARTED = 0"

definition STARTED :: u8 where
  "STARTED = 1"

definition COMPLETED :: u8 where
  "COMPLETED = 2"

definition once_new :: u8 where
  "once_new = UNSTARTED"

text \<open>The closure runs in the state \<open>STARTED\<close>, which it may see, on the rest of the state.\<close>

definition call_once :: "(u8 \<times> 's \<Rightarrow> (u8 \<times> 's) res) \<Rightarrow> u8 \<times> 's \<Rightarrow> (u8 \<times> 's) res" where
  "call_once f s =
     (case atomic_compare_exchange (fst s) UNSTARTED STARTED of
        (Inr _, st) \<Rightarrow> bind_res (f (st, snd s)) (\<lambda>s1. Inr (COMPLETED, snd s1))
      | (Inl _, st) \<Rightarrow> Inr (st, snd s))"

definition is_completed :: "u8 \<Rightarrow> bool" where
  "is_completed st \<longleftrightarrow> st = COMPLETED"

section \<open>LockedOnceCell and OnceLock\<close>

text \<open>\<open>MaybeUninit\<close> is an option; reading \<open>None\<close> is a read of uninitialised memory.\<close>

record 't once_cell =
  oc_once :: u8
  oc_value :: "'t option locked_cell"

definition assume_init :: "'t option \<Rightarrow> 't res" where
  "assume_init m = (case m of None \<Rightarrow> Inl UninitRead | Some v \<Rightarrow> Inr v)"

definition oc_new :: "'t once_cell" where
  "oc_new = \<lparr>oc_once = once_new, oc_value = lc_new None\<rparr>"

definition oc_get :: "'t once_cell \<Rightarrow> 't option res" where
  "oc_get c =
     (if is_completed (oc_once c)
      then bind_res (assume_init (lc_get (oc_value c))) (\<lambda>v. Inr (Some v)) else Inr None)"

definition oc_get_mut :: "'t once_cell \<Rightarrow> 't option res" where
  "oc_get_mut c =
     (if is_completed (oc_once c)
      then bind_res (assume_init (lc_get (oc_value c))) (\<lambda>v. Inr (Some v)) else Inr None)"

text \<open>The closure of \<open>set\<close> takes the value out of the local option and stores it.\<close>

definition oc_set :: "'t \<Rightarrow> 't once_cell \<Rightarrow> (('t + unit) \<times> 't once_cell) res" where
  "oc_set v c =
     bind_res (call_once (\<lambda>(st, local, cell).
         case local of
           None \<Rightarrow> Inl (Panic ''called `Option::unwrap()` on a `None` value'')
         | Some x \<Rightarrow> Inr (st, None, lc_set (Some x) cell))
       (oc_once c, Some v, oc_value c)) (\<lambda>(st, local, cell).
     Inr (case local of None \<Rightarrow> Inr () | Some x \<Rightarrow> Inl x, c\<lparr>oc_once := st, oc_value := cell\<rparr>))"

definition oc_get_or_init :: "'t res \<Rightarrow> 't once_cell \<Rightarrow> ('t \<times> 't once_cell) res" where
  "oc_get_or_init init c =
     bind_res (if \<not> is_completed (oc_once c)
         then bind_res init (\<lambda>v. bind_res (oc_set v c) (\<lambda>(_, c1). Inr c1)) else Inr c) (\<lambda>c1.
     bind_res (assume_init (lc_get (oc_value c1))) (\<lambda>v. Inr (v, c1)))"

definition oc_into_inner :: "'t once_cell \<Rightarrow> 't option res" where
  "oc_into_inner c =
     (if is_completed (oc_once c)
      then bind_res (assume_init (fst (lc_replace None (oc_value c)))) (\<lambda>v. Inr (Some v))
      else Inr None)"

definition oc_take :: "'t once_cell \<Rightarrow> ('t option \<times> 't once_cell) res" where
  "oc_take c =
     (if is_completed (oc_once c)
      then let (old, cell) = lc_replace None (oc_value c) in
           bind_res (assume_init old) (\<lambda>v. Inr (Some v, c\<lparr>oc_value := cell\<rparr>))
      else Inr (None, c))"

text \<open>\<open>OnceLock\<close>: \<open>lock\<close> is \<open>L::with\<close> of the lock that protects the cell.\<close>

definition ol_new :: "'t once_cell" where
  "ol_new = oc_new"

definition ol_get :: "'t once_cell \<Rightarrow> 't option res" where
  "ol_get c = oc_get c"

definition ol_get_mut :: "'t once_cell \<Rightarrow> 't option res" where
  "ol_get_mut c = oc_get_mut c"

definition ol_set ::
  "(('s \<Rightarrow> (('t + unit) \<times> 's) res) \<Rightarrow> 's \<Rightarrow> (('t + unit) \<times> 's) res)
     \<Rightarrow> ('s \<Rightarrow> 't once_cell) \<Rightarrow> ('t once_cell \<Rightarrow> 's \<Rightarrow> 's) \<Rightarrow> 't \<Rightarrow> 's \<Rightarrow> (('t + unit) \<times> 's) res" where
  "ol_set lock cell put v s =
     lock (\<lambda>s1. bind_res (oc_set v (cell s1)) (\<lambda>(r, c). Inr (r, put c s1))) s"

definition ol_get_or_init ::
  "(('s \<Rightarrow> ('t \<times> 's) res) \<Rightarrow> 's \<Rightarrow> ('t \<times> 's) res)
     \<Rightarrow> ('s \<Rightarrow> 't once_cell) \<Rightarrow> ('t once_cell \<Rightarrow> 's \<Rightarrow> 's) \<Rightarrow> 't res \<Rightarrow> 's \<Rightarrow> ('t \<times> 's) res" where
  "ol_get_or_init lock cell put init s =
     lock (\<lambda>s1. bind_res (oc_get_or_init init (cell s1)) (\<lambda>(v, c). Inr (v, put c s1))) s"

definition ol_into_inner :: "'t once_cell \<Rightarrow> 't option res" where
  "ol_into_inner c = oc_into_inner c"

definition ol_take :: "'t once_cell \<Rightarrow> ('t option \<times> 't once_cell) res" where
  "ol_take c = oc_take c"

section \<open>The borrowing discipline\<close>

text \<open>
  What a cell with a borrow flag promises: it knows how many shared references and whether a
  mutable reference to it are alive, never both, and hands out a reference exactly when it is
  compatible with those.
\<close>

locale borrow_discipline =
  fixes ok :: "'c \<Rightarrow> bool" and readers :: "'c \<Rightarrow> nat" and writer :: "'c \<Rightarrow> bool" and contents :: "'c \<Rightarrow> 'v"
    and shared :: "'c \<Rightarrow> 'c res" and exclusive :: "'c \<Rightarrow> 'c res" and release :: "'c \<Rightarrow> 'c res"
    and store :: "'v \<Rightarrow> 'c \<Rightarrow> 'c"
  assumes exclusion: "ok c \<Longrightarrow> writer c \<Longrightarrow> readers c = 0"
    and shared_law: "ok c \<Longrightarrow> shared c = Inr c' \<Longrightarrow>
          ok c' \<and> \<not> writer c \<and> \<not> writer c' \<and> readers c' = Suc (readers c) \<and> contents c' = contents c"
    and exclusive_law: "ok c \<Longrightarrow> exclusive c = Inr c' \<Longrightarrow>
          ok c' \<and> \<not> writer c \<and> readers c = 0 \<and> writer c' \<and> contents c' = contents c"
    and exclusive_free: "ok c \<Longrightarrow> \<not> writer c \<Longrightarrow> readers c = 0 \<Longrightarrow> \<exists>c'. exclusive c = Inr c'"
    and release_writer: "ok c \<Longrightarrow> writer c \<Longrightarrow>
          \<exists>c'. release c = Inr c' \<and> ok c' \<and> \<not> writer c' \<and> readers c' = 0 \<and> contents c' = contents c"
    and release_reader: "ok c \<Longrightarrow> readers c = Suc n \<Longrightarrow>
          \<exists>c'. release c = Inr c' \<and> ok c' \<and> \<not> writer c' \<and> readers c' = n \<and> contents c' = contents c"
    and write_law: "ok c \<Longrightarrow> ok (store v c) \<and> readers (store v c) = readers c
          \<and> writer (store v c) = writer c \<and> contents (store v c) = v"

datatype 'v cell_op = Share | Lock | DropRef | DropMut | Write 'v

text \<open>
  The references a client holds: the number of shared ones and whether it has the mutable one.
  It can only drop and write through references it holds.
\<close>

fun holds :: "'v cell_op \<Rightarrow> nat \<times> bool \<Rightarrow> bool" where
  "holds DropRef (n, w) = (0 < n)"
| "holds DropMut (n, w) = w"
| "holds (Write _) (n, w) = w"
| "holds _ _ = True"

fun after_op :: "'v cell_op \<Rightarrow> nat \<times> bool \<Rightarrow> nat \<times> bool" where
  "after_op Share (n, w) = (Suc n, w)"
| "after_op Lock (n, w) = (n, True)"
| "after_op DropRef (n, w) = (n - 1, w)"
| "after_op DropMut (n, w) = (n, False)"
| "after_op (Write _) g = g"

fun op_result ::
  "('c \<Rightarrow> 'c res) \<Rightarrow> ('c \<Rightarrow> 'c res) \<Rightarrow> ('c \<Rightarrow> 'c res) \<Rightarrow> ('v \<Rightarrow> 'c \<Rightarrow> 'c) \<Rightarrow> 'v cell_op \<Rightarrow> 'c \<Rightarrow> 'c res" where
  "op_result shared exclusive release store Share c = shared c"
| "op_result shared exclusive release store Lock c = exclusive c"
| "op_result shared exclusive release store DropRef c = release c"
| "op_result shared exclusive release store DropMut c = release c"
| "op_result shared exclusive release store (Write v) c = Inr (store v c)"

fun client_run ::
  "('v cell_op \<Rightarrow> 'c \<Rightarrow> 'c res) \<Rightarrow> 'v cell_op list \<Rightarrow> nat \<times> bool \<Rightarrow> 'c \<Rightarrow> ((nat \<times> bool) \<times> 'c) res" where
  "client_run step [] g c = Inr (g, c)"
| "client_run step (op # ops) g c =
     (if holds op g then bind_res (step op c) (client_run step ops (after_op op g))
      else client_run step ops g c)"

text \<open>The last value written.\<close>

fun last_written :: "'v cell_op list \<Rightarrow> nat \<times> bool \<Rightarrow> 'v \<Rightarrow> 'v" where
  "last_written [] g v = v"
| "last_written (op # ops) g v =
     (if holds op g
      then last_written ops (after_op op g) (case op of Write x \<Rightarrow> x | _ \<Rightarrow> v)
      else last_written ops g v)"

context borrow_discipline
begin

lemma step_keeps:
  assumes "ok c" and "(readers c, writer c) = g" and "holds op g"
    and "op_result shared exclusive release store op c = Inr c'"
  shows "ok c' \<and> (readers c', writer c') = after_op op g
     \<and> contents c' = (case op of Write x \<Rightarrow> x | _ \<Rightarrow> contents c)"
proof (cases op)
  case Share
  with assms shared_law [of c c'] show ?thesis by auto
next
  case Lock
  with assms exclusive_law [of c c'] exclusion [of c'] show ?thesis by auto
next
  case DropRef
  with assms obtain n where "readers c = Suc n" by (cases "readers c") auto
  moreover from this have "\<not> writer c" using exclusion [of c] assms(1) by auto
  ultimately show ?thesis using DropRef assms release_reader [of c n] by auto
next
  case DropMut
  with assms release_writer [of c] exclusion [of c] show ?thesis by auto
next
  case (Write v)
  with assms write_law [of c v] show ?thesis by auto
qed

lemma run_keeps:
  assumes "ok c" and "(readers c, writer c) = g"
    and "client_run (op_result shared exclusive release store) ops g c = Inr (g', c')"
  shows "ok c' \<and> (readers c', writer c') = g' \<and> contents c' = last_written ops g (contents c)"
  using assms
proof (induction ops arbitrary: g c)
  case (Cons op ops)
  show ?case
  proof (cases "holds op g")
    case True
    with Cons.prems(3) obtain c1 where c1: "op_result shared exclusive release store op c = Inr c1"
      "client_run (op_result shared exclusive release store) ops (after_op op g) c1 = Inr (g', c')"
      by (auto simp: bind_res_eq_Inr)
    note s = step_keeps [OF Cons.prems(1,2) True c1(1)]
    from Cons.IH [of c1 "after_op op g"] s c1(2) True show ?thesis by simp
  qed (use Cons in simp)
qed simp

lemma run_exclusive:
  assumes "ok c" and "(readers c, writer c) = g"
    and "client_run (op_result shared exclusive release store) ops g c = Inr ((n, w), c')"
  shows "(w \<longrightarrow> n = 0) \<and> contents c' = last_written ops g (contents c)
     \<and> ((\<exists>c''. exclusive c' = Inr c'') \<longleftrightarrow> n = 0 \<and> \<not> w)"
  using run_keeps [OF assms] exclusion [of c'] exclusive_law [of c'] exclusive_free [of c'] by auto

end

text \<open>The flag of a cell as counts of references.\<close>

definition flag_ok :: "'t ref_cell \<Rightarrow> bool" where
  "flag_ok c \<longleftrightarrow> - 1 \<le> cell_borrow c \<and> cell_borrow c \<le> ISIZE_MAX"

definition flag_readers :: "'t ref_cell \<Rightarrow> nat" where
  "flag_readers c = nat (cell_borrow c)"

lemmas flag_defs = flag_ok_def flag_readers_def is_mutably_borrowed_def with_flag_def new_immutable_def
  new_mutable_def borrow_ref_drop_def ISIZE_MAX_def

lemma flag_discipline:
  "borrow_discipline flag_ok flag_readers is_mutably_borrowed cell_value (with_flag new_immutable)
     (with_flag new_mutable) (with_flag borrow_ref_drop) (\<lambda>v c. c\<lparr>cell_value := v\<rparr>)"
  by unfold_locales (auto simp: flag_defs split: if_splits)

interpretation refcell: borrow_discipline flag_ok flag_readers is_mutably_borrowed ref_deref rc_borrow rc_borrow_mut ref_drop
  refmut_write
  using flag_discipline
  unfolding rc_borrow_def [abs_def] rc_borrow_mut_def [abs_def] ref_drop_def [abs_def] refmut_write_def [abs_def]
    ref_deref_def [abs_def] .

interpretation pinrefcell: borrow_discipline flag_ok flag_readers is_mutably_borrowed pinref_as_ref prc_borrow prc_borrow_mut
  ref_drop refmut_write
  using flag_discipline
  unfolding prc_borrow_def [abs_def] prc_borrow_mut_def [abs_def] ref_drop_def [abs_def] refmut_write_def [abs_def]
    pinref_as_ref_def [abs_def] .

interpretation lockedrefcell: borrow_discipline flag_ok flag_readers is_mutably_borrowed lref_deref lrc_borrow lrc_borrow_mut
  ref_drop lrefmut_write
  using flag_discipline
  unfolding lrc_borrow_def [abs_def] lrc_borrow_mut_def [abs_def] ref_drop_def [abs_def] lrefmut_write_def [abs_def]
    lref_deref_def [abs_def] .

interpretation lockedpinrefcell: borrow_discipline flag_ok flag_readers is_mutably_borrowed pinref_as_ref lprc_borrow
  lprc_borrow_mut ref_drop refmut_write
  using flag_discipline
  unfolding lprc_borrow_def [abs_def] lprc_borrow_mut_def [abs_def] ref_drop_def [abs_def] refmut_write_def [abs_def]
    pinref_as_ref_def [abs_def] .

section \<open>Whole operations on locked cells\<close>

lemma lrc_replace_cases:
  "lrc_replace t c =
     (if cell_borrow c = 0 then Inr (cell_value c, c\<lparr>cell_value := t\<rparr>) else Inl (Panic ''already borrowed''))"
  by (cases c) (simp add: lrc_replace_def lrc_borrow_mut_def ref_drop_def lrefmut_write_def flag_defs)

lemma lrc_replace_with_cases:
  "lrc_replace_with f c =
     (if cell_borrow c = 0 then Inr (snd (f (cell_value c)), c\<lparr>cell_value := fst (f (cell_value c))\<rparr>)
      else Inl (Panic ''already borrowed''))"
  by (cases c) (simp add: lrc_replace_with_def lrc_borrow_mut_def ref_drop_def lrefmut_write_def flag_defs
      split: prod.split)

lemma borrow_mut_free:
  assumes "cell_borrow c = 0"
  shows "lrc_borrow_mut c = Inr (c\<lparr>cell_borrow := - 1\<rparr>)"
    and "ref_drop (lrefmut_write v (c\<lparr>cell_borrow := - 1\<rparr>)) = Inr (c\<lparr>cell_value := v\<rparr>)"
  using assms by (cases c, simp add: lrc_borrow_mut_def ref_drop_def lrefmut_write_def flag_defs)+

lemma lrc_swap_free:
  assumes "cell_borrow (cells a) = 0" and "cell_borrow (cells b) = 0"
  shows "lrc_swap a b cells = Inr (cells(a := (cells a)\<lparr>cell_value := cell_value (cells b)\<rparr>,
     b := (cells b)\<lparr>cell_value := cell_value (cells a)\<rparr>))"
  using borrow_mut_free [OF assms(1)] borrow_mut_free [OF assms(2)]
  by (cases "a = b") (simp_all add: lrc_swap_def fun_upd_twist)

section \<open>Cells that are written once\<close>

definition oc_ok :: "'t once_cell \<Rightarrow> bool" where
  "oc_ok c \<longleftrightarrow> (if oc_once c = COMPLETED then lc_get (oc_value c) \<noteq> None
      else oc_once c = UNSTARTED \<and> lc_get (oc_value c) = None)"

lemmas once_defs = oc_get_def oc_set_def oc_take_def oc_get_or_init_def call_once_def is_completed_def
  atomic_compare_exchange_def assume_init_def lc_get_def lc_set_def lc_replace_def UNSTARTED_def STARTED_def COMPLETED_def

lemma oc_get_cases:
  "oc_ok c \<Longrightarrow> oc_get c = Inr (lc_get (oc_value c))"
  by (auto simp: oc_ok_def once_defs split: if_splits)

lemma oc_set_cases:
  assumes "oc_ok c"
  shows "oc_set v c =
     Inr (case lc_get (oc_value c) of
            None \<Rightarrow> (Inr (), c\<lparr>oc_once := COMPLETED, oc_value := lc_set (Some v) (oc_value c)\<rparr>)
          | Some _ \<Rightarrow> (Inl v, c))"
  using assms by (cases c) (auto simp: oc_ok_def once_defs split: if_splits)

lemma oc_set_ok:
  "lc_get (oc_value c) = None \<Longrightarrow> oc_ok (c\<lparr>oc_once := COMPLETED, oc_value := lc_set (Some v) (oc_value c)\<rparr>)"
  by (simp add: oc_ok_def once_defs)

section \<open>Properties\<close>

text \<open>
  Claim C29. Shared or mutable, never both: whatever a client does with a fresh cell of any of the
  four kinds, holding \<open>n\<close> shared references and, if \<open>w\<close>, the mutable one, it never holds both; the
  cell has the value written last; and it can be borrowed mutably exactly when no reference is
  alive.
\<close>

theorem borrows_exclusive:
  assumes "(new, shared, exclusive, deref, store) \<in>
      {(rc_new, rc_borrow, rc_borrow_mut, ref_deref, refmut_write),
       (prc_new, prc_borrow, prc_borrow_mut, pinref_as_ref, refmut_write),
       (lrc_new, lrc_borrow, lrc_borrow_mut, lref_deref, lrefmut_write),
       (lprc_new, lprc_borrow, lprc_borrow_mut, pinref_as_ref, refmut_write)}"
    and "client_run (op_result shared exclusive ref_drop store) ops (0, False) (new v) = Inr ((n, w), c)"
  shows "(w \<longrightarrow> n = 0) \<and> deref c = last_written ops (0, False) v
     \<and> ((\<exists>c'. exclusive c = Inr c') \<longleftrightarrow> n = 0 \<and> \<not> w)"
proof -
  have new: "flag_ok c0" "(flag_readers c0, is_mutably_borrowed c0) = (0, False)" "cell_value c0 = v"
    if "c0 = \<lparr>cell_borrow = 0, cell_value = v\<rparr>" for c0 using that by (simp_all add: flag_defs)
  note n = new [OF rc_new_def] new [OF prc_new_def] new [OF lrc_new_def] new [OF lprc_new_def]
  from assms(1) consider
      (rc) "new = rc_new" "shared = rc_borrow" "exclusive = rc_borrow_mut" "deref = ref_deref" "store = refmut_write"
    | (prc) "new = prc_new" "shared = prc_borrow" "exclusive = prc_borrow_mut" "deref = pinref_as_ref" "store = refmut_write"
    | (lrc) "new = lrc_new" "shared = lrc_borrow" "exclusive = lrc_borrow_mut" "deref = lref_deref" "store = lrefmut_write"
    | (lprc) "new = lprc_new" "shared = lprc_borrow" "exclusive = lprc_borrow_mut" "deref = pinref_as_ref"
        "store = refmut_write" by auto
  then show ?thesis
  proof cases
    case rc
    from refcell.run_exclusive [OF n(1,2) assms(2) [unfolded rc]] n(3) rc show ?thesis by (simp add: ref_deref_def)
  next
    case prc
    from pinrefcell.run_exclusive [OF n(4,5) assms(2) [unfolded prc]] n(6) prc show ?thesis by (simp add: pinref_as_ref_def)
  next
    case lrc
    from lockedrefcell.run_exclusive [OF n(7,8) assms(2) [unfolded lrc]] n(9) lrc show ?thesis by (simp add: lref_deref_def)
  next
    case lprc
    from lockedpinrefcell.run_exclusive [OF n(10,11) assms(2) [unfolded lprc]] n(12) lprc show ?thesis
      by (simp add: pinref_as_ref_def)
  qed
qed

theorem borrows_exclusive_witness:
  "\<exists>c :: nat ref_cell. client_run (op_result lrc_borrow lrc_borrow_mut ref_drop lrefmut_write)
       [Share, Share, DropRef, DropRef, Lock, Write 5] (0, False) (lrc_new 3) = Inr ((0, True), c)
     \<and> lref_deref c = 5 \<and> \<not> (\<exists>c'. lrc_borrow_mut c = Inr c')"
proof -
  let ?c = "\<lparr>cell_borrow = - 1, cell_value = 5\<rparr> :: nat ref_cell"
  have r: "client_run (op_result lrc_borrow lrc_borrow_mut ref_drop lrefmut_write)
       [Share, Share, DropRef, DropRef, Lock, Write 5] (0, False) (lrc_new (3 :: nat)) = Inr ((0, True), ?c)"
    by (simp add: lrc_new_def lrc_borrow_def lrc_borrow_mut_def ref_drop_def lrefmut_write_def flag_defs)
  from borrows_exclusive [where new = lrc_new and shared = lrc_borrow and exclusive = lrc_borrow_mut
      and deref = lref_deref and store = lrefmut_write, OF _ r] r show ?thesis by (intro exI [of _ ?c]) simp
qed

text \<open>
  \<open>LockedRefCell::try_borrow\<close> refuses exactly what \<open>borrow\<close> would panic on, a cell that is
  mutably borrowed. \<open>RefCell::try_borrow\<close> tests the other flag: it refuses a cell that has shared
  references, which can be borrowed, and panics on one that is mutably borrowed.
\<close>

theorem try_borrow_tests_wrong_flag:
  assumes "cell_borrow c < ISIZE_MAX"
  shows "(lrc_try_borrow c = Inr (Inl BorrowError) \<longleftrightarrow> is_mutably_borrowed c)
     \<and> (\<not> is_mutably_borrowed c \<longrightarrow> (\<exists>c'. lrc_borrow c = Inr c' \<and> lrc_try_borrow c = Inr (Inr c')))
     \<and> (rc_try_borrow c = Inr (Inl BorrowError) \<longleftrightarrow> is_immutably_borrowed c)
     \<and> (is_immutably_borrowed c \<longrightarrow> (\<exists>c'. rc_borrow c = Inr c'))
     \<and> (is_mutably_borrowed c \<longrightarrow> rc_try_borrow c = Inl (Panic ''already borrowed mutably''))"
  using assms by (auto simp: rc_try_borrow_def lrc_try_borrow_def rc_borrow_def lrc_borrow_def is_immutably_borrowed_def
      flag_defs)

theorem try_borrow_tests_wrong_flag_witness:
  "rc_try_borrow \<lparr>cell_borrow = 1, cell_value = True\<rparr> = Inr (Inl BorrowError)
     \<and> rc_try_borrow \<lparr>cell_borrow = - 1, cell_value = True\<rparr> = Inl (Panic ''already borrowed mutably'')"
  using try_borrow_tests_wrong_flag [of "\<lparr>cell_borrow = 1, cell_value = True\<rparr>"]
    try_borrow_tests_wrong_flag [of "\<lparr>cell_borrow = - 1, cell_value = True\<rparr>"]
  by (simp add: ISIZE_MAX_def is_immutably_borrowed_def is_mutably_borrowed_def)

text \<open>
  A once cell that is empty takes a value, one that has a value keeps it and hands the
  new one back; getting returns the value; and \<open>get_or_init\<close> runs its closure only on an empty
  cell. Taking the value out leaves the cell marked as complete without a value: getting then
  reads uninitialised memory, and no value can be set any more.
\<close>

theorem once_cell_correct:
  assumes "oc_ok c"
  shows "(oc_get c = Inr None \<longrightarrow>
        (\<exists>c'. oc_set v c = Inr (Inr (), c') \<and> oc_ok c' \<and> oc_get c' = Inr (Some v)
           \<and> oc_get_or_init (Inr v) c = Inr (v, c')) \<and> oc_take c = Inr (None, c))
   \<and> (\<forall>x. oc_get c = Inr (Some x) \<longrightarrow>
        oc_set v c = Inr (Inl v, c) \<and> oc_get_or_init init c = Inr (x, c)
      \<and> (\<exists>c'. oc_take c = Inr (Some x, c') \<and> oc_get c' = Inl UninitRead \<and> oc_set v c' = Inr (Inl v, c')))"
proof (intro conjI allI impI)
  assume "oc_get c = Inr None"
  then have e: "lc_get (oc_value c) = None" using oc_get_cases [OF assms] by simp
  then have u: "oc_once c = UNSTARTED" using assms by (auto simp: oc_ok_def split: if_splits)
  let ?c = "c\<lparr>oc_once := COMPLETED, oc_value := lc_set (Some v) (oc_value c)\<rparr>"
  have "oc_set v c = Inr (Inr (), ?c)" using oc_set_cases [OF assms, of v] e by simp
  moreover from this have "oc_get_or_init (Inr v) c = Inr (v, ?c)"
    using u by (simp add: oc_get_or_init_def is_completed_def UNSTARTED_def COMPLETED_def lc_get_def lc_set_def
        lc_replace_def assume_init_def)
  ultimately show "\<exists>c'. oc_set v c = Inr (Inr (), c') \<and> oc_ok c' \<and> oc_get c' = Inr (Some v)
      \<and> oc_get_or_init (Inr v) c = Inr (v, c')"
    using oc_set_ok [OF e, of v] oc_get_cases [OF oc_set_ok [OF e], of v]
    by (intro exI [of _ ?c]) (simp add: lc_get_def lc_set_def lc_replace_def)
  show "oc_take c = Inr (None, c)" using u by (simp add: oc_take_def is_completed_def UNSTARTED_def COMPLETED_def)
next
  fix x
  assume "oc_get c = Inr (Some x)"
  then have e: "lc_get (oc_value c) = Some x" using oc_get_cases [OF assms] by simp
  then have u: "oc_once c = COMPLETED" using assms by (auto simp: oc_ok_def split: if_splits)
  show "oc_set v c = Inr (Inl v, c)" using oc_set_cases [OF assms, of v] e by simp
  show "oc_get_or_init init c = Inr (x, c)" using u e by (simp add: oc_get_or_init_def is_completed_def assume_init_def)
  show "\<exists>c'. oc_take c = Inr (Some x, c') \<and> oc_get c' = Inl UninitRead \<and> oc_set v c' = Inr (Inl v, c')"
    using u e by (cases c) (simp add: once_defs)
qed

theorem once_cell_correct_witness:
  "\<exists>c c' :: nat once_cell. oc_set 7 oc_new = Inr (Inr (), c) \<and> oc_get c = Inr (Some 7)
     \<and> oc_take c = Inr (Some 7, c') \<and> oc_get c' = Inl UninitRead"
proof -
  have new: "oc_ok (oc_new :: nat once_cell)" "oc_get (oc_new :: nat once_cell) = Inr None"
    by (simp_all add: oc_ok_def oc_new_def once_new_def lc_new_def once_defs)
  from once_cell_correct [OF new(1), of 7] new(2) obtain c
    where c: "oc_set 7 (oc_new :: nat once_cell) = Inr (Inr (), c)" "oc_ok c" "oc_get c = Inr (Some 7)" by auto
  from once_cell_correct [OF c(2)] c show ?thesis by blast
qed

end
