(* ===== verification/Interrupt_Lock.thy ===== *)
theory Interrupt_Lock
  imports Hal Cells
begin

text \<open>
  The interrupt lock (\<open>sync/interrupt_lock.rs\<close>), a critical section that keeps all interrupts off,
  over any hardware layer that controls an interrupt flag, and the lock that is none
  (\<open>sync/no_lock.rs\<close>). The nesting count is a static \<open>AtomicUsize\<close>.
\<close>

section \<open>Operations\<close>

record 's interrupt_state =
  INTERRUPT_LOCK_NESTING :: u32
  hw :: 's

definition il_enter :: "('s \<Rightarrow> bool \<times> 's) \<Rightarrow> 's interrupt_state \<Rightarrow> 's interrupt_state" where
  "il_enter acquire st =
     (let st1 = st\<lparr>hw := snd (acquire (hw st))\<rparr> in
      st1\<lparr>INTERRUPT_LOCK_NESTING := INTERRUPT_LOCK_NESTING st1 + 1\<rparr>)"

definition il_leave :: "(bool \<Rightarrow> 's \<Rightarrow> 's) \<Rightarrow> 's interrupt_state \<Rightarrow> 's interrupt_state" where
  "il_leave restore st =
     (let old = INTERRUPT_LOCK_NESTING st; st1 = st\<lparr>INTERRUPT_LOCK_NESTING := old - 1\<rparr> in
      if old = 1 then st1\<lparr>hw := restore True (hw st1)\<rparr> else st1)"

definition il_acquire_scoped_lock ::
  "('s \<Rightarrow> bool \<times> 's) \<Rightarrow> bool \<Rightarrow> 's interrupt_state \<Rightarrow> (bool \<times> 's interrupt_state) res" where
  "il_acquire_scoped_lock acquire owned st =
     (let st1 = il_enter acquire st; (was_owned, owned1) = atomic_swap owned True in
      if was_owned then Inl (Runtime RecursiveLock) else Inr (owned1, st1))"

definition il_release_scoped_lock ::
  "(bool \<Rightarrow> 's \<Rightarrow> 's) \<Rightarrow> bool \<Rightarrow> 's interrupt_state \<Rightarrow> bool \<times> 's interrupt_state" where
  "il_release_scoped_lock restore owned st =
     (let (was_owned, owned1) = atomic_swap owned False in
      (owned1, if was_owned then il_leave restore st else st))"

definition il_lock ::
  "('s \<Rightarrow> bool \<times> 's) \<Rightarrow> bool \<Rightarrow> 's interrupt_state \<Rightarrow> (bool \<times> 's interrupt_state) res" where
  "il_lock acquire owned st = il_acquire_scoped_lock acquire owned st"

definition il_with ::
  "('s \<Rightarrow> bool \<times> 's) \<Rightarrow> (bool \<Rightarrow> 's \<Rightarrow> 's) \<Rightarrow> ('s interrupt_state \<Rightarrow> ('r \<times> 's interrupt_state) res)
     \<Rightarrow> 's interrupt_state \<Rightarrow> ('r \<times> 's interrupt_state) res" where
  "il_with acquire restore f st =
     bind_res (f (il_enter acquire st)) (\<lambda>(result, st1). Inr (result, il_leave restore st1))"

definition il_guard_drop :: "(bool \<Rightarrow> 's \<Rightarrow> 's) \<Rightarrow> bool \<Rightarrow> 's interrupt_state \<Rightarrow> bool \<times> 's interrupt_state" where
  "il_guard_drop restore owned st = il_release_scoped_lock restore owned st"

definition nl_with :: "('s \<Rightarrow> ('r \<times> 's) res) \<Rightarrow> 's \<Rightarrow> ('r \<times> 's) res" where
  "nl_with f s = f s"

section \<open>Nested sections\<close>

text \<open>
  A program of sections: \<open>Within p q\<close> enters a section, runs \<open>p\<close> in it, leaves it and goes on with \<open>q\<close>.
\<close>

datatype sections = Done | Within sections sections

primrec depth :: "sections \<Rightarrow> nat" where
  "depth Done = 0"
| "depth (Within p q) = max (Suc (depth p)) (depth q)"

primrec run_sections ::
  "('s \<Rightarrow> bool \<times> 's) \<Rightarrow> (bool \<Rightarrow> 's \<Rightarrow> 's) \<Rightarrow> sections \<Rightarrow> 's interrupt_state \<Rightarrow> (unit \<times> 's interrupt_state) res" where
  "run_sections acquire restore Done st = Inr ((), st)"
| "run_sections acquire restore (Within p q) st =
     bind_res (il_with acquire restore (run_sections acquire restore p) st) (\<lambda>(_, st1). run_sections acquire restore q st1)"

context interrupt_control
begin

lemma enter_disables: "\<not> enabled (hw (il_enter acquire st))"
  "INTERRUPT_LOCK_NESTING (il_enter acquire st) = INTERRUPT_LOCK_NESTING st + 1"
  using acquire_law(2) by (simp_all add: il_enter_def Let_def)

lemma leave_balances:
  assumes "INTERRUPT_LOCK_NESTING st = n + 1" and "\<not> enabled (hw st)"
  shows "INTERRUPT_LOCK_NESTING (il_leave restore st) = n" "enabled (hw (il_leave restore st)) \<longleftrightarrow> n = 0"
  using assms restore_law(1) by (auto simp: il_leave_def Let_def)

text \<open>
  A section whose body is balanced leaves the count as it was, and interrupts are enabled
  afterwards exactly when it was the outermost one.
\<close>

lemma with_balances:
  assumes "f (il_enter acquire st) = Inr (r, st1)" and "INTERRUPT_LOCK_NESTING st1 = INTERRUPT_LOCK_NESTING st + 1"
    and "\<not> enabled (hw st1)"
  shows "\<exists>st'. il_with acquire restore f st = Inr (r, st')
     \<and> INTERRUPT_LOCK_NESTING st' = INTERRUPT_LOCK_NESTING st \<and> (enabled (hw st') \<longleftrightarrow> INTERRUPT_LOCK_NESTING st = 0)"
  using assms leave_balances [OF assms(2,3)] by (auto simp: il_with_def)

lemma run_sections_balances:
  assumes "unat (INTERRUPT_LOCK_NESTING st) + depth p < 2 ^ 32"
  shows "\<exists>st'. run_sections acquire restore p st = Inr ((), st')
     \<and> INTERRUPT_LOCK_NESTING st' = INTERRUPT_LOCK_NESTING st
     \<and> (enabled (hw st') \<longleftrightarrow> (if p = Done then enabled (hw st) else INTERRUPT_LOCK_NESTING st = 0))"
  using assms
proof (induction p arbitrary: st)
  case (Within p q)
  let ?n = "INTERRUPT_LOCK_NESTING st" and ?s = "il_enter acquire st"
  have u: "unat (?n + 1) = unat ?n + 1" using Within.prems by (simp add: unat_word_ariths)
  then have nz: "?n + 1 \<noteq> 0" by (metis add_is_0 one_neq_zero unsigned_0)
  have "unat (INTERRUPT_LOCK_NESTING ?s) + depth p < 2 ^ 32" using Within.prems u enter_disables(2) [of st] by simp
  from Within.IH(1) [OF this] obtain st1 where st1: "run_sections acquire restore p ?s = Inr ((), st1)"
    "INTERRUPT_LOCK_NESTING st1 = ?n + 1" "\<not> enabled (hw st1)"
    using enter_disables [of st] nz by (auto split: if_splits)
  from with_balances [where f = "run_sections acquire restore p", OF st1] obtain st2 where st2: "il_with acquire restore (run_sections acquire restore p) st = Inr ((), st2)"
    "INTERRUPT_LOCK_NESTING st2 = ?n" "enabled (hw st2) \<longleftrightarrow> ?n = 0" by blast
  have "unat (INTERRUPT_LOCK_NESTING st2) + depth q < 2 ^ 32" using Within.prems st2(2) by simp
  from Within.IH(2) [OF this] st2 show ?case by (auto split: if_splits)
qed simp

end

section \<open>Properties\<close>

text \<open>
  Sections of the interrupt lock nest: while at least one is active interrupts are
  disabled, each returns with the nesting count it found, and interrupts are enabled again exactly
  at the end of the outermost one, on the simulator and on the e310x. An interrupt flag that was
  already off before the outermost section is therefore not left off.
\<close>

theorem interrupt_sections_nest:
  assumes "unat (INTERRUPT_LOCK_NESTING s) + depth (Within p q) < 2 ^ 32" and "unat (INTERRUPT_LOCK_NESTING e) + depth (Within p q) < 2 ^ 32"
  shows "(\<exists>s'. run_sections sim_acquire sim_restore (Within p q) s = Inr ((), s')
        \<and> INTERRUPT_LOCK_NESTING s' = INTERRUPT_LOCK_NESTING s
        \<and> (sim_interrupt_status (hw s') \<longleftrightarrow> INTERRUPT_LOCK_NESTING s = 0))
   \<and> (\<exists>e'. run_sections e_acquire e_restore (Within p q) e = Inr ((), e')
        \<and> INTERRUPT_LOCK_NESTING e' = INTERRUPT_LOCK_NESTING e
        \<and> (e_interrupt_status (hw e') \<longleftrightarrow> INTERRUPT_LOCK_NESTING e = 0))
   \<and> \<not> sim_interrupt_status (hw (il_enter sim_acquire s)) \<and> \<not> e_interrupt_status (hw (il_enter e_acquire e))"
  using sim.run_sections_balances [OF assms(1)] e310x.run_sections_balances [OF assms(2)]
    sim.enter_disables(1) e310x.enter_disables(1) by (simp only: sections.distinct simp_thms if_False)

theorem interrupt_sections_nest_witness:
  "\<exists>s'. run_sections sim_acquire sim_restore (Within (Within Done Done) (Within Done Done))
       \<lparr>INTERRUPT_LOCK_NESTING = 0, hw = sim_controller_new\<rparr> = Inr ((), s') \<and> sim_interrupt_status (hw s')"
proof -
  let ?p = "Within (Within Done Done) (Within Done Done)"
  let ?s = "\<lparr>INTERRUPT_LOCK_NESTING = 0, hw = sim_controller_new\<rparr>"
  let ?e = "\<lparr>INTERRUPT_LOCK_NESTING = 0, hw = \<lparr>plic_priority = [], plic_threshold = 0, plic_enable = [], plic_claim = 0,
      plic_completed = [], mie = True, mtimecmp = 0, mtimecmph = 0\<rparr>\<rparr>"
  have "unat (INTERRUPT_LOCK_NESTING ?s) + depth ?p < 2 ^ 32" "unat (INTERRUPT_LOCK_NESTING ?e) + depth ?p < 2 ^ 32" by simp_all
  from interrupt_sections_nest [OF this] have "\<exists>s'. run_sections sim_acquire sim_restore ?p ?s = Inr ((), s')
      \<and> INTERRUPT_LOCK_NESTING s' = INTERRUPT_LOCK_NESTING ?s
      \<and> (sim_interrupt_status (hw s') \<longleftrightarrow> INTERRUPT_LOCK_NESTING ?s = 0)" by (rule conjunct1)
  then show ?thesis by (simp only: interrupt_state.select_convs simp_thms) blast
qed

text \<open>
  A guard of the interrupt lock releases once: dropping it after a manual release changes
  nothing, and locking a lock that is held is reported as recursive.
\<close>

theorem interrupt_guard_releases_once:
  "(\<exists>st1. il_lock sim_acquire False st = Inr (True, st1) \<and> \<not> sim_interrupt_status (hw st1)
      \<and> il_lock sim_acquire True st1 = Inl (Runtime RecursiveLock)
      \<and> (\<exists>st2. il_release_scoped_lock sim_restore True st1 = (False, st2)
          \<and> INTERRUPT_LOCK_NESTING st2 = INTERRUPT_LOCK_NESTING st
          \<and> (sim_interrupt_status (hw st2) \<longleftrightarrow> INTERRUPT_LOCK_NESTING st = 0)
          \<and> il_guard_drop sim_restore False st2 = (False, st2)))"
  using sim.enter_disables [of st] sim.leave_balances [OF sim.enter_disables(2) sim.enter_disables(1), of st]
  by (simp add: il_lock_def il_acquire_scoped_lock_def il_release_scoped_lock_def il_guard_drop_def atomic_swap_def Let_def)

end
