(* ===== verification/Priority.thy ===== *)
theory Priority
  imports Prelude
begin

text \<open>
  Priorities (\<open>scars/src/priority.rs\<close>): the unified thread/interrupt priority, its variant with
  an invalid value, their packed 16-bit and 32-bit encodings, and the atomic cells that hold them.
  Shown here: the comparison is a linear order in which every interrupt priority is above every
  thread priority, \<open>max\<close>, \<open>max_valid\<close> and \<open>succ\<close> are what the order says, the encodings
  round-trip, and a packed pair can be read, compared and exchanged as the pair it stands for.
\<close>

section \<open>Priority\<close>

datatype priority = Thread u8 | Interrupt u8

definition maxu8 :: "u8 \<Rightarrow> u8 \<Rightarrow> u8" where
  "maxu8 left right = (if left > right then left else right)"

definition PRIORITY_MIN :: priority where "PRIORITY_MIN = Thread 0"
definition PRIORITY_MAX :: priority where "PRIORITY_MAX = Interrupt 255"
definition THREAD_MIN :: priority where "THREAD_MIN = Thread 0"
definition THREAD_MAX :: priority where "THREAD_MAX = Thread 255"
definition INTERRUPT_MIN :: priority where "INTERRUPT_MIN = Interrupt 0"
definition INTERRUPT_MAX :: priority where "INTERRUPT_MAX = Interrupt 255"

fun is_interrupt :: "priority \<Rightarrow> bool" where
  "is_interrupt (Interrupt _) = True"
| "is_interrupt (Thread _) = False"

fun is_thread :: "priority \<Rightarrow> bool" where
  "is_thread (Thread _) = True"
| "is_thread (Interrupt _) = False"

fun get_value :: "priority \<Rightarrow> u8" where
  "get_value (Thread prio) = prio"
| "get_value (Interrupt prio) = prio"

fun succ :: "priority \<Rightarrow> priority" where
  "succ (Thread prio) = (if prio < 255 then Thread (prio + 1) else INTERRUPT_MIN)"
| "succ (Interrupt prio) = (if prio < 255 then Interrupt (prio + 1) else Interrupt prio)"

fun priority_max :: "priority \<Rightarrow> priority \<Rightarrow> priority" where
  "priority_max (Thread p1) (Thread p2) = Thread (maxu8 p1 p2)"
| "priority_max (Interrupt p1) (Interrupt p2) = Interrupt (maxu8 p1 p2)"
| "priority_max (Thread p1) (Interrupt p2) = Interrupt p2"
| "priority_max (Interrupt p1) (Thread p2) = Interrupt p1"

subsection \<open>The order\<close>

text \<open>The result of \<open>core::cmp::Ord::cmp\<close>.\<close>

datatype ordering = Less | Equal | Greater

definition cmp_u8 :: "u8 \<Rightarrow> u8 \<Rightarrow> ordering" where
  "cmp_u8 a b = (if a < b then Less else if a = b then Equal else Greater)"

fun cmp :: "priority \<Rightarrow> priority \<Rightarrow> ordering" where
  "cmp (Thread p1) (Thread p2) = cmp_u8 p1 p2"
| "cmp (Interrupt p1) (Interrupt p2) = cmp_u8 p1 p2"
| "cmp (Thread _) (Interrupt _) = Less"
| "cmp (Interrupt _) (Thread _) = Greater"

fun partial_cmp :: "priority \<Rightarrow> priority \<Rightarrow> ordering option" where
  "partial_cmp (Thread p1) (Thread p2) = Some (cmp_u8 p1 p2)"
| "partial_cmp (Interrupt p1) (Interrupt p2) = Some (cmp_u8 p1 p2)"
| "partial_cmp (Thread _) (Interrupt _) = Some Less"
| "partial_cmp (Interrupt _) (Thread _) = Some Greater"

text \<open>The rank of a priority on one scale: thread priorities first, then interrupt priorities.\<close>

fun rank :: "priority \<Rightarrow> nat" where
  "rank (Thread p) = unat p"
| "rank (Interrupt p) = 256 + unat p"

lemma unat_u8_less: "unat (p :: u8) < 256"
  using unsigned_less [of p] by simp

lemma unat_u8_bounds [simp]:
  "unat (p :: u8) < 256"
  "unat (p :: u8) < 256 + n"
  "unat (p :: u8) \<le> 256 + n"
  "\<not> 256 + n < unat (p :: u8)"
  "\<not> 256 + n \<le> unat (p :: u8)"
  "256 + n \<noteq> unat (p :: u8)"
  "unat (p :: u8) \<noteq> 256 + n"
  using unat_u8_less [of p] by auto

lemma rank_inject: "rank a = rank b \<longleftrightarrow> a = b"
  by (cases a; cases b) (auto simp: word_unat_eq_iff)

text \<open>The operators \<open><\<close> and \<open><=\<close> of the sources are those of \<open>partial_cmp\<close>.\<close>

instantiation priority :: linorder
begin

definition less_eq_priority :: "priority \<Rightarrow> priority \<Rightarrow> bool" where
  "less_eq_priority a b = (partial_cmp a b = Some Less \<or> partial_cmp a b = Some Equal)"

definition less_priority :: "priority \<Rightarrow> priority \<Rightarrow> bool" where
  "less_priority a b = (partial_cmp a b = Some Less)"

lemma less_eq_rank: "(a :: priority) \<le> b \<longleftrightarrow> rank a \<le> rank b"
  by (cases a; cases b)
    (auto simp: less_eq_priority_def cmp_u8_def word_less_nat_alt word_unat_eq_iff)

lemma less_rank: "(a :: priority) < b \<longleftrightarrow> rank a < rank b"
  by (cases a; cases b)
    (auto simp: less_priority_def cmp_u8_def word_less_nat_alt word_unat_eq_iff)

instance
  by standard (auto simp: less_eq_rank less_rank rank_inject)

end

lemma less_eq_priority_simps [simp]:
  "Thread p \<le> Thread q \<longleftrightarrow> p \<le> q"
  "Interrupt p \<le> Interrupt q \<longleftrightarrow> p \<le> q"
  "Thread p \<le> Interrupt q"
  "\<not> Interrupt p \<le> Thread q"
  by (auto simp: less_eq_rank word_le_nat_alt)

lemma less_priority_simps [simp]:
  "Thread p < Thread q \<longleftrightarrow> p < q"
  "Interrupt p < Interrupt q \<longleftrightarrow> p < q"
  "Thread p < Interrupt q"
  "\<not> Interrupt p < Thread q"
  by (auto simp: less_rank word_less_nat_alt)

lemma priority_min_le [simp]: "PRIORITY_MIN \<le> p" "Thread 0 \<le> p"
  by (cases p; simp add: PRIORITY_MIN_def)+

lemma priority_max_ge [simp]: "p \<le> PRIORITY_MAX"
  by (cases p) (simp_all add: PRIORITY_MAX_def word_le_nat_alt less_Suc_eq_le [symmetric])

lemma partial_cmp_cmp: "partial_cmp a b = Some (cmp a b)"
  by (cases a; cases b) simp_all

lemma cmp_order: "cmp a b = (if a < b then Less else if a = b then Equal else Greater)"
  by (cases a; cases b) (auto simp: cmp_u8_def)

lemma maxu8_max: "maxu8 a b = max a b"
  by (auto simp: maxu8_def max_def)

lemma priority_max_max: "priority_max a b = max a b"
  by (cases a; cases b) (auto simp: maxu8_max max_def)

section \<open>PriorityStatus\<close>

text \<open>\<open>PriorityStatus\<close>: a priority or \<open>Invalid\<close>.\<close>

datatype priority_status = SInvalid | SThread u8 | SInterrupt u8

fun status_valid :: "priority \<Rightarrow> priority_status" where
  "status_valid (Thread p) = SThread p"
| "status_valid (Interrupt p) = SInterrupt p"

fun status_is_interrupt :: "priority_status \<Rightarrow> bool" where
  "status_is_interrupt (SInterrupt _) = True"
| "status_is_interrupt _ = False"

fun status_is_thread :: "priority_status \<Rightarrow> bool" where
  "status_is_thread (SThread _) = True"
| "status_is_thread _ = False"

fun is_valid :: "priority_status \<Rightarrow> bool" where
  "is_valid SInvalid = False"
| "is_valid _ = True"

fun status_priority :: "priority_status \<Rightarrow> priority option" where
  "status_priority (SThread prio) = Some (Thread prio)"
| "status_priority (SInterrupt prio) = Some (Interrupt prio)"
| "status_priority SInvalid = None"

fun status_get_value :: "priority_status \<Rightarrow> u8" where
  "status_get_value (SThread prio) = prio"
| "status_get_value (SInterrupt prio) = prio"
| "status_get_value SInvalid = 0"

fun status_succ :: "priority_status \<Rightarrow> priority_status" where
  "status_succ (SThread prio) =
     (if prio < 255 then SThread (prio + 1) else status_valid INTERRUPT_MIN)"
| "status_succ (SInterrupt prio) =
     (if prio < 255 then SInterrupt (prio + 1) else SInterrupt prio)"
| "status_succ SInvalid = SInvalid"

fun status_max :: "priority_status \<Rightarrow> priority_status \<Rightarrow> priority_status" where
  "status_max (SThread p1) (SThread p2) = SThread (maxu8 p1 p2)"
| "status_max (SInterrupt p1) (SInterrupt p2) = SInterrupt (maxu8 p1 p2)"
| "status_max (SThread p1) (SInterrupt p2) = SInterrupt p2"
| "status_max (SInterrupt p1) (SThread p2) = SInterrupt p1"
| "status_max SInvalid other = other"
| "status_max self SInvalid = self"

fun unwrap_or_default :: "priority_status \<Rightarrow> priority \<Rightarrow> priority" where
  "unwrap_or_default SInvalid d = d"
| "unwrap_or_default (SThread p) d = Thread p"
| "unwrap_or_default (SInterrupt p) d = Interrupt p"

fun status_eq :: "priority_status \<Rightarrow> priority_status \<Rightarrow> bool" where
  "status_eq (SThread p1) (SThread p2) = (p1 = p2)"
| "status_eq (SInterrupt p1) (SInterrupt p2) = (p1 = p2)"
| "status_eq SInvalid SInvalid = True"
| "status_eq _ _ = False"

fun status_partial_cmp :: "priority_status \<Rightarrow> priority_status \<Rightarrow> ordering option" where
  "status_partial_cmp (SThread p1) (SThread p2) = Some (cmp_u8 p1 p2)"
| "status_partial_cmp (SInterrupt p1) (SInterrupt p2) = Some (cmp_u8 p1 p2)"
| "status_partial_cmp (SThread _) (SInterrupt _) = Some Less"
| "status_partial_cmp (SInterrupt _) (SThread _) = Some Greater"
| "status_partial_cmp SInvalid _ = None"
| "status_partial_cmp _ SInvalid = None"

text \<open>The operator \<open>>=\<close> on statuses, derived from \<open>partial_cmp\<close> as Rust does.\<close>

definition status_ge :: "priority_status \<Rightarrow> priority_status \<Rightarrow> bool" where
  "status_ge a b =
     (status_partial_cmp a b = Some Greater \<or> status_partial_cmp a b = Some Equal)"

fun status_try_into :: "priority_status \<Rightarrow> unit + priority" where
  "status_try_into (SThread p) = Inr (Thread p)"
| "status_try_into (SInterrupt p) = Inr (Interrupt p)"
| "status_try_into SInvalid = Inl ()"

fun max_valid :: "priority \<Rightarrow> priority_status \<Rightarrow> priority" where
  "max_valid self other =
     (case status_priority other of
        None \<Rightarrow> self
      | Some other \<Rightarrow>
          (case (self, other) of
             (Thread p1, Thread p2) \<Rightarrow> Thread (maxu8 p1 p2)
           | (Interrupt p1, Interrupt p2) \<Rightarrow> Interrupt (maxu8 p1 p2)
           | (Thread _, Interrupt _) \<Rightarrow> other
           | (Interrupt _, Thread _) \<Rightarrow> self))"

subsection \<open>The status as an optional priority\<close>

lemma status_priority_valid [simp]: "status_priority (status_valid p) = Some p"
  by (cases p) simp_all

lemma is_valid_iff: "is_valid s \<longleftrightarrow> status_priority s \<noteq> None"
  by (cases s) simp_all

lemma is_valid_status_valid [simp]: "is_valid (status_valid p)"
  by (cases p) simp_all

lemma status_priority_inject: "status_priority s = status_priority t \<longleftrightarrow> s = t"
  by (cases s; cases t) auto

lemma status_eq_eq: "status_eq a b \<longleftrightarrow> a = b"
  by (cases a; cases b) auto

lemma status_max_priority:
  "status_priority (status_max a b) =
     (case (status_priority a, status_priority b) of
        (None, y) \<Rightarrow> y
      | (x, None) \<Rightarrow> x
      | (Some p, Some q) \<Rightarrow> Some (max p q))"
  by (cases a; cases b) (auto simp: maxu8_max max_def)

lemma status_ge_priority:
  "status_ge a b \<longleftrightarrow>
     (\<exists>p q. status_priority a = Some p \<and> status_priority b = Some q \<and> q \<le> p)"
  by (cases a; cases b) (auto simp: status_ge_def cmp_u8_def)

lemma unwrap_or_default_priority:
  "unwrap_or_default s d = (case status_priority s of None \<Rightarrow> d | Some p \<Rightarrow> p)"
  by (cases s) simp_all

lemma max_valid_priority:
  "max_valid p s = (case status_priority s of None \<Rightarrow> p | Some q \<Rightarrow> max p q)"
  by (cases p; cases s) (auto simp: maxu8_max max_def)

lemma max_valid_simps [simp]:
  "max_valid p SInvalid = p"
  "max_valid p (status_valid q) = max p q"
  by (simp_all add: max_valid_priority del: max_valid.simps)

lemma status_max_simps [simp]:
  "status_max SInvalid s = s"
  "status_max s SInvalid = s"
  "status_max (status_valid p) (status_valid q) = status_valid (max p q)"
proof -
  show "status_max (status_valid p) (status_valid q) = status_valid (max p q)"
    by (subst status_priority_inject [symmetric]) (simp add: status_max_priority)
qed (cases s; simp)+

lemma is_valid_status_max [simp]: "is_valid (status_max a b) \<longleftrightarrow> is_valid a \<or> is_valid b"
  by (cases a; cases b) simp_all

declare max_valid.simps [simp del]

section \<open>The 16-bit encoding\<close>

definition INTERRUPT_BIT :: i16 where "INTERRUPT_BIT = push_bit 14 1"
definition INVALID_PRIORITY :: i16 where "INVALID_PRIORITY = - 1"

fun into_any :: "priority \<Rightarrow> i16" where
  "into_any (Thread prio) = ucast prio"
| "into_any (Interrupt prio) = ucast prio OR INTERRUPT_BIT"

definition from_any :: "i16 \<Rightarrow> priority" where
  "from_any value =
     (if value AND INTERRUPT_BIT \<noteq> 0
      then Interrupt (ucast (value AND NOT INTERRUPT_BIT))
      else Thread (ucast value))"

fun status_into_any :: "priority_status \<Rightarrow> i16" where
  "status_into_any (SThread prio) = ucast prio"
| "status_into_any (SInterrupt prio) = ucast prio OR INTERRUPT_BIT"
| "status_into_any SInvalid = INVALID_PRIORITY"

definition status_from_any :: "i16 \<Rightarrow> priority_status" where
  "status_from_any value =
     (if value = INVALID_PRIORITY then SInvalid
      else if value AND INTERRUPT_BIT \<noteq> 0
      then SInterrupt (ucast (value AND NOT INTERRUPT_BIT))
      else SThread (ucast value))"

lemma bit_INTERRUPT_BIT [simp]: "bit INTERRUPT_BIT n \<longleftrightarrow> n = 14"
  unfolding INTERRUPT_BIT_def push_bit_of_1 bit_exp_iff by (auto simp: possible_bit_def)

lemma bit_u8_less: "bit (p :: u8) n \<Longrightarrow> n < 8"
  using bit_imp_le_length [of p n] by simp

lemma u8_high_bits [simp]: "\<not> bit (p :: u8) 14" "\<not> bit (p :: u8) 15"
  using bit_u8_less [of p] by fastforce+

lemma u8_interrupt_bit [simp]:
  "(ucast (p :: u8) :: i16) AND INTERRUPT_BIT = 0"
  "((ucast (p :: u8) :: i16) OR INTERRUPT_BIT) AND INTERRUPT_BIT = INTERRUPT_BIT"
  "((ucast (p :: u8) :: i16) OR INTERRUPT_BIT) AND NOT INTERRUPT_BIT = ucast p"
  by (auto intro!: bit_word_eqI simp: bit_simps dest: bit_u8_less)

lemma interrupt_bit_nonzero [simp]: "INTERRUPT_BIT \<noteq> 0"
  by (simp add: INTERRUPT_BIT_def)

lemma ucast_u8_i16 [simp]: "(ucast (ucast (p :: u8) :: i16) :: u8) = p"
  by (intro bit_word_eqI) (simp add: bit_simps)

lemma u8_not_invalid [simp]:
  "(ucast (p :: u8) :: i16) \<noteq> INVALID_PRIORITY"
  "(ucast (p :: u8) :: i16) OR INTERRUPT_BIT \<noteq> INVALID_PRIORITY"
proof -
  have "\<not> bit ((ucast p :: i16)) 15" and "\<not> bit ((ucast p :: i16) OR INTERRUPT_BIT) 15"
    by (auto simp: bit_simps dest: bit_u8_less)
  moreover have "bit INVALID_PRIORITY 15"
    by (simp add: INVALID_PRIORITY_def bit_simps)
  ultimately show "(ucast p :: i16) \<noteq> INVALID_PRIORITY"
    and "(ucast p :: i16) OR INTERRUPT_BIT \<noteq> INVALID_PRIORITY" by metis+
qed

lemma from_any_into_any [simp]: "from_any (into_any p) = p"
  by (cases p) (simp_all add: from_any_def)

lemma status_from_into_any [simp]: "status_from_any (status_into_any s) = s"
  by (cases s) (simp_all add: status_from_any_def)

lemma status_into_any_valid: "status_into_any (status_valid p) = into_any p"
  by (cases p) simp_all

section \<open>The packed pair of statuses\<close>

type_synonym status_pair = "priority_status \<times> priority_status"

definition from_status_pair :: "status_pair \<Rightarrow> u32" where
  "from_status_pair pair =
     ucast (status_into_any (fst pair)) OR push_bit 16 (ucast (status_into_any (snd pair)))"

definition to_status_pair :: "u32 \<Rightarrow> status_pair" where
  "to_status_pair value =
     (status_from_any (ucast value), status_from_any (ucast (drop_bit 16 value)))"

lemma unpack_low: "(ucast ((ucast (a :: i16) :: u32) OR push_bit 16 (ucast (b :: i16))) :: i16) = a"
  by (intro bit_word_eqI) (auto simp: bit_simps)

lemma unpack_high:
  "(ucast (drop_bit 16 ((ucast (a :: i16) :: u32) OR push_bit 16 (ucast (b :: i16)))) :: i16) = b"
  by (intro bit_word_eqI) (auto simp: bit_simps dest: bit_imp_le_length)

lemma to_from_status_pair [simp]: "to_status_pair (from_status_pair p) = p"
  by (cases p) (simp add: to_status_pair_def from_status_pair_def unpack_low unpack_high del: drop_bit_or)

lemma from_status_pair_inject [simp]: "from_status_pair p = from_status_pair q \<longleftrightarrow> p = q"
  by (metis to_from_status_pair)

section \<open>Atomic cells\<close>

subsection \<open>AtomicPriority\<close>

type_synonym atomic_priority = i16

definition atomic_priority_new :: "priority \<Rightarrow> atomic_priority" where
  "atomic_priority_new prio = into_any prio"

definition atomic_priority_is_interrupt :: "atomic_priority \<Rightarrow> bool" where
  "atomic_priority_is_interrupt a = (a AND INTERRUPT_BIT \<noteq> 0)"

definition atomic_priority_is_thread :: "atomic_priority \<Rightarrow> bool" where
  "atomic_priority_is_thread a = (a AND INTERRUPT_BIT = 0)"

definition atomic_priority_load :: "atomic_priority \<Rightarrow> priority" where
  "atomic_priority_load a = from_any a"

definition atomic_priority_store :: "atomic_priority \<Rightarrow> priority \<Rightarrow> atomic_priority" where
  "atomic_priority_store a prio = into_any prio"

definition atomic_priority_swap :: "atomic_priority \<Rightarrow> priority \<Rightarrow> priority \<times> atomic_priority" where
  "atomic_priority_swap a prio = map_prod from_any id (atomic_swap a (into_any prio))"

definition atomic_priority_compare_exchange ::
  "atomic_priority \<Rightarrow> priority \<Rightarrow> priority \<Rightarrow> (priority + priority) \<times> atomic_priority" where
  "atomic_priority_compare_exchange a current new =
     map_prod (map_sum from_any from_any) id
       (atomic_compare_exchange a (into_any current) (into_any new))"

definition atomic_priority_fetch_update ::
  "atomic_priority \<Rightarrow> (priority \<Rightarrow> priority option) \<Rightarrow> (priority + priority) \<times> atomic_priority" where
  "atomic_priority_fetch_update a f =
     map_prod (map_sum from_any from_any) id
       (atomic_fetch_update a (\<lambda>prio. map_option into_any (f (from_any prio))))"

subsection \<open>AtomicPriorityStatusPair\<close>

type_synonym atomic_status_pair = u32

definition pair_new :: "status_pair \<Rightarrow> atomic_status_pair" where
  "pair_new pair = from_status_pair pair"

definition pair_load :: "atomic_status_pair \<Rightarrow> status_pair" where
  "pair_load a = to_status_pair a"

definition pair_store :: "atomic_status_pair \<Rightarrow> status_pair \<Rightarrow> atomic_status_pair" where
  "pair_store a pair = from_status_pair pair"

definition pair_swap :: "atomic_status_pair \<Rightarrow> status_pair \<Rightarrow> status_pair \<times> atomic_status_pair" where
  "pair_swap a pair = map_prod to_status_pair id (atomic_swap a (from_status_pair pair))"

definition pair_compare_exchange ::
  "atomic_status_pair \<Rightarrow> status_pair \<Rightarrow> status_pair
     \<Rightarrow> (status_pair + status_pair) \<times> atomic_status_pair" where
  "pair_compare_exchange a current new =
     map_prod (map_sum to_status_pair to_status_pair) id
       (atomic_compare_exchange a (from_status_pair current) (from_status_pair new))"

definition pair_fetch_update ::
  "atomic_status_pair \<Rightarrow> (status_pair \<Rightarrow> status_pair option)
     \<Rightarrow> (status_pair + status_pair) \<times> atomic_status_pair" where
  "pair_fetch_update a f =
     map_prod (map_sum to_status_pair to_status_pair) id
       (atomic_fetch_update a (\<lambda>value. map_option from_status_pair (f (to_status_pair value))))"

text \<open>
  \<open>AtomicPriorityPair\<close> packs a pair of priorities with \<open>transmute\<close>, whose result depends on how the
  compiler lays out the enumeration: the two directions \<open>from_pair\<close> and \<open>to_pair\<close> are arguments.
\<close>

type_synonym priority_pair = "priority \<times> priority"

definition ppair_new :: "(priority_pair \<Rightarrow> u32) \<Rightarrow> priority_pair \<Rightarrow> u32" where
  "ppair_new from_pair pair = from_pair pair"

definition ppair_load :: "(u32 \<Rightarrow> priority_pair) \<Rightarrow> u32 \<Rightarrow> priority_pair" where
  "ppair_load to_pair a = to_pair a"

definition ppair_store :: "(priority_pair \<Rightarrow> u32) \<Rightarrow> u32 \<Rightarrow> priority_pair \<Rightarrow> u32" where
  "ppair_store from_pair a pair = from_pair pair"

definition ppair_swap ::
  "(priority_pair \<Rightarrow> u32) \<Rightarrow> (u32 \<Rightarrow> priority_pair) \<Rightarrow> u32 \<Rightarrow> priority_pair \<Rightarrow> priority_pair \<times> u32" where
  "ppair_swap from_pair to_pair a pair = map_prod to_pair id (atomic_swap a (from_pair pair))"

definition ppair_compare_exchange ::
  "(priority_pair \<Rightarrow> u32) \<Rightarrow> (u32 \<Rightarrow> priority_pair) \<Rightarrow> u32 \<Rightarrow> priority_pair \<Rightarrow> priority_pair
     \<Rightarrow> (priority_pair + priority_pair) \<times> u32" where
  "ppair_compare_exchange from_pair to_pair a current new =
     map_prod (map_sum to_pair to_pair) id (atomic_compare_exchange a (from_pair current) (from_pair new))"

definition ppair_fetch_update ::
  "(priority_pair \<Rightarrow> u32) \<Rightarrow> (u32 \<Rightarrow> priority_pair) \<Rightarrow> u32 \<Rightarrow> (priority_pair \<Rightarrow> priority_pair option)
     \<Rightarrow> (priority_pair + priority_pair) \<times> u32" where
  "ppair_fetch_update from_pair to_pair a f =
     map_prod (map_sum to_pair to_pair) id
       (atomic_fetch_update a (\<lambda>value. map_option from_pair (f (to_pair value))))"

fun status_from_priority :: "priority \<Rightarrow> priority_status" where
  "status_from_priority (Thread p) = SThread p"
| "status_from_priority (Interrupt p) = SInterrupt p"

subsection \<open>Packed cells behave as the values they stand for\<close>

text \<open>
  The interface both atomic types rely on: an encoding into the machine word with a decoder that
  inverts it. Under it, every atomic operation on the packed word is the same operation on the
  decoded value.
\<close>

locale packed_cell =
  fixes enc :: "'a \<Rightarrow> 'w"
    and dec :: "'w \<Rightarrow> 'a"
  assumes dec_enc: "dec (enc x) = x"
begin

lemma enc_inject: "enc x = enc y \<longleftrightarrow> x = y"
  by (metis dec_enc)

lemma swap_packed:
  "map_prod dec id (atomic_swap (enc x) (enc y)) = (x, enc y)"
  by (simp add: atomic_swap_def dec_enc)

lemma compare_exchange_packed:
  "map_prod (map_sum dec dec) id (atomic_compare_exchange (enc x) (enc current) (enc new)) =
     (if x = current then (Inr x, enc new) else (Inl x, enc x))"
  by (simp add: atomic_compare_exchange_def dec_enc enc_inject)

lemma fetch_update_packed:
  "map_prod (map_sum dec dec) id
     (atomic_fetch_update (enc x) (\<lambda>w. map_option enc (f (dec w)))) =
     (case f x of None \<Rightarrow> (Inl x, enc x) | Some y \<Rightarrow> (Inr x, enc y))"
  by (simp add: atomic_fetch_update_def atomic_compare_exchange_def dec_enc split: option.split)

end

interpretation any_cell: packed_cell into_any from_any
  by unfold_locales simp

interpretation pair_cell: packed_cell from_status_pair to_status_pair
  by unfold_locales simp

lemmas pair_cell_defs =
  pair_new_def pair_load_def pair_store_def pair_swap_def pair_compare_exchange_def
  pair_fetch_update_def

lemmas atomic_priority_defs =
  atomic_priority_new_def atomic_priority_load_def atomic_priority_store_def
  atomic_priority_swap_def atomic_priority_compare_exchange_def atomic_priority_fetch_update_def

lemma u8_succ: "(x :: u8) < 255 \<Longrightarrow> unat (x + 1) = unat x + 1"
  by (simp add: word_less_nat_alt unat_word_ariths)

lemma u8_not_top: "(x :: u8) < 255 \<Longrightarrow> unat x \<le> 254"
  by (simp add: word_less_nat_alt)

lemma u8_top: "\<not> (x :: u8) < 255 \<Longrightarrow> unat x = 255"
  using unat_u8_less [of x] unfolding word_less_nat_alt by (simp del: unat_u8_bounds)

section \<open>Properties\<close>

text \<open>
  The comparison of priorities orders them by one rank: thread priorities by value,
  then interrupt priorities by value, so that every interrupt priority is above every thread
  priority; \<open>cmp\<close> and \<open>partial_cmp\<close> agree with it, \<open>max\<close> is the maximum of the order, and
  \<open>max_valid\<close> ignores an invalid status.
\<close>

theorem priority_order_by_rank:
  "(a < b \<longleftrightarrow> rank a < rank b) \<and> (a = b \<longleftrightarrow> rank a = rank b)
   \<and> partial_cmp a b = Some (if rank a < rank b then Less else if rank a = rank b then Equal else Greater)
   \<and> partial_cmp a b = Some (cmp a b)
   \<and> rank (priority_max a b) = max (rank a) (rank b)
   \<and> max_valid a (status_valid b) = priority_max a b \<and> max_valid a SInvalid = a
   \<and> (is_interrupt a \<and> is_thread b \<longrightarrow> b < a)"
proof -
  have "is_interrupt a \<and> is_thread b \<longrightarrow> b < a"
    by (cases a; cases b) simp_all
  moreover have "rank (max a b) = max (rank a) (rank b)"
    by (simp add: max_def less_eq_rank)
  ultimately show ?thesis
    by (simp add: less_rank rank_inject partial_cmp_cmp cmp_order priority_max_max)
qed

theorem priority_order_by_rank_witness:
  "Thread 255 < Interrupt 0 \<and> is_interrupt (Interrupt 0) \<and> is_thread (Thread 255)"
  using priority_order_by_rank [of "Interrupt 0" "Thread 255"] by simp

text \<open>
  \<open>succ\<close> is the next priority on that scale: it crosses from the highest thread
  priority to the lowest interrupt priority, and only the highest interrupt priority is its own
  successor.
\<close>

theorem succ_next_rank: "rank (succ p) = min (rank p + 1) (rank PRIORITY_MAX)"
proof -
  have bound: "unat x < 256" for x :: u8 by (rule unat_u8_less)
  show ?thesis
  proof (cases p)
    case (Thread x)
    with bound [of x] show ?thesis
      by (cases "x < 255") (simp_all add: PRIORITY_MAX_def INTERRUPT_MIN_def u8_succ u8_top min_def
          del: unat_u8_bounds)
  next
    case (Interrupt x)
    with bound [of x] show ?thesis
      by (cases "x < 255") (simp_all add: PRIORITY_MAX_def u8_succ u8_not_top u8_top min_def
          del: unat_u8_bounds)
  qed
qed

text \<open>
  Claim C34. The encodings lose nothing: a priority survives the 16-bit encoding, a status
  survives it with \<open>Invalid\<close> as the reserved value, and a pair of statuses survives being
  packed into the 32-bit word of \<open>lock_priorities\<close>.
\<close>

theorem encodings_roundtrip:
  "from_any (into_any p) = p \<and> status_from_any (status_into_any s) = s
   \<and> status_into_any (status_valid p) = into_any p
   \<and> to_status_pair (from_status_pair (s, t)) = (s, t)"
  by (simp add: status_into_any_valid)

text \<open>
  The packed atomic pair is an atomic cell holding the pair: a load returns the last
  store, \<open>compare_exchange\<close> succeeds exactly when the stored pair equals the expected one, and
  \<open>fetch_update\<close> applies its function to the stored pair.
\<close>

theorem packed_pair_is_atomic_cell:
  "pair_load (pair_store a p) = p
   \<and> pair_swap (pair_new p) q = (p, pair_new q)
   \<and> pair_compare_exchange (pair_new p) current new =
       (if p = current then (Inr p, pair_new new) else (Inl p, pair_new p))
   \<and> pair_fetch_update (pair_new p) f =
       (case f p of None \<Rightarrow> (Inl p, pair_new p) | Some q \<Rightarrow> (Inr p, pair_new q))"
  by (simp add: pair_cell_defs pair_cell.swap_packed pair_cell.compare_exchange_packed
      pair_cell.fetch_update_packed split: option.split)

lemma atomic_priority_is_cell:
  "atomic_priority_load (atomic_priority_store a p) = p
   \<and> atomic_priority_swap (atomic_priority_new p) q = (p, atomic_priority_new q)
   \<and> atomic_priority_compare_exchange (atomic_priority_new p) current new =
       (if p = current then (Inr p, atomic_priority_new new) else (Inl p, atomic_priority_new p))
   \<and> atomic_priority_fetch_update (atomic_priority_new p) f =
       (case f p of None \<Rightarrow> (Inl p, atomic_priority_new p) | Some q \<Rightarrow> (Inr p, atomic_priority_new q))
   \<and> atomic_priority_is_interrupt (atomic_priority_new p) = is_interrupt p
   \<and> atomic_priority_is_thread (atomic_priority_new p) = is_thread p"
  by (cases p)
    (simp_all add: atomic_priority_defs any_cell.swap_packed any_cell.compare_exchange_packed
      any_cell.fetch_update_packed atomic_priority_is_interrupt_def atomic_priority_is_thread_def
      split: option.split del: into_any.simps, auto)

text \<open>
  The atomic pair of priorities is an atomic cell as well, whatever layout the compiler chooses,
  as long as transmuting there and back is the identity; the way over a status and back loses nothing either.
\<close>

theorem priority_pair_is_atomic_cell:
  assumes "\<And>p. to_pair (from_pair p) = p"
  shows "ppair_load to_pair (ppair_store from_pair a p) = p
   \<and> ppair_swap from_pair to_pair (ppair_new from_pair p) q = (p, ppair_new from_pair q)
   \<and> ppair_compare_exchange from_pair to_pair (ppair_new from_pair p) current new =
       (if p = current then (Inr p, ppair_new from_pair new) else (Inl p, ppair_new from_pair p))
   \<and> ppair_fetch_update from_pair to_pair (ppair_new from_pair p) f =
       (case f p of None \<Rightarrow> (Inl p, ppair_new from_pair p) | Some q \<Rightarrow> (Inr p, ppair_new from_pair q))
   \<and> status_try_into (status_from_priority prio) = Inr prio"
proof -
  have cell: "packed_cell from_pair to_pair" using assms by unfold_locales
  have "status_try_into (status_from_priority prio) = Inr prio" by (cases prio) simp_all
  then show ?thesis
    by (simp add: ppair_new_def ppair_load_def ppair_store_def ppair_swap_def ppair_compare_exchange_def
        ppair_fetch_update_def packed_cell.swap_packed [OF cell] packed_cell.compare_exchange_packed [OF cell]
        packed_cell.fetch_update_packed [OF cell] assms split: option.split)
qed

theorem priority_pair_is_atomic_cell_witness:
  "\<exists>from_pair to_pair. ppair_swap from_pair to_pair (ppair_new from_pair (Thread 3, Interrupt 2)) (Thread 1, Thread 1)
     = ((Thread 3, Interrupt 2), ppair_new from_pair (Thread 1, Thread 1))"
proof -
  define from_pair where "from_pair = (\<lambda>(a, b). from_status_pair (status_valid a, status_valid b))"
  define to_pair where "to_pair = (\<lambda>w. map_prod (projr \<circ> status_try_into) (projr \<circ> status_try_into) (to_status_pair w))"
  have "status_try_into (status_valid x) = Inr x" for x by (cases x) simp_all
  then have "to_pair (from_pair p) = p" for p by (cases p) (simp add: from_pair_def to_pair_def)
  from priority_pair_is_atomic_cell [of to_pair from_pair, OF this] show ?thesis by blast
qed

end
