(* ===== verification/Linked_List.thy ===== *)
theory Linked_List
  imports Prelude
begin

text \<open>
  The intrusive doubly linked list of \<open>kernel/list.rs\<close> at the level of its pointers. A heap
  holds, for every node, the three cells of \<open>struct Node\<close> (owner, next, previous) and, for every
  list, the two fields of \<open>struct LinkedList\<close> (head, tail). The operations write these cells in
  the order of the source. The heap stands for an assignment of contents to lists
  (\<open>list_rel\<close>), and every operation is shown to change the contents as its name says, never to
  touch another list, and to panic exactly when the node is already owned.
\<close>

section \<open>Heap\<close>

record ('n, 'l) list_heap =
  n_owner :: "'n \<Rightarrow> 'l option"
  n_next :: "'n \<Rightarrow> 'n option"
  n_prev :: "'n \<Rightarrow> 'n option"
  l_head :: "'l \<Rightarrow> 'n option"
  l_tail :: "'l \<Rightarrow> 'n option"

text \<open>\<open>Node::new\<close> and \<open>LinkedList::new\<close>: nothing is linked.\<close>

definition heap_new :: "('n, 'l) list_heap" where
  "heap_new = \<lparr>n_owner = \<lambda>_. None, n_next = \<lambda>_. None, n_prev = \<lambda>_. None,
     l_head = \<lambda>_. None, l_tail = \<lambda>_. None\<rparr>"

definition in_list :: "'n \<Rightarrow> ('n, 'l) list_heap \<Rightarrow> bool" where
  "in_list n h = (n_owner h n \<noteq> None)"

definition set_next :: "'n \<Rightarrow> 'n option \<Rightarrow> ('n, 'l) list_heap \<Rightarrow> ('n, 'l) list_heap" where
  "set_next n v h = h\<lparr>n_next := (n_next h)(n := v)\<rparr>"

definition set_prev :: "'n \<Rightarrow> 'n option \<Rightarrow> ('n, 'l) list_heap \<Rightarrow> ('n, 'l) list_heap" where
  "set_prev n v h = h\<lparr>n_prev := (n_prev h)(n := v)\<rparr>"

definition replace_head :: "'l \<Rightarrow> 'n option \<Rightarrow> ('n, 'l) list_heap \<Rightarrow> ('n, 'l) list_heap" where
  "replace_head l v h = h\<lparr>l_head := (l_head h)(l := v)\<rparr>"

definition replace_tail :: "'l \<Rightarrow> 'n option \<Rightarrow> ('n, 'l) list_heap \<Rightarrow> ('n, 'l) list_heap" where
  "replace_tail l v h = h\<lparr>l_tail := (l_tail h)(l := v)\<rparr>"

definition take_ownership ::
  "'n \<Rightarrow> 'l \<Rightarrow> ('n, 'l) list_heap \<Rightarrow> ('n, 'l) list_heap res" where
  "take_ownership n l h =
     (if n_owner h n = None then Inr (h\<lparr>n_owner := (n_owner h)(n := Some l)\<rparr>)
      else Inl (Panic ''Cannot acquire a node that is already in a list''))"

definition try_take_ownership ::
  "'n \<Rightarrow> 'l \<Rightarrow> ('n, 'l) list_heap \<Rightarrow> (unit + unit) \<times> ('n, 'l) list_heap" where
  "try_take_ownership n l h =
     (if n_owner h n = None then (Inr (), h\<lparr>n_owner := (n_owner h)(n := Some l)\<rparr>)
      else (Inl (), h))"

definition release_ownership ::
  "'n \<Rightarrow> 'l \<Rightarrow> ('n, 'l) list_heap \<Rightarrow> ('n, 'l) list_heap res" where
  "release_ownership n l h =
     (if n_owner h n = Some l then Inr (h\<lparr>n_owner := (n_owner h)(n := None)\<rparr>)
      else Inl (Panic ''Cannot release a node that is not in the list''))"

lemmas heap_prims =
  set_next_def set_prev_def replace_head_def replace_tail_def take_ownership_def
  release_ownership_def

section \<open>Operations\<close>

definition push_front :: "'l \<Rightarrow> 'n \<Rightarrow> ('n, 'l) list_heap \<Rightarrow> ('n, 'l) list_heap res" where
  "push_front l n h0 =
     bind_res (take_ownership n l h0) (\<lambda>h1.
       let h2 = (case l_head h1 l of None \<Rightarrow> h1 | Some head \<Rightarrow> set_prev head (Some n) h1);
           h3 = set_next n (l_head h2 l) h2;
           h4 = set_prev n None h3;
           h5 = replace_head l (Some n) h4
       in Inr (if l_tail h5 l = None then replace_tail l (Some n) h5 else h5))"

definition push_back :: "'l \<Rightarrow> 'n \<Rightarrow> ('n, 'l) list_heap \<Rightarrow> ('n, 'l) list_heap res" where
  "push_back l n h0 =
     bind_res (take_ownership n l h0) (\<lambda>h1.
       let h2 = (case l_tail h1 l of None \<Rightarrow> h1 | Some tail \<Rightarrow> set_next tail (Some n) h1);
           h3 = set_next n None h2;
           h4 = set_prev n (l_tail h3 l) h3;
           h5 = replace_tail l (Some n) h4
       in Inr (if l_head h5 l = None then replace_head l (Some n) h5 else h5))"

definition pop_front :: "'l \<Rightarrow> ('n, 'l) list_heap \<Rightarrow> ('n option \<times> ('n, 'l) list_heap) res" where
  "pop_front l h0 =
     (case l_head h0 l of
        None \<Rightarrow> Inr (None, replace_head l None h0)
      | Some head \<Rightarrow>
          let h1 = replace_head l None h0;
              h2 = (case n_next h1 head of
                      Some nxt \<Rightarrow> replace_head l (Some nxt) (set_prev nxt None h1)
                    | None \<Rightarrow> replace_tail l None h1);
              h3 = set_next head None h2;
              h4 = set_prev head None h3
          in bind_res (release_ownership head l h4) (\<lambda>h5. Inr (Some head, h5)))"

definition pop_front_if ::
  "('n \<Rightarrow> bool) \<Rightarrow> 'l \<Rightarrow> ('n, 'l) list_heap \<Rightarrow> ('n option \<times> ('n, 'l) list_heap) res" where
  "pop_front_if predicate l h =
     (case l_head h l of
        None \<Rightarrow> Inr (None, h)
      | Some head \<Rightarrow> if predicate head then pop_front l h else Inr (None, h))"

text \<open>\<open>CursorMut::insert_before\<close>: \<open>current\<close> is the cursor's node, \<open>None\<close> the ghost node.\<close>

definition insert_before ::
  "'n option \<Rightarrow> 'l \<Rightarrow> 'n \<Rightarrow> ('n, 'l) list_heap \<Rightarrow> ('n, 'l) list_heap res" where
  "insert_before current l n h =
     (case current of
        Some cur \<Rightarrow>
          (case n_prev h cur of
             Some prev \<Rightarrow>
               bind_res (take_ownership n l h) (\<lambda>h1.
                 Inr (set_prev cur (Some n)
                       (set_next n (Some cur) (set_prev n (Some prev) (set_next prev (Some n) h1)))))
           | None \<Rightarrow> push_front l n h)
      | None \<Rightarrow> push_back l n h)"

text \<open>\<open>CursorMut::insert_after\<close>.\<close>

definition cursor_insert_after ::
  "'n option \<Rightarrow> 'l \<Rightarrow> 'n \<Rightarrow> ('n, 'l) list_heap \<Rightarrow> ('n, 'l) list_heap res" where
  "cursor_insert_after current l n h =
     (case current of
        Some cur \<Rightarrow>
          (case n_next h cur of
             Some nxt \<Rightarrow>
               bind_res (take_ownership n l h) (\<lambda>h1.
                 Inr (set_next cur (Some n)
                       (set_next n (Some nxt) (set_prev n (Some cur) (set_prev nxt (Some n) h1)))))
           | None \<Rightarrow> push_back l n h)
      | None \<Rightarrow> push_front l n h)"

text \<open>\<open>CursorMut::move_next\<close> and \<open>move_prev\<close>: from the ghost node to the ends of the list.\<close>

definition move_next :: "'l \<Rightarrow> ('n, 'l) list_heap \<Rightarrow> 'n option \<Rightarrow> 'n option" where
  "move_next l h current = (case current of Some n \<Rightarrow> n_next h n | None \<Rightarrow> l_head h l)"

definition move_prev :: "'l \<Rightarrow> ('n, 'l) list_heap \<Rightarrow> 'n option \<Rightarrow> 'n option" where
  "move_prev l h current = (case current of Some n \<Rightarrow> n_prev h n | None \<Rightarrow> l_tail h l)"

text \<open>
  The cursor for reading, which is an iterator: \<open>Cursor::move_next\<close> and \<open>move_prev\<close> stay at the end
  once they are there. The node stands for its item.
\<close>

definition cursor_front :: "'l \<Rightarrow> ('n, 'l) list_heap \<Rightarrow> 'n option" where
  "cursor_front l h = l_head h l"

definition cursor_move_next :: "('n, 'l) list_heap \<Rightarrow> 'n option \<Rightarrow> 'n option" where
  "cursor_move_next h current = (case current of Some n \<Rightarrow> n_next h n | None \<Rightarrow> None)"

definition cursor_move_prev :: "('n, 'l) list_heap \<Rightarrow> 'n option \<Rightarrow> 'n option" where
  "cursor_move_prev h current = (case current of Some n \<Rightarrow> n_prev h n | None \<Rightarrow> None)"

definition cursor_next_back :: "('n, 'l) list_heap \<Rightarrow> 'n option \<Rightarrow> 'n option \<times> 'n option" where
  "cursor_next_back h current = (let item = current in (item, cursor_move_prev h current))"

text \<open>
  The search loop of \<open>LinkedList::insert_after\<close>: \<open>None\<close> of the outer option means that the loop
  never ends, which happens only on a cyclic heap.
\<close>

partial_function (option) insert_after_from ::
  "('n \<Rightarrow> bool) \<Rightarrow> 'l \<Rightarrow> 'n \<Rightarrow> ('n, 'l) list_heap \<Rightarrow> 'n option \<Rightarrow> ('n, 'l) list_heap res option" where
  [code]: "insert_after_from predicate l n h cursor =
     (case cursor of
        Some item \<Rightarrow>
          if predicate item then insert_after_from predicate l n h (move_next l h cursor)
          else Some (insert_before cursor l n h)
      | None \<Rightarrow> Some (insert_before cursor l n h))"

definition ll_insert_after ::
  "('n \<Rightarrow> bool) \<Rightarrow> 'l \<Rightarrow> 'n \<Rightarrow> ('n, 'l) list_heap \<Rightarrow> ('n, 'l) list_heap res" where
  "ll_insert_after predicate l n h =
     (case insert_after_from predicate l n h (l_head h l) of
        None \<Rightarrow> Inl Diverges | Some r \<Rightarrow> r)"

definition remove :: "'l \<Rightarrow> 'n \<Rightarrow> ('n, 'l) list_heap \<Rightarrow> ('n, 'l) list_heap res" where
  "remove l n h0 =
     (let h1 = (case n_prev h0 n of
                  Some prev \<Rightarrow> set_next prev (n_next h0 n) h0
                | None \<Rightarrow> replace_head l (n_next h0 n) h0);
          h2 = (case n_next h1 n of
                  Some nxt \<Rightarrow> set_prev nxt (n_prev h1 n) h1
                | None \<Rightarrow> replace_tail l (n_prev h1 n) h1);
          h3 = set_next n None h2;
          h4 = set_prev n None h3
      in release_ownership n l h4)"

text \<open>\<open>Cursor\<close> as an iterator (\<open>next\<close> until the end): the items a traversal yields.\<close>

partial_function (option) cursor_items ::
  "('n, 'l) list_heap \<Rightarrow> 'n option \<Rightarrow> 'n list option" where
  [code]: "cursor_items h current =
     (case current of
        None \<Rightarrow> Some []
      | Some n \<Rightarrow> Option.bind (cursor_items h (n_next h n)) (\<lambda>rest. Some (n # rest)))"

section \<open>Contents\<close>

text \<open>
  \<open>dseg nx pv p xs q\<close>: the nodes \<open>xs\<close> are linked in both directions by the next cells
  \<open>nx\<close> and the previous cells \<open>pv\<close>; the first one's previous link is \<open>p\<close> and the last one's
  next link is \<open>q\<close>.
\<close>

fun dseg ::
  "('n \<Rightarrow> 'n option) \<Rightarrow> ('n \<Rightarrow> 'n option) \<Rightarrow> 'n option \<Rightarrow> 'n list \<Rightarrow> 'n option \<Rightarrow> bool" where
  "dseg nx pv p [] q = True"
| "dseg nx pv p (x # xs) q =
     (pv x = p \<and> nx x = (if xs = [] then q else first_opt xs) \<and> dseg nx pv (Some x) xs q)"

definition list_rel :: "('n, 'l) list_heap \<Rightarrow> ('l \<Rightarrow> 'n list) \<Rightarrow> bool" where
  "list_rel h ls \<longleftrightarrow>
     (\<forall>l. dseg (n_next h) (n_prev h) None (ls l) None \<and> distinct (ls l)
          \<and> l_head h l = first_opt (ls l) \<and> l_tail h l = last_opt (ls l))
   \<and> (\<forall>n l. n_owner h n = Some l \<longleftrightarrow> n \<in> set (ls l))"

lemma dseg_upd [simp]:
  "m \<notin> set xs \<Longrightarrow> dseg (nx(m := v)) pv p xs q = dseg nx pv p xs q"
  "m \<notin> set xs \<Longrightarrow> dseg nx (pv(m := v)) p xs q = dseg nx pv p xs q"
  by (induction xs arbitrary: p) auto

lemma dseg_append:
  "dseg nx pv p (xs @ ys) q \<longleftrightarrow>
     dseg nx pv p xs (if ys = [] then q else first_opt ys)
     \<and> dseg nx pv (if xs = [] then p else last_opt xs) ys q"
  by (induction xs arbitrary: p) auto

lemma dseg_frame:
  assumes "\<And>m. m \<in> set xs \<Longrightarrow> nx' m = nx m \<and> pv' m = pv m"
  shows "dseg nx' pv' p xs q = dseg nx pv p xs q"
  using assms by (induction xs arbitrary: p) auto

lemma list_rel_owner: "list_rel h ls \<Longrightarrow> n_owner h n = Some l \<longleftrightarrow> n \<in> set (ls l)"
  by (simp add: list_rel_def)

lemma list_rel_unowned: "list_rel h ls \<Longrightarrow> n_owner h n = None \<longleftrightarrow> (\<forall>l. n \<notin> set (ls l))"
  by (metis list_rel_owner not_None_eq)

lemma list_rel_disjoint:
  "list_rel h ls \<Longrightarrow> n \<in> set (ls l) \<Longrightarrow> n \<in> set (ls l') \<Longrightarrow> l = l'"
  by (metis list_rel_owner option.inject)

lemma list_rel_other:
  "list_rel h ls \<Longrightarrow> l' \<noteq> l \<Longrightarrow> n \<in> set (ls l') \<Longrightarrow> n \<notin> set (ls l)"
  by (metis list_rel_disjoint)

lemma list_rel_head: "list_rel h ls \<Longrightarrow> l_head h l = first_opt (ls l)"
  and list_rel_tail: "list_rel h ls \<Longrightarrow> l_tail h l = last_opt (ls l)"
  and list_rel_dseg: "list_rel h ls \<Longrightarrow> dseg (n_next h) (n_prev h) None (ls l) None"
  and list_rel_distinct: "list_rel h ls \<Longrightarrow> distinct (ls l)"
  by (simp_all add: list_rel_def)

lemma in_list_contents: "list_rel h ls \<Longrightarrow> in_list n h \<longleftrightarrow> (\<exists>l. n \<in> set (ls l))"
  by (auto simp: in_list_def list_rel_unowned)

text \<open>
  The step every operation takes: only list \<open>l\<close> changes its contents, links of nodes in other
  lists are untouched, and ownership follows the contents.
\<close>

lemma list_rel_update:
  assumes rel: "list_rel h ls"
    and seg: "dseg (n_next h') (n_prev h') None ys None" and "distinct ys"
    and "l_head h' = (l_head h)(l := first_opt ys)"
    and "l_tail h' = (l_tail h)(l := last_opt ys)"
    and frame: "\<And>m l'. l' \<noteq> l \<Longrightarrow> m \<in> set (ls l') \<Longrightarrow>
       n_next h' m = n_next h m \<and> n_prev h' m = n_prev h m"
    and own: "\<And>m l'. n_owner h' m = Some l' \<longleftrightarrow> m \<in> set ((ls(l := ys)) l')"
  shows "list_rel h' (ls(l := ys))"
proof -
  have "dseg (n_next h') (n_prev h') None (ls l') None" if "l' \<noteq> l" for l'
    using frame [OF that] list_rel_dseg [OF rel] by (subst dseg_frame)
  with assms show ?thesis
    by (simp add: list_rel_def)
qed

lemma heap_new_rel: "list_rel heap_new (\<lambda>_. [])"
  by (simp add: list_rel_def heap_new_def)

subsection \<open>Insertion\<close>

lemma take_ownership_owned:
  assumes "list_rel h ls" and "n \<in> set (ls l')"
  shows "take_ownership n l h = Inl (Panic ''Cannot acquire a node that is already in a list'')"
  using assms by (auto simp: take_ownership_def list_rel_unowned)

lemma push_front_rel:
  assumes rel: "list_rel h ls" and fresh: "\<forall>l'. n \<notin> set (ls l')"
  shows "\<exists>h'. push_front l n h = Inr h' \<and> list_rel h' (ls(l := n # ls l))"
proof -
  from fresh have unowned: "n_owner h n = None" by (simp add: list_rel_unowned [OF rel])
  note facts = list_rel_head [OF rel, of l] list_rel_tail [OF rel, of l]
    list_rel_dseg [OF rel, of l] list_rel_distinct [OF rel, of l] fresh
  show ?thesis
  proof (cases "ls l")
    case Nil
    let ?h = "h\<lparr>n_owner := (n_owner h)(n := Some l), n_next := (n_next h)(n := None),
      n_prev := (n_prev h)(n := None), l_head := (l_head h)(l := Some n),
      l_tail := (l_tail h)(l := Some n)\<rparr>"
    have "push_front l n h = Inr ?h"
      using facts Nil unowned by (simp add: push_front_def heap_prims)
    moreover have "list_rel ?h (ls(l := n # ls l))"
      by (rule list_rel_update [OF rel]) (use facts Nil in \<open>auto simp: list_rel_owner [OF rel]\<close>)
    ultimately show ?thesis by blast
  next
    case (Cons y ys)
    let ?h = "h\<lparr>n_owner := (n_owner h)(n := Some l), n_next := (n_next h)(n := Some y),
      n_prev := (n_prev h)(y := Some n, n := None), l_head := (l_head h)(l := Some n)\<rparr>"
    from facts Cons have neq: "y \<noteq> n" "n \<notin> set ys" "y \<notin> set ys"
      by (auto dest: spec [of _ l])
    have "push_front l n h = Inr ?h"
      using facts Cons unowned by (simp add: push_front_def heap_prims)
    moreover have "list_rel ?h (ls(l := n # ls l))"
      by (rule list_rel_update [OF rel]) (use facts Cons neq in \<open>auto simp: list_rel_owner [OF rel] dest: list_rel_other [OF rel]\<close>)
    ultimately show ?thesis by blast
  qed
qed

lemma push_back_rel:
  assumes rel: "list_rel h ls" and fresh: "\<forall>l'. n \<notin> set (ls l')"
  shows "\<exists>h'. push_back l n h = Inr h' \<and> list_rel h' (ls(l := ls l @ [n]))"
proof -
  from fresh have unowned: "n_owner h n = None" by (simp add: list_rel_unowned [OF rel])
  note facts = list_rel_head [OF rel, of l] list_rel_tail [OF rel, of l]
    list_rel_dseg [OF rel, of l] list_rel_distinct [OF rel, of l] fresh
  show ?thesis
  proof (cases "ls l" rule: rev_cases)
    case Nil
    let ?h = "h\<lparr>n_owner := (n_owner h)(n := Some l), n_next := (n_next h)(n := None),
      n_prev := (n_prev h)(n := None), l_head := (l_head h)(l := Some n),
      l_tail := (l_tail h)(l := Some n)\<rparr>"
    have "push_back l n h = Inr ?h"
      using facts Nil unowned by (simp add: push_back_def heap_prims)
    moreover have "list_rel ?h (ls(l := ls l @ [n]))"
      by (rule list_rel_update [OF rel]) (use facts Nil in \<open>auto simp: list_rel_owner [OF rel]\<close>)
    ultimately show ?thesis by blast
  next
    case (snoc ys y)
    let ?h = "h\<lparr>n_owner := (n_owner h)(n := Some l),
      n_next := (n_next h)(y := Some n, n := None),
      n_prev := (n_prev h)(n := Some y), l_tail := (l_tail h)(l := Some n)\<rparr>"
    from facts snoc have neq: "y \<noteq> n" "n \<notin> set ys" "y \<notin> set ys"
      by (auto dest: spec [of _ l])
    have "push_back l n h = Inr ?h"
      using facts snoc unowned by (simp add: push_back_def heap_prims)
    moreover have "list_rel ?h (ls(l := ls l @ [n]))"
      by (rule list_rel_update [OF rel])
        (use facts snoc neq in \<open>auto simp: list_rel_owner [OF rel] dseg_append split: if_splits
          dest: list_rel_other [OF rel]\<close>)
    ultimately show ?thesis by blast
  qed
qed

lemma insert_before_rel:
  assumes rel: "list_rel h ls" and fresh: "\<forall>l'. n \<notin> set (ls l')" and split: "ls l = as @ bs"
  shows "\<exists>h'. insert_before (first_opt bs) l n h = Inr h' \<and> list_rel h' (ls(l := as @ n # bs))"
proof (cases bs)
  case Nil
  with push_back_rel [OF rel fresh, of l] split show ?thesis
    by (simp add: insert_before_def)
next
  case (Cons cur cs)
  note facts = list_rel_head [OF rel, of l] list_rel_tail [OF rel, of l]
    list_rel_dseg [OF rel, of l] list_rel_distinct [OF rel, of l] fresh
  show ?thesis
  proof (cases as rule: rev_cases)
    case Nil
    with facts Cons split have "n_prev h cur = None" by simp
    with push_front_rel [OF rel fresh, of l] split Nil Cons show ?thesis
      by (simp add: insert_before_def)
  next
    case (snoc ps prev)
    let ?h = "h\<lparr>n_owner := (n_owner h)(n := Some l),
      n_next := (n_next h)(prev := Some n, n := Some cur),
      n_prev := (n_prev h)(n := Some prev, cur := Some n)\<rparr>"
    from fresh have unowned: "n_owner h n = None" by (simp add: list_rel_unowned [OF rel])
    have neq: "n \<noteq> prev" "n \<noteq> cur" "n \<notin> set ps" "n \<notin> set cs" "prev \<noteq> cur" "prev \<notin> set ps"
      "prev \<notin> set cs" "cur \<notin> set ps" "cur \<notin> set cs"
      using facts split Cons snoc by (auto dest: spec [of _ l])
    have "n_prev h cur = Some prev"
      using facts split Cons snoc by (simp add: dseg_append)
    with unowned Cons have "insert_before (first_opt bs) l n h = Inr ?h"
      by (simp add: insert_before_def heap_prims)
    moreover have "list_rel ?h (ls(l := as @ n # bs))"
      by (rule list_rel_update [OF rel])
        (use facts split Cons snoc neq in \<open>auto simp: list_rel_owner [OF rel] dseg_append
          split: if_splits dest: list_rel_other [OF rel]\<close>)
    ultimately show ?thesis by blast
  qed
qed

lemma insert_after_from_rel:
  assumes rel: "list_rel h ls" and fresh: "\<forall>l'. n \<notin> set (ls l')"
  shows "ls l = as @ bs \<Longrightarrow>
     \<exists>h'. insert_after_from P l n h (first_opt bs) = Some (Inr h')
        \<and> list_rel h' (ls(l := as @ insert_after P n bs))"
proof (induction bs arbitrary: as)
  case Nil
  obtain h' where "insert_before None l n h = Inr h'" and "list_rel h' (ls(l := as @ [n]))"
    using insert_before_rel [OF rel fresh Nil] by auto
  then show ?case by (simp add: insert_after_from.simps fun_upd_def)
next
  case (Cons b bs)
  show ?case
  proof (cases "P b")
    case True
    have "n_next h b = first_opt bs"
      using list_rel_dseg [OF rel, of l] Cons.prems by (auto simp: dseg_append split: if_splits)
    then have "insert_after_from P l n h (first_opt (b # bs)) =
        insert_after_from P l n h (first_opt bs)"
      using True by (simp add: insert_after_from.simps [of P l n h "Some b"] move_next_def)
    with Cons.IH [of "as @ [b]"] Cons.prems True show ?thesis by simp
  next
    case False
    with insert_before_rel [OF rel fresh Cons.prems] show ?thesis
      by (auto simp: insert_after_from.simps fun_upd_def)
  qed
qed

lemma ll_insert_after_rel:
  assumes rel: "list_rel h ls" and fresh: "\<forall>l'. n \<notin> set (ls l')"
  shows "\<exists>h'. ll_insert_after P l n h = Inr h' \<and> list_rel h' (ls(l := insert_after P n (ls l)))"
  using insert_after_from_rel [OF rel fresh, of l "[]" "ls l" P]
  by (auto simp: ll_insert_after_def list_rel_head [OF rel])

lemma insert_owned:
  assumes rel: "list_rel h ls" and owned: "n \<in> set (ls l')"
  shows "push_front l n h = Inl (Panic ''Cannot acquire a node that is already in a list'')"
    and "push_back l n h = Inl (Panic ''Cannot acquire a node that is already in a list'')"
    and "insert_before c l n h = Inl (Panic ''Cannot acquire a node that is already in a list'')"
  using take_ownership_owned [OF assms, of l]
  by (simp_all add: push_front_def push_back_def insert_before_def split: option.split)

lemma insert_after_from_owned:
  assumes rel: "list_rel h ls" and owned: "n \<in> set (ls l')"
  shows "ls l = as @ bs \<Longrightarrow> insert_after_from P l n h (first_opt bs) =
     Some (Inl (Panic ''Cannot acquire a node that is already in a list''))"
proof (induction bs arbitrary: as)
  case Nil
  then show ?case using insert_owned [OF assms] by (simp add: insert_after_from.simps)
next
  case (Cons b bs)
  have "n_next h b = first_opt bs"
    using list_rel_dseg [OF rel, of l] Cons.prems by (auto simp: dseg_append split: if_splits)
  with Cons.IH [of "as @ [b]"] Cons.prems insert_owned [OF assms] show ?case
    by (simp add: insert_after_from.simps [of P l n h "Some b"] move_next_def)
qed

lemma ll_insert_after_owned:
  assumes "list_rel h ls" and "n \<in> set (ls l')"
  shows "ll_insert_after P l n h = Inl (Panic ''Cannot acquire a node that is already in a list'')"
  using insert_after_from_owned [OF assms, of l "[]" "ls l" P]
  by (simp add: ll_insert_after_def list_rel_head [OF assms(1)])

subsection \<open>Removal\<close>

lemma pop_front_rel:
  assumes rel: "list_rel h ls"
  shows "\<exists>h'. pop_front l h = Inr (first_opt (ls l), h') \<and> list_rel h' (ls(l := tl (ls l)))"
proof (cases "ls l")
  case Nil
  with list_rel_head [OF rel, of l] have "pop_front l h = Inr (None, h)"
    by (simp add: pop_front_def replace_head_def fun_upd_idem)
  with Nil rel show ?thesis by (simp add: fun_upd_idem)
next
  case (Cons x xs)
  note facts = list_rel_head [OF rel, of l] list_rel_tail [OF rel, of l]
    list_rel_dseg [OF rel, of l] list_rel_distinct [OF rel, of l] list_rel_owner [OF rel, of x l]
  show ?thesis
  proof (cases xs)
    case Nil
    let ?h = "h\<lparr>n_owner := (n_owner h)(x := None), n_next := (n_next h)(x := None),
      n_prev := (n_prev h)(x := None), l_head := (l_head h)(l := None),
      l_tail := (l_tail h)(l := None)\<rparr>"
    have "pop_front l h = Inr (Some x, ?h)"
      using facts Cons Nil by (simp add: pop_front_def heap_prims)
    moreover have "list_rel ?h (ls(l := tl (ls l)))"
      by (rule list_rel_update [OF rel])
        (use facts Cons Nil in \<open>auto simp: list_rel_owner [OF rel] dest: list_rel_other [OF rel]\<close>)
    ultimately show ?thesis using Cons by auto
  next
    case (Cons y ys)
    let ?h = "h\<lparr>n_owner := (n_owner h)(x := None), n_next := (n_next h)(x := None),
      n_prev := (n_prev h)(y := None, x := None), l_head := (l_head h)(l := Some y)\<rparr>"
    have "pop_front l h = Inr (Some x, ?h)"
      using facts \<open>ls l = x # xs\<close> Cons by (simp add: pop_front_def heap_prims)
    moreover have "list_rel ?h (ls(l := tl (ls l)))"
      by (rule list_rel_update [OF rel])
        (use facts \<open>ls l = x # xs\<close> Cons in \<open>auto simp: list_rel_owner [OF rel]
          dest: list_rel_other [OF rel]\<close>)
    ultimately show ?thesis using \<open>ls l = x # xs\<close> by auto
  qed
qed

lemma remove_rel:
  assumes rel: "list_rel h ls" and mem: "n \<in> set (ls l)"
  shows "\<exists>h'. remove l n h = Inr h' \<and> list_rel h' (ls(l := remove1 n (ls l)))"
proof -
  from mem obtain as bs where split: "ls l = as @ n # bs"
    by (auto simp: in_set_conv_decomp)
  note facts = list_rel_head [OF rel, of l] list_rel_tail [OF rel, of l]
    list_rel_dseg [OF rel, of l] list_rel_distinct [OF rel, of l] list_rel_owner [OF rel, of n l]
  have rem: "remove1 n (ls l) = as @ bs"
    using facts split by (auto simp: remove1_append)
  let ?nx = "if as = [] then n_next h else (n_next h)(last as := first_opt bs)"
  let ?pv = "if bs = [] then n_prev h else (n_prev h)(hd bs := last_opt as)"
  let ?h = "h\<lparr>n_owner := (n_owner h)(n := None), n_next := ?nx(n := None),
     n_prev := ?pv(n := None),
     l_head := (if as = [] then (l_head h)(l := first_opt bs) else l_head h),
     l_tail := (if bs = [] then (l_tail h)(l := last_opt as) else l_tail h)\<rparr>"
  have links: "n_prev h n = last_opt as" "n_next h n = first_opt bs"
    using facts split by (auto simp: dseg_append split: if_splits)
  have "remove l n h = Inr ?h"
    using facts split links
    by (cases as rule: rev_cases; cases bs) (auto simp: remove_def heap_prims Let_def)
  moreover have "list_rel ?h (ls(l := as @ bs))"
  proof (rule list_rel_update [OF rel])
    show "dseg (n_next ?h) (n_prev ?h) None (as @ bs) None"
      using facts split by (cases as rule: rev_cases; cases bs) (auto simp: dseg_append)
    show "distinct (as @ bs)" using facts split by simp
    show "l_head ?h = (l_head h)(l := first_opt (as @ bs))"
      and "l_tail ?h = (l_tail h)(l := last_opt (as @ bs))"
      using facts split by (auto simp: fun_upd_idem_iff)
  next
    fix m l' assume "l' \<noteq> l" and "m \<in> set (ls l')"
    then have "m \<notin> set (ls l)" by (rule list_rel_other [OF rel])
    then have "m \<noteq> n" and "as \<noteq> [] \<Longrightarrow> m \<noteq> last as" and "bs \<noteq> [] \<Longrightarrow> m \<noteq> hd bs"
      using split by auto
    then show "n_next ?h m = n_next h m \<and> n_prev ?h m = n_prev h m" by simp
  next
    fix m l'
    show "n_owner ?h m = Some l' \<longleftrightarrow> m \<in> set ((ls(l := as @ bs)) l')"
      using facts split list_rel_owner [OF rel, of m l'] list_rel_owner [OF rel, of n l'] by auto
  qed
  ultimately show ?thesis using rem by auto
qed

lemma remove_foreign:
  assumes "list_rel h ls" and "n \<notin> set (ls l)"
  shows "remove l n h = Inl (Panic ''Cannot release a node that is not in the list'')"
  using assms
  by (simp add: remove_def heap_prims Let_def list_rel_owner [symmetric] split: option.split)

lemma cursor_items_rel:
  assumes "list_rel h ls"
  shows "ls l = as @ bs \<Longrightarrow> cursor_items h (first_opt bs) = Some bs"
proof (induction bs arbitrary: as)
  case Nil
  then show ?case by (simp add: cursor_items.simps)
next
  case (Cons b bs)
  have "n_next h b = first_opt bs"
    using list_rel_dseg [OF assms, of l] Cons.prems by (auto simp: dseg_append split: if_splits)
  with Cons.IH [of "as @ [b]"] Cons.prems show ?case
    by (simp add: cursor_items.simps [of h "Some b"])
qed

section \<open>The interface of intrusive lists\<close>

text \<open>
  What the kernel relies on: a representation \<open>rel\<close> between heaps and contents, and for each
  operation the contents it produces, for a node that is in no list (insertion) or in the given
  list (removal). The lemmas of the locale are the two ways the kernel uses lists: as a FIFO and
  as a queue kept sorted by position insertion.
\<close>

locale intrusive_lists =
  fixes rel :: "'h \<Rightarrow> ('l \<Rightarrow> 'n list) \<Rightarrow> bool"
    and enq :: "'l \<Rightarrow> 'n \<Rightarrow> 'h \<Rightarrow> 'h res"
    and ins :: "('n \<Rightarrow> bool) \<Rightarrow> 'l \<Rightarrow> 'n \<Rightarrow> 'h \<Rightarrow> 'h res"
    and pop :: "'l \<Rightarrow> 'h \<Rightarrow> ('n option \<times> 'h) res"
    and del :: "'l \<Rightarrow> 'n \<Rightarrow> 'h \<Rightarrow> 'h res"
  assumes enq_law: "rel h ls \<Longrightarrow> \<forall>l'. n \<notin> set (ls l') \<Longrightarrow>
      \<exists>h'. enq l n h = Inr h' \<and> rel h' (ls(l := ls l @ [n]))"
    and ins_law: "rel h ls \<Longrightarrow> \<forall>l'. n \<notin> set (ls l') \<Longrightarrow>
      \<exists>h'. ins P l n h = Inr h' \<and> rel h' (ls(l := insert_after P n (ls l)))"
    and pop_law: "rel h ls \<Longrightarrow>
      \<exists>h'. pop l h = Inr (first_opt (ls l), h') \<and> rel h' (ls(l := tl (ls l)))"
    and del_law: "rel h ls \<Longrightarrow> n \<in> set (ls l) \<Longrightarrow>
      \<exists>h'. del l n h = Inr h' \<and> rel h' (ls(l := remove1 n (ls l)))"
begin

text \<open>\<open>enq_all\<close> pushes a list of nodes, \<open>pop_all\<close> pops \<open>k\<close> times and collects the results.\<close>

primrec enq_all :: "'l \<Rightarrow> 'n list \<Rightarrow> 'h \<Rightarrow> 'h res" where
  "enq_all l [] h = Inr h"
| "enq_all l (n # ns) h = bind_res (enq l n h) (enq_all l ns)"

primrec pop_all :: "'l \<Rightarrow> nat \<Rightarrow> 'h \<Rightarrow> ('n option list \<times> 'h) res" where
  "pop_all l 0 h = Inr ([], h)"
| "pop_all l (Suc k) h =
     bind_res (pop l h) (\<lambda>(x, h1). bind_res (pop_all l k h1) (\<lambda>(xs, h2). Inr (x # xs, h2)))"

lemma enq_all_law:
  assumes "rel h ls" and "distinct ns" and "\<forall>n \<in> set ns. \<forall>l'. n \<notin> set (ls l')"
  shows "\<exists>h'. enq_all l ns h = Inr h' \<and> rel h' (ls(l := ls l @ ns))"
  using assms
proof (induction ns arbitrary: h ls)
  case Nil
  then show ?case by simp
next
  case (Cons n ns)
  then obtain h1 where h1: "enq l n h = Inr h1" "rel h1 (ls(l := ls l @ [n]))"
    using enq_law [of h ls n l] by auto
  have "\<exists>h'. enq_all l ns h1 = Inr h'
      \<and> rel h' ((ls(l := ls l @ [n]))(l := (ls(l := ls l @ [n])) l @ ns))"
    using Cons.prems by (intro Cons.IH [OF h1(2)]) auto
  then obtain h2 where "enq_all l ns h1 = Inr h2"
    and "rel h2 ((ls(l := ls l @ [n]))(l := (ls(l := ls l @ [n])) l @ ns))" by blast
  with h1(1) have "enq_all l (n # ns) h = Inr h2 \<and> rel h2 (ls(l := ls l @ n # ns))" by simp
  then show ?case by blast
qed

lemma pop_all_law:
  assumes "rel h ls" and "k \<le> length (ls l)"
  shows "\<exists>h'. pop_all l k h = Inr (map Some (take k (ls l)), h') \<and> rel h' (ls(l := drop k (ls l)))"
  using assms
proof (induction k arbitrary: h ls)
  case 0
  then show ?case by simp
next
  case (Suc k)
  then obtain x xs where xs: "ls l = x # xs" by (cases "ls l") auto
  with pop_law [OF Suc.prems(1), of l] obtain h1
    where h1: "pop l h = Inr (Some x, h1)" "rel h1 (ls(l := xs))" by auto
  have "k \<le> length ((ls(l := xs)) l)" using Suc.prems(2) xs by simp
  with Suc.IH [OF h1(2)] obtain h2 where "pop_all l k h1 = Inr (map Some (take k ((ls(l := xs)) l)), h2)"
    and "rel h2 ((ls(l := xs))(l := drop k ((ls(l := xs)) l)))" by blast
  with h1(1) xs have "pop_all l (Suc k) h = Inr (map Some (take (Suc k) (ls l)), h2)
      \<and> rel h2 (ls(l := drop (Suc k) (ls l)))" by simp
  then show ?case by blast
qed

lemma fifo:
  assumes "rel h ls" and "ls l = []" and "distinct ns" and "\<forall>n \<in> set ns. \<forall>l'. n \<notin> set (ls l')"
  shows "\<exists>h1 h2. enq_all l ns h = Inr h1 \<and> pop_all l (length ns) h1 = Inr (map Some ns, h2)
     \<and> rel h2 ls"
proof -
  obtain h1 where h1: "enq_all l ns h = Inr h1" "rel h1 (ls(l := ns))"
    using enq_all_law [OF assms(1,3,4), of l] assms(2) by auto
  from pop_all_law [OF h1(2), of "length ns" l] assms(2) h1(1) show ?thesis
    by (auto simp: fun_upd_idem)
qed

lemma sorted_ins:
  assumes "rel h ls" and "\<forall>l'. n \<notin> set (ls l')"
    and "transp R" and "sorted_wrt R (ls l)"
    and "\<And>m. m \<in> set (ls l) \<Longrightarrow> P m \<Longrightarrow> R m n"
    and "\<And>m. m \<in> set (ls l) \<Longrightarrow> \<not> P m \<Longrightarrow> R n m"
  shows "\<exists>h' ys. ins P l n h = Inr h' \<and> rel h' (ls(l := ys)) \<and> sorted_wrt R ys
     \<and> set ys = insert n (set (ls l))"
proof -
  obtain h' where "ins P l n h = Inr h'" and "rel h' (ls(l := insert_after P n (ls l)))"
    using ins_law [OF assms(1,2)] by blast
  moreover have "sorted_wrt R (insert_after P n (ls l))"
    using assms(3-6) by (rule sorted_insert_after)
  ultimately show ?thesis by (metis set_insert_after)
qed

lemma ins_del:
  assumes "rel h ls" and "\<forall>l'. n \<notin> set (ls l')"
  shows "\<exists>h1 h2. ins P l n h = Inr h1 \<and> del l n h1 = Inr h2 \<and> rel h2 ls"
proof -
  obtain h1 where h1: "ins P l n h = Inr h1" "rel h1 (ls(l := insert_after P n (ls l)))"
    using ins_law [OF assms] by blast
  from del_law [OF h1(2), of n l] assms(2) h1(1) show ?thesis
    by (simp add: remove1_insert_after)
qed

end

interpretation dll: intrusive_lists list_rel push_back ll_insert_after pop_front remove
  by unfold_locales (blast intro: push_back_rel ll_insert_after_rel pop_front_rel remove_rel)+

section \<open>Contents-level operations\<close>

text \<open>
  The kernel components keep their queues as contents. These are the list operations at that
  level, with the ownership panics: \<open>owned\<close> says whether the node is in some list of the same
  link. They satisfy the same interface as the pointers.
\<close>

definition c_push_back :: "bool \<Rightarrow> 'n \<Rightarrow> 'n list \<Rightarrow> 'n list res" where
  "c_push_back owned n xs =
     (if owned then Inl (Panic ''Cannot acquire a node that is already in a list'')
      else Inr (xs @ [n]))"

definition c_insert_after :: "bool \<Rightarrow> ('n \<Rightarrow> bool) \<Rightarrow> 'n \<Rightarrow> 'n list \<Rightarrow> 'n list res" where
  "c_insert_after owned P n xs =
     (if owned then Inl (Panic ''Cannot acquire a node that is already in a list'')
      else Inr (insert_after P n xs))"

definition c_remove :: "'n \<Rightarrow> 'n list \<Rightarrow> 'n list res" where
  "c_remove n xs =
     (if n \<in> set xs then Inr (remove1 n xs)
      else Inl (Panic ''Cannot release a node that is not in the list''))"

fun c_pop_front :: "'n list \<Rightarrow> 'n option \<times> 'n list" where
  "c_pop_front [] = (None, [])"
| "c_pop_front (x # xs) = (Some x, xs)"

fun c_pop_front_if :: "('n \<Rightarrow> bool) \<Rightarrow> 'n list \<Rightarrow> 'n option \<times> 'n list" where
  "c_pop_front_if P [] = (None, [])"
| "c_pop_front_if P (x # xs) = (if P x then (Some x, xs) else (None, x # xs))"

lemma c_pop_front_eq: "c_pop_front xs = (first_opt xs, tl xs)"
  by (cases xs) simp_all

lemmas contents_ops = c_push_back_def c_insert_after_def c_remove_def

text \<open>
  A node has one link per tag, so contents stand for a heap only when no node is in two lists or
  twice in one.
\<close>

definition contents_rel :: "('l \<Rightarrow> 'n list) \<Rightarrow> ('l \<Rightarrow> 'n list) \<Rightarrow> bool" where
  "contents_rel h ls \<longleftrightarrow> h = ls \<and> (\<forall>l. distinct (ls l))
     \<and> (\<forall>l l' n. n \<in> set (ls l) \<and> n \<in> set (ls l') \<longrightarrow> l = l')"

lemma list_rel_contents_rel: "list_rel h ls \<Longrightarrow> contents_rel ls ls"
  by (auto simp: contents_rel_def list_rel_distinct dest: list_rel_disjoint)

definition contents_owned :: "'n \<Rightarrow> ('l \<Rightarrow> 'n list) \<Rightarrow> bool" where
  "contents_owned n ls \<longleftrightarrow> (\<exists>l. n \<in> set (ls l))"

lemma contents_rel_update:
  assumes "contents_rel h ls" and "distinct ys"
    and "\<And>n. n \<in> set ys \<Longrightarrow> n \<in> set (ls l) \<or> (\<forall>l'. n \<notin> set (ls l'))"
  shows "contents_rel (h(l := ys)) (ls(l := ys))"
proof -
  have disj: "l1 = l2" if "n \<in> set (ls l1)" "n \<in> set (ls l2)" for n l1 l2
    using assms(1) that by (auto simp: contents_rel_def)
  have "l1 = l2" if n1: "n \<in> set ((ls(l := ys)) l1)" and n2: "n \<in> set ((ls(l := ys)) l2)" for n l1 l2
  proof (cases "l1 = l \<or> l2 = l")
    case True
    then have "n \<in> set ys" using n1 n2 by auto
    then have "n \<in> set (ls l) \<or> (\<forall>l'. n \<notin> set (ls l'))" by (rule assms(3))
    then have "n \<in> set (ls l') \<Longrightarrow> l' = l" for l' using disj by blast
    then show ?thesis using True n1 n2 by (metis fun_upd_other)
  next
    case False
    then show ?thesis using disj n1 n2 by simp
  qed
  then have "\<forall>l1 l2 n. n \<in> set ((ls(l := ys)) l1) \<and> n \<in> set ((ls(l := ys)) l2) \<longrightarrow> l1 = l2"
    by blast
  moreover have "h(l := ys) = ls(l := ys)" and "\<forall>l'. distinct ((ls(l := ys)) l')"
    using assms(1,2) by (auto simp: contents_rel_def)
  ultimately show ?thesis unfolding contents_rel_def by blast
qed

definition contents_enq :: "'l \<Rightarrow> 'n \<Rightarrow> ('l \<Rightarrow> 'n list) \<Rightarrow> ('l \<Rightarrow> 'n list) res" where
  "contents_enq l n h = map_sum id (\<lambda>xs. h(l := xs)) (c_push_back (contents_owned n h) n (h l))"

definition contents_ins ::
  "('n \<Rightarrow> bool) \<Rightarrow> 'l \<Rightarrow> 'n \<Rightarrow> ('l \<Rightarrow> 'n list) \<Rightarrow> ('l \<Rightarrow> 'n list) res" where
  "contents_ins P l n h =
     map_sum id (\<lambda>xs. h(l := xs)) (c_insert_after (contents_owned n h) P n (h l))"

definition contents_pop :: "'l \<Rightarrow> ('l \<Rightarrow> 'n list) \<Rightarrow> ('n option \<times> ('l \<Rightarrow> 'n list)) res" where
  "contents_pop l h = Inr (map_prod id (\<lambda>xs. h(l := xs)) (c_pop_front (h l)))"

definition contents_del :: "'l \<Rightarrow> 'n \<Rightarrow> ('l \<Rightarrow> 'n list) \<Rightarrow> ('l \<Rightarrow> 'n list) res" where
  "contents_del l n h = map_sum id (\<lambda>xs. h(l := xs)) (c_remove n (h l))"

lemma contents_pop_rel:
  assumes "contents_rel h ls"
  shows "\<exists>h'. contents_pop l h = Inr (first_opt (ls l), h') \<and> contents_rel h' (ls(l := tl (ls l)))"
proof -
  have "contents_rel (h(l := tl (ls l))) (ls(l := tl (ls l)))"
  proof (rule contents_rel_update [OF assms])
    show "distinct (tl (ls l))" using assms by (simp add: contents_rel_def distinct_tl)
    show "n \<in> set (ls l) \<or> (\<forall>l'. n \<notin> set (ls l'))" if "n \<in> set (tl (ls l))" for n
      using that by (cases "ls l") auto
  qed
  moreover have "contents_pop l h = Inr (first_opt (ls l), h(l := tl (ls l)))"
    using assms by (simp add: contents_pop_def c_pop_front_eq contents_rel_def)
  ultimately show ?thesis by blast
qed

lemma contents_del_rel:
  assumes "contents_rel h ls" and "n \<in> set (ls l)"
  shows "\<exists>h'. contents_del l n h = Inr h' \<and> contents_rel h' (ls(l := remove1 n (ls l)))"
proof -
  have "contents_rel (h(l := remove1 n (ls l))) (ls(l := remove1 n (ls l)))"
    using assms by (intro contents_rel_update) (auto simp: contents_rel_def dest: notin_set_remove1)
  moreover have "contents_del l n h = Inr (h(l := remove1 n (ls l)))"
    using assms by (simp add: contents_del_def c_remove_def contents_rel_def)
  ultimately show ?thesis by blast
qed

lemma contents_insert_rel:
  assumes "contents_rel h ls" and "\<forall>l'. n \<notin> set (ls l')"
  shows "\<exists>h'. contents_enq l n h = Inr h' \<and> contents_rel h' (ls(l := ls l @ [n]))"
    and "\<exists>h'. contents_ins P l n h = Inr h' \<and> contents_rel h' (ls(l := insert_after P n (ls l)))"
proof -
  have eq: "h = ls" and dist: "distinct (ls l)" using assms(1) by (simp_all add: contents_rel_def)
  have "contents_rel (h(l := ys)) (ls(l := ys))"
    if "distinct ys" and "set ys = insert n (set (ls l))" for ys
    using that assms by (intro contents_rel_update) auto
  from this [of "ls l @ [n]"] this [of "insert_after P n (ls l)"] dist assms(2)
  have "contents_rel (h(l := ls l @ [n])) (ls(l := ls l @ [n]))"
    and "contents_rel (h(l := insert_after P n (ls l))) (ls(l := insert_after P n (ls l)))"
    by simp_all
  moreover have "\<not> contents_owned n h" using assms(2) eq by (simp add: contents_owned_def)
  then have "contents_enq l n h = Inr (h(l := ls l @ [n]))"
    and "contents_ins P l n h = Inr (h(l := insert_after P n (ls l)))"
    using eq by (simp_all add: contents_enq_def contents_ins_def c_push_back_def c_insert_after_def)
  ultimately show "\<exists>h'. contents_enq l n h = Inr h' \<and> contents_rel h' (ls(l := ls l @ [n]))"
    and "\<exists>h'. contents_ins P l n h = Inr h' \<and> contents_rel h' (ls(l := insert_after P n (ls l)))"
    by blast+
qed

interpretation contents: intrusive_lists contents_rel contents_enq contents_ins contents_pop contents_del
  by unfold_locales
    (blast intro: contents_insert_rel contents_pop_rel contents_del_rel)+

section \<open>Properties\<close>

lemma list_ops_refine_facts:
  assumes "list_rel h ls"
  shows "(\<forall>l'. n \<notin> set (ls l')) \<Longrightarrow>
       (\<exists>h'. push_front l n h = Inr h' \<and> list_rel h' (ls(l := n # ls l)))
     \<and> (\<exists>h'. push_back l n h = Inr h' \<and> list_rel h' (ls(l := ls l @ [n])))
     \<and> (\<exists>h'. ll_insert_after P l n h = Inr h'
           \<and> list_rel h' (ls(l := takeWhile P (ls l) @ n # dropWhile P (ls l))))"
    and "\<exists>h'. pop_front l h = Inr (first_opt (ls l), h') \<and> list_rel h' (ls(l := tl (ls l)))"
    and "n \<in> set (ls l) \<Longrightarrow>
       \<exists>h'. remove l n h = Inr h' \<and> list_rel h' (ls(l := remove1 n (ls l)))"
proof -
  show "\<exists>h'. pop_front l h = Inr (first_opt (ls l), h') \<and> list_rel h' (ls(l := tl (ls l)))"
    using assms by (rule pop_front_rel)
  show "n \<in> set (ls l) \<Longrightarrow> \<exists>h'. remove l n h = Inr h' \<and> list_rel h' (ls(l := remove1 n (ls l)))"
    using assms by (rule remove_rel)
  assume "\<forall>l'. n \<notin> set (ls l')"
  then show "(\<exists>h'. push_front l n h = Inr h' \<and> list_rel h' (ls(l := n # ls l)))
     \<and> (\<exists>h'. push_back l n h = Inr h' \<and> list_rel h' (ls(l := ls l @ [n])))
     \<and> (\<exists>h'. ll_insert_after P l n h = Inr h'
           \<and> list_rel h' (ls(l := takeWhile P (ls l) @ n # dropWhile P (ls l))))"
    using push_front_rel [OF assms] push_back_rel [OF assms]
      ll_insert_after_rel [OF assms, of n P l] by (simp only: insert_after_takeWhile simp_thms)
qed

text \<open>
  Claim C26. The pointer-level list operations implement lists of nodes. On a heap that stands
  for contents \<open>ls\<close>, every insertion of a node that is in no list succeeds and changes the
  contents of its list exactly as its name says (front, back, before the first item that fails
  the predicate), \<open>pop_front\<close> takes the first node, \<open>remove\<close> takes the given node out, and no
  other list changes.
\<close>

theorem list_ops_refine:
  assumes "list_rel h ls"
  shows "((\<forall>l'. n \<notin> set (ls l')) \<longrightarrow>
       (\<exists>h'. push_front l n h = Inr h' \<and> list_rel h' (ls(l := n # ls l)))
     \<and> (\<exists>h'. push_back l n h = Inr h' \<and> list_rel h' (ls(l := ls l @ [n])))
     \<and> (\<exists>h'. ll_insert_after P l n h = Inr h'
           \<and> list_rel h' (ls(l := takeWhile P (ls l) @ n # dropWhile P (ls l)))))
   \<and> (\<exists>h'. pop_front l h = Inr (first_opt (ls l), h') \<and> list_rel h' (ls(l := tl (ls l))))
   \<and> (n \<in> set (ls l) \<longrightarrow> (\<exists>h'. remove l n h = Inr h' \<and> list_rel h' (ls(l := remove1 n (ls l)))))"
  using list_ops_refine_facts [OF assms] by blast

lemma heap_new_push_rel:
  "\<exists>h. push_back (0 :: nat) (7 :: nat) heap_new = Inr h \<and> list_rel h ((\<lambda>_. [])(0 := [7]))"
  using push_back_rel [OF heap_new_rel, of "7 :: nat" "0 :: nat"] by (simp add: fun_upd_def)

theorem list_ops_refine_witness:
  "\<exists>h. push_back (0 :: nat) (7 :: nat) heap_new = Inr h
     \<and> (\<exists>h'. push_front 0 8 h = Inr h' \<and> list_rel h' ((\<lambda>_. [])(0 := [8, 7])))
     \<and> (\<exists>h'. pop_front 0 h = Inr (Some 7, h'))
     \<and> (\<exists>h'. remove 0 7 h = Inr h' \<and> list_rel h' (\<lambda>_. []))"
proof -
  obtain h where h: "push_back (0 :: nat) (7 :: nat) heap_new = Inr h"
    and rel: "list_rel h ((\<lambda>_. [])(0 := [7]))" using heap_new_push_rel by blast
  have "\<exists>h'. push_front 0 8 h = Inr h' \<and> list_rel h' ((\<lambda>_. [])(0 := [8, 7]))"
    using list_ops_refine [OF rel, of 8 0] by auto
  moreover have "\<exists>h'. pop_front 0 h = Inr (Some 7, h')"
    using list_ops_refine [OF rel, of 7 0] by auto
  moreover have "\<exists>h'. remove 0 7 h = Inr h' \<and> list_rel h' (\<lambda>_. [])"
    using list_ops_refine [OF rel, of 7 0] by (simp add: fun_upd_idem)
  ultimately show ?thesis using h by blast
qed

lemma list_ownership_panics_facts:
  assumes "list_rel h ls"
  shows "in_list n h \<longleftrightarrow> (\<exists>l. n \<in> set (ls l))"
    and "in_list n h \<Longrightarrow>
      push_front l n h = Inl (Panic ''Cannot acquire a node that is already in a list'')
      \<and> push_back l n h = Inl (Panic ''Cannot acquire a node that is already in a list'')
      \<and> ll_insert_after P l n h = Inl (Panic ''Cannot acquire a node that is already in a list'')"
    and "n \<notin> set (ls l) \<Longrightarrow>
      remove l n h = Inl (Panic ''Cannot release a node that is not in the list'')"
proof -
  show iff: "in_list n h \<longleftrightarrow> (\<exists>l. n \<in> set (ls l))" using assms by (rule in_list_contents)
  show "n \<notin> set (ls l) \<Longrightarrow>
      remove l n h = Inl (Panic ''Cannot release a node that is not in the list'')"
    using assms by (rule remove_foreign)
  assume "in_list n h"
  with iff obtain l' where "n \<in> set (ls l')" by blast
  from insert_owned [OF assms this] ll_insert_after_owned [OF assms this]
  show "push_front l n h = Inl (Panic ''Cannot acquire a node that is already in a list'')
      \<and> push_back l n h = Inl (Panic ''Cannot acquire a node that is already in a list'')
      \<and> ll_insert_after P l n h = Inl (Panic ''Cannot acquire a node that is already in a list'')"
    by blast
qed

text \<open>
  Ownership makes misuse visible: on a heap that stands for contents, a node is
  reported as linked exactly when it is in some list; every insertion of such a node panics
  without a result, and removing a node from a list it is not in panics.
\<close>

theorem list_ownership_panics:
  assumes "list_rel h ls"
  shows "(in_list n h \<longleftrightarrow> (\<exists>l. n \<in> set (ls l)))
    \<and> (in_list n h \<longrightarrow>
      push_front l n h = Inl (Panic ''Cannot acquire a node that is already in a list'')
      \<and> push_back l n h = Inl (Panic ''Cannot acquire a node that is already in a list'')
      \<and> ll_insert_after P l n h = Inl (Panic ''Cannot acquire a node that is already in a list''))
    \<and> (n \<notin> set (ls l) \<longrightarrow>
      remove l n h = Inl (Panic ''Cannot release a node that is not in the list''))"
  using list_ownership_panics_facts [OF assms] by blast

theorem list_ownership_panics_witness:
  "\<exists>h. push_back (0 :: nat) (7 :: nat) heap_new = Inr h \<and> in_list 7 h
     \<and> push_front 1 7 h = Inl (Panic ''Cannot acquire a node that is already in a list'')
     \<and> remove 1 7 h = Inl (Panic ''Cannot release a node that is not in the list'')"
proof -
  obtain h where h: "push_back (0 :: nat) (7 :: nat) heap_new = Inr h"
    and rel: "list_rel h ((\<lambda>_. [])(0 := [7]))" using heap_new_push_rel by blast
  have "in_list 7 h" using list_ownership_panics [OF rel, of 7] by auto
  with list_ownership_panics [OF rel, of 7 1] h
  show ?thesis by auto
qed

text \<open>
  A list is a FIFO queue: pushing distinct unlinked nodes on an empty list and popping
  as many times returns them in the order in which they were pushed and leaves every list as it
  was.
\<close>

theorem list_fifo:
  assumes "list_rel h ls" and "ls l = []" and "distinct ns"
    and "\<forall>n \<in> set ns. \<forall>l'. n \<notin> set (ls l')"
  shows "\<exists>h1 h2. dll.enq_all l ns h = Inr h1
     \<and> dll.pop_all l (length ns) h1 = Inr (map Some ns, h2) \<and> list_rel h2 ls"
  using assms by (rule dll.fifo)

theorem list_fifo_witness:
  "\<exists>h1 h2. dll.enq_all (0 :: nat) [5, 3, 4 :: nat] heap_new = Inr h1
     \<and> dll.pop_all 0 3 h1 = Inr ([Some 5, Some 3, Some 4], h2)"
  using list_fifo [OF heap_new_rel, where l = "0 :: nat" and ns = "[5, 3, 4 :: nat]"] by (simp add: eval_nat_numeral) blast

text \<open>
  A list is read from the front to the back by a cursor. The same cursor as a double-ended iterator
  does not give the items from the back: it gives the first item and ends.
\<close>

theorem cursor_reads_forward_only:
  assumes "list_rel h ls"
  shows "cursor_items h (cursor_front l h) = Some (ls l)
     \<and> (ls l \<noteq> [] \<longrightarrow> cursor_next_back h (cursor_front l h) = (Some (hd (ls l)), None))"
proof -
  have f: "cursor_front l h = first_opt (ls l)" using assms by (simp add: cursor_front_def list_rel_def)
  have "n_prev h x = None" if "ls l = x # xs" for x xs using list_rel_dseg [OF assms, of l] that by simp
  then show ?thesis
    using cursor_items_rel [OF assms, of l "[]" "ls l"] f
    by (cases "ls l") (simp_all add: cursor_next_back_def cursor_move_prev_def)
qed

theorem cursor_reads_forward_only_witness:
  "\<exists>h1 h2. push_back () (5 :: nat) heap_new = Inr h1 \<and> push_back () 6 h1 = Inr h2
     \<and> cursor_next_back h2 (cursor_front () h2) = (Some 5, None)"
proof -
  have "list_rel (heap_new :: (nat, unit) list_heap) (\<lambda>_. [])" by (simp add: list_rel_def heap_new_def)
  from dll.enq_law [OF this, of 5 "()"] obtain h1 where h1: "push_back () (5 :: nat) heap_new = Inr h1" "list_rel h1 ((\<lambda>_. [])(() := [5]))"
    by auto
  from dll.enq_law [OF h1(2), of 6 "()"] obtain h2 where "push_back () 6 h1 = Inr h2" "list_rel h2 ((\<lambda>_. [])(() := [5, 6]))"
    by auto
  with h1(1) cursor_reads_forward_only [of h2 "(\<lambda>_. [])(() := [5, 6])" "()"] show ?thesis by auto
qed

end
