(* ===== verification/Fifo_Queue.thy ===== *)
theory Fifo_Queue
  imports Prelude
begin

text \<open>
  The interface of FIFO queues, which the lock-free queue of suspendables and the ring buffer of
  the channels both provide: a representation of contents, an enqueue that appends where it is
  permitted, and a dequeue that takes the first item. From the two laws follows, once for every
  provider, that no sequence of operations loses, duplicates or reorders an item.
\<close>

datatype 'a queue_op = Enq 'a | Deq

text \<open>The items a sequence of operations enqueues, in order.\<close>

fun enqueued :: "'a queue_op list \<Rightarrow> 'a list" where
  "enqueued [] = []"
| "enqueued (Enq x # ops) = x # enqueued ops"
| "enqueued (Deq # ops) = enqueued ops"

fun opt_list :: "'a option \<Rightarrow> 'a list" where
  "opt_list None = []"
| "opt_list (Some x) = [x]"

lemma opt_list_first_tl [simp]: "opt_list (first_opt xs) @ tl xs = xs"
  by (cases xs) simp_all

locale fifo_queue =
  fixes rel :: "'q \<Rightarrow> 'a list \<Rightarrow> bool"
    and can_enq :: "'a \<Rightarrow> 'q \<Rightarrow> bool"
    and enq :: "'a \<Rightarrow> 'q \<Rightarrow> 'q res"
    and deq :: "'q \<Rightarrow> ('a option \<times> 'q) res"
  assumes enq_law: "rel q xs \<Longrightarrow> can_enq x q \<Longrightarrow> \<exists>q'. enq x q = Inr q' \<and> rel q' (xs @ [x])"
    and deq_law: "rel q xs \<Longrightarrow> \<exists>q'. deq q = Inr (first_opt xs, q') \<and> rel q' (tl xs)"
begin

text \<open>
  \<open>run ops q\<close> performs the operations and collects the dequeued items; \<open>permitted ops q\<close> says
  that every enqueue finds the queue in a state that permits it.
\<close>

fun run :: "'a queue_op list \<Rightarrow> 'q \<Rightarrow> ('a list \<times> 'q) res" where
  "run [] q = Inr ([], q)"
| "run (Enq x # ops) q = bind_res (enq x q) (run ops)"
| "run (Deq # ops) q =
     bind_res (deq q) (\<lambda>(x, q1). bind_res (run ops q1) (\<lambda>(xs, q2). Inr (opt_list x @ xs, q2)))"

fun permitted :: "'a queue_op list \<Rightarrow> 'q \<Rightarrow> bool" where
  "permitted [] q = True"
| "permitted (Enq x # ops) q = (can_enq x q \<and> (\<forall>q'. enq x q = Inr q' \<longrightarrow> permitted ops q'))"
| "permitted (Deq # ops) q = (\<forall>x q'. deq q = Inr (x, q') \<longrightarrow> permitted ops q')"

lemma run_fifo:
  assumes "rel q xs" and "permitted ops q"
  shows "\<exists>outs q' ys. run ops q = Inr (outs, q') \<and> rel q' ys \<and> outs @ ys = xs @ enqueued ops"
  using assms
proof (induction ops arbitrary: q xs)
  case Nil
  then show ?case by simp
next
  case (Cons op ops)
  show ?case
  proof (cases op)
    case (Enq x)
    with Cons.prems obtain q1 where q1: "enq x q = Inr q1" "rel q1 (xs @ [x])"
      using enq_law [of q xs x] by auto
    with Cons.prems Enq have "permitted ops q1" by simp
    from Cons.IH [OF q1(2) this] q1(1) Enq show ?thesis by auto
  next
    case Deq
    from deq_law [OF Cons.prems(1)] obtain q1
      where q1: "deq q = Inr (first_opt xs, q1)" "rel q1 (tl xs)" by blast
    with Cons.prems Deq have "permitted ops q1" by simp
    from Cons.IH [OF q1(2) this] obtain outs q2 ys
      where "run ops q1 = Inr (outs, q2)" "rel q2 ys" "outs @ ys = tl xs @ enqueued ops" by blast
    then have "run (op # ops) q = Inr (opt_list (first_opt xs) @ outs, q2) \<and> rel q2 ys
        \<and> (opt_list (first_opt xs) @ outs) @ ys = xs @ enqueued (op # ops)"
      using Deq q1(1) by (cases xs) simp_all
    then show ?thesis by blast
  qed
qed

end

end
