(* ===== verification/Atomic_Queue.thy ===== *)
theory Atomic_Queue
  imports Fifo_Queue
begin

text \<open>
  The intrusive lock-free queue of \<open>kernel/atomic_queue.rs\<close>, a Michael-Scott queue whose nodes
  live in the queued items. The model follows the pointers of one queue: its head, its tail, the
  next pointers and the \<open>owned\<close> flags of the nodes, with the loops as partial functions. It is
  the behaviour of one operation at a time. Shown: operations refine an exact abstract queue;
  the queue is FIFO as long as no item is pushed back while it is still the queue's dummy node,
  which is the item popped last; and what happens when one is.
\<close>

section \<open>Pointers\<close>

datatype 'n aq_ptr = Sentinel | Item 'n

record 'n atomic_queue =
  aq_head :: "'n aq_ptr option"
  aq_tail :: "'n aq_ptr option"
  aq_next :: "'n aq_ptr \<Rightarrow> 'n aq_ptr option"
  aq_owned :: "'n aq_ptr \<Rightarrow> bool"

definition aq_new :: "'n atomic_queue" where
  "aq_new = \<lparr>aq_head = None, aq_tail = None, aq_next = \<lambda>_. None, aq_owned = \<lambda>_. False\<rparr>"

definition aq_set_next :: "'n aq_ptr \<Rightarrow> 'n aq_ptr option \<Rightarrow> 'n atomic_queue \<Rightarrow> 'n atomic_queue" where
  "aq_set_next p v q = q\<lparr>aq_next := (aq_next q)(p := v)\<rparr>"

definition aq_set_owned :: "'n aq_ptr \<Rightarrow> bool \<Rightarrow> 'n atomic_queue \<Rightarrow> 'n atomic_queue" where
  "aq_set_owned p v q = q\<lparr>aq_owned := (aq_owned q)(p := v)\<rparr>"

text \<open>The compare-and-exchange of the two queue ends, its result ignored.\<close>

definition cas_head :: "'n aq_ptr option \<Rightarrow> 'n aq_ptr option \<Rightarrow> 'n atomic_queue \<Rightarrow> 'n atomic_queue" where
  "cas_head current new q = q\<lparr>aq_head := snd (atomic_compare_exchange (aq_head q) current new)\<rparr>"

definition cas_tail :: "'n aq_ptr option \<Rightarrow> 'n aq_ptr option \<Rightarrow> 'n atomic_queue \<Rightarrow> 'n atomic_queue" where
  "cas_tail current new q = q\<lparr>aq_tail := snd (atomic_compare_exchange (aq_tail q) current new)\<rparr>"

lemmas aq_prims = aq_set_next_def aq_set_owned_def cas_head_def cas_tail_def
  atomic_compare_exchange_def

section \<open>Operations\<close>

definition init_once :: "'n atomic_queue \<Rightarrow> 'n atomic_queue" where
  "init_once q = cas_tail None (Some Sentinel) (cas_head None (Some Sentinel) q)"

text \<open>A null head is dereferenced by no path below: \<open>init_once\<close> runs first.\<close>

definition aq_is_empty :: "'n atomic_queue \<Rightarrow> bool res \<times> 'n atomic_queue" where
  "aq_is_empty q0 =
     (let q = init_once q0 in
      (case aq_head q of
         None \<Rightarrow> (Inl UninitRead, q)
       | Some head \<Rightarrow> (Inr (aq_next q head = None), q)))"

partial_function (option) push_loop ::
  "'n aq_ptr \<Rightarrow> 'n atomic_queue \<Rightarrow> 'n atomic_queue res option" where
  [code]: "push_loop new_node q =
     (case aq_tail q of
        None \<Rightarrow> Some (Inl UninitRead)
      | Some tail \<Rightarrow>
          if aq_tail q \<noteq> Some tail then push_loop new_node q
          else (case aq_next q tail of
                  None \<Rightarrow> Some (Inr (cas_tail (Some tail) (Some new_node)
                            (aq_set_next tail (Some new_node) q)))
                | Some nxt \<Rightarrow> push_loop new_node (cas_tail (Some tail) (Some nxt) q)))"

definition loop_result :: "'a res option \<Rightarrow> 'a res" where
  "loop_result r = (case r of None \<Rightarrow> Inl Diverges | Some x \<Rightarrow> x)"

definition aq_push_back :: "'n \<Rightarrow> 'n atomic_queue \<Rightarrow> 'n atomic_queue res" where
  "aq_push_back item q0 =
     (let q1 = init_once q0 in
      if aq_owned q1 (Item item) then Inl (AtomicQueue ItemAlreadyInQueue)
      else loop_result (push_loop (Item item)
             (aq_set_next (Item item) None (aq_set_owned (Item item) True q1))))"

partial_function (option) pop_loop ::
  "'n atomic_queue \<Rightarrow> ('n aq_ptr option \<times> 'n atomic_queue) res option" where
  [code]: "pop_loop q =
     (case aq_head q of
        None \<Rightarrow> Some (Inl UninitRead)
      | Some head \<Rightarrow>
          if aq_head q \<noteq> Some head then pop_loop q
          else if aq_tail q = Some head then
            (case aq_next q head of
               None \<Rightarrow> Some (Inr (None, q))
             | Some nxt \<Rightarrow> pop_loop (cas_tail (Some head) (Some nxt) q))
          else
            (case aq_next q head of
               None \<Rightarrow> pop_loop q
             | Some nxt \<Rightarrow>
                 let q1 = cas_head (Some head) (Some nxt) q in
                 Some (if aq_owned q1 nxt then Inr (Some nxt, aq_set_owned nxt False q1)
                       else Inl (AtomicQueue ItemNotInQueue))))"

text \<open>
  The item of a node is the structure that contains it. The sentinel is inside the queue and in
  no item; it is never dequeued, so reading its item is an undefined read.
\<close>

fun get_item :: "'n aq_ptr \<Rightarrow> 'n res" where
  "get_item (Item n) = Inr n"
| "get_item Sentinel = Inl UninitRead"

definition aq_pop_front :: "'n atomic_queue \<Rightarrow> ('n option \<times> 'n atomic_queue) res" where
  "aq_pop_front q0 =
     bind_res (loop_result (pop_loop (init_once q0))) (\<lambda>(node, q).
       case node of
         None \<Rightarrow> Inr (None, q)
       | Some p \<Rightarrow> bind_res (get_item p) (\<lambda>n. Inr (Some n, q)))"

definition is_linked :: "'n \<Rightarrow> 'n atomic_queue \<Rightarrow> bool" where
  "is_linked n q = aq_owned q (Item n)"

section \<open>Contents\<close>

text \<open>
  \<open>chain nx p xs\<close>: from node \<open>p\<close> the next pointers lead through \<open>xs\<close> and end.
\<close>

fun chain :: "('n aq_ptr \<Rightarrow> 'n aq_ptr option) \<Rightarrow> 'n aq_ptr \<Rightarrow> 'n list \<Rightarrow> bool" where
  "chain nx p [] = (nx p = None)"
| "chain nx p (x # xs) = (nx p = Some (Item x) \<and> chain nx (Item x) xs)"

definition last_ptr :: "'n aq_ptr \<Rightarrow> 'n list \<Rightarrow> 'n aq_ptr" where
  "last_ptr p xs = (if xs = [] then p else Item (last xs))"

text \<open>
  \<open>aq_rel q d xs\<close>: the queue holds \<open>xs\<close> behind the dummy node \<open>d\<close>.
\<close>

definition aq_rel_at :: "'n atomic_queue \<Rightarrow> 'n aq_ptr \<Rightarrow> 'n list \<Rightarrow> bool" where
  "aq_rel_at q d xs \<longleftrightarrow>
     aq_head q = Some d \<and> aq_tail q = Some (last_ptr d xs) \<and> chain (aq_next q) d xs
     \<and> distinct xs \<and> d \<notin> Item ` set xs \<and> (\<forall>x \<in> set xs. aq_owned q (Item x))"

definition aq_rel :: "'n atomic_queue \<Rightarrow> 'n aq_ptr \<Rightarrow> 'n list \<Rightarrow> bool" where
  "aq_rel q d xs = aq_rel_at (init_once q) d xs"

lemma init_once_idem [simp]: "init_once (init_once q) = init_once q"
  by (simp add: init_once_def aq_prims)

lemma init_once_other [simp]:
  "aq_next (init_once q) = aq_next q"
  "aq_owned (init_once q) = aq_owned q"
  by (simp_all add: init_once_def aq_prims)

lemma init_once_id: "aq_head q = Some h \<Longrightarrow> aq_tail q = Some t \<Longrightarrow> init_once q = q"
  by (simp add: init_once_def aq_prims)

lemma aq_rel_at_rel: "aq_rel_at q d xs \<Longrightarrow> aq_rel q d xs"
  by (simp add: aq_rel_def aq_rel_at_def init_once_id)

lemma aq_new_rel: "aq_rel aq_new Sentinel []"
  by (simp add: aq_rel_def aq_rel_at_def aq_new_def init_once_def aq_prims last_ptr_def)

lemma chain_frame:
  "p \<noteq> r \<Longrightarrow> r \<notin> Item ` set xs \<Longrightarrow> chain (nx(r := v)) p xs = chain nx p xs"
  by (induction xs arbitrary: p) auto

lemma chain_snoc:
  assumes "chain nx p xs" and "distinct xs" and "p \<notin> Item ` set xs" and "x \<notin> set xs"
    and "p \<noteq> Item x"
  shows "chain (nx(Item x := None, last_ptr p xs := Some (Item x))) p (xs @ [x])"
  using assms
proof (induction xs arbitrary: p)
  case (Cons y ys)
  then have "chain (nx(Item x := None, last_ptr (Item y) ys := Some (Item x))) (Item y) (ys @ [x])"
    by (intro Cons.IH) auto
  moreover have "last_ptr p (y # ys) = last_ptr (Item y) ys" by (simp add: last_ptr_def)
  moreover have "last_ptr (Item y) ys \<noteq> p" using Cons.prems by (auto simp: last_ptr_def)
  ultimately show ?case using Cons.prems by (simp add: fun_upd_def)
qed (simp add: last_ptr_def)

lemma chain_last: "chain nx p xs \<Longrightarrow> nx (last_ptr p xs) = None"
  by (induction xs arbitrary: p) (auto simp: last_ptr_def split: if_splits)

lemma last_ptr_neq: "x \<notin> set xs \<Longrightarrow> d \<noteq> Item x \<Longrightarrow> last_ptr d xs \<noteq> Item x"
  by (auto simp: last_ptr_def)

lemma last_ptr_snoc [simp]: "last_ptr d (xs @ [x]) = Item x"
  by (simp add: last_ptr_def)

section \<open>What the operations do\<close>

lemma aq_push_back_owned:
  "is_linked x q \<Longrightarrow> aq_push_back x q = Inl (AtomicQueue ItemAlreadyInQueue)"
  by (simp add: aq_push_back_def is_linked_def)

lemma aq_push_back_rel:
  assumes rel: "aq_rel q d xs" and fresh: "\<not> is_linked x q" and nd: "d \<noteq> Item x"
  shows "\<exists>q'. aq_push_back x q = Inr q' \<and> aq_rel q' d (xs @ [x])
     \<and> aq_owned q' = (aq_owned q)(Item x := True)"
proof -
  let ?q = "init_once q"
  let ?q1 = "aq_set_next (Item x) None (aq_set_owned (Item x) True ?q)"
  let ?q2 = "cas_tail (Some (last_ptr d xs)) (Some (Item x)) (aq_set_next (last_ptr d xs) (Some (Item x)) ?q1)"
  have at: "aq_rel_at ?q d xs" using rel by (simp add: aq_rel_def)
  have x: "x \<notin> set xs" using at fresh by (auto simp: aq_rel_at_def is_linked_def)
  note ne = last_ptr_neq [OF x nd]
  have "aq_next ?q (last_ptr d xs) = None"
    using at chain_last by (auto simp: aq_rel_at_def simp del: init_once_other)
  then have "push_loop (Item x) ?q1 = Some (Inr ?q2)"
    using at ne by (subst push_loop.simps) (simp add: aq_rel_at_def aq_prims)
  then have "aq_push_back x q = Inr ?q2"
    using fresh by (simp add: aq_push_back_def Let_def is_linked_def loop_result_def)
  moreover have "aq_rel_at ?q2 d (xs @ [x])"
    using at x nd chain_snoc [of "aq_next q" d xs x]
    by (auto simp: aq_rel_at_def aq_prims)
  moreover have "aq_owned ?q2 = (aq_owned q)(Item x := True)"
    by (simp add: aq_prims)
  ultimately show ?thesis using aq_rel_at_rel by blast
qed

lemma aq_pop_front_rel:
  assumes rel: "aq_rel q d xs"
  shows "aq_pop_front q = Inr (None, init_once q) \<and> xs = [] \<or>
     (\<exists>x ys q'. xs = x # ys \<and> aq_pop_front q = Inr (Some x, q') \<and> aq_rel q' (Item x) ys
        \<and> aq_owned q' = (aq_owned q)(Item x := False))"
proof (cases xs)
  case Nil
  with rel show ?thesis
    by (simp add: aq_rel_def aq_rel_at_def aq_pop_front_def pop_loop.simps [of "init_once q"]
        loop_result_def last_ptr_def)
next
  case (Cons x ys)
  let ?q = "init_once q"
  let ?q1 = "aq_set_owned (Item x) False (cas_head (Some d) (Some (Item x)) ?q)"
  have at: "aq_rel_at ?q d (x # ys)" using rel Cons by (simp add: aq_rel_def)
  then have "aq_tail ?q \<noteq> Some d" by (auto simp: aq_rel_at_def last_ptr_def split: if_splits)
  with at have "pop_loop ?q = Some (Inr (Some (Item x), ?q1))"
    by (subst pop_loop.simps) (simp add: aq_rel_at_def aq_prims)
  then have "aq_pop_front q = Inr (Some x, ?q1)"
    by (simp add: aq_pop_front_def loop_result_def)
  moreover have "aq_rel_at ?q1 (Item x) ys"
    using at by (auto simp: aq_rel_at_def aq_prims last_ptr_def split: if_splits)
  moreover have "aq_owned ?q1 = (aq_owned q)(Item x := False)"
    by (simp add: aq_prims)
  ultimately show ?thesis using Cons aq_rel_at_rel by blast
qed


section \<open>The FIFO interface\<close>

text \<open>
  A push is permitted when the node is in no queue and is not the dummy node at the head.
\<close>

definition aq_can_push :: "'n \<Rightarrow> 'n atomic_queue \<Rightarrow> bool" where
  "aq_can_push x q \<longleftrightarrow> \<not> is_linked x q \<and> aq_head q \<noteq> Some (Item x)"

definition aq_holds :: "'n atomic_queue \<Rightarrow> 'n list \<Rightarrow> bool" where
  "aq_holds q xs \<longleftrightarrow> (\<exists>d. aq_rel q d xs)"

lemma aq_rel_head: "aq_rel q d xs \<Longrightarrow> aq_head q = None \<and> d = Sentinel \<or> aq_head q = Some d"
  by (auto simp: aq_rel_def aq_rel_at_def init_once_def aq_prims split: if_splits)

lemma aq_can_push_dummy: "aq_rel q d xs \<Longrightarrow> aq_can_push x q \<Longrightarrow> d \<noteq> Item x"
  by (auto simp: aq_can_push_def dest: aq_rel_head)

interpretation aq: fifo_queue aq_holds aq_can_push aq_push_back aq_pop_front
proof unfold_locales
  fix q :: "'a atomic_queue" and xs x
  assume "aq_holds q xs" and can: "aq_can_push x q"
  then obtain d where d: "aq_rel q d xs" by (auto simp: aq_holds_def)
  have "d \<noteq> Item x" using d can by (rule aq_can_push_dummy)
  with aq_push_back_rel [OF d, of x] can
  show "\<exists>q'. aq_push_back x q = Inr q' \<and> aq_holds q' (xs @ [x])"
    by (auto simp: aq_can_push_def aq_holds_def)
next
  fix q :: "'a atomic_queue" and xs
  assume "aq_holds q xs"
  then obtain d where d: "aq_rel q d xs" by (auto simp: aq_holds_def)
  moreover have "aq_rel (init_once q) d xs" using d by (simp add: aq_rel_def)
  ultimately show "\<exists>q'. aq_pop_front q = Inr (first_opt xs, q') \<and> aq_holds q' (tl xs)"
    using aq_pop_front_rel [OF d] by (auto simp: aq_holds_def)
qed

section \<open>Pushing the dummy node\<close>

text \<open>The state after a push of the dummy node on an empty queue: its next pointer is itself.\<close>

definition self_loop :: "'n \<Rightarrow> 'n atomic_queue \<Rightarrow> bool" where
  "self_loop x q \<longleftrightarrow> aq_head q = Some (Item x) \<and> aq_tail q = Some (Item x)
     \<and> aq_next q (Item x) = Some (Item x)"

lemma self_loop_init: "self_loop x q \<Longrightarrow> init_once q = q"
  by (simp add: self_loop_def init_once_id)

lemma self_loop_cas_tail: "self_loop x q \<Longrightarrow> self_loop x (cas_tail (Some (Item x)) (Some (Item x)) q)"
  by (simp add: self_loop_def aq_prims)

lemma pop_loop_self_loop:
  assumes "pop_loop q = Some r"
  shows "\<not> self_loop x q"
proof (rule pop_loop.raw_induct [OF _ assms])
  fix pop and q :: "'a atomic_queue" and r
  assume IH: "\<And>q r. pop q = Some r \<Longrightarrow> \<not> self_loop x q"
    and body: "(case aq_head q of
        None \<Rightarrow> Some (Inl UninitRead)
      | Some head \<Rightarrow>
          if aq_head q \<noteq> Some head then pop q
          else if aq_tail q = Some head then
            (case aq_next q head of
               None \<Rightarrow> Some (Inr (None, q))
             | Some nxt \<Rightarrow> pop (cas_tail (Some head) (Some nxt) q))
          else
            (case aq_next q head of
               None \<Rightarrow> pop q
             | Some nxt \<Rightarrow>
                 let q1 = cas_head (Some head) (Some nxt) q in
                 Some (if aq_owned q1 nxt then Inr (Some nxt, aq_set_owned nxt False q1)
                       else Inl (AtomicQueue ItemNotInQueue)))) = Some r"
  show "\<not> self_loop x q"
  proof
    assume s: "self_loop x q"
    with body have "pop (cas_tail (Some (Item x)) (Some (Item x)) q) = Some r"
      by (simp add: self_loop_def)
    with IH self_loop_cas_tail [OF s] show False by blast
  qed
qed

lemma push_loop_self_loop:
  assumes "push_loop new q = Some r"
  shows "\<not> self_loop x q"
proof (rule push_loop.raw_induct [OF _ assms])
  fix push and new and q :: "'a atomic_queue" and r
  assume IH: "\<And>new q r. push new q = Some r \<Longrightarrow> \<not> self_loop x q"
    and body: "(case aq_tail q of
        None \<Rightarrow> Some (Inl UninitRead)
      | Some tail \<Rightarrow>
          if aq_tail q \<noteq> Some tail then push new q
          else (case aq_next q tail of
                  None \<Rightarrow> Some (Inr (cas_tail (Some tail) (Some new)
                            (aq_set_next tail (Some new) q)))
                | Some nxt \<Rightarrow> push new (cas_tail (Some tail) (Some nxt) q))) = Some r"
  show "\<not> self_loop x q"
  proof
    assume s: "self_loop x q"
    with body have "push new (cas_tail (Some (Item x)) (Some (Item x)) q) = Some r"
      by (simp add: self_loop_def)
    with IH self_loop_cas_tail [OF s] show False by blast
  qed
qed

lemma self_loop_diverges:
  assumes "self_loop x q"
  shows "aq_pop_front q = Inl Diverges"
    and "\<not> is_linked y q \<Longrightarrow> y \<noteq> x \<Longrightarrow> aq_push_back y q = Inl Diverges"
proof -
  have "pop_loop q = None" using pop_loop_self_loop [of q] assms by (cases "pop_loop q") auto
  then show "aq_pop_front q = Inl Diverges"
    using self_loop_init [OF assms] by (simp add: aq_pop_front_def loop_result_def)
  let ?q = "aq_set_next (Item y) None (aq_set_owned (Item y) True q)"
  assume "y \<noteq> x"
  then have "self_loop x ?q" using assms by (simp add: self_loop_def aq_prims)
  then have "push_loop (Item y) ?q = None"
    using push_loop_self_loop [of "Item y" ?q] by (cases "push_loop (Item y) ?q") auto
  moreover assume "\<not> is_linked y q"
  ultimately show "aq_push_back y q = Inl Diverges"
    using self_loop_init [OF assms]
    by (simp add: aq_push_back_def Let_def loop_result_def is_linked_def)
qed

lemma push_dummy_empty:
  assumes rel: "aq_rel q (Item x) []" and fresh: "\<not> is_linked x q"
  shows "\<exists>q'. aq_push_back x q = Inr q' \<and> self_loop x q'"
proof -
  let ?q1 = "aq_set_next (Item x) None (aq_set_owned (Item x) True (init_once q))"
  let ?q2 = "cas_tail (Some (Item x)) (Some (Item x)) (aq_set_next (Item x) (Some (Item x)) ?q1)"
  have "push_loop (Item x) ?q1 = Some (Inr ?q2)"
    using rel by (subst push_loop.simps) (simp add: aq_rel_def aq_rel_at_def aq_prims last_ptr_def)
  then have "aq_push_back x q = Inr ?q2"
    using fresh by (simp add: aq_push_back_def Let_def is_linked_def loop_result_def)
  moreover have "self_loop x ?q2"
    using rel by (simp add: self_loop_def aq_rel_def aq_rel_at_def aq_prims last_ptr_def)
  ultimately show ?thesis by blast
qed

lemma push_dummy_nonempty:
  assumes rel: "aq_rel q (Item x) xs" and "xs \<noteq> []" and fresh: "\<not> is_linked x q"
  shows "\<exists>q'. aq_push_back x q = Inr q' \<and> aq_rel q' (Item x) []
     \<and> aq_owned q' = (aq_owned q)(Item x := True)"
proof -
  let ?l = "Item (last xs)"
  let ?q = "init_once q"
  let ?q1 = "aq_set_next (Item x) None (aq_set_owned (Item x) True ?q)"
  let ?q2 = "cas_tail (Some ?l) (Some (Item x)) (aq_set_next ?l (Some (Item x)) ?q1)"
  have at: "aq_rel_at ?q (Item x) xs" using rel by (simp add: aq_rel_def)
  then have l: "last xs \<noteq> x" "aq_tail ?q = Some ?l" "aq_next q ?l = None"
    using \<open>xs \<noteq> []\<close> chain_last [of "aq_next q" "Item x" xs]
    by (auto simp: aq_rel_at_def last_ptr_def)
  then have "push_loop (Item x) ?q1 = Some (Inr ?q2)"
    by (subst push_loop.simps) (simp add: aq_prims)
  then have "aq_push_back x q = Inr ?q2"
    using fresh by (simp add: aq_push_back_def Let_def is_linked_def loop_result_def)
  moreover have "aq_rel_at ?q2 (Item x) []"
    using at l by (simp add: aq_rel_at_def aq_prims last_ptr_def)
  moreover have "aq_owned ?q2 = (aq_owned q)(Item x := True)" by (simp add: aq_prims)
  ultimately show ?thesis using aq_rel_at_rel by blast
qed

section \<open>Properties\<close>

text \<open>
  Claim C27. The lock-free queue is FIFO: from a queue that holds \<open>xs\<close>, any sequence of
  operations in which every pushed item is in no queue and is not the queue's dummy node returns,
  and the items it pops, followed by the items still queued, are \<open>xs\<close> followed by the pushed
  items, in order: nothing is lost, duplicated or overtaken.
\<close>

theorem atomic_queue_fifo:
  assumes "aq_holds q xs" and "aq.permitted ops q"
  shows "\<exists>outs q' ys. aq.run ops q = Inr (outs, q') \<and> aq_holds q' ys
     \<and> outs @ ys = xs @ enqueued ops"
  using assms by (rule aq.run_fifo)

lemma aq_new_holds: "aq_holds aq_new []"
  using aq_new_rel by (auto simp: aq_holds_def)

lemma aq_new_permitted: "aq.permitted [Enq (3 :: nat), Deq] aq_new"
  by (simp add: aq_can_push_def is_linked_def aq_new_def)

theorem atomic_queue_fifo_witness:
  "\<exists>outs q' ys. aq.run [Enq (3 :: nat), Deq] aq_new = Inr (outs, q') \<and> outs @ ys = [3]"
  using atomic_queue_fifo [OF aq_new_holds aq_new_permitted] by auto

text \<open>
  The item popped last remains the dummy node of the queue, so pushing it back at once
  breaks the queue: if the queue was empty, the node becomes its own successor and every later
  \<open>pop_front\<close>, and every \<open>push_back\<close> of another item, loops forever; if items were queued
  behind it, they are all lost, stay marked as linked, and the queue is empty.
\<close>

theorem repush_of_popped_item_breaks_queue:
  assumes "aq_rel q d (x # xs)"
  shows "\<exists>q1 q2. aq_pop_front q = Inr (Some x, q1) \<and> aq_push_back x q1 = Inr q2
     \<and> (if xs = [] then aq_pop_front q2 = Inl Diverges
          \<and> (\<forall>y. y \<noteq> x \<and> \<not> is_linked y q2 \<longrightarrow> aq_push_back y q2 = Inl Diverges)
        else (\<exists>q3. aq_pop_front q2 = Inr (None, q3))
          \<and> (\<forall>y \<in> set (x # xs). aq_push_back y q2 = Inl (AtomicQueue ItemAlreadyInQueue)))"
proof -
  from aq_pop_front_rel [OF assms] obtain q1 where q1: "aq_pop_front q = Inr (Some x, q1)"
    "aq_rel q1 (Item x) xs" "aq_owned q1 = (aq_owned q)(Item x := False)" by auto
  have free: "\<not> is_linked x q1" using q1(3) by (simp add: is_linked_def)
  show ?thesis
  proof (cases "xs = []")
    case True
    with push_dummy_empty [of q1 x] q1 free obtain q2
      where q2: "aq_push_back x q1 = Inr q2" "self_loop x q2" by auto
    show ?thesis
      using self_loop_diverges [OF q2(2)] True
      by (intro exI [of _ q1] exI [of _ q2] conjI q1(1) q2(1)) auto
  next
    case False
    from push_dummy_nonempty [OF q1(2) False free] obtain q2 where q2: "aq_push_back x q1 = Inr q2"
      "aq_rel q2 (Item x) []" "aq_owned q2 = (aq_owned q1)(Item x := True)" by blast
    have "\<forall>y \<in> set (x # xs). is_linked y q2"
      using q1(2) q2(3) by (auto simp: is_linked_def aq_rel_def aq_rel_at_def)
    then have "\<forall>y \<in> set (x # xs). aq_push_back y q2 = Inl (AtomicQueue ItemAlreadyInQueue)"
      by (simp add: aq_push_back_owned)
    moreover have "\<exists>q3. aq_pop_front q2 = Inr (None, q3)"
      using aq_pop_front_rel [OF q2(2)] by auto
    ultimately show ?thesis
      using False by (intro exI [of _ q1] exI [of _ q2] conjI q1(1) q2(1)) auto
  qed
qed

theorem repush_of_popped_item_breaks_queue_witness:
  "\<exists>q q1 q2. aq_push_back (3 :: nat) aq_new = Inr q \<and> aq_pop_front q = Inr (Some 3, q1)
     \<and> aq_push_back 3 q1 = Inr q2 \<and> aq_pop_front q2 = Inl Diverges"
proof -
  obtain q where "aq_push_back (3 :: nat) aq_new = Inr q" and "aq_rel q Sentinel [3]"
    using aq_push_back_rel [OF aq_new_rel, of "3 :: nat"] by (auto simp: is_linked_def aq_new_def)
  with repush_of_popped_item_breaks_queue [of q Sentinel 3 "[]"] show ?thesis by auto
qed

end
