(* ===== verification/Events.thy ===== *)
theory Events
  imports Prelude
begin

text \<open>
  Event sets (\<open>scars/src/event_set.rs\<close>, \<open>scars/src/events.rs\<close>): the mask of events a thread
  waits for and the mask of events sent to it. Waiting is a system call, so \<open>wait_events\<close> is
  split at the call: what the scheduler does before it blocks the thread, and what the thread does
  when the call returns. Shown: when a send notifies the waiter, that reading events loses and
  invents none, and how the two tests for blocking differ.
\<close>

section \<open>Event masks\<close>

definition EXECUTOR_WAKEUP_EVENT :: u32 where "EXECUTOR_WAKEUP_EVENT = push_bit 28 1"
definition SCHEDULER_WAKEUP_EVENT :: u32 where "SCHEDULER_WAKEUP_EVENT = push_bit 29 1"
definition SCHEDULER_NOTIFY_EVENT :: u32 where "SCHEDULER_NOTIFY_EVENT = push_bit 30 1"
definition REQUIRE_ALL_EVENTS :: u32 where "REQUIRE_ALL_EVENTS = push_bit 31 1"

datatype wait_events_until_error = Timeout u32
datatype try_wait_events_error = WouldBlock

record event_set =
  waited_events_mask :: u32
  sent_events_mask :: u32

definition event_set_new :: event_set where
  "event_set_new = \<lparr>waited_events_mask = 0, sent_events_mask = 0\<rparr>"

section \<open>Operations\<close>

definition set_wakeup_event :: "event_set \<Rightarrow> event_set" where
  "set_wakeup_event es = es\<lparr>sent_events_mask := sent_events_mask es OR SCHEDULER_WAKEUP_EVENT\<rparr>"

definition set_resume_event :: "event_set \<Rightarrow> event_set" where
  "set_resume_event es = es\<lparr>sent_events_mask := sent_events_mask es OR SCHEDULER_NOTIFY_EVENT\<rparr>"

definition set_waited_events :: "u32 \<Rightarrow> event_set \<Rightarrow> event_set" where
  "set_waited_events events es = es\<lparr>waited_events_mask := events\<rparr>"

definition read_and_clear_matching_sent_events :: "u32 \<Rightarrow> event_set \<Rightarrow> u32 \<times> event_set" where
  "read_and_clear_matching_sent_events events es =
     (sent_events_mask es AND events,
      es\<lparr>sent_events_mask := sent_events_mask es AND NOT events\<rparr>)"

definition clear_waited_events :: "event_set \<Rightarrow> event_set" where
  "clear_waited_events es = es\<lparr>waited_events_mask := 0\<rparr>"

definition will_not_block :: "bool \<Rightarrow> u32 \<Rightarrow> u32 \<Rightarrow> bool" where
  "will_not_block require_all sent_events events =
     ((\<not> require_all \<and> sent_events AND events \<noteq> 0) \<or> sent_events AND events = events)"

definition should_notify :: "bool \<Rightarrow> u32 \<Rightarrow> u32 \<Rightarrow> bool" where
  "should_notify require_all received_events receiving_events =
     ((\<not> require_all \<and> received_events \<noteq> 0)
      \<or> (received_events \<noteq> 0 \<and> received_events = receiving_events))"

definition es_send_events :: "u32 \<Rightarrow> event_set \<Rightarrow> bool \<times> event_set" where
  "es_send_events events0 es =
     (let events = events0 AND NOT REQUIRE_ALL_EVENTS;
          sent_events = sent_events_mask es OR events;
          es' = es\<lparr>sent_events_mask := sent_events\<rparr>;
          receiving_events0 = waited_events_mask es';
          require_all = (receiving_events0 AND REQUIRE_ALL_EVENTS \<noteq> 0);
          receiving_events = receiving_events0 AND NOT REQUIRE_ALL_EVENTS;
          received_events = receiving_events AND sent_events
      in (should_notify require_all received_events receiving_events, es'))"

text \<open>
  \<open>EventSet::wait_events\<close> after the system call has returned \<open>received\<close>.
\<close>

definition wait_events_return :: "u32 \<Rightarrow> u32 \<Rightarrow> event_set \<Rightarrow> u32 \<times> event_set" where
  "wait_events_return events received es =
     (let (more, es') = read_and_clear_matching_sent_events events (clear_waited_events es)
      in (received OR more, es'))"

text \<open>\<open>EventSet::wait_events_until\<close> after the system call has returned \<open>received\<close>.\<close>

definition wait_events_until_return ::
  "u32 \<Rightarrow> u32 \<Rightarrow> event_set \<Rightarrow> (wait_events_until_error + u32) \<times> event_set" where
  "wait_events_until_return events received es =
     (let (more, es') = read_and_clear_matching_sent_events
            (events OR SCHEDULER_WAKEUP_EVENT) (clear_waited_events es);
          received_events = received OR more
      in (if received_events AND SCHEDULER_WAKEUP_EVENT \<noteq> 0 then Inl (Timeout received_events)
          else Inr received_events, es'))"

text \<open>
  \<open>EventSet::try_wait_events\<close>: the mask with which it goes on to wait, or \<open>WouldBlock\<close>.
\<close>

definition try_wait_events_mask :: "u32 \<Rightarrow> event_set \<Rightarrow> try_wait_events_error + u32" where
  "try_wait_events_mask events0 es =
     (let require_all = (events0 AND REQUIRE_ALL_EVENTS \<noteq> 0);
          events = events0 AND NOT REQUIRE_ALL_EVENTS
      in if will_not_block require_all (sent_events_mask es) events then Inr events
         else Inl WouldBlock)"

text \<open>
  The part of \<open>RawScheduler::wait_current_thread_event\<close> that concerns the event set: record the
  mask, take the matching events, and decide whether the thread blocks.
\<close>

definition wait_event_blocks :: "bool \<Rightarrow> u32 \<Rightarrow> u32 \<Rightarrow> bool" where
  "wait_event_blocks require_all received_events events =
     ((\<not> require_all \<and> received_events = 0) \<or> received_events AND events \<noteq> events)"

definition wait_event_prepare :: "u32 \<Rightarrow> event_set \<Rightarrow> (u32 \<times> bool) \<times> event_set" where
  "wait_event_prepare events0 es =
     (let es1 = set_waited_events events0 es;
          require_all = (events0 AND REQUIRE_ALL_EVENTS \<noteq> 0);
          events = events0 AND NOT REQUIRE_ALL_EVENTS;
          (received, es2) = read_and_clear_matching_sent_events events es1
      in ((received, wait_event_blocks require_all received events), es2))"

lemmas event_ops = set_wakeup_event_def set_resume_event_def set_waited_events_def
  read_and_clear_matching_sent_events_def clear_waited_events_def

section \<open>Bit facts\<close>

definition all_flag :: "u32 \<Rightarrow> bool" where
  "all_flag events \<longleftrightarrow> events AND REQUIRE_ALL_EVENTS \<noteq> 0"

definition user_bits :: "u32 \<Rightarrow> u32" where
  "user_bits events = events AND NOT REQUIRE_ALL_EVENTS"

lemma and_or_split: "(s AND e) OR (s AND NOT e) = (s :: u32)"
  by (intro bit_word_eqI) (auto simp: bit_simps)

lemma and_not_disjoint: "(s AND e) AND (s AND NOT e) = (0 :: u32)"
  by (intro bit_word_eqI) (auto simp: bit_simps)

lemma and_subset_iff: "(s AND e = e) \<longleftrightarrow> (\<forall>n. bit (e :: u32) n \<longrightarrow> bit s n)"
proof
  assume "s AND e = e"
  then show "\<forall>n. bit e n \<longrightarrow> bit s n" by (metis bit_and_iff)
qed (auto intro!: bit_word_eqI simp: bit_simps)

lemma and_nonzero_iff: "(s AND e \<noteq> 0) \<longleftrightarrow> (\<exists>n. bit (e :: u32) n \<and> bit s n)"
proof
  assume "s AND e \<noteq> 0"
  then show "\<exists>n. bit e n \<and> bit s n" by (auto simp: bit_eq_iff bit_simps)
next
  assume "\<exists>n. bit e n \<and> bit s n"
  then obtain n where "bit (s AND e) n" by (auto simp: bit_and_iff)
  then show "s AND e \<noteq> 0" by auto
qed

lemma all_bits_cleared [simp]: "(x AND NOT m) AND m = (0 :: u32)"
  by (intro bit_word_eqI) (auto simp: bit_simps)

lemma and_not_zero_iff: "(e AND NOT s = 0) \<longleftrightarrow> s AND e = (e :: u32)"
proof -
  have "bit e n \<Longrightarrow> n < 32" for n using bit_imp_le_length [of e n] by simp
  then show ?thesis unfolding and_subset_iff by (auto simp: bit_eq_iff bit_simps)
qed

lemma wait_event_blocks_iff:
  "wait_event_blocks ra (s AND e) e \<longleftrightarrow> e AND NOT s \<noteq> 0 \<or> \<not> ra \<and> s AND e = 0"
  by (auto simp: wait_event_blocks_def and_not_zero_iff and.assoc)

text \<open>The masks after the system call, and when it blocks, read off the sent events.\<close>

lemma wait_event_prepare_masks:
  "wait_event_prepare evs es =
     ((sent_events_mask es AND (evs AND NOT REQUIRE_ALL_EVENTS),
       (evs AND NOT REQUIRE_ALL_EVENTS) AND NOT (sent_events_mask es) \<noteq> 0
         \<or> evs AND REQUIRE_ALL_EVENTS = 0 \<and> sent_events_mask es AND (evs AND NOT REQUIRE_ALL_EVENTS) = 0),
      \<lparr>waited_events_mask = evs, sent_events_mask = sent_events_mask es AND NOT (evs AND NOT REQUIRE_ALL_EVENTS)\<rparr>)"
  by (cases es) (simp add: wait_event_prepare_def Let_def event_ops wait_event_blocks_iff del: bit.de_Morgan_conj)

section \<open>Properties\<close>

text \<open>
  A send notifies exactly the right waiter: the events are added to the sent mask, and
  the waiting thread is notified if and only if, with the new mask, one of the events it waits for
  is present (waiting for any), or all of them are and there is at least one (waiting for all).
  The flag that selects the mode is never stored as an event.
\<close>

theorem send_events_notifies:
  "sent_events_mask (snd (es_send_events events es)) = sent_events_mask es OR user_bits events
   \<and> waited_events_mask (snd (es_send_events events es)) = waited_events_mask es
   \<and> (fst (es_send_events events es) \<longleftrightarrow>
        (let now = sent_events_mask es OR user_bits events; waited = user_bits (waited_events_mask es)
         in if all_flag (waited_events_mask es)
            then waited \<noteq> 0 \<and> waited AND now = waited
            else waited AND now \<noteq> 0))"
  by (auto simp: es_send_events_def Let_def should_notify_def user_bits_def all_flag_def)

text \<open>
  Waiting consumes events exactly once: the events a wait takes from the sent mask and
  those it leaves make up the mask and have nothing in common, only events of the waited mask are
  taken, and after the return of \<open>wait_events\<close> the result is what the system call returned
  together with the matching events that had arrived since, none of which is left.
\<close>

theorem wait_consumes_once:
  "fst (read_and_clear_matching_sent_events events es)
       OR sent_events_mask (snd (read_and_clear_matching_sent_events events es)) = sent_events_mask es
   \<and> fst (read_and_clear_matching_sent_events events es)
       AND sent_events_mask (snd (read_and_clear_matching_sent_events events es)) = 0
   \<and> fst (read_and_clear_matching_sent_events events es) AND NOT events = 0
   \<and> fst (wait_events_return events received es) = received OR (sent_events_mask es AND events)
   \<and> sent_events_mask (snd (wait_events_return events received es)) AND events = 0
   \<and> waited_events_mask (snd (wait_events_return events received es)) = 0"
  by (simp add: wait_events_return_def event_ops and_or_split and_not_disjoint)
    (intro bit_word_eqI, auto simp: bit_simps)

text \<open>
  The scheduler blocks a thread that waits for any of several events unless all of
  them have been sent: with the mask free of the mode flag and not empty, the wait blocks exactly
  when some waited event is missing. So \<open>try_wait_events\<close>, whose own test accepts one waited
  event, goes on to a wait that blocks whenever some but not all of the events have been sent.
\<close>

theorem wait_any_blocks_unless_all_sent:
  assumes "\<not> all_flag events" and "events \<noteq> 0"
  shows "(snd (fst (wait_event_prepare events es)) \<longleftrightarrow> \<not> (\<forall>n. bit events n \<longrightarrow> bit (sent_events_mask es) n))
    \<and> ((\<exists>n. bit events n \<and> bit (sent_events_mask es) n) \<longrightarrow>
      try_wait_events_mask events es = Inr events)"
proof -
  have u: "events AND NOT REQUIRE_ALL_EVENTS = events"
    using assms(1) and_or_split [of events REQUIRE_ALL_EVENTS] by (simp add: all_flag_def)
  have eq: "x AND y AND y = x AND y" for x y :: u32 by (simp add: and.assoc)
  have f: "events AND REQUIRE_ALL_EVENTS = 0" using assms(1) by (simp add: all_flag_def)
  have "snd (fst (wait_event_prepare events es)) \<longleftrightarrow> sent_events_mask es AND events \<noteq> events"
    using assms(2) by (auto simp: wait_event_prepare_def Let_def event_ops u f wait_event_blocks_def eq)
  moreover have "try_wait_events_mask events es = Inr events" if "sent_events_mask es AND events \<noteq> 0"
    using that by (simp add: try_wait_events_mask_def Let_def u f will_not_block_def)
  ultimately show ?thesis
    unfolding and_subset_iff and_nonzero_iff by blast
qed

theorem wait_any_blocks_unless_all_sent_witness:
  "try_wait_events_mask 3 \<lparr>waited_events_mask = 0, sent_events_mask = 1\<rparr> = Inr 3
   \<and> snd (fst (wait_event_prepare 3 \<lparr>waited_events_mask = 0, sent_events_mask = 1\<rparr>))"
proof -
  have h: "\<not> all_flag 3" "(3 :: u32) \<noteq> 0" by (simp_all add: all_flag_def REQUIRE_ALL_EVENTS_def)
  have b: "bit (3 :: u32) 0" "bit (1 :: u32) 0" "bit (3 :: u32) 1" "\<not> bit (1 :: u32) 1"
    by (simp_all add: bit_1_iff bit_iff_odd)
  from wait_any_blocks_unless_all_sent [OF h, of "\<lparr>waited_events_mask = 0, sent_events_mask = 1\<rparr>"] b
  show ?thesis by (simp only: event_set.simps) blast
qed

text \<open>
  A wait with a deadline reports a timeout exactly when the wakeup event of the
  scheduler is among what it received, and the report carries every event received; the wakeup
  event does not survive the return.
\<close>

theorem wait_until_timeout_iff_wakeup:
  "((\<exists>r. fst (wait_events_until_return events received es) = Inl (Timeout r)) \<longleftrightarrow>
      (received OR sent_events_mask es) AND SCHEDULER_WAKEUP_EVENT \<noteq> 0)
   \<and> sent_events_mask (snd (wait_events_until_return events received es)) AND SCHEDULER_WAKEUP_EVENT = 0"
proof -
  have "((received OR (sent_events_mask es AND (events OR SCHEDULER_WAKEUP_EVENT))) AND SCHEDULER_WAKEUP_EVENT)
      = (received OR sent_events_mask es) AND SCHEDULER_WAKEUP_EVENT"
    by (intro bit_word_eqI) (auto simp: bit_simps)
  moreover have "(sent_events_mask es AND NOT events AND NOT SCHEDULER_WAKEUP_EVENT) AND SCHEDULER_WAKEUP_EVENT = 0"
    by (intro bit_word_eqI) (auto simp: bit_simps)
  ultimately show ?thesis
    by (simp add: wait_events_until_return_def event_ops Let_def)
qed

end
