(* ===== verification/Kernel_State.thy ===== *)
theory Kernel_State
  imports Priority Linked_List Atomic_Queue Time Events
begin

text \<open>
  The state of the kernel: thread control blocks (\<open>thread/raw_thread.rs\<close>), their stacks
  (\<open>kernel/stack.rs\<close>), interrupt control blocks (\<open>kernel/interrupt.rs\<close>), suspendables
  (\<open>kernel/waiter.rs\<close>), ceiling locks (\<open>sync/ceiling_lock.rs\<close>), the scheduler's queues and the
  global cells. Objects are reached through addresses; an intrusive list is kept as its contents,
  which Linked_List shows its pointers implement, and a packed pair of priorities as the pair,
  which Priority shows the atomic word implements. The two queues of pending suspendables and the
  queue of pending executor polls are the lock-free queues of Atomic_Queue.
\<close>

section \<open>Addresses\<close>

type_synonym tptr = nat
type_synonym iptr = nat
type_synonym lptr = nat
type_synonym wptr = nat

text \<open>
  A suspendable is a field of a thread, of an interrupt handler or of a task; its address says
  which. What its \<open>kind\<close> field points to is separate data.
\<close>

datatype sptr = OfThread tptr | OfInterrupt iptr | OfTask nat

text \<open>The untyped pointers in \<open>owner\<close> of a lock and in \<open>PREEMPT_LOCK\<close>.\<close>

datatype ctx_ptr = PThread tptr | PInterrupt iptr

section \<open>Stacks\<close>

definition CANARY_BYTE :: u8 where "CANARY_BYTE = 0x55"

definition CANARY_SIZE :: "nat \<Rightarrow> nat" where
  "CANARY_SIZE ELEMENT_SIZE = (if ELEMENT_SIZE > 16 then ELEMENT_SIZE else 16)"

text \<open>
  \<open>StackRefMut\<close>: the canary bytes and the stack elements, each of the target's alignment size.
\<close>

record stack_ref =
  canary :: "u8 list"
  stack_len :: nat
  element_size :: nat

text \<open>
  \<open>Stack::init\<close> on an array of \<open>SIZE\<close> bytes aligned to the element size: the split panics when
  the array is shorter than the canary; the stack slice starts aligned, so \<open>align_to_mut\<close> keeps
  as many whole elements as fit.
\<close>

definition stack_init :: "nat \<Rightarrow> nat \<Rightarrow> stack_ref res" where
  "stack_init ELEMENT_SIZE SIZE =
     (if SIZE < CANARY_SIZE ELEMENT_SIZE then Inl (Panic ''mid > len'')
      else Inr \<lparr>canary = replicate (CANARY_SIZE ELEMENT_SIZE) CANARY_BYTE,
                stack_len = (SIZE - CANARY_SIZE ELEMENT_SIZE) div ELEMENT_SIZE,
                element_size = ELEMENT_SIZE\<rparr>)"

definition is_alive :: "stack_ref \<Rightarrow> bool" where
  "is_alive s = list_all (\<lambda>b. b = CANARY_BYTE) (canary s)"

definition stack_size :: "stack_ref \<Rightarrow> nat" where
  "stack_size s = stack_len s * element_size s"

definition alloc_size :: "stack_ref \<Rightarrow> nat" where
  "alloc_size s = stack_size s + CANARY_SIZE (element_size s)"

section \<open>Suspendables\<close>

text \<open>
  \<open>wait_link\<close> is the owner cell of the node by which a suspendable is in a wait queue.
\<close>

datatype suspendable_kind =
    KNone
  | KThread tptr
  | KInterrupt iptr
  | KAsync priority nat

record suspendable =
  kind :: suspendable_kind
  deadline :: "instant option"
  wait_link :: "wptr option"

definition suspendable_new :: suspendable where
  "suspendable_new = \<lparr>kind = KNone, deadline = None, wait_link = None\<rparr>"

definition suspendable_new_thread :: "tptr \<Rightarrow> suspendable" where
  "suspendable_new_thread t = \<lparr>kind = KThread t, deadline = None, wait_link = None\<rparr>"

definition suspendable_new_interrupt :: "iptr \<Rightarrow> suspendable" where
  "suspendable_new_interrupt i = \<lparr>kind = KInterrupt i, deadline = None, wait_link = None\<rparr>"

definition suspendable_new_async :: "priority \<Rightarrow> nat \<Rightarrow> suspendable" where
  "suspendable_new_async p waker = \<lparr>kind = KAsync p waker, deadline = None, wait_link = None\<rparr>"

definition has_deadline :: "suspendable \<Rightarrow> bool" where
  "has_deadline s = (deadline s \<noteq> None)"

section \<open>Threads\<close>

datatype exec_state = Created | Started | Ready | Running | Blocked | Suspended

record raw_thread =
  thread_id :: u32
  name :: string
  main_fn :: nat
  stack :: "stack_ref option"
  base_priority :: priority
  lock_priorities :: status_pair
  scoped_locks :: "lptr list"
  state :: exec_state
  events :: event_set
  thr_context :: "nat option"

definition INVALID_THREAD_ID :: u32 where "INVALID_THREAD_ID = 0"
definition IDLE_THREAD_ID :: u32 where "IDLE_THREAD_ID = 1"

definition raw_thread_new :: "string \<Rightarrow> priority \<Rightarrow> nat \<Rightarrow> raw_thread" where
  "raw_thread_new nm prio fn =
     \<lparr>thread_id = INVALID_THREAD_ID, name = nm, main_fn = fn, stack = None,
      base_priority = prio, lock_priorities = (SInvalid, SInvalid), scoped_locks = [],
      state = Created, events = event_set_new, thr_context = None\<rparr>"

definition lock_priority :: "raw_thread \<Rightarrow> priority_status" where
  "lock_priority t = status_max (fst (lock_priorities t)) (snd (lock_priorities t))"

definition priority :: "raw_thread \<Rightarrow> priority" where
  "priority t = max_valid (base_priority t) (lock_priority t)"

section \<open>Interrupt handlers and locks\<close>

record raw_interrupt =
  intnum :: u16
  i_base_priority :: priority
  closure_ptr :: "nat option"
  i_lock_priorities :: status_pair
  owned_locks :: "lptr list"

definition raw_interrupt_new :: "u16 \<Rightarrow> priority \<Rightarrow> raw_interrupt" where
  "raw_interrupt_new num prio =
     \<lparr>intnum = num, i_base_priority = prio, closure_ptr = None,
      i_lock_priorities = (status_valid prio, SInvalid), owned_locks = []\<rparr>"

definition i_lock_priority :: "raw_interrupt \<Rightarrow> priority_status" where
  "i_lock_priority i = status_max (fst (i_lock_priorities i)) (snd (i_lock_priorities i))"

definition i_priority :: "raw_interrupt \<Rightarrow> priority" where
  "i_priority i = max_valid (i_base_priority i) (i_lock_priority i)"

text \<open>
  \<open>lock_list_link\<close> is the owner cell of the node by which a lock is in the list of the thread or
  interrupt that holds it.
\<close>

record ceiling_lock =
  ceiling_priority :: priority
  owner :: "ctx_ptr option"
  lock_list_link :: "ctx_ptr option"

definition ceiling_lock_new :: "priority \<Rightarrow> ceiling_lock" where
  "ceiling_lock_new p = \<lparr>ceiling_priority = p, owner = None, lock_list_link = None\<rparr>"

section \<open>The kernel\<close>

text \<open>
  The first group of fields are the objects, the second \<open>struct RawScheduler\<close>, the third
  \<open>struct Scheduler\<close> with the borrow flag of its cell, the fourth the global cells, the last the
  hardware: the programmed alarm, the interrupt threshold and the thread context to return to.
\<close>

record kernel =
  threads :: "tptr \<Rightarrow> raw_thread"
  interrupts :: "iptr \<Rightarrow> raw_interrupt"
  locks :: "lptr \<Rightarrow> ceiling_lock"
  suspendables :: "sptr \<Rightarrow> suspendable"
  wait_queues :: "wptr \<Rightarrow> sptr list"
  ready_queue :: "tptr list"
  blocked_list :: "tptr list"
  suspended_list :: "tptr list"
  sleep_queue :: "sptr list"
  idle_thread :: tptr
  current_thread :: tptr
  pending_resume :: "sptr atomic_queue"
  pending_sleep :: "sptr atomic_queue"
  pending_reschedule_kind :: u32
  raw_borrowed :: bool
  preempt_lock :: "ctx_ptr option"
  current_interrupt :: "iptr option"
  pending_executor_polls :: "iptr atomic_queue"
  alarm :: "u64 option"
  interrupt_threshold :: u8
  thread_context :: "nat option"

definition RESCHEDULE_KIND_NONE :: u32 where "RESCHEDULE_KIND_NONE = 0"
definition RESCHEDULE_KIND_YIELD_TO_HIGHER :: u32 where "RESCHEDULE_KIND_YIELD_TO_HIGHER = 1"
definition RESCHEDULE_KIND_YIELD_TO_EQUAL :: u32 where "RESCHEDULE_KIND_YIELD_TO_EQUAL = 2"

definition upd_thread :: "tptr \<Rightarrow> (raw_thread \<Rightarrow> raw_thread) \<Rightarrow> kernel \<Rightarrow> kernel" where
  "upd_thread t f k = k\<lparr>threads := (threads k)(t := f (threads k t))\<rparr>"

definition upd_interrupt :: "iptr \<Rightarrow> (raw_interrupt \<Rightarrow> raw_interrupt) \<Rightarrow> kernel \<Rightarrow> kernel" where
  "upd_interrupt i f k = k\<lparr>interrupts := (interrupts k)(i := f (interrupts k i))\<rparr>"

definition upd_lock :: "lptr \<Rightarrow> (ceiling_lock \<Rightarrow> ceiling_lock) \<Rightarrow> kernel \<Rightarrow> kernel" where
  "upd_lock l f k = k\<lparr>locks := (locks k)(l := f (locks k l))\<rparr>"

definition upd_suspendable :: "sptr \<Rightarrow> (suspendable \<Rightarrow> suspendable) \<Rightarrow> kernel \<Rightarrow> kernel" where
  "upd_suspendable s f k = k\<lparr>suspendables := (suspendables k)(s := f (suspendables k s))\<rparr>"

definition set_state :: "tptr \<Rightarrow> exec_state \<Rightarrow> kernel \<Rightarrow> kernel" where
  "set_state t st = upd_thread t (\<lambda>x. x\<lparr>state := st\<rparr>)"

definition set_deadline :: "sptr \<Rightarrow> instant option \<Rightarrow> kernel \<Rightarrow> kernel" where
  "set_deadline s d = upd_suspendable s (\<lambda>x. x\<lparr>deadline := d\<rparr>)"

definition in_sleep_queue :: "sptr \<Rightarrow> kernel \<Rightarrow> bool" where
  "in_sleep_queue s k = (s \<in> set (sleep_queue k))"

text \<open>The link of a thread for the ready, blocked and suspended lists is in use.\<close>

definition exec_linked :: "tptr \<Rightarrow> kernel \<Rightarrow> bool" where
  "exec_linked t k =
     (t \<in> set (ready_queue k) \<or> t \<in> set (blocked_list k) \<or> t \<in> set (suspended_list k))"

text \<open>\<open>Suspendable::priority\<close>.\<close>

definition suspendable_priority :: "kernel \<Rightarrow> sptr \<Rightarrow> priority" where
  "suspendable_priority k s =
     (case kind (suspendables k s) of
        KNone \<Rightarrow> Thread 0
      | KThread t \<Rightarrow> base_priority (threads k t)
      | KInterrupt i \<Rightarrow> i_base_priority (interrupts k i)
      | KAsync p _ \<Rightarrow> p)"

text \<open>\<open>set_ceiling_threshold\<close>.\<close>

definition set_ceiling_threshold :: "priority_status \<Rightarrow> kernel \<Rightarrow> kernel" where
  "set_ceiling_threshold ceiling k =
     (case ceiling of
        SInterrupt prio \<Rightarrow> k\<lparr>interrupt_threshold := prio\<rparr>
      | _ \<Rightarrow> k\<lparr>interrupt_threshold := 0\<rparr>)"

text \<open>\<open>set_alarm\<close>, the HAL's \<open>set_wakeup\<close>.\<close>

definition set_alarm :: "u64 option \<Rightarrow> kernel \<Rightarrow> kernel" where
  "set_alarm a k = k\<lparr>alarm := a\<rparr>"

text \<open>
  \<open>RawInterruptHandler::raise_nesting_lock_priority\<close> (it returns the previous section priority)
  and \<open>set_nesting_lock_priority\<close>. The exchange loops end at the first attempt.
\<close>

definition i_raise_nesting_lock_priority ::
  "iptr \<Rightarrow> priority \<Rightarrow> kernel \<Rightarrow> priority_status \<times> kernel" where
  "i_raise_nesting_lock_priority i new_priority0 k =
     (let new_priority = status_valid (priority_max new_priority0 (i_base_priority (interrupts k i)));
          current = i_lock_priorities (interrupts k i);
          new = (status_max (fst current) new_priority, snd current);
          k1 = upd_interrupt i (\<lambda>x. x\<lparr>i_lock_priorities := new\<rparr>) k
      in (fst current, set_ceiling_threshold (status_max (fst new) (snd new)) k1))"

definition i_set_nesting_lock_priority :: "iptr \<Rightarrow> priority_status \<Rightarrow> kernel \<Rightarrow> kernel" where
  "i_set_nesting_lock_priority i new_priority k =
     (let current = i_lock_priorities (interrupts k i);
          new = (new_priority, snd current);
          k1 = upd_interrupt i (\<lambda>x. x\<lparr>i_lock_priorities := new\<rparr>) k
      in set_ceiling_threshold (status_max (fst new) (snd new)) k1)"

lemmas kernel_upd_defs = upd_thread_def upd_interrupt_def upd_lock_def upd_suspendable_def
  set_state_def set_deadline_def set_alarm_def

lemmas priority_defs = priority_def lock_priority_def

end
