(* ===== verification/Raw_Scheduler.thy ===== *)
theory Raw_Scheduler
  imports Kernel_State
begin

text \<open>
  \<open>struct RawScheduler\<close> of \<open>kernel/scheduler.rs\<close>, operation by operation, in the order of the
  source. An operation maps the kernel to the kernel after it or to the error that ends it. The
  tracing hooks are left out. Waking an asynchronous task runs code of its executor, so the effect
  of its waker is the parameter \<open>wake_by_ref\<close>.
\<close>

section \<open>Queue operations\<close>

definition is_idle :: "tptr \<Rightarrow> kernel \<Rightarrow> bool" where
  "is_idle t k = (thread_id (threads k t) = thread_id (threads k (idle_thread k)))"

definition ready_before :: "tptr \<Rightarrow> kernel \<Rightarrow> tptr \<Rightarrow> bool" where
  "ready_before t k queue_thread =
     (if \<not> is_valid (lock_priority (threads k t))
      then priority (threads k queue_thread) \<ge> priority (threads k t)
      else priority (threads k queue_thread) > priority (threads k t))"

definition insert_to_ready_queue :: "tptr \<Rightarrow> kernel \<Rightarrow> kernel res" where
  "insert_to_ready_queue t k0 =
     (let k = set_state t Ready k0 in
      if is_idle t k then Inr k
      else bind_res (c_insert_after (exec_linked t k) (ready_before t k) t (ready_queue k))
             (\<lambda>xs. Inr (k\<lparr>ready_queue := xs\<rparr>)))"

definition blocked_before :: "tptr \<Rightarrow> kernel \<Rightarrow> tptr \<Rightarrow> bool" where
  "blocked_before t k queue_thread =
     (let queue_thread_priority = lock_priority (threads k queue_thread);
          thread_priority = lock_priority (threads k t)
      in if is_valid queue_thread_priority \<and> is_valid thread_priority
         then status_ge queue_thread_priority thread_priority
         else is_valid queue_thread_priority)"

definition insert_to_blocked_queue :: "tptr \<Rightarrow> kernel \<Rightarrow> kernel res" where
  "insert_to_blocked_queue t k0 =
     (let k = set_state t Blocked k0 in
      if is_idle t k then Inl (Panic ''Idle thread may not block'')
      else bind_res (c_insert_after (exec_linked t k) (blocked_before t k) t (blocked_list k))
             (\<lambda>xs. Inr (k\<lparr>blocked_list := xs\<rparr>)))"

definition insert_to_suspended_list :: "tptr \<Rightarrow> kernel \<Rightarrow> kernel res" where
  "insert_to_suspended_list t k0 =
     (let k = set_state t Suspended k0 in
      if is_idle t k then Inl (Panic ''Idle thread may not suspend'')
      else bind_res (c_push_back (exec_linked t k) t (suspended_list k))
             (\<lambda>xs. Inr (k\<lparr>suspended_list := xs\<rparr>)))"

text \<open>The insertion into the sleep queue by deadline.\<close>

definition insert_to_sleep_queue :: "sptr \<Rightarrow> kernel \<Rightarrow> kernel res" where
  "insert_to_sleep_queue s k =
     bind_res (c_insert_after (in_sleep_queue s k)
         (\<lambda>q. deadline_le (deadline (suspendables k q)) (deadline (suspendables k s)))
         s (sleep_queue k))
       (\<lambda>xs. Inr (k\<lparr>sleep_queue := xs\<rparr>))"

definition insert_to_wakeup_queue :: "tptr \<Rightarrow> kernel \<Rightarrow> kernel res" where
  "insert_to_wakeup_queue t k0 =
     (let k = set_state t Blocked k0 in
      if is_idle t k then Inl (Panic ''Idle thread may not block'')
      else insert_to_sleep_queue (OfThread t) k)"

definition remove_from_sleep_queue :: "sptr \<Rightarrow> kernel \<Rightarrow> kernel res" where
  "remove_from_sleep_queue s k =
     bind_res (c_remove s (sleep_queue k)) (\<lambda>xs. Inr (k\<lparr>sleep_queue := xs\<rparr>))"

section \<open>Alarm and priorities\<close>

definition reprogram_alarm :: "kernel \<Rightarrow> kernel" where
  "reprogram_alarm k =
     (case first_opt (sleep_queue k) of
        Some s \<Rightarrow> set_alarm (map_option tick (deadline (suspendables k s))) k
      | None \<Rightarrow> set_alarm None k)"

definition locks_priority_ceiling :: "kernel \<Rightarrow> priority_status" where
  "locks_priority_ceiling k =
     (case first_opt (blocked_list k) of
        Some blocked_thread \<Rightarrow>
          status_max (lock_priority (threads k blocked_thread))
                     (lock_priority (threads k (current_thread k)))
      | None \<Rightarrow> lock_priority (threads k (current_thread k)))"

definition set_pending_reschedule :: "u32 \<Rightarrow> kernel \<Rightarrow> kernel" where
  "set_pending_reschedule rkind k =
     k\<lparr>pending_reschedule_kind := pending_reschedule_kind k OR rkind\<rparr>"

section \<open>Waking and resuming\<close>

definition wakeup_thread :: "tptr \<Rightarrow> kernel \<Rightarrow> kernel res" where
  "wakeup_thread t k =
     (if is_idle t k then Inl (Panic ''Idle thread may not be woken up'')
      else if state (threads k t) = Blocked then
        (let k1 = upd_thread t (\<lambda>x. x\<lparr>events := set_wakeup_event (events x)\<rparr>) k in
         bind_res (c_remove t (blocked_list k1)) (\<lambda>xs.
         insert_to_ready_queue t (k1\<lparr>blocked_list := xs\<rparr>)))
      else Inr k)"

text \<open>\<open>RawInterruptHandler::set_pending_executor_poll\<close>.\<close>

definition set_pending_executor_poll :: "iptr \<Rightarrow> kernel \<Rightarrow> kernel res" where
  "set_pending_executor_poll i k =
     (if is_linked i (pending_executor_polls k) then Inr k
      else bind_res (aq_push_back i (pending_executor_polls k))
             (\<lambda>q. Inr (k\<lparr>pending_executor_polls := q\<rparr>)))"

definition wakeup_interrupt :: "iptr \<Rightarrow> kernel \<Rightarrow> kernel res" where
  "wakeup_interrupt i k = set_pending_executor_poll i k"

definition wakeup_suspendable ::
  "(nat \<Rightarrow> kernel \<Rightarrow> kernel res) \<Rightarrow> sptr \<Rightarrow> kernel \<Rightarrow> kernel res" where
  "wakeup_suspendable wake_by_ref s k =
     (case kind (suspendables k s) of
        KThread t \<Rightarrow> wakeup_thread t k
      | KInterrupt i \<Rightarrow> wakeup_interrupt i k
      | KAsync _ waker \<Rightarrow> wake_by_ref waker k
      | KNone \<Rightarrow> Inr k)"

definition schedule_interrupt_wakeup_raw :: "iptr \<Rightarrow> kernel \<Rightarrow> kernel res" where
  "schedule_interrupt_wakeup_raw i k =
     bind_res (if in_sleep_queue (OfInterrupt i) k then remove_from_sleep_queue (OfInterrupt i) k
               else Inr k) (\<lambda>k1.
     bind_res (insert_to_sleep_queue (OfInterrupt i) k1) (\<lambda>k2. Inr (reprogram_alarm k2)))"

definition resume_interrupt_raw :: "iptr \<Rightarrow> kernel \<Rightarrow> kernel res" where
  "resume_interrupt_raw i k =
     bind_res (if in_sleep_queue (OfInterrupt i) k then remove_from_sleep_queue (OfInterrupt i) k
               else Inr k)
       (set_pending_executor_poll i)"

text \<open>
  The state change of \<open>RawScheduler::resume_thread\<close> and, after it, the test whether the resumed
  thread should preempt.
\<close>

definition resume_thread_move :: "tptr \<Rightarrow> kernel \<Rightarrow> kernel res" where
  "resume_thread_move t k =
     (case state (threads k t) of
        Ready \<Rightarrow> Inr k
      | Running \<Rightarrow> Inr k
      | Blocked \<Rightarrow>
          (let k1 = upd_thread t (\<lambda>x. x\<lparr>events := set_resume_event (events x)\<rparr>) k in
           bind_res (if in_sleep_queue (OfThread t) k1 then remove_from_sleep_queue (OfThread t) k1
                     else Inr k1) (\<lambda>k2.
           bind_res (c_remove t (blocked_list k2)) (\<lambda>xs.
           insert_to_ready_queue t (k2\<lparr>blocked_list := xs\<rparr>))))
      | Suspended \<Rightarrow>
          (let k1 = upd_thread t (\<lambda>x. x\<lparr>events := set_resume_event (events x)\<rparr>) k in
           bind_res (c_remove t (suspended_list k1)) (\<lambda>xs.
           insert_to_ready_queue t (k1\<lparr>suspended_list := xs\<rparr>)))
      | Created \<Rightarrow> Inr k
      | Started \<Rightarrow> insert_to_ready_queue t k)"

definition resume_preempts :: "tptr \<Rightarrow> kernel \<Rightarrow> bool" where
  "resume_preempts t k =
     (max_valid (priority (threads k (current_thread k))) (locks_priority_ceiling k)
        < priority (threads k t))"

definition resume_thread_raw :: "tptr \<Rightarrow> kernel \<Rightarrow> kernel res" where
  "resume_thread_raw t k =
     bind_res (resume_thread_move t k) (\<lambda>k1.
       Inr (if resume_preempts t k1 then set_pending_reschedule RESCHEDULE_KIND_YIELD_TO_HIGHER k1
            else k1))"

definition resume_suspendable_now ::
  "(nat \<Rightarrow> kernel \<Rightarrow> kernel res) \<Rightarrow> sptr \<Rightarrow> kernel \<Rightarrow> kernel res" where
  "resume_suspendable_now wake_by_ref s k =
     (case kind (suspendables k s) of
        KThread t \<Rightarrow> resume_thread_raw t k
      | KInterrupt i \<Rightarrow> resume_interrupt_raw i k
      | KAsync _ waker \<Rightarrow> wake_by_ref waker k
      | KNone \<Rightarrow> Inr k)"

definition suspend_suspendable_now :: "sptr \<Rightarrow> kernel \<Rightarrow> kernel res" where
  "suspend_suspendable_now s k =
     bind_res (case kind (suspendables k s) of
                 KThread t \<Rightarrow> Inl Unimplemented
               | KInterrupt i \<Rightarrow> schedule_interrupt_wakeup_raw i k
               | KAsync _ _ \<Rightarrow> Inl Unimplemented
               | KNone \<Rightarrow> Inr k)
       (\<lambda>k1. Inr (reprogram_alarm k1))"

section \<open>Switching, blocking and suspending\<close>

definition check_stack_overflow :: "kernel \<Rightarrow> unit res" where
  "check_stack_overflow k =
     (case stack (threads k (current_thread k)) of
        None \<Rightarrow> Inl UninitRead
      | Some s \<Rightarrow>
          if is_alive s then Inr ()
          else Inl (Kernel (StackOverflow (name (threads k (current_thread k))) (stack_size s))))"

definition switch_thread :: "tptr \<Rightarrow> kernel \<Rightarrow> (tptr \<times> kernel) res" where
  "switch_thread new k =
     bind_res (check_stack_overflow k) (\<lambda>_.
       let k1 = set_state new Running k;
           k2 = k1\<lparr>thread_context := thr_context (threads k1 new)\<rparr>;
           old = current_thread k2;
           k3 = k2\<lparr>current_thread := new\<rparr>
       in Inr (old, set_state old Ready k3))"

definition block_thread :: "tptr \<Rightarrow> u64 option \<Rightarrow> kernel \<Rightarrow> kernel res" where
  "block_thread t timeout_opt k =
     bind_res (case timeout_opt of
         Some timeout \<Rightarrow>
           bind_res (insert_to_wakeup_queue t (set_deadline (OfThread t) (Some \<lparr>tick = timeout\<rparr>) k))
             (\<lambda>k1. Inr (reprogram_alarm k1))
       | None \<Rightarrow> Inr (set_deadline (OfThread t) None k))
       (insert_to_blocked_queue t)"

text \<open>
  The choice of the next thread by an operation that gives up the processor: the first ready
  thread if its priority is above the ceiling of the held locks, otherwise the idle thread.
\<close>

definition pop_ready_above :: "kernel \<Rightarrow> tptr \<times> kernel" where
  "pop_ready_above k =
     (let locks_ceiling = unwrap_or_default (locks_priority_ceiling k) PRIORITY_MIN;
          (popped, xs) = c_pop_front_if (\<lambda>t. priority (threads k t) > locks_ceiling) (ready_queue k);
          k1 = k\<lparr>ready_queue := xs\<rparr>
      in (case popped of Some t \<Rightarrow> t | None \<Rightarrow> idle_thread k1, k1))"

definition suspend_thread_raw :: "tptr option \<Rightarrow> kernel \<Rightarrow> kernel res" where
  "suspend_thread_raw maybe_thread k =
     (let t = (case maybe_thread of Some t \<Rightarrow> t | None \<Rightarrow> current_thread k) in
      case state (threads k t) of
        Ready \<Rightarrow>
          bind_res (c_remove t (ready_queue k)) (\<lambda>xs.
            insert_to_suspended_list t (k\<lparr>ready_queue := xs\<rparr>))
      | Running \<Rightarrow>
          (let (nxt, k1) = pop_ready_above k in
           bind_res (switch_thread nxt k1) (\<lambda>(previous, k2). insert_to_suspended_list previous k2))
      | Blocked \<Rightarrow> insert_to_suspended_list t k
      | Suspended \<Rightarrow> Inr k
      | Created \<Rightarrow> Inl (Panic ''Cannot suspend a thread that has not been started'')
      | Started \<Rightarrow> insert_to_suspended_list t k)"

definition delay_thread_until_raw :: "u64 \<Rightarrow> kernel \<Rightarrow> kernel res" where
  "delay_thread_until_raw wakeup_time k =
     (if is_idle (current_thread k) k then Inl (Panic ''Idle thread cannot block'')
      else
        (let (nxt, k1) = pop_ready_above k in
         bind_res (switch_thread nxt k1) (\<lambda>(previous, k2).
           block_thread previous (Some wakeup_time) k2)))"


text \<open>
  Waiting in a wait queue. The queue's order is by base priority, first come first served among
  equals; its access is protected by raising the priority of the current interrupt, which is the
  one of the system call.
\<close>

definition insert_to_wait_queue :: "wptr \<Rightarrow> sptr \<Rightarrow> kernel \<Rightarrow> kernel res" where
  "insert_to_wait_queue w s k =
     bind_res (c_insert_after (wait_link (suspendables k s) \<noteq> None)
         (\<lambda>q. suspendable_priority k q \<ge> suspendable_priority k s) s (wait_queues k w)) (\<lambda>xs.
       Inr (upd_suspendable s (\<lambda>x. x\<lparr>wait_link := Some w\<rparr>)
              (k\<lparr>wait_queues := (wait_queues k)(w := xs)\<rparr>)))"

definition wait_current_thread :: "wptr \<Rightarrow> priority \<Rightarrow> kernel \<Rightarrow> kernel res" where
  "wait_current_thread w ceiling k =
     (if is_idle (current_thread k) k then Inl (Panic ''Idle thread cannot block'')
      else
        (let (nxt, k1) = pop_ready_above k in
         bind_res (switch_thread nxt k1) (\<lambda>(blocked_thread, k2).
         case current_interrupt k2 of
           None \<Rightarrow> Inl (Panic ''called Option::unwrap() on a None value'')
         | Some icb \<Rightarrow>
             (let (old_prio, k3) = i_raise_nesting_lock_priority icb ceiling k2 in
              bind_res (insert_to_wait_queue w (OfThread blocked_thread) k3) (\<lambda>k4.
              block_thread blocked_thread None (i_set_nesting_lock_priority icb old_prio k4))))))"

definition wait_current_thread_event :: "u32 \<Rightarrow> u64 option \<Rightarrow> kernel \<Rightarrow> (u32 \<times> kernel) res" where
  "wait_current_thread_event evs dl k =
     (if is_idle (current_thread k) k then Inl (Panic ''Idle thread cannot block'')
      else
        (let t = current_thread k;
             ((received_events, blocks), es) = wait_event_prepare evs (events (threads k t));
             k1 = upd_thread t (\<lambda>x. x\<lparr>events := es\<rparr>) k
         in if blocks then
              (let (nxt, k2) = pop_ready_above k1 in
               bind_res (switch_thread nxt k2) (\<lambda>(blocked_thread, k3).
               bind_res (block_thread blocked_thread dl k3) (\<lambda>k4. Inr (received_events, k4))))
            else Inr (received_events, k1)))"

section \<open>Rescheduling\<close>

text \<open>
  The wakeup loop: wake every suspendable whose deadline has passed, then program the alarm for
  the first one left. \<open>None\<close> means that the loop never ends.
\<close>

definition is_due :: "u64 \<Rightarrow> kernel \<Rightarrow> sptr \<Rightarrow> bool" where
  "is_due now k s =
     (case deadline (suspendables k s) of None \<Rightarrow> True | Some wakeup_time \<Rightarrow> \<not> tick wakeup_time > now)"

partial_function (option) wake_sleepers ::
  "(nat \<Rightarrow> kernel \<Rightarrow> kernel res) \<Rightarrow> u64 \<Rightarrow> kernel \<Rightarrow> kernel res option" where
  [code]: "wake_sleepers wake_by_ref now k =
     (case sleep_queue k of
        [] \<Rightarrow> Some (Inr (set_alarm None k))
      | s # rest \<Rightarrow>
          if is_due now k s then
            (case wakeup_suspendable wake_by_ref s (k\<lparr>sleep_queue := rest\<rparr>) of
               Inl e \<Rightarrow> Some (Inl e)
             | Inr k1 \<Rightarrow> wake_sleepers wake_by_ref now k1)
          else Some (Inr (set_alarm (map_option tick (deadline (suspendables k s))) k)))"

definition reschedule_next :: "u32 \<Rightarrow> kernel \<Rightarrow> (tptr \<times> kernel) res" where
  "reschedule_next rkind k =
     (let current_priority = priority (threads k (current_thread k));
          pop = (\<lambda>P. let (popped, xs) = c_pop_front_if P (ready_queue k)
                     in (case popped of Some t \<Rightarrow> t | None \<Rightarrow> current_thread k,
                         k\<lparr>ready_queue := xs\<rparr>))
      in if rkind AND RESCHEDULE_KIND_YIELD_TO_EQUAL \<noteq> 0
         then Inr (pop (\<lambda>t. priority (threads k t) \<ge> current_priority))
         else if rkind AND RESCHEDULE_KIND_YIELD_TO_HIGHER \<noteq> 0
         then Inr (pop (\<lambda>t. priority (threads k t) > current_priority))
         else Inl Unreachable)"

definition reschedule ::
  "(nat \<Rightarrow> kernel \<Rightarrow> kernel res) \<Rightarrow> u64 \<Rightarrow> u32 \<Rightarrow> kernel \<Rightarrow> kernel res" where
  "reschedule wake_by_ref now rkind k =
     bind_res (loop_result (wake_sleepers wake_by_ref now k)) (\<lambda>k1.
     bind_res (reschedule_next rkind k1) (\<lambda>(nxt, k2).
       if thread_id (threads k2 nxt) \<noteq> thread_id (threads k2 (current_thread k2)) then
         bind_res (switch_thread nxt k2) (\<lambda>(previous, k3). insert_to_ready_queue previous k3)
       else Inr k2))"

section \<open>Enumeration\<close>

text \<open>\<open>RawScheduler::threads\<close>, \<open>RawThread::get_info\<close> and \<open>thread_info\<close>.\<close>

definition all_threads :: "kernel \<Rightarrow> tptr list" where
  "all_threads k =
     [idle_thread k] @ [current_thread k] @ ready_queue k @ blocked_list k @ suspended_list k"

record thread_info =
  ti_name :: string
  ti_state :: exec_state
  ti_base_priority :: priority
  ti_stack_size :: nat
  ti_entry :: nat

definition get_info :: "raw_thread \<Rightarrow> thread_info res" where
  "get_info t =
     (case stack t of
        None \<Rightarrow> Inl UninitRead
      | Some s \<Rightarrow> Inr \<lparr>ti_name = name t, ti_state = state t, ti_base_priority = base_priority t,
                       ti_stack_size = alloc_size s, ti_entry = main_fn t\<rparr>)"

fun map_res :: "('a \<Rightarrow> 'b res) \<Rightarrow> 'a list \<Rightarrow> 'b list res" where
  "map_res f [] = Inr []"
| "map_res f (x # xs) = bind_res (f x) (\<lambda>y. bind_res (map_res f xs) (\<lambda>ys. Inr (y # ys)))"

definition thread_infos :: "kernel \<Rightarrow> thread_info list res" where
  "thread_infos k = map_res (\<lambda>t. get_info (threads k t)) (all_threads k)"

end
