(* ===== verification/Sched_Invariant.thy ===== *)
theory Sched_Invariant
  imports Raw_Scheduler
begin

text \<open>
  The invariant of the scheduler and its preservation by every operation of Raw_Scheduler.
  Between the steps of an operation a thread is on its way from one list to another; such a thread
  is a floating thread, and the invariant is stated relative to the set of floating threads.
\<close>

section \<open>Views of the thread table\<close>

definition tprio :: "(tptr \<Rightarrow> raw_thread) \<Rightarrow> tptr \<Rightarrow> priority" where
  "tprio ts = (\<lambda>t. priority (ts t))"

definition tlock :: "(tptr \<Rightarrow> raw_thread) \<Rightarrow> tptr \<Rightarrow> priority_status" where
  "tlock ts = (\<lambda>t. lock_priority (ts t))"

definition tstate :: "(tptr \<Rightarrow> raw_thread) \<Rightarrow> tptr \<Rightarrow> exec_state" where
  "tstate ts = (\<lambda>t. state (ts t))"

definition tid :: "(tptr \<Rightarrow> raw_thread) \<Rightarrow> tptr \<Rightarrow> u32" where
  "tid ts = (\<lambda>t. thread_id (ts t))"

definition tstack :: "(tptr \<Rightarrow> raw_thread) \<Rightarrow> tptr \<Rightarrow> stack_ref option" where
  "tstack ts = (\<lambda>t. stack (ts t))"

definition theld :: "(tptr \<Rightarrow> raw_thread) \<Rightarrow> tptr \<Rightarrow> priority \<times> status_pair \<times> lptr list" where
  "theld ts = (\<lambda>t. (base_priority (ts t), lock_priorities (ts t), scoped_locks (ts t)))"

lemmas view_defs = theld_def tprio_def tlock_def tstate_def tid_def tstack_def

named_theorems view_simps

lemma views_set_state [view_simps, simp]:
  "tprio (ts(t := (ts t)\<lparr>state := s\<rparr>)) = tprio ts"
  "tlock (ts(t := (ts t)\<lparr>state := s\<rparr>)) = tlock ts"
  "tid (ts(t := (ts t)\<lparr>state := s\<rparr>)) = tid ts"
  "tstack (ts(t := (ts t)\<lparr>state := s\<rparr>)) = tstack ts"
  "theld (ts(t := (ts t)\<lparr>state := s\<rparr>)) = theld ts"
  "tstate (ts(t := (ts t)\<lparr>state := s\<rparr>)) = (tstate ts)(t := s)"
  by (auto simp: view_defs priority_defs)

lemma views_set_events [view_simps, simp]:
  "tprio (ts(t := (ts t)\<lparr>events := e\<rparr>)) = tprio ts"
  "tlock (ts(t := (ts t)\<lparr>events := e\<rparr>)) = tlock ts"
  "tid (ts(t := (ts t)\<lparr>events := e\<rparr>)) = tid ts"
  "tstack (ts(t := (ts t)\<lparr>events := e\<rparr>)) = tstack ts"
  "theld (ts(t := (ts t)\<lparr>events := e\<rparr>)) = theld ts"
  "tstate (ts(t := (ts t)\<lparr>events := e\<rparr>)) = tstate ts"
  by (auto simp: view_defs priority_defs)

lemma view_folds:
  "priority (ts t) = tprio ts t"
  "lock_priority (ts t) = tlock ts t"
  "state (ts t) = tstate ts t"
  "thread_id (ts t) = tid ts t"
  "stack (ts t) = tstack ts t"
  by (simp_all add: view_defs)

section \<open>The invariant\<close>

text \<open>
  Every thread that is not floating is where its state says: in the ready queue, the blocked list
  or the suspended list, or running. The idle thread is ready without being queued. No thread is
  in two lists or twice in one.
\<close>

definition placed ::
  "tptr set \<Rightarrow> (tptr \<Rightarrow> exec_state) \<Rightarrow> tptr list \<Rightarrow> tptr list \<Rightarrow> tptr list \<Rightarrow> tptr \<Rightarrow> tptr \<Rightarrow> bool" where
  "placed F st ready blocked suspended idle cur \<longleftrightarrow>
     distinct (ready @ blocked @ suspended)
   \<and> (F \<union> {idle, cur}) \<inter> set (ready @ blocked @ suspended) = {} \<and> cur \<notin> F
   \<and> (\<forall>t. t \<notin> F \<longrightarrow>
        (st t = Ready \<longleftrightarrow> t \<in> set ready \<or> t = idle \<and> t \<noteq> cur)
      \<and> (st t = Blocked \<longleftrightarrow> t \<in> set blocked)
      \<and> (st t = Suspended \<longleftrightarrow> t \<in> set suspended)
      \<and> (st t = Running \<longleftrightarrow> t = cur))"

text \<open>Order of the blocked list: highest lock priority first, threads without locks last.\<close>

definition lock_ge :: "priority_status \<Rightarrow> priority_status \<Rightarrow> bool" where
  "lock_ge a b =
     (case (status_priority a, status_priority b) of
        (_, None) \<Rightarrow> True | (None, Some _) \<Rightarrow> False | (Some p, Some q) \<Rightarrow> q \<le> p)"

definition ordered ::
  "(tptr \<Rightarrow> priority) \<Rightarrow> (tptr \<Rightarrow> priority_status) \<Rightarrow> tptr list \<Rightarrow> tptr list \<Rightarrow> bool" where
  "ordered pr lk ready blocked \<longleftrightarrow>
     sorted_wrt (\<lambda>a b. pr b \<le> pr a) ready \<and> sorted_wrt (\<lambda>a b. lock_ge (lk a) (lk b)) blocked"

text \<open>
  The sleep queue is sorted by deadline, every member has one, and a sleeping thread is blocked.
\<close>

fun sleeper_ok :: "tptr set \<Rightarrow> suspendable \<Rightarrow> sptr \<Rightarrow> bool" where
  "sleeper_ok B x (OfThread t) = (kind x = KThread t \<and> t \<in> B \<and> deadline x \<noteq> None)"
| "sleeper_ok B x (OfInterrupt i) = (kind x = KInterrupt i \<and> deadline x \<noteq> None)"
| "sleeper_ok B x (OfTask _) = False"

definition sleeping ::
  "tptr set \<Rightarrow> (sptr \<Rightarrow> suspendable) \<Rightarrow> tptr list \<Rightarrow> sptr list \<Rightarrow> bool" where
  "sleeping F sus blocked sleep \<longleftrightarrow>
     distinct sleep
   \<and> sorted_wrt (\<lambda>a b. deadline_le (deadline (sus a)) (deadline (sus b))) sleep
   \<and> (\<forall>s \<in> set sleep. sleeper_ok (set blocked \<union> F) (sus s) s)"

text \<open>
  Threads past creation have a stack, an identifier of their own, and a suspendable that points
  back to them.
\<close>

definition identified ::
  "(tptr \<Rightarrow> exec_state) \<Rightarrow> (tptr \<Rightarrow> u32) \<Rightarrow> (tptr \<Rightarrow> stack_ref option) \<Rightarrow> (sptr \<Rightarrow> suspendable)
     \<Rightarrow> tptr \<Rightarrow> bool" where
  "identified st ids stk sus idle \<longleftrightarrow>
     (\<forall>t. st t \<noteq> Created \<longrightarrow> stk t \<noteq> None \<and> kind (sus (OfThread t)) = KThread t) \<and> inj_on ids {t. st t \<noteq> Created} \<and> st idle \<noteq> Created"

definition sched_inv_fl :: "tptr set \<Rightarrow> kernel \<Rightarrow> bool" where
  "sched_inv_fl F k \<longleftrightarrow>
     placed F (tstate (threads k)) (ready_queue k) (blocked_list k) (suspended_list k)
       (idle_thread k) (current_thread k)
   \<and> ordered (tprio (threads k)) (tlock (threads k)) (ready_queue k) (blocked_list k)
   \<and> sleeping F (suspendables k) (blocked_list k) (sleep_queue k)
   \<and> identified (tstate (threads k)) (tid (threads k)) (tstack (threads k)) (suspendables k) (idle_thread k)"

abbreviation sched_inv :: "kernel \<Rightarrow> bool" where
  "sched_inv \<equiv> sched_inv_fl {}"

section \<open>Steps of the parts\<close>

lemma lock_ge_trans: "transp (\<lambda>a b. lock_ge (lk a) (lk b))"
proof (rule transpI)
  fix x y z assume "lock_ge (lk x) (lk y)" "lock_ge (lk y) (lk z)"
  then show "lock_ge (lk x) (lk z)"
    by (auto simp: lock_ge_def split: option.splits)
qed

lemma prio_ge_trans: "transp (\<lambda>a b. (pr b :: priority) \<le> pr a)"
  by (auto intro: transpI)

lemma placed_insert:
  assumes "placed {t} st ready blocked suspended idle cur"
  shows "set xs = insert t (set ready) \<Longrightarrow> distinct xs \<Longrightarrow> t \<noteq> idle \<Longrightarrow>
      placed {} (st(t := Ready)) xs blocked suspended idle cur"
    and "set xs = insert t (set blocked) \<Longrightarrow> distinct xs \<Longrightarrow> t \<noteq> idle \<Longrightarrow>
      placed {} (st(t := Blocked)) ready xs suspended idle cur"
    and "set xs = insert t (set suspended) \<Longrightarrow> distinct xs \<Longrightarrow> t \<noteq> idle \<Longrightarrow>
      placed {} (st(t := Suspended)) ready blocked xs idle cur"
    and "t = idle \<Longrightarrow> placed {} (st(t := Ready)) ready blocked suspended idle cur"
  using assms by (auto simp: placed_def)

lemma placed_float:
  assumes "placed {} st ready blocked suspended idle cur"
  shows "t \<in> set ready \<Longrightarrow> placed {t} st (remove1 t ready) blocked suspended idle cur"
    and "t \<in> set blocked \<Longrightarrow> placed {t} st ready (remove1 t blocked) suspended idle cur"
    and "t \<in> set suspended \<Longrightarrow> placed {t} st ready blocked (remove1 t suspended) idle cur"
    and "st t = Started \<Longrightarrow> placed {t} st ready blocked suspended idle cur"
  using assms by (auto simp: placed_def dest: notin_set_remove1)

lemma placed_set_floating:
  "placed {t} st ready blocked suspended idle cur \<Longrightarrow>
     placed {t} (st(t := s)) ready blocked suspended idle cur"
  by (auto simp: placed_def)

lemma placed_switch:
  assumes "placed F st ready blocked suspended idle cur"
    and "F = {new} \<or> F = {} \<and> new = idle" and "new \<noteq> cur"
  shows "placed {cur} (st(new := Running, cur := Ready)) ready blocked suspended idle new"
  using assms by (auto simp: placed_def)

lemma identified_upd:
  "identified st ids stk sus idle \<Longrightarrow> st t \<noteq> Created \<Longrightarrow> s \<noteq> Created \<Longrightarrow>
     identified (st(t := s)) ids stk sus idle"
proof -
  assume "identified st ids stk sus idle" and "st t \<noteq> Created" and "s \<noteq> Created"
  moreover from this have "{x. (st(t := s)) x \<noteq> Created} = {x. st x \<noteq> Created}" by auto
  ultimately show ?thesis unfolding identified_def by auto
qed

lemma identified_idle:
  "identified st ids stk sus idle \<Longrightarrow> st t \<noteq> Created \<Longrightarrow> ids t = ids idle \<longleftrightarrow> t = idle"
  by (auto simp: identified_def dest: inj_onD)

lemma sleeping_mono:
  "sleeping F sus blocked sleep \<Longrightarrow> set blocked \<union> F \<subseteq> set blocked' \<union> F' \<Longrightarrow>
     sleeping F' sus blocked' sleep"
proof -
  assume a: "sleeping F sus blocked sleep" "set blocked \<union> F \<subseteq> set blocked' \<union> F'"
  have "sleeper_ok B' x s" if "sleeper_ok B x s" "B \<subseteq> B'" for B B' x s
    using that by (cases s) auto
  with a show ?thesis by (auto simp: sleeping_def)
qed

lemma sleeping_unblock:
  "sleeping F sus blocked sleep \<Longrightarrow> OfThread t \<notin> set sleep \<Longrightarrow>
     set blocked \<union> F \<subseteq> insert t (set blocked' \<union> F') \<Longrightarrow> sleeping F' sus blocked' sleep"
proof -
  assume a: "sleeping F sus blocked sleep" "OfThread t \<notin> set sleep"
    "set blocked \<union> F \<subseteq> insert t (set blocked' \<union> F')"
  have "sleeper_ok B' x s" if "sleeper_ok B x s" "B \<subseteq> insert t B'" "s \<noteq> OfThread t" for B B' x s
    using that by (cases s) auto
  with a show ?thesis unfolding sleeping_def by metis
qed

lemma sleeping_land:
  "sleeping {t} sus blocked sleep \<Longrightarrow> OfThread t \<notin> set sleep \<Longrightarrow> sleeping {} sus blocked sleep"
  by (rule sleeping_unblock) auto

lemma sleeping_sleep_subset:
  "sleeping F sus blocked sleep \<Longrightarrow> sleeping F sus blocked (remove1 s sleep)"
  by (auto simp: sleeping_def sorted_wrt_remove1 dest: notin_set_remove1)


section \<open>Moving a floating thread into a list\<close>

lemma inv_float_facts:
  assumes "sched_inv_fl {t} k" and "tstate (threads k) t \<noteq> Created"
  shows "exec_linked t k = False" and "is_idle t k \<longleftrightarrow> t = idle_thread k"
    and "t \<noteq> current_thread k"
  using assms identified_idle
  by (auto simp: sched_inv_fl_def placed_def exec_linked_def is_idle_def view_folds)

lemma set_state_unlinked [simp]:
  "exec_linked t (set_state u s k) = exec_linked t k"
  "is_idle t (set_state u s k) = is_idle t k"
  by (auto simp: exec_linked_def is_idle_def kernel_upd_defs)

definition ready_inserted :: "tptr \<Rightarrow> kernel \<Rightarrow> kernel" where
  "ready_inserted t k =
     (let k1 = set_state t Ready k in
      if t = idle_thread k then k1
      else k1\<lparr>ready_queue := insert_after (ready_before t k1) t (ready_queue k)\<rparr>)"

lemma insert_to_ready_queue_eq:
  assumes "sched_inv_fl {t} k" and "tstate (threads k) t \<noteq> Created"
  shows "insert_to_ready_queue t k = Inr (ready_inserted t k)"
  using inv_float_facts [OF assms]
  by (simp add: insert_to_ready_queue_def ready_inserted_def Let_def c_insert_after_def)
    (simp add: kernel_upd_defs)

lemma ready_before_order:
  "ready_before t k q \<Longrightarrow> tprio (threads k) t \<le> tprio (threads k) q"
  "\<not> ready_before t k q \<Longrightarrow> tprio (threads k) q \<le> tprio (threads k) t"
  by (auto simp: ready_before_def tprio_def split: if_splits)

lemma ready_inserted_inv:
  assumes inv: "sched_inv_fl {t} k" and st: "tstate (threads k) t \<noteq> Created"
    and nosleep: "OfThread t \<notin> set (sleep_queue k)"
  shows "sched_inv (ready_inserted t k)"
proof -
  let ?k = "set_state t Ready k"
  let ?xs = "insert_after (ready_before t ?k) t (ready_queue k)"
  have sl: "sleeping {} (suspendables k) (blocked_list k) (sleep_queue k)"
    using inv nosleep unfolding sched_inv_fl_def by (blast intro: sleeping_land)
  have id: "identified ((tstate (threads k))(t := Ready)) (tid (threads k)) (tstack (threads k)) (suspendables k) (idle_thread k)"
    using inv st by (intro identified_upd) (auto simp: sched_inv_fl_def)
  have so: "sorted_wrt (\<lambda>a b. tprio (threads k) b \<le> tprio (threads k) a) ?xs"
  proof (rule sorted_insert_after [OF prio_ge_trans])
    show "sorted_wrt (\<lambda>a b. tprio (threads k) b \<le> tprio (threads k) a) (ready_queue k)"
      using inv by (simp add: sched_inv_fl_def ordered_def)
    show "tprio (threads k) t \<le> tprio (threads k) y" if "ready_before t ?k y" for y
      using ready_before_order(1) [OF that] by (simp add: kernel_upd_defs)
    show "tprio (threads k) y \<le> tprio (threads k) t" if "\<not> ready_before t ?k y" for y
      using ready_before_order(2) [OF that] by (simp add: kernel_upd_defs)
  qed
  have pl: "placed {t} (tstate (threads k)) (ready_queue k) (blocked_list k) (suspended_list k)
      (idle_thread k) (current_thread k)" using inv by (simp add: sched_inv_fl_def)
  then have d: "distinct ?xs" by (auto simp: placed_def)
  from placed_insert(1) [OF pl _ d] placed_insert(4) [OF pl] sl id so inv
  show ?thesis
    by (auto simp: ready_inserted_def Let_def kernel_upd_defs sched_inv_fl_def ordered_def)
qed

definition blocked_inserted :: "tptr \<Rightarrow> kernel \<Rightarrow> kernel" where
  "blocked_inserted t k =
     (let k1 = set_state t Blocked k in
      k1\<lparr>blocked_list := insert_after (blocked_before t k1) t (blocked_list k)\<rparr>)"

lemma insert_to_blocked_queue_eq:
  assumes "sched_inv_fl {t} k" and "tstate (threads k) t \<noteq> Created" and "t \<noteq> idle_thread k"
  shows "insert_to_blocked_queue t k = Inr (blocked_inserted t k)"
  using inv_float_facts [OF assms(1,2)] assms(3)
  by (simp add: insert_to_blocked_queue_def blocked_inserted_def Let_def c_insert_after_def)
    (simp add: kernel_upd_defs)

lemma blocked_before_order:
  "blocked_before t k q \<Longrightarrow> lock_ge (tlock (threads k) q) (tlock (threads k) t)"
  "\<not> blocked_before t k q \<Longrightarrow> lock_ge (tlock (threads k) t) (tlock (threads k) q)"
  by (auto simp: blocked_before_def Let_def tlock_def lock_ge_def status_ge_priority is_valid_iff
      split: if_splits option.splits)

lemma blocked_inserted_inv:
  assumes inv: "sched_inv_fl {t} k" and st: "tstate (threads k) t \<noteq> Created"
    and ni: "t \<noteq> idle_thread k"
  shows "sched_inv (blocked_inserted t k)"
proof -
  let ?k = "set_state t Blocked k"
  let ?xs = "insert_after (blocked_before t ?k) t (blocked_list k)"
  have sl: "sleeping {} (suspendables k) ?xs (sleep_queue k)"
    using inv by (auto simp: sched_inv_fl_def elim: sleeping_mono)
  have id: "identified ((tstate (threads k))(t := Blocked)) (tid (threads k)) (tstack (threads k)) (suspendables k) (idle_thread k)"
    using inv st by (intro identified_upd) (auto simp: sched_inv_fl_def)
  have so: "sorted_wrt (\<lambda>a b. lock_ge (tlock (threads k) a) (tlock (threads k) b)) ?xs"
  proof (rule sorted_insert_after [OF lock_ge_trans])
    show "sorted_wrt (\<lambda>a b. lock_ge (tlock (threads k) a) (tlock (threads k) b)) (blocked_list k)"
      using inv by (simp add: sched_inv_fl_def ordered_def)
    show "lock_ge (tlock (threads k) y) (tlock (threads k) t)" if "blocked_before t ?k y" for y
      using blocked_before_order(1) [OF that] by (simp add: kernel_upd_defs)
    show "lock_ge (tlock (threads k) t) (tlock (threads k) y)" if "\<not> blocked_before t ?k y" for y
      using blocked_before_order(2) [OF that] by (simp add: kernel_upd_defs)
  qed
  have pl: "placed {t} (tstate (threads k)) (ready_queue k) (blocked_list k) (suspended_list k)
      (idle_thread k) (current_thread k)" using inv by (simp add: sched_inv_fl_def)
  then have d: "distinct ?xs" by (auto simp: placed_def)
  from placed_insert(2) [OF pl _ d] ni sl id so inv
  show ?thesis
    by (auto simp: blocked_inserted_def Let_def kernel_upd_defs sched_inv_fl_def ordered_def)
qed

definition suspended_inserted :: "tptr \<Rightarrow> kernel \<Rightarrow> kernel" where
  "suspended_inserted t k =
     (let k1 = set_state t Suspended k in k1\<lparr>suspended_list := suspended_list k @ [t]\<rparr>)"

lemma insert_to_suspended_list_eq:
  assumes "sched_inv_fl {t} k" and "tstate (threads k) t \<noteq> Created" and "t \<noteq> idle_thread k"
  shows "insert_to_suspended_list t k = Inr (suspended_inserted t k)"
  using inv_float_facts [OF assms(1,2)] assms(3)
  by (simp add: insert_to_suspended_list_def suspended_inserted_def Let_def c_push_back_def)
    (simp add: kernel_upd_defs)

lemma suspended_inserted_inv:
  assumes inv: "sched_inv_fl {t} k" and st: "tstate (threads k) t \<noteq> Created"
    and ni: "t \<noteq> idle_thread k" and nosleep: "OfThread t \<notin> set (sleep_queue k)"
  shows "sched_inv (suspended_inserted t k)"
proof -
  have sl: "sleeping {} (suspendables k) (blocked_list k) (sleep_queue k)"
    using inv nosleep unfolding sched_inv_fl_def by (blast intro: sleeping_land)
  have id: "identified ((tstate (threads k))(t := Suspended)) (tid (threads k)) (tstack (threads k)) (suspendables k) (idle_thread k)"
    using inv st by (intro identified_upd) (auto simp: sched_inv_fl_def)
  have pl: "placed {t} (tstate (threads k)) (ready_queue k) (blocked_list k) (suspended_list k)
      (idle_thread k) (current_thread k)" using inv by (simp add: sched_inv_fl_def)
  then have d: "distinct (suspended_list k @ [t])" by (auto simp: placed_def)
  from placed_insert(3) [OF pl _ d] ni sl id inv
  show ?thesis
    by (auto simp: suspended_inserted_def Let_def kernel_upd_defs sched_inv_fl_def ordered_def)
qed


section \<open>Taking a thread out of a list\<close>

lemma sched_inv_irrelevant [simp]:
  "sched_inv_fl F (k\<lparr>alarm := a\<rparr>) = sched_inv_fl F k"
  "sched_inv_fl F (k\<lparr>pending_reschedule_kind := rk\<rparr>) = sched_inv_fl F k"
  "sched_inv_fl F (k\<lparr>thread_context := c\<rparr>) = sched_inv_fl F k"
  "sched_inv_fl F (k\<lparr>raw_borrowed := b\<rparr>) = sched_inv_fl F k"
  "sched_inv_fl F (k\<lparr>preempt_lock := pl\<rparr>) = sched_inv_fl F k"
  "sched_inv_fl F (k\<lparr>current_interrupt := ci\<rparr>) = sched_inv_fl F k"
  "sched_inv_fl F (k\<lparr>pending_executor_polls := pp\<rparr>) = sched_inv_fl F k"
  "sched_inv_fl F (k\<lparr>pending_resume := pr\<rparr>) = sched_inv_fl F k"
  "sched_inv_fl F (k\<lparr>pending_sleep := ps\<rparr>) = sched_inv_fl F k"
  "sched_inv_fl F (k\<lparr>interrupt_threshold := th\<rparr>) = sched_inv_fl F k"
  "sched_inv_fl F (k\<lparr>interrupts := is\<rparr>) = sched_inv_fl F k"
  "sched_inv_fl F (k\<lparr>locks := ls\<rparr>) = sched_inv_fl F k"
  "sched_inv_fl F (k\<lparr>wait_queues := wq\<rparr>) = sched_inv_fl F k"
  by (simp_all add: sched_inv_fl_def)

lemma sched_inv_events [simp]:
  "sched_inv_fl F (upd_thread t (\<lambda>x. x\<lparr>events := e x\<rparr>) k) = sched_inv_fl F k"
  by (simp add: sched_inv_fl_def upd_thread_def)

lemma inv_placed:
  "sched_inv_fl F k \<Longrightarrow> placed F (tstate (threads k)) (ready_queue k) (blocked_list k)
     (suspended_list k) (idle_thread k) (current_thread k)"
  by (simp add: sched_inv_fl_def)

lemma inv_states:
  assumes "sched_inv k"
  shows "tstate (threads k) t = Ready \<longleftrightarrow> t \<in> set (ready_queue k) \<or> t = idle_thread k \<and> t \<noteq> current_thread k"
    and "tstate (threads k) t = Blocked \<longleftrightarrow> t \<in> set (blocked_list k)"
    and "tstate (threads k) t = Suspended \<longleftrightarrow> t \<in> set (suspended_list k)"
    and "tstate (threads k) t = Running \<longleftrightarrow> t = current_thread k"
  using inv_placed [OF assms] by (auto simp: placed_def)

lemma inv_idle_unlisted:
  "sched_inv k \<Longrightarrow> idle_thread k \<notin> set (ready_queue k) \<union> set (blocked_list k) \<union> set (suspended_list k)"
  by (auto simp: sched_inv_fl_def placed_def)

lemma inv_is_idle:
  "sched_inv k \<Longrightarrow> tstate (threads k) t \<noteq> Created \<Longrightarrow> is_idle t k \<longleftrightarrow> t = idle_thread k"
  using identified_idle by (auto simp: sched_inv_fl_def is_idle_def view_folds)

lemma float_blocked:
  assumes "sched_inv k" and "t \<in> set (blocked_list k)"
  shows "sched_inv_fl {t} (k\<lparr>blocked_list := remove1 t (blocked_list k)\<rparr>)"
proof -
  have "set (blocked_list k) \<subseteq> insert t (set (remove1 t (blocked_list k)))"
    by (metis in_set_remove1 insertCI subsetI)
  then have "sleeping {t} (suspendables k) (remove1 t (blocked_list k)) (sleep_queue k)"
    using assms(1) by (auto simp: sched_inv_fl_def elim: sleeping_mono)
  with assms placed_float(2) [OF inv_placed [OF assms(1)]] show ?thesis
    by (simp add: sched_inv_fl_def ordered_def sorted_wrt_remove1)
qed

lemma float_ready:
  assumes "sched_inv k" and "t \<in> set (ready_queue k)"
  shows "sched_inv_fl {t} (k\<lparr>ready_queue := remove1 t (ready_queue k)\<rparr>)"
  using assms placed_float(1) [OF inv_placed [OF assms(1)]]
  by (auto simp: sched_inv_fl_def ordered_def sorted_wrt_remove1 elim: sleeping_mono)

lemma float_suspended:
  assumes "sched_inv k" and "t \<in> set (suspended_list k)"
  shows "sched_inv_fl {t} (k\<lparr>suspended_list := remove1 t (suspended_list k)\<rparr>)"
  using assms placed_float(3) [OF inv_placed [OF assms(1)]]
  by (auto simp: sched_inv_fl_def elim: sleeping_mono)

lemma float_started:
  assumes "sched_inv k" and "tstate (threads k) t = Started"
  shows "sched_inv_fl {t} k"
  using assms placed_float(4) [OF inv_placed [OF assms(1)]]
  by (auto simp: sched_inv_fl_def elim: sleeping_mono)

lemma sleep_removed_inv:
  "sched_inv_fl F k \<Longrightarrow> sched_inv_fl F (k\<lparr>sleep_queue := remove1 s (sleep_queue k)\<rparr>)"
  by (simp add: sched_inv_fl_def sleeping_sleep_subset)

lemma sleeping_thread_blocked:
  assumes "sched_inv k" and "OfThread t \<in> set (sleep_queue k)"
  shows "t \<in> set (blocked_list k)"
  using assms by (fastforce simp: sched_inv_fl_def sleeping_def)

section \<open>What stays the same\<close>

text \<open>
  \<open>sched_frame k k'\<close>: identities, priorities, locks, stacks and the idle thread are unchanged.
\<close>

definition sched_frame :: "kernel \<Rightarrow> kernel \<Rightarrow> bool" where
  "sched_frame k k' \<longleftrightarrow>
     tprio (threads k') = tprio (threads k) \<and> tlock (threads k') = tlock (threads k)
   \<and> tid (threads k') = tid (threads k) \<and> tstack (threads k') = tstack (threads k)
   \<and> theld (threads k') = theld (threads k) \<and> locks k' = locks k
   \<and> idle_thread k' = idle_thread k"

lemma sched_frame_refl [simp]: "sched_frame k k"
  by (simp add: sched_frame_def)

lemma sched_frame_trans: "sched_frame k k1 \<Longrightarrow> sched_frame k1 k2 \<Longrightarrow> sched_frame k k2"
  by (simp add: sched_frame_def)

text \<open>Who waits where: the wait queues and the links into them.\<close>

definition waits :: "kernel \<Rightarrow> (wptr \<Rightarrow> sptr list) \<times> (sptr \<Rightarrow> wptr option)" where
  "waits k = (wait_queues k, \<lambda>s. wait_link (suspendables k s))"

lemma waits_upd [simp]:
  "waits (upd_thread t f k) = waits k" "waits (set_state t st k) = waits k"
  "waits (k\<lparr>ready_queue := xs\<rparr>) = waits k" "waits (k\<lparr>blocked_list := xs\<rparr>) = waits k"
  "waits (k\<lparr>suspended_list := xs\<rparr>) = waits k" "waits (k\<lparr>sleep_queue := ss\<rparr>) = waits k"
  "waits (k\<lparr>alarm := a\<rparr>) = waits k" "waits (k\<lparr>pending_executor_polls := q\<rparr>) = waits k"
  "waits (set_deadline s d k) = waits k" "waits (k\<lparr>threads := ts\<rparr>) = waits k"
  by (auto simp: waits_def kernel_upd_defs)

lemma waits_cong: "wait_queues k' = wait_queues k \<Longrightarrow> suspendables k' = suspendables k \<Longrightarrow> waits k' = waits k"
  by (simp add: waits_def)

lemma ready_inserted_simps [simp]:
  "waits (ready_inserted t k) = waits k"
  "sched_frame k (ready_inserted t k)"
  "set (ready_queue (ready_inserted t k)) =
     (if t = idle_thread k then set (ready_queue k) else insert t (set (ready_queue k)))"
  "blocked_list (ready_inserted t k) = blocked_list k"
  "suspended_list (ready_inserted t k) = suspended_list k"
  "sleep_queue (ready_inserted t k) = sleep_queue k"
  "suspendables (ready_inserted t k) = suspendables k"
  "current_thread (ready_inserted t k) = current_thread k"
  "idle_thread (ready_inserted t k) = idle_thread k"
  "pending_executor_polls (ready_inserted t k) = pending_executor_polls k"
  "pending_reschedule_kind (ready_inserted t k) = pending_reschedule_kind k"
  "alarm (ready_inserted t k) = alarm k"
  "tstate (threads (ready_inserted t k)) = (tstate (threads k))(t := Ready)"
  by (simp_all add: ready_inserted_def Let_def kernel_upd_defs sched_frame_def waits_def)

text \<open>
  The event sets of the threads. What the scheduler does on its own only adds events to those sent;
  it takes none away and leaves what a thread waits for.
\<close>

definition tevents :: "(tptr \<Rightarrow> raw_thread) \<Rightarrow> tptr \<Rightarrow> event_set" where
  "tevents ts = (\<lambda>t. events (ts t))"

definition evs_kept :: "(tptr \<Rightarrow> event_set) \<Rightarrow> (tptr \<Rightarrow> event_set) \<Rightarrow> bool" where
  "evs_kept es es' \<longleftrightarrow>
     (\<forall>t. waited_events_mask (es' t) = waited_events_mask (es t)
        \<and> (\<forall>n. bit (sent_events_mask (es t)) n \<longrightarrow> bit (sent_events_mask (es' t)) n))"

lemma evs_kept_refl [simp]: "evs_kept es es"
  by (simp add: evs_kept_def)

lemma evs_kept_trans: "evs_kept es es1 \<Longrightarrow> evs_kept es1 es2 \<Longrightarrow> evs_kept es es2"
  by (simp add: evs_kept_def)

lemma set_state_events [simp]: "tevents (threads (set_state t st k)) = tevents (threads k)"
  by (auto simp: tevents_def kernel_upd_defs)

lemma ready_inserted_events [simp]: "tevents (threads (ready_inserted t k)) = tevents (threads k)"
  by (simp add: ready_inserted_def Let_def)

lemma marked_events_kept:
  "f = set_wakeup_event \<or> f = set_resume_event \<Longrightarrow>
     evs_kept (tevents (threads k)) (tevents (threads (upd_thread t (\<lambda>x. x\<lparr>events := f (events x)\<rparr>) k)))"
  by (auto simp: evs_kept_def tevents_def upd_thread_def event_ops bit_or_iff)

section \<open>Waking\<close>

definition woken :: "tptr \<Rightarrow> kernel \<Rightarrow> kernel" where
  "woken t k =
     ready_inserted t (upd_thread t (\<lambda>x. x\<lparr>events := set_wakeup_event (events x)\<rparr>)
       (k\<lparr>blocked_list := remove1 t (blocked_list k)\<rparr>))"

lemma wakeup_thread_ok:
  assumes inv: "sched_inv k" and b: "t \<in> set (blocked_list k)"
    and nosleep: "OfThread t \<notin> set (sleep_queue k)"
  shows "wakeup_thread t k = Inr (woken t k)" and "sched_inv (woken t k)"
proof -
  let ?k1 = "upd_thread t (\<lambda>x. x\<lparr>events := set_wakeup_event (events x)\<rparr>)
       (k\<lparr>blocked_list := remove1 t (blocked_list k)\<rparr>)"
  have st: "tstate (threads k) t = Blocked" using inv_states(2) [OF inv] b by simp
  have fl: "sched_inv_fl {t} ?k1" using float_blocked [OF inv b] by simp
  have st1: "tstate (threads ?k1) t \<noteq> Created" using st by (simp add: upd_thread_def)
  have "\<not> is_idle t k" using inv_is_idle [OF inv] st inv_idle_unlisted [OF inv] b by auto
  moreover have "(upd_thread t (\<lambda>x. x\<lparr>events := set_wakeup_event (events x)\<rparr>) k)
      \<lparr>blocked_list := remove1 t (blocked_list k)\<rparr> = ?k1" by (simp add: upd_thread_def)
  moreover have "blocked_list (upd_thread t (\<lambda>x. x\<lparr>events := set_wakeup_event (events x)\<rparr>) k)
      = blocked_list k" by (simp add: upd_thread_def)
  ultimately show "wakeup_thread t k = Inr (woken t k)"
    using st b insert_to_ready_queue_eq [OF fl st1]
    by (simp add: wakeup_thread_def view_folds c_remove_def woken_def)
  show "sched_inv (woken t k)"
    unfolding woken_def using ready_inserted_inv [OF fl st1] nosleep by (simp add: upd_thread_def)
qed

lemma woken_simps:
  assumes "sched_inv k" and "t \<in> set (blocked_list k)"
  shows "sched_frame k (woken t k)"
    and "set (ready_queue (woken t k)) = insert t (set (ready_queue k))"
    and "blocked_list (woken t k) = remove1 t (blocked_list k)"
    and "suspended_list (woken t k) = suspended_list k"
    and "sleep_queue (woken t k) = sleep_queue k"
    and "suspendables (woken t k) = suspendables k"
    and "current_thread (woken t k) = current_thread k"
    and "pending_executor_polls (woken t k) = pending_executor_polls k"
    and "waits (woken t k) = waits k"
    and "evs_kept (tevents (threads k)) (tevents (threads (woken t k)))"
proof -
  show "evs_kept (tevents (threads k)) (tevents (threads (woken t k)))"
    using marked_events_kept [of set_wakeup_event "k\<lparr>blocked_list := remove1 t (blocked_list k)\<rparr>" t]
    by (simp add: woken_def)
  have "t \<noteq> idle_thread k" using inv_idle_unlisted [OF assms(1)] assms(2) by auto
  then show "set (ready_queue (woken t k)) = insert t (set (ready_queue k))"
    by (simp add: woken_def upd_thread_def)
  show "sched_frame k (woken t k)"
    unfolding woken_def by (rule sched_frame_trans [OF _ ready_inserted_simps(2)])
      (simp add: sched_frame_def upd_thread_def)
qed (simp_all add: woken_def upd_thread_def)


text \<open>
  The wakeup loop: it ends, it wakes exactly the sleepers whose deadline has passed, and it
  programs the alarm for the first one left. An error can only come from the poll queue of
  interrupt executors, so not when only threads sleep.
\<close>

definition due_threads :: "u64 \<Rightarrow> kernel \<Rightarrow> tptr set" where
  "due_threads now k = {t. OfThread t \<in> set (takeWhile (is_due now k) (sleep_queue k))}"

definition next_alarm :: "kernel \<Rightarrow> u64 option" where
  "next_alarm k = (case sleep_queue k of [] \<Rightarrow> None | s # _ \<Rightarrow> map_option tick (deadline (suspendables k s)))"

definition sleepers_woken :: "u64 \<Rightarrow> kernel \<Rightarrow> kernel \<Rightarrow> bool" where
  "sleepers_woken now k k' \<longleftrightarrow>
     sched_inv k' \<and> sched_frame k k' \<and> current_thread k' = current_thread k
   \<and> suspendables k' = suspendables k \<and> suspended_list k' = suspended_list k
   \<and> sleep_queue k' = dropWhile (is_due now k) (sleep_queue k)
   \<and> set (ready_queue k') = set (ready_queue k) \<union> due_threads now k
   \<and> set (blocked_list k') = set (blocked_list k) - due_threads now k
   \<and> alarm k' = next_alarm k' \<and> waits k' = waits k
   \<and> evs_kept (tevents (threads k)) (tevents (threads k'))"

definition threads_only :: "kernel \<Rightarrow> bool" where
  "threads_only k \<longleftrightarrow> (\<forall>s \<in> set (sleep_queue k). \<exists>t. s = OfThread t)"

lemma is_due_cong: "suspendables k' = suspendables k \<Longrightarrow> is_due now k' = is_due now k"
  by (auto simp: is_due_def)

lemma sleepers_woken_done:
  assumes "sched_inv k" and "sleep_queue k = [] \<or> \<not> is_due now k (hd (sleep_queue k))"
  shows "sleepers_woken now k (k\<lparr>alarm := next_alarm k\<rparr>)"
proof -
  have "takeWhile (is_due now k) (sleep_queue k) = []" "dropWhile (is_due now k) (sleep_queue k) = sleep_queue k"
    using assms(2) by (cases "sleep_queue k"; simp)+
  then show ?thesis
    using assms(1) by (simp add: sleepers_woken_def sched_frame_def due_threads_def next_alarm_def
        split: list.split)
qed

lemma wake_interrupt_polls:
  assumes "wakeup_interrupt i k = Inr k'"
  shows "\<exists>q. k' = k\<lparr>pending_executor_polls := q\<rparr>"
proof (cases "is_linked i (pending_executor_polls k)")
  case True
  with assms have "k' = k\<lparr>pending_executor_polls := pending_executor_polls k\<rparr>"
    by (simp add: wakeup_interrupt_def set_pending_executor_poll_def)
  then show ?thesis by blast
next
  case False
  with assms show ?thesis
    by (auto simp: wakeup_interrupt_def set_pending_executor_poll_def bind_res_eq_Inr)
qed

lemma sleepers_woken_step:
  assumes "sleep_queue k = s # rest" and "is_due now k s"
    and "sleepers_woken now k1 k'" and "sleep_queue k1 = rest" and "suspendables k1 = suspendables k"
    and "sched_frame k k1" and "current_thread k1 = current_thread k"
    and "suspended_list k1 = suspended_list k"
    and "set (ready_queue k1) = set (ready_queue k) \<union> {t. s = OfThread t}"
    and "set (blocked_list k1) = set (blocked_list k) - {t. s = OfThread t}" and "waits k1 = waits k"
    and "evs_kept (tevents (threads k)) (tevents (threads k1))"
  shows "sleepers_woken now k k'"
proof -
  have "is_due now k1 = is_due now k" using assms(5) by (rule is_due_cong)
  with assms have "due_threads now k = {t. s = OfThread t} \<union> due_threads now k1"
    by (auto simp: due_threads_def)
  with assms \<open>is_due now k1 = is_due now k\<close> show ?thesis
    unfolding sleepers_woken_def by (auto intro: sched_frame_trans evs_kept_trans)
qed

lemma wake_sleepers_ok:
  assumes "sched_inv k"
  shows "\<exists>r. wake_sleepers wk now k = Some r \<and> (\<forall>k'. r = Inr k' \<longrightarrow> sleepers_woken now k k')
     \<and> (threads_only k \<longrightarrow> (\<exists>k'. r = Inr k'))"
  using assms
proof (induction "sleep_queue k" arbitrary: k)
  case Nil
  then have "wake_sleepers wk now k = Some (Inr (k\<lparr>alarm := next_alarm k\<rparr>))"
    by (simp add: wake_sleepers.simps [of wk now k] set_alarm_def next_alarm_def split: list.split)
  with sleepers_woken_done [of k now] Nil show ?case by simp
next
  case (Cons s rest)
  note sq = \<open>s # rest = sleep_queue k\<close> [symmetric]
  have ok: "sleeper_ok (set (blocked_list k)) (suspendables k s) s"
    using Cons.prems sq by (simp add: sched_inv_fl_def sleeping_def)
  let ?k = "k\<lparr>sleep_queue := rest\<rparr>"
  have inv: "sched_inv ?k" using sleep_removed_inv [OF Cons.prems, of s] sq by simp
  show ?case
  proof (cases "is_due now k s")
    case False
    then have "wake_sleepers wk now k = Some (Inr (k\<lparr>alarm := next_alarm k\<rparr>))"
      using sq by (simp add: wake_sleepers.simps [of wk now k] set_alarm_def next_alarm_def)
    with sleepers_woken_done [OF Cons.prems, of now] False sq show ?thesis by simp
  next
    case due: True
    have step: "wake_sleepers wk now k =
        (case wakeup_suspendable wk s ?k of Inl e \<Rightarrow> Some (Inl e) | Inr k1 \<Rightarrow> wake_sleepers wk now k1)"
      using due sq by (simp add: wake_sleepers.simps [of wk now k])
    show ?thesis
    proof (cases s)
      case (OfThread t)
      with ok have b: "t \<in> set (blocked_list ?k)" "kind (suspendables k s) = KThread t" by auto
      have ns: "OfThread t \<notin> set (sleep_queue ?k)"
        using Cons.prems sq OfThread by (auto simp: sched_inv_fl_def sleeping_def)
      note w = wakeup_thread_ok [OF inv b(1) ns] and ws = woken_simps [OF inv b(1)]
      have dist: "distinct (blocked_list k)" using inv_placed [OF Cons.prems] by (simp add: placed_def)
      have eq: "wake_sleepers wk now k = wake_sleepers wk now (woken t ?k)"
        using step b w(1) by (simp add: wakeup_suspendable_def)
      have "rest = sleep_queue (woken t ?k)" using ws(5) by simp
      from Cons.hyps(1) [OF this w(2)] obtain r where r: "wake_sleepers wk now k = Some r"
        "\<forall>k'. r = Inr k' \<longrightarrow> sleepers_woken now (woken t ?k) k'"
        "threads_only (woken t ?k) \<longrightarrow> (\<exists>k'. r = Inr k')" unfolding eq by blast
      have fr: "sched_frame k (woken t ?k)" using ws(1) by (simp add: sched_frame_def)
      have "sleepers_woken now k k'" if "r = Inr k'" for k'
        by (rule sleepers_woken_step [OF sq due r(2) [rule_format, OF that]])
          (use ws fr OfThread dist in \<open>auto\<close>)
      moreover have "threads_only k \<Longrightarrow> threads_only (woken t ?k)"
        using ws(5) sq by (simp add: threads_only_def)
      ultimately show ?thesis using r by blast
    next
      case (OfInterrupt i)
      with ok have kd: "kind (suspendables k s) = KInterrupt i" by simp
      show ?thesis
      proof (cases "wakeup_interrupt i ?k")
        case (Inl e)
        then have "wake_sleepers wk now k = Some (Inl e)"
          using step kd by (simp add: wakeup_suspendable_def)
        moreover have "\<not> threads_only k" using sq OfInterrupt by (simp add: threads_only_def)
        ultimately show ?thesis by simp
      next
        case (Inr k1)
        then obtain q where k1: "k1 = ?k\<lparr>pending_executor_polls := q\<rparr>"
          using wake_interrupt_polls by blast
        have eq: "wake_sleepers wk now k = wake_sleepers wk now k1"
          using step kd Inr by (simp add: wakeup_suspendable_def)
        have inv1: "sched_inv k1" using inv k1 by simp
        have "rest = sleep_queue k1" using k1 by simp
        from Cons.hyps(1) [OF this inv1] obtain r where r: "wake_sleepers wk now k = Some r"
          "\<forall>k'. r = Inr k' \<longrightarrow> sleepers_woken now k1 k'" unfolding eq by blast
        have "sleepers_woken now k k'" if "r = Inr k'" for k'
          by (rule sleepers_woken_step [OF sq due r(2) [rule_format, OF that]])
            (use k1 OfInterrupt in \<open>auto simp: sched_frame_def\<close>)
        moreover have "\<not> threads_only k" using sq OfInterrupt by (simp add: threads_only_def)
        ultimately show ?thesis using r by blast
      qed
    next
      case (OfTask x)
      with ok show ?thesis by simp
    qed
  qed
qed


section \<open>Switching\<close>

definition switched :: "tptr \<Rightarrow> kernel \<Rightarrow> kernel" where
  "switched new k =
     (let k1 = set_state new Running k in
      set_state (current_thread k) Ready
        (k1\<lparr>thread_context := thr_context (threads k new), current_thread := new\<rparr>))"

definition canary_ok :: "kernel \<Rightarrow> bool" where
  "canary_ok k \<longleftrightarrow> (\<forall>s. tstack (threads k) (current_thread k) = Some s \<longrightarrow> is_alive s)"

lemma inv_current_stack:
  assumes "sched_inv_fl F k"
  shows "\<exists>s. tstack (threads k) (current_thread k) = Some s"
proof -
  have "tstate (threads k) (current_thread k) = Running"
    using inv_placed [OF assms] by (auto simp: placed_def)
  then show ?thesis using assms by (auto simp: sched_inv_fl_def identified_def)
qed

lemma switch_thread_ok:
  assumes inv: "sched_inv_fl F k" and F: "F = {new} \<or> F = {} \<and> new = idle_thread k"
    and ne: "new \<noteq> current_thread k" and st: "tstate (threads k) new \<noteq> Created"
    and ns: "OfThread new \<notin> set (sleep_queue k)"
  shows "canary_ok k \<Longrightarrow> switch_thread new k = Inr (current_thread k, switched new k)"
    and "sched_inv_fl {current_thread k} (switched new k)"
proof -
  obtain s where s: "tstack (threads k) (current_thread k) = Some s"
    using inv_current_stack [OF inv] by blast
  show "canary_ok k \<Longrightarrow> switch_thread new k = Inr (current_thread k, switched new k)"
    using s by (simp add: switch_thread_def check_stack_overflow_def view_folds canary_ok_def
        switched_def Let_def) (simp add: kernel_upd_defs)
  have cst: "tstate (threads k) (current_thread k) = Running"
    using inv_placed [OF inv] by (auto simp: placed_def)
  have sl: "sleeping {current_thread k} (suspendables k) (blocked_list k) (sleep_queue k)"
    using inv F ns unfolding sched_inv_fl_def by (blast intro: sleeping_mono sleeping_land)
  have id: "identified ((tstate (threads k))(new := Running, current_thread k := Ready))
      (tid (threads k)) (tstack (threads k)) (suspendables k) (idle_thread k)"
    using inv st cst by (intro identified_upd) (auto simp: sched_inv_fl_def)
  have ts: "tstate (threads (switched new k)) =
      (tstate (threads k))(new := Running, current_thread k := Ready)"
    "tprio (threads (switched new k)) = tprio (threads k)"
    "tlock (threads (switched new k)) = tlock (threads k)"
    "tid (threads (switched new k)) = tid (threads k)"
    "tstack (threads (switched new k)) = tstack (threads k)"
    using ne by (auto simp: switched_def Let_def kernel_upd_defs view_defs priority_defs)
  show "sched_inv_fl {current_thread k} (switched new k)"
    using placed_switch [OF inv_placed [OF inv] F ne] sl id inv
    by (simp add: sched_inv_fl_def ts) (simp add: switched_def Let_def kernel_upd_defs)
qed

lemma switched_simps:
  assumes "new \<noteq> current_thread k"
  shows "sched_frame k (switched new k)"
    and "tstate (threads (switched new k)) =
      (tstate (threads k))(new := Running, current_thread k := Ready)"
    and "current_thread (switched new k) = new"
    and "idle_thread (switched new k) = idle_thread k"
    and "ready_queue (switched new k) = ready_queue k"
    and "blocked_list (switched new k) = blocked_list k"
    and "suspended_list (switched new k) = suspended_list k"
    and "sleep_queue (switched new k) = sleep_queue k"
    and "suspendables (switched new k) = suspendables k"
    and "alarm (switched new k) = alarm k"
    and "current_interrupt (switched new k) = current_interrupt k"
    and "wait_queues (switched new k) = wait_queues k"
    and "interrupts (switched new k) = interrupts k"
    and "thread_context (switched new k) = thr_context (threads k new)"
proof -
  show "tstate (threads (switched new k)) =
      (tstate (threads k))(new := Running, current_thread k := Ready)"
    using assms by (auto simp: switched_def Let_def kernel_upd_defs view_defs)
  show "sched_frame k (switched new k)"
    using assms by (auto simp: sched_frame_def switched_def Let_def kernel_upd_defs view_defs priority_defs)
qed (simp_all add: switched_def Let_def kernel_upd_defs)

section \<open>Rescheduling\<close>

lemma reschedule_next_cases:
  assumes "rkind AND 3 \<noteq> 0"
  obtains (stay) "reschedule_next rkind k = Inr (current_thread k, k)"
      and "\<And>t. first_opt (ready_queue k) = Some t \<Longrightarrow>
        tprio (threads k) t \<le> tprio (threads k) (current_thread k)"
  | (go) t where "ready_queue k \<noteq> []" and "t = hd (ready_queue k)"
      and "reschedule_next rkind k = Inr (t, k\<lparr>ready_queue := tl (ready_queue k)\<rparr>)"
      and "tprio (threads k) (current_thread k) \<le> tprio (threads k) t"
proof -
  have split: "rkind AND RESCHEDULE_KIND_YIELD_TO_EQUAL \<noteq> 0 \<or> rkind AND RESCHEDULE_KIND_YIELD_TO_HIGHER \<noteq> 0"
  proof (rule ccontr)
    assume "\<not> ?thesis"
    then have "rkind AND 2 = 0" "rkind AND 1 = 0"
      by (simp_all add: RESCHEDULE_KIND_YIELD_TO_EQUAL_def RESCHEDULE_KIND_YIELD_TO_HIGHER_def)
    moreover have "rkind AND 3 = (rkind AND 2) OR (rkind AND 1)"
      using bit.conj_disj_distrib [of rkind 2 1] by simp
    ultimately show False using assms by simp
  qed
  show ?thesis
  proof (cases "ready_queue k")
    case Nil
    with split show ?thesis
      by (intro stay) (auto simp: reschedule_next_def Let_def)
  next
    case (Cons t ts)
    let ?c = "tprio (threads k) (current_thread k)"
    have "reschedule_next rkind k = Inr (current_thread k, k) \<and> tprio (threads k) t \<le> ?c
        \<or> reschedule_next rkind k = Inr (t, k\<lparr>ready_queue := ts\<rparr>) \<and> ?c \<le> tprio (threads k) t"
      using split Cons by (auto simp: reschedule_next_def Let_def tprio_def)
    then show ?thesis using stay go Cons by fastforce
  qed
qed

definition rescheduled :: "u64 \<Rightarrow> kernel \<Rightarrow> kernel \<Rightarrow> bool" where
  "rescheduled now k k' \<longleftrightarrow>
     sched_inv k' \<and> sched_frame k k'
   \<and> sleep_queue k' = dropWhile (is_due now k) (sleep_queue k) \<and> suspendables k' = suspendables k
   \<and> alarm k' = next_alarm k'
   \<and> (\<forall>t \<in> set (ready_queue k'). tprio (threads k') t \<le> tprio (threads k') (current_thread k'))
   \<and> tprio (threads k) (current_thread k) \<le> tprio (threads k') (current_thread k')
   \<and> {idle_thread k, current_thread k'} \<union> set (ready_queue k') =
       {idle_thread k, current_thread k} \<union> set (ready_queue k) \<union> due_threads now k
   \<and> set (blocked_list k') = set (blocked_list k) - due_threads now k
   \<and> suspended_list k' = suspended_list k \<and> waits k' = waits k
   \<and> evs_kept (tevents (threads k)) (tevents (threads k'))"

lemma ready_bounded:
  assumes "sched_inv k" and "\<And>t. first_opt (ready_queue k) = Some t \<Longrightarrow> tprio (threads k) t \<le> p"
  shows "\<forall>t \<in> set (ready_queue k). tprio (threads k) t \<le> p"
proof (cases "ready_queue k")
  case (Cons h ts)
  have "\<forall>t \<in> set ts. tprio (threads k) t \<le> tprio (threads k) h"
    using assms(1) Cons by (auto simp: sched_inv_fl_def ordered_def)
  with assms(2) [of h] Cons show ?thesis by fastforce
qed simp

lemma reschedule_switch_ok:
  assumes inv: "sched_inv k" and ne: "ready_queue k \<noteq> []" and t: "t = hd (ready_queue k)"
    and up: "tprio (threads k) (current_thread k) \<le> tprio (threads k) t" and alive: "canary_ok k"
  shows "\<exists>k'. bind_res (switch_thread t (k\<lparr>ready_queue := tl (ready_queue k)\<rparr>))
       (\<lambda>(previous, k3). insert_to_ready_queue previous k3) = Inr k'
     \<and> sched_inv k' \<and> sched_frame k k' \<and> sleep_queue k' = sleep_queue k
     \<and> suspendables k' = suspendables k \<and> alarm k' = alarm k \<and> current_thread k' = t
     \<and> set (ready_queue k') = set (tl (ready_queue k)) \<union> ({current_thread k} - {idle_thread k})
     \<and> blocked_list k' = blocked_list k \<and> suspended_list k' = suspended_list k \<and> waits k' = waits k
     \<and> tevents (threads k') = tevents (threads k)"
proof -
  let ?k = "k\<lparr>ready_queue := tl (ready_queue k)\<rparr>"
  have mem: "t \<in> set (ready_queue k)" using ne t by simp
  have rm: "remove1 t (ready_queue k) = tl (ready_queue k)" using ne t by (cases "ready_queue k") auto
  have fl: "sched_inv_fl {t} ?k" using float_ready [OF inv mem] rm by simp
  have st: "tstate (threads k) t = Ready" using inv_states(1) [OF inv] mem by blast
  have nc: "t \<noteq> current_thread k" using inv_placed [OF inv] mem by (auto simp: placed_def)
  have ns: "OfThread t \<notin> set (sleep_queue k)"
    using sleeping_thread_blocked [OF inv, of t] inv_placed [OF inv] mem by (auto simp: placed_def)
  have al: "canary_ok ?k" using alive by (simp add: canary_ok_def)
  note sw = switch_thread_ok [OF fl, of t] and ss = switched_simps [of t ?k]
  let ?s = "switched t ?k" let ?c = "current_thread k"
  have s: "switch_thread t ?k = Inr (?c, ?s)" "sched_inv_fl {?c} ?s"
    using sw st nc ns al by simp_all
  have cs: "tstate (threads ?s) ?c \<noteq> Created" using ss(2) nc by simp
  have cn: "OfThread ?c \<notin> set (sleep_queue ?s)"
    using sleeping_thread_blocked [OF inv, of ?c] inv_placed [OF inv] ss(8) nc by (auto simp: placed_def)
  have "bind_res (switch_thread t ?k) (\<lambda>(previous, k3). insert_to_ready_queue previous k3)
      = Inr (ready_inserted ?c ?s)"
    using s insert_to_ready_queue_eq [OF s(2) cs] by simp
  moreover have "sched_inv (ready_inserted ?c ?s)" by (rule ready_inserted_inv [OF s(2) cs cn])
  moreover have "sched_frame k (ready_inserted ?c ?s)"
    using ss(1) nc sched_frame_trans [OF _ ready_inserted_simps(2), of k ?s ?c]
    by (simp add: sched_frame_def)
  moreover have "waits ?s = waits k" using ss(9,12) nc by (simp add: waits_def)
  moreover have "tevents (threads ?s) = tevents (threads k)" by (simp add: switched_def Let_def)
  ultimately show ?thesis using ss nc by auto
qed

lemma reschedule_ok:
  assumes inv: "sched_inv k" and rk: "rkind AND 3 \<noteq> 0" and alive: "canary_ok k"
  shows "(\<forall>k'. reschedule wk now rkind k = Inr k' \<longrightarrow> rescheduled now k k')
     \<and> (threads_only k \<longrightarrow> (\<exists>k'. reschedule wk now rkind k = Inr k'))"
proof -
  from wake_sleepers_ok [OF inv, of wk now] obtain r where r: "wake_sleepers wk now k = Some r"
    "\<forall>k1. r = Inr k1 \<longrightarrow> sleepers_woken now k k1" "threads_only k \<longrightarrow> (\<exists>k1. r = Inr k1)" by blast
  show ?thesis
  proof (cases r)
    case (Inl e)
    with r show ?thesis by (simp add: reschedule_def loop_result_def)
  next
    case (Inr k1)
    with r(2) have w: "sleepers_woken now k k1" by simp
    then have inv1: "sched_inv k1" and fr1: "sched_frame k k1" and c1: "current_thread k1 = current_thread k"
      and sl1: "sleep_queue k1 = dropWhile (is_due now k) (sleep_queue k)"
      and su1: "suspendables k1 = suspendables k" and al1: "alarm k1 = next_alarm k1"
      and lists1: "set (ready_queue k1) = set (ready_queue k) \<union> due_threads now k"
        "set (blocked_list k1) = set (blocked_list k) - due_threads now k"
        "suspended_list k1 = suspended_list k" "waits k1 = waits k"
        "evs_kept (tevents (threads k)) (tevents (threads k1))"
      by (simp_all add: sleepers_woken_def)
    have alive1: "canary_ok k1" using alive fr1 c1 by (simp add: canary_ok_def sched_frame_def)
    have start: "reschedule wk now rkind k = bind_res (reschedule_next rkind k1) (\<lambda>(nxt, k2).
       if thread_id (threads k2 nxt) \<noteq> thread_id (threads k2 (current_thread k2)) then
         bind_res (switch_thread nxt k2) (\<lambda>(previous, k3). insert_to_ready_queue previous k3)
       else Inr k2)" using r(1) Inr by (simp add: reschedule_def loop_result_def)
    from rk show ?thesis
    proof (cases rule: reschedule_next_cases [of rkind k1])
      case stay
      have "reschedule wk now rkind k = Inr k1" using start stay(1) by simp
      moreover have "rescheduled now k k1"
        using inv1 fr1 c1 sl1 su1 al1 lists1 ready_bounded [OF inv1 stay(2)]
        by (auto simp: rescheduled_def sched_frame_def)
      ultimately show ?thesis by simp
    next
      case (go t)
      from reschedule_switch_ok [OF inv1 go(1,2) go(4) alive1] obtain k'
        where k': "bind_res (switch_thread t (k1\<lparr>ready_queue := tl (ready_queue k1)\<rparr>))
            (\<lambda>(previous, k3). insert_to_ready_queue previous k3) = Inr k'"
          "sched_inv k'" "sched_frame k1 k'" "sleep_queue k' = sleep_queue k1"
          "suspendables k' = suspendables k1" "alarm k' = alarm k1" "current_thread k' = t"
          "set (ready_queue k') = set (tl (ready_queue k1)) \<union> ({current_thread k1} - {idle_thread k1})"
          "blocked_list k' = blocked_list k1" "suspended_list k' = suspended_list k1" "waits k' = waits k1"
          "tevents (threads k') = tevents (threads k1)" by blast
      have mem: "t \<in> set (ready_queue k1)" using go(1,2) by simp
      have "t \<noteq> current_thread k1" using inv_placed [OF inv1] mem by (auto simp: placed_def)
      moreover have "tstate (threads k1) t = Ready" "tstate (threads k1) (current_thread k1) = Running"
        using inv_states [OF inv1] mem by blast+
      ultimately have "tid (threads k1) t \<noteq> tid (threads k1) (current_thread k1)"
        using inv1 by (auto simp: sched_inv_fl_def identified_def dest: inj_onD)
      then have "reschedule wk now rkind k = Inr k'"
        using start go(3) k'(1) by (simp add: view_folds)
      moreover have "rescheduled now k k'"
      proof -
        have "\<forall>u \<in> set (tl (ready_queue k1)). tprio (threads k1) u \<le> tprio (threads k1) t"
          using inv1 go(1,2) by (cases "ready_queue k1") (auto simp: sched_inv_fl_def ordered_def)
        then have "\<forall>u \<in> set (ready_queue k'). tprio (threads k') u \<le> tprio (threads k') (current_thread k')"
          using k'(3,7,8) go(4) by (auto simp: sched_frame_def)
        moreover have "next_alarm k' = next_alarm k1" using k'(4,5) by (simp add: next_alarm_def split: list.split)
        moreover have "{idle_thread k, current_thread k'} \<union> set (ready_queue k') =
            {idle_thread k, current_thread k} \<union> set (ready_queue k1)"
          using go(1,2) k'(7,8) fr1 c1 by (cases "ready_queue k1") (auto simp: sched_frame_def)
        ultimately show ?thesis
          using k'(2-6,9-12) fr1 c1 sl1 su1 al1 lists1 go(4) k'(7)
          by (auto simp: rescheduled_def sched_frame_def)
      qed
      ultimately show ?thesis by simp
    qed
  qed
qed

section \<open>Blocking\<close>

lemma pop_ready_above_cases:
  obtains (none) "pop_ready_above k = (idle_thread k, k)"
      and "\<And>t. first_opt (ready_queue k) = Some t \<Longrightarrow>
        tprio (threads k) t \<le> unwrap_or_default (locks_priority_ceiling k) PRIORITY_MIN"
  | (some) t where "ready_queue k \<noteq> []" and "t = hd (ready_queue k)"
      and "pop_ready_above k = (t, k\<lparr>ready_queue := tl (ready_queue k)\<rparr>)"
      and "unwrap_or_default (locks_priority_ceiling k) PRIORITY_MIN < tprio (threads k) t"
proof (cases "ready_queue k")
  case Nil
  then show ?thesis by (intro none) (auto simp: pop_ready_above_def Let_def)
next
  case (Cons t ts)
  let ?c = "unwrap_or_default (locks_priority_ceiling k) PRIORITY_MIN"
  show ?thesis
  proof (cases "?c < tprio (threads k) t")
    case True
    with Cons show ?thesis by (intro some) (auto simp: pop_ready_above_def Let_def tprio_def)
  next
    case False
    with Cons show ?thesis by (intro none) (auto simp: pop_ready_above_def Let_def tprio_def)
  qed
qed

text \<open>
  Giving up the processor: the next thread runs and the previous one floats.
\<close>

definition gave_up_core :: "kernel \<Rightarrow> kernel \<Rightarrow> bool" where
  "gave_up_core k k' \<longleftrightarrow>
     sched_inv_fl {current_thread k} k' \<and> sched_frame k k'
   \<and> tstate (threads k') (current_thread k) = Ready
   \<and> blocked_list k' = blocked_list k \<and> suspended_list k' = suspended_list k
   \<and> sleep_queue k' = sleep_queue k \<and> alarm k' = alarm k
   \<and> (\<forall>s. deadline (suspendables k' s) = deadline (suspendables k s))
   \<and> (current_thread k' \<in> set (ready_queue k)
        \<and> unwrap_or_default (locks_priority_ceiling k) PRIORITY_MIN < tprio (threads k) (current_thread k')
        \<and> (\<forall>t \<in> set (ready_queue k). tprio (threads k) t \<le> tprio (threads k) (current_thread k'))
      \<or> current_thread k' = idle_thread k
        \<and> (\<forall>t \<in> set (ready_queue k).
             tprio (threads k) t \<le> unwrap_or_default (locks_priority_ceiling k) PRIORITY_MIN))"

definition gave_up :: "kernel \<Rightarrow> kernel \<Rightarrow> bool" where
  "gave_up k k' \<longleftrightarrow>
     gave_up_core k k' \<and> suspendables k' = suspendables k
   \<and> current_interrupt k' = current_interrupt k \<and> wait_queues k' = wait_queues k
   \<and> interrupts k' = interrupts k \<and> suspendable_priority k' = suspendable_priority k"

lemma suspendable_priority_switched [simp]:
  "suspendable_priority (switched t k) = suspendable_priority k"
  by (rule ext) (simp add: suspendable_priority_def switched_def Let_def kernel_upd_defs
      split: suspendable_kind.split)

lemma suspendable_priority_ready [simp]:
  "suspendable_priority (k\<lparr>ready_queue := r\<rparr>) = suspendable_priority k"
  by (rule ext) (simp add: suspendable_priority_def split: suspendable_kind.split)

lemma give_up_ok:
  assumes inv: "sched_inv k" and ni: "current_thread k \<noteq> idle_thread k" and alive: "canary_ok k"
  shows "\<exists>k'. (let (nxt, k1) = pop_ready_above k in switch_thread nxt k1) = Inr (current_thread k, k')
     \<and> gave_up k k'"
proof (cases rule: pop_ready_above_cases [of k])
  case none
  have st: "tstate (threads k) (idle_thread k) = Ready"
    using inv_states(1) [OF inv, of "idle_thread k"] ni by auto
  have ns: "OfThread (idle_thread k) \<notin> set (sleep_queue k)"
    using sleeping_thread_blocked [OF inv] inv_idle_unlisted [OF inv] by auto
  have ne: "idle_thread k \<noteq> current_thread k" using ni by simp
  note sw = switch_thread_ok [OF inv, of "idle_thread k"] and ss = switched_simps [OF ne]
  have "gave_up k (switched (idle_thread k) k)"
    unfolding gave_up_def gave_up_core_def using sw(2) st ne ns ss ready_bounded [OF inv none(2)] by simp
  moreover have "switch_thread (idle_thread k) k = Inr (current_thread k, switched (idle_thread k) k)"
    using sw(1) st ne ns alive by simp
  ultimately show ?thesis using none(1) by simp
next
  case (some t)
  let ?k = "k\<lparr>ready_queue := tl (ready_queue k)\<rparr>"
  have mem: "t \<in> set (ready_queue k)" using some(1,2) by simp
  have rm: "remove1 t (ready_queue k) = tl (ready_queue k)" using some(1,2) by (cases "ready_queue k") auto
  have fl: "sched_inv_fl {t} ?k" using float_ready [OF inv mem] rm by simp
  have st: "tstate (threads k) t = Ready" using inv_states(1) [OF inv] mem by blast
  have nc: "t \<noteq> current_thread k" using inv_placed [OF inv] mem by (auto simp: placed_def)
  have ns: "OfThread t \<notin> set (sleep_queue k)"
    using sleeping_thread_blocked [OF inv, of t] inv_placed [OF inv] mem by (auto simp: placed_def)
  have al: "canary_ok ?k" using alive by (simp add: canary_ok_def)
  have max: "\<forall>u \<in> set (ready_queue k). tprio (threads k) u \<le> tprio (threads k) t"
    using some(1,2) by (intro ready_bounded [OF inv]) (cases "ready_queue k", auto)
  note sw = switch_thread_ok [OF fl, of t] and ss = switched_simps [of t ?k]
  have "switch_thread t ?k = Inr (current_thread k, switched t ?k)"
    using sw(1) st nc ns al by simp
  moreover have "gave_up k (switched t ?k)"
    unfolding gave_up_def gave_up_core_def using sw(2) st nc ns ss mem max some(4) by (simp add: sched_frame_def)
  ultimately show ?thesis using some(3) by simp
qed


lemma insert_to_sleep_queue_ok:
  assumes inv: "sched_inv_fl F k" and new: "s \<notin> set (sleep_queue k)"
    and ok: "sleeper_ok (set (blocked_list k) \<union> F) (suspendables k s) s"
  shows "\<exists>xs. insert_to_sleep_queue s k = Inr (k\<lparr>sleep_queue := xs\<rparr>)
     \<and> sched_inv_fl F (k\<lparr>sleep_queue := xs\<rparr>) \<and> set xs = insert s (set (sleep_queue k))"
proof -
  let ?d = "\<lambda>q. deadline (suspendables k q)"
  let ?xs = "insert_after (\<lambda>q. deadline_le (?d q) (?d s)) s (sleep_queue k)"
  have "sorted_wrt (\<lambda>a b. deadline_le (?d a) (?d b)) ?xs"
    using inv by (intro sorted_insert_after [OF deadline_le_trans])
      (auto simp: sched_inv_fl_def sleeping_def deadline_le_total)
  with inv new ok have "sleeping F (suspendables k) (blocked_list k) ?xs"
    by (auto simp: sched_inv_fl_def sleeping_def)
  with inv have "sched_inv_fl F (k\<lparr>sleep_queue := ?xs\<rparr>)" by (simp add: sched_inv_fl_def)
  moreover have "insert_to_sleep_queue s k = Inr (k\<lparr>sleep_queue := ?xs\<rparr>)"
    using new by (simp add: insert_to_sleep_queue_def c_insert_after_def in_sleep_queue_def)
  ultimately show ?thesis by (intro exI [of _ ?xs]) simp
qed

lemma set_deadline_inv:
  assumes "sched_inv_fl F k" and "s \<notin> set (sleep_queue k)"
  shows "sched_inv_fl F (set_deadline s d k)"
proof -
  have "sorted_wrt (\<lambda>a b. deadline_le (deadline (f a)) (deadline (f b))) (sleep_queue k)
      = sorted_wrt (\<lambda>a b. deadline_le (deadline (suspendables k a)) (deadline (suspendables k b))) (sleep_queue k)"
    if "f = (suspendables k)(s := (suspendables k s)\<lparr>deadline := d\<rparr>)" for f
    using that assms(2) by (intro sorted_wrt_cong_on) auto
  moreover have "sleeper_ok B (((suspendables k)(s := (suspendables k s)\<lparr>deadline := d\<rparr>)) q) q
      = sleeper_ok B (suspendables k q) q" if "q \<in> set (sleep_queue k)" for q B
    using that assms(2) by (cases "q = s") auto
  ultimately show ?thesis
    using assms(1) by (simp add: sched_inv_fl_def sleeping_def identified_def kernel_upd_defs) blast
qed

definition deadline_opt :: "u64 option \<Rightarrow> instant option" where
  "deadline_opt dl = map_option (\<lambda>x. \<lparr>tick = x\<rparr>) dl"

lemma set_state_float_inv:
  assumes "sched_inv_fl {t} k" and "tstate (threads k) t \<noteq> Created" and "s \<noteq> Created"
  shows "sched_inv_fl {t} (set_state t s k)"
  using assms placed_set_floating [OF inv_placed [OF assms(1)]] identified_upd
  by (auto simp: sched_inv_fl_def kernel_upd_defs)

lemma reprogram_alarm_eq: "reprogram_alarm k = k\<lparr>alarm := next_alarm k\<rparr>"
  by (simp add: reprogram_alarm_def next_alarm_def set_alarm_def first_opt_def split: list.split)

lemma block_thread_ok:
  assumes inv: "sched_inv_fl {t} k" and st: "tstate (threads k) t \<noteq> Created"
    and ni: "t \<noteq> idle_thread k" and ns: "OfThread t \<notin> set (sleep_queue k)"
  shows "\<exists>k'. block_thread t dl k = Inr k' \<and> sched_inv k' \<and> sched_frame k k'
     \<and> current_thread k' = current_thread k \<and> ready_queue k' = ready_queue k
     \<and> set (blocked_list k') = insert t (set (blocked_list k))
     \<and> suspended_list k' = suspended_list k
     \<and> deadline (suspendables k' (OfThread t)) = deadline_opt dl
     \<and> set (sleep_queue k') = set (sleep_queue k) \<union> (if dl = None then {} else {OfThread t})
     \<and> (\<forall>s. s \<noteq> OfThread t \<longrightarrow> deadline (suspendables k' s) = deadline (suspendables k s))
     \<and> alarm k' = (if dl = None then alarm k else next_alarm k')
     \<and> wait_queues k' = wait_queues k \<and> tstate (threads k') = (tstate (threads k))(t := Blocked)"
proof -
  have k1: "sched_inv_fl {t} (set_deadline (OfThread t) d k)" for d
    using inv ns by (rule set_deadline_inv)
  show ?thesis
  proof (cases dl)
    case None
    let ?k = "set_deadline (OfThread t) None k"
    have st1: "tstate (threads ?k) t \<noteq> Created" "t \<noteq> idle_thread ?k"
      using st ni by (simp_all add: kernel_upd_defs)
    have "block_thread t None k = Inr (blocked_inserted t ?k)"
      using insert_to_blocked_queue_eq [OF k1 st1] by (simp add: block_thread_def)
    moreover have "sched_inv (blocked_inserted t ?k)" by (rule blocked_inserted_inv [OF k1 st1])
    ultimately show ?thesis using None
      by (intro exI [of _ "blocked_inserted t ?k"])
        (simp add: blocked_inserted_def Let_def kernel_upd_defs sched_frame_def deadline_opt_def)
  next
    case (Some x)
    let ?k = "set_deadline (OfThread t) (Some \<lparr>tick = x\<rparr>) k"
    let ?k1 = "set_state t Blocked ?k"
    have st1: "tstate (threads ?k) t \<noteq> Created" using st by (simp add: kernel_upd_defs)
    have inv1: "sched_inv_fl {t} ?k1" using set_state_float_inv [OF k1 st1] by simp
    have "kind (suspendables k (OfThread t)) = KThread t"
      using inv st by (auto simp: sched_inv_fl_def identified_def)
    then have ok: "sleeper_ok (set (blocked_list ?k1) \<union> {t}) (suspendables ?k1 (OfThread t)) (OfThread t)"
      by (simp add: kernel_upd_defs)
    have ns1: "OfThread t \<notin> set (sleep_queue ?k1)" using ns by (simp add: kernel_upd_defs)
    from insert_to_sleep_queue_ok [OF inv1 ns1 ok] obtain xs
      where xs: "insert_to_sleep_queue (OfThread t) ?k1 = Inr (?k1\<lparr>sleep_queue := xs\<rparr>)"
        "sched_inv_fl {t} (?k1\<lparr>sleep_queue := xs\<rparr>)" "set xs = insert (OfThread t) (set (sleep_queue ?k1))"
      by blast
    let ?k2 = "reprogram_alarm (?k1\<lparr>sleep_queue := xs\<rparr>)"
    have "\<not> is_idle t ?k1"
      using inv_float_facts(2) [OF inv st] ni by (simp add: is_idle_def kernel_upd_defs)
    then have "insert_to_wakeup_queue t ?k = Inr (?k1\<lparr>sleep_queue := xs\<rparr>)"
      using xs(1) by (simp add: insert_to_wakeup_queue_def Let_def)
    moreover have inv2: "sched_inv_fl {t} ?k2" using xs(2) by (simp add: reprogram_alarm_eq)
    moreover have st2: "tstate (threads ?k2) t \<noteq> Created" "t \<noteq> idle_thread ?k2"
      using ni by (simp_all add: reprogram_alarm_eq kernel_upd_defs)
    ultimately have "block_thread t dl k = Inr (blocked_inserted t ?k2)"
      using insert_to_blocked_queue_eq [OF inv2 st2] Some by (simp add: block_thread_def)
    moreover have "sched_inv (blocked_inserted t ?k2)" by (rule blocked_inserted_inv [OF inv2 st2])
    ultimately show ?thesis using Some xs(3)
      by (intro exI [of _ "blocked_inserted t ?k2"])
        (auto simp: blocked_inserted_def Let_def kernel_upd_defs sched_frame_def reprogram_alarm_eq
          next_alarm_def deadline_opt_def split: list.split)
  qed
qed

end
