(* ===== verification/Sched_Properties.thy ===== *)
theory Sched_Properties
  imports Sched_Invariant
begin

text \<open>
  What the operations of the scheduler guarantee, stated for whole operations: the invariant is
  kept, the right thread runs next, every due sleeper is woken and the alarm is programmed, a
  thread is resumed into the right place, and where an operation panics.
\<close>

section \<open>Resuming\<close>

lemma resume_move_Blocked:
  assumes inv: "sched_inv k" and b: "t \<in> set (blocked_list k)"
  shows "\<exists>k'. resume_thread_move t k = Inr k' \<and> sched_inv k' \<and> sched_frame k k'
     \<and> current_thread k' = current_thread k \<and> suspended_list k' = suspended_list k
     \<and> set (ready_queue k') = insert t (set (ready_queue k))
     \<and> blocked_list k' = remove1 t (blocked_list k)
     \<and> sleep_queue k' = remove1 (OfThread t) (sleep_queue k)
     \<and> suspendables k' = suspendables k \<and> alarm k' = alarm k
     \<and> pending_reschedule_kind k' = pending_reschedule_kind k \<and> waits k' = waits k
     \<and> evs_kept (tevents (threads k)) (tevents (threads k'))"
proof -
  let ?e = "\<lambda>x. x\<lparr>events := set_resume_event (events x)\<rparr>"
  let ?k1 = "upd_thread t ?e k"
  let ?k2 = "?k1\<lparr>sleep_queue := remove1 (OfThread t) (sleep_queue k)\<rparr>"
  let ?k3 = "?k2\<lparr>blocked_list := remove1 t (blocked_list k)\<rparr>"
  have st: "tstate (threads k) t = Blocked" using inv_states(2) [OF inv] b by simp
  have inv1: "sched_inv ?k1" using inv by simp
  have inv2: "sched_inv ?k2"
    using sleep_removed_inv [OF inv1, of "OfThread t"] by (simp add: upd_thread_def)
  have b2: "t \<in> set (blocked_list ?k2)" "blocked_list ?k2 = blocked_list k"
    using b by (simp_all add: upd_thread_def)
  have fl: "sched_inv_fl {t} ?k3" using float_blocked [OF inv2 b2(1)] b2(2) by simp
  have st3: "tstate (threads ?k3) t \<noteq> Created" using st by (simp add: upd_thread_def)
  have dist: "distinct (sleep_queue k)" using inv by (simp add: sched_inv_fl_def sleeping_def)
  then have ns: "OfThread t \<notin> set (sleep_queue ?k3)" by simp
  have ni: "t \<noteq> idle_thread k" using inv_idle_unlisted [OF inv] b by auto
  have rem: "(if in_sleep_queue (OfThread t) ?k1 then remove_from_sleep_queue (OfThread t) ?k1 else Inr ?k1)
      = Inr ?k2"
    by (auto simp: in_sleep_queue_def remove_from_sleep_queue_def c_remove_def upd_thread_def remove1_idem)
  have "resume_thread_move t k = Inr (ready_inserted t ?k3)"
    using st rem b2 insert_to_ready_queue_eq [OF fl st3]
    by (simp add: resume_thread_move_def view_folds Let_def c_remove_def)
  moreover have "sched_inv (ready_inserted t ?k3)" by (rule ready_inserted_inv [OF fl st3 ns])
  moreover have "sched_frame k (ready_inserted t ?k3)"
    by (rule sched_frame_trans [OF _ ready_inserted_simps(2)]) (simp add: sched_frame_def upd_thread_def)
  moreover have "tevents (threads ?k3) = tevents (threads ?k1)" by simp
  ultimately show ?thesis using ni marked_events_kept [of set_resume_event k t]
    by (intro exI [of _ "ready_inserted t ?k3"]) (simp, simp add: upd_thread_def)
qed

lemma resume_move_Suspended:
  assumes inv: "sched_inv k" and b: "t \<in> set (suspended_list k)"
  shows "\<exists>k'. resume_thread_move t k = Inr k' \<and> sched_inv k' \<and> sched_frame k k'
     \<and> current_thread k' = current_thread k \<and> suspended_list k' = remove1 t (suspended_list k)
     \<and> set (ready_queue k') = insert t (set (ready_queue k))
     \<and> blocked_list k' = blocked_list k \<and> sleep_queue k' = sleep_queue k
     \<and> suspendables k' = suspendables k \<and> alarm k' = alarm k
     \<and> pending_reschedule_kind k' = pending_reschedule_kind k \<and> waits k' = waits k
     \<and> evs_kept (tevents (threads k)) (tevents (threads k'))"
proof -
  let ?e = "\<lambda>x. x\<lparr>events := set_resume_event (events x)\<rparr>"
  let ?k1 = "upd_thread t ?e k"
  let ?k2 = "?k1\<lparr>suspended_list := remove1 t (suspended_list k)\<rparr>"
  have st: "tstate (threads k) t = Suspended" using inv_states(3) [OF inv] b by simp
  have inv1: "sched_inv ?k1" using inv by simp
  have b1: "t \<in> set (suspended_list ?k1)" "suspended_list ?k1 = suspended_list k"
    using b by (simp_all add: upd_thread_def)
  have fl: "sched_inv_fl {t} ?k2" using float_suspended [OF inv1 b1(1)] b1(2) by simp
  have st2: "tstate (threads ?k2) t \<noteq> Created" using st by (simp add: upd_thread_def)
  have ns: "OfThread t \<notin> set (sleep_queue ?k2)"
    using sleeping_thread_blocked [OF inv, of t] inv_placed [OF inv] b
    by (auto simp: placed_def upd_thread_def)
  have ni: "t \<noteq> idle_thread k" using inv_idle_unlisted [OF inv] b by auto
  have "resume_thread_move t k = Inr (ready_inserted t ?k2)"
    using st b1 insert_to_ready_queue_eq [OF fl st2]
    by (simp add: resume_thread_move_def view_folds Let_def c_remove_def)
  moreover have "sched_inv (ready_inserted t ?k2)" by (rule ready_inserted_inv [OF fl st2 ns])
  moreover have "sched_frame k (ready_inserted t ?k2)"
    by (rule sched_frame_trans [OF _ ready_inserted_simps(2)]) (simp add: sched_frame_def upd_thread_def)
  moreover have "tevents (threads ?k2) = tevents (threads ?k1)" by simp
  ultimately show ?thesis using ni marked_events_kept [of set_resume_event k t]
    by (intro exI [of _ "ready_inserted t ?k2"]) (simp, simp add: upd_thread_def)
qed

lemma resume_move_Started:
  assumes inv: "sched_inv k" and st: "tstate (threads k) t = Started"
  shows "\<exists>k'. resume_thread_move t k = Inr k' \<and> sched_inv k' \<and> sched_frame k k'
     \<and> current_thread k' = current_thread k \<and> suspended_list k' = suspended_list k
     \<and> set (ready_queue k') = insert t (set (ready_queue k))
     \<and> blocked_list k' = blocked_list k \<and> sleep_queue k' = sleep_queue k
     \<and> suspendables k' = suspendables k \<and> alarm k' = alarm k
     \<and> pending_reschedule_kind k' = pending_reschedule_kind k \<and> waits k' = waits k
     \<and> evs_kept (tevents (threads k)) (tevents (threads k'))"
proof -
  have fl: "sched_inv_fl {t} k" by (rule float_started [OF inv st])
  have nc: "tstate (threads k) t \<noteq> Created" using st by simp
  have ns: "OfThread t \<notin> set (sleep_queue k)"
    using sleeping_thread_blocked [OF inv, of t] inv_states(2) [OF inv, of t] st by auto
  have ni: "t \<noteq> idle_thread k" using inv_states [OF inv, of t] st by auto
  have "resume_thread_move t k = Inr (ready_inserted t k)"
    using st insert_to_ready_queue_eq [OF fl nc] by (simp add: resume_thread_move_def view_folds)
  then show ?thesis using ready_inserted_inv [OF fl nc ns] ni by simp
qed

text \<open>
  Resuming keeps the invariant in every state, and a thread that was blocked, suspended or
  started is ready afterwards.
\<close>

definition resumed :: "tptr \<Rightarrow> kernel \<Rightarrow> kernel \<Rightarrow> bool" where
  "resumed t k k' \<longleftrightarrow>
     sched_inv k' \<and> sched_frame k k' \<and> current_thread k' = current_thread k
   \<and> (tstate (threads k) t \<in> {Blocked, Suspended, Started} \<longrightarrow>
        set (ready_queue k') = insert t (set (ready_queue k)) \<and> OfThread t \<notin> set (sleep_queue k'))
   \<and> (tstate (threads k) t \<notin> {Blocked, Suspended, Started} \<longrightarrow> ready_queue k' = ready_queue k)
   \<and> set (blocked_list k') = set (blocked_list k) - {t} \<and> set (suspended_list k') = set (suspended_list k) - {t}
   \<and> set (sleep_queue k') = set (sleep_queue k) - {OfThread t} \<and> suspendables k' = suspendables k
   \<and> alarm k' = alarm k \<and> waits k' = waits k
   \<and> (pending_reschedule_kind k' =
       (if resume_preempts t k' then pending_reschedule_kind k OR RESCHEDULE_KIND_YIELD_TO_HIGHER
        else pending_reschedule_kind k))
   \<and> evs_kept (tevents (threads k)) (tevents (threads k'))"

lemma resume_move_ok:
  assumes inv: "sched_inv k"
  shows "\<exists>k'. resume_thread_move t k = Inr k' \<and> sched_inv k' \<and> sched_frame k k'
     \<and> current_thread k' = current_thread k
     \<and> (tstate (threads k) t \<in> {Blocked, Suspended, Started} \<longrightarrow>
        set (ready_queue k') = insert t (set (ready_queue k)) \<and> OfThread t \<notin> set (sleep_queue k'))
     \<and> (tstate (threads k) t \<notin> {Blocked, Suspended, Started} \<longrightarrow> ready_queue k' = ready_queue k)
     \<and> set (blocked_list k') = set (blocked_list k) - {t} \<and> set (suspended_list k') = set (suspended_list k) - {t}
     \<and> set (sleep_queue k') = set (sleep_queue k) - {OfThread t} \<and> suspendables k' = suspendables k
     \<and> alarm k' = alarm k \<and> waits k' = waits k
     \<and> pending_reschedule_kind k' = pending_reschedule_kind k
     \<and> evs_kept (tevents (threads k)) (tevents (threads k'))"
proof -
  have dist: "distinct (sleep_queue k)" "distinct (blocked_list k)" "distinct (suspended_list k)"
    using inv by (simp_all add: sched_inv_fl_def sleeping_def placed_def)
  have asleep: "OfThread t \<in> set (sleep_queue k) \<Longrightarrow> tstate (threads k) t = Blocked"
    using sleeping_thread_blocked [OF inv] inv_states(2) [OF inv] by blast
  have bl: "tstate (threads k) t \<noteq> Blocked \<Longrightarrow> set (blocked_list k) - {t} = set (blocked_list k)"
    "tstate (threads k) t \<noteq> Blocked \<Longrightarrow> set (sleep_queue k) - {OfThread t} = set (sleep_queue k)"
    "tstate (threads k) t \<noteq> Suspended \<Longrightarrow> set (suspended_list k) - {t} = set (suspended_list k)"
    using inv_states(2,3) [OF inv, of t] asleep by auto
  show ?thesis
  proof (cases "tstate (threads k) t")
    case Blocked
    then have "t \<in> set (blocked_list k)" using inv_states(2) [OF inv] by simp
    from resume_move_Blocked [OF inv this] dist Blocked bl(3) show ?thesis by auto
  next
    case Suspended
    then have "t \<in> set (suspended_list k)" using inv_states(3) [OF inv] by simp
    from resume_move_Suspended [OF inv this] asleep dist(3) Suspended bl show ?thesis by auto
  next
    case Started
    from resume_move_Started [OF inv this] asleep Started bl show ?thesis by auto
  qed (use inv bl in \<open>simp_all add: resume_thread_move_def view_folds\<close>)
qed

lemma resume_thread_ok:
  assumes "sched_inv k"
  shows "\<exists>k'. resume_thread_raw t k = Inr k' \<and> resumed t k k'"
proof -
  obtain k1 where k1: "resume_thread_move t k = Inr k1" "sched_inv k1" "sched_frame k k1"
    "current_thread k1 = current_thread k"
    "tstate (threads k) t \<in> {Blocked, Suspended, Started} \<longrightarrow>
        set (ready_queue k1) = insert t (set (ready_queue k)) \<and> OfThread t \<notin> set (sleep_queue k1)"
    "tstate (threads k) t \<notin> {Blocked, Suspended, Started} \<longrightarrow> ready_queue k1 = ready_queue k"
    "set (blocked_list k1) = set (blocked_list k) - {t}" "set (suspended_list k1) = set (suspended_list k) - {t}"
    "set (sleep_queue k1) = set (sleep_queue k) - {OfThread t}" "suspendables k1 = suspendables k"
    "alarm k1 = alarm k" "waits k1 = waits k"
    "pending_reschedule_kind k1 = pending_reschedule_kind k"
    "evs_kept (tevents (threads k)) (tevents (threads k1))"
    using resume_move_ok [OF assms, of t] by (elim exE conjE) (rule that)
  have pre: "resume_preempts t (set_pending_reschedule x k1) = resume_preempts t k1" for x
    by (simp add: resume_preempts_def set_pending_reschedule_def locks_priority_ceiling_def
        split: option.split)
  show ?thesis
  proof (cases "resume_preempts t k1")
    case True
    let ?k = "set_pending_reschedule RESCHEDULE_KIND_YIELD_TO_HIGHER k1"
    have "sched_inv ?k = sched_inv k1" "sched_frame k ?k = sched_frame k k1" "waits ?k = waits k1"
      by (simp_all add: set_pending_reschedule_def sched_frame_def waits_def)
    moreover have "resume_thread_raw t k = Inr ?k" using k1(1) True by (simp add: resume_thread_raw_def)
    ultimately show ?thesis
      using k1(2-) True pre by (intro exI [of _ ?k]) (simp add: resumed_def, simp add: set_pending_reschedule_def)
  next
    case False
    then have "resume_thread_raw t k = Inr k1" using k1(1) by (simp add: resume_thread_raw_def)
    then show ?thesis using k1(2-) False by (simp add: resumed_def)
  qed
qed


section \<open>Giving up the processor\<close>

text \<open>
  The thread that runs after the current one has given up the processor: a ready thread of the
  highest priority if that is above the ceiling of the held locks, the idle thread if not.
\<close>

definition next_chosen :: "kernel \<Rightarrow> kernel \<Rightarrow> bool" where
  "next_chosen k k' \<longleftrightarrow>
     (let ceiling = unwrap_or_default (locks_priority_ceiling k) PRIORITY_MIN in
      current_thread k' \<in> set (ready_queue k) \<and> ceiling < tprio (threads k) (current_thread k')
        \<and> (\<forall>t \<in> set (ready_queue k). tprio (threads k) t \<le> tprio (threads k) (current_thread k'))
    \<or> current_thread k' = idle_thread k
        \<and> (\<forall>t \<in> set (ready_queue k). tprio (threads k) t \<le> ceiling))"

definition blocked_on :: "u64 option \<Rightarrow> kernel \<Rightarrow> kernel \<Rightarrow> bool" where
  "blocked_on dl k k' \<longleftrightarrow>
     sched_inv k' \<and> sched_frame k k' \<and> next_chosen k k'
   \<and> set (blocked_list k') = insert (current_thread k) (set (blocked_list k))
   \<and> suspended_list k' = suspended_list k
   \<and> tstate (threads k') (current_thread k) = Blocked
   \<and> deadline (suspendables k' (OfThread (current_thread k))) = deadline_opt dl
   \<and> set (sleep_queue k') = set (sleep_queue k) \<union> (if dl = None then {} else {OfThread (current_thread k)})
   \<and> (\<forall>s. s \<noteq> OfThread (current_thread k) \<longrightarrow> deadline (suspendables k' s) = deadline (suspendables k s))
   \<and> alarm k' = (if dl = None then alarm k else next_alarm k')"

lemma gave_up_coreI: "gave_up k k' \<Longrightarrow> gave_up_core k k'"
  by (simp add: gave_up_def)

lemma block_after_give_up:
  assumes "gave_up_core k k1" and inv: "sched_inv k" and ni: "current_thread k \<noteq> idle_thread k"
  shows "\<exists>k'. block_thread (current_thread k) dl k1 = Inr k' \<and> blocked_on dl k k'"
proof -
  have g: "sched_inv_fl {current_thread k} k1" "sched_frame k k1"
    "tstate (threads k1) (current_thread k) \<noteq> Created"
    "current_thread k \<noteq> idle_thread k1"
    using assms by (auto simp: gave_up_core_def sched_frame_def)
  have "OfThread (current_thread k) \<notin> set (sleep_queue k)"
    using sleeping_thread_blocked [OF inv] inv_placed [OF inv] by (fastforce simp: placed_def)
  then have ns: "OfThread (current_thread k) \<notin> set (sleep_queue k1)"
    using assms(1) by (simp add: gave_up_core_def)
  from block_thread_ok [OF g(1,3,4) ns, of dl] obtain k' where
    "block_thread (current_thread k) dl k1 = Inr k'" "sched_inv k'" "sched_frame k1 k'"
    "current_thread k' = current_thread k1"
    "set (blocked_list k') = insert (current_thread k) (set (blocked_list k1))"
    "deadline (suspendables k' (OfThread (current_thread k))) = deadline_opt dl"
    "set (sleep_queue k') = set (sleep_queue k1) \<union> (if dl = None then {} else {OfThread (current_thread k)})"
    "suspended_list k' = suspended_list k1"
    "\<forall>s. s \<noteq> OfThread (current_thread k) \<longrightarrow> deadline (suspendables k' s) = deadline (suspendables k1 s)"
    "alarm k' = (if dl = None then alarm k1 else next_alarm k')"
    "tstate (threads k') = (tstate (threads k1))(current_thread k := Blocked)" by blast
  moreover from this have "next_chosen k k'"
    using assms(1) by (simp add: gave_up_core_def next_chosen_def Let_def)
  ultimately show ?thesis
    using assms(1) sched_frame_trans [OF g(2)] by (auto simp: blocked_on_def gave_up_core_def)
qed

lemma inv_current_not_idle:
  assumes "sched_inv k"
  shows "is_idle (current_thread k) k \<longleftrightarrow> current_thread k = idle_thread k"
  using inv_is_idle [OF assms, of "current_thread k"] inv_states(4) [OF assms, of "current_thread k"]
  by auto

lemma delay_thread_until_ok:
  assumes inv: "sched_inv k" and ni: "current_thread k \<noteq> idle_thread k" and alive: "canary_ok k"
  shows "\<exists>k'. delay_thread_until_raw time k = Inr k' \<and> blocked_on (Some time) k k'"
proof -
  obtain k1 where k1: "(let (nxt, k1) = pop_ready_above k in switch_thread nxt k1) = Inr (current_thread k, k1)"
    "gave_up k k1" using give_up_ok [OF assms] by blast
  then have "delay_thread_until_raw time k = block_thread (current_thread k) (Some time) k1"
    using inv_current_not_idle [OF inv] ni by (simp add: delay_thread_until_raw_def split: prod.splits)
  with block_after_give_up [OF gave_up_coreI [OF k1(2)] inv ni] show ?thesis by auto
qed

lemma wait_events_frame:
  assumes "sched_inv k"
  shows "sched_inv (upd_thread t (\<lambda>x. x\<lparr>events := es\<rparr>) k)"
    and "canary_ok (upd_thread t (\<lambda>x. x\<lparr>events := es\<rparr>) k) = canary_ok k"
    and "sched_frame k (upd_thread t (\<lambda>x. x\<lparr>events := es\<rparr>) k)"
    and "blocked_on dl (upd_thread t (\<lambda>x. x\<lparr>events := es\<rparr>) k) k' = blocked_on dl k k'"
proof -
  let ?k = "upd_thread t (\<lambda>x. x\<lparr>events := es\<rparr>) k"
  show "sched_inv ?k" using assms by simp
  show "canary_ok ?k = canary_ok k" by (simp add: canary_ok_def upd_thread_def)
  show "sched_frame k ?k" by (simp add: sched_frame_def upd_thread_def)
  have "lock_priority (((threads k)(t := (threads k t)\<lparr>events := es\<rparr>)) u) = lock_priority (threads k u)" for u
    by (simp add: lock_priority_def)
  then have "locks_priority_ceiling ?k = locks_priority_ceiling k"
    by (simp add: locks_priority_ceiling_def upd_thread_def del: fun_upd_apply split: option.split)
  then have "next_chosen ?k k' = next_chosen k k'"
    by (simp add: next_chosen_def) (simp add: upd_thread_def)
  then show "blocked_on dl ?k k' = blocked_on dl k k'"
    by (simp add: blocked_on_def sched_frame_def) (simp add: upd_thread_def)
qed

lemma wait_event_ok:
  assumes inv: "sched_inv k" and ni: "current_thread k \<noteq> idle_thread k" and alive: "canary_ok k"
    and prep: "wait_event_prepare evs (events (threads k (current_thread k))) = ((received, blocks), es)"
  shows "\<exists>k'. wait_current_thread_event evs dl k = Inr (received, k')
     \<and> (if blocks then blocked_on dl k k'
        else k' = upd_thread (current_thread k) (\<lambda>x. x\<lparr>events := es\<rparr>) k)"
proof -
  let ?k = "upd_thread (current_thread k) (\<lambda>x. x\<lparr>events := es\<rparr>) k"
  note fr = wait_events_frame [OF inv, where t = "current_thread k" and es = es]
  have c: "current_thread ?k = current_thread k" "idle_thread ?k = idle_thread k"
    by (simp_all add: upd_thread_def)
  show ?thesis
  proof (cases blocks)
    case True
    obtain k1 where k1: "(let (nxt, k1) = pop_ready_above ?k in switch_thread nxt k1) = Inr (current_thread k, k1)"
      "gave_up ?k k1" using give_up_ok [OF fr(1)] ni alive fr(2) c by auto
    from block_after_give_up [OF gave_up_coreI [OF k1(2)] fr(1), of dl] c ni obtain k'
      where k': "block_thread (current_thread k) dl k1 = Inr k'" "blocked_on dl ?k k'" by auto
    have "wait_current_thread_event evs dl k = Inr (received, k')"
      using inv_current_not_idle [OF inv] ni prep True k1(1) k'(1)
      by (simp add: wait_current_thread_event_def split: prod.splits)
    with k'(2) fr(4) True show ?thesis by simp
  next
    case False
    then show ?thesis using inv_current_not_idle [OF inv] ni prep
      by (simp add: wait_current_thread_event_def)
  qed
qed

text \<open>The event sets: only the waiting thread's own set changes in a wait.\<close>

lemma switch_thread_events: "switch_thread t k = Inr (p, k') \<Longrightarrow> tevents (threads k') = tevents (threads k)"
  by (auto simp: switch_thread_def Let_def bind_res_eq_Inr set_state_events)

lemma pop_ready_above_events: "pop_ready_above k = (t, k') \<Longrightarrow> threads k' = threads k"
  by (cases rule: pop_ready_above_cases [of k]) auto

lemma block_thread_events:
  assumes "block_thread t dl k = Inr k'"
  shows "tevents (threads k') = tevents (threads k)"
proof -
  have "insert_to_wakeup_queue t k1 = Inr k2 \<Longrightarrow> tevents (threads k2) = tevents (threads k1)" for k1 k2
    by (auto simp: insert_to_wakeup_queue_def insert_to_sleep_queue_def Let_def bind_res_eq_Inr set_state_events split: if_splits)
  moreover have "insert_to_blocked_queue t k1 = Inr k2 \<Longrightarrow> tevents (threads k2) = tevents (threads k1)" for k1 k2
    by (auto simp: insert_to_blocked_queue_def Let_def bind_res_eq_Inr set_state_events split: if_splits)
  moreover have "threads (set_deadline x d k1) = threads k1" "threads (reprogram_alarm k1) = threads k1" for x d k1
    by (simp_all add: kernel_upd_defs reprogram_alarm_eq)
  ultimately show ?thesis using assms by (auto simp: block_thread_def bind_res_eq_Inr split: option.splits)
qed

lemma wait_event_events:
  assumes "wait_current_thread_event evs dl k = Inr (r, k')"
    and "wait_event_prepare evs (events (threads k (current_thread k))) = (p, es)"
  shows "tevents (threads k') = (tevents (threads k))(current_thread k := es)"
proof -
  have "tevents (threads (upd_thread (current_thread k) (\<lambda>x. x\<lparr>events := es\<rparr>) k)) = (tevents (threads k))(current_thread k := es)"
    by (auto simp: tevents_def upd_thread_def)
  with assms show ?thesis
    by (auto simp: wait_current_thread_event_def Let_def bind_res_eq_Inr split: if_splits prod.splits
        dest!: pop_ready_above_events switch_thread_events block_thread_events)
qed


text \<open>Waiting in a queue.\<close>

lemma sched_inv_wait_link [simp]:
  "sched_inv_fl F (upd_suspendable s (\<lambda>x. x\<lparr>wait_link := w\<rparr>) k) = sched_inv_fl F k"
proof -
  let ?f = "(suspendables k)(s := (suspendables k s)\<lparr>wait_link := w\<rparr>)"
  have d: "deadline (?f q) = deadline (suspendables k q)" "kind (?f q) = kind (suspendables k q)" for q
    by simp_all
  have "sleeper_ok B (?f q) q = sleeper_ok B (suspendables k q) q" for B q
    by (cases q) (simp_all add: d del: fun_upd_apply)
  then show ?thesis
    by (simp add: sched_inv_fl_def sleeping_def identified_def upd_suspendable_def d del: fun_upd_apply)
qed

lemma set_ceiling_threshold_eq: "\<exists>th. set_ceiling_threshold c k = k\<lparr>interrupt_threshold := th\<rparr>"
  by (cases c) (auto simp: set_ceiling_threshold_def)

lemma i_raise_eq:
  "\<exists>is th. snd (i_raise_nesting_lock_priority i p k) = k\<lparr>interrupts := is, interrupt_threshold := th\<rparr>
     \<and> (\<forall>j. i_base_priority (is j) = i_base_priority (interrupts k j))"
proof -
  obtain c f where "snd (i_raise_nesting_lock_priority i p k) =
      set_ceiling_threshold c (upd_interrupt i (\<lambda>x. x\<lparr>i_lock_priorities := f\<rparr>) k)"
    by (simp add: i_raise_nesting_lock_priority_def Let_def)
  moreover obtain th where "set_ceiling_threshold c (upd_interrupt i (\<lambda>x. x\<lparr>i_lock_priorities := f\<rparr>) k)
      = (upd_interrupt i (\<lambda>x. x\<lparr>i_lock_priorities := f\<rparr>) k)\<lparr>interrupt_threshold := th\<rparr>"
    using set_ceiling_threshold_eq by blast
  ultimately show ?thesis
    by (intro exI [of _ "(interrupts k)(i := (interrupts k i)\<lparr>i_lock_priorities := f\<rparr>)"] exI [of _ th])
      (simp add: upd_interrupt_def)
qed

lemma i_set_eq:
  "\<exists>is th. i_set_nesting_lock_priority i p k = k\<lparr>interrupts := is, interrupt_threshold := th\<rparr>"
proof -
  obtain c f where "i_set_nesting_lock_priority i p k =
      set_ceiling_threshold c (upd_interrupt i (\<lambda>x. x\<lparr>i_lock_priorities := f\<rparr>) k)"
    by (simp add: i_set_nesting_lock_priority_def Let_def)
  moreover obtain th where "set_ceiling_threshold c (upd_interrupt i (\<lambda>x. x\<lparr>i_lock_priorities := f\<rparr>) k)
      = (upd_interrupt i (\<lambda>x. x\<lparr>i_lock_priorities := f\<rparr>) k)\<lparr>interrupt_threshold := th\<rparr>"
    using set_ceiling_threshold_eq by blast
  ultimately show ?thesis by (auto simp: upd_interrupt_def)
qed

lemma wait_current_thread_ok:
  assumes inv: "sched_inv k" and ni: "current_thread k \<noteq> idle_thread k" and alive: "canary_ok k"
    and icb: "current_interrupt k = Some i"
    and free: "wait_link (suspendables k (OfThread (current_thread k))) = None"
  shows "\<exists>k'. wait_current_thread w ceiling k = Inr k' \<and> blocked_on None k k'
     \<and> wait_queues k' = (wait_queues k)(w := insert_after
          (\<lambda>q. suspendable_priority k q \<ge> suspendable_priority k (OfThread (current_thread k)))
          (OfThread (current_thread k)) (wait_queues k w))"
proof -
  let ?c = "current_thread k" and ?s = "OfThread (current_thread k)"
  obtain k1 where k1: "(let (nxt, k1) = pop_ready_above k in switch_thread nxt k1) = Inr (?c, k1)"
    "gave_up k k1" using give_up_ok [OF inv ni alive] by blast
  obtain "is" th where k2: "snd (i_raise_nesting_lock_priority i ceiling k1) =
      k1\<lparr>interrupts := is, interrupt_threshold := th\<rparr>"
    and base: "\<forall>j. i_base_priority (is j) = i_base_priority (interrupts k1 j)"
    using i_raise_eq by blast
  let ?k2 = "k1\<lparr>interrupts := is, interrupt_threshold := th\<rparr>"
  obtain p where pr: "i_raise_nesting_lock_priority i ceiling k1 = (p, ?k2)"
    using k2 by (cases "i_raise_nesting_lock_priority i ceiling k1") auto
  let ?xs = "insert_after (\<lambda>q. suspendable_priority k q \<ge> suspendable_priority k ?s) ?s (wait_queues k w)"
  let ?k3 = "upd_suspendable ?s (\<lambda>x. x\<lparr>wait_link := Some w\<rparr>) (?k2\<lparr>wait_queues := (wait_queues k)(w := ?xs)\<rparr>)"
  have sp: "suspendable_priority ?k2 = suspendable_priority k"
  proof
    fix q
    have "suspendable_priority ?k2 q = suspendable_priority k1 q"
      using base by (simp add: suspendable_priority_def split: suspendable_kind.split)
    then show "suspendable_priority ?k2 q = suspendable_priority k q"
      using k1(2) by (simp add: gave_up_def)
  qed
  have ins: "insert_to_wait_queue w ?s ?k2 = Inr ?k3"
    using k1(2) free by (simp add: insert_to_wait_queue_def c_insert_after_def sp) (simp add: gave_up_def)
  obtain is' th' where k4: "i_set_nesting_lock_priority i p ?k3 =
      ?k3\<lparr>interrupts := is', interrupt_threshold := th'\<rparr>" using i_set_eq by blast
  let ?k4 = "?k3\<lparr>interrupts := is', interrupt_threshold := th'\<rparr>"
  have core: "gave_up_core k ?k4"
    using gave_up_coreI [OF k1(2)] by (simp add: gave_up_core_def sched_frame_def)
      (simp add: upd_suspendable_def)
  obtain k' where k': "block_thread ?c None ?k4 = Inr k'" "blocked_on None k k'"
    using block_after_give_up [OF core inv ni] by blast
  have wq: "wait_queues k' = wait_queues ?k4"
    using k'(1) by (auto simp: block_thread_def insert_to_blocked_queue_def Let_def bind_res_eq_Inr
        kernel_upd_defs split: if_splits)
  have "wait_current_thread w ceiling k = Inr k'"
    using inv_current_not_idle [OF inv] ni k1 icb pr ins k4 k'(1)
    by (simp add: wait_current_thread_def gave_up_def split: prod.splits)
  with k'(2) wq show ?thesis by (simp add: upd_suspendable_def)
qed


section \<open>Suspending\<close>

definition suspended_after :: "tptr \<Rightarrow> kernel \<Rightarrow> kernel \<Rightarrow> bool" where
  "suspended_after t k k' \<longleftrightarrow>
     sched_inv k' \<and> sched_frame k k' \<and> suspended_list k' = suspended_list k @ [t]
   \<and> t \<notin> set (ready_queue k') \<and> blocked_list k' = blocked_list k
   \<and> sleep_queue k' = sleep_queue k \<and> alarm k' = alarm k
   \<and> (\<forall>s. deadline (suspendables k' s) = deadline (suspendables k s))"

lemma suspend_float_ok:
  assumes inv: "sched_inv_fl {t} k" and st: "tstate (threads k) t \<noteq> Created"
    and ni: "t \<noteq> idle_thread k" and ns: "OfThread t \<notin> set (sleep_queue k)"
  shows "\<exists>k'. insert_to_suspended_list t k = Inr k' \<and> suspended_after t k k'
     \<and> current_thread k' = current_thread k"
proof -
  have "t \<notin> set (ready_queue k)" using inv_placed [OF inv] by (auto simp: placed_def)
  then have "suspended_after t k (suspended_inserted t k)"
    using suspended_inserted_inv [OF assms]
    by (simp add: suspended_after_def) (simp add: suspended_inserted_def Let_def kernel_upd_defs sched_frame_def)
  with insert_to_suspended_list_eq [OF inv st ni] show ?thesis
    by (simp add: suspended_inserted_def Let_def kernel_upd_defs)
qed

lemma suspend_Ready:
  assumes inv: "sched_inv k" and t: "t \<in> set (ready_queue k)"
  shows "\<exists>k'. suspend_thread_raw (Some t) k = Inr k' \<and> suspended_after t k k'
     \<and> current_thread k' = current_thread k"
proof -
  let ?k = "k\<lparr>ready_queue := remove1 t (ready_queue k)\<rparr>"
  have st: "tstate (threads k) t = Ready" using inv_states(1) [OF inv] t by blast
  have ni: "t \<noteq> idle_thread k" using inv_idle_unlisted [OF inv] t by auto
  have ns: "OfThread t \<notin> set (sleep_queue k)"
    using sleeping_thread_blocked [OF inv, of t] inv_placed [OF inv] t by (auto simp: placed_def)
  have "suspend_thread_raw (Some t) k = insert_to_suspended_list t ?k"
    using st t by (simp add: suspend_thread_raw_def view_folds c_remove_def)
  moreover obtain k' where "insert_to_suspended_list t ?k = Inr k'" "suspended_after t ?k k'"
    "current_thread k' = current_thread ?k"
    using suspend_float_ok [OF float_ready [OF inv t]] st ni ns by auto
  ultimately show ?thesis by (simp add: suspended_after_def sched_frame_def)
qed

lemma suspend_Running:
  assumes inv: "sched_inv k" and ni: "current_thread k \<noteq> idle_thread k" and alive: "canary_ok k"
    and m: "m = None \<or> m = Some (current_thread k)"
  shows "\<exists>k'. suspend_thread_raw m k = Inr k' \<and> suspended_after (current_thread k) k k' \<and> next_chosen k k'"
proof -
  let ?c = "current_thread k"
  have st: "tstate (threads k) ?c = Running" using inv_states(4) [OF inv] by simp
  obtain k1 where k1: "(let (nxt, k1) = pop_ready_above k in switch_thread nxt k1) = Inr (?c, k1)"
    "gave_up k k1" using give_up_ok [OF inv ni alive] by blast
  have g: "sched_inv_fl {?c} k1" "tstate (threads k1) ?c \<noteq> Created" "?c \<noteq> idle_thread k1"
    using k1(2) ni by (auto simp: gave_up_def gave_up_core_def sched_frame_def)
  have "OfThread ?c \<notin> set (sleep_queue k)"
    using sleeping_thread_blocked [OF inv] inv_placed [OF inv] by (fastforce simp: placed_def)
  then have ns: "OfThread ?c \<notin> set (sleep_queue k1)" using k1(2) by (simp add: gave_up_def gave_up_core_def)
  obtain k' where k': "insert_to_suspended_list ?c k1 = Inr k'" "suspended_after ?c k1 k'"
    "current_thread k' = current_thread k1" using suspend_float_ok [OF g ns] by blast
  have "suspend_thread_raw m k = Inr k'"
    using m st k1(1) k'(1) by (auto simp: suspend_thread_raw_def view_folds split: prod.splits)
  moreover have "suspended_after ?c k k' \<and> next_chosen k k'"
    using k'(2,3) k1(2) by (auto simp: suspended_after_def gave_up_def gave_up_core_def next_chosen_def
        Let_def intro: sched_frame_trans)
  ultimately show ?thesis by blast
qed

lemma suspend_Started:
  assumes inv: "sched_inv k" and st: "tstate (threads k) t = Started"
  shows "\<exists>k'. suspend_thread_raw (Some t) k = Inr k' \<and> suspended_after t k k'
     \<and> current_thread k' = current_thread k"
proof -
  have ns: "OfThread t \<notin> set (sleep_queue k)"
    using sleeping_thread_blocked [OF inv, of t] inv_states(2) [OF inv, of t] st by auto
  have ni: "t \<noteq> idle_thread k" using inv_states [OF inv, of t] st by auto
  have "suspend_thread_raw (Some t) k = insert_to_suspended_list t k"
    using st by (simp add: suspend_thread_raw_def view_folds)
  then show ?thesis using suspend_float_ok [OF float_started [OF inv st] _ ni ns] st by simp
qed

lemma suspend_Blocked:
  assumes inv: "sched_inv k" and t: "t \<in> set (blocked_list k)"
  shows "suspend_thread_raw (Some t) k =
     Inl (Panic ''Cannot acquire a node that is already in a list'')"
proof -
  have st: "tstate (threads k) t = Blocked" using inv_states(2) [OF inv] t by simp
  have "\<not> is_idle t k" using inv_is_idle [OF inv] st inv_idle_unlisted [OF inv] t by auto
  then show ?thesis
    using st t by (simp add: suspend_thread_raw_def view_folds insert_to_suspended_list_def Let_def
        c_push_back_def exec_linked_def kernel_upd_defs is_idle_def)
qed

section \<open>The lock ceiling\<close>

lemma lock_ge_status_max:
  "lock_ge (status_max a b) a" "lock_ge (status_max a b) b"
  by (auto simp: lock_ge_def status_max_priority split: option.split)

lemma lock_ge_transD: "lock_ge a b \<Longrightarrow> lock_ge b c \<Longrightarrow> lock_ge a c"
  by (auto simp: lock_ge_def split: option.splits)

lemma status_max_cases: "status_max a b = a \<or> status_max a b = b"
  by (cases a; cases b) (auto simp: maxu8_max max_def)

lemma ceiling_is_max:
  assumes "sched_inv k"
  shows "(\<forall>t \<in> insert (current_thread k) (set (blocked_list k)).
       lock_ge (locks_priority_ceiling k) (tlock (threads k) t))
     \<and> (\<exists>t \<in> insert (current_thread k) (set (blocked_list k)).
       locks_priority_ceiling k = tlock (threads k) t)"
proof (cases "blocked_list k")
  case Nil
  have "lock_ge x x" for x by (auto simp: lock_ge_def split: option.split)
  with Nil show ?thesis by (simp add: locks_priority_ceiling_def view_folds)
next
  case (Cons b bs)
  let ?l = "tlock (threads k)"
  have eq: "locks_priority_ceiling k = status_max (?l b) (?l (current_thread k))"
    using Cons by (simp add: locks_priority_ceiling_def view_folds)
  have "\<forall>t \<in> set bs. lock_ge (?l b) (?l t)"
    using assms Cons by (simp add: sched_inv_fl_def ordered_def)
  then have "\<forall>t \<in> insert (current_thread k) (set (blocked_list k)). lock_ge (locks_priority_ceiling k) (?l t)"
    using Cons eq lock_ge_status_max lock_ge_transD by fastforce
  moreover have "locks_priority_ceiling k = ?l b \<or> locks_priority_ceiling k = ?l (current_thread k)"
    using eq status_max_cases by metis
  ultimately show ?thesis using Cons by auto
qed


section \<open>Due sleepers\<close>

lemma due_prefix:
  assumes "sorted_wrt (\<lambda>a b. deadline_le (deadline (suspendables k a)) (deadline (suspendables k b))) xs"
    and "\<forall>s \<in> set xs. deadline (suspendables k s) \<noteq> None"
  shows "\<forall>s \<in> set (dropWhile (is_due now k) xs). \<not> is_due now k s"
  using assms
proof (induction xs)
  case (Cons x xs)
  show ?case
  proof (cases "is_due now k x")
    case True
    with Cons show ?thesis by simp
  next
    case False
    then obtain d where d: "deadline (suspendables k x) = Some d" "now < tick d"
      by (auto simp: is_due_def split: option.splits)
    have "\<not> is_due now k y" if "y \<in> set xs" for y
    proof -
      from that Cons.prems d(1) obtain e where e: "deadline (suspendables k y) = Some e"
        "instant_le d e" by fastforce
      then show ?thesis using d(2) by (simp add: is_due_def instant_le_def)
    qed
    with False show ?thesis by simp
  qed
qed simp

lemma inv_sleep_sorted:
  assumes "sched_inv k"
  shows "sorted_wrt (\<lambda>a b. deadline_le (deadline (suspendables k a)) (deadline (suspendables k b)))
       (sleep_queue k)"
    and "\<forall>s \<in> set (sleep_queue k). deadline (suspendables k s) \<noteq> None"
proof -
  show "sorted_wrt (\<lambda>a b. deadline_le (deadline (suspendables k a)) (deadline (suspendables k b)))
       (sleep_queue k)" using assms by (simp add: sched_inv_fl_def sleeping_def)
  have "sleeper_ok B x s \<Longrightarrow> deadline x \<noteq> None" for B x s by (cases s) auto
  then show "\<forall>s \<in> set (sleep_queue k). deadline (suspendables k s) \<noteq> None"
    using assms by (auto simp: sched_inv_fl_def sleeping_def)
qed

lemma no_due_left:
  assumes "sched_inv k" and "rescheduled now k k'"
  shows "\<forall>s \<in> set (sleep_queue k'). \<not> is_due now k' s"
proof -
  have "is_due now k' = is_due now k" using assms(2) by (intro is_due_cong) (simp add: rescheduled_def)
  with due_prefix [OF inv_sleep_sorted [OF assms(1)], of now] assms(2) show ?thesis
    by (simp add: rescheduled_def)
qed

lemma due_threads_eq:
  assumes "sched_inv k"
  shows "due_threads now k = {t. OfThread t \<in> set (sleep_queue k) \<and> is_due now k (OfThread t)}"
proof -
  let ?P = "is_due now k" and ?xs = "sleep_queue k"
  have "set ?xs = set (takeWhile ?P ?xs) \<union> set (dropWhile ?P ?xs)"
    by (metis set_append takeWhile_dropWhile_id)
  then show ?thesis
    using due_prefix [OF inv_sleep_sorted [OF assms], of now]
    by (auto simp: due_threads_def dest: set_takeWhileD)
qed

lemma max_valid_less_iff:
  "max_valid p s < q \<longleftrightarrow> p < q \<and> (\<forall>x. status_priority s = Some x \<longrightarrow> x < q)"
  by (auto simp: max_valid_priority split: option.split)

text \<open>A resumed thread preempts when it is above the running thread and every lock that holds it off.\<close>

lemma resume_preempts_iff:
  assumes "sched_inv k"
  shows "resume_preempts t k \<longleftrightarrow> tprio (threads k) (current_thread k) < tprio (threads k) t
     \<and> (\<forall>u \<in> insert (current_thread k) (set (blocked_list k)). \<forall>p.
          status_priority (tlock (threads k) u) = Some p \<longrightarrow> p < tprio (threads k) t)"
proof -
  let ?U = "insert (current_thread k) (set (blocked_list k))" and ?c = "locks_priority_ceiling k"
  have up: "\<exists>c. status_priority ?c = Some c \<and> p \<le> c"
    if "u \<in> ?U" "status_priority (tlock (threads k) u) = Some p" for u p
    using ceiling_is_max [OF assms] that by (fastforce simp: lock_ge_def split: option.splits)
  obtain v where v: "v \<in> ?U" "?c = tlock (threads k) v" using ceiling_is_max [OF assms] by blast
  have "(\<forall>x. status_priority ?c = Some x \<longrightarrow> x < q) \<longleftrightarrow>
      (\<forall>u \<in> ?U. \<forall>p. status_priority (tlock (threads k) u) = Some p \<longrightarrow> p < q)" for q
  proof (intro iffI ballI allI impI)
    fix u p assume "\<forall>x. status_priority ?c = Some x \<longrightarrow> x < q" "u \<in> ?U" "status_priority (tlock (threads k) u) = Some p"
    then show "p < q" using up by (meson order_le_less_trans)
  next
    fix x assume "\<forall>u \<in> ?U. \<forall>p. status_priority (tlock (threads k) u) = Some p \<longrightarrow> p < q" "status_priority ?c = Some x"
    then show "x < q" using v(1) unfolding v(2) by blast
  qed
  then show ?thesis by (simp add: resume_preempts_def view_folds max_valid_less_iff)
qed

section \<open>A sample kernel\<close>

text \<open>
  A state with an idle thread (0), a running thread (1), a ready thread (2), a thread that is
  blocked with a deadline and holds a lock of ceiling 9 (3), and a suspended thread (4).
\<close>

definition sample_thread :: "u32 \<Rightarrow> u8 \<Rightarrow> exec_state \<Rightarrow> raw_thread" where
  "sample_thread i p st = (raw_thread_new ''t'' (Thread p) 0)
     \<lparr>thread_id := i, state := st,
      stack := Some \<lparr>canary = [0x55, 0x55], stack_len = 64, element_size = 16\<rparr>\<rparr>"

definition sample_kernel :: kernel where
  "sample_kernel =
     \<lparr>threads = (\<lambda>_. raw_thread_new ''none'' (Thread 0) 0)
        (0 := sample_thread 1 0 Ready, 1 := sample_thread 2 3 Running, 2 := sample_thread 3 2 Ready,
         3 := (sample_thread 4 5 Blocked)\<lparr>lock_priorities := (SInvalid, SThread 9), scoped_locks := [0]\<rparr>,
         4 := sample_thread 5 7 Suspended),
      interrupts = \<lambda>i. raw_interrupt_new 0 (Interrupt 0), 
      locks = (\<lambda>l. ceiling_lock_new (Thread 9))
        (0 := (ceiling_lock_new (Thread 9))\<lparr>owner := Some (PThread 3), lock_list_link := Some (PThread 3)\<rparr>),
      suspendables = \<lambda>s. (case s of OfThread t \<Rightarrow> (suspendable_new_thread t)
          \<lparr>deadline := (if t = 3 then Some \<lparr>tick = 100\<rparr> else None)\<rparr>
        | OfInterrupt i \<Rightarrow> suspendable_new_interrupt i
        | OfTask _ \<Rightarrow> suspendable_new),
      wait_queues = \<lambda>_. [], ready_queue = [2], blocked_list = [3], suspended_list = [4],
      sleep_queue = [OfThread 3], idle_thread = 0, current_thread = 1,
      pending_resume = aq_new, pending_sleep = aq_new, pending_reschedule_kind = 0,
      raw_borrowed = False, preempt_lock = None, current_interrupt = Some 0,
      pending_executor_polls = aq_new, alarm = Some 100,
      interrupt_threshold = 0, thread_context = None\<rparr>"

lemma sample_states:
  "tstate (threads sample_kernel) t =
     (if t = 0 \<or> t = 2 then Ready else if t = 1 then Running else if t = 3 then Blocked
      else if t = 4 then Suspended else Created)"
  by (simp add: tstate_def sample_kernel_def sample_thread_def raw_thread_new_def)

lemma sample_kernel_inv: "sched_inv sample_kernel"
proof -
  let ?k = sample_kernel
  have lists: "ready_queue ?k = [2]" "blocked_list ?k = [3]" "suspended_list ?k = [4]"
    "sleep_queue ?k = [OfThread 3]" "idle_thread ?k = 0" "current_thread ?k = 1"
    by (simp_all add: sample_kernel_def)
  have "placed {} (tstate (threads ?k)) [2] [3] [4] 0 1"
    by (auto simp: placed_def sample_states split: if_splits)
  moreover have "ordered (tprio (threads ?k)) (tlock (threads ?k)) [2] [3]"
    by (simp add: ordered_def)
  moreover have "sleeping {} (suspendables ?k) [3] [OfThread 3]"
    by (simp add: sleeping_def sample_kernel_def suspendable_new_thread_def)
  moreover have "identified (tstate (threads ?k)) (tid (threads ?k)) (tstack (threads ?k)) (suspendables ?k) 0"
  proof -
    have live: "{t. tstate (threads ?k) t \<noteq> Created} = {0, 1, 2, 3, 4}"
      by (auto simp: sample_states split: if_splits)
    have inj: "inj_on (tid (threads ?k)) {0, 1, 2, 3, 4}"
      by (simp add: tid_def sample_kernel_def sample_thread_def)
    have stk: "\<forall>t \<in> {0, 1, 2, 3, 4}. tstack (threads ?k) t \<noteq> None"
      by (simp add: tstack_def sample_kernel_def sample_thread_def)
    have kd: "kind (suspendables ?k (OfThread t)) = KThread t" for t
      by (simp add: sample_kernel_def suspendable_new_thread_def)
    show ?thesis unfolding identified_def live
    proof (intro conjI allI impI)
      fix t assume "tstate (threads ?k) t \<noteq> Created"
      then have "t \<in> {0, 1, 2, 3, 4}" using live by (metis mem_Collect_eq)
      then show "tstack (threads ?k) t \<noteq> None" by (rule bspec [OF stk])
    qed (use inj kd in \<open>simp_all add: sample_states\<close>)
  qed
  ultimately show ?thesis by (simp add: sched_inv_fl_def lists)
qed

lemma sample_kernel_facts:
  "canary_ok sample_kernel" "threads_only sample_kernel"
  "current_thread sample_kernel = 1" "idle_thread sample_kernel = 0"
  "ready_queue sample_kernel = [2]" "blocked_list sample_kernel = [3]"
  "suspended_list sample_kernel = [4]" "sleep_queue sample_kernel = [OfThread 3]"
  "current_interrupt sample_kernel = Some 0"
  "wait_link (suspendables sample_kernel (OfThread 1)) = None"
  by (simp_all add: sample_kernel_def canary_ok_def tstack_def sample_thread_def is_alive_def
      CANARY_BYTE_def threads_only_def suspendable_new_thread_def)


section \<open>Properties\<close>

text \<open>
  Claim C4. Rescheduling is correct. From a state that satisfies the scheduler invariant, with an
  intact stack canary, a request to yield and only threads asleep, \<open>reschedule\<close> returns; it keeps
  the invariant; afterwards no ready thread has a higher priority than the running one, no thread
  whose deadline has passed is asleep or blocked, the alarm is programmed for the first deadline
  left, and the threads that are ready or running are exactly those before and the woken ones.
\<close>

theorem reschedule_correct:
  assumes "sched_inv k" and "rkind AND 3 \<noteq> 0" and "canary_ok k" and "threads_only k"
  shows "\<exists>k'. reschedule wk now rkind k = Inr k' \<and> sched_inv k'
     \<and> (\<forall>t \<in> set (ready_queue k').
          priority (threads k' t) \<le> priority (threads k' (current_thread k')))
     \<and> (\<forall>s \<in> set (sleep_queue k'). \<not> is_due now k' s)
     \<and> alarm k' = next_alarm k'
     \<and> {idle_thread k, current_thread k'} \<union> set (ready_queue k') =
         {idle_thread k, current_thread k} \<union> set (ready_queue k)
           \<union> {t. OfThread t \<in> set (sleep_queue k) \<and> is_due now k (OfThread t)}
     \<and> set (blocked_list k') =
         set (blocked_list k) - {t. OfThread t \<in> set (sleep_queue k) \<and> is_due now k (OfThread t)}"
proof -
  obtain k' where k': "reschedule wk now rkind k = Inr k'" "rescheduled now k k'"
    using reschedule_ok [OF assms(1-3), of wk now] assms(4) by blast
  with no_due_left [OF assms(1) k'(2)] show ?thesis
    unfolding due_threads_eq [OF assms(1), of now, symmetric]
    by (simp add: rescheduled_def tprio_def)
qed

theorem reschedule_correct_witness:
  "\<exists>k'. reschedule (\<lambda>_. Inr) 200 RESCHEDULE_KIND_YIELD_TO_HIGHER sample_kernel = Inr k'
     \<and> sched_inv k' \<and> (\<forall>s \<in> set (sleep_queue k'). \<not> is_due 200 k' s)"
proof -
  have "RESCHEDULE_KIND_YIELD_TO_HIGHER AND 3 \<noteq> 0"
    by (simp add: RESCHEDULE_KIND_YIELD_TO_HIGHER_def)
  from reschedule_correct [OF sample_kernel_inv this sample_kernel_facts(1,2), of "\<lambda>_. Inr" 200]
  show ?thesis by blast
qed

text \<open>
  Claim C5. Resuming a thread keeps the invariant and never fails: a thread that was blocked,
  suspended or started is ready afterwards and no longer asleep, other states are left alone, and
  a reschedule is requested exactly when the thread's priority is above that of the running thread
  and above the priority of every lock that the running thread or another blocked thread holds.
\<close>

theorem resume_correct:
  assumes "sched_inv k"
  shows "\<exists>k'. resume_thread_raw t k = Inr k' \<and> sched_inv k'
     \<and> current_thread k' = current_thread k
     \<and> (state (threads k t) \<in> {Blocked, Suspended, Started} \<longrightarrow>
          set (ready_queue k') = insert t (set (ready_queue k)) \<and> OfThread t \<notin> set (sleep_queue k'))
     \<and> (state (threads k t) \<notin> {Blocked, Suspended, Started} \<longrightarrow> ready_queue k' = ready_queue k)
     \<and> pending_reschedule_kind k' =
         (if priority (threads k (current_thread k)) < priority (threads k t)
             \<and> (\<forall>u \<in> insert (current_thread k) (set (blocked_list k) - {t}). \<forall>p.
                  status_priority (lock_priority (threads k u)) = Some p \<longrightarrow> p < priority (threads k t))
          then pending_reschedule_kind k OR RESCHEDULE_KIND_YIELD_TO_HIGHER
          else pending_reschedule_kind k)"
proof -
  obtain k' where k': "resume_thread_raw t k = Inr k'" and r: "resumed t k k'"
    using resume_thread_ok [OF assms, of t] by blast
  have "tprio (threads k') = tprio (threads k)" "tlock (threads k') = tlock (threads k)"
    "current_thread k' = current_thread k" "set (blocked_list k') = set (blocked_list k) - {t}" "sched_inv k'"
    using r by (simp_all add: resumed_def sched_frame_def)
  then have "resume_preempts t k' \<longleftrightarrow> tprio (threads k) (current_thread k) < tprio (threads k) t
      \<and> (\<forall>u \<in> insert (current_thread k) (set (blocked_list k) - {t}). \<forall>p.
           status_priority (tlock (threads k) u) = Some p \<longrightarrow> p < tprio (threads k) t)"
    using resume_preempts_iff [of k' t] by simp
  with r k' show ?thesis unfolding resumed_def view_folds by (intro exI [of _ k']) simp
qed

text \<open>
  Thread 4, suspended, is above the running thread but below the lock of priority 9 that the
  blocked thread 3 holds, and requests no reschedule; when thread 3 itself is resumed, its lock
  does not count and it does.
\<close>

theorem resume_correct_witness:
  "(\<exists>k'. resume_thread_raw 3 sample_kernel = Inr k' \<and> set (ready_queue k') = {2, 3}
     \<and> OfThread 3 \<notin> set (sleep_queue k') \<and> pending_reschedule_kind k' = RESCHEDULE_KIND_YIELD_TO_HIGHER)
   \<and> (\<exists>k'. resume_thread_raw 4 sample_kernel = Inr k' \<and> set (ready_queue k') = {2, 4}
     \<and> pending_reschedule_kind k' = RESCHEDULE_KIND_NONE)"
proof -
  have st: "state (threads sample_kernel 3) = Blocked" "state (threads sample_kernel 4) = Suspended"
    using sample_states [of 3] sample_states [of 4] by (simp_all add: tstate_def)
  have pr: "priority (threads sample_kernel 1) = Thread 3" "lock_priority (threads sample_kernel 1) = SInvalid"
    "priority (threads sample_kernel 3) = Thread 9" "lock_priority (threads sample_kernel 3) = SThread 9"
    "priority (threads sample_kernel 4) = Thread 7" "pending_reschedule_kind sample_kernel = 0"
    by (simp_all add: sample_kernel_def sample_thread_def raw_thread_new_def priority_defs max_valid_priority)
  show ?thesis
    using resume_correct [OF sample_kernel_inv, of 3] resume_correct [OF sample_kernel_inv, of 4] st pr
    by (auto simp: sample_kernel_facts RESCHEDULE_KIND_NONE_def simp del: One_nat_def)
qed

text \<open>
  Claim C6. Giving up the processor to sleep: if the running thread is not the idle thread and its
  canary is intact, \<open>delay_thread_until\<close> returns in a state that satisfies the invariant, in which
  the thread is blocked and asleep with exactly the given deadline and the alarm is programmed for
  the first deadline. The thread that runs next is a ready thread of the highest priority if that
  priority is above the ceiling of the locks held, and the idle thread otherwise.
\<close>

theorem delay_correct:
  assumes "sched_inv k" and "current_thread k \<noteq> idle_thread k" and "canary_ok k"
  shows "\<exists>k'. delay_thread_until_raw time k = Inr k' \<and> sched_inv k' \<and> next_chosen k k'
     \<and> state (threads k' (current_thread k)) = Blocked
     \<and> deadline (suspendables k' (OfThread (current_thread k))) = Some \<lparr>tick = time\<rparr>
     \<and> set (sleep_queue k') = insert (OfThread (current_thread k)) (set (sleep_queue k))
     \<and> alarm k' = next_alarm k'"
  using delay_thread_until_ok [OF assms, of time]
  by (auto simp: blocked_on_def deadline_opt_def view_folds)

theorem delay_correct_witness:
  "\<exists>k'. delay_thread_until_raw 50 sample_kernel = Inr k' \<and> sched_inv k'
     \<and> set (sleep_queue k') = {OfThread 1, OfThread 3} \<and> alarm k' = next_alarm k'"
  using delay_correct [OF sample_kernel_inv _ sample_kernel_facts(1), of 50]
  by (auto simp: sample_kernel_facts)

text \<open>
  Claim C7. Waiting for events. The call takes the waited events that had been sent and returns
  them. The thread blocks exactly when one of the waited events was missing, whether or not the
  flag that requires all of them is set, or when nothing was received and the flag is not set; it is
  then blocked, with a wakeup at the deadline if there is one, and the next thread is chosen as for a
  delay. Otherwise it goes on running and only its event masks change. The mask it waits for is
  recorded in either case.
\<close>

theorem wait_event_correct:
  fixes k evs
  defines "sent \<equiv> sent_events_mask (events (threads k (current_thread k)))"
    and "waited \<equiv> evs AND NOT REQUIRE_ALL_EVENTS"
  assumes "sched_inv k" and "current_thread k \<noteq> idle_thread k" and "canary_ok k"
  shows "\<exists>k'. wait_current_thread_event evs dl k = Inr (sent AND waited, k') \<and> sched_inv k'
     \<and> events (threads k' (current_thread k)) = \<lparr>waited_events_mask = evs, sent_events_mask = sent AND NOT waited\<rparr>
     \<and> (if waited AND NOT sent \<noteq> 0 \<or> evs AND REQUIRE_ALL_EVENTS = 0 \<and> sent AND waited = 0
        then next_chosen k k' \<and> state (threads k' (current_thread k)) = Blocked
          \<and> deadline (suspendables k' (OfThread (current_thread k))) = deadline_opt dl
          \<and> (OfThread (current_thread k) \<in> set (sleep_queue k') \<longleftrightarrow> dl \<noteq> None)
        else k' = upd_thread (current_thread k)
               (\<lambda>x. x\<lparr>events := \<lparr>waited_events_mask = evs, sent_events_mask = sent AND NOT waited\<rparr>\<rparr>) k)"
proof -
  let ?t = "current_thread k" and ?es = "\<lparr>waited_events_mask = evs, sent_events_mask = sent AND NOT waited\<rparr>"
  let ?blocks = "waited AND NOT sent \<noteq> 0 \<or> evs AND REQUIRE_ALL_EVENTS = 0 \<and> sent AND waited = 0"
  have prep: "wait_event_prepare evs (events (threads k ?t)) = ((sent AND waited, ?blocks), ?es)"
    unfolding sent_def waited_def by (rule wait_event_prepare_masks)
  obtain k' where k': "wait_current_thread_event evs dl k = Inr (sent AND waited, k')"
    "if ?blocks then blocked_on dl k k' else k' = upd_thread ?t (\<lambda>x. x\<lparr>events := ?es\<rparr>) k"
    using wait_event_ok [OF assms(3-5) prep, of dl] by blast
  have ns: "OfThread ?t \<notin> set (sleep_queue k)"
    using sleeping_thread_blocked [OF assms(3)] inv_placed [OF assms(3)] by (fastforce simp: placed_def)
  have inv: "sched_inv k'" using k'(2) assms(3) by (cases ?blocks) (simp_all add: blocked_on_def)
  have ev: "events (threads k' ?t) = ?es"
    using wait_event_events [OF k'(1) prep] by (simp add: tevents_def fun_eq_iff)
  have "if ?blocks then next_chosen k k' \<and> state (threads k' ?t) = Blocked
          \<and> deadline (suspendables k' (OfThread ?t)) = deadline_opt dl
          \<and> (OfThread ?t \<in> set (sleep_queue k') \<longleftrightarrow> dl \<noteq> None)
        else k' = upd_thread ?t (\<lambda>x. x\<lparr>events := ?es\<rparr>) k"
  proof (cases ?blocks)
    case True
    then have "blocked_on dl k k'" using k'(2) by presburger
    with True ns show ?thesis by (simp add: blocked_on_def view_folds)
  qed (use k'(2) in presburger)
  with k'(1) inv ev show ?thesis by blast
qed

text \<open>Nothing was sent to thread 1: it blocks for event 1, and does not for the empty set of all events.\<close>

theorem wait_event_correct_witness:
  "(\<exists>k'. wait_current_thread_event 1 (Some 50) sample_kernel = Inr (0, k') \<and> state (threads k' 1) = Blocked
      \<and> OfThread 1 \<in> set (sleep_queue k'))
   \<and> (\<exists>k'. wait_current_thread_event REQUIRE_ALL_EVENTS None sample_kernel = Inr (0, k') \<and> current_thread k' = 1)"
proof -
  have "sent_events_mask (events (threads sample_kernel 1)) = 0"
    by (simp add: sample_kernel_def sample_thread_def raw_thread_new_def event_set_new_def)
  moreover have "(1 :: u32) AND NOT REQUIRE_ALL_EVENTS = 1" "REQUIRE_ALL_EVENTS \<noteq> 0"
    by (simp_all add: REQUIRE_ALL_EVENTS_def)
  ultimately show ?thesis
    using wait_event_correct [OF sample_kernel_inv _ sample_kernel_facts(1), of 1 "Some 50"]
      wait_event_correct [OF sample_kernel_inv _ sample_kernel_facts(1), of REQUIRE_ALL_EVENTS None]
    by (simp add: sample_kernel_facts del: One_nat_def) (auto simp: sample_kernel_facts upd_thread_def)
qed

text \<open>
  Claim C8. Waiting in a wait queue: called from the system call interrupt by a thread that is in
  no wait queue, the operation blocks the thread without a deadline and puts it into the queue
  behind every waiter of at least its base priority and before the others; the next thread is
  chosen as for a delay.
\<close>

theorem wait_queue_correct:
  assumes "sched_inv k" and "current_thread k \<noteq> idle_thread k" and "canary_ok k"
    and "current_interrupt k = Some i"
    and "wait_link (suspendables k (OfThread (current_thread k))) = None"
  shows "\<exists>k'. wait_current_thread w ceiling k = Inr k' \<and> sched_inv k' \<and> next_chosen k k'
     \<and> state (threads k' (current_thread k)) = Blocked
     \<and> (let higher = (\<lambda>q. suspendable_priority k (OfThread (current_thread k)) \<le> suspendable_priority k q)
        in wait_queues k' = (wait_queues k)(w := takeWhile higher (wait_queues k w)
             @ OfThread (current_thread k) # dropWhile higher (wait_queues k w)))"
  using wait_current_thread_ok [OF assms, of w ceiling]
  by (auto simp: blocked_on_def view_folds insert_after_takeWhile Let_def)

theorem wait_queue_correct_witness:
  "\<exists>k'. wait_current_thread 7 (Thread 9) sample_kernel = Inr k' \<and> wait_queues k' 7 = [OfThread 1]"
proof -
  have "wait_queues sample_kernel 7 = []" by (simp add: sample_kernel_def)
  with wait_queue_correct [OF sample_kernel_inv _ sample_kernel_facts(1,9), of 7 "Thread 9"]
  show ?thesis by (auto simp: sample_kernel_facts simp del: One_nat_def)
qed


text \<open>
  Suspending a thread, state by state: a ready or a started thread goes to the end of
  the suspended list; so does the running thread, and the next thread is chosen as for a delay; a
  suspended thread stays as it is; a thread that was only created, and the idle thread, cannot be
  suspended. A blocked thread cannot be suspended either: its link is still in the blocked list,
  so the insertion into the suspended list panics.
\<close>

theorem suspend_correct:
  assumes "sched_inv k"
  shows "(t \<in> set (ready_queue k) \<or> state (threads k t) = Started \<longrightarrow>
       (\<exists>k'. suspend_thread_raw (Some t) k = Inr k' \<and> sched_inv k'
          \<and> current_thread k' = current_thread k \<and> suspended_list k' = suspended_list k @ [t]))
   \<and> (t = current_thread k \<and> t \<noteq> idle_thread k \<and> canary_ok k \<longrightarrow>
       (\<exists>k'. suspend_thread_raw (Some t) k = Inr k' \<and> suspend_thread_raw None k = Inr k' \<and> sched_inv k'
          \<and> next_chosen k k' \<and> suspended_list k' = suspended_list k @ [t]))
   \<and> (state (threads k t) = Suspended \<longrightarrow> suspend_thread_raw (Some t) k = Inr k)
   \<and> (state (threads k t) = Created \<longrightarrow> suspend_thread_raw (Some t) k =
       Inl (Panic ''Cannot suspend a thread that has not been started''))
   \<and> (t \<in> set (blocked_list k) \<longrightarrow> suspend_thread_raw (Some t) k =
       Inl (Panic ''Cannot acquire a node that is already in a list''))"
proof -
  have eq: "suspend_thread_raw None k = suspend_thread_raw (Some (current_thread k)) k"
    by (simp add: suspend_thread_raw_def)
  have r: "\<exists>k'. suspend_thread_raw (Some t) k = Inr k' \<and> sched_inv k'
          \<and> current_thread k' = current_thread k \<and> suspended_list k' = suspended_list k @ [t]"
    if "t \<in> set (ready_queue k) \<or> state (threads k t) = Started"
    using that suspend_Ready [OF assms, of t] suspend_Started [OF assms, of t]
    unfolding suspended_after_def view_folds by blast
  have c: "\<exists>k'. suspend_thread_raw (Some t) k = Inr k' \<and> suspend_thread_raw None k = Inr k' \<and> sched_inv k'
          \<and> next_chosen k k' \<and> suspended_list k' = suspended_list k @ [t]"
    if "t = current_thread k \<and> t \<noteq> idle_thread k \<and> canary_ok k"
    using that eq suspend_Running [OF assms, of "Some t"] unfolding suspended_after_def by auto
  have s: "suspend_thread_raw (Some t) k = Inr k" if "state (threads k t) = Suspended"
    using that by (simp add: suspend_thread_raw_def)
  have n: "suspend_thread_raw (Some t) k =
       Inl (Panic ''Cannot suspend a thread that has not been started'')"
    if "state (threads k t) = Created" using that by (simp add: suspend_thread_raw_def)
  from r c s n suspend_Blocked [OF assms, of t] show ?thesis by blast
qed

theorem suspend_correct_witness:
  "(\<exists>k'. suspend_thread_raw (Some 2) sample_kernel = Inr k' \<and> suspended_list k' = [4, 2])
   \<and> suspend_thread_raw (Some 3) sample_kernel =
       Inl (Panic ''Cannot acquire a node that is already in a list'')"
  using suspend_correct [OF sample_kernel_inv, of 2] suspend_correct [OF sample_kernel_inv, of 3]
  by (auto simp: sample_kernel_facts)

text \<open>
  The lock ceiling is what its comment says: although only the head of the blocked list
  is read, the ceiling is the highest lock priority of the running thread and of all the blocked
  threads, and it is invalid only if none of them holds a lock.
\<close>

theorem lock_ceiling_is_max:
  assumes "sched_inv k"
  shows "(\<forall>t \<in> insert (current_thread k) (set (blocked_list k)). \<forall>p.
       status_priority (lock_priority (threads k t)) = Some p \<longrightarrow>
       (\<exists>c. status_priority (locks_priority_ceiling k) = Some c \<and> p \<le> c))
     \<and> (\<exists>t \<in> insert (current_thread k) (set (blocked_list k)).
       locks_priority_ceiling k = lock_priority (threads k t))"
proof -
  have "lock_ge a b \<Longrightarrow> status_priority b = Some p \<Longrightarrow> \<exists>c. status_priority a = Some c \<and> p \<le> c" for a b p
    by (auto simp: lock_ge_def split: option.splits)
  with ceiling_is_max [OF assms] show ?thesis unfolding view_folds by blast
qed

theorem lock_ceiling_is_max_witness:
  "\<exists>c. status_priority (locks_priority_ceiling sample_kernel) = Some c \<and> Thread 9 \<le> c"
proof -
  have "status_priority (lock_priority (threads sample_kernel 3)) = Some (Thread 9)"
    by (simp add: sample_kernel_def sample_thread_def lock_priority_def)
  with lock_ceiling_is_max [OF sample_kernel_inv] show ?thesis by (auto simp: sample_kernel_facts)
qed

text \<open>
  The place in the ready queue: a thread that holds no lock goes behind all ready
  threads of at least its priority, one that holds a lock goes before those of its own priority,
  and the order of the others is kept. So equal threads without locks run first come first served.
\<close>

theorem ready_queue_order:
  assumes "sched_inv k" and "t \<in> set (blocked_list k)" and "OfThread t \<notin> set (sleep_queue k)"
  shows "\<exists>k'. wakeup_thread t k = Inr k'
     \<and> (let p = priority (threads k t);
            before = (if is_valid (lock_priority (threads k t)) then (\<lambda>u. p < priority (threads k u))
                      else (\<lambda>u. p \<le> priority (threads k u)))
        in ready_queue k' = filter before (ready_queue k) @ [t]
             @ filter (\<lambda>u. \<not> before u) (ready_queue k))"
proof -
  let ?k = "upd_thread t (\<lambda>x. x\<lparr>events := set_wakeup_event (events x)\<rparr>)
       (k\<lparr>blocked_list := remove1 t (blocked_list k)\<rparr>)"
  let ?P = "if is_valid (lock_priority (threads k t)) then (\<lambda>u. priority (threads k t) < priority (threads k u))
     else (\<lambda>u. priority (threads k t) \<le> priority (threads k u))"
  have "t \<noteq> idle_thread k" using inv_idle_unlisted [OF assms(1)] assms(2) by auto
  then have "ready_queue (woken t k) = insert_after (ready_before t (set_state t Ready ?k)) t (ready_queue k)"
    by (simp add: woken_def ready_inserted_def Let_def upd_thread_def)
  moreover have "ready_before t (set_state t Ready ?k) = ?P"
    by (rule ext) (auto simp: ready_before_def kernel_upd_defs priority_defs)
  moreover have "sorted_wrt (\<lambda>a b. priority (threads k b) \<le> priority (threads k a)) (ready_queue k)"
    using assms(1) by (simp add: sched_inv_fl_def ordered_def tprio_def)
  then have "takeWhile ?P (ready_queue k) = filter ?P (ready_queue k)
      \<and> dropWhile ?P (ready_queue k) = filter (\<lambda>x. \<not> ?P x) (ready_queue k)"
    by (rule takeWhile_filter_sorted) (auto split: if_splits)
  ultimately show ?thesis
    using wakeup_thread_ok(1) [OF assms] by (simp add: insert_after_takeWhile Let_def)
qed

theorem ready_queue_order_witness:
  "\<exists>k'. wakeup_thread 3 (sample_kernel\<lparr>sleep_queue := []\<rparr>) = Inr k' \<and> ready_queue k' = [3, 2]"
proof -
  let ?k = "sample_kernel\<lparr>sleep_queue := []\<rparr>"
  have inv: "sched_inv ?k"
    using sleep_removed_inv [OF sample_kernel_inv, of "OfThread 3"] by (simp add: sample_kernel_facts)
  have "ready_queue ?k = [2]" "t \<in> set (blocked_list ?k) \<longleftrightarrow> t = 3" for t
    by (simp_all add: sample_kernel_facts)
  moreover have "priority (threads ?k 3) = Thread 9" "priority (threads ?k 2) = Thread 2"
    by (simp_all add: sample_kernel_def sample_thread_def raw_thread_new_def priority_defs max_valid_priority)
  ultimately show ?thesis using ready_queue_order [OF inv, of 3] by (auto simp: Let_def)
qed

text \<open>
  A stack overflow is reported, never ignored: if the canary of the running thread is
  damaged, every operation that would take the processor from it stops with the stack overflow
  error that names the thread and its stack size, before any state changes hands.
\<close>

theorem stack_overflow_reported:
  assumes "stack (threads k (current_thread k)) = Some s" and "\<not> is_alive s"
    and "\<not> is_idle (current_thread k) k"
  shows "let overflow = Kernel (StackOverflow (name (threads k (current_thread k))) (stack_size s)) in
       switch_thread new k = Inl overflow
     \<and> delay_thread_until_raw time k = Inl overflow
     \<and> wait_current_thread w ceiling k = Inl overflow
     \<and> (state (threads k (current_thread k)) = Running \<longrightarrow> suspend_thread_raw None k = Inl overflow)"
proof -
  let ?e = "Kernel (StackOverflow (name (threads k (current_thread k))) (stack_size s))"
  have ce: "check_stack_overflow (k\<lparr>ready_queue := r\<rparr>) = Inl ?e" for r
    using assms(1,2) by (simp add: check_stack_overflow_def)
  have sw: "switch_thread nxt (k\<lparr>ready_queue := r\<rparr>) = Inl ?e" for nxt r
    using ce [of r] by (simp add: switch_thread_def)
  have "\<exists>nxt r. pop_ready_above k = (nxt, k\<lparr>ready_queue := r\<rparr>)"
    by (simp add: pop_ready_above_def Let_def split_def) blast
  then obtain nxt r where p: "pop_ready_above k = (nxt, k\<lparr>ready_queue := r\<rparr>)" by blast
  have "switch_thread new k = Inl ?e" using sw [of new "ready_queue k"] by simp
  moreover have "delay_thread_until_raw time k = Inl ?e" "wait_current_thread w ceiling k = Inl ?e"
    using assms(3) p sw by (simp_all add: delay_thread_until_raw_def wait_current_thread_def)
  moreover have "state (threads k (current_thread k)) = Running \<longrightarrow> suspend_thread_raw None k = Inl ?e"
    using p sw by (simp add: suspend_thread_raw_def)
  ultimately show ?thesis by (simp add: Let_def)
qed

theorem stack_overflow_reported_witness:
  "let k = upd_thread 1 (\<lambda>x. x\<lparr>stack := Some \<lparr>canary = [0x55, 0], stack_len = 64, element_size = 16\<rparr>\<rparr>) sample_kernel
   in switch_thread 2 k = Inl (Kernel (StackOverflow ''t'' 1024))"
proof -
  let ?s = "\<lparr>canary = [0x55, 0], stack_len = 64, element_size = 16\<rparr>"
  let ?k = "upd_thread 1 (\<lambda>x. x\<lparr>stack := Some ?s\<rparr>) sample_kernel"
  have "stack (threads ?k (current_thread ?k)) = Some ?s" "\<not> is_alive ?s" "\<not> is_idle (current_thread ?k) ?k"
    "name (threads ?k (current_thread ?k)) = ''t''" "stack_size ?s = 1024"
    by (simp_all add: upd_thread_def sample_kernel_def is_alive_def CANARY_BYTE_def is_idle_def
        sample_thread_def raw_thread_new_def stack_size_def)
  with stack_overflow_reported [of ?k ?s 2] show ?thesis by (simp add: Let_def)
qed

text \<open>
  Rescheduling does not look at the locks of blocked threads: when the idle thread
  runs because every ready thread is below the ceiling of a lock that a blocked thread holds, the
  next reschedule nevertheless runs such a thread.
\<close>

theorem reschedule_ignores_blocked_ceiling:
  assumes "sched_inv k" and "rkind AND 3 \<noteq> 0" and "canary_ok k" and "sleep_queue k = []"
    and "current_thread k = idle_thread k"
    and "u \<in> set (ready_queue k)" and "priority (threads k (idle_thread k)) < priority (threads k u)"
    and "\<forall>t \<in> set (ready_queue k).
       priority (threads k t) \<le> unwrap_or_default (locks_priority_ceiling k) PRIORITY_MIN"
  shows "\<exists>k'. reschedule wk now rkind k = Inr k' \<and> current_thread k' \<in> set (ready_queue k)
     \<and> priority (threads k (current_thread k')) \<le> unwrap_or_default (locks_priority_ceiling k) PRIORITY_MIN"
proof -
  have "threads_only k" using assms(4) by (simp add: threads_only_def)
  then obtain k' where k': "reschedule wk now rkind k = Inr k'" "rescheduled now k k'"
    using reschedule_ok [OF assms(1-3), of wk now] by blast
  have none: "due_threads now k = {}" using assms(4) by (simp add: due_threads_def)
  have all: "{idle_thread k, current_thread k'} \<union> set (ready_queue k') = {idle_thread k} \<union> set (ready_queue k)"
    using k'(2) none assms(5) by (auto simp: rescheduled_def)
  have fr: "tprio (threads k') = tprio (threads k)" and idle': "idle_thread k' = idle_thread k"
    using k'(2) by (simp_all add: rescheduled_def sched_frame_def)
  have "u \<noteq> idle_thread k" using inv_idle_unlisted [OF assms(1)] assms(6) by auto
  then have "u = current_thread k' \<or> u \<in> set (ready_queue k')" using all assms(6) by auto
  then have "tprio (threads k) u \<le> tprio (threads k) (current_thread k')"
    using k'(2) fr by (auto simp: rescheduled_def)
  then have "current_thread k' \<noteq> idle_thread k" using assms(7) by (auto simp: tprio_def)
  then have "current_thread k' \<in> set (ready_queue k)" using all by auto
  with assms(8) k'(1) show ?thesis by blast
qed

definition sample_idle :: kernel where
  "sample_idle = sample_kernel
     \<lparr>threads := (threads sample_kernel)(0 := sample_thread 1 0 Running, 1 := sample_thread 2 3 Ready),
      ready_queue := [1, 2], sleep_queue := [], current_thread := 0\<rparr>"

lemma sample_idle_inv: "sched_inv sample_idle"
proof -
  let ?k = sample_idle
  have lists: "ready_queue ?k = [1, 2]" "blocked_list ?k = [3]" "suspended_list ?k = [4]"
    "sleep_queue ?k = []" "idle_thread ?k = 0" "current_thread ?k = 0"
    by (simp_all add: sample_idle_def sample_kernel_def)
  have st: "tstate (threads ?k) t = (if t = 0 then Running else if t = 1 \<or> t = 2 then Ready
      else if t = 3 then Blocked else if t = 4 then Suspended else Created)" for t
    by (simp add: tstate_def sample_idle_def sample_kernel_def sample_thread_def raw_thread_new_def)
  have "placed {} (tstate (threads ?k)) [1, 2] [3] [4] 0 0"
    by (auto simp: placed_def st split: if_splits)
  moreover have "ordered (tprio (threads ?k)) (tlock (threads ?k)) [1, 2] [3]"
    by (simp add: ordered_def tprio_def sample_idle_def sample_kernel_def sample_thread_def
        raw_thread_new_def priority_defs)
  moreover have "sleeping {} (suspendables ?k) [3] []" by (simp add: sleeping_def)
  moreover have "identified (tstate (threads ?k)) (tid (threads ?k)) (tstack (threads ?k)) (suspendables ?k) 0"
  proof -
    have ids: "tid (threads ?k) = tid (threads sample_kernel)" "suspendables ?k = suspendables sample_kernel"
      "tstack (threads ?k) = tstack (threads sample_kernel)"
      by (auto simp: tid_def tstack_def sample_idle_def sample_kernel_def sample_thread_def)
    have "tstate (threads ?k) t \<noteq> Created \<longleftrightarrow> tstate (threads sample_kernel) t \<noteq> Created" for t
      by (simp add: st sample_states)
    moreover have "identified (tstate (threads sample_kernel)) (tid (threads sample_kernel))
        (tstack (threads sample_kernel)) (suspendables sample_kernel) 0"
      using sample_kernel_inv by (simp add: sched_inv_fl_def sample_kernel_facts)
    ultimately show ?thesis unfolding ids identified_def by (simp only: simp_thms) blast
  qed
  ultimately show ?thesis by (simp add: sched_inv_fl_def lists)
qed

theorem reschedule_ignores_blocked_ceiling_witness:
  "\<exists>k'. reschedule (\<lambda>_. Inr) 0 RESCHEDULE_KIND_YIELD_TO_HIGHER sample_idle = Inr k'
     \<and> current_thread k' \<in> {1, 2}
     \<and> unwrap_or_default (locks_priority_ceiling sample_idle) PRIORITY_MIN = Thread 9"
proof -
  let ?k = sample_idle
  have rk: "RESCHEDULE_KIND_YIELD_TO_HIGHER AND 3 \<noteq> 0" by (simp add: RESCHEDULE_KIND_YIELD_TO_HIGHER_def)
  have al: "canary_ok ?k"
    by (simp add: canary_ok_def tstack_def sample_idle_def sample_kernel_def sample_thread_def
        is_alive_def CANARY_BYTE_def)
  have q: "sleep_queue ?k = []" "current_thread ?k = idle_thread ?k" "ready_queue ?k = [1, 2]"
    by (simp_all add: sample_idle_def sample_kernel_def)
  have pr: "priority (threads ?k (idle_thread ?k)) = Thread 0" "priority (threads ?k 1) = Thread 3"
    "priority (threads ?k 2) = Thread 2"
    "unwrap_or_default (locks_priority_ceiling ?k) PRIORITY_MIN = Thread 9"
    by (simp_all add: sample_idle_def sample_kernel_def sample_thread_def raw_thread_new_def
        priority_defs locks_priority_ceiling_def)
  from reschedule_ignores_blocked_ceiling [OF sample_idle_inv rk al q(1,2), of 1 "\<lambda>_. Inr" 0] pr q(3)
  show ?thesis by auto
qed

end
