(* ===== verification/Scheduler.thy ===== *)
theory Scheduler
  imports Sched_Properties
begin

text \<open>
  The layer above the raw scheduler: the preemption lock (\<open>sync/preempt_lock.rs\<close>),
  \<open>struct Scheduler\<close> (\<open>kernel/scheduler.rs\<close>), the interrupt context
  (\<open>kernel/interrupt.rs\<close>), the timer interrupt (\<open>kernel/clock.rs\<close>) and the system calls
  (\<open>kernel/syscall.rs\<close>). An operation that finds the preemption lock taken defers its work to
  a lock-free queue; the release of the lock completes it; the exit from the outermost interrupt
  reschedules.
\<close>

section \<open>Environment\<close>

text \<open>
  What the kernel calls and does not define: the effect of waking an asynchronous task, the poll
  of the executor of an interrupt, and the reading of the clock.
\<close>

record env =
  wake_by_ref :: "nat \<Rightarrow> kernel \<Rightarrow> kernel res"
  executor_poll :: "iptr \<Rightarrow> kernel \<Rightarrow> kernel res"
  now :: u64

datatype execution_context = InInterrupt iptr | InThread tptr

definition current_execution_context :: "kernel \<Rightarrow> execution_context" where
  "current_execution_context k =
     (case current_interrupt k of
        Some i \<Rightarrow> InInterrupt i | None \<Rightarrow> InThread (current_thread k))"

definition in_interrupt :: "kernel \<Rightarrow> bool" where
  "in_interrupt k = (current_interrupt k \<noteq> None)"

section \<open>Access to the raw scheduler\<close>

text \<open>
  \<open>Scheduler::borrow_mut\<close> and the end of the borrow. A nested borrow panics.
\<close>

definition borrow_raw :: "kernel \<Rightarrow> kernel res" where
  "borrow_raw k =
     (if raw_borrowed k then Inl (Panic ''already borrowed'') else Inr (k\<lparr>raw_borrowed := True\<rparr>))"

definition with_raw :: "(kernel \<Rightarrow> ('a \<times> kernel) res) \<Rightarrow> kernel \<Rightarrow> ('a \<times> kernel) res" where
  "with_raw f k =
     bind_res (borrow_raw k) (\<lambda>k1.
     bind_res (f k1) (\<lambda>(r, k2). Inr (r, k2\<lparr>raw_borrowed := False\<rparr>)))"

definition unit_op :: "(kernel \<Rightarrow> kernel res) \<Rightarrow> kernel \<Rightarrow> (unit \<times> kernel) res" where
  "unit_op f k = bind_res (f k) (\<lambda>k1. Inr ((), k1))"

section \<open>Pending work\<close>

definition is_reschedule_pending :: "kernel \<Rightarrow> bool" where
  "is_reschedule_pending k = (pending_reschedule_kind k \<noteq> RESCHEDULE_KIND_NONE)"

partial_function (option) drain_resume :: "env \<Rightarrow> kernel \<Rightarrow> kernel res option" where
  [code]: "drain_resume e k =
     (case aq_pop_front (pending_resume k) of
        Inl err \<Rightarrow> Some (Inl err)
      | Inr (popped, q) \<Rightarrow>
          (case popped of
             None \<Rightarrow> Some (Inr (k\<lparr>pending_resume := q\<rparr>))
           | Some s \<Rightarrow>
               (case resume_suspendable_now (wake_by_ref e) s (k\<lparr>pending_resume := q\<rparr>) of
                  Inl err \<Rightarrow> Some (Inl err)
                | Inr k1 \<Rightarrow> drain_resume e k1)))"

partial_function (option) drain_sleep :: "kernel \<Rightarrow> kernel res option" where
  [code]: "drain_sleep k =
     (case aq_pop_front (pending_sleep k) of
        Inl err \<Rightarrow> Some (Inl err)
      | Inr (popped, q) \<Rightarrow>
          (case popped of
             None \<Rightarrow> Some (Inr (k\<lparr>pending_sleep := q\<rparr>))
           | Some s \<Rightarrow>
               (case suspend_suspendable_now s (k\<lparr>pending_sleep := q\<rparr>) of
                  Inl err \<Rightarrow> Some (Inl err)
                | Inr k1 \<Rightarrow> drain_sleep k1)))"

definition complete_pending :: "env \<Rightarrow> kernel \<Rightarrow> kernel res" where
  "complete_pending e k =
     bind_res (borrow_raw k) (\<lambda>k1.
     bind_res (loop_result (drain_resume e k1)) (\<lambda>k2.
     bind_res (loop_result (drain_sleep k2)) (\<lambda>k3.
       Inr (k3\<lparr>raw_borrowed := False\<rparr>))))"

section \<open>The preemption lock\<close>

datatype restore_state = RInterrupt "ctx_ptr option" | RThread "ctx_ptr option"

fun restore_is_interrupt :: "restore_state \<Rightarrow> bool" where
  "restore_is_interrupt (RInterrupt _) = True"
| "restore_is_interrupt (RThread _) = False"

fun restore_is_null :: "restore_state \<Rightarrow> bool" where
  "restore_is_null (RInterrupt p) = (p = None)"
| "restore_is_null (RThread p) = (p = None)"

definition pl_acquire_nesting_lock :: "kernel \<Rightarrow> (restore_state \<times> kernel) res" where
  "pl_acquire_nesting_lock k =
     (case current_execution_context k of
        InInterrupt _ \<Rightarrow> Inl (Runtime InterruptHandlerViolation)
      | InThread t \<Rightarrow> Inr (RThread (preempt_lock k), k\<lparr>preempt_lock := Some (PThread t)\<rparr>))"

text \<open>\<open>None\<close> stands for \<open>Err(TryLockError::WouldBlock)\<close>.\<close>

definition pl_try_acquire_nesting_lock :: "kernel \<Rightarrow> restore_state option \<times> kernel" where
  "pl_try_acquire_nesting_lock k =
     (case current_execution_context k of
        InInterrupt i \<Rightarrow>
          (case atomic_compare_exchange (preempt_lock k) None (Some (PInterrupt i)) of
             (Inr previous_state, cell) \<Rightarrow> (Some (RInterrupt previous_state), k\<lparr>preempt_lock := cell\<rparr>)
           | (Inl previous_state, cell) \<Rightarrow>
               if previous_state = Some (PInterrupt i)
               then (Some (RInterrupt previous_state), k\<lparr>preempt_lock := cell\<rparr>)
               else (None, k\<lparr>preempt_lock := cell\<rparr>))
      | InThread t \<Rightarrow> (Some (RThread (preempt_lock k)), k\<lparr>preempt_lock := Some (PThread t)\<rparr>))"

text \<open>
  The release. In a thread a pending reschedule is executed by a yield, which is a system call;
  its effect is the argument \<open>yield\<close>, which the definitions below instantiate once the system
  call handler is defined. In an interrupt it is never called.
\<close>

definition pl_release_nesting_lock ::
  "env \<Rightarrow> (kernel \<Rightarrow> kernel res) \<Rightarrow> restore_state \<Rightarrow> kernel \<Rightarrow> kernel res" where
  "pl_release_nesting_lock e yield rs k =
     (if restore_is_null rs then
        bind_res (complete_pending e k) (\<lambda>k1.
          let k2 = k1\<lparr>preempt_lock := None\<rparr> in
          if \<not> restore_is_interrupt rs \<and> is_reschedule_pending k2 then yield k2 else Inr k2)
      else Inr k)"

definition pl_with ::
  "env \<Rightarrow> (kernel \<Rightarrow> kernel res) \<Rightarrow> (kernel \<Rightarrow> ('a \<times> kernel) res) \<Rightarrow> kernel \<Rightarrow> ('a \<times> kernel) res" where
  "pl_with e yield f k =
     bind_res (pl_acquire_nesting_lock k) (\<lambda>(rs, k1).
     bind_res (f k1) (\<lambda>(r, k2).
     bind_res (pl_release_nesting_lock e yield rs k2) (\<lambda>k3. Inr (r, k3))))"

definition pl_try_with ::
  "env \<Rightarrow> (kernel \<Rightarrow> kernel res) \<Rightarrow> (kernel \<Rightarrow> ('a \<times> kernel) res) \<Rightarrow> kernel
     \<Rightarrow> ('a option \<times> kernel) res" where
  "pl_try_with e yield f k =
     (case pl_try_acquire_nesting_lock k of
        (None, k1) \<Rightarrow> Inr (None, k1)
      | (Some rs, k1) \<Rightarrow>
          bind_res (f k1) (\<lambda>(r, k2).
          bind_res (pl_release_nesting_lock e yield rs k2) (\<lambda>k3. Inr (Some r, k3))))"

definition is_preempt_allowed :: "kernel \<Rightarrow> bool" where
  "is_preempt_allowed k = (preempt_lock k = None)"

section \<open>Scheduler operations\<close>

text \<open>
  A suspendable has one node, \<open>pending_schedule_link\<close>, for both queues of pending work, with one
  \<open>owned\<close> flag: an interrupt that is in either of them cannot be pushed to the other. The node of a
  thread is only ever pushed to \<open>pending_resume\<close>. The next pointers are kept per queue, so the
  definitions describe an interrupt whose node is not the dummy of the other queue.
\<close>

definition schedule_interrupt_wakeup ::
  "env \<Rightarrow> (kernel \<Rightarrow> kernel res) \<Rightarrow> iptr \<Rightarrow> u64 \<Rightarrow> kernel \<Rightarrow> kernel res" where
  "schedule_interrupt_wakeup e yield i wakeup_time k =
     (let k1 = set_deadline (OfInterrupt i) (Some \<lparr>tick = wakeup_time\<rparr>) k in
      bind_res (pl_try_with e yield (with_raw (unit_op (schedule_interrupt_wakeup_raw i))) k1)
        (\<lambda>(ok, k2). case ok of
           Some _ \<Rightarrow> Inr k2
         | None \<Rightarrow>
             if is_linked (OfInterrupt i) (pending_resume k2) then Inl (AtomicQueue ItemAlreadyInQueue)
             else bind_res (aq_push_back (OfInterrupt i) (pending_sleep k2))
                    (\<lambda>q. Inr (k2\<lparr>pending_sleep := q\<rparr>))))"

definition cond_reschedule :: "kernel \<Rightarrow> kernel res" where
  "cond_reschedule k =
     bind_res (borrow_raw k) (\<lambda>k1.
       let k2 = (case first_opt (ready_queue k1) of
                   Some ready_thread \<Rightarrow>
                     if priority (threads k1 (current_thread k1)) < priority (threads k1 ready_thread)
                     then set_pending_reschedule RESCHEDULE_KIND_YIELD_TO_HIGHER k1 else k1
                 | None \<Rightarrow> k1)
       in Inr (k2\<lparr>raw_borrowed := False\<rparr>))"

definition execute_pending_reschedule ::
  "env \<Rightarrow> (kernel \<Rightarrow> kernel res) \<Rightarrow> kernel \<Rightarrow> kernel res" where
  "execute_pending_reschedule e yield k =
     (let (rkind, cell) = atomic_swap (pending_reschedule_kind k) RESCHEDULE_KIND_NONE;
          k1 = k\<lparr>pending_reschedule_kind := cell\<rparr>
      in if rkind = RESCHEDULE_KIND_NONE then Inr k1
         else bind_res (pl_try_with e yield
                  (with_raw (unit_op (reschedule (wake_by_ref e) (now e) rkind))) k1)
                (\<lambda>(ok, k2). case ok of
                   Some _ \<Rightarrow> Inr k2 | None \<Rightarrow> Inr (set_pending_reschedule rkind k2)))"

definition resume_thread :: "env \<Rightarrow> (kernel \<Rightarrow> kernel res) \<Rightarrow> tptr \<Rightarrow> kernel \<Rightarrow> kernel res" where
  "resume_thread e yield t k =
     bind_res (pl_try_with e yield (with_raw (unit_op (resume_thread_raw t))) k)
       (\<lambda>(ok, k1). case ok of
          Some _ \<Rightarrow> Inr k1
        | None \<Rightarrow> bind_res (aq_push_back (OfThread t) (pending_resume k1))
                    (\<lambda>q. Inr (k1\<lparr>pending_resume := q\<rparr>)))"

definition resume_interrupt :: "env \<Rightarrow> (kernel \<Rightarrow> kernel res) \<Rightarrow> iptr \<Rightarrow> kernel \<Rightarrow> kernel res" where
  "resume_interrupt e yield i k =
     bind_res (pl_try_with e yield (with_raw (unit_op (resume_interrupt_raw i))) k)
       (\<lambda>(ok, k1). case ok of
          Some _ \<Rightarrow> Inr k1
        | None \<Rightarrow>
            if is_linked (OfInterrupt i) (pending_sleep k1) then Inl (AtomicQueue ItemAlreadyInQueue)
            else bind_res (aq_push_back (OfInterrupt i) (pending_resume k1))
                   (\<lambda>q. Inr (k1\<lparr>pending_resume := q\<rparr>)))"

definition delay_thread_until ::
  "env \<Rightarrow> (kernel \<Rightarrow> kernel res) \<Rightarrow> u64 \<Rightarrow> kernel \<Rightarrow> kernel res" where
  "delay_thread_until e yield wakeup_time k =
     bind_res (pl_try_with e yield (with_raw (unit_op (delay_thread_until_raw wakeup_time))) k)
       (\<lambda>(ok, k1). case ok of
          Some _ \<Rightarrow> Inr k1
        | None \<Rightarrow> Inl (Panic ''Thread is trying to sleep while it holds the preempt lock''))"

definition suspend_thread ::
  "env \<Rightarrow> (kernel \<Rightarrow> kernel res) \<Rightarrow> tptr option \<Rightarrow> kernel \<Rightarrow> kernel res" where
  "suspend_thread e yield maybe_thread k =
     bind_res (pl_try_with e yield (with_raw (unit_op (suspend_thread_raw maybe_thread))) k)
       (\<lambda>(ok, k1). case ok of
          Some _ \<Rightarrow> Inr k1
        | None \<Rightarrow> Inl (Panic ''Cannot suspend a thread while holding the preemption lock''))"

text \<open>\<open>RawThread::init\<close> and \<open>Scheduler::start_thread\<close>.\<close>

definition thread_init :: "tptr \<Rightarrow> kernel \<Rightarrow> kernel" where
  "thread_init t k = upd_suspendable (OfThread t) (\<lambda>x. x\<lparr>kind := KThread t\<rparr>) k"

definition start_thread :: "env \<Rightarrow> (kernel \<Rightarrow> kernel res) \<Rightarrow> tptr \<Rightarrow> kernel \<Rightarrow> kernel res" where
  "start_thread e yield t k = resume_thread e yield t (thread_init t k)"

definition wakeup_scheduler_isr :: "kernel \<Rightarrow> kernel" where
  "wakeup_scheduler_isr k = set_pending_reschedule RESCHEDULE_KIND_YIELD_TO_HIGHER k"

definition yield_current_thread_isr :: "kernel \<Rightarrow> kernel" where
  "yield_current_thread_isr k =
     set_pending_reschedule (RESCHEDULE_KIND_YIELD_TO_EQUAL OR RESCHEDULE_KIND_YIELD_TO_HIGHER) k"

definition wait_current_thread_isr ::
  "env \<Rightarrow> (kernel \<Rightarrow> kernel res) \<Rightarrow> wptr \<Rightarrow> priority \<Rightarrow> kernel \<Rightarrow> kernel res" where
  "wait_current_thread_isr e yield w ceiling k =
     bind_res (pl_try_with e yield (with_raw (unit_op (wait_current_thread w ceiling))) k)
       (\<lambda>(ok, k1). case ok of Some _ \<Rightarrow> Inr k1 | None \<Rightarrow> Inl Unreachable)"

definition wait_current_thread_event_isr ::
  "env \<Rightarrow> (kernel \<Rightarrow> kernel res) \<Rightarrow> u32 \<Rightarrow> u64 option \<Rightarrow> kernel \<Rightarrow> (u32 \<times> kernel) res" where
  "wait_current_thread_event_isr e yield evs dl k =
     bind_res (pl_try_with e yield (with_raw (wait_current_thread_event evs dl)) k)
       (\<lambda>(ok, k1). case ok of Some received_events \<Rightarrow> Inr (received_events, k1) | None \<Rightarrow> Inl Unimplemented)"

section \<open>Interrupt context\<close>

text \<open>
  \<open>RawInterruptHandler::poll_executor\<close>. Its callers, the exit of the outermost interrupt and a
  system call, run in an interrupt context, so the interrupt context it enters is a nested one,
  which only switches the current interrupt.
\<close>

definition nested_interrupt_context :: "iptr \<Rightarrow> (kernel \<Rightarrow> kernel res) \<Rightarrow> kernel \<Rightarrow> kernel res" where
  "nested_interrupt_context i f k =
     (let (prev_icb, cell) = atomic_swap (current_interrupt k) (Some i) in
      bind_res (f (k\<lparr>current_interrupt := cell\<rparr>)) (\<lambda>k1. Inr (k1\<lparr>current_interrupt := prev_icb\<rparr>)))"

definition poll_executor :: "env \<Rightarrow> iptr \<Rightarrow> kernel \<Rightarrow> kernel res" where
  "poll_executor e i k =
     (let (old_priority, k1) = i_raise_nesting_lock_priority i (i_base_priority (interrupts k i)) k in
      bind_res (nested_interrupt_context i (executor_poll e i) k1) (\<lambda>k2.
        Inr (i_set_nesting_lock_priority i old_priority k2)))"

partial_function (option) drain_polls :: "env \<Rightarrow> kernel \<Rightarrow> kernel res option" where
  [code]: "drain_polls e k =
     (case aq_pop_front (pending_executor_polls k) of
        Inl err \<Rightarrow> Some (Inl err)
      | Inr (popped, q) \<Rightarrow>
          (case popped of
             None \<Rightarrow> Some (Inr (k\<lparr>pending_executor_polls := q\<rparr>))
           | Some i \<Rightarrow>
               (case poll_executor e i (k\<lparr>pending_executor_polls := q\<rparr>) of
                  Inl err \<Rightarrow> Some (Inl err)
                | Inr k1 \<Rightarrow> drain_polls e k1)))"

text \<open>In an interrupt a release never yields.\<close>

definition no_yield :: "kernel \<Rightarrow> kernel res" where
  "no_yield k = Inl Unreachable"

partial_function (option) interrupt_exit_loop :: "env \<Rightarrow> kernel \<Rightarrow> kernel res option" where
  [code]: "interrupt_exit_loop e k =
     (case loop_result (drain_polls e k) of
        Inl err \<Rightarrow> Some (Inl err)
      | Inr k1 \<Rightarrow>
          (case execute_pending_reschedule e no_yield k1 of
             Inl err \<Rightarrow> Some (Inl err)
           | Inr k2 \<Rightarrow>
               (case aq_is_empty (pending_executor_polls k2) of
                  (Inl err, q) \<Rightarrow> Some (Inl err)
                | (Inr none_left, q) \<Rightarrow>
                    if none_left then Some (Inr (k2\<lparr>pending_executor_polls := q\<rparr>))
                    else interrupt_exit_loop e (k2\<lparr>pending_executor_polls := q\<rparr>))))"

definition interrupt_context ::
  "env \<Rightarrow> iptr \<Rightarrow> (kernel \<Rightarrow> ('a \<times> kernel) res) \<Rightarrow> kernel \<Rightarrow> ('a \<times> kernel) res" where
  "interrupt_context e icb f k =
     (let (prev_icb, cell) = atomic_swap (current_interrupt k) (Some icb) in
      bind_res (f (k\<lparr>current_interrupt := cell\<rparr>)) (\<lambda>(rval, k1).
      bind_res (if prev_icb = None then loop_result (interrupt_exit_loop e k1) else Inr k1) (\<lambda>k2.
        Inr (rval, k2\<lparr>current_interrupt := prev_icb\<rparr>))))"

section \<open>System calls\<close>

text \<open>The control blocks of the system call interrupt and of the timer interrupt.\<close>

definition SYSCALL_INTERRUPT_HANDLER :: iptr where "SYSCALL_INTERRUPT_HANDLER = 0"
definition TIMER_INTERRUPT_HANDLER :: iptr where "TIMER_INTERRUPT_HANDLER = 1"

text \<open>
  A system call by its identifier, with the arguments the wrappers put into the registers: a
  64-bit time in two halves, a ceiling in its 16-bit encoding.
\<close>

datatype syscall =
    SysYield
  | SysWait wptr i16
  | SysWaitEvent u32
  | SysWaitEventUntil u32 u32 u32
  | SysDelayUntil u32 u32
  | SysRuntimeError runtime_error
  | SysStartThread tptr
  | SysSuspend "tptr option"
  | SysPollInterruptExecutor iptr
  | SysInvalid nat

definition time_hi :: "u64 \<Rightarrow> u32" where "time_hi t = ucast (drop_bit 32 t)"
definition time_lo :: "u64 \<Rightarrow> u32" where "time_lo t = ucast t"

definition join_time :: "u32 \<Rightarrow> u32 \<Rightarrow> u64" where
  "join_time hi lo = push_bit 32 (ucast hi) + ucast lo"

definition syscall_body :: "env \<Rightarrow> syscall \<Rightarrow> kernel \<Rightarrow> (u32 \<times> kernel) res" where
  "syscall_body e c k =
     (let unit_call = (\<lambda>r. bind_res r (\<lambda>k1. Inr (0, k1))) in
      case c of
        SysYield \<Rightarrow> Inr (0, yield_current_thread_isr k)
      | SysWait w ceiling \<Rightarrow> unit_call (wait_current_thread_isr e no_yield w (from_any ceiling) k)
      | SysWaitEvent evs \<Rightarrow> wait_current_thread_event_isr e no_yield evs None k
      | SysWaitEventUntil evs hi lo \<Rightarrow>
          wait_current_thread_event_isr e no_yield evs (Some (join_time hi lo)) k
      | SysDelayUntil hi lo \<Rightarrow> unit_call (delay_thread_until e no_yield (join_time hi lo) k)
      | SysRuntimeError err \<Rightarrow> Inl (Runtime err)
      | SysStartThread t \<Rightarrow> unit_call (start_thread e no_yield t k)
      | SysSuspend maybe_thread \<Rightarrow> unit_call (suspend_thread e no_yield maybe_thread k)
      | SysPollInterruptExecutor i \<Rightarrow> unit_call (poll_executor e i k)
      | SysInvalid i \<Rightarrow> Inl (Panic ''Invalid syscall''))"

definition kernel_syscall_handler :: "env \<Rightarrow> syscall \<Rightarrow> kernel \<Rightarrow> (u32 \<times> kernel) res" where
  "kernel_syscall_handler e c k =
     interrupt_context e SYSCALL_INTERRUPT_HANDLER (syscall_body e c) k"

definition kernel_wakeup_handler :: "env \<Rightarrow> kernel \<Rightarrow> (unit \<times> kernel) res" where
  "kernel_wakeup_handler e k =
     interrupt_context e TIMER_INTERRUPT_HANDLER (\<lambda>k1. Inr ((), wakeup_scheduler_isr k1)) k"

text \<open>The system call wrappers.\<close>

definition thread_yield :: "env \<Rightarrow> kernel \<Rightarrow> kernel res" where
  "thread_yield e k = bind_res (kernel_syscall_handler e SysYield k) (\<lambda>(_, k1). Inr k1)"

definition thread_wait :: "env \<Rightarrow> wptr \<Rightarrow> i16 \<Rightarrow> kernel \<Rightarrow> kernel res" where
  "thread_wait e w ceiling k =
     (if in_interrupt k then Inl (Runtime InterruptHandlerViolation)
      else bind_res (kernel_syscall_handler e (SysWait w ceiling) k) (\<lambda>(_, k1). Inr k1))"

definition thread_wait_event :: "env \<Rightarrow> u32 \<Rightarrow> kernel \<Rightarrow> (u32 \<times> kernel) res" where
  "thread_wait_event e evs k =
     (if in_interrupt k then Inl (Runtime InterruptHandlerViolation)
      else kernel_syscall_handler e (SysWaitEvent evs) k)"

definition thread_wait_event_until :: "env \<Rightarrow> u32 \<Rightarrow> instant \<Rightarrow> kernel \<Rightarrow> (u32 \<times> kernel) res" where
  "thread_wait_event_until e evs dl k =
     (if in_interrupt k then Inl (Runtime InterruptHandlerViolation)
      else kernel_syscall_handler e (SysWaitEventUntil evs (time_hi (tick dl)) (time_lo (tick dl))) k)"

definition delay_until :: "env \<Rightarrow> instant \<Rightarrow> kernel \<Rightarrow> kernel res" where
  "delay_until e time k =
     bind_res (kernel_syscall_handler e (SysDelayUntil (time_hi (tick time)) (time_lo (tick time))) k)
       (\<lambda>(_, k1). Inr k1)"

definition delay :: "bool \<Rightarrow> env \<Rightarrow> duration \<Rightarrow> kernel \<Rightarrow> kernel res" where
  "delay checks e d k =
     bind_res (instant_add checks (instant_now (now e)) d) (\<lambda>time. delay_until e time k)"

definition thread_suspend :: "env \<Rightarrow> tptr option \<Rightarrow> kernel \<Rightarrow> kernel res" where
  "thread_suspend e t k = bind_res (kernel_syscall_handler e (SysSuspend t) k) (\<lambda>(_, k1). Inr k1)"

definition poll_interrupt_executor :: "env \<Rightarrow> iptr \<Rightarrow> kernel \<Rightarrow> kernel res" where
  "poll_interrupt_executor e i k =
     bind_res (kernel_syscall_handler e (SysPollInterruptExecutor i) k) (\<lambda>(_, k1). Inr k1)"

definition syscall_runtime_error :: "env \<Rightarrow> runtime_error \<Rightarrow> kernel \<Rightarrow> kernel res" where
  "syscall_runtime_error e err k =
     bind_res (kernel_syscall_handler e (SysRuntimeError err) k) (\<lambda>_. Inl Unreachable)"

text \<open>\<open>RawThread::start\<close> with \<open>syscall::start_thread\<close>.\<close>

definition thread_start :: "env \<Rightarrow> tptr \<Rightarrow> kernel \<Rightarrow> kernel res" where
  "thread_start e t k =
     (if state (threads k t) \<noteq> Created then Inl (Panic ''Cannot start thread twice'')
      else bind_res (kernel_syscall_handler e (SysStartThread t) (set_state t Started k))
             (\<lambda>(_, k1). Inr k1))"

end
