(* ===== verification/Kernel_Frames.thy ===== *)
theory Kernel_Frames
  imports Scheduler
begin

text \<open>
  The frame of the kernel's operations: what the raw scheduler leaves alone, the states between
  two operations, and the lemmas that carry a raw operation through the preemption lock and an
  interrupt context to the state after the outermost interrupt has returned.
\<close>

section \<open>What the raw scheduler leaves alone\<close>

definition cells ::
  "kernel \<Rightarrow> sptr atomic_queue \<times> sptr atomic_queue \<times> iptr atomic_queue \<times> bool \<times> ctx_ptr option \<times> iptr option"
where
  "cells k = (pending_resume k, pending_sleep k, pending_executor_polls k, raw_borrowed k,
     preempt_lock k, current_interrupt k)"

lemma cells_upd [simp]:
  "cells (upd_thread t f k) = cells k" "cells (upd_suspendable s g k) = cells k"
  "cells (upd_interrupt i h k) = cells k" "cells (upd_lock l u k) = cells k"
  "cells (set_state t st k) = cells k" "cells (set_deadline s d k) = cells k" "cells (set_alarm a k) = cells k"
  "cells (set_ceiling_threshold c k) = cells k" "cells (set_pending_reschedule r k) = cells k"
  by (simp_all add: cells_def kernel_upd_defs set_ceiling_threshold_def set_pending_reschedule_def
      split: priority_status.split)

lemma cells_fields [simp]:
  "cells (k\<lparr>ready_queue := r\<rparr>) = cells k" "cells (k\<lparr>blocked_list := r\<rparr>) = cells k"
  "cells (k\<lparr>suspended_list := r\<rparr>) = cells k" "cells (k\<lparr>sleep_queue := q\<rparr>) = cells k"
  "cells (k\<lparr>wait_queues := w\<rparr>) = cells k" "cells (k\<lparr>current_thread := t\<rparr>) = cells k"
  "cells (k\<lparr>thread_context := c\<rparr>) = cells k"
  by (simp_all add: cells_def)

lemma kind_upd [simp]:
  "pending_reschedule_kind (upd_thread t f k) = pending_reschedule_kind k"
  "pending_reschedule_kind (upd_suspendable s g k) = pending_reschedule_kind k"
  "pending_reschedule_kind (upd_interrupt i h k) = pending_reschedule_kind k"
  "pending_reschedule_kind (set_state t st k) = pending_reschedule_kind k"
  "pending_reschedule_kind (set_deadline s d k) = pending_reschedule_kind k"
  "pending_reschedule_kind (set_alarm a k) = pending_reschedule_kind k"
  "pending_reschedule_kind (set_ceiling_threshold c k) = pending_reschedule_kind k"
  by (simp_all add: kernel_upd_defs set_ceiling_threshold_def split: priority_status.split)

definition kept :: "kernel \<Rightarrow> kernel \<Rightarrow> bool" where
  "kept k k' \<longleftrightarrow> cells k' = cells k \<and> pending_reschedule_kind k' = pending_reschedule_kind k"

lemma kept_refl [simp]: "kept k k"
  by (simp add: kept_def)

lemma kept_trans: "kept k k1 \<Longrightarrow> kept k1 k2 \<Longrightarrow> kept k k2"
  by (simp add: kept_def)

lemma insert_to_ready_queue_kept:
  "insert_to_ready_queue t k = Inr k' \<Longrightarrow> kept k k'"
  by (auto simp: insert_to_ready_queue_def Let_def kept_def bind_res_eq_Inr split: if_splits)

lemma insert_to_blocked_queue_kept:
  "insert_to_blocked_queue t k = Inr k' \<Longrightarrow> kept k k' \<and> ready_queue k' = ready_queue k"
  by (auto simp: insert_to_blocked_queue_def Let_def kept_def bind_res_eq_Inr kernel_upd_defs cells_def
      split: if_splits)

lemma insert_to_suspended_list_kept:
  "insert_to_suspended_list t k = Inr k' \<Longrightarrow> kept k k' \<and> ready_queue k' = ready_queue k
     \<and> sleep_queue k' = sleep_queue k"
  by (auto simp: insert_to_suspended_list_def Let_def kept_def bind_res_eq_Inr kernel_upd_defs cells_def
      split: if_splits)

lemma switch_thread_kept:
  "switch_thread t k = Inr (p, k') \<Longrightarrow> kept k k' \<and> ready_queue k' = ready_queue k
     \<and> sleep_queue k' = sleep_queue k"
  by (auto simp: switch_thread_def Let_def kept_def bind_res_eq_Inr kernel_upd_defs cells_def)

lemma pop_ready_above_kept:
  "pop_ready_above k = (t, k') \<Longrightarrow> kept k k' \<and> set (ready_queue k') \<subseteq> set (ready_queue k)
     \<and> sleep_queue k' = sleep_queue k"
  by (cases rule: pop_ready_above_cases [of k]) (auto simp: kept_def dest: list.set_sel(2))

lemma block_thread_kept:
  "block_thread t dl k = Inr k' \<Longrightarrow> kept k k' \<and> ready_queue k' = ready_queue k"
proof -
  assume b: "block_thread t dl k = Inr k'"
  have "insert_to_wakeup_queue t k1 = Inr k2 \<Longrightarrow> kept k1 k2 \<and> ready_queue k2 = ready_queue k1" for k1 k2
    by (auto simp: insert_to_wakeup_queue_def insert_to_sleep_queue_def Let_def kept_def bind_res_eq_Inr
        kernel_upd_defs cells_def split: if_splits)
  note w = this
  have d: "kept k (set_deadline s x k) \<and> ready_queue (set_deadline s x k) = ready_queue k" for s x
    by (simp add: kept_def) (simp add: kernel_upd_defs)
  have al: "kept k1 (reprogram_alarm k1) \<and> ready_queue (reprogram_alarm k1) = ready_queue k1" for k1
    by (simp add: reprogram_alarm_eq kept_def cells_def)
  obtain k1 where k1: "kept k k1 \<and> ready_queue k1 = ready_queue k"
    "insert_to_blocked_queue t k1 = Inr k'"
  proof (cases dl)
    case None
    with b d [of "OfThread t" None] show ?thesis by (intro that) (auto simp: block_thread_def)
  next
    case (Some time)
    let ?k = "set_deadline (OfThread t) (Some \<lparr>tick = time\<rparr>) k"
    from b Some obtain k2 where k2: "insert_to_wakeup_queue t ?k = Inr k2"
      "insert_to_blocked_queue t (reprogram_alarm k2) = Inr k'"
      by (auto simp: block_thread_def bind_res_eq_Inr)
    show ?thesis
      using w [OF k2(1)] d [of "OfThread t" "Some \<lparr>tick = time\<rparr>"] al [of k2]
      by (intro that [OF _ k2(2)]) (auto intro: kept_trans)
  qed
  with insert_to_blocked_queue_kept [OF k1(2)] show ?thesis by (auto intro: kept_trans)
qed

lemma resume_thread_move_kept:
  "resume_thread_move t k = Inr k' \<Longrightarrow> kept k k' \<and> set (sleep_queue k') \<subseteq> set (sleep_queue k)"
proof -
  assume m: "resume_thread_move t k = Inr k'"
  have ins: "insert_to_ready_queue t k2 = Inr k3 \<Longrightarrow> kept k2 k3 \<and> sleep_queue k3 = sleep_queue k2" for k2 k3
    by (auto simp: insert_to_ready_queue_def Let_def kept_def bind_res_eq_Inr kernel_upd_defs cells_def
        split: if_splits)
  let ?k1 = "upd_thread t (\<lambda>x. x\<lparr>events := set_resume_event (events x)\<rparr>) k"
  have k1: "kept k (?k1\<lparr>sleep_queue := q, blocked_list := b\<rparr>)" "kept k (?k1\<lparr>suspended_list := b\<rparr>)"
    "kept k (?k1\<lparr>blocked_list := b\<rparr>)" "sleep_queue ?k1 = sleep_queue k" for q b
    by (simp_all add: kept_def) (simp_all add: upd_thread_def)
  show ?thesis
  proof (cases "state (threads k t)")
    case Blocked
    with m show ?thesis
      by (auto simp: resume_thread_move_def Let_def bind_res_eq_Inr remove_from_sleep_queue_def c_remove_def
          k1 split: if_splits dest!: ins intro: kept_trans [OF k1(1)] kept_trans [OF k1(3)] dest: notin_set_remove1
          set_mp [OF set_remove1_subset])
  next
    case Suspended
    with m show ?thesis
      by (auto simp: resume_thread_move_def Let_def bind_res_eq_Inr k1 split: if_splits dest!: ins
          intro: kept_trans [OF k1(2)])
  qed (use m in \<open>auto simp: resume_thread_move_def Let_def bind_res_eq_Inr dest!: ins\<close>)
qed

lemma delay_kept:
  "delay_thread_until_raw time k = Inr k' \<Longrightarrow> kept k k' \<and> set (ready_queue k') \<subseteq> set (ready_queue k)"
  by (auto simp: delay_thread_until_raw_def Let_def bind_res_eq_Inr split: if_splits prod.splits
      dest!: pop_ready_above_kept switch_thread_kept block_thread_kept intro: kept_trans)

lemma wait_event_kept:
  "wait_current_thread_event evs dl k = Inr (r, k') \<Longrightarrow> kept k k' \<and> set (ready_queue k') \<subseteq> set (ready_queue k)"
proof -
  assume w: "wait_current_thread_event evs dl k = Inr (r, k')"
  have k1: "kept k (upd_thread t f k)" "ready_queue (upd_thread t f k) = ready_queue k" for t f
    by (simp_all add: kept_def) (simp_all add: upd_thread_def)
  from w show ?thesis
    by (auto simp: wait_current_thread_event_def Let_def bind_res_eq_Inr k1 split: if_splits prod.splits
      dest!: pop_ready_above_kept switch_thread_kept block_thread_kept intro: kept_trans kept_trans [OF k1(1)])
qed

lemma nesting_priority_kept:
  "i_raise_nesting_lock_priority i p k = (old, k') \<Longrightarrow> kept k k' \<and> ready_queue k' = ready_queue k"
  "kept k (i_set_nesting_lock_priority i q k) \<and> ready_queue (i_set_nesting_lock_priority i q k) = ready_queue k"
proof -
  have r: "ready_queue (set_ceiling_threshold c (upd_interrupt i f k)) = ready_queue k" for c f
    by (simp add: set_ceiling_threshold_def upd_interrupt_def split: priority_status.split)
  show "i_raise_nesting_lock_priority i p k = (old, k') \<Longrightarrow> kept k k' \<and> ready_queue k' = ready_queue k"
    by (auto simp: i_raise_nesting_lock_priority_def Let_def kept_def r)
  show "kept k (i_set_nesting_lock_priority i q k) \<and> ready_queue (i_set_nesting_lock_priority i q k) = ready_queue k"
    by (simp add: i_set_nesting_lock_priority_def Let_def kept_def r)
qed

lemma insert_to_wait_queue_kept:
  "insert_to_wait_queue w s k = Inr k' \<Longrightarrow> kept k k' \<and> ready_queue k' = ready_queue k"
  by (auto simp: insert_to_wait_queue_def bind_res_eq_Inr kept_def upd_suspendable_def cells_def)

lemma wait_queue_kept:
  "wait_current_thread w c k = Inr k' \<Longrightarrow> kept k k' \<and> set (ready_queue k') \<subseteq> set (ready_queue k)"
proof -
  assume "wait_current_thread w c k = Inr k'"
  then obtain n k1 b k2 i old k3 k4 where steps: "pop_ready_above k = (n, k1)"
      "switch_thread n k1 = Inr (b, k2)" "i_raise_nesting_lock_priority i c k2 = (old, k3)"
      "insert_to_wait_queue w (OfThread b) k3 = Inr k4"
      "block_thread b None (i_set_nesting_lock_priority i old k4) = Inr k'"
    by (auto simp: wait_current_thread_def Let_def bind_res_eq_Inr split: if_splits prod.splits option.splits)
      (metis surj_pair)
  note kept = pop_ready_above_kept [OF steps(1)] switch_thread_kept [OF steps(2)]
    nesting_priority_kept(1) [OF steps(3)] insert_to_wait_queue_kept [OF steps(4)]
    nesting_priority_kept(2) [of k4 i old] block_thread_kept [OF steps(5)]
  from kept have "kept k k'" by (simp add: kept_def)
  moreover from kept have "set (ready_queue k') \<subseteq> set (ready_queue k)" by simp
  ultimately show ?thesis by blast
qed

lemma suspend_kept:
  "suspend_thread_raw m k = Inr k' \<Longrightarrow> kept k k' \<and> set (ready_queue k') \<subseteq> set (ready_queue k)
     \<and> sleep_queue k' = sleep_queue k"
proof -
  assume s: "suspend_thread_raw m k = Inr k'"
  have r: "kept k (k\<lparr>ready_queue := xs\<rparr>)" for xs by (simp add: kept_def)
  from s show ?thesis
    by (auto simp: suspend_thread_raw_def Let_def bind_res_eq_Inr c_remove_def split: exec_state.splits prod.splits
        if_splits
        dest!: insert_to_suspended_list_kept pop_ready_above_kept switch_thread_kept
        intro: kept_trans kept_trans [OF r] dest: set_mp [OF set_remove1_subset])
qed

lemma reschedule_next_kept:
  "reschedule_next rkind k = Inr (t, k') \<Longrightarrow> kept k k'"
  by (auto simp: reschedule_next_def Let_def kept_def split: if_splits prod.splits)

lemma wakeup_thread_kept:
  "wakeup_thread t k = Inr k' \<Longrightarrow> kept k k' \<and> sleep_queue k' = sleep_queue k \<and> suspendables k' = suspendables k"
  by (auto simp: wakeup_thread_def insert_to_ready_queue_def Let_def kept_def bind_res_eq_Inr kernel_upd_defs
      cells_def split: if_splits)

text \<open>When only threads sleep, waking the sleepers calls no waker and polls no executor.\<close>

lemma wake_sleepers_kept:
  assumes "wake_sleepers wk time k = Some (Inr k')"
    and "\<forall>s \<in> set (sleep_queue k). \<exists>t. kind (suspendables k s) = KThread t"
  shows "kept k k'"
  using assms
proof (induction "sleep_queue k" arbitrary: k)
  case Nil
  then show ?case by (auto simp: wake_sleepers.simps [of wk time k] kept_def split: list.splits)
next
  case (Cons s ss)
  obtain t where t: "kind (suspendables k s) = KThread t" using Cons.prems(2) unfolding Cons.hyps(2) [symmetric] by auto
  show ?case
  proof (cases "is_due time k s")
    case True
    let ?k = "k\<lparr>sleep_queue := ss\<rparr>"
    obtain k1 where k1: "wakeup_thread t ?k = Inr k1" "wake_sleepers wk time k1 = Some (Inr k')"
      using Cons.prems(1) Cons.hyps(2) [symmetric] True t
      by (auto simp: wake_sleepers.simps [of wk time k] wakeup_suspendable_def split: sum.splits)
    note w = wakeup_thread_kept [OF k1(1)]
    have same: "sleep_queue k1 = ss" "suspendables k1 = suspendables k" using w by simp_all
    have "\<forall>s \<in> set ss. \<exists>t. kind (suspendables k s) = KThread t"
      using Cons.prems(2) unfolding Cons.hyps(2) [symmetric] by simp
    then have "kept k1 k'" by (intro Cons.hyps(1) k1(2)) (simp_all add: same)
    then show ?thesis using w by (auto simp: kept_def)
  next
    case False
    then show ?thesis
      using Cons.prems(1) Cons.hyps(2) [symmetric]
      by (auto simp: wake_sleepers.simps [of wk time k] kept_def)
  qed
qed

lemma threads_only_kinds:
  assumes "sched_inv k" and "threads_only k"
  shows "\<forall>s \<in> set (sleep_queue k). \<exists>t. kind (suspendables k s) = KThread t"
proof
  fix s assume s: "s \<in> set (sleep_queue k)"
  with assms(2) obtain t where t: "s = OfThread t" by (auto simp: threads_only_def)
  then have "tstate (threads k) t = Blocked"
    using sleeping_thread_blocked [OF assms(1)] inv_states(2) [OF assms(1)] s by auto
  then show "\<exists>t. kind (suspendables k s) = KThread t"
    using assms(1) t by (auto simp: sched_inv_fl_def identified_def)
qed

lemma reschedule_kept:
  assumes "sched_inv k" and "threads_only k" and "reschedule wk time rkind k = Inr k'"
  shows "kept k k'"
proof -
  from assms(3) obtain k1 t k2 where k1: "wake_sleepers wk time k = Some (Inr k1)"
    "reschedule_next rkind k1 = Inr (t, k2)"
    and rest: "(if thread_id (threads k2 t) \<noteq> thread_id (threads k2 (current_thread k2)) then
         bind_res (switch_thread t k2) (\<lambda>(previous, k3). insert_to_ready_queue previous k3)
       else Inr k2) = Inr k'"
    by (auto simp: reschedule_def bind_res_eq_Inr loop_result_def split: option.splits)
  have "kept k2 k'"
    using rest by (auto simp: bind_res_eq_Inr split: if_splits
        dest!: switch_thread_kept insert_to_ready_queue_kept intro: kept_trans)
  with wake_sleepers_kept [OF k1(1) threads_only_kinds [OF assms(1,2)]] reschedule_next_kept [OF k1(2)]
  show ?thesis by (blast intro: kept_trans)
qed

section \<open>Settled states\<close>

text \<open>
  Between two operations: the scheduler invariant holds, no stack has overflowed, only threads
  sleep, no deferred work is queued and no lock of the kernel is held. The argument is the current
  interrupt.
\<close>

definition stacks_alive :: "kernel \<Rightarrow> bool" where
  "stacks_alive k \<longleftrightarrow> (\<forall>t s. tstack (threads k) t = Some s \<longrightarrow> is_alive s)"

definition settled :: "iptr option \<Rightarrow> kernel \<Rightarrow> bool" where
  "settled i k \<longleftrightarrow>
     sched_inv k \<and> stacks_alive k \<and> threads_only k
   \<and> aq_holds (pending_resume k) [] \<and> aq_holds (pending_sleep k) []
   \<and> aq_holds (pending_executor_polls k) []
   \<and> \<not> raw_borrowed k \<and> preempt_lock k = None \<and> current_interrupt k = i"

definition locked :: "iptr \<Rightarrow> kernel \<Rightarrow> kernel" where
  "locked i k = k\<lparr>preempt_lock := Some (PInterrupt i), raw_borrowed := True\<rparr>"

definition unlocked :: "kernel \<Rightarrow> kernel" where
  "unlocked k = k\<lparr>raw_borrowed := False, preempt_lock := None,
     pending_resume := init_once (pending_resume k), pending_sleep := init_once (pending_sleep k)\<rparr>"

lemma aq_holds_init [simp]: "aq_holds (init_once q) xs = aq_holds q xs"
  by (simp add: aq_holds_def aq_rel_def)

lemma aq_pop_empty: "aq_holds q [] \<Longrightarrow> aq_pop_front q = Inr (None, init_once q)"
  using aq_pop_front_rel by (fastforce simp: aq_holds_def)

lemma complete_pending_empty:
  assumes "aq_holds (pending_resume k) []" and "aq_holds (pending_sleep k) []" and "\<not> raw_borrowed k"
  shows "complete_pending e k = Inr (k\<lparr>raw_borrowed := False,
     pending_resume := init_once (pending_resume k), pending_sleep := init_once (pending_sleep k)\<rparr>)"
  using assms by (simp add: complete_pending_def borrow_raw_def drain_resume.simps drain_sleep.simps
      aq_pop_empty loop_result_def)

lemma locked_ok:
  assumes k: "settled (Some i) k" and f: "f (locked i k) = Inr (r, k1)"
    and cells: "cells k1 = cells (locked i k)"
    and k1: "sched_inv k1" "sched_frame k k1" "threads_only k1"
  shows "pl_try_with e y (with_raw f) k = Inr (Some r, unlocked k1)" and "settled (Some i) (unlocked k1)"
proof -
  have c: "pending_resume k1 = pending_resume k" "pending_sleep k1 = pending_sleep k"
    "pending_executor_polls k1 = pending_executor_polls k" "raw_borrowed k1"
    "current_interrupt k1 = Some i"
    using cells k by (simp_all add: cells_def locked_def settled_def)
  show "settled (Some i) (unlocked k1)"
    using k c k1 by (simp add: settled_def unlocked_def threads_only_def stacks_alive_def sched_frame_def)
  have "complete_pending e (k1\<lparr>raw_borrowed := False\<rparr>) = Inr (k1\<lparr>raw_borrowed := False,
     pending_resume := init_once (pending_resume k), pending_sleep := init_once (pending_sleep k)\<rparr>)"
    using complete_pending_empty [of "k1\<lparr>raw_borrowed := False\<rparr>"] k c by (simp add: settled_def)
  then show "pl_try_with e y (with_raw f) k = Inr (Some r, unlocked k1)"
    using k f c by (simp add: pl_try_with_def pl_try_acquire_nesting_lock_def current_execution_context_def
        settled_def atomic_compare_exchange_def with_raw_def borrow_raw_def locked_def
        pl_release_nesting_lock_def unlocked_def Let_def)
qed

text \<open>The kernel's cells are irrelevant to the scheduler's own state.\<close>

lemma cells_irrelevant [simp]:
  "sched_frame (locked i k) k' = sched_frame k k'" "sched_frame k (unlocked k') = sched_frame k k'"
  "sched_inv (locked i k) = sched_inv k" "sched_inv (unlocked k) = sched_inv k"
  "threads_only (locked i k) = threads_only k" "threads_only (unlocked k) = threads_only k"
  "canary_ok (locked i k) = canary_ok k"
  "locks_priority_ceiling (locked i k) = locks_priority_ceiling k"
  "locks_priority_ceiling (unlocked k) = locks_priority_ceiling k"
  by (simp_all add: locked_def unlocked_def sched_frame_def threads_only_def canary_ok_def
      locks_priority_ceiling_def split: option.split)

lemma locked_simps [simp]:
  "threads (locked i k) = threads k" "ready_queue (locked i k) = ready_queue k"
  "blocked_list (locked i k) = blocked_list k" "suspended_list (locked i k) = suspended_list k"
  "sleep_queue (locked i k) = sleep_queue k" "suspendables (locked i k) = suspendables k"
  "current_thread (locked i k) = current_thread k" "idle_thread (locked i k) = idle_thread k"
  "pending_reschedule_kind (locked i k) = pending_reschedule_kind k" "alarm (locked i k) = alarm k"
  "wait_queues (locked i k) = wait_queues k" "locks (locked i k) = locks k" "current_interrupt (locked i k) = current_interrupt k"
  by (simp_all add: locked_def)

lemma unlocked_simps [simp]:
  "threads (unlocked k) = threads k" "ready_queue (unlocked k) = ready_queue k"
  "blocked_list (unlocked k) = blocked_list k" "suspended_list (unlocked k) = suspended_list k"
  "sleep_queue (unlocked k) = sleep_queue k" "suspendables (unlocked k) = suspendables k"
  "current_thread (unlocked k) = current_thread k" "idle_thread (unlocked k) = idle_thread k"
  "pending_reschedule_kind (unlocked k) = pending_reschedule_kind k" "alarm (unlocked k) = alarm k"
  "wait_queues (unlocked k) = wait_queues k" "locks (unlocked k) = locks k" "pending_executor_polls (unlocked k) = pending_executor_polls k"
  by (simp_all add: unlocked_def)

lemma next_alarm_unlocked [simp]: "next_alarm (unlocked k) = next_alarm k"
  by (simp add: next_alarm_def split: list.split)

lemma is_due_locked [simp]: "is_due n (locked i k) = is_due n k"
  by (rule is_due_cong) simp

lemma rescheduled_cong:
  assumes "threads k = threads k0" "ready_queue k = ready_queue k0" "blocked_list k = blocked_list k0"
    "suspended_list k = suspended_list k0" "sleep_queue k = sleep_queue k0" "suspendables k = suspendables k0"
    "current_thread k = current_thread k0" "idle_thread k = idle_thread k0" "locks k = locks k0"
    "wait_queues k = wait_queues k0"
  shows "rescheduled n k k' = rescheduled n k0 k'"
proof -
  have "is_due n k = is_due n k0" by (rule is_due_cong) (rule assms)
  then show ?thesis by (simp add: rescheduled_def due_threads_def sched_frame_def waits_def assms)
qed

lemma rescheduled_locked:
  "rescheduled n (locked i k) k' \<Longrightarrow> rescheduled n k (unlocked k')"
  by (simp add: rescheduled_def due_threads_def waits_def)

lemma settled_canary: "settled i k \<Longrightarrow> canary_ok k"
  by (simp add: settled_def stacks_alive_def canary_ok_def)

section \<open>Leaving an interrupt\<close>

lemma execute_pending_reschedule_ok:
  assumes k: "settled (Some i) k" and r: "pending_reschedule_kind k AND 3 \<noteq> 0"
  shows "\<exists>k'. execute_pending_reschedule e y k = Inr k' \<and> settled (Some i) k'
     \<and> pending_reschedule_kind k' = 0 \<and> rescheduled (now e) k k'"
proof -
  let ?r = "pending_reschedule_kind k" and ?k = "k\<lparr>pending_reschedule_kind := 0\<rparr>"
  have s: "settled (Some i) ?k" using k by (simp add: settled_def stacks_alive_def threads_only_def)
  have inv: "sched_inv (locked i ?k)" and th: "threads_only (locked i ?k)" and ca: "canary_ok (locked i ?k)"
    using s settled_canary [OF s] by (simp_all add: settled_def)
  obtain k1 where k1: "reschedule (wake_by_ref e) (now e) ?r (locked i ?k) = Inr k1"
    "rescheduled (now e) (locked i ?k) k1" using reschedule_ok [OF inv r ca] th by blast
  have kept: "kept (locked i ?k) k1" by (rule reschedule_kept [OF inv th k1(1)])
  have fr: "sched_inv k1" "sched_frame ?k k1" "threads_only k1"
    using k1(2) th by (auto simp: rescheduled_def threads_only_def dest: set_dropWhileD)
  have f: "unit_op (reschedule (wake_by_ref e) (now e) ?r) (locked i ?k) = Inr ((), k1)"
    using k1(1) by (simp add: unit_op_def)
  have c: "cells k1 = cells (locked i ?k)" using kept by (simp add: kept_def)
  note l = locked_ok [where f = "unit_op (reschedule (wake_by_ref e) (now e) ?r)", OF s f c fr]
  have "execute_pending_reschedule e y k = Inr (unlocked k1)"
    using l(1) [of e y] r by (auto simp: execute_pending_reschedule_def atomic_swap_def RESCHEDULE_KIND_NONE_def Let_def)
  moreover note l(2)
  moreover have "rescheduled (now e) k (unlocked k1)"
    using rescheduled_locked [OF k1(2)] by (simp add: rescheduled_cong [of ?k k])
  ultimately show ?thesis using kept by (simp add: kept_def)
qed

lemma drain_polls_empty:
  "aq_holds (pending_executor_polls k) [] \<Longrightarrow>
     drain_polls e k = Some (Inr (k\<lparr>pending_executor_polls := init_once (pending_executor_polls k)\<rparr>))"
  by (simp add: drain_polls.simps aq_pop_empty)

lemma aq_is_empty_holds:
  assumes "aq_holds q []"
  shows "aq_is_empty q = (Inr True, init_once q)"
proof -
  obtain d where d: "aq_rel_at (init_once q) d []" using assms by (auto simp: aq_holds_def aq_rel_def)
  then have "aq_head (init_once q) = Some d" "aq_next (init_once q) d = None" by (simp_all add: aq_rel_at_def)
  then show ?thesis by (simp add: aq_is_empty_def Let_def)
qed

definition polls_ready :: "kernel \<Rightarrow> kernel" where
  "polls_ready k = k\<lparr>pending_executor_polls := init_once (pending_executor_polls k)\<rparr>"

lemma polls_ready_simps [simp]:
  "settled i (polls_ready k) = settled i k" "pending_reschedule_kind (polls_ready k) = pending_reschedule_kind k"
  "rescheduled n (polls_ready k) k' = rescheduled n k k'" "rescheduled n k (polls_ready k') = rescheduled n k k'"
  "threads (polls_ready k) = threads k" "ready_queue (polls_ready k) = ready_queue k"
  "blocked_list (polls_ready k) = blocked_list k" "suspended_list (polls_ready k) = suspended_list k"
  "sleep_queue (polls_ready k) = sleep_queue k" "suspendables (polls_ready k) = suspendables k"
  "current_thread (polls_ready k) = current_thread k" "idle_thread (polls_ready k) = idle_thread k"
  "alarm (polls_ready k) = alarm k" "wait_queues (polls_ready k) = wait_queues k" "locks (polls_ready k) = locks k"
proof -
  have d: "is_due n (polls_ready k) = is_due n k" for n k by (rule is_due_cong) (simp add: polls_ready_def)
  have a: "next_alarm (polls_ready k) = next_alarm k" for k
    by (simp add: polls_ready_def next_alarm_def split: list.split)
  show "rescheduled n (polls_ready k) k' = rescheduled n k k'" "rescheduled n k (polls_ready k') = rescheduled n k k'"
    using d a by (simp_all add: rescheduled_def due_threads_def) (simp_all add: polls_ready_def sched_frame_def waits_def)
qed (simp_all add: polls_ready_def settled_def stacks_alive_def threads_only_def)

lemma interrupt_exit_loop_ok:
  assumes k: "settled (Some i) k" and r: "pending_reschedule_kind k = 0 \<or> pending_reschedule_kind k AND 3 \<noteq> 0"
  shows "\<exists>k'. interrupt_exit_loop e k = Some (Inr k') \<and> settled (Some i) k' \<and> pending_reschedule_kind k' = 0
     \<and> (if pending_reschedule_kind k = 0 then k' = polls_ready k else rescheduled (now e) k k')"
proof -
  have drain: "loop_result (drain_polls e k) = Inr (polls_ready k)"
    using k drain_polls_empty by (simp add: settled_def loop_result_def polls_ready_def)
  have "\<exists>k2. execute_pending_reschedule e no_yield (polls_ready k) = Inr k2 \<and> settled (Some i) k2
     \<and> pending_reschedule_kind k2 = 0
     \<and> (if pending_reschedule_kind k = 0 then k2 = polls_ready k else rescheduled (now e) k k2)"
  proof (cases "pending_reschedule_kind k = 0")
    case True
    have "(polls_ready k)\<lparr>pending_reschedule_kind := 0\<rparr> = polls_ready k"
      using True by (cases k) (simp add: polls_ready_def)
    then have "execute_pending_reschedule e no_yield (polls_ready k) = Inr (polls_ready k)"
      using True by (simp only: execute_pending_reschedule_def atomic_swap_def RESCHEDULE_KIND_NONE_def
          polls_ready_simps Let_def prod.case simp_thms if_True)
    with True k show ?thesis by simp
  next
    case False
    with r have "pending_reschedule_kind (polls_ready k) AND 3 \<noteq> 0" by simp
    from execute_pending_reschedule_ok [OF _ this, of i e no_yield] k False show ?thesis by auto
  qed
  then obtain k2 where k2: "execute_pending_reschedule e no_yield (polls_ready k) = Inr k2"
    "settled (Some i) k2" "pending_reschedule_kind k2 = 0"
    "if pending_reschedule_kind k = 0 then k2 = polls_ready k else rescheduled (now e) k k2" by blast
  have "interrupt_exit_loop e k = Some (Inr (polls_ready k2))"
    using drain k2 aq_is_empty_holds [of "pending_executor_polls k2"]
    by (simp add: interrupt_exit_loop.simps [of e k] settled_def polls_ready_def)
  moreover have "polls_ready (polls_ready k) = polls_ready k" by (simp add: polls_ready_def)
  ultimately show ?thesis using k2 by (auto split: if_splits)
qed

section \<open>Whole interrupts\<close>

definition quiescent :: "kernel \<Rightarrow> bool" where
  "quiescent k \<longleftrightarrow> settled None k \<and> pending_reschedule_kind k = 0"

definition at_interrupt :: "iptr \<Rightarrow> kernel \<Rightarrow> kernel" where
  "at_interrupt i k = k\<lparr>current_interrupt := Some i\<rparr>"

definition after_interrupt :: "kernel \<Rightarrow> kernel" where
  "after_interrupt k = k\<lparr>current_interrupt := None\<rparr>"

lemma at_interrupt_settled: "settled None k \<Longrightarrow> settled (Some i) (at_interrupt i k)"
  by (simp add: settled_def at_interrupt_def stacks_alive_def threads_only_def)

lemma after_interrupt_settled: "settled (Some i) k \<Longrightarrow> settled None (after_interrupt k)"
  by (simp add: settled_def after_interrupt_def stacks_alive_def threads_only_def)

lemma interrupt_context_ok:
  assumes q: "settled None k" and f: "f (at_interrupt i k) = Inr (r, k1)" and k1: "settled (Some i) k1"
    and kd: "pending_reschedule_kind k1 = 0 \<or> pending_reschedule_kind k1 AND 3 \<noteq> 0"
  shows "\<exists>k2. interrupt_context e i f k = Inr (r, after_interrupt k2) \<and> quiescent (after_interrupt k2)
     \<and> (if pending_reschedule_kind k1 = 0 then k2 = polls_ready k1 else rescheduled (now e) k1 k2)"
proof -
  from interrupt_exit_loop_ok [OF k1 kd, of e] obtain k2 where k2:
    "interrupt_exit_loop e k1 = Some (Inr k2)" "settled (Some i) k2" "pending_reschedule_kind k2 = 0"
    "if pending_reschedule_kind k1 = 0 then k2 = polls_ready k1 else rescheduled (now e) k1 k2" by blast
  have "quiescent (after_interrupt k2)"
    using after_interrupt_settled [OF k2(2)] k2(3) by (simp add: quiescent_def after_interrupt_def)
  moreover have "interrupt_context e i f k = Inr (r, after_interrupt k2)"
    using q f k2(1) by (simp add: interrupt_context_def atomic_swap_def settled_def
        at_interrupt_def after_interrupt_def loop_result_def)
  ultimately show ?thesis using k2(4) by blast
qed

end
