(* ===== verification/Kernel_Calls.thy ===== *)
theory Kernel_Calls
  imports Kernel_Frames
begin

text \<open>
  Whole system calls and interrupts, from the thread that issues them to the thread that runs when
  they are over. Shown: from a quiescent state they return and leave a quiescent state, what they
  did, and that there is no priority inversion afterwards.
\<close>

section \<open>From a thread through an interrupt and back\<close>

definition entered :: "iptr \<Rightarrow> kernel \<Rightarrow> kernel" where
  "entered i k = locked i (at_interrupt i k)"

definition returned :: "kernel \<Rightarrow> kernel" where
  "returned k = after_interrupt (polls_ready (unlocked k))"

lemma entered_simps [simp]:
  "suspendable_priority (entered i k) = suspendable_priority k"
  "threads (entered i k) = threads k" "ready_queue (entered i k) = ready_queue k"
  "blocked_list (entered i k) = blocked_list k" "suspended_list (entered i k) = suspended_list k"
  "sleep_queue (entered i k) = sleep_queue k" "suspendables (entered i k) = suspendables k"
  "current_thread (entered i k) = current_thread k" "idle_thread (entered i k) = idle_thread k"
  "pending_reschedule_kind (entered i k) = pending_reschedule_kind k" "alarm (entered i k) = alarm k"
  "wait_queues (entered i k) = wait_queues k" "locks (entered i k) = locks k" "current_interrupt (entered i k) = Some i"
  by (simp_all add: entered_def at_interrupt_def) (simp add: suspendable_priority_def locked_def fun_eq_iff split: suspendable_kind.split)

lemma returned_simps [simp]:
  "threads (returned k) = threads k" "ready_queue (returned k) = ready_queue k"
  "blocked_list (returned k) = blocked_list k" "suspended_list (returned k) = suspended_list k"
  "sleep_queue (returned k) = sleep_queue k" "suspendables (returned k) = suspendables k"
  "current_thread (returned k) = current_thread k" "idle_thread (returned k) = idle_thread k"
  "pending_reschedule_kind (returned k) = pending_reschedule_kind k" "alarm (returned k) = alarm k"
  "wait_queues (returned k) = wait_queues k" "locks (returned k) = locks k"
  by (simp_all add: returned_def after_interrupt_def)

lemma sched_state_cong:
  assumes "threads k = threads k0" "ready_queue k = ready_queue k0" "blocked_list k = blocked_list k0"
    "suspended_list k = suspended_list k0" "sleep_queue k = sleep_queue k0" "suspendables k = suspendables k0"
    "current_thread k = current_thread k0" "idle_thread k = idle_thread k0" "locks k = locks k0"
    "alarm k = alarm k0"
  shows "sched_inv k = sched_inv k0" "sched_frame k k' = sched_frame k0 k'" "sched_frame k' k = sched_frame k' k0"
    "locks_priority_ceiling k = locks_priority_ceiling k0" "next_chosen k k' = next_chosen k0 k'"
    "next_chosen k' k = next_chosen k' k0" "threads_only k = threads_only k0" "canary_ok k = canary_ok k0"
    "next_alarm k = next_alarm k0" "suspended_after t k k' = suspended_after t k0 k'"
    "suspended_after t k' k = suspended_after t k' k0"
proof -
  show inv: "sched_inv k = sched_inv k0" and fr: "sched_frame k k' = sched_frame k0 k'" "sched_frame k' k = sched_frame k' k0"
    and ceil: "locks_priority_ceiling k = locks_priority_ceiling k0"
    by (simp_all add: sched_inv_fl_def sched_frame_def locks_priority_ceiling_def assms split: option.split)
  show "next_chosen k k' = next_chosen k0 k'" "next_chosen k' k = next_chosen k' k0"
    by (simp_all add: next_chosen_def ceil assms)
  show "suspended_after t k k' = suspended_after t k0 k'" "suspended_after t k' k = suspended_after t k' k0"
    by (simp_all add: suspended_after_def fr inv assms)
qed (simp_all add: threads_only_def canary_ok_def next_alarm_def assms split: list.split)

lemmas entered_irrelevant [simp] = sched_state_cong [of "entered i k" k for i k, simplified]
lemmas returned_irrelevant [simp] = sched_state_cong [of "returned k" k for k, simplified]

lemma blocked_on_cong [simp]:
  "blocked_on dl (entered i k) k' = blocked_on dl k k'" "blocked_on dl k (returned k') = blocked_on dl k k'"
  by (simp_all add: blocked_on_def)

lemma resume_preempts_cong [simp]:
  "resume_preempts t (entered i k) = resume_preempts t k" "resume_preempts t (returned k) = resume_preempts t k"
  by (simp_all add: resume_preempts_def)

lemma quiescentD:
  assumes "quiescent k"
  shows "sched_inv k" "canary_ok k" "threads_only k" "current_interrupt k = None" "preempt_lock k = None"
    "pending_reschedule_kind k = 0" "stacks_alive k" "settled None k"
  using assms settled_canary [of None k] by (simp_all add: quiescent_def settled_def)

lemma raw_in_interrupt:
  assumes q: "quiescent k" and f: "f (entered i k) = Inr (r, k1)" and kept: "kept (entered i k) k1"
    and k1: "sched_inv k1" "sched_frame k k1" "threads_only k1"
  shows "pl_try_with e y (with_raw f) (at_interrupt i k) = Inr (Some r, unlocked k1)"
    and "settled (Some i) (unlocked k1)" and "pending_reschedule_kind (unlocked k1) = 0"
proof -
  note s = at_interrupt_settled [OF quiescentD(8) [OF q], of i]
  have c: "cells k1 = cells (locked i (at_interrupt i k))" using kept by (simp add: kept_def entered_def)
  have fr: "sched_frame (at_interrupt i k) k1" using k1(2) by (simp add: sched_frame_def at_interrupt_def)
  show "pl_try_with e y (with_raw f) (at_interrupt i k) = Inr (Some r, unlocked k1)"
    "settled (Some i) (unlocked k1)"
    using locked_ok [where f = f, OF s _ c k1(1) fr k1(3)] f by (simp_all add: entered_def)
  show "pending_reschedule_kind (unlocked k1) = 0"
    using kept quiescentD(6) [OF q] by (simp add: kept_def)
qed

text \<open>A system call that runs one raw operation and asks for no reschedule.\<close>

lemma syscall_ok:
  fixes e k c
  defines "i \<equiv> SYSCALL_INTERRUPT_HANDLER"
  assumes q: "quiescent k" and f: "f (entered i k) = Inr (r, k1)" and kept: "kept (entered i k) k1"
    and k1: "sched_inv k1" "sched_frame k k1" "threads_only k1"
    and body: "pl_try_with e no_yield (with_raw f) (at_interrupt i k) = Inr (Some r, unlocked k1) \<Longrightarrow>
        syscall_body e c (at_interrupt i k) = Inr (v, unlocked k1)"
  shows "kernel_syscall_handler e c k = Inr (v, returned k1)" and "quiescent (returned k1)"
proof -
  note raw = raw_in_interrupt [where f = f, OF q f kept k1]
  have b: "syscall_body e c (at_interrupt i k) = Inr (v, unlocked k1)" by (rule body [OF raw(1)])
  from interrupt_context_ok [where f = "syscall_body e c", OF quiescentD(8) [OF q] b raw(2), of e] raw(3)
  show "kernel_syscall_handler e c k = Inr (v, returned k1)" "quiescent (returned k1)"
    by (simp_all add: returned_def kernel_syscall_handler_def i_def)
qed

section \<open>System calls\<close>

lemma join_time_split: "join_time (time_hi t) (time_lo t) = t"
proof -
  have "push_bit 32 (ucast (time_hi t) :: u64) + ucast (time_lo t) = push_bit 32 (ucast (time_hi t)) OR ucast (time_lo t)"
    by (rule disjunctive_add_eq_or) (auto simp: bit_eq_iff bit_simps dest: bit_imp_le_length)
  also have "\<dots> = t"
    by (rule bit_word_eqI) (auto simp: time_hi_def time_lo_def bit_simps)
  finally show ?thesis by (simp add: join_time_def)
qed

lemma sched_frame_entered: "sched_frame (entered i k) k1 \<Longrightarrow> sched_frame k k1"
  by simp

lemma blocked_on_threads_only: "blocked_on dl k k' \<Longrightarrow> threads_only k \<Longrightarrow> threads_only k'"
  by (auto simp: blocked_on_def threads_only_def split: if_splits)

lemma delay_until_ok:
  assumes q: "quiescent k" and ni: "current_thread k \<noteq> idle_thread k"
  shows "\<exists>k'. delay_until e time k = Inr k' \<and> quiescent k' \<and> blocked_on (Some (tick time)) k k'
     \<and> set (ready_queue k') \<subseteq> set (ready_queue k)"
proof -
  let ?i = SYSCALL_INTERRUPT_HANDLER and ?f = "unit_op (delay_thread_until_raw (tick time))"
  have "sched_inv (entered ?i k)" "current_thread (entered ?i k) \<noteq> idle_thread (entered ?i k)"
    "canary_ok (entered ?i k)" using quiescentD [OF q] ni by simp_all
  from delay_thread_until_ok [OF this, of "tick time"] obtain k1
    where raw: "delay_thread_until_raw (tick time) (entered ?i k) = Inr k1" and b: "blocked_on (Some (tick time)) k k1"
    by auto
  have f: "?f (entered ?i k) = Inr ((), k1)" using raw by (simp add: unit_op_def)
  note kept = delay_kept [OF raw]
  have k1: "sched_inv k1" "sched_frame k k1" "threads_only k1"
    using b blocked_on_threads_only [OF b quiescentD(3) [OF q]] by (simp_all add: blocked_on_def)
  let ?c = "SysDelayUntil (time_hi (tick time)) (time_lo (tick time))"
  have body: "syscall_body e ?c (at_interrupt ?i k) = Inr (0, unlocked k1)"
    if "pl_try_with e no_yield (with_raw ?f) (at_interrupt ?i k) = Inr (Some (), unlocked k1)"
    using that by (simp add: syscall_body_def delay_thread_until_def join_time_split)
  have "kernel_syscall_handler e ?c k = Inr (0, returned k1)" "quiescent (returned k1)"
    using syscall_ok [where f = ?f, OF q f conjunct1 [OF kept] k1 body] by simp_all
  then show ?thesis using kept b by (simp add: delay_until_def)
qed

lemma wait_event_syscall_ok:
  assumes q: "quiescent k" and ni: "current_thread k \<noteq> idle_thread k"
    and prep: "wait_event_prepare evs (events (threads k (current_thread k))) = ((received, blocks), es)"
    and c: "c = SysWaitEvent evs \<and> dl = None
      \<or> (\<exists>time. c = SysWaitEventUntil evs (time_hi time) (time_lo time) \<and> dl = Some time)"
  shows "\<exists>k'. kernel_syscall_handler e c k = Inr (received, k') \<and> quiescent k'
     \<and> (if blocks then blocked_on dl k k'
        else threads k' = (threads k)(current_thread k := (threads k (current_thread k))\<lparr>events := es\<rparr>)
          \<and> ready_queue k' = ready_queue k \<and> blocked_list k' = blocked_list k
          \<and> current_thread k' = current_thread k)
     \<and> set (ready_queue k') \<subseteq> set (ready_queue k)
     \<and> tevents (threads k') = (tevents (threads k))(current_thread k := es)"
proof -
  let ?i = SYSCALL_INTERRUPT_HANDLER and ?f = "wait_current_thread_event evs dl"
  have e: "sched_inv (entered ?i k)" "current_thread (entered ?i k) \<noteq> idle_thread (entered ?i k)"
    "canary_ok (entered ?i k)"
    "wait_event_prepare evs (events (threads (entered ?i k) (current_thread (entered ?i k)))) = ((received, blocks), es)"
    using quiescentD [OF q] ni prep by simp_all
  from wait_event_ok [OF e, of dl] obtain k1
    where raw: "?f (entered ?i k) = Inr (received, k1)"
      and b: "if blocks then blocked_on dl k k1
        else k1 = upd_thread (current_thread k) (\<lambda>x. x\<lparr>events := es\<rparr>) (entered ?i k)"
    by (auto split: if_splits)
  note kept = wait_event_kept [OF raw]
  have k1: "sched_inv k1 \<and> sched_frame k k1 \<and> threads_only k1"
  proof (cases blocks)
    case True
    with b blocked_on_threads_only [OF _ quiescentD(3) [OF q]] show ?thesis by (simp add: blocked_on_def)
  next
    case False
    with b quiescentD [OF q] show ?thesis
      by simp (simp add: sched_frame_def threads_only_def upd_thread_def)
  qed
  have body: "syscall_body e c (at_interrupt ?i k) = Inr (received, unlocked k1)"
    if "pl_try_with e no_yield (with_raw ?f) (at_interrupt ?i k) = Inr (Some received, unlocked k1)"
    using that c by (auto simp: syscall_body_def wait_current_thread_event_isr_def join_time_split)
  have "kernel_syscall_handler e c k = Inr (received, returned k1)" "quiescent (returned k1)"
    using syscall_ok [where f = ?f, OF q raw conjunct1 [OF kept] _ _ _ body] k1 by simp_all
  moreover have "tevents (threads k1) = (tevents (threads k))(current_thread k := es)"
    using wait_event_events [OF raw e(4)] by simp
  ultimately show ?thesis using kept b by (cases blocks) (auto simp: upd_thread_def)
qed

lemma wait_syscall_ok:
  assumes q: "quiescent k" and ni: "current_thread k \<noteq> idle_thread k"
    and free: "wait_link (suspendables k (OfThread (current_thread k))) = None"
  shows "\<exists>k'. thread_wait e w ceiling k = Inr k' \<and> quiescent k' \<and> blocked_on None k k'
     \<and> set (ready_queue k') \<subseteq> set (ready_queue k)
     \<and> wait_queues k' = (wait_queues k)(w := insert_after
          (\<lambda>q. suspendable_priority k q \<ge> suspendable_priority k (OfThread (current_thread k)))
          (OfThread (current_thread k)) (wait_queues k w))"
proof -
  let ?i = SYSCALL_INTERRUPT_HANDLER and ?f = "unit_op (wait_current_thread w (from_any ceiling))"
  have e: "sched_inv (entered ?i k)" "current_thread (entered ?i k) \<noteq> idle_thread (entered ?i k)"
    "canary_ok (entered ?i k)" "current_interrupt (entered ?i k) = Some ?i"
    "wait_link (suspendables (entered ?i k) (OfThread (current_thread (entered ?i k)))) = None"
    using quiescentD [OF q] ni free by simp_all
  from wait_current_thread_ok [OF e, of w "from_any ceiling"] obtain k1
    where raw: "wait_current_thread w (from_any ceiling) (entered ?i k) = Inr k1" and b: "blocked_on None k k1"
      and wq: "wait_queues k1 = (wait_queues k)(w := insert_after
          (\<lambda>q. suspendable_priority k q \<ge> suspendable_priority k (OfThread (current_thread k)))
          (OfThread (current_thread k)) (wait_queues k w))"
    by auto
  have f: "?f (entered ?i k) = Inr ((), k1)" using raw by (simp add: unit_op_def)
  note kept = wait_queue_kept [OF raw]
  have k1: "sched_inv k1" "sched_frame k k1" "threads_only k1"
    using b blocked_on_threads_only [OF b quiescentD(3) [OF q]] by (simp_all add: blocked_on_def)
  have body: "syscall_body e (SysWait w ceiling) (at_interrupt ?i k) = Inr (0, unlocked k1)"
    if "pl_try_with e no_yield (with_raw ?f) (at_interrupt ?i k) = Inr (Some (), unlocked k1)"
    using that by (simp add: syscall_body_def wait_current_thread_isr_def)
  have "kernel_syscall_handler e (SysWait w ceiling) k = Inr (0, returned k1)" "quiescent (returned k1)"
    using syscall_ok [where f = ?f, OF q f conjunct1 [OF kept] k1 body] by simp_all
  moreover have "wait_queues (returned k1) = wait_queues k1" by (simp add: returned_def after_interrupt_def)
  ultimately show ?thesis using kept b wq quiescentD(4) [OF q] by (simp add: thread_wait_def in_interrupt_def)
qed

lemma suspend_syscall_ok:
  assumes q: "quiescent k" and raw: "suspend_thread_raw m (entered SYSCALL_INTERRUPT_HANDLER k) = Inr k1"
    and k1: "sched_inv k1" "sched_frame k k1"
  shows "thread_suspend e m k = Inr (returned k1)" and "quiescent (returned k1)"
    and "set (ready_queue k1) \<subseteq> set (ready_queue k)"
proof -
  let ?i = SYSCALL_INTERRUPT_HANDLER and ?f = "unit_op (suspend_thread_raw m)"
  have f: "?f (entered ?i k) = Inr ((), k1)" using raw by (simp add: unit_op_def)
  note kept = suspend_kept [OF raw]
  have th: "threads_only k1" using kept quiescentD(3) [OF q] by (simp add: threads_only_def)
  have body: "syscall_body e (SysSuspend m) (at_interrupt ?i k) = Inr (0, unlocked k1)"
    if "pl_try_with e no_yield (with_raw ?f) (at_interrupt ?i k) = Inr (Some (), unlocked k1)"
    using that by (simp add: syscall_body_def suspend_thread_def)
  have h: "kernel_syscall_handler e (SysSuspend m) k = Inr (0, returned k1)" "quiescent (returned k1)"
    using syscall_ok [where f = ?f, OF q f conjunct1 [OF kept] k1 th body] by simp_all
  then show "thread_suspend e m k = Inr (returned k1)" "quiescent (returned k1)"
    "set (ready_queue k1) \<subseteq> set (ready_queue k)"
    using kept by (simp_all add: thread_suspend_def)
qed

lemma suspend_self_ok:
  assumes q: "quiescent k" and ni: "current_thread k \<noteq> idle_thread k"
  obtains k1 where "suspend_thread_raw None (entered SYSCALL_INTERRUPT_HANDLER k) = Inr k1"
    and "suspended_after (current_thread k) k k1" and "next_chosen k k1"
    and "thread_suspend e None k = Inr (returned k1)"
proof -
  let ?k = "entered SYSCALL_INTERRUPT_HANDLER k"
  have "sched_inv ?k" "current_thread ?k \<noteq> idle_thread ?k" "canary_ok ?k" using quiescentD [OF q] ni by simp_all
  from suspend_Running [OF this, of None] obtain k1 where k1:
    "suspend_thread_raw None ?k = Inr k1" "suspended_after (current_thread k) k k1" "next_chosen k k1" by auto
  have "sched_inv k1" "sched_frame k k1" using k1(2) by (simp_all add: suspended_after_def)
  from that [OF k1] suspend_syscall_ok(1) [OF q k1(1) this] show ?thesis by blast
qed

lemma rescheduled_after: "rescheduled n k (after_interrupt k') = rescheduled n k k'"
proof -
  have "next_alarm (after_interrupt k') = next_alarm k'"
    by (simp add: next_alarm_def after_interrupt_def split: list.split)
  then show ?thesis by (simp add: rescheduled_def) (simp add: after_interrupt_def sched_frame_def waits_def)
qed

lemma request_ok:
  assumes q: "settled None k" and r: "r AND 3 \<noteq> 0"
    and b: "b (at_interrupt i k) = Inr (v, set_pending_reschedule r (at_interrupt i k))"
  shows "\<exists>k'. interrupt_context e i b k = Inr (v, k') \<and> quiescent k' \<and> rescheduled (now e) k k'"
proof -
  let ?k = "set_pending_reschedule r (at_interrupt i k)"
  have "pending_reschedule_kind ?k AND 3 = (pending_reschedule_kind k AND 3) OR (r AND 3)"
    by (simp add: set_pending_reschedule_def at_interrupt_def bit.conj_disj_distrib2)
  then have r3: "pending_reschedule_kind ?k AND 3 \<noteq> 0" using r by (simp add: or_eq_0_iff)
  then have r0: "pending_reschedule_kind ?k \<noteq> 0" by auto
  have s: "settled (Some i) ?k"
    using at_interrupt_settled [OF q, of i]
    by (simp add: settled_def set_pending_reschedule_def stacks_alive_def threads_only_def)
  from interrupt_context_ok [where f = b, OF q b s, of e] r0 r3 obtain k2
    where "interrupt_context e i b k = Inr (v, after_interrupt k2)" "quiescent (after_interrupt k2)"
      "rescheduled (now e) ?k k2" by (auto split: if_splits)
  moreover have "rescheduled (now e) ?k k2 = rescheduled (now e) k k2"
    by (rule rescheduled_cong) (simp_all add: set_pending_reschedule_def at_interrupt_def)
  ultimately show ?thesis using rescheduled_after by blast
qed

lemma timer_ok:
  assumes "settled None k"
  shows "\<exists>k'. kernel_wakeup_handler e k = Inr ((), k') \<and> quiescent k' \<and> rescheduled (now e) k k'"
  unfolding kernel_wakeup_handler_def
  by (rule request_ok [OF assms, of 1])
    (simp_all add: wakeup_scheduler_isr_def RESCHEDULE_KIND_YIELD_TO_HIGHER_def)

lemma yield_ok:
  assumes "settled None k"
  shows "\<exists>k'. thread_yield e k = Inr k' \<and> quiescent k' \<and> rescheduled (now e) k k'"
proof -
  have "\<exists>k'. kernel_syscall_handler e SysYield k = Inr (0, k') \<and> quiescent k' \<and> rescheduled (now e) k k'"
    unfolding kernel_syscall_handler_def
    by (rule request_ok [OF assms, of 3])
      (simp_all add: syscall_body_def yield_current_thread_isr_def RESCHEDULE_KIND_YIELD_TO_HIGHER_def
        RESCHEDULE_KIND_YIELD_TO_EQUAL_def)
  then show ?thesis by (auto simp: thread_yield_def)
qed

section \<open>Resuming through the locks\<close>

lemma bind_res_Inr: "bind_res m Inr = m"
  by (cases m) simp_all

lemma resume_raw_frame:
  assumes "sched_inv k" and "threads_only k"
  shows "\<exists>k1. resume_thread_raw t k = Inr k1 \<and> resumed t k k1 \<and> cells k1 = cells k \<and> threads_only k1"
proof -
  obtain k1 where k1: "resume_thread_raw t k = Inr k1" "resumed t k k1"
    using resume_thread_ok [OF assms(1)] by blast
  then obtain k0 where k0: "resume_thread_move t k = Inr k0"
    "k1 = (if resume_preempts t k0 then set_pending_reschedule RESCHEDULE_KIND_YIELD_TO_HIGHER k0 else k0)"
    by (auto simp: resume_thread_raw_def bind_res_eq_Inr)
  have "sleep_queue k1 = sleep_queue k0" "cells k1 = cells k0"
    using k0(2) by (simp_all) (simp_all add: set_pending_reschedule_def)
  with resume_thread_move_kept [OF k0(1)] assms(2) have "cells k1 = cells k" "threads_only k1"
    by (auto simp: kept_def threads_only_def)
  with k1 show ?thesis by blast
qed

lemma resumed_kind:
  "resumed t k k1 \<Longrightarrow> pending_reschedule_kind k = 0 \<Longrightarrow>
     pending_reschedule_kind k1 = (if resume_preempts t k1 then 1 else 0)"
  by (simp add: resumed_def RESCHEDULE_KIND_YIELD_TO_HIGHER_def)

text \<open>
  What resuming a thread has done when the processor is back in a thread: the thread was resumed,
  and if it preempts, the processor was rescheduled.
\<close>

definition resumed_and_run :: "u64 \<Rightarrow> tptr \<Rightarrow> kernel \<Rightarrow> kernel \<Rightarrow> bool" where
  "resumed_and_run n t k k' \<longleftrightarrow>
     (\<exists>k1. resumed t k k1 \<and> (if resume_preempts t k1 then rescheduled n k1 k'
        else threads k' = threads k1 \<and> ready_queue k' = ready_queue k1 \<and> blocked_list k' = blocked_list k1
          \<and> suspended_list k' = suspended_list k1 \<and> sleep_queue k' = sleep_queue k1
          \<and> suspendables k' = suspendables k1 \<and> current_thread k' = current_thread k1 \<and> alarm k' = alarm k1
          \<and> idle_thread k' = idle_thread k1 \<and> locks k' = locks k1 \<and> wait_queues k' = wait_queues k1))"

lemma resumed_cong:
  assumes "threads k = threads k0" "ready_queue k = ready_queue k0"
    "sleep_queue k = sleep_queue k0" "pending_reschedule_kind k = pending_reschedule_kind k0"
    "current_thread k = current_thread k0" "idle_thread k = idle_thread k0"
    "blocked_list k = blocked_list k0" "locks k = locks k0" "waits k = waits k0"
    "suspended_list k = suspended_list k0" "suspendables k = suspendables k0" "alarm k = alarm k0"
  shows "resumed t k k1 = resumed t k0 k1"
  by (simp add: resumed_def sched_frame_def assms)

text \<open>Resuming a thread in an interrupt handler, at any point of it.\<close>

lemma isr_resume_settled:
  assumes s: "settled (Some i) k"
  shows "\<exists>k1. resume_thread e no_yield t k = Inr (unlocked k1) \<and> resumed t k k1 \<and> settled (Some i) (unlocked k1)"
proof -
  obtain k1 where k1: "resume_thread_raw t (locked i k) = Inr k1" "resumed t (locked i k) k1"
    "cells k1 = cells (locked i k)" "threads_only k1"
    using resume_raw_frame [of "locked i k" t] s by (auto simp: settled_def)
  have r: "resumed t k k1" using k1(2) by (simp add: resumed_cong [of "locked i k" k] waits_def)
  have f: "unit_op (resume_thread_raw t) (locked i k) = Inr ((), k1)" using k1(1) by (simp add: unit_op_def)
  have fr: "sched_inv k1" "sched_frame k k1" using r by (simp_all add: resumed_def)
  note l = locked_ok [where f = "unit_op (resume_thread_raw t)", OF s f k1(3) fr k1(4)]
  have "resume_thread e no_yield t k = Inr (unlocked k1)"
    using l(1) [of e no_yield] by (simp add: unit_op_def resume_thread_def)
  with r l(2) show ?thesis by blast
qed

lemma isr_resume_body:
  assumes q: "quiescent k"
  shows "\<exists>k1. resume_thread e no_yield t (at_interrupt i k) = Inr (unlocked k1) \<and> resumed t k k1
     \<and> settled (Some i) (unlocked k1) \<and> pending_reschedule_kind (unlocked k1) = (if resume_preempts t k1 then 1 else 0)"
proof -
  obtain k1 where k1: "resume_thread e no_yield t (at_interrupt i k) = Inr (unlocked k1)"
    "resumed t (at_interrupt i k) k1" "settled (Some i) (unlocked k1)"
    using isr_resume_settled [OF at_interrupt_settled [OF quiescentD(8) [OF q]]] by blast
  have "resumed t (at_interrupt i k) k1 = resumed t k k1"
    by (rule resumed_cong) (simp_all add: at_interrupt_def waits_def)
  with k1(2) have r: "resumed t k k1" by simp
  have "pending_reschedule_kind (unlocked k1) = (if resume_preempts t k1 then 1 else 0)"
    using resumed_kind [OF r] quiescentD(6) [OF q] by simp
  with k1 r show ?thesis by blast
qed

lemma isr_resume_ok:
  assumes q: "quiescent k"
  shows "\<exists>k'. interrupt_context e i (\<lambda>k. bind_res (resume_thread e no_yield t k) (\<lambda>k1. Inr (v, k1))) k = Inr (v, k')
     \<and> quiescent k' \<and> resumed_and_run (now e) t k k'"
proof -
  let ?b = "\<lambda>k. bind_res (resume_thread e no_yield t k) (\<lambda>k1. Inr (v, k1))"
  obtain k1 where k1: "resume_thread e no_yield t (at_interrupt i k) = Inr (unlocked k1)" "resumed t k k1"
    "settled (Some i) (unlocked k1)"
    and kd: "pending_reschedule_kind (unlocked k1) = (if resume_preempts t k1 then 1 else 0)"
    using isr_resume_body [OF q] by blast
  have b: "?b (at_interrupt i k) = Inr (v, unlocked k1)" using k1(1) by simp
  have "pending_reschedule_kind (unlocked k1) = 0 \<or> pending_reschedule_kind (unlocked k1) AND 3 \<noteq> 0"
    using kd by simp
  from interrupt_context_ok [where f = ?b, OF quiescentD(8) [OF q] b k1(3) this, of e] obtain k2
    where k2: "interrupt_context e i ?b k = Inr (v, after_interrupt k2)" "quiescent (after_interrupt k2)"
      "if pending_reschedule_kind (unlocked k1) = 0 then k2 = polls_ready (unlocked k1)
       else rescheduled (now e) (unlocked k1) k2" by blast
  have "rescheduled (now e) (unlocked k1) k2 = rescheduled (now e) k1 k2" by (rule rescheduled_cong) simp_all
  then have "resumed_and_run (now e) t k (after_interrupt k2)"
    unfolding resumed_and_run_def using k1(2) k2(3) kd
    by (intro exI [of _ k1], cases "resume_preempts t k1")
      (simp_all add: rescheduled_after, simp_all add: after_interrupt_def)
  with k2 show ?thesis by blast
qed

lemma thread_resume_ok:
  assumes q: "quiescent k"
  shows "\<exists>k'. resume_thread e (thread_yield e) t k = Inr k' \<and> quiescent k' \<and> resumed_and_run (now e) t k k'"
proof -
  let ?k = "k\<lparr>preempt_lock := Some (PThread (current_thread k)), raw_borrowed := True\<rparr>"
  obtain k1 where k1: "resume_thread_raw t ?k = Inr k1" "resumed t ?k k1" "cells k1 = cells ?k" "threads_only k1"
    using resume_raw_frame [of ?k t] quiescentD [OF q] by (auto simp: threads_only_def)
  have r: "resumed t k k1" using k1(2) by (simp add: resumed_cong [of ?k k] waits_def)
  have c: "pending_resume k1 = pending_resume k" "pending_sleep k1 = pending_sleep k"
    "pending_executor_polls k1 = pending_executor_polls k" "raw_borrowed k1"
    "preempt_lock k1 = Some (PThread (current_thread k))" "current_interrupt k1 = None"
    using k1(3) quiescentD(4) [OF q] by (simp_all add: cells_def)
  have p: "aq_holds (pending_resume k) []" "aq_holds (pending_sleep k) []" "\<not> raw_borrowed k"
    "aq_holds (pending_executor_polls k) []"
    using q by (simp_all add: quiescent_def settled_def)
  have cp: "complete_pending e (k1\<lparr>raw_borrowed := False\<rparr>) = Inr (k1\<lparr>raw_borrowed := False,
     pending_resume := init_once (pending_resume k), pending_sleep := init_once (pending_sleep k)\<rparr>)"
    using complete_pending_empty [of "k1\<lparr>raw_borrowed := False\<rparr>"] p c by simp
  let ?u = "unlocked k1"
  have eq: "k1\<lparr>raw_borrowed := False, pending_resume := init_once (pending_resume k),
      pending_sleep := init_once (pending_sleep k), preempt_lock := None\<rparr> = ?u"
    using c by (simp add: unlocked_def)
  have step: "resume_thread e (thread_yield e) t k =
      (if is_reschedule_pending ?u then thread_yield e ?u else Inr ?u)"
    using k1(1) p cp quiescentD [OF q]
    by (simp add: resume_thread_def pl_try_with_def pl_try_acquire_nesting_lock_def
        current_execution_context_def with_raw_def borrow_raw_def unit_op_def pl_release_nesting_lock_def
        Let_def eq bind_res_assoc bind_res_Inr)
  have su: "settled None ?u"
    using q c r k1(4) by (simp add: settled_def unlocked_def resumed_def quiescent_def threads_only_def
        stacks_alive_def sched_frame_def)
  have kd: "pending_reschedule_kind ?u = (if resume_preempts t k1 then 1 else 0)"
    using resumed_kind [OF r] quiescentD(6) [OF q] by simp
  show ?thesis
  proof (cases "resume_preempts t k1")
    case True
    obtain k' where "thread_yield e ?u = Inr k'" "quiescent k'" "rescheduled (now e) ?u k'"
      using yield_ok [OF su] by blast
    moreover have "rescheduled (now e) ?u k' = rescheduled (now e) k1 k'" by (rule rescheduled_cong) simp_all
    ultimately show ?thesis using True r step kd
      by (auto simp: resumed_and_run_def is_reschedule_pending_def RESCHEDULE_KIND_NONE_def)
  next
    case False
    then have "resume_thread e (thread_yield e) t k = Inr ?u" "quiescent ?u"
      using step kd su by (simp_all add: is_reschedule_pending_def RESCHEDULE_KIND_NONE_def quiescent_def)
    moreover have "resumed_and_run (now e) t k ?u"
      unfolding resumed_and_run_def using False r by (intro exI [of _ k1]) simp
    ultimately show ?thesis by blast
  qed
qed

section \<open>System calls that panic\<close>

lemma raw_error_in_interrupt:
  assumes q: "quiescent k" and f: "f (entered i k) = Inl err"
  shows "pl_try_with e y (with_raw f) (at_interrupt i k) = Inl err"
  using f quiescentD(4,5) [OF q] q
  by (simp add: pl_try_with_def pl_try_acquire_nesting_lock_def current_execution_context_def with_raw_def
      borrow_raw_def atomic_compare_exchange_def at_interrupt_def entered_def locked_def quiescent_def settled_def)

lemma syscall_error:
  "syscall_body e c (at_interrupt SYSCALL_INTERRUPT_HANDLER k) = Inl err \<Longrightarrow> kernel_syscall_handler e c k = Inl err"
  by (simp add: kernel_syscall_handler_def interrupt_context_def atomic_swap_def at_interrupt_def)

lemma idle_cannot_block:
  assumes q: "quiescent k" and c: "current_thread k = idle_thread k"
  shows "delay_until e time k = Inl (Panic ''Idle thread cannot block'')"
    and "thread_wait_event e evs k = Inl (Panic ''Idle thread cannot block'')"
    and "thread_wait_event_until e evs time k = Inl (Panic ''Idle thread cannot block'')"
    and "thread_wait e w ceiling k = Inl (Panic ''Idle thread cannot block'')"
proof -
  let ?i = SYSCALL_INTERRUPT_HANDLER and ?p = "Inl (Panic ''Idle thread cannot block'')"
  have idle: "is_idle (current_thread (entered ?i k)) (entered ?i k)" using c by (simp add: is_idle_def)
  have nin: "\<not> in_interrupt k" using quiescentD(4) [OF q] by (simp add: in_interrupt_def)
  note err = raw_error_in_interrupt [OF q, where i = ?i and e = e and y = no_yield]
  have "pl_try_with e no_yield (with_raw (unit_op (delay_thread_until_raw (tick time)))) (at_interrupt ?i k) = ?p"
    using idle by (intro err) (simp add: unit_op_def delay_thread_until_raw_def)
  then show "delay_until e time k = ?p"
    using syscall_error [of e "SysDelayUntil (time_hi (tick time)) (time_lo (tick time))"]
    by (simp add: delay_until_def syscall_body_def delay_thread_until_def join_time_split)
  have ev: "pl_try_with e no_yield (with_raw (wait_current_thread_event evs dl)) (at_interrupt ?i k) = ?p" for dl
    using idle by (intro err) (simp add: wait_current_thread_event_def)
  show "thread_wait_event e evs k = ?p"
    using ev [of None] nin syscall_error [of e "SysWaitEvent evs"]
    by (simp add: thread_wait_event_def syscall_body_def wait_current_thread_event_isr_def)
  show "thread_wait_event_until e evs time k = ?p"
    using ev [of "Some (tick time)"] nin
      syscall_error [of e "SysWaitEventUntil evs (time_hi (tick time)) (time_lo (tick time))"]
    by (simp add: thread_wait_event_until_def syscall_body_def wait_current_thread_event_isr_def join_time_split)
  have "pl_try_with e no_yield (with_raw (unit_op (wait_current_thread w (from_any ceiling)))) (at_interrupt ?i k) = ?p"
    using idle by (intro err) (simp add: unit_op_def wait_current_thread_def)
  then show "thread_wait e w ceiling k = ?p"
    using nin syscall_error [of e "SysWait w ceiling"]
    by (simp add: thread_wait_def syscall_body_def wait_current_thread_isr_def)
qed

lemma wait_linked_panics:
  assumes q: "quiescent k" and ni: "current_thread k \<noteq> idle_thread k"
    and linked: "wait_link (suspendables k (OfThread (current_thread k))) \<noteq> None"
  shows "thread_wait e w ceiling k = Inl (Panic ''Cannot acquire a node that is already in a list'')"
proof -
  let ?i = SYSCALL_INTERRUPT_HANDLER and ?f = "unit_op (wait_current_thread w (from_any ceiling))"
  let ?p = "Inl (Panic ''Cannot acquire a node that is already in a list'')" and ?k = "entered ?i k"
  have en: "sched_inv ?k" "current_thread ?k \<noteq> idle_thread ?k" "canary_ok ?k" using quiescentD [OF q] ni by simp_all
  obtain k1 where k1: "(let (nxt, k1) = pop_ready_above ?k in switch_thread nxt k1) = Inr (current_thread k, k1)"
    "gave_up ?k k1" using give_up_ok [OF en] by auto
  obtain p k2 where k2: "i_raise_nesting_lock_priority ?i (from_any ceiling) k1 = (p, k2)" by fastforce
  then have sus: "suspendables k2 = suspendables k"
    using i_raise_eq [of ?i "from_any ceiling" k1] k1(2) by (auto simp: gave_up_def)
  have "insert_to_wait_queue w (OfThread (current_thread k)) k2 = ?p"
    using linked by (simp add: insert_to_wait_queue_def c_insert_after_def sus)
  then have "wait_current_thread w (from_any ceiling) ?k = ?p"
    using inv_current_not_idle [OF en(1)] en(2) k1 k2
    by (simp add: wait_current_thread_def gave_up_def split: prod.splits)
  then have "pl_try_with e no_yield (with_raw ?f) (at_interrupt ?i k) = ?p"
    by (intro raw_error_in_interrupt [OF q]) (simp add: unit_op_def)
  then show ?thesis
    using quiescentD(4) [OF q] syscall_error [of e "SysWait w ceiling"]
    by (simp add: thread_wait_def in_interrupt_def syscall_body_def wait_current_thread_isr_def)
qed

lemma suspend_idle_panics:
  assumes inv: "sched_inv k" and alive: "canary_ok k"
  shows "\<exists>msg. suspend_thread_raw (Some (idle_thread k)) k = Inl (Panic msg)"
proof (cases "idle_thread k = current_thread k")
  case True
  then have "tstate (threads k) (idle_thread k) = Running" using inv_states(4) [OF inv] by simp
  moreover obtain nxt k1 where p: "pop_ready_above k = (nxt, k1)" by fastforce
  then have k1: "threads k1 = threads k" "idle_thread k1 = idle_thread k" "current_thread k1 = current_thread k"
    by (auto simp: pop_ready_above_def Let_def split: prod.splits)
  have "tstate (threads k) (current_thread k) \<noteq> Created"
    using inv_states(4) [OF inv, of "current_thread k"] by simp
  then obtain s where "tstack (threads k) (current_thread k) = Some s" "is_alive s"
    using alive inv by (auto simp: canary_ok_def sched_inv_fl_def identified_def)
  then have "check_stack_overflow k1 = Inr ()" using k1 by (simp add: check_stack_overflow_def view_folds)
  then obtain k2 where k2: "switch_thread nxt k1 = Inr (current_thread k, k2)"
    "tid (threads k2) = tid (threads k)" "idle_thread k2 = idle_thread k"
    using k1 by (simp add: switch_thread_def Let_def) (simp add: kernel_upd_defs tid_def fun_eq_iff)
  moreover have "is_idle (current_thread k) (set_state (current_thread k) Suspended k2)"
    using k2(2,3) True by (simp add: is_idle_def view_folds kernel_upd_defs)
  ultimately show ?thesis
    using p by (simp add: suspend_thread_raw_def view_folds insert_to_suspended_list_def Let_def)
next
  case False
  then have "tstate (threads k) (idle_thread k) = Ready" "idle_thread k \<notin> set (ready_queue k)"
    using inv_states(1) [OF inv, of "idle_thread k"] inv_idle_unlisted [OF inv] by auto
  then show ?thesis by (simp add: suspend_thread_raw_def view_folds c_remove_def)
qed

lemma suspend_raw_error:
  assumes q: "quiescent k" and f: "suspend_thread_raw m (entered SYSCALL_INTERRUPT_HANDLER k) = Inl err"
  shows "thread_suspend e m k = Inl err"
proof -
  have "pl_try_with e no_yield (with_raw (unit_op (suspend_thread_raw m)))
      (at_interrupt SYSCALL_INTERRUPT_HANDLER k) = Inl err"
    using f by (intro raw_error_in_interrupt [OF q]) (simp add: unit_op_def)
  then show ?thesis
    using syscall_error [of e "SysSuspend m"] by (simp add: thread_suspend_def syscall_body_def suspend_thread_def)
qed

section \<open>Starting a thread\<close>

definition startable :: "tptr \<Rightarrow> kernel \<Rightarrow> bool" where
  "startable t k \<longleftrightarrow>
     state (threads k t) = Created \<and> stack (threads k t) \<noteq> None
   \<and> (\<forall>u. state (threads k u) \<noteq> Created \<longrightarrow> thread_id (threads k u) \<noteq> thread_id (threads k t))"

definition started :: "tptr \<Rightarrow> kernel \<Rightarrow> kernel" where
  "started t k = thread_init t (set_state t Started k)"

lemma started_views:
  "tstate (threads (started t k)) = (tstate (threads k))(t := Started)"
  "tprio (threads (started t k)) = tprio (threads k)" "tlock (threads (started t k)) = tlock (threads k)"
  "tid (threads (started t k)) = tid (threads k)" "tstack (threads (started t k)) = tstack (threads k)"
  by (simp_all add: started_def thread_init_def kernel_upd_defs)

lemma started_simps [simp]:
  "ready_queue (started t k) = ready_queue k" "blocked_list (started t k) = blocked_list k"
  "suspended_list (started t k) = suspended_list k" "sleep_queue (started t k) = sleep_queue k"
  "current_thread (started t k) = current_thread k" "idle_thread (started t k) = idle_thread k"
  "cells (started t k) = cells k" "pending_reschedule_kind (started t k) = pending_reschedule_kind k"
  "suspendables (started t k) = (suspendables k)(OfThread t := (suspendables k (OfThread t))\<lparr>kind := KThread t\<rparr>)"
  by (simp_all add: started_def thread_init_def) (simp_all add: kernel_upd_defs)

lemma started_inv:
  assumes inv: "sched_inv k" and t: "startable t k"
  shows "sched_inv (started t k)"
proof -
  have st: "tstate (threads k) t = Created" "tstack (threads k) t \<noteq> None"
    "\<forall>u. tstate (threads k) u \<noteq> Created \<longrightarrow> tid (threads k) u \<noteq> tid (threads k) t"
    using t by (simp_all add: startable_def view_defs)
  have un: "t \<notin> set (ready_queue k)" "t \<notin> set (blocked_list k)" "t \<notin> set (suspended_list k)"
    "t \<noteq> current_thread k" "t \<noteq> idle_thread k"
    using inv_states [OF inv, of t] st(1) inv by (auto simp: sched_inv_fl_def identified_def)
  have "OfThread t \<notin> set (sleep_queue k)" using sleeping_thread_blocked [OF inv] un(2) by blast
  then have "\<forall>s \<in> set (sleep_queue k). suspendables (started t k) s = suspendables k s" by auto
  moreover have "deadline (suspendables (started t k) s) = deadline (suspendables k s)" for s by simp
  ultimately have sl: "sleeping {} (suspendables (started t k)) (blocked_list k) (sleep_queue k)"
    using inv by (simp add: sched_inv_fl_def sleeping_def del: started_simps fun_upd_apply)
  have ident: "identified (tstate (threads (started t k))) (tid (threads k)) (tstack (threads k))
      (suspendables (started t k)) (idle_thread k)"
  proof -
    have "{u. ((tstate (threads k))(t := Started)) u \<noteq> Created} = insert t {u. tstate (threads k) u \<noteq> Created}"
      by auto
    moreover have "inj_on (tid (threads k)) (insert t {u. tstate (threads k) u \<noteq> Created})"
      using inv st(1,3) by (auto simp: sched_inv_fl_def identified_def inj_on_insert)
    ultimately show ?thesis
      using inv st(2) by (simp add: sched_inv_fl_def identified_def started_views)
  qed
  have pl: "placed {} ((tstate (threads k))(t := Started)) (ready_queue k) (blocked_list k) (suspended_list k)
      (idle_thread k) (current_thread k)"
    using inv_placed [OF inv] un st(1) by (auto simp: placed_def)
  show ?thesis
    using inv sl ident pl unfolding sched_inv_fl_def started_views started_simps(1-6) by blast
qed

lemma started_quiescent:
  assumes q: "quiescent k" and t: "startable t k"
  shows "quiescent (started t k)"
proof -
  have "sched_inv (started t k)" by (rule started_inv [OF quiescentD(1) [OF q] t])
  with q started_simps(7) [of t k] show ?thesis
    by (simp add: quiescent_def settled_def cells_def stacks_alive_def threads_only_def started_views)
qed

lemma thread_start_ok:
  assumes q: "quiescent k" and t: "startable t k"
  shows "\<exists>k'. thread_start e t k = Inr k' \<and> quiescent k' \<and> resumed_and_run (now e) t (started t k) k'"
proof -
  let ?i = SYSCALL_INTERRUPT_HANDLER and ?f = "\<lambda>k. bind_res (resume_thread e no_yield t k) (\<lambda>k1. Inr (0 :: u32, k1))"
  have body: "syscall_body e (SysStartThread t) = (\<lambda>k. ?f (thread_init t k))"
    by (rule ext) (simp add: syscall_body_def start_thread_def)
  have "thread_init t (x\<lparr>current_interrupt := c\<rparr>) = (thread_init t x)\<lparr>current_interrupt := c\<rparr>"
    "current_interrupt (thread_init t x) = current_interrupt x" for x c
    by (cases x; simp add: thread_init_def upd_suspendable_def)+
  then have "interrupt_context e ?i (\<lambda>k. ?f (thread_init t k)) (set_state t Started k)
      = interrupt_context e ?i ?f (started t k)"
    by (simp add: interrupt_context_def atomic_swap_def started_def)
  then have h: "kernel_syscall_handler e (SysStartThread t) (set_state t Started k)
      = interrupt_context e ?i ?f (started t k)"
    by (simp only: kernel_syscall_handler_def body)
  from isr_resume_ok [OF started_quiescent [OF q t], of e ?i t "0 :: u32"] obtain k'
    where "interrupt_context e ?i ?f (started t k) = Inr (0, k')" "quiescent k'"
      "resumed_and_run (now e) t (started t k) k'" by blast
  moreover have "state (threads k t) = Created" using t by (simp add: startable_def)
  ultimately show ?thesis by (simp add: thread_start_def h)
qed

section \<open>No priority inversion\<close>

text \<open>
  No ready thread is above both the running thread and the ceiling of the locks that the running
  and the blocked threads hold.
\<close>

definition no_inversion :: "kernel \<Rightarrow> bool" where
  "no_inversion k \<longleftrightarrow>
     (\<forall>t \<in> set (ready_queue k). priority (threads k t) \<le>
        max_valid (priority (threads k (current_thread k))) (locks_priority_ceiling k))"

lemma no_inversion_views:
  "no_inversion k \<longleftrightarrow> (\<forall>t \<in> set (ready_queue k). tprio (threads k) t \<le>
     max_valid (tprio (threads k) (current_thread k)) (locks_priority_ceiling k))"
  by (simp add: no_inversion_def tprio_def)

lemma max_valid_le_iff:
  "max_valid p s \<le> q \<longleftrightarrow> p \<le> q \<and> (\<forall>x. status_priority s = Some x \<longrightarrow> x \<le> q)"
  by (auto simp: max_valid_priority split: option.split)

lemma le_max_valid: "p \<le> max_valid p s" "status_priority s = Some x \<Longrightarrow> x \<le> max_valid p s"
  by (auto simp: max_valid_priority split: option.split)

lemma lock_ge_priority:
  "lock_ge a b \<Longrightarrow> status_priority b = Some p \<Longrightarrow> \<exists>q. status_priority a = Some q \<and> p \<le> q"
  by (auto simp: lock_ge_def split: option.splits)

lemma tlock_le_tprio: "status_priority (tlock ts t) = Some p \<Longrightarrow> p \<le> tprio ts t"
  by (simp add: tlock_def tprio_def priority_def le_max_valid)

lemma le_max_valid_lock_ge:
  "lock_ge a b \<Longrightarrow> status_priority b = Some x \<Longrightarrow> x \<le> max_valid p a"
  using lock_ge_priority le_max_valid(2) by (meson order_trans)

lemma no_inversion_rescheduled: "rescheduled n k k' \<Longrightarrow> no_inversion k'"
  using le_max_valid(1) by (auto simp: rescheduled_def no_inversion_views intro: order_trans)

text \<open>
  Every ready thread is within the ceiling of the running and the blocked threads, of which all
  that hold locks are still running or blocked.
\<close>

lemma ceiling_bound_kept:
  assumes "sched_inv k" and "sched_inv k'" and "sched_frame k k'"
    and hold: "\<And>u. u \<in> insert (current_thread k) (set (blocked_list k)) \<Longrightarrow>
        u \<in> insert (current_thread k') (set (blocked_list k')) \<or> tlock (threads k) u = SInvalid
        \<or> tprio (threads k) u \<le> p"
    and x: "status_priority (locks_priority_ceiling k) = Some x"
  shows "x \<le> max p (max_valid (tprio (threads k') (current_thread k')) (locks_priority_ceiling k'))"
proof -
  have views: "tlock (threads k') = tlock (threads k)" "tprio (threads k') = tprio (threads k)"
    using assms(3) by (simp_all add: sched_frame_def)
  obtain u where u: "u \<in> insert (current_thread k) (set (blocked_list k))"
    "locks_priority_ceiling k = tlock (threads k) u" using ceiling_is_max [OF assms(1)] by blast
  with x have ux: "status_priority (tlock (threads k) u) = Some x" by simp
  from hold [OF u(1)] show ?thesis
  proof (elim disjE)
    assume "u \<in> insert (current_thread k') (set (blocked_list k'))"
    then have "lock_ge (locks_priority_ceiling k') (tlock (threads k) u)"
      using ceiling_is_max [OF assms(2)] views by metis
    from le_max_valid_lock_ge [OF this ux] show ?thesis by (simp add: le_max_iff_disj)
  next
    assume "tlock (threads k) u = SInvalid"
    with ux show ?thesis by simp
  next
    assume "tprio (threads k) u \<le> p"
    with tlock_le_tprio [OF ux] have "x \<le> p" by (rule order_trans)
    then show ?thesis by (simp add: le_max_iff_disj)
  qed
qed

lemma no_inversion_next:
  assumes "sched_inv k" and "sched_inv k'" and fr: "sched_frame k k'" and nc: "next_chosen k k'"
    and sub: "set (ready_queue k') \<subseteq> set (ready_queue k)"
    and hold: "set (blocked_list k) \<subseteq> set (blocked_list k')"
      "current_thread k \<in> set (blocked_list k') \<or> tlock (threads k) (current_thread k) = SInvalid"
  shows "no_inversion k'"
proof -
  have views: "tprio (threads k') = tprio (threads k)" using fr by (simp add: sched_frame_def)
  let ?b = "max_valid (tprio (threads k) (current_thread k')) (locks_priority_ceiling k')"
  have "x \<le> max PRIORITY_MIN (max_valid (tprio (threads k') (current_thread k')) (locks_priority_ceiling k'))"
    if "status_priority (locks_priority_ceiling k) = Some x" for x
    using that hold by (intro ceiling_bound_kept [OF assms(1-3)]) auto
  then have "unwrap_or_default (locks_priority_ceiling k) PRIORITY_MIN \<le> ?b"
    using views by (auto simp: unwrap_or_default_priority split: option.split)
  then have "tprio (threads k) t \<le> ?b" if "t \<in> set (ready_queue k)" for t
    using nc that le_max_valid(1) [of "tprio (threads k) (current_thread k')" "locks_priority_ceiling k'"]
    unfolding next_chosen_def Let_def by (meson order_trans)
  with sub views show ?thesis by (auto simp: no_inversion_views)
qed

lemma no_inversion_blocked:
  assumes "sched_inv k" and "blocked_on dl k k'" and "set (ready_queue k') \<subseteq> set (ready_queue k)"
  shows "no_inversion k'"
proof -
  have b: "sched_inv k'" "sched_frame k k'" "next_chosen k k'"
    "set (blocked_list k') = insert (current_thread k) (set (blocked_list k))"
    using assms(2) by (simp_all add: blocked_on_def)
  show ?thesis using b(4) by (intro no_inversion_next [OF assms(1) b(1-3) assms(3)]) auto
qed

lemma no_inversion_resumed:
  assumes inv: "sched_inv k" and ni: "no_inversion k" and r: "resumed t k k1" and np: "\<not> resume_preempts t k1"
  shows "no_inversion k1"
proof -
  have s: "sched_inv k1" "sched_frame k k1" "current_thread k1 = current_thread k"
    "set (blocked_list k1) = set (blocked_list k) - {t}" using r unfolding resumed_def by blast+
  have ready: "set (ready_queue k1) \<subseteq> insert t (set (ready_queue k))"
    using r unfolding resumed_def by (cases "tstate (threads k) t \<in> {Blocked, Suspended, Started}") auto
  have views: "tprio (threads k1) = tprio (threads k)" using s(2) by (simp add: sched_frame_def)
  let ?c = "tprio (threads k) (current_thread k)"
  let ?b = "max_valid ?c (locks_priority_ceiling k1)"
  have t: "tprio (threads k) t \<le> ?b" using np s(3) views by (simp add: resume_preempts_def view_folds)
  have "x \<le> max ?b (max_valid (tprio (threads k1) (current_thread k1)) (locks_priority_ceiling k1))"
    if "status_priority (locks_priority_ceiling k) = Some x" for x
    using that s(3,4) t by (intro ceiling_bound_kept [OF inv s(1,2)]) auto
  then have "max_valid ?c (locks_priority_ceiling k) \<le> ?b"
    using s(3) views by (simp add: max_valid_le_iff le_max_valid)
  then show ?thesis
    using ni t s(3) ready views by (auto simp: no_inversion_views intro: order_trans)
qed

lemma no_inversion_cong:
  assumes "tprio (threads k) = tprio (threads k0)" and lk: "tlock (threads k) = tlock (threads k0)"
    and "ready_queue k = ready_queue k0" and b: "blocked_list k = blocked_list k0"
    and c: "current_thread k = current_thread k0"
  shows "no_inversion k = no_inversion k0"
proof -
  have "locks_priority_ceiling k = locks_priority_ceiling k0"
    using lk b c by (simp add: locks_priority_ceiling_def view_folds split: option.split)
  then show ?thesis using assms by (simp add: no_inversion_views)
qed

lemma no_inversion_resumed_and_run:
  assumes "sched_inv k" and "no_inversion k" and "resumed_and_run n t k k'"
  shows "no_inversion k'"
proof -
  obtain k1 where k1: "resumed t k k1" "if resume_preempts t k1 then rescheduled n k1 k'
        else threads k' = threads k1 \<and> ready_queue k' = ready_queue k1 \<and> blocked_list k' = blocked_list k1
          \<and> current_thread k' = current_thread k1"
    using assms(3) unfolding resumed_and_run_def by (auto split: if_splits)
  show ?thesis
  proof (cases "resume_preempts t k1")
    case True
    with k1 show ?thesis by (auto intro: no_inversion_rescheduled)
  next
    case False
    from no_inversion_resumed [OF assms(1,2) k1(1) False] k1(2) False show ?thesis
      by (simp add: no_inversion_cong [of k' k1])
  qed
qed

end
