(* ===== verification/Kernel_Steps.thy ===== *)
theory Kernel_Steps
  imports Kernel_Calls
begin

text \<open>
  The running system: a step relation over the operations that threads and interrupts issue, what
  every step keeps, and the properties of whole runs. Shown: the scheduler invariant and the bound
  on priority inversion hold between any two operations, when an operation returns and when it
  panics, what the timer interrupt does, and that a delayed thread is woken whatever happens
  in between.
\<close>

section \<open>Ready threads and the locks that hold them off\<close>

text \<open>
  Every ready thread is at most as urgent as the running one, or as a lock that the running, a
  blocked or a suspended thread holds.
\<close>

definition held_off :: "kernel \<Rightarrow> tptr \<Rightarrow> bool" where
  "held_off k t \<longleftrightarrow>
     (\<exists>u \<in> insert (current_thread k) (set (blocked_list k) \<union> set (suspended_list k)). \<exists>p.
        status_priority (lock_priority (threads k u)) = Some p \<and> priority (threads k t) \<le> p)"

definition within_locks :: "kernel \<Rightarrow> bool" where
  "within_locks k \<longleftrightarrow>
     (\<forall>t \<in> set (ready_queue k).
        priority (threads k t) \<le> priority (threads k (current_thread k)) \<or> held_off k t)"

lemma within_locks_views:
  "within_locks k \<longleftrightarrow> (\<forall>t \<in> set (ready_queue k). tprio (threads k) t \<le> tprio (threads k) (current_thread k)
     \<or> (\<exists>u \<in> insert (current_thread k) (set (blocked_list k) \<union> set (suspended_list k)). \<exists>p.
          status_priority (tlock (threads k) u) = Some p \<and> tprio (threads k) t \<le> p))"
  by (simp add: within_locks_def held_off_def view_folds)

lemma le_ceiling_cases:
  assumes "sched_inv k" and "status_priority (locks_priority_ceiling k) = Some c"
  obtains u where "u \<in> insert (current_thread k) (set (blocked_list k))" "status_priority (tlock (threads k) u) = Some c"
  using ceiling_is_max [OF assms(1)] assms(2) by metis

lemma within_locks_no_inversion:
  assumes inv: "sched_inv k" and w: "within_locks k"
    and none: "\<And>u. u \<in> set (suspended_list k) \<Longrightarrow> lock_priority (threads k u) = SInvalid"
  shows "no_inversion k"
  unfolding no_inversion_views
proof
  fix t assume "t \<in> set (ready_queue k)"
  with w consider "tprio (threads k) t \<le> tprio (threads k) (current_thread k)"
    | u p where "u \<in> insert (current_thread k) (set (blocked_list k) \<union> set (suspended_list k))"
      "status_priority (tlock (threads k) u) = Some p" "tprio (threads k) t \<le> p"
    unfolding within_locks_views by blast
  then show "tprio (threads k) t \<le> max_valid (tprio (threads k) (current_thread k)) (locks_priority_ceiling k)"
  proof cases
    case 1
    then show ?thesis using le_max_valid(1) by (rule order_trans)
  next
    case (2 u p)
    then have "u \<in> insert (current_thread k) (set (blocked_list k))" using none by (auto simp: view_folds)
    then have "lock_ge (locks_priority_ceiling k) (tlock (threads k) u)" using ceiling_is_max [OF inv] by blast
    from le_max_valid_lock_ge [OF this 2(2)] 2(3) show ?thesis by (meson order_trans)
  qed
qed

lemma no_inversion_within_locks:
  assumes inv: "sched_inv k" and n: "no_inversion k"
  shows "within_locks k"
  unfolding within_locks_views
proof
  fix t assume "t \<in> set (ready_queue k)"
  with n have "tprio (threads k) t \<le> max_valid (tprio (threads k) (current_thread k)) (locks_priority_ceiling k)"
    by (simp add: no_inversion_views)
  then consider "tprio (threads k) t \<le> tprio (threads k) (current_thread k)"
    | c where "status_priority (locks_priority_ceiling k) = Some c" "tprio (threads k) t \<le> c"
    by (auto simp: max_valid_priority le_max_iff_disj split: option.splits)
  then show "tprio (threads k) t \<le> tprio (threads k) (current_thread k)
      \<or> (\<exists>u \<in> insert (current_thread k) (set (blocked_list k) \<union> set (suspended_list k)). \<exists>p.
          status_priority (tlock (threads k) u) = Some p \<and> tprio (threads k) t \<le> p)"
    by cases (auto elim: le_ceiling_cases [OF inv])
qed

lemma within_locks_mono:
  assumes "tprio (threads k') = tprio (threads k)" and "tlock (threads k') = tlock (threads k)"
    and "current_thread k' = current_thread k" and "set (ready_queue k') \<subseteq> set (ready_queue k)"
    and "set (blocked_list k) \<union> set (suspended_list k) \<subseteq> set (blocked_list k') \<union> set (suspended_list k')"
    and "within_locks k"
  shows "within_locks k'"
  using assms(4-) unfolding within_locks_views assms(1-3) by blast

text \<open>After the running thread has given up the processor; it is blocked or suspended with its locks.\<close>

lemma within_locks_next:
  assumes inv: "sched_inv k" and fr: "sched_frame k k'" and nc: "next_chosen k k'"
    and sub: "set (ready_queue k') \<subseteq> set (ready_queue k)"
    and hold: "insert (current_thread k) (set (blocked_list k)) \<subseteq> set (blocked_list k') \<union> set (suspended_list k')"
  shows "within_locks k'"
  unfolding within_locks_views
proof
  let ?p = "tprio (threads k)" and ?c = "unwrap_or_default (locks_priority_ceiling k) PRIORITY_MIN"
  have v: "tprio (threads k') = ?p" "tlock (threads k') = tlock (threads k)" using fr by (simp_all add: sched_frame_def)
  fix t assume "t \<in> set (ready_queue k')"
  then have t: "t \<in> set (ready_queue k)" using sub by blast
  have "?p t \<le> ?p (current_thread k') \<or> ?p t \<le> ?c" using nc t unfolding next_chosen_def Let_def by blast
  then consider "?p t \<le> ?p (current_thread k')"
    | c where "status_priority (locks_priority_ceiling k) = Some c" "?p t \<le> c"
    by (auto simp: unwrap_or_default_priority split: option.splits intro: order_trans [OF _ priority_min_le(1)])
  then show "tprio (threads k') t \<le> tprio (threads k') (current_thread k')
      \<or> (\<exists>u \<in> insert (current_thread k') (set (blocked_list k') \<union> set (suspended_list k')). \<exists>p.
          status_priority (tlock (threads k') u) = Some p \<and> tprio (threads k') t \<le> p)"
  proof cases
    case (2 c)
    obtain u where "u \<in> insert (current_thread k) (set (blocked_list k))" "status_priority (tlock (threads k) u) = Some c"
      using le_ceiling_cases [OF inv 2(1)] by blast
    with hold 2(2) v show ?thesis by auto
  qed (simp add: v)
qed

lemma within_locks_blocked:
  assumes "sched_inv k" and "blocked_on dl k k'" and "set (ready_queue k') \<subseteq> set (ready_queue k)"
  shows "within_locks k'"
  using assms(2) by (intro within_locks_next [OF assms(1) _ _ assms(3)]) (auto simp: blocked_on_def)

lemma within_locks_rescheduled: "rescheduled n k k' \<Longrightarrow> within_locks k'"
  by (simp add: rescheduled_def within_locks_views)

lemma within_locks_resumed:
  assumes w: "within_locks k" and r: "resumed t k k1" and np: "\<not> resume_preempts t k1"
  shows "within_locks k1"
  unfolding within_locks_views
proof
  let ?p = "tprio (threads k)" and ?l = "tlock (threads k)" and ?c = "current_thread k"
  let ?H = "insert ?c (set (blocked_list k1) \<union> set (suspended_list k1))"
  have v: "tprio (threads k1) = ?p" "tlock (threads k1) = ?l" "current_thread k1 = ?c" "sched_inv k1"
    "set (blocked_list k1) = set (blocked_list k) - {t}" "set (suspended_list k1) = set (suspended_list k) - {t}"
    using r by (simp_all add: resumed_def sched_frame_def)
  have ready: "set (ready_queue k1) \<subseteq> insert t (set (ready_queue k))"
    using r unfolding resumed_def by (cases "tstate (threads k) t \<in> {Blocked, Suspended, Started}") auto
  have "?p t \<le> max_valid (?p ?c) (locks_priority_ceiling k1)" using np v by (simp add: resume_preempts_def view_folds)
  then consider "?p t \<le> ?p ?c" | c where "status_priority (locks_priority_ceiling k1) = Some c" "?p t \<le> c"
    by (auto simp: max_valid_priority le_max_iff_disj split: option.splits)
  then have t: "?p t \<le> ?p ?c \<or> (\<exists>u \<in> ?H. \<exists>p. status_priority (?l u) = Some p \<and> ?p t \<le> p)"
  proof cases
    case (2 c)
    obtain u where "u \<in> insert (current_thread k1) (set (blocked_list k1))" "status_priority (tlock (threads k1) u) = Some c"
      using le_ceiling_cases [OF v(4) 2(1)] by blast
    with 2(2) v(2,3) show ?thesis by auto
  qed simp
  fix x assume "x \<in> set (ready_queue k1)"
  then consider "x = t" | "x \<in> set (ready_queue k)" using ready by blast
  then have "?p x \<le> ?p ?c \<or> (\<exists>u \<in> ?H. \<exists>p. status_priority (?l u) = Some p \<and> ?p x \<le> p)"
  proof cases
    case 2
    with w consider "?p x \<le> ?p ?c" | u p where "u \<in> insert ?c (set (blocked_list k) \<union> set (suspended_list k))"
        "status_priority (?l u) = Some p" "?p x \<le> p" unfolding within_locks_views by blast
    then show ?thesis
    proof cases
      case (2 u p)
      then have "u \<in> ?H \<or> u = t" using v(5,6) by auto
      moreover have "?p x \<le> ?p t" if "u = t" using 2(2,3) tlock_le_tprio that by (metis order_trans)
      ultimately show ?thesis using 2(2,3) t by (meson order_trans)
    qed simp
  qed (use t in simp)
  then show "tprio (threads k1) x \<le> tprio (threads k1) (current_thread k1)
      \<or> (\<exists>u \<in> insert (current_thread k1) (set (blocked_list k1) \<union> set (suspended_list k1)). \<exists>p.
          status_priority (tlock (threads k1) u) = Some p \<and> tprio (threads k1) x \<le> p)"
    by (simp add: v(1-3))
qed

lemma due_thread_runs:
  assumes "rescheduled n k k'" and "t \<in> due_threads n k" and "t \<noteq> idle_thread k"
  shows "t = current_thread k' \<or> t \<in> set (ready_queue k')"
proof -
  have eq: "{idle_thread k, current_thread k'} \<union> set (ready_queue k') =
       {idle_thread k, current_thread k} \<union> set (ready_queue k) \<union> due_threads n k"
    using assms(1) by (simp add: rescheduled_def)
  have "t \<in> {idle_thread k, current_thread k'} \<union> set (ready_queue k')"
    unfolding eq using assms(2) by simp
  with assms(3) show ?thesis by simp
qed

section \<open>What the steps keep\<close>

definition ids_frame :: "kernel \<Rightarrow> kernel \<Rightarrow> bool" where
  "ids_frame k k' \<longleftrightarrow>
     tid (threads k') = tid (threads k) \<and> tstack (threads k') = tstack (threads k) \<and> idle_thread k' = idle_thread k"

lemma ids_frame_sched: "sched_frame k k' \<Longrightarrow> ids_frame k k'"
  by (simp add: ids_frame_def sched_frame_def)

lemma ids_frame_trans: "ids_frame k k1 \<Longrightarrow> ids_frame k1 k2 \<Longrightarrow> ids_frame k k2"
  by (simp add: ids_frame_def)

text \<open>A thread that sleeps until \<open>d\<close>, with the timer programmed for no later time; a thread that can run.\<close>

definition asleep :: "u64 \<Rightarrow> tptr \<Rightarrow> kernel \<Rightarrow> bool" where
  "asleep d t k \<longleftrightarrow>
     t \<in> set (blocked_list k) \<and> OfThread t \<in> set (sleep_queue k)
   \<and> deadline (suspendables k (OfThread t)) = Some \<lparr>tick = d\<rparr> \<and> (\<exists>a. alarm k = Some a \<and> a \<le> d)"

definition can_run :: "tptr \<Rightarrow> kernel \<Rightarrow> bool" where
  "can_run t k \<longleftrightarrow> t \<noteq> idle_thread k \<and> (t = current_thread k \<or> t \<in> set (ready_queue k))"

text \<open>
  What happens to the threads in a step: the identifiers stay, the bound on ready threads stays, a
  sleeper stays asleep or can run.
\<close>

definition stepped :: "kernel \<Rightarrow> kernel \<Rightarrow> bool" where
  "stepped k k' \<longleftrightarrow>
     ids_frame k k' \<and> (within_locks k \<longrightarrow> within_locks k')
   \<and> (\<forall>t d. asleep d t k \<longrightarrow> asleep d t k' \<or> can_run t k')"

lemma asleep_cong:
  "blocked_list k' = blocked_list k \<Longrightarrow> sleep_queue k' = sleep_queue k \<Longrightarrow>
     deadline (suspendables k' (OfThread t)) = deadline (suspendables k (OfThread t)) \<Longrightarrow> alarm k' = alarm k \<Longrightarrow>
     asleep d t k' = asleep d t k"
  by (simp add: asleep_def)

lemma asleep_not_idle: "sched_inv k \<Longrightarrow> asleep d t k \<Longrightarrow> t \<noteq> idle_thread k \<and> t \<noteq> current_thread k"
  using inv_placed [of "{}" k] by (auto simp: asleep_def placed_def)

lemma first_alarm:
  assumes inv: "sched_inv k" and t: "OfThread t \<in> set (sleep_queue k)"
    and d: "deadline (suspendables k (OfThread t)) = Some \<lparr>tick = d\<rparr>"
  shows "\<exists>a. next_alarm k = Some a \<and> a \<le> d"
proof (cases "sleep_queue k")
  case (Cons s ss)
  have sl: "sleeping {} (suspendables k) (blocked_list k) (s # ss)" using inv Cons by (simp add: sched_inv_fl_def)
  then have "deadline (suspendables k s) \<noteq> None" by (cases s) (auto simp: sleeping_def)
  then obtain x where x: "deadline (suspendables k s) = Some x" by blast
  have "s = OfThread t \<or> deadline_le (deadline (suspendables k s)) (deadline (suspendables k (OfThread t)))"
    using sl t Cons by (auto simp: sleeping_def)
  then have "tick x \<le> d" using x d by (auto simp: instant_le_def)
  with Cons x show ?thesis by (simp add: next_alarm_def)
qed (use t in simp)

lemma asleep_rescheduled:
  assumes inv: "sched_inv k" and r: "rescheduled n k k'" and a: "asleep d t k"
  shows "asleep d t k' \<or> can_run t k'"
proof (cases "t \<in> due_threads n k")
  case True
  have ni: "t \<noteq> idle_thread k" "idle_thread k' = idle_thread k"
    using asleep_not_idle [OF inv a] r by (simp_all add: rescheduled_def sched_frame_def)
  from due_thread_runs [OF r True ni(1)] ni show ?thesis by (simp add: can_run_def)
next
  case False
  let ?P = "is_due n k"
  have r': "sleep_queue k' = dropWhile ?P (sleep_queue k)" "suspendables k' = suspendables k" "sched_inv k'"
    "alarm k' = next_alarm k'" "set (blocked_list k') = set (blocked_list k) - due_threads n k"
    using r by (simp_all add: rescheduled_def)
  have "set (takeWhile ?P (sleep_queue k)) \<union> set (dropWhile ?P (sleep_queue k)) = set (sleep_queue k)"
    by (metis set_append takeWhile_dropWhile_id)
  then have sl: "OfThread t \<in> set (sleep_queue k')" using a False r'(1) by (auto simp: asleep_def due_threads_def)
  have "deadline (suspendables k' (OfThread t)) = Some \<lparr>tick = d\<rparr>" "t \<in> set (blocked_list k')"
    using a False r'(2,5) by (simp_all add: asleep_def)
  with first_alarm [OF r'(3) sl this(1)] sl r'(4) show ?thesis by (simp add: asleep_def)
qed

lemma can_run_rescheduled:
  assumes "rescheduled n k k'" and "can_run t k"
  shows "can_run t k'"
proof -
  have eq: "{idle_thread k, current_thread k'} \<union> set (ready_queue k') =
       {idle_thread k, current_thread k} \<union> set (ready_queue k) \<union> due_threads n k"
    and i: "idle_thread k' = idle_thread k" using assms(1) by (simp_all add: rescheduled_def sched_frame_def)
  have "t \<in> {idle_thread k, current_thread k'} \<union> set (ready_queue k')"
    unfolding eq using assms(2) by (auto simp: can_run_def)
  with assms(2) i show ?thesis by (simp add: can_run_def)
qed

lemma stepped_rescheduled: "sched_inv k \<Longrightarrow> rescheduled n k k' \<Longrightarrow> stepped k k'"
  using asleep_rescheduled [of k n k'] within_locks_rescheduled [of n k k']
  by (auto simp: stepped_def rescheduled_def intro: ids_frame_sched)

lemma asleep_blocked:
  assumes inv: "sched_inv k" and b: "blocked_on dl k k'" and a: "asleep d t k"
  shows "asleep d t k'"
proof -
  have b': "sched_inv k'" "set (sleep_queue k) \<subseteq> set (sleep_queue k')" "set (blocked_list k) \<subseteq> set (blocked_list k')"
    "\<forall>s. s \<noteq> OfThread (current_thread k) \<longrightarrow> deadline (suspendables k' s) = deadline (suspendables k s)"
    "alarm k' = (if dl = None then alarm k else next_alarm k')" using b by (auto simp: blocked_on_def)
  have t: "OfThread t \<in> set (sleep_queue k')" "deadline (suspendables k' (OfThread t)) = Some \<lparr>tick = d\<rparr>"
    "t \<in> set (blocked_list k')"
    using a b'(2-4) asleep_not_idle [OF inv a] by (auto simp: asleep_def)
  then show ?thesis using first_alarm [OF b'(1) t(1,2)] b'(5) a by (auto simp: asleep_def split: if_splits)
qed

lemma stepped_blocked:
  "sched_inv k \<Longrightarrow> blocked_on dl k k' \<Longrightarrow> set (ready_queue k') \<subseteq> set (ready_queue k) \<Longrightarrow> stepped k k'"
  using within_locks_blocked asleep_blocked
  by (auto simp: stepped_def blocked_on_def intro: ids_frame_sched)

text \<open>Resuming, before the processor is rescheduled.\<close>

lemma asleep_resumed:
  assumes inv: "sched_inv k" and r: "resumed u k k1" and a: "asleep d t k"
  shows "asleep d t k1 \<or> can_run t k1"
proof (cases "t = u")
  case True
  have "tstate (threads k) t = Blocked" using inv_states(2) [OF inv] a by (simp add: asleep_def)
  then have "t \<in> set (ready_queue k1)" "idle_thread k1 = idle_thread k"
    using r True by (auto simp: resumed_def sched_frame_def)
  with asleep_not_idle [OF inv a] show ?thesis by (simp add: can_run_def)
next
  case False
  with r a show ?thesis by (simp add: resumed_def asleep_def)
qed

lemma can_run_resumed:
  assumes "resumed u k k1" and "can_run t k"
  shows "can_run t k1"
proof -
  have "set (ready_queue k) \<subseteq> set (ready_queue k1)"
    using assms(1) unfolding resumed_def by (cases "tstate (threads k) u \<in> {Blocked, Suspended, Started}") auto
  with assms show ?thesis by (auto simp: resumed_def can_run_def sched_frame_def)
qed

lemma stepped_resumed:
  assumes "sched_inv k" and "resumed u k k1" and "\<not> resume_preempts u k1"
  shows "stepped k k1"
  using within_locks_resumed [OF _ assms(2,3)] asleep_resumed [OF assms(1,2)] assms(2)
  by (auto simp: stepped_def resumed_def intro: ids_frame_sched)

lemma stepped_trans_run:
  assumes "ids_frame k k1" and "\<And>t d. asleep d t k \<Longrightarrow> asleep d t k1 \<or> can_run t k1"
    and "sched_inv k1" and "rescheduled n k1 k'"
  shows "stepped k k'"
  using assms(1,2) stepped_rescheduled [OF assms(3,4)] can_run_rescheduled [OF assms(4)]
    within_locks_rescheduled [OF assms(4)]
  unfolding stepped_def by (blast intro: ids_frame_trans)

lemma stepped_cong:
  assumes "threads k' = threads k1" "ready_queue k' = ready_queue k1" "blocked_list k' = blocked_list k1"
    "suspended_list k' = suspended_list k1" "sleep_queue k' = sleep_queue k1" "suspendables k' = suspendables k1"
    "current_thread k' = current_thread k1" "idle_thread k' = idle_thread k1" "alarm k' = alarm k1"
  shows "stepped k k' = stepped k k1" and "stepped k' k = stepped k1 k"
  by (simp_all add: stepped_def ids_frame_def within_locks_def held_off_def asleep_def can_run_def assms)

lemma stepped_resumed_and_run:
  assumes inv: "sched_inv k" and r: "resumed_and_run n u k k'"
  shows "stepped k k'"
proof -
  obtain k1 where k1: "resumed u k k1" "if resume_preempts u k1 then rescheduled n k1 k'
        else threads k' = threads k1 \<and> ready_queue k' = ready_queue k1 \<and> blocked_list k' = blocked_list k1
          \<and> suspended_list k' = suspended_list k1 \<and> sleep_queue k' = sleep_queue k1
          \<and> suspendables k' = suspendables k1 \<and> current_thread k' = current_thread k1 \<and> alarm k' = alarm k1
          \<and> idle_thread k' = idle_thread k1"
    using r unfolding resumed_and_run_def by (auto split: if_splits)
  show ?thesis
  proof (cases "resume_preempts u k1")
    case True
    then have "rescheduled n k1 k'" using k1(2) by simp
    moreover have "ids_frame k k1" "sched_inv k1" using k1(1) by (auto simp: resumed_def intro: ids_frame_sched)
    ultimately show ?thesis using asleep_resumed [OF inv k1(1)] by (blast intro: stepped_trans_run)
  next
    case False
    with k1(2) have "stepped k k' = stepped k k1" by (intro stepped_cong) simp_all
    with stepped_resumed [OF inv k1(1) False] show ?thesis by simp
  qed
qed

lemma stepped_suspended:
  assumes inv: "sched_inv k" and s: "suspended_after t k k'" and sub: "set (ready_queue k') \<subseteq> set (ready_queue k)"
    and c: "current_thread k' = current_thread k \<or> t = current_thread k \<and> next_chosen k k'"
  shows "stepped k k'"
proof -
  have s': "sched_frame k k'" "suspended_list k' = suspended_list k @ [t]" "blocked_list k' = blocked_list k"
    "sleep_queue k' = sleep_queue k" "alarm k' = alarm k" "\<forall>x. deadline (suspendables k' x) = deadline (suspendables k x)"
    using s by (simp_all add: suspended_after_def)
  have "within_locks k'" if "within_locks k"
    using c
  proof
    assume "current_thread k' = current_thread k"
    with that sub s' show ?thesis by (intro within_locks_mono [of k' k]) (auto simp: sched_frame_def)
  next
    assume "t = current_thread k \<and> next_chosen k k'"
    with sub s' show ?thesis by (intro within_locks_next [OF inv s'(1)]) auto
  qed
  then show ?thesis using s' by (auto simp: stepped_def asleep_def intro: ids_frame_sched)
qed

section \<open>Interrupt handlers\<close>

text \<open>
  What a handler, or the executor that it polls, does to the kernel: it resumes threads. Putting
  itself to sleep is the other thing an executor can do; it is not among these operations.
\<close>

definition isr_op :: "env \<Rightarrow> kernel \<Rightarrow> kernel \<Rightarrow> bool" where
  "isr_op e k k' \<longleftrightarrow> (\<exists>t. resume_thread e no_yield t k = Inr k')"

abbreviation isr_run :: "env \<Rightarrow> kernel \<Rightarrow> kernel \<Rightarrow> bool" where
  "isr_run e \<equiv> (isr_op e)\<^sup>*\<^sup>*"

text \<open>In a handler that was entered from \<open>k0\<close>: nothing is due but a reschedule.\<close>

definition handling :: "iptr \<Rightarrow> kernel \<Rightarrow> kernel \<Rightarrow> bool" where
  "handling i k0 k \<longleftrightarrow>
     settled (Some i) k \<and> ids_frame k0 k
   \<and> (\<forall>t d. asleep d t k0 \<longrightarrow> asleep d t k \<or> can_run t k)
   \<and> (pending_reschedule_kind k = 0 \<and> stepped k0 k \<or> pending_reschedule_kind k AND 3 \<noteq> 0)"

lemma stepped_refl [simp]: "stepped k k"
  by (simp add: stepped_def ids_frame_def)

lemma settled_inv: "settled i k \<Longrightarrow> sched_inv k"
  by (simp add: settled_def)

lemma handling_resume:
  assumes h: "handling i k0 k" and r: "resume_thread e no_yield t k = Inr k'"
  shows "handling i k0 k'"
proof -
  obtain k1 where k1: "k' = unlocked k1" "resumed t k k1" "settled (Some i) k'"
    using isr_resume_settled [of i k e t] h r by (auto simp: handling_def)
  have inv: "sched_inv k" using h by (simp add: handling_def settled_def)
  have st: "stepped k0 k' = stepped k0 k1" unfolding k1(1) by (rule stepped_cong) simp_all
  have eq: "asleep d u k' = asleep d u k1" "can_run u k' = can_run u k1"
    "ids_frame k0 k' = ids_frame k0 k1" "pending_reschedule_kind k' = pending_reschedule_kind k1" for d u
    by (simp_all add: k1(1) asleep_def can_run_def ids_frame_def)
  have "ids_frame k0 k" "sched_frame k k1" using h k1(2) by (simp_all add: handling_def resumed_def)
  then have fr: "ids_frame k0 k1" by (rule ids_frame_trans [OF _ ids_frame_sched])
  have sl: "asleep d u k1 \<or> can_run u k1" if "asleep d u k0" for d u
  proof -
    have "asleep d u k \<or> can_run u k" using that h by (simp add: handling_def)
    then show ?thesis using asleep_resumed [OF inv k1(2)] can_run_resumed [OF k1(2)] by blast
  qed
  have pk: "pending_reschedule_kind k1 = (if resume_preempts t k1
      then pending_reschedule_kind k OR RESCHEDULE_KIND_YIELD_TO_HIGHER else pending_reschedule_kind k)"
    using k1(2) by (simp add: resumed_def)
  have "pending_reschedule_kind k1 = 0 \<and> stepped k0 k1 \<or> pending_reschedule_kind k1 AND 3 \<noteq> 0"
  proof (cases "resume_preempts t k1")
    case True
    then show ?thesis using pk by (simp add: RESCHEDULE_KIND_YIELD_TO_HIGHER_def bit.conj_disj_distrib2 or_eq_0_iff)
  next
    case False
    have "stepped k0 k1" if "stepped k0 k"
      using that within_locks_resumed [OF _ k1(2) False] fr sl by (auto simp: stepped_def)
    with False pk h show ?thesis by (auto simp: handling_def)
  qed
  with k1(3) fr sl show ?thesis unfolding handling_def eq st by blast
qed

lemma handling_run: "isr_run e k k' \<Longrightarrow> handling i k0 k \<Longrightarrow> handling i k0 k'"
  by (induction rule: rtranclp_induct) (auto simp: isr_op_def intro: handling_resume)

lemma handling_entered: "quiescent k \<Longrightarrow> handling i k (at_interrupt i k)"
proof -
  assume q: "quiescent k"
  have "stepped k (at_interrupt i k) = stepped k k" by (rule stepped_cong) (simp_all add: at_interrupt_def)
  then show ?thesis
    using at_interrupt_settled [OF quiescentD(8) [OF q]] quiescentD(6) [OF q]
    by (simp add: handling_def ids_frame_def asleep_def) (simp add: at_interrupt_def)
qed

text \<open>Leaving the handler: the processor is rescheduled if that is due.\<close>

lemma handling_exit:
  assumes q: "quiescent k" and f: "f (at_interrupt i k) = Inr (r, k1)" and h: "handling i k k1"
  shows "\<exists>k'. interrupt_context e i f k = Inr (r, k') \<and> quiescent k' \<and> stepped k k'"
proof -
  have h': "settled (Some i) k1" "ids_frame k k1" "\<And>t d. asleep d t k \<Longrightarrow> asleep d t k1 \<or> can_run t k1"
    "pending_reschedule_kind k1 = 0 \<and> stepped k k1 \<or> pending_reschedule_kind k1 AND 3 \<noteq> 0"
    using h by (auto simp: handling_def)
  then obtain k2 where k2: "interrupt_context e i f k = Inr (r, after_interrupt k2)" "quiescent (after_interrupt k2)"
    "if pending_reschedule_kind k1 = 0 then k2 = polls_ready k1 else rescheduled (now e) k1 k2"
    using interrupt_context_ok [where f = f, OF quiescentD(8) [OF q] f, of e] by blast
  have eq: "stepped k (after_interrupt k2) = stepped k k2"
    by (rule stepped_cong) (simp_all add: after_interrupt_def)
  have "stepped k k2"
  proof (cases "pending_reschedule_kind k1 = 0")
    case True
    then have "stepped k k2 = stepped k k1" using k2(3) by (intro stepped_cong) simp_all
    with True h'(4) show ?thesis by auto
  next
    case False
    then show ?thesis using k2(3) stepped_trans_run [OF h'(2,3) settled_inv [OF h'(1)]] by auto
  qed
  with k2 eq show ?thesis by blast
qed

text \<open>A system call that polls the executor of an interrupt.\<close>

lemma poll_executor_handling:
  assumes h: "handling j k0 k" and p: "executor_poll e i k1 = Inr k2"
    and k1: "k1 = (snd (i_raise_nesting_lock_priority i (i_base_priority (interrupts k i)) k))\<lparr>current_interrupt := Some i\<rparr>"
    and run: "isr_run e k1 k2"
  shows "\<exists>k'. poll_executor e i k = Inr k' \<and> handling j k0 k'"
proof -
  obtain p0 kr where r: "i_raise_nesting_lock_priority i (i_base_priority (interrupts k i)) k = (p0, kr)" by fastforce
  then obtain "is" th where kr: "kr = k\<lparr>interrupts := is, interrupt_threshold := th\<rparr>"
    using i_raise_eq [of i "i_base_priority (interrupts k i)" k] by auto
  have frame: "handling l k0 (x\<lparr>interrupts := js, interrupt_threshold := n, current_interrupt := Some l\<rparr>) = handling l k0 (x\<lparr>current_interrupt := Some l\<rparr>)"
    "handling l k0 (x\<lparr>current_interrupt := Some l\<rparr>) = handling m k0 (x\<lparr>current_interrupt := Some m\<rparr>)" for l m x js n
    by (simp_all add: handling_def settled_def stacks_alive_def threads_only_def ids_frame_def asleep_def can_run_def
        stepped_def within_locks_def held_off_def)
  have cur: "k\<lparr>current_interrupt := Some j\<rparr> = k" using h by (cases k) (simp add: handling_def settled_def)
  have "handling i k0 k1" using h frame cur k1 r kr by (metis (no_types, lifting) snd_conv)
  then have h2: "handling i k0 k2" by (rule handling_run [OF run])
  then have cur2: "k2\<lparr>current_interrupt := Some i\<rparr> = k2" by (cases k2) (simp add: handling_def settled_def)
  have n: "nested_interrupt_context i (executor_poll e i) kr = Inr (k2\<lparr>current_interrupt := Some j\<rparr>)"
    using p k1 r kr cur h by (simp add: nested_interrupt_context_def atomic_swap_def handling_def settled_def)
  obtain is' th' where k': "i_set_nesting_lock_priority i p0 (k2\<lparr>current_interrupt := Some j\<rparr>) =
      k2\<lparr>current_interrupt := Some j, interrupts := is', interrupt_threshold := th'\<rparr>" using i_set_eq by blast
  have "k2\<lparr>current_interrupt := Some j, interrupts := is', interrupt_threshold := th'\<rparr>
      = k2\<lparr>interrupts := is', interrupt_threshold := th', current_interrupt := Some j\<rparr>" by simp
  then have "handling j k0 (k2\<lparr>current_interrupt := Some j, interrupts := is', interrupt_threshold := th'\<rparr>)"
    using h2 frame cur2 by metis
  then show ?thesis using r n k' by (simp add: poll_executor_def)
qed

section \<open>Outcomes of the operations\<close>

lemma stepped_after: "stepped k (returned k1) = stepped k k1"
  by (rule stepped_cong) simp_all

lemma suspend_syscall_step:
  assumes q: "quiescent k" and raw: "suspend_thread_raw m (entered SYSCALL_INTERRUPT_HANDLER k) = Inr k1"
    and k1: "suspended_after t k k1"
    and c: "current_thread k1 = current_thread k \<or> t = current_thread k \<and> next_chosen k k1"
  shows "\<exists>k'. thread_suspend e m k = Inr k' \<and> quiescent k' \<and> stepped k k'"
proof -
  have fr: "sched_inv k1" "sched_frame k k1" using k1 by (simp_all add: suspended_after_def)
  note s = suspend_syscall_ok(1) [OF q raw fr, of e] suspend_syscall_ok(2,3) [OF q raw fr]
  have "stepped k k1" by (rule stepped_suspended [OF quiescentD(1) [OF q] k1 s(3) c])
  with s(1,2) stepped_after show ?thesis by blast
qed

definition suspend_target :: "tptr option \<Rightarrow> kernel \<Rightarrow> tptr" where
  "suspend_target m k = (case m of Some t \<Rightarrow> t | None \<Rightarrow> current_thread k)"

text \<open>
  Suspending: a ready, started, running or suspended thread can be suspended; a thread that was not
  started, a blocked thread and the idle thread cannot.
\<close>

lemma suspend_outcome:
  fixes m
  assumes q: "quiescent k"
  defines "t \<equiv> suspend_target m k"
  shows "if state (threads k t) \<notin> {Created, Blocked} \<and> t \<noteq> idle_thread k
     then \<exists>k'. thread_suspend e m k = Inr k' \<and> quiescent k' \<and> stepped k k'
     else \<exists>msg. thread_suspend e m k = Inl (Panic msg)"
proof -
  let ?k = "entered SYSCALL_INTERRUPT_HANDLER k"
  have inv: "sched_inv ?k" and al: "canary_ok ?k" using quiescentD [OF q] by simp_all
  have m: "suspend_thread_raw m ?k = suspend_thread_raw (Some t) ?k"
    by (cases m) (simp_all add: suspend_thread_raw_def t_def suspend_target_def)
  have step: "\<exists>k'. thread_suspend e m k = Inr k' \<and> quiescent k' \<and> stepped k k'"
    if "suspend_thread_raw (Some t) ?k = Inr k1" "suspended_after t k k1"
      "current_thread k1 = current_thread k \<or> t = current_thread k \<and> next_chosen k k1" for k1
    using suspend_syscall_step [OF q _ that(2,3)] that(1) m by simp
  have panic: "\<exists>msg. thread_suspend e m k = Inl (Panic msg)" if "\<exists>msg. suspend_thread_raw (Some t) ?k = Inl (Panic msg)"
    using that suspend_raw_error [OF q, of m] m by auto
  show ?thesis
  proof (cases "t = idle_thread k")
    case True
    with suspend_idle_panics [OF inv al] panic show ?thesis by auto
  next
    case ni: False
    show ?thesis
    proof (cases "tstate (threads k) t")
      case Created
      with panic show ?thesis by (simp add: suspend_thread_raw_def view_folds)
    next
      case Blocked
      then have "t \<in> set (blocked_list ?k)" using inv_states(2) [OF inv, of t] by simp
      with suspend_Blocked [OF inv] panic Blocked show ?thesis by (simp add: view_folds)
    next
      case Started
      with suspend_Started [OF inv, of t] step ni show ?thesis by (auto simp: view_folds)
    next
      case Ready
      then have "t \<in> set (ready_queue ?k)" using inv_states(1) [OF inv, of t] ni by auto
      with suspend_Ready [OF inv] step ni Ready show ?thesis by (auto simp: view_folds)
    next
      case Running
      then have "t = current_thread ?k" using inv_states(4) [OF inv, of t] by simp
      with suspend_Running [OF inv _ al, of "Some t"] step ni Running show ?thesis by (auto simp: view_folds)
    next
      case Suspended
      then have "suspend_thread_raw m ?k = Inr ?k" unfolding m by (simp add: suspend_thread_raw_def view_folds)
      from suspend_syscall_ok(1,2) [OF q this] inv have "thread_suspend e m k = Inr (returned ?k)" "quiescent (returned ?k)"
        by (simp_all add: sched_frame_def)
      moreover have "stepped k (returned ?k) = stepped k k" by (rule stepped_cong) simp_all
      ultimately show ?thesis using ni Suspended by (simp add: view_folds)
    qed
  qed
qed

lemma wait_event_outcome:
  assumes q: "quiescent k" and ni: "current_thread k \<noteq> idle_thread k"
    and c: "c = SysWaitEvent evs \<and> dl = None
      \<or> (\<exists>time. c = SysWaitEventUntil evs (time_hi time) (time_lo time) \<and> dl = Some time)"
  shows "\<exists>r k'. kernel_syscall_handler e c k = Inr (r, k') \<and> quiescent k' \<and> stepped k k'"
proof -
  obtain received blocks es
    where p: "wait_event_prepare evs (events (threads k (current_thread k))) = ((received, blocks), es)"
    by (metis prod.collapse)
  let ?i = SYSCALL_INTERRUPT_HANDLER and ?f = "wait_current_thread_event evs dl"
  have e: "sched_inv (entered ?i k)" "current_thread (entered ?i k) \<noteq> idle_thread (entered ?i k)"
    "canary_ok (entered ?i k)"
    "wait_event_prepare evs (events (threads (entered ?i k) (current_thread (entered ?i k)))) = ((received, blocks), es)"
    using quiescentD [OF q] ni p by simp_all
  from wait_event_ok [OF e, of dl] obtain k1
    where raw: "?f (entered ?i k) = Inr (received, k1)"
      and b: "if blocks then blocked_on dl k k1
        else k1 = upd_thread (current_thread k) (\<lambda>x. x\<lparr>events := es\<rparr>) (entered ?i k)"
    by (auto split: if_splits)
  note kept = wait_event_kept [OF raw]
  have k1: "sched_inv k1 \<and> sched_frame k k1 \<and> threads_only k1 \<and> stepped k k1"
  proof (cases blocks)
    case True
    with b kept blocked_on_threads_only [OF _ quiescentD(3) [OF q]] stepped_blocked [OF quiescentD(1) [OF q]]
    show ?thesis by (simp add: blocked_on_def)
  next
    case False
    let ?u = "upd_thread (current_thread k) (\<lambda>x. x\<lparr>events := es\<rparr>) (entered ?i k)"
    have "within_locks ?u = within_locks k" "asleep d t ?u = asleep d t k" "ids_frame k ?u" for d t
      by (simp_all add: within_locks_views asleep_def ids_frame_def upd_thread_def)
    then have "stepped k ?u" by (simp add: stepped_def)
    with False b quiescentD [OF q] show ?thesis
      by simp (simp add: sched_frame_def threads_only_def upd_thread_def)
  qed
  have body: "syscall_body e c (at_interrupt ?i k) = Inr (received, unlocked k1)"
    if "pl_try_with e no_yield (with_raw ?f) (at_interrupt ?i k) = Inr (Some received, unlocked k1)"
    using that c by (auto simp: syscall_body_def wait_current_thread_event_isr_def join_time_split)
  have "kernel_syscall_handler e c k = Inr (received, returned k1)" "quiescent (returned k1)"
    using syscall_ok [where f = ?f, OF q raw conjunct1 [OF kept] _ _ _ body] k1 by simp_all
  with k1 stepped_after show ?thesis by blast
qed

lemma start_outcome:
  assumes q: "quiescent k" and t: "startable t k"
  shows "\<exists>k'. thread_start e t k = Inr k' \<and> quiescent k' \<and> stepped k k'"
proof -
  obtain k' where k': "thread_start e t k = Inr k'" "quiescent k'" "resumed_and_run (now e) t (started t k) k'"
    using thread_start_ok [OF q t] by blast
  have "stepped (started t k) k'"
    by (rule stepped_resumed_and_run [OF started_inv [OF quiescentD(1) [OF q] t] k'(3)])
  moreover have "within_locks (started t k) = within_locks k" "asleep d u (started t k) = asleep d u k" for d u
    by (simp_all add: within_locks_views started_views asleep_def) (simp add: started_def thread_init_def kernel_upd_defs)
  moreover have "ids_frame k (started t k)" by (simp add: ids_frame_def started_views)
  ultimately have "stepped k k'" unfolding stepped_def by (blast intro: ids_frame_trans)
  with k' show ?thesis by blast
qed

lemma poll_outcome:
  assumes q: "quiescent k"
    and poll: "\<And>k1. settled (Some i) k1 \<Longrightarrow> \<exists>k2. executor_poll e i k1 = Inr k2 \<and> isr_run e k1 k2"
  shows "\<exists>k'. poll_interrupt_executor e i k = Inr k' \<and> quiescent k' \<and> stepped k k'"
proof -
  let ?j = SYSCALL_INTERRUPT_HANDLER and ?a = "at_interrupt SYSCALL_INTERRUPT_HANDLER k"
  let ?r = "(snd (i_raise_nesting_lock_priority i (i_base_priority (interrupts ?a i)) ?a))\<lparr>current_interrupt := Some i\<rparr>"
  have "settled (Some i) ?r"
    using i_raise_eq [of i "i_base_priority (interrupts ?a i)" ?a] quiescentD(8) [OF q]
    by (auto simp: settled_def stacks_alive_def threads_only_def at_interrupt_def)
  then obtain k2 where "executor_poll e i ?r = Inr k2" "isr_run e ?r k2" using poll by blast
  then obtain k' where "poll_executor e i ?a = Inr k'" "handling ?j k k'"
    using poll_executor_handling [OF handling_entered [OF q] _ refl] by blast
  from handling_exit [OF q _ this(2), where f = "syscall_body e (SysPollInterruptExecutor i)" and r = 0 and e = e] this(1)
  show ?thesis by (auto simp: poll_interrupt_executor_def kernel_syscall_handler_def syscall_body_def)
qed

section \<open>Steps\<close>

text \<open>
  A run of the system, one operation at a time, as the threads and the interrupts issue them: the
  timer interrupt; the system calls, whoever issues them and whatever locks it holds; resuming a
  thread from a thread; an interrupt whose handler resumes any threads; and polling an executor
  that does. An operation that panics is no step. A thread that is started was attached before and
  has an identifier of its own. Taking and releasing locks is not among the steps.
\<close>

inductive kernel_step :: "kernel \<Rightarrow> kernel \<Rightarrow> bool" where
  timer: "kernel_wakeup_handler e k = Inr ((), k') \<Longrightarrow> kernel_step k k'"
| yield: "thread_yield e k = Inr k' \<Longrightarrow> kernel_step k k'"
| delay: "delay_until e time k = Inr k' \<Longrightarrow> kernel_step k k'"
| wait_event: "thread_wait_event e evs k = Inr (r, k') \<Longrightarrow> kernel_step k k'"
| wait_event_until: "thread_wait_event_until e evs dl k = Inr (r, k') \<Longrightarrow> kernel_step k k'"
| wait: "thread_wait e w ceiling k = Inr k' \<Longrightarrow> kernel_step k k'"
| suspend: "thread_suspend e m k = Inr k' \<Longrightarrow> kernel_step k k'"
| resume: "resume_thread e (thread_yield e) t k = Inr k' \<Longrightarrow> kernel_step k k'"
| start: "startable t k \<Longrightarrow> thread_start e t k = Inr k' \<Longrightarrow> kernel_step k k'"
| interrupt: "interrupt_context e i body k = Inr (r, k') \<Longrightarrow>
    (\<And>k1 v k2. body k1 = Inr (v :: unit, k2) \<Longrightarrow> isr_run e k1 k2) \<Longrightarrow> kernel_step k k'"
| poll: "poll_interrupt_executor e i k = Inr k' \<Longrightarrow>
    (\<And>k1 k2. executor_poll e i k1 = Inr k2 \<Longrightarrow> isr_run e k1 k2) \<Longrightarrow> kernel_step k k'"

inductive_cases kernel_stepE: "kernel_step k k'"

lemma wait_event_ends:
  assumes q: "quiescent k"
    and c: "c = SysWaitEvent evs \<and> dl = None
      \<or> (\<exists>time. c = SysWaitEventUntil evs (time_hi time) (time_lo time) \<and> dl = Some time)"
    and h: "kernel_syscall_handler e c k = Inr (r, k')" and ni: "current_thread k \<noteq> idle_thread k"
  shows "quiescent k' \<and> stepped k k'"
  using wait_event_outcome [OF q ni c, of e] h by auto

lemma interrupt_ends:
  assumes q: "quiescent k" and h: "interrupt_context e i body k = Inr (r, k')"
    and run: "\<And>k1 v k2. body k1 = Inr (v, k2) \<Longrightarrow> isr_run e k1 k2"
  shows "quiescent k' \<and> stepped k k'"
proof -
  obtain v k1 where b: "body (at_interrupt i k) = Inr (v, k1)"
    using h by (auto simp: interrupt_context_def atomic_swap_def at_interrupt_def bind_res_eq_Inr)
  have "handling i k k1" by (rule handling_run [OF run [OF b] handling_entered [OF q]])
  from handling_exit [where f = body, OF q b this, of e] h show ?thesis by auto
qed

lemma poll_ends:
  assumes q: "quiescent k" and h: "poll_interrupt_executor e i k = Inr k'"
    and run: "\<And>k1 k2. executor_poll e i k1 = Inr k2 \<Longrightarrow> isr_run e k1 k2"
  shows "quiescent k' \<and> stepped k k'"
proof -
  let ?a = "at_interrupt SYSCALL_INTERRUPT_HANDLER k" and ?b = "syscall_body e (SysPollInterruptExecutor i)"
  let ?r = "(snd (i_raise_nesting_lock_priority i (i_base_priority (interrupts ?a i)) ?a))\<lparr>current_interrupt := Some i\<rparr>"
  obtain k1 where p: "poll_executor e i ?a = Inr k1"
    using h by (auto simp: poll_interrupt_executor_def kernel_syscall_handler_def interrupt_context_def
        syscall_body_def atomic_swap_def at_interrupt_def bind_res_eq_Inr)
  then obtain k2 where "executor_poll e i ?r = Inr k2"
    by (auto simp: poll_executor_def nested_interrupt_context_def atomic_swap_def bind_res_eq_Inr split: prod.splits)
  with poll_executor_handling [OF handling_entered [OF q] this refl run] p
  have "handling SYSCALL_INTERRUPT_HANDLER k k1" by auto
  from handling_exit [OF q _ this, where f = ?b and r = 0 and e = e] p h show ?thesis
    by (auto simp: poll_interrupt_executor_def kernel_syscall_handler_def syscall_body_def)
qed

lemma kernel_step_ok:
  assumes "kernel_step k k'" and q: "quiescent k"
  shows "quiescent k' \<and> stepped k k'"
  using assms(1)
proof (cases rule: kernel_step.cases)
  case (timer e)
  with timer_ok [OF quiescentD(8) [OF q], of e] stepped_rescheduled [OF quiescentD(1) [OF q]] show ?thesis by auto
next
  case (yield e)
  with yield_ok [OF quiescentD(8) [OF q], of e] stepped_rescheduled [OF quiescentD(1) [OF q]] show ?thesis by auto
next
  case (delay e time)
  then have "current_thread k \<noteq> idle_thread k" using idle_cannot_block(1) [OF q] by auto
  with delay delay_until_ok [OF q, of e time] stepped_blocked [OF quiescentD(1) [OF q]] show ?thesis by auto
next
  case (wait_event e evs r)
  then have ni: "current_thread k \<noteq> idle_thread k" using idle_cannot_block(2) [OF q] by auto
  from wait_event have "kernel_syscall_handler e (SysWaitEvent evs) k = Inr (r, k')"
    using quiescentD(4) [OF q] by (simp add: thread_wait_event_def in_interrupt_def)
  from wait_event_ends [OF q _ this ni, of evs None] show ?thesis by simp
next
  case (wait_event_until e evs dl r)
  then have ni: "current_thread k \<noteq> idle_thread k" using idle_cannot_block(3) [OF q] by auto
  from wait_event_until
  have "kernel_syscall_handler e (SysWaitEventUntil evs (time_hi (tick dl)) (time_lo (tick dl))) k = Inr (r, k')"
    using quiescentD(4) [OF q] by (simp add: thread_wait_event_until_def in_interrupt_def)
  from wait_event_ends [OF q _ this ni, of evs "Some (tick dl)"] show ?thesis by blast
next
  case (wait e w ceiling)
  then have "current_thread k \<noteq> idle_thread k" using idle_cannot_block(4) [OF q] by auto
  moreover from this wait have "wait_link (suspendables k (OfThread (current_thread k))) = None"
    using wait_linked_panics [OF q] by fastforce
  ultimately show ?thesis
    using wait wait_syscall_ok [OF q, of e w ceiling] stepped_blocked [OF quiescentD(1) [OF q]] by auto
next
  case (suspend e m)
  with suspend_outcome [OF q, of m e] show ?thesis by (auto split: if_splits)
next
  case (resume e t)
  with thread_resume_ok [OF q, of e t] stepped_resumed_and_run [OF quiescentD(1) [OF q]] show ?thesis by auto
next
  case (start t e)
  with start_outcome [OF q start(1), of e] show ?thesis by auto
next
  case (interrupt e i body r)
  then show ?thesis by (rule interrupt_ends [OF q])
next
  case (poll e i)
  then show ?thesis by (rule poll_ends [OF q])
qed

lemma kernel_run_ok:
  assumes "kernel_step\<^sup>*\<^sup>* k k'" and "quiescent k"
  shows "quiescent k' \<and> (within_locks k \<longrightarrow> within_locks k')"
  using assms by (induction rule: rtranclp_induct) (auto dest!: kernel_step_ok simp: stepped_def)

section \<open>A sample run\<close>

definition sample_quiet :: kernel where
  "sample_quiet = sample_kernel\<lparr>current_interrupt := None\<rparr>"

definition sample_env :: "u64 \<Rightarrow> env" where
  "sample_env n = \<lparr>wake_by_ref = \<lambda>_. Inr, executor_poll = \<lambda>_. Inr, now = n\<rparr>"

lemma sample_quiet_quiescent: "quiescent sample_quiet"
proof -
  have "stacks_alive sample_kernel"
    by (simp add: stacks_alive_def tstack_def sample_kernel_def sample_thread_def raw_thread_new_def
        is_alive_def CANARY_BYTE_def)
  moreover have "aq_holds (pending_resume sample_kernel) []" "aq_holds (pending_sleep sample_kernel) []"
    "aq_holds (pending_executor_polls sample_kernel) []" "\<not> raw_borrowed sample_kernel"
    "preempt_lock sample_kernel = None" "pending_reschedule_kind sample_kernel = 0"
    by (simp_all add: sample_kernel_def aq_new_holds)
  ultimately show ?thesis
    using sample_kernel_inv sample_kernel_facts(2)
    by (simp add: sample_quiet_def quiescent_def settled_def stacks_alive_def threads_only_def)
qed

lemma sample_quiet_facts:
  "no_inversion sample_quiet" "current_thread sample_quiet = 1" "idle_thread sample_quiet = 0"
  "ready_queue sample_quiet = [2]"
  by (simp_all add: sample_quiet_def sample_kernel_facts)
    (simp add: no_inversion_def sample_kernel_def sample_thread_def raw_thread_new_def priority_defs
      locks_priority_ceiling_def max_valid_priority)

section \<open>Properties\<close>


text \<open>The running thread 1 takes a lock of priority 9 with it when it suspends itself; the idle thread runs.\<close>

definition sample_holder :: kernel where
  "sample_holder = upd_thread 1 (\<lambda>x. x\<lparr>lock_priorities := (SInvalid, SThread 9)\<rparr>) sample_quiet"

lemma sample_holder_facts:
  "quiescent sample_holder" "within_locks sample_holder" "current_thread sample_holder = 1"
  "idle_thread sample_holder = 0" "ready_queue sample_holder = [2]" "blocked_list sample_holder = [3]"
  "state (threads sample_holder 1) = Running" "lock_priority (threads sample_holder 1) = SThread 9"
  "priority (threads sample_holder 2) = Thread 2" "priority (threads sample_holder 0) = Thread 0"
proof -
  have st: "tstate (threads sample_holder) = tstate (threads sample_quiet)" "tid (threads sample_holder) = tid (threads sample_quiet)"
    "tstack (threads sample_holder) = tstack (threads sample_quiet)"
    by (auto simp: sample_holder_def view_defs upd_thread_def)
  have lists: "ready_queue sample_holder = [2]" "blocked_list sample_holder = [3]" "suspended_list sample_holder = [4]"
    "current_thread sample_holder = 1" "idle_thread sample_holder = 0"
    by (simp_all add: sample_holder_def sample_quiet_def sample_kernel_facts upd_thread_def)
  then have "ordered (tprio (threads sample_holder)) (tlock (threads sample_holder)) (ready_queue sample_holder) (blocked_list sample_holder)"
    by (simp add: ordered_def)
  moreover have "sched_inv sample_quiet" by (rule quiescentD(1) [OF sample_quiet_quiescent])
  ultimately have "sched_inv sample_holder"
    using st by (simp add: sched_inv_fl_def) (simp add: sample_holder_def upd_thread_def)
  then show q: "quiescent sample_holder"
    using sample_quiet_quiescent st
    by (simp add: quiescent_def settled_def stacks_alive_def threads_only_def) (simp add: sample_holder_def upd_thread_def)
  show p: "lock_priority (threads sample_holder 1) = SThread 9" "priority (threads sample_holder 2) = Thread 2"
    "priority (threads sample_holder 0) = Thread 0" "state (threads sample_holder 1) = Running"
    by (simp_all add: sample_holder_def upd_thread_def sample_quiet_def sample_kernel_def sample_thread_def
        raw_thread_new_def priority_defs max_valid_priority)
  show "within_locks sample_holder" using p lists by (auto simp: within_locks_def held_off_def)
qed (simp_all add: sample_holder_def sample_quiet_def sample_kernel_facts upd_thread_def)


text \<open>
  A thread that suspends itself while it holds a lock keeps ready threads from running: the next
  thread is chosen against a ceiling in which the lock still counts, so the idle thread runs although
  a thread is ready; after that no ceiling holds the ready thread off any more.
\<close>

theorem suspend_holding_lock_idles:
  assumes "quiescent k" and "current_thread k \<noteq> idle_thread k" and "ready_queue k \<noteq> []"
    and "status_priority (lock_priority (threads k (current_thread k))) = Some p"
    and "\<forall>t \<in> set (ready_queue k). priority (threads k t) \<le> p"
  shows "\<exists>k'. thread_suspend e None k = Inr k' \<and> current_thread k' = idle_thread k
     \<and> ready_queue k' = ready_queue k \<and> ready_queue k' \<noteq> []"
proof -
  let ?k = "entered SYSCALL_INTERRUPT_HANDLER k"
  obtain k1 where k1: "suspend_thread_raw None ?k = Inr k1" "thread_suspend e None k = Inr (returned k1)"
    using suspend_self_ok [OF assms(1,2)] by blast
  have "lock_ge (locks_priority_ceiling k) (tlock (threads k) (current_thread k))"
    using ceiling_is_max [OF quiescentD(1) [OF assms(1)]] by blast
  then obtain c where c: "status_priority (locks_priority_ceiling k) = Some c" "p \<le> c"
    using lock_ge_priority assms(4) by (metis view_folds(2))
  then have low: "\<not> c < tprio (threads k) t" if "t \<in> set (ready_queue k)" for t
    using that assms(5) by (auto simp: view_folds not_less intro: order_trans)
  have pop: "pop_ready_above ?k = (idle_thread k, ?k)"
  proof (cases rule: pop_ready_above_cases [of ?k])
    case (some t)
    then show ?thesis using low [of t] c(1) by (auto simp: unwrap_or_default_priority)
  qed simp
  have "tstate (threads k) (current_thread k) = Running" using inv_states(4) [OF quiescentD(1) [OF assms(1)]] by simp
  then obtain p k2 where k2: "switch_thread (idle_thread k) ?k = Inr (p, k2)" "insert_to_suspended_list p k2 = Inr k1"
    using k1(1) pop by (auto simp: suspend_thread_raw_def view_folds bind_res_eq_Inr)
  have "ready_queue k2 = ready_queue k" "current_thread k2 = idle_thread k"
    using k2(1) by (auto simp: switch_thread_def Let_def bind_res_eq_Inr kernel_upd_defs)
  moreover have "ready_queue k1 = ready_queue k2" "current_thread k1 = current_thread k2"
    using k2(2) by (auto simp: insert_to_suspended_list_def Let_def bind_res_eq_Inr kernel_upd_defs split: if_splits)
  ultimately show ?thesis using k1(2) assms(3) by (intro exI [of _ "returned k1"]) simp
qed

theorem suspend_holding_lock_idles_witness:
  "\<exists>k'. thread_suspend (sample_env 0) None sample_holder = Inr k' \<and> current_thread k' = 0 \<and> ready_queue k' = [2]"
  using suspend_holding_lock_idles [OF sample_holder_facts(1), of "Thread 9" "sample_env 0"] sample_holder_facts by auto

text \<open>
  The outcomes of an operation: it returns when the condition holds, and panics when it does not.
\<close>

definition returns_or_panics :: "bool \<Rightarrow> 'a res \<Rightarrow> bool" where
  "returns_or_panics b r \<longleftrightarrow> (if b then \<exists>x. r = Inr x else \<exists>msg. r = Inl (Panic msg))"



text \<open>
  Claim C9. The timer interrupt, from the interrupt to the return to a thread: every thread whose
  deadline has passed is ready or running, a thread of the highest priority runs, the timer is
  programmed for the next deadline or disabled, and the kernel is quiescent again.
\<close>

theorem timer_interrupt_correct:
  assumes "quiescent k"
  shows "\<exists>k'. kernel_wakeup_handler e k = Inr ((), k') \<and> quiescent k'
     \<and> (\<forall>t. OfThread t \<in> set (sleep_queue k) \<and> is_due (now e) k (OfThread t) \<longrightarrow>
          t = current_thread k' \<or> t \<in> set (ready_queue k'))
     \<and> (\<forall>t \<in> set (ready_queue k'). priority (threads k' t) \<le> priority (threads k' (current_thread k')))
     \<and> (\<forall>s \<in> set (sleep_queue k'). \<not> is_due (now e) k' s) \<and> alarm k' = next_alarm k'"
proof -
  note inv = quiescentD(1) [OF assms]
  obtain k' where k': "kernel_wakeup_handler e k = Inr ((), k')" "quiescent k'" "rescheduled (now e) k k'"
    using timer_ok [OF quiescentD(8) [OF assms]] by blast
  have "t = current_thread k' \<or> t \<in> set (ready_queue k')"
    if "OfThread t \<in> set (sleep_queue k)" "is_due (now e) k (OfThread t)" for t
  proof -
    have "t \<noteq> idle_thread k"
      using sleeping_thread_blocked [OF inv that(1)] inv_idle_unlisted [OF inv] by auto
    moreover have "t \<in> due_threads (now e) k" using that by (simp add: due_threads_eq [OF inv])
    ultimately show ?thesis using due_thread_runs [OF k'(3)] by blast
  qed
  with k' no_due_left [OF inv k'(3)] show ?thesis by (auto simp: rescheduled_def tprio_def)
qed

theorem timer_interrupt_correct_witness:
  "\<exists>k'. kernel_wakeup_handler (sample_env 100) sample_quiet = Inr ((), k') \<and> quiescent k'
     \<and> (3 = current_thread k' \<or> 3 \<in> set (ready_queue k'))"
proof -
  have "OfThread 3 \<in> set (sleep_queue sample_quiet)" "is_due (now (sample_env 100)) sample_quiet (OfThread 3)"
    by (simp_all add: sample_quiet_def sample_kernel_def is_due_def sample_env_def suspendable_new_thread_def)
  with timer_interrupt_correct [OF sample_quiet_quiescent, of "sample_env 100"] show ?thesis by blast
qed

text \<open>
  Claim C10. A delay ends, whatever happens in the meantime. A thread that delays itself is off the
  processor and out of the ready queue. Take any run of the system after that, \<open>s 1\<close>, \<open>s 2\<close>, up to
  \<open>s n\<close>, by the steps of Claim C1. As long as nobody has resumed the thread, the timer stays
  programmed for a time no later than the deadline; and if the timer interrupt comes then, at the
  deadline or after it, the thread is ready or running when it is over.
\<close>

theorem delay_ends:
  assumes "quiescent (s 0)" and "current_thread (s 0) \<noteq> idle_thread (s 0)"
    and "delay_until e time (s 0) = Inr (s 1)"
    and "\<And>m. 1 \<le> m \<Longrightarrow> m < n \<Longrightarrow> kernel_step (s m) (s (Suc m))" and "1 \<le> n"
  shows "current_thread (s 1) \<noteq> current_thread (s 0) \<and> current_thread (s 0) \<notin> set (ready_queue (s 1))
     \<and> ((\<exists>m \<in> {2..n}. current_thread (s 0) \<in> insert (current_thread (s m)) (set (ready_queue (s m))))
      \<or> (\<exists>a. alarm (s n) = Some a \<and> a \<le> tick time)
        \<and> (\<forall>e'. tick time \<le> now e' \<longrightarrow>
             (\<exists>k'. kernel_wakeup_handler e' (s n) = Inr ((), k')
                \<and> current_thread (s 0) \<in> insert (current_thread k') (set (ready_queue k')))))"
proof -
  let ?t = "current_thread (s 0)" and ?d = "tick time"
  have b: "quiescent (s 1)" "blocked_on (Some ?d) (s 0) (s 1)"
    using delay_until_ok [OF assms(1,2), of e time] assms(3) by auto
  note inv1 = quiescentD(1) [OF b(1)]
  have t1: "?t \<in> set (blocked_list (s 1))" "OfThread ?t \<in> set (sleep_queue (s 1))"
    "deadline (suspendables (s 1) (OfThread ?t)) = Some \<lparr>tick = ?d\<rparr>" "alarm (s 1) = next_alarm (s 1)"
    using b(2) by (auto simp: blocked_on_def deadline_opt_def)
  then have a1: "asleep ?d ?t (s 1)" using first_alarm [OF inv1 t1(2,3)] by (simp add: asleep_def)
  have off: "current_thread (s 1) \<noteq> ?t" "?t \<notin> set (ready_queue (s 1))"
    using inv_placed [OF inv1] t1(1) by (auto simp: placed_def)
  have run: "quiescent (s m) \<and> (asleep ?d ?t (s m) \<or> (\<exists>j \<in> {2..m}. can_run ?t (s j)))" if "1 \<le> m" "m \<le> n" for m
    using that
  proof (induction m rule: dec_induct)
    case (step m)
    then have q: "quiescent (s m)" and st: "kernel_step (s m) (s (Suc m))" using assms(4) by simp_all
    have "quiescent (s (Suc m))" "stepped (s m) (s (Suc m))" using kernel_step_ok [OF st q] by simp_all
    moreover have "asleep ?d ?t (s m) \<or> (\<exists>j \<in> {2..m}. can_run ?t (s j))" using step by simp
    ultimately show ?case using step(1) by (fastforce simp: stepped_def)
  qed (use b(1) a1 in simp)
  have n: "quiescent (s n)" "asleep ?d ?t (s n) \<or> (\<exists>j \<in> {2..n}. can_run ?t (s j))" using run assms(5) by simp_all
  from n(2) show ?thesis
  proof
    assume a: "asleep ?d ?t (s n)"
    note inv = quiescentD(1) [OF n(1)]
    have "\<exists>k'. kernel_wakeup_handler e' (s n) = Inr ((), k') \<and> ?t \<in> insert (current_thread k') (set (ready_queue k'))"
      if "?d \<le> now e'" for e'
    proof -
      obtain k' where k': "kernel_wakeup_handler e' (s n) = Inr ((), k')" "rescheduled (now e') (s n) k'"
        using timer_ok [OF quiescentD(8) [OF n(1)]] by blast
      have "?t \<in> due_threads (now e') (s n)"
        using a that by (simp add: due_threads_eq [OF inv] asleep_def is_due_def not_less)
      from due_thread_runs [OF k'(2) this] asleep_not_idle [OF inv a] k'(1) show ?thesis by auto
    qed
    with off a show ?thesis by (auto simp: asleep_def)
  next
    assume "\<exists>j \<in> {2..n}. can_run ?t (s j)"
    with off show ?thesis by (auto simp: can_run_def)
  qed
qed

text \<open>Thread 1 delays itself until 50, the timer interrupt comes at 20, which is too early, and at 60.\<close>

theorem delay_ends_witness:
  "\<exists>k1 k2. delay_until (sample_env 5) \<lparr>tick = 50\<rparr> sample_quiet = Inr k1
     \<and> kernel_wakeup_handler (sample_env 20) k1 = Inr ((), k2)
     \<and> (current_thread k2 = 1 \<or> 1 \<in> set (ready_queue k2)
      \<or> (\<exists>k3. kernel_wakeup_handler (sample_env 60) k2 = Inr ((), k3) \<and> (current_thread k3 = 1 \<or> 1 \<in> set (ready_queue k3))))"
proof -
  obtain k1 where k1: "delay_until (sample_env 5) \<lparr>tick = 50\<rparr> sample_quiet = Inr k1" "quiescent k1"
    using delay_until_ok [OF sample_quiet_quiescent, of "sample_env 5" "\<lparr>tick = 50\<rparr>"] sample_quiet_facts by auto
  obtain k2 where k2: "kernel_wakeup_handler (sample_env 20) k1 = Inr ((), k2)"
    using timer_ok [OF quiescentD(8) [OF k1(2)]] by blast
  define s where "s = (\<lambda>m :: nat. if m = 0 then sample_quiet else if m = 1 then k1 else k2)"
  have "kernel_step (s m) (s (Suc m))" if "1 \<le> m" "m < 2" for m
    using that kernel_step.timer [OF k2] by (simp add: s_def)
  from delay_ends [of s "sample_env 5" "\<lparr>tick = 50\<rparr>" 2, OF _ _ _ this] k1(1) sample_quiet_quiescent sample_quiet_facts
  have "1 \<in> insert (current_thread k2) (set (ready_queue k2))
      \<or> (\<forall>e'. 50 \<le> now e' \<longrightarrow> (\<exists>k'. kernel_wakeup_handler e' k2 = Inr ((), k') \<and> 1 \<in> insert (current_thread k') (set (ready_queue k'))))"
    by (auto simp: s_def)
  moreover have "50 \<le> now (sample_env 60)" by (simp add: sample_env_def)
  ultimately have "current_thread k2 = 1 \<or> 1 \<in> set (ready_queue k2)
      \<or> (\<exists>k3. kernel_wakeup_handler (sample_env 60) k2 = Inr ((), k3) \<and> (current_thread k3 = 1 \<or> 1 \<in> set (ready_queue k3)))"
    by (metis insertE)
  with k1(1) k2 show ?thesis by blast
qed

end
