(* ===== verification/Deferred_Work.thy ===== *)
theory Deferred_Work
  imports Kernel_Steps
begin

text \<open>
  Work that finds the preemption lock taken: an interrupt handler that resumes a thread while
  another context holds the lock only queues it, and the release of the lock resumes all queued
  threads and reschedules. Shown also: the two places where the lock-free queue of Atomic_Queue is
  used in the way that breaks it.
\<close>

section \<open>Draining the queue\<close>

definition runnable :: "kernel \<Rightarrow> tptr set" where
  "runnable k = {idle_thread k, current_thread k} \<union> set (ready_queue k)"

definition due_reschedule :: "kernel \<Rightarrow> bool" where
  "due_reschedule k \<longleftrightarrow>
     pending_reschedule_kind k = 0 \<and> no_inversion k \<or> pending_reschedule_kind k AND 3 \<noteq> 0"

lemma resume_states:
  "resume_thread_raw t k = Inr k1 \<Longrightarrow>
     tstate (threads k1) = (tstate (threads k))(t := Ready) \<or> tstate (threads k1) = tstate (threads k)"
proof -
  assume "resume_thread_raw t k = Inr k1"
  then obtain k0 where k0: "resume_thread_move t k = Inr k0" "threads k1 = threads k0"
    by (auto simp: resume_thread_raw_def bind_res_eq_Inr set_pending_reschedule_def)
  have ins: "insert_to_ready_queue t a = Inr b \<Longrightarrow> tstate (threads b) = (tstate (threads a))(t := Ready)" for a b
    by (auto simp: insert_to_ready_queue_def Let_def bind_res_eq_Inr kernel_upd_defs split: if_splits)
  have rm: "remove_from_sleep_queue s a = Inr b \<Longrightarrow> threads b = threads a" for s a b
    by (auto simp: remove_from_sleep_queue_def bind_res_eq_Inr)
  have ev: "tstate (threads (upd_thread t (\<lambda>x. x\<lparr>events := f (events x)\<rparr>) a)) = tstate (threads a)" for f a
    by (simp add: upd_thread_def)
  show ?thesis
    using k0 ev by (cases "state (threads k t)")
      (auto simp: resume_thread_move_def Let_def bind_res_eq_Inr split: if_splits dest!: ins rm)
qed

lemma resumed_runnable:
  assumes inv: "sched_inv k" and r: "resumed t k k1"
  shows "runnable k \<subseteq> runnable k1" and "tstate (threads k) t \<noteq> Created \<Longrightarrow> t \<in> runnable k1"
proof -
  have same: "current_thread k1 = current_thread k" "idle_thread k1 = idle_thread k"
    using r by (simp_all add: resumed_def sched_frame_def)
  show sub: "runnable k \<subseteq> runnable k1"
    using r same unfolding resumed_def runnable_def
    by (cases "tstate (threads k) t \<in> {Blocked, Suspended, Started}") auto
  assume nc: "tstate (threads k) t \<noteq> Created"
  show "t \<in> runnable k1"
  proof (cases "tstate (threads k) t \<in> {Blocked, Suspended, Started}")
    case True
    with r show ?thesis unfolding resumed_def runnable_def by auto
  next
    case False
    then have "t \<in> runnable k"
      using inv_states [OF inv, of t] nc by (cases "tstate (threads k) t") (auto simp: runnable_def)
    with sub show ?thesis by blast
  qed
qed

lemma resumed_due:
  assumes "sched_inv k" and "due_reschedule k" and r: "resumed t k k1"
  shows "due_reschedule k1"
proof (cases "pending_reschedule_kind k = 0 \<and> no_inversion k")
  case True
  with no_inversion_resumed [OF assms(1) _ r] resumed_kind [OF r] show ?thesis
    by (auto simp: due_reschedule_def)
next
  case False
  with assms(2) have "pending_reschedule_kind k AND 3 \<noteq> 0" by (simp add: due_reschedule_def)
  then show ?thesis
    using r by (simp add: due_reschedule_def resumed_def bit.conj_disj_distrib2 or_eq_0_iff)
qed

text \<open>A state in which the preemption lock is held by the running thread and threads are queued.\<close>

definition holding :: "tptr list \<Rightarrow> kernel \<Rightarrow> bool" where
  "holding ts k \<longleftrightarrow>
     sched_inv k \<and> stacks_alive k \<and> threads_only k \<and> due_reschedule k
   \<and> aq_holds (pending_resume k) (map OfThread ts) \<and> aq_holds (pending_sleep k) []
   \<and> aq_holds (pending_executor_polls k) [] \<and> current_interrupt k = None
   \<and> (\<forall>t \<in> set ts. tstate (threads k) t \<noteq> Created)"

lemma drain_resume_threads:
  assumes "holding ts k"
  shows "\<exists>k'. drain_resume e k = Some (Inr k') \<and> holding [] k' \<and> raw_borrowed k' = raw_borrowed k
     \<and> preempt_lock k' = preempt_lock k \<and> runnable k \<union> set ts \<subseteq> runnable k'"
  using assms
proof (induction ts arbitrary: k)
  case Nil
  then show ?case
    by (intro exI [of _ "k\<lparr>pending_resume := init_once (pending_resume k)\<rparr>"])
      (auto simp: drain_resume.simps [of e k] aq_pop_empty holding_def stacks_alive_def threads_only_def
        due_reschedule_def runnable_def no_inversion_cong [of "k\<lparr>pending_resume := init_once (pending_resume k)\<rparr>" k])
next
  case (Cons t ts)
  note h = Cons.prems [unfolded holding_def]
  obtain d where "aq_rel (pending_resume k) d (OfThread t # map OfThread ts)"
    using h by (auto simp: aq_holds_def)
  from aq_pop_front_rel [OF this] obtain q where q: "aq_pop_front (pending_resume k) = Inr (Some (OfThread t), q)"
    "aq_holds q (map OfThread ts)" by (auto simp: aq_holds_def)
  let ?k = "k\<lparr>pending_resume := q\<rparr>"
  have k: "sched_inv ?k" "threads_only ?k" "due_reschedule ?k" "runnable ?k = runnable k"
    using h no_inversion_cong [of ?k k]
    by (simp_all add: threads_only_def due_reschedule_def runnable_def)
  have kd: "kind (suspendables k (OfThread t)) = KThread t"
    using h by (simp add: sched_inv_fl_def identified_def)
  obtain k1 where k1: "resume_thread_raw t ?k = Inr k1" "resumed t ?k k1" "cells k1 = cells ?k" "threads_only k1"
    using resume_raw_frame [OF k(1,2)] by blast
  have st: "tstate (threads k1) u \<noteq> Created" if "tstate (threads k) u \<noteq> Created" for u
    using resume_states [OF k1(1)] that by (auto split: if_splits)
  have c: "pending_resume k1 = q" "pending_sleep k1 = pending_sleep k" "raw_borrowed k1 = raw_borrowed k"
    "preempt_lock k1 = preempt_lock k" "current_interrupt k1 = current_interrupt k"
    "pending_executor_polls k1 = pending_executor_polls k" using k1(3) by (simp_all add: cells_def)
  have fr: "sched_inv k1" "tstack (threads k1) = tstack (threads k)"
    using k1(2) by (simp_all add: resumed_def sched_frame_def)
  have "holding ts k1"
    using h c fr k1(4) q(2) st resumed_due [OF k(1,3) k1(2)] by (simp add: holding_def stacks_alive_def)
  from Cons.IH [OF this] obtain k' where k': "drain_resume e k1 = Some (Inr k')" "holding [] k'"
    "raw_borrowed k' = raw_borrowed k1" "preempt_lock k' = preempt_lock k1" "runnable k1 \<union> set ts \<subseteq> runnable k'"
    by blast
  have "t \<in> runnable k1" "runnable k \<subseteq> runnable k1"
    using resumed_runnable [OF k(1) k1(2)] k(4) h by simp_all
  moreover have "drain_resume e k = Some (Inr k')"
    using q(1) kd k1(1) k'(1) by (simp add: drain_resume.simps [of e k] resume_suspendable_now_def)
  ultimately show ?case using k' c by auto
qed

lemma complete_pending_threads:
  assumes "holding ts k" and "\<not> raw_borrowed k"
  shows "\<exists>k'. complete_pending e k = Inr k' \<and> holding [] k' \<and> \<not> raw_borrowed k'
     \<and> preempt_lock k' = preempt_lock k \<and> runnable k \<union> set ts \<subseteq> runnable k'"
proof -
  let ?b = "k\<lparr>raw_borrowed := True\<rparr>"
  have "holding ts ?b"
    using assms(1) no_inversion_cong [of ?b k]
    by (simp add: holding_def stacks_alive_def threads_only_def due_reschedule_def)
  from drain_resume_threads [OF this, of e] obtain k1 where k1: "drain_resume e ?b = Some (Inr k1)"
    "holding [] k1" "preempt_lock k1 = preempt_lock k" "runnable ?b \<union> set ts \<subseteq> runnable k1" by auto
  let ?k = "k1\<lparr>pending_sleep := init_once (pending_sleep k1), raw_borrowed := False\<rparr>"
  have "drain_sleep k1 = Some (Inr (k1\<lparr>pending_sleep := init_once (pending_sleep k1)\<rparr>))"
    using k1(2) by (simp add: drain_sleep.simps [of k1] aq_pop_empty holding_def)
  then have "complete_pending e k = Inr ?k"
    using assms(2) k1(1) by (simp add: complete_pending_def borrow_raw_def loop_result_def)
  moreover have "holding [] ?k"
    using k1(2) no_inversion_cong [of ?k k1]
    by (simp add: holding_def stacks_alive_def threads_only_def due_reschedule_def)
  ultimately show ?thesis using k1(3,4) by (auto simp: runnable_def)
qed

lemma rescheduled_runnable: "rescheduled n k k' \<Longrightarrow> runnable k \<subseteq> runnable k'"
proof -
  assume r: "rescheduled n k k'"
  then have "idle_thread k' = idle_thread k" by (simp add: rescheduled_def sched_frame_def)
  moreover have "{idle_thread k, current_thread k'} \<union> set (ready_queue k') =
       {idle_thread k, current_thread k} \<union> set (ready_queue k) \<union> due_threads n k"
    using r by (simp add: rescheduled_def)
  ultimately show ?thesis unfolding runnable_def by auto
qed

lemma release_completes:
  assumes h: "holding ts k" and "\<not> raw_borrowed k"
  shows "\<exists>k'. pl_release_nesting_lock e (thread_yield e) (RThread None) k = Inr k'
     \<and> quiescent k' \<and> no_inversion k' \<and> runnable k \<union> set ts \<subseteq> runnable k'"
proof -
  from complete_pending_threads [OF assms, of e] obtain k1 where k1: "complete_pending e k = Inr k1"
    "holding [] k1" "\<not> raw_borrowed k1" "runnable k \<union> set ts \<subseteq> runnable k1" by blast
  let ?k = "k1\<lparr>preempt_lock := None\<rparr>"
  have s: "settled None ?k"
    using k1(2,3) by (simp add: holding_def settled_def stacks_alive_def threads_only_def)
  have r: "runnable ?k = runnable k1" "no_inversion ?k = no_inversion k1"
    by (simp add: runnable_def, rule no_inversion_cong) simp_all
  have rel: "pl_release_nesting_lock e (thread_yield e) (RThread None) k =
      (if is_reschedule_pending ?k then thread_yield e ?k else Inr ?k)"
    using k1(1) by (simp add: pl_release_nesting_lock_def Let_def)
  show ?thesis
  proof (cases "pending_reschedule_kind k1 = 0")
    case True
    then have "no_inversion k1" using k1(2) by (simp add: holding_def due_reschedule_def)
    then show ?thesis using True rel s r k1(4)
      by (simp add: is_reschedule_pending_def RESCHEDULE_KIND_NONE_def quiescent_def)
  next
    case False
    obtain k' where k': "thread_yield e ?k = Inr k'" "quiescent k'" "rescheduled (now e) ?k k'"
      using yield_ok [OF s] by blast
    have "runnable k1 \<subseteq> runnable k'" using rescheduled_runnable [OF k'(3)] r(1) by simp
    with False rel k' no_inversion_rescheduled [OF k'(3)] k1(4) show ?thesis
      by (auto simp: is_reschedule_pending_def RESCHEDULE_KIND_NONE_def)
  qed
qed

section \<open>Queueing\<close>

lemma try_acquire_denied:
  assumes "current_interrupt k = Some i" and "preempt_lock k = Some c" and "c \<noteq> PInterrupt i"
  shows "pl_try_with e y f k = Inr (None, k)"
  using assms by (simp add: pl_try_with_def pl_try_acquire_nesting_lock_def current_execution_context_def
      atomic_compare_exchange_def)

lemma resume_thread_denied:
  assumes "current_interrupt k = Some i" and "preempt_lock k = Some c" and "c \<noteq> PInterrupt i"
  shows "resume_thread e y t k =
     bind_res (aq_push_back (OfThread t) (pending_resume k)) (\<lambda>q. Inr (k\<lparr>pending_resume := q\<rparr>))"
  by (simp add: resume_thread_def try_acquire_denied [OF assms])

section \<open>Properties\<close>

text \<open>
  Resuming a thread from an interrupt handler while another context holds the
  preemption lock changes nothing but the queue of deferred resumes, to whose end the thread is
  added; a pending reschedule stays pending, and a delay or a suspension there panics.
\<close>

theorem resume_is_deferred:
  assumes "current_interrupt k = Some i" and "preempt_lock k = Some c" and "c \<noteq> PInterrupt i"
    and "aq_holds (pending_resume k) xs" and "aq_can_push (OfThread t) (pending_resume k)"
  shows "(\<exists>q. resume_thread e y t k = Inr (k\<lparr>pending_resume := q\<rparr>) \<and> aq_holds q (xs @ [OfThread t]))
     \<and> execute_pending_reschedule e y k = Inr k
     \<and> (\<exists>m. delay_thread_until e y time k = Inl (Panic m)) \<and> (\<exists>m. suspend_thread e y u k = Inl (Panic m))"
proof -
  note denied = try_acquire_denied [OF assms(1-3)]
  obtain q where q: "aq_push_back (OfThread t) (pending_resume k) = Inr q" "aq_holds q (xs @ [OfThread t])"
    using aq.enq_law [OF assms(4,5)] by blast
  let ?z = "k\<lparr>pending_reschedule_kind := 0\<rparr>"
  have dz: "pl_try_with e y f ?z = Inr (None, ?z)" for f :: "kernel \<Rightarrow> (unit \<times> kernel) res"
    using assms(1-3) by (intro try_acquire_denied) simp_all
  have same: "k\<lparr>pending_reschedule_kind := pending_reschedule_kind k\<rparr> = k" by simp
  then have "pending_reschedule_kind k = 0 \<Longrightarrow> ?z = k" by metis
  then have "execute_pending_reschedule e y k = Inr k"
    using same by (simp add: execute_pending_reschedule_def atomic_swap_def RESCHEDULE_KIND_NONE_def
        set_pending_reschedule_def dz Let_def)
  then show ?thesis
    using q by (auto simp: resume_thread_denied [OF assms(1-3)] delay_thread_until_def suspend_thread_def denied)
qed

definition sample_isr :: kernel where
  "sample_isr = sample_kernel\<lparr>preempt_lock := Some (PThread 1), current_interrupt := Some 7\<rparr>"

theorem resume_is_deferred_witness:
  "\<exists>q. resume_thread (sample_env 0) no_yield 3 sample_isr = Inr (sample_isr\<lparr>pending_resume := q\<rparr>)
     \<and> aq_holds q [OfThread 3]"
proof -
  have "current_interrupt sample_isr = Some 7" "preempt_lock sample_isr = Some (PThread 1)"
    "aq_holds (pending_resume sample_isr) []" "aq_can_push (OfThread 3) (pending_resume sample_isr)"
    by (simp_all add: sample_isr_def sample_kernel_def aq_new_holds)
      (simp add: aq_can_push_def is_linked_def aq_new_def)
  from resume_is_deferred [OF this(1,2) _ this(3,4), of "sample_env 0" no_yield] show ?thesis by simp
qed

text \<open>
  Claim C22. Deferred work is completed. When a thread releases the preemption lock that it was the
  first to take, every thread whose resume was deferred meanwhile is ready or running, whatever was
  runnable before still is, the lock is free and the queue empty, and the processor has been
  rescheduled if one of them is urgent enough: there is no priority inversion.
\<close>

theorem release_completes_deferred:
  assumes "holding ts k" and "\<not> raw_borrowed k"
  shows "\<exists>k'. pl_release_nesting_lock e (thread_yield e) (RThread None) k = Inr k'
     \<and> quiescent k' \<and> no_inversion k' \<and> runnable k \<union> set ts \<subseteq> runnable k'"
  by (rule release_completes [OF assms])

lemma sample_holding:
  assumes "aq_holds q [OfThread 3]"
  shows "holding [3] (sample_quiet\<lparr>preempt_lock := Some (PThread 1), pending_resume := q\<rparr>)"
proof -
  let ?k = "sample_quiet\<lparr>preempt_lock := Some (PThread 1), pending_resume := q\<rparr>"
  note q = sample_quiet_quiescent [unfolded quiescent_def settled_def]
  have "no_inversion ?k" using no_inversion_cong [of ?k sample_quiet] sample_quiet_facts(1) by simp
  moreover have "tstate (threads ?k) 3 = Blocked" using sample_states [of 3] by (simp add: sample_quiet_def)
  ultimately show ?thesis
    using q assms by (simp add: holding_def due_reschedule_def stacks_alive_def threads_only_def)
qed

theorem release_completes_deferred_witness:
  "\<exists>q k'. aq_push_back (OfThread 3) aq_new = Inr q
     \<and> pl_release_nesting_lock (sample_env 0) (thread_yield (sample_env 0)) (RThread None)
         (sample_quiet\<lparr>preempt_lock := Some (PThread 1), pending_resume := q\<rparr>) = Inr k'
     \<and> quiescent k' \<and> 3 \<in> runnable k'"
proof -
  have "aq_can_push (OfThread 3) aq_new" by (simp add: aq_can_push_def is_linked_def aq_new_def)
  from aq.enq_law [OF aq_new_holds this] obtain q
    where q: "aq_push_back (OfThread 3) aq_new = Inr q" "aq_holds q [OfThread 3]" by auto
  have "\<not> raw_borrowed (sample_quiet\<lparr>preempt_lock := Some (PThread 1), pending_resume := q\<rparr>)"
    by (simp add: sample_quiet_def sample_kernel_def)
  from release_completes_deferred [OF sample_holding [OF q(2)] this, of "sample_env 0"] q(1) show ?thesis
    by auto
qed

text \<open>
  Claim C36. A thread whose resume was deferred once, and was the last to be, cannot be deferred a
  second time: the queue still uses its node, so the second deferral, which succeeds, makes the
  release of the preemption lock loop forever.
\<close>

theorem second_deferred_resume_hangs:
  assumes "current_interrupt k = Some i" and "preempt_lock k = Some c" and "c \<noteq> PInterrupt i"
    and "\<not> raw_borrowed k"
    and "aq_rel (pending_resume k) (Item (OfThread t)) []" and "\<not> is_linked (OfThread t) (pending_resume k)"
  shows "\<exists>k'. resume_thread e y t k = Inr k'
     \<and> pl_release_nesting_lock e y (RThread None) (k'\<lparr>current_interrupt := None\<rparr>) = Inl Diverges"
proof -
  obtain q where q: "aq_push_back (OfThread t) (pending_resume k) = Inr q" "self_loop (OfThread t) q"
    using push_dummy_empty [OF assms(5,6)] by blast
  let ?k = "k\<lparr>pending_resume := q\<rparr>"
  have "resume_thread e y t k = Inr ?k"
    by (simp add: resume_thread_denied [OF assms(1-3)] q(1))
  moreover have "drain_resume e (x\<lparr>pending_resume := q\<rparr>) = Some (Inl Diverges)" for x
    by (simp add: drain_resume.simps self_loop_diverges(1) [OF q(2)])
  then have "pl_release_nesting_lock e y (RThread None) (?k\<lparr>current_interrupt := None\<rparr>) = Inl Diverges"
    using assms(4) by (simp add: pl_release_nesting_lock_def complete_pending_def borrow_raw_def loop_result_def
        drain_resume.simps self_loop_diverges(1) [OF q(2)])
  ultimately show ?thesis by blast
qed

theorem second_deferred_resume_hangs_witness:
  "\<exists>q q1 k'. aq_push_back (OfThread 3) aq_new = Inr q \<and> aq_pop_front q = Inr (Some (OfThread 3), q1)
     \<and> resume_thread (sample_env 0) no_yield 3 (sample_isr\<lparr>pending_resume := q1\<rparr>) = Inr k'
     \<and> pl_release_nesting_lock (sample_env 0) no_yield (RThread None) (k'\<lparr>current_interrupt := None\<rparr>) = Inl Diverges"
proof -
  obtain q where q: "aq_push_back (OfThread 3) aq_new = Inr q" "aq_rel q Sentinel [OfThread 3]"
    using aq_push_back_rel [OF aq_new_rel, of "OfThread 3"] by (auto simp: is_linked_def aq_new_def)
  obtain q1 where q1: "aq_pop_front q = Inr (Some (OfThread 3), q1)" "aq_rel q1 (Item (OfThread 3)) []"
    "\<not> is_linked (OfThread 3) q1" using aq_pop_front_rel [OF q(2)] by (auto simp: is_linked_def)
  let ?k = "sample_isr\<lparr>pending_resume := q1\<rparr>"
  have "current_interrupt ?k = Some 7" "preempt_lock ?k = Some (PThread 1)" "PThread 1 \<noteq> PInterrupt 7"
    "\<not> raw_borrowed ?k" "aq_rel (pending_resume ?k) (Item (OfThread 3)) []"
    "\<not> is_linked (OfThread 3) (pending_resume ?k)"
    using q1 by (simp_all add: sample_isr_def sample_kernel_def)
  from second_deferred_resume_hangs [OF this, of "sample_env 0" no_yield] q(1) q1(1) show ?thesis by blast
qed

text \<open>
  The same holds for the executor of an interrupt: after it was polled as the last one,
  the next wakeup queues it again without an error, and then no interrupt is ever left: the loop
  that polls the pending executors does not end.
\<close>

theorem second_executor_poll_hangs:
  assumes "aq_rel (pending_executor_polls k) (Item i) []" and "\<not> is_linked i (pending_executor_polls k)"
    and "current_interrupt k = None"
  shows "\<exists>k'. wakeup_interrupt i k = Inr k'
     \<and> kernel_wakeup_handler e k' = Inl Diverges \<and> kernel_syscall_handler e SysYield k' = Inl Diverges"
proof -
  obtain q where q: "aq_push_back i (pending_executor_polls k) = Inr q" "self_loop i q"
    using push_dummy_empty [OF assms(1,2)] by blast
  let ?k = "k\<lparr>pending_executor_polls := q\<rparr>"
  have w: "wakeup_interrupt i k = Inr ?k"
    using assms(2) q(1) by (simp add: wakeup_interrupt_def set_pending_executor_poll_def)
  have loop: "interrupt_exit_loop e x = Some (Inl Diverges)" if "pending_executor_polls x = q" for x
    using that by (simp add: interrupt_exit_loop.simps [of e x] drain_polls.simps [of e x]
        self_loop_diverges(1) [OF q(2)] loop_result_def)
  have "kernel_wakeup_handler e ?k = Inl Diverges" "kernel_syscall_handler e SysYield ?k = Inl Diverges"
    using assms(3) by (simp_all add: kernel_wakeup_handler_def kernel_syscall_handler_def interrupt_context_def
        atomic_swap_def wakeup_scheduler_isr_def syscall_body_def yield_current_thread_isr_def
        set_pending_reschedule_def loop loop_result_def)
  with w show ?thesis by blast
qed

theorem second_executor_poll_hangs_witness:
  "\<exists>q q1 k'. aq_push_back 7 aq_new = Inr q \<and> aq_pop_front q = Inr (Some 7, q1)
     \<and> wakeup_interrupt 7 (sample_quiet\<lparr>pending_executor_polls := q1\<rparr>) = Inr k'
     \<and> kernel_wakeup_handler (sample_env 0) k' = Inl Diverges"
proof -
  obtain q where q: "aq_push_back (7 :: nat) aq_new = Inr q" "aq_rel q Sentinel [7]"
    using aq_push_back_rel [OF aq_new_rel, of "7 :: nat"] by (auto simp: is_linked_def aq_new_def)
  obtain q1 where q1: "aq_pop_front q = Inr (Some 7, q1)" "aq_rel q1 (Item 7) []"
    "\<not> is_linked 7 q1" using aq_pop_front_rel [OF q(2)] by (auto simp: is_linked_def)
  let ?k = "sample_quiet\<lparr>pending_executor_polls := q1\<rparr>"
  have "aq_rel (pending_executor_polls ?k) (Item 7) []" "\<not> is_linked 7 (pending_executor_polls ?k)"
    "current_interrupt ?k = None" using q1 by (simp_all add: sample_quiet_def)
  from second_executor_poll_hangs [OF this, of "sample_env 0"] q(1) q1(1) show ?thesis by blast
qed

end
