(* ===== verification/Ceiling_Lock.thy ===== *)
theory Ceiling_Lock
  imports Deferred_Work
begin

text \<open>
  Ceiling locks (\<open>sync/ceiling_lock.rs\<close>, the lock operations of \<open>thread/raw_thread.rs\<close> and
  \<open>kernel/interrupt.rs\<close>) and the mutex built on them (\<open>sync/mutex.rs\<close>). A thread or an interrupt
  handler that holds a lock runs at least at its ceiling; the holder keeps its locks in a list
  sorted by ceiling, so they can be released in any order.
\<close>

section \<open>Operations\<close>

subsection \<open>In a thread\<close>

text \<open>
  The head of the list of held locks gives the lock priority. The exchange loops end at the first
  attempt.
\<close>

definition held_priority :: "lptr list \<Rightarrow> kernel \<Rightarrow> priority_status" where
  "held_priority ls k =
     (case first_opt ls of
        Some l \<Rightarrow> status_valid (ceiling_priority (locks k l)) | None \<Rightarrow> SInvalid)"

definition update_owned_lock_priority :: "tptr \<Rightarrow> kernel \<Rightarrow> kernel" where
  "update_owned_lock_priority t k =
     (let new_priority = held_priority (scoped_locks (threads k t)) k;
          new_priorities = (fst (lock_priorities (threads k t)), new_priority)
      in set_ceiling_threshold (status_max (fst new_priorities) (snd new_priorities))
           (upd_thread t (\<lambda>x. x\<lparr>lock_priorities := new_priorities\<rparr>) k))"

definition thread_acquire_scoped_lock :: "tptr \<Rightarrow> lptr \<Rightarrow> kernel \<Rightarrow> kernel res" where
  "thread_acquire_scoped_lock t l k =
     (if state (threads k t) \<noteq> Running
      then Inl (Panic ''Thread cannot acquire ceiling lock in this state'')
      else
        (case atomic_compare_exchange (owner (locks k l)) None (Some (PThread t)) of
           (Inl _, _) \<Rightarrow> Inl (Panic ''Lock already owned. The scheduler should have prevented this.'')
         | (Inr _, cell) \<Rightarrow>
             (let k1 = upd_lock l (\<lambda>x. x\<lparr>owner := cell\<rparr>) k in
              bind_res (c_insert_after (lock_list_link (locks k1 l) \<noteq> None)
                  (\<lambda>a. ceiling_priority (locks k1 a) > ceiling_priority (locks k1 l))
                  l (scoped_locks (threads k1 t))) (\<lambda>ls.
                Inr (update_owned_lock_priority t
                  (upd_thread t (\<lambda>x. x\<lparr>scoped_locks := ls\<rparr>)
                    (upd_lock l (\<lambda>x. x\<lparr>lock_list_link := Some (PThread t)\<rparr>) k1)))))))"

definition thread_release_scoped_lock :: "tptr \<Rightarrow> lptr \<Rightarrow> kernel \<Rightarrow> kernel res" where
  "thread_release_scoped_lock t l k =
     (case owner (locks k l) of
        None \<Rightarrow> Inr k
      | Some c \<Rightarrow>
          if c = PThread t then
            bind_res (c_remove l (scoped_locks (threads k t))) (\<lambda>ls.
              cond_reschedule (update_owned_lock_priority t
                (upd_lock l (\<lambda>x. x\<lparr>owner := None, lock_list_link := None\<rparr>)
                  (upd_thread t (\<lambda>x. x\<lparr>scoped_locks := ls\<rparr>) k))))
          else Inl (Runtime LockOwnerViolation))"

definition raise_nesting_lock_priority :: "tptr \<Rightarrow> priority \<Rightarrow> kernel \<Rightarrow> priority_status \<times> kernel" where
  "raise_nesting_lock_priority t new_priority0 k =
     (let new_priority = priority_max new_priority0 (base_priority (threads k t));
          current = lock_priorities (threads k t);
          new = (status_max (fst current) (status_valid new_priority), snd current)
      in (fst current, set_ceiling_threshold (status_max (fst new) (snd new))
            (upd_thread t (\<lambda>x. x\<lparr>lock_priorities := new\<rparr>) k)))"

definition locked_cond_reschedule :: "env \<Rightarrow> kernel \<Rightarrow> kernel res" where
  "locked_cond_reschedule e k =
     bind_res (pl_with e (thread_yield e) (unit_op cond_reschedule) k) (\<lambda>(_, k1). Inr k1)"

definition store_nesting_lock_priority :: "tptr \<Rightarrow> priority_status \<Rightarrow> kernel \<Rightarrow> kernel" where
  "store_nesting_lock_priority t new_priority k =
     (let new = (new_priority, snd (lock_priorities (threads k t)))
      in set_ceiling_threshold (status_max (fst new) (snd new))
           (upd_thread t (\<lambda>x. x\<lparr>lock_priorities := new\<rparr>) k))"

definition set_nesting_lock_priority :: "env \<Rightarrow> tptr \<Rightarrow> priority_status \<Rightarrow> kernel \<Rightarrow> kernel res" where
  "set_nesting_lock_priority e t new_priority k =
     locked_cond_reschedule e (store_nesting_lock_priority t new_priority k)"

subsection \<open>In an interrupt handler\<close>

definition i_update_owned_lock_priority :: "iptr \<Rightarrow> kernel \<Rightarrow> kernel" where
  "i_update_owned_lock_priority i k =
     (let lock_prio = held_priority (owned_locks (interrupts k i)) k;
          raised_priority = fst (i_lock_priorities (interrupts k i));
          ceiling = (if is_valid lock_prio then status_max raised_priority lock_prio else raised_priority)
      in set_ceiling_threshold ceiling
           (upd_interrupt i (\<lambda>x. x\<lparr>i_lock_priorities := (raised_priority, lock_prio)\<rparr>) k))"

definition i_acquire_lock :: "iptr \<Rightarrow> lptr \<Rightarrow> kernel \<Rightarrow> kernel res" where
  "i_acquire_lock i l k =
     bind_res (c_insert_after (lock_list_link (locks k l) \<noteq> None)
         (\<lambda>a. ceiling_priority (locks k a) > ceiling_priority (locks k l))
         l (owned_locks (interrupts k i))) (\<lambda>ls.
       Inr (i_update_owned_lock_priority i
         (upd_interrupt i (\<lambda>x. x\<lparr>owned_locks := ls\<rparr>)
           (upd_lock l (\<lambda>x. x\<lparr>lock_list_link := Some (PInterrupt i)\<rparr>) k))))"

definition i_release_lock :: "iptr \<Rightarrow> lptr \<Rightarrow> kernel \<Rightarrow> kernel res" where
  "i_release_lock i l k =
     bind_res (c_remove l (owned_locks (interrupts k i))) (\<lambda>ls.
       Inr (i_update_owned_lock_priority i
         (upd_interrupt i (\<lambda>x. x\<lparr>owned_locks := ls\<rparr>)
           (upd_lock l (\<lambda>x. x\<lparr>lock_list_link := None\<rparr>) k))))"

subsection \<open>Scoped locks\<close>

definition acquire_scoped_lock_in_interrupt :: "iptr \<Rightarrow> lptr \<Rightarrow> kernel \<Rightarrow> kernel res" where
  "acquire_scoped_lock_in_interrupt i l k =
     (if i_priority (interrupts k i) > ceiling_priority (locks k l)
      then Inl (Runtime CeilingPriorityViolation)
      else if owner (locks k l) = Some (PInterrupt i) then Inl (Runtime RecursiveLock)
      else i_acquire_lock i l k)"

definition checked_acquire :: "tptr \<Rightarrow> lptr \<Rightarrow> kernel \<Rightarrow> kernel res" where
  "checked_acquire t l k =
     (if thread_id (threads k t) = IDLE_THREAD_ID then Inl (Runtime IdleThreadCeilingLock)
      else if owner (locks k l) = Some (PThread t) then Inl (Runtime RecursiveLock)
      else if priority (threads k t) > ceiling_priority (locks k l)
      then Inl (Runtime CeilingPriorityViolation)
      else thread_acquire_scoped_lock t l k)"

definition acquire_scoped_lock_in_thread :: "env \<Rightarrow> tptr \<Rightarrow> lptr \<Rightarrow> kernel \<Rightarrow> kernel res" where
  "acquire_scoped_lock_in_thread e t l k =
     bind_res (pl_with e (thread_yield e) (unit_op (checked_acquire t l)) k) (\<lambda>(_, k1). Inr k1)"

definition acquire_scoped_lock :: "env \<Rightarrow> lptr \<Rightarrow> kernel \<Rightarrow> kernel res" where
  "acquire_scoped_lock e l k =
     (case current_execution_context k of
        InInterrupt i \<Rightarrow> acquire_scoped_lock_in_interrupt i l k
      | InThread t \<Rightarrow> acquire_scoped_lock_in_thread e t l k)"

definition release_scoped_lock_in_thread :: "env \<Rightarrow> tptr \<Rightarrow> lptr \<Rightarrow> kernel \<Rightarrow> kernel res" where
  "release_scoped_lock_in_thread e t l k =
     (case owner (locks k l) of
        None \<Rightarrow> Inr k
      | Some c \<Rightarrow>
          if c \<noteq> PThread t then Inl (Runtime LockOwnerViolation)
          else bind_res (pl_with e (thread_yield e) (unit_op (thread_release_scoped_lock t l)) k)
                 (\<lambda>(_, k1). Inr k1))"

definition release_scoped_lock :: "env \<Rightarrow> lptr \<Rightarrow> kernel \<Rightarrow> kernel res" where
  "release_scoped_lock e l k =
     (case current_execution_context k of
        InInterrupt i \<Rightarrow> i_release_lock i l k
      | InThread t \<Rightarrow> release_scoped_lock_in_thread e t l k)"

subsection \<open>Sections\<close>

text \<open>
  Code that gives up the processor in the middle is not over: \<open>Preempted k c\<close> is the state in
  which another thread runs and the rest of the code, which goes on from the state in which its
  thread runs again.
\<close>

datatype ('s, 'a) run = Finished 'a 's | Preempted 's "'s \<Rightarrow> error + ('s, 'a) run"

type_synonym 'a krun = "(kernel, 'a) run"

primrec bind_run :: "('a \<Rightarrow> 's \<Rightarrow> ('s, 'b) run res) \<Rightarrow> ('s, 'a) run \<Rightarrow> ('s, 'b) run res" where
  "bind_run f (Finished a k) = f a k"
| "bind_run f (Preempted k c) =
     Inr (Preempted k (\<lambda>k1. bind_res ((map_sum id (bind_run f) \<circ> c) k1) (\<lambda>r. r)))"

definition then_run :: "('s, 'a) run res \<Rightarrow> ('a \<Rightarrow> 's \<Rightarrow> ('s, 'b) run res) \<Rightarrow> ('s, 'b) run res" where
  "then_run m f = bind_res m (bind_run f)"

definition as_run :: "kernel \<Rightarrow> kernel res \<Rightarrow> unit krun res" where
  "as_run k r =
     bind_res r (\<lambda>k1.
       Inr (if current_interrupt k = None \<and> current_thread k1 \<noteq> current_thread k
            then Preempted k1 (\<lambda>k2. Inr (Finished () k2)) else Finished () k1))"

definition acquire_nesting_lock :: "priority \<Rightarrow> kernel \<Rightarrow> priority_status \<times> kernel" where
  "acquire_nesting_lock ceiling k =
     (case current_execution_context k of
        InInterrupt i \<Rightarrow> i_raise_nesting_lock_priority i ceiling k
      | InThread t \<Rightarrow> raise_nesting_lock_priority t ceiling k)"

definition release_nesting_lock :: "env \<Rightarrow> priority_status \<Rightarrow> kernel \<Rightarrow> unit krun res" where
  "release_nesting_lock e saved_priority k =
     (case current_execution_context k of
        InInterrupt i \<Rightarrow> Inr (Finished () (i_set_nesting_lock_priority i saved_priority k))
      | InThread t \<Rightarrow>
          then_run (as_run k (set_nesting_lock_priority e t saved_priority k))
            (\<lambda>_ k1. as_run k1 (locked_cond_reschedule e k1)))"

definition cl_with :: "env \<Rightarrow> priority \<Rightarrow> (kernel \<Rightarrow> 'a krun res) \<Rightarrow> kernel \<Rightarrow> 'a krun res" where
  "cl_with e CEILING f k =
     (let (restore, k1) = acquire_nesting_lock CEILING k in
      then_run (f k1) (\<lambda>result k2.
      then_run (release_nesting_lock e restore k2) (\<lambda>_ k3. Inr (Finished result k3))))"

subsection \<open>Guards\<close>

text \<open>
  \<open>RawCeilingLockGuard\<close>: unlocking and relocking. \<open>CeilingLockGuard::relock\<close> calls \<open>lock\<close>, whose
  guard is a temporary that is dropped at the end of the statement.
\<close>

definition raw_guard_unlock :: "env \<Rightarrow> lptr \<Rightarrow> kernel \<Rightarrow> kernel res" where
  "raw_guard_unlock e l k = release_scoped_lock e l k"

definition raw_guard_relock :: "env \<Rightarrow> lptr \<Rightarrow> kernel \<Rightarrow> kernel res" where
  "raw_guard_relock e l k = acquire_scoped_lock e l k"

definition raw_lock :: "env \<Rightarrow> lptr \<Rightarrow> kernel \<Rightarrow> kernel res" where
  "raw_lock e l k = acquire_scoped_lock e l k"

definition cl_guard_relock :: "env \<Rightarrow> lptr \<Rightarrow> kernel \<Rightarrow> unit krun res" where
  "cl_guard_relock e l k =
     then_run (as_run k (raw_lock e l k)) (\<lambda>_ k1. as_run k1 (raw_guard_unlock e l k1))"

section \<open>What acquiring and releasing change\<close>

fun threshold_of :: "priority_status \<Rightarrow> u8" where
  "threshold_of (SInterrupt p) = p"
| "threshold_of _ = 0"

lemma set_ceiling_threshold_of: "set_ceiling_threshold c k = k\<lparr>interrupt_threshold := threshold_of c\<rparr>"
  by (cases c) (simp_all add: set_ceiling_threshold_def)

lemma held_priority_cong:
  "(\<And>l. ceiling_priority (locks k' l) = ceiling_priority (locks k l)) \<Longrightarrow> held_priority ls k' = held_priority ls k"
  by (simp add: held_priority_def split: option.split)

text \<open>
  The running thread holds the locks \<open>ls\<close>, the lock \<open>l\<close> having been given to or taken from it.
\<close>

definition with_locks :: "tptr \<Rightarrow> lptr list \<Rightarrow> lptr \<Rightarrow> ctx_ptr option \<Rightarrow> kernel \<Rightarrow> kernel" where
  "with_locks t ls l c k =
     (let lp = (fst (lock_priorities (threads k t)), held_priority ls k) in
      k\<lparr>locks := (locks k)(l := (locks k l)\<lparr>owner := c, lock_list_link := c\<rparr>),
        threads := (threads k)(t := (threads k t)\<lparr>scoped_locks := ls, lock_priorities := lp\<rparr>),
        interrupt_threshold := threshold_of (status_max (fst lp) (snd lp))\<rparr>)"

lemma acquire_eq:
  assumes "state (threads k t) = Running" and "owner (locks k l) = None" and "lock_list_link (locks k l) = None"
  shows "thread_acquire_scoped_lock t l k =
     Inr (with_locks t (insert_after (\<lambda>a. ceiling_priority (locks k a) > ceiling_priority (locks k l)) l
        (scoped_locks (threads k t))) l (Some (PThread t)) k)"
proof -
  let ?c = "(locks k)(l := (locks k l)\<lparr>owner := Some (PThread t), lock_list_link := Some (PThread t)\<rparr>)"
  have "ceiling_priority (?c a) = ceiling_priority (locks k a)"
    "ceiling_priority (((locks k)(l := (locks k l)\<lparr>owner := Some (PThread t)\<rparr>)) a) = ceiling_priority (locks k a)" for a
    by simp_all
  then show ?thesis
    using assms by (simp add: thread_acquire_scoped_lock_def atomic_compare_exchange_def upd_lock_def
        c_insert_after_def update_owned_lock_priority_def upd_thread_def set_ceiling_threshold_of Let_def
        with_locks_def held_priority_def del: fun_upd_apply split: option.split)
      (simp add: fun_upd_def)?
qed

lemma release_eq:
  assumes "owner (locks k l) = Some (PThread t)" and "l \<in> set (scoped_locks (threads k t))"
  shows "thread_release_scoped_lock t l k =
     cond_reschedule (with_locks t (remove1 l (scoped_locks (threads k t))) l None k)"
proof -
  have "update_owned_lock_priority t (upd_lock l (\<lambda>x. x\<lparr>owner := None, lock_list_link := None\<rparr>)
      (upd_thread t (\<lambda>x. x\<lparr>scoped_locks := ls\<rparr>) k)) = with_locks t ls l None k" (is "?a = _") for ls
  proof -
    have hp: "held_priority ls (k\<lparr>threads := x,
        locks := (locks k)(l := (locks k l)\<lparr>owner := None, lock_list_link := None\<rparr>)\<rparr>) = held_priority ls k" for x
      by (rule held_priority_cong) simp
    show ?thesis
      by (rule kernel.equality) (simp_all add: update_owned_lock_priority_def set_ceiling_threshold_of Let_def
          with_locks_def upd_lock_def upd_thread_def hp)
  qed
  then show ?thesis using assms by (simp add: thread_release_scoped_lock_def c_remove_def)
qed

lemma with_locks_simps [simp]:
  "ready_queue (with_locks t ls l c k) = ready_queue k" "blocked_list (with_locks t ls l c k) = blocked_list k"
  "suspended_list (with_locks t ls l c k) = suspended_list k" "sleep_queue (with_locks t ls l c k) = sleep_queue k"
  "current_thread (with_locks t ls l c k) = current_thread k" "idle_thread (with_locks t ls l c k) = idle_thread k"
  "suspendables (with_locks t ls l c k) = suspendables k" "cells (with_locks t ls l c k) = cells k"
  "pending_reschedule_kind (with_locks t ls l c k) = pending_reschedule_kind k"
  "wait_queues (with_locks t ls l c k) = wait_queues k"
  by (simp_all add: with_locks_def Let_def cells_def)

section \<open>Changing the priority of the running thread\<close>

text \<open>
  \<open>reprioritised k k'\<close>: the states differ only in the lock data of the running thread, in the
  locks and in the interrupt threshold.
\<close>

definition reprioritised :: "kernel \<Rightarrow> kernel \<Rightarrow> bool" where
  "reprioritised k k' \<longleftrightarrow>
     (\<exists>x. threads k' = (threads k)(current_thread k := x) \<and> state x = state (threads k (current_thread k))
        \<and> thread_id x = thread_id (threads k (current_thread k)) \<and> stack x = stack (threads k (current_thread k))
        \<and> base_priority x = base_priority (threads k (current_thread k)))
   \<and> ready_queue k' = ready_queue k \<and> blocked_list k' = blocked_list k
   \<and> suspended_list k' = suspended_list k \<and> sleep_queue k' = sleep_queue k
   \<and> current_thread k' = current_thread k \<and> idle_thread k' = idle_thread k
   \<and> suspendables k' = suspendables k \<and> kept k k'"

lemma reprioritised_views:
  assumes "reprioritised k k'"
  shows "tstate (threads k') = tstate (threads k)" "tid (threads k') = tid (threads k)"
    "tstack (threads k') = tstack (threads k)"
    "u \<noteq> current_thread k \<Longrightarrow> tprio (threads k') u = tprio (threads k) u"
    "u \<noteq> current_thread k \<Longrightarrow> tlock (threads k') u = tlock (threads k) u"
  using assms by (auto simp: reprioritised_def view_defs fun_eq_iff)

lemma reprioritised_inv:
  assumes inv: "sched_inv k" and r: "reprioritised k k'"
  shows "sched_inv k'"
proof -
  note v = reprioritised_views [OF r]
  have un: "current_thread k \<notin> set (ready_queue k)" "current_thread k \<notin> set (blocked_list k)"
    using inv_placed [OF inv] by (auto simp: placed_def)
  have o: "ordered (tprio (threads k)) (tlock (threads k)) (ready_queue k) (blocked_list k)"
    using inv by (simp add: sched_inv_fl_def)
  have "ordered (tprio (threads k')) (tlock (threads k')) (ready_queue k) (blocked_list k)"
    unfolding ordered_def
  proof (intro conjI)
    show "sorted_wrt (\<lambda>a b. tprio (threads k') b \<le> tprio (threads k') a) (ready_queue k)"
      by (rule sorted_wrt_mono_rel [OF _ conjunct1 [OF o [unfolded ordered_def]]]) (use v(4) un in metis)
    show "sorted_wrt (\<lambda>a b. lock_ge (tlock (threads k') a) (tlock (threads k') b)) (blocked_list k)"
      by (rule sorted_wrt_mono_rel [OF _ conjunct2 [OF o [unfolded ordered_def]]]) (use v(5) un in metis)
  qed
  then show ?thesis using inv r v(1-3) by (simp add: sched_inv_fl_def reprioritised_def)
qed

lemma reprioritised_settled:
  assumes "settled None k" and r: "reprioritised k k'"
  shows "settled None k'"
  using reprioritised_inv [OF _ r] reprioritised_views(3) [OF r] assms
  by (simp add: settled_def reprioritised_def stacks_alive_def threads_only_def kept_def cells_def)

lemma reprioritised_quiescent:
  assumes "quiescent k" and "reprioritised k k'"
  shows "quiescent k'"
  using reprioritised_settled [of k k'] assms by (simp add: quiescent_def reprioritised_def kept_def)

lemma with_locks_reprioritised:
  "t = current_thread k \<Longrightarrow> reprioritised k (with_locks t ls l c k)"
  by (simp add: reprioritised_def kept_def) (simp add: with_locks_def Let_def, intro exI conjI, rule refl, simp_all)

section \<open>Through the preemption lock\<close>

lemma pl_with_thread:
  assumes k: "settled None k" and f: "f (k\<lparr>preempt_lock := Some (PThread (current_thread k))\<rparr>) = Inr (r, k1)"
    and c: "cells k1 = cells (k\<lparr>preempt_lock := Some (PThread (current_thread k))\<rparr>)"
    and k1: "sched_inv k1" "stacks_alive k1" "threads_only k1"
  shows "pl_with e y f k =
       (if is_reschedule_pending k1 then bind_res (y (unlocked k1)) (\<lambda>k3. Inr (r, k3)) else Inr (r, unlocked k1))"
    and "settled None (unlocked k1)"
proof -
  have c': "pending_resume k1 = pending_resume k" "pending_sleep k1 = pending_sleep k"
    "pending_executor_polls k1 = pending_executor_polls k" "\<not> raw_borrowed k1" "current_interrupt k1 = None"
    using c k by (simp_all add: cells_def settled_def)
  have eq: "k1\<lparr>raw_borrowed := False, pending_resume := init_once (pending_resume k),
      pending_sleep := init_once (pending_sleep k), preempt_lock := None\<rparr> = unlocked k1"
    using c' by (simp add: unlocked_def)
  have "is_reschedule_pending (unlocked k1) = is_reschedule_pending k1" by (simp add: is_reschedule_pending_def)
  then show "pl_with e y f k =
       (if is_reschedule_pending k1 then bind_res (y (unlocked k1)) (\<lambda>k3. Inr (r, k3)) else Inr (r, unlocked k1))"
    using k f c' complete_pending_empty [of k1 e]
    by (simp add: pl_with_def pl_acquire_nesting_lock_def current_execution_context_def settled_def
        pl_release_nesting_lock_def Let_def eq)
  show "settled None (unlocked k1)"
    using k c' k1 by (simp add: settled_def unlocked_def threads_only_def stacks_alive_def)
qed

lemma cond_reschedule_eq:
  "\<not> raw_borrowed k \<Longrightarrow> cond_reschedule k =
     Inr (case first_opt (ready_queue k) of
            Some t \<Rightarrow> if priority (threads k (current_thread k)) < priority (threads k t)
                      then set_pending_reschedule RESCHEDULE_KIND_YIELD_TO_HIGHER k else k
          | None \<Rightarrow> k)"
  by (cases k) (simp add: cond_reschedule_def borrow_raw_def set_pending_reschedule_def Let_def split: option.split)

text \<open>
  After a change of the running thread's priority the processor is reconsidered: if a ready thread
  is above the running one, the highest of them runs.
\<close>

definition reconsidered :: "u64 \<Rightarrow> kernel \<Rightarrow> kernel \<Rightarrow> bool" where
  "reconsidered n k k' \<longleftrightarrow>
     (if \<exists>t \<in> set (ready_queue k). tprio (threads k) (current_thread k) < tprio (threads k) t
      then rescheduled n k k' else k' = unlocked k)"

lemma cond_reschedule_ok:
  assumes k: "settled None k" and kd: "pending_reschedule_kind k = 0"
    and f: "f (k\<lparr>preempt_lock := Some (PThread (current_thread k))\<rparr>) =
       bind_res (cond_reschedule (k1\<lparr>preempt_lock := Some (PThread (current_thread k))\<rparr>)) (\<lambda>k2. Inr (r, k2))"
    and k1: "reprioritised k k1"
  shows "\<exists>k'. pl_with e (thread_yield e) f k = Inr (r, k') \<and> quiescent k' \<and> no_inversion k'
     \<and> reconsidered (now e) k1 k'"
proof -
  let ?l = "\<lambda>k'. k'\<lparr>preempt_lock := Some (PThread (current_thread k))\<rparr>"
  have s1: "settled None k1" "pending_reschedule_kind k1 = 0" "current_thread k1 = current_thread k"
    using reprioritised_settled [OF k k1] k1 kd by (simp_all add: reprioritised_def kept_def)
  have inv: "sched_inv k1" using s1(1) by (simp add: settled_def)
  let ?h = "\<exists>t \<in> set (ready_queue k1). tprio (threads k1) (current_thread k1) < tprio (threads k1) t"
  let ?k2 = "if ?h then set_pending_reschedule RESCHEDULE_KIND_YIELD_TO_HIGHER (?l k1) else ?l k1"
  have head: "?h \<longleftrightarrow> (\<exists>t. first_opt (ready_queue k1) = Some t
      \<and> tprio (threads k1) (current_thread k1) < tprio (threads k1) t)"
  proof
    assume ?h
    then show "\<exists>t. first_opt (ready_queue k1) = Some t \<and> tprio (threads k1) (current_thread k1) < tprio (threads k1) t"
      using ready_bounded [OF inv, of "tprio (threads k1) (current_thread k1)"]
      by (cases "ready_queue k1") (auto simp flip: not_le)
  next
    assume "\<exists>t. first_opt (ready_queue k1) = Some t \<and> tprio (threads k1) (current_thread k1) < tprio (threads k1) t"
    then show ?h by (cases "ready_queue k1") auto
  qed
  have "cond_reschedule (?l k1) = Inr ?k2"
    using s1(1) head by (subst cond_reschedule_eq)
      (auto simp: settled_def view_folds split: option.split)
  then have f2: "f (?l k) = Inr (r, ?k2)" using f by simp
  have c: "cells ?k2 = cells (?l k)"
    using k1 by (auto simp: reprioritised_def kept_def cells_def set_pending_reschedule_def)
  have i2: "sched_inv ?k2" "stacks_alive ?k2" "threads_only ?k2"
    using s1(1) by (auto simp: settled_def stacks_alive_def threads_only_def set_pending_reschedule_def)
  note pl = pl_with_thread [where f = f, OF k f2 c i2]
  show ?thesis
  proof (cases ?h)
    case True
    obtain k' where k': "thread_yield e (unlocked ?k2) = Inr k'" "quiescent k'"
      "rescheduled (now e) (unlocked ?k2) k'" using yield_ok [OF pl(2)] by blast
    have "rescheduled (now e) (unlocked ?k2) k' = rescheduled (now e) k1 k'"
      by (rule rescheduled_cong) (use True in \<open>simp_all add: set_pending_reschedule_def\<close>)
    moreover have "is_reschedule_pending ?k2"
      using True s1(2) by (simp add: is_reschedule_pending_def set_pending_reschedule_def RESCHEDULE_KIND_NONE_def
          RESCHEDULE_KIND_YIELD_TO_HIGHER_def)
    ultimately show ?thesis
      using True pl(1) [of e "thread_yield e"] k' no_inversion_rescheduled [of "now e" k1 k']
      by (auto simp: reconsidered_def)
  next
    case False
    have u: "unlocked (?l k1) = unlocked k1" by (cases k1) (simp add: unlocked_def)
    have "\<not> is_reschedule_pending (?l k1)"
      using s1(2) by (simp add: is_reschedule_pending_def RESCHEDULE_KIND_NONE_def)
    moreover have "quiescent (unlocked k1)"
      using pl(2) False u s1(2) by (simp add: quiescent_def)
    moreover have "no_inversion (unlocked k1)"
      using False le_max_valid(1) by (auto simp: no_inversion_views not_less intro: order_trans)
    ultimately show ?thesis
      using False pl(1) [of e "thread_yield e"] u by (auto simp: reconsidered_def)
  qed
qed

section \<open>The locks a thread holds\<close>

definition locks_ok :: "kernel \<Rightarrow> bool" where
  "locks_ok k \<longleftrightarrow>
     (\<forall>t. distinct (scoped_locks (threads k t))
        \<and> sorted_wrt (\<lambda>a b. ceiling_priority (locks k b) \<le> ceiling_priority (locks k a)) (scoped_locks (threads k t))
        \<and> snd (lock_priorities (threads k t)) = held_priority (scoped_locks (threads k t)) k)
   \<and> (\<forall>t l. l \<in> set (scoped_locks (threads k t)) \<longleftrightarrow> owner (locks k l) = Some (PThread t))"

lemma locks_ok_cong:
  assumes "theld (threads k') = theld (threads k)" and "locks k' = locks k"
  shows "locks_ok k' = locks_ok k"
proof -
  have "scoped_locks (threads k' t) = scoped_locks (threads k t)"
    "lock_priorities (threads k' t) = lock_priorities (threads k t)" for t
    using fun_cong [OF assms(1), of t] by (simp_all add: theld_def)
  moreover have "held_priority ls k' = held_priority ls k" for ls
    by (rule held_priority_cong) (simp add: assms(2))
  ultimately show ?thesis using assms(2) by (simp add: locks_ok_def)
qed

lemma locks_okD:
  assumes "locks_ok k"
  shows "distinct (scoped_locks (threads k t))"
    "sorted_wrt (\<lambda>a b. ceiling_priority (locks k b) \<le> ceiling_priority (locks k a)) (scoped_locks (threads k t))"
    "snd (lock_priorities (threads k t)) = held_priority (scoped_locks (threads k t)) k"
    "l \<in> set (scoped_locks (threads k t)) \<longleftrightarrow> owner (locks k l) = Some (PThread t)"
  using assms by (simp_all add: locks_ok_def)

text \<open>The priority of the held locks is the highest ceiling, so it bounds every ceiling.\<close>

lemma held_priority_max:
  assumes "sorted_wrt (\<lambda>a b. ceiling_priority (locks k b) \<le> ceiling_priority (locks k a)) ls" and "l \<in> set ls"
  shows "\<exists>p. status_priority (held_priority ls k) = Some p \<and> ceiling_priority (locks k l) \<le> p"
  using assms by (cases ls) (auto simp: held_priority_def)

lemma ceiling_le_priority:
  assumes "locks_ok k" and "owner (locks k l) = Some (PThread t)"
  shows "ceiling_priority (locks k l) \<le> priority (threads k t)"
proof -
  obtain p where "status_priority (snd (lock_priorities (threads k t))) = Some p" "ceiling_priority (locks k l) \<le> p"
    using held_priority_max [OF locks_okD(2) [OF assms(1)], of l t] assms locks_okD(3,4) [OF assms(1)] by auto
  then show ?thesis
    by (auto simp: priority_defs max_valid_priority status_max_priority le_max_iff_disj split: option.splits)
qed

lemma with_locks_ok:
  assumes k: "locks_ok k" and ls: "distinct ls"
      "sorted_wrt (\<lambda>a b. ceiling_priority (locks k b) \<le> ceiling_priority (locks k a)) ls"
    and own: "set ls - {l} = set (scoped_locks (threads k t)) - {l}" "l \<in> set ls \<longleftrightarrow> c = Some (PThread t)"
    and c: "c = None \<or> c = Some (PThread t)"
    and other: "\<And>u. u \<noteq> t \<Longrightarrow> owner (locks k l) \<noteq> Some (PThread u)"
  shows "locks_ok (with_locks t ls l c k)"
proof -
  let ?k = "with_locks t ls l c k"
  have ce: "ceiling_priority (locks ?k a) = ceiling_priority (locks k a)" for a
    by (simp add: with_locks_def Let_def)
  have hp: "held_priority xs ?k = held_priority xs k" for xs by (rule held_priority_cong) (rule ce)
  have sl: "scoped_locks (threads ?k u) = (if u = t then ls else scoped_locks (threads k u))"
    "snd (lock_priorities (threads ?k u)) = (if u = t then held_priority ls k else snd (lock_priorities (threads k u)))"
    "owner (locks ?k a) = (if a = l then c else owner (locks k a))" for u a
    by (simp_all add: with_locks_def Let_def)
  have "a \<in> set (scoped_locks (threads ?k u)) \<longleftrightarrow> owner (locks ?k a) = Some (PThread u)" for a u
  proof (cases "u = t")
    case True
    have "a \<noteq> l \<Longrightarrow> a \<in> set ls \<longleftrightarrow> a \<in> set (scoped_locks (threads k t))" using own(1) by blast
    with True own(2) locks_okD(4) [OF k] show ?thesis by (cases "a = l") (simp_all add: sl)
  next
    case False
    then show ?thesis using locks_okD(4) [OF k] other [OF False] c by (cases "a = l") (auto simp: sl)
  qed
  then show ?thesis using locks_okD [OF k] ls by (simp add: locks_ok_def ce hp sl)
qed

lemma acquired_locks_ok:
  assumes k: "locks_ok k" and free: "owner (locks k l) = None"
  shows "locks_ok (with_locks t (insert_after (\<lambda>a. ceiling_priority (locks k a) > ceiling_priority (locks k l)) l
        (scoped_locks (threads k t))) l (Some (PThread t)) k)"
proof (rule with_locks_ok [OF k])
  have new: "l \<notin> set (scoped_locks (threads k t))" using locks_okD(4) [OF k] free by simp
  then show "distinct (insert_after (\<lambda>a. ceiling_priority (locks k a) > ceiling_priority (locks k l)) l
      (scoped_locks (threads k t)))" using locks_okD(1) [OF k] by simp
  show "sorted_wrt (\<lambda>a b. ceiling_priority (locks k b) \<le> ceiling_priority (locks k a))
     (insert_after (\<lambda>a. ceiling_priority (locks k a) > ceiling_priority (locks k l)) l (scoped_locks (threads k t)))"
    using locks_okD(2) [OF k, of t]
    by (intro sorted_insert_after) (auto intro: transpI)
qed (use free in auto)

lemma released_locks_ok:
  assumes k: "locks_ok k" and own: "owner (locks k l) = Some (PThread t)"
  shows "locks_ok (with_locks t (remove1 l (scoped_locks (threads k t))) l None k)"
proof (rule with_locks_ok [OF k])
  have d: "distinct (scoped_locks (threads k t))" by (rule locks_okD(1) [OF k])
  then show "distinct (remove1 l (scoped_locks (threads k t)))" "l \<in> set (remove1 l (scoped_locks (threads k t))) \<longleftrightarrow>
      None = Some (PThread t)" "set (remove1 l (scoped_locks (threads k t))) - {l} = set (scoped_locks (threads k t)) - {l}"
    by auto
  show "sorted_wrt (\<lambda>a b. ceiling_priority (locks k b) \<le> ceiling_priority (locks k a))
     (remove1 l (scoped_locks (threads k t)))"
    using locks_okD(2) [OF k] by (rule sorted_wrt_remove1)
qed (use own in auto)

section \<open>Whole operations of a thread\<close>

lemma insert_at_front: "\<forall>y \<in> set xs. \<not> P y \<Longrightarrow> insert_after P x xs = x # xs"
  by (cases xs) auto

lemma acquired_priority:
  assumes k: "locks_ok k" and le: "priority (threads k t) \<le> ceiling_priority (locks k l)"
  shows "insert_after (\<lambda>a. ceiling_priority (locks k a) > ceiling_priority (locks k l)) l (scoped_locks (threads k t))
      = l # scoped_locks (threads k t)"
    and "lock_priority (threads (with_locks t (l # scoped_locks (threads k t)) l c k) t) =
       status_valid (ceiling_priority (locks k l))"
    and "priority (threads (with_locks t (l # scoped_locks (threads k t)) l c k) t) = ceiling_priority (locks k l)"
    and "interrupt_threshold (with_locks t (l # scoped_locks (threads k t)) l c k) =
       threshold_of (status_valid (ceiling_priority (locks k l)))"
proof -
  have "\<not> ceiling_priority (locks k a) > ceiling_priority (locks k l)" if "a \<in> set (scoped_locks (threads k t))" for a
    using ceiling_le_priority [OF k, of a t] that locks_okD(4) [OF k] le by (simp add: not_less)
  then show "insert_after (\<lambda>a. ceiling_priority (locks k a) > ceiling_priority (locks k l)) l (scoped_locks (threads k t))
      = l # scoped_locks (threads k t)" by (simp add: insert_at_front)
  let ?c = "ceiling_priority (locks k l)" and ?n = "fst (lock_priorities (threads k t))"
  have n: "x \<le> ?c" if "status_priority ?n = Some x" for x
    using le that by (auto simp: priority_defs max_valid_priority status_max_priority split: option.splits)
  have eq: "status_max ?n (status_valid ?c) = status_valid ?c"
    using n by (subst status_priority_inject [symmetric])
      (auto simp: status_max_priority max_def split: option.split)
  have base: "base_priority (threads k t) \<le> ?c"
    using le by (auto simp: priority_defs max_valid_priority split: option.splits)
  show "lock_priority (threads (with_locks t (l # scoped_locks (threads k t)) l c k) t) = status_valid ?c"
    "priority (threads (with_locks t (l # scoped_locks (threads k t)) l c k) t) = ?c"
    "interrupt_threshold (with_locks t (l # scoped_locks (threads k t)) l c k) = threshold_of (status_valid ?c)"
    using eq base by (simp_all add: with_locks_def Let_def held_priority_def priority_defs max_def)
qed

lemma locked_view:
  assumes "k' = k\<lparr>preempt_lock := pl\<rparr>"
  shows "threads k' = threads k" "locks k' = locks k" "with_locks t ls l c k' = (with_locks t ls l c k)\<lparr>preempt_lock := pl\<rparr>"
proof -
  have "held_priority ls k' = held_priority ls k" by (rule held_priority_cong) (simp add: assms)
  then show "with_locks t ls l c k' = (with_locks t ls l c k)\<lparr>preempt_lock := pl\<rparr>"
    by (intro kernel.equality) (simp_all add: assms with_locks_def Let_def)
qed (simp_all add: assms)

lemma thread_context_is_current:
  "quiescent k \<Longrightarrow> current_execution_context k = InThread (current_thread k)"
  using quiescentD(4) [of k] by (simp add: current_execution_context_def)

lemma acquire_scoped_lock_ok:
  assumes q: "quiescent k" and ok: "locks_ok k"
    and id: "thread_id (threads k (current_thread k)) \<noteq> IDLE_THREAD_ID"
    and free: "owner (locks k l) = None" "lock_list_link (locks k l) = None"
    and le: "priority (threads k (current_thread k)) \<le> ceiling_priority (locks k l)"
  shows "acquire_scoped_lock e l k =
       Inr (unlocked (with_locks (current_thread k) (l # scoped_locks (threads k (current_thread k))) l
         (Some (PThread (current_thread k))) k))"
    and "quiescent (unlocked (with_locks (current_thread k) (l # scoped_locks (threads k (current_thread k))) l
         (Some (PThread (current_thread k))) k))"
proof -
  let ?t = "current_thread k"
  let ?c = "Some (PThread ?t)"
  let ?ls = "l # scoped_locks (threads k ?t)"
  let ?p = "k\<lparr>preempt_lock := ?c\<rparr>"
  let ?k1 = "with_locks ?t ?ls l ?c k"
  let ?k2 = "?k1\<lparr>preempt_lock := ?c\<rparr>"
  note v = locked_view [where k = k and pl = ?c, OF refl]
  have st: "state (threads k ?t) = Running" using inv_states(4) [OF quiescentD(1) [OF q], of ?t] by (simp add: view_folds)
  have "thread_acquire_scoped_lock ?t l ?p = Inr ?k2"
    using acquire_eq [of ?p ?t l] st free acquired_priority(1) [OF ok le] v by simp
  then have f: "unit_op (checked_acquire ?t l) ?p = Inr ((), ?k2)"
    using id free le by (simp add: unit_op_def checked_acquire_def)
  have r: "reprioritised k ?k1" by (rule with_locks_reprioritised) simp
  have q1: "quiescent ?k1" by (rule reprioritised_quiescent [OF q r])
  have c: "cells ?k2 = cells ?p" using r by (simp add: reprioritised_def kept_def cells_def)
  have i: "sched_inv ?k2" "stacks_alive ?k2" "threads_only ?k2"
    using quiescentD [OF q1] by (simp_all add: stacks_alive_def threads_only_def)
  note pl = pl_with_thread [where f = "unit_op (checked_acquire ?t l)", OF quiescentD(8) [OF q] f c i]
  have np: "\<not> is_reschedule_pending ?k2"
    using quiescentD(6) [OF q1] by (simp add: is_reschedule_pending_def RESCHEDULE_KIND_NONE_def)
  have u: "unlocked ?k2 = unlocked ?k1" by (simp add: unlocked_def)
  show "acquire_scoped_lock e l k = Inr (unlocked ?k1)"
    using pl(1) [of e "thread_yield e"] np u
    by (simp add: acquire_scoped_lock_def thread_context_is_current [OF q] acquire_scoped_lock_in_thread_def)
  show "quiescent (unlocked ?k1)" using pl(2) u quiescentD(6) [OF q1] by (simp add: quiescent_def)
qed

lemma release_scoped_lock_ok:
  assumes q: "quiescent k" and ok: "locks_ok k" and own: "owner (locks k l) = Some (PThread (current_thread k))"
  shows "\<exists>k'. release_scoped_lock e l k = Inr k' \<and> quiescent k' \<and> no_inversion k'
     \<and> reconsidered (now e) (with_locks (current_thread k)
          (remove1 l (scoped_locks (threads k (current_thread k)))) l None k) k'"
proof -
  let ?t = "current_thread k"
  let ?k1 = "with_locks ?t (remove1 l (scoped_locks (threads k ?t))) l None k"
  let ?p = "k\<lparr>preempt_lock := Some (PThread ?t)\<rparr>"
  note v = locked_view [where k = k and pl = "Some (PThread ?t)", OF refl]
  have f: "unit_op (thread_release_scoped_lock ?t l) ?p =
      bind_res (cond_reschedule (?k1\<lparr>preempt_lock := Some (PThread ?t)\<rparr>)) (\<lambda>k2. Inr ((), k2))"
    using release_eq [of ?p l ?t] own locks_okD(4) [OF ok, of l ?t] v by (simp add: unit_op_def)
  have r: "reprioritised k ?k1" by (rule with_locks_reprioritised) simp
  from cond_reschedule_ok [where f = "unit_op (thread_release_scoped_lock ?t l)",
      OF quiescentD(8) [OF q] quiescentD(6) [OF q] f r, of e] own
  show ?thesis
    by (auto simp: release_scoped_lock_def thread_context_is_current [OF q] release_scoped_lock_in_thread_def)
qed

lemma reconsidered_frame:
  assumes "reconsidered n k k'"
  shows "theld (threads k') = theld (threads k)" "locks k' = locks k"
  using assms by (auto simp: reconsidered_def rescheduled_def sched_frame_def split: if_splits)

lemma reconsidered_waits:
  assumes "reconsidered n k k'"
  shows "waits k' = waits k" "runnable k \<subseteq> runnable k'" "idle_thread k' = idle_thread k"
proof -
  have "waits (unlocked k) = waits k" by (simp add: waits_def)
  with assms show "waits k' = waits k" "runnable k \<subseteq> runnable k'" "idle_thread k' = idle_thread k"
    by (auto simp: reconsidered_def rescheduled_def sched_frame_def runnable_def split: if_splits)
qed

section \<open>Sections\<close>

lemma reprioritised_refl: "reprioritised k k"
  by (auto simp: reprioritised_def kept_def intro: exI [of _ "threads k (current_thread k)"])

lemma locked_cond_reschedule_ok:
  assumes "quiescent k"
  shows "\<exists>k'. locked_cond_reschedule e k = Inr k' \<and> quiescent k' \<and> no_inversion k' \<and> reconsidered (now e) k k'"
proof -
  have f: "unit_op cond_reschedule (k\<lparr>preempt_lock := Some (PThread (current_thread k))\<rparr>) =
      bind_res (cond_reschedule (k\<lparr>preempt_lock := Some (PThread (current_thread k))\<rparr>)) (\<lambda>k2. Inr ((), k2))"
    by (simp add: unit_op_def)
  from cond_reschedule_ok [where f = "unit_op cond_reschedule", OF quiescentD(8) [OF assms] quiescentD(6) [OF assms] f
      reprioritised_refl, of e]
  show ?thesis by (auto simp: locked_cond_reschedule_def)
qed

lemma store_nesting_reprioritised:
  assumes "t = current_thread k"
  shows "reprioritised k (store_nesting_lock_priority t p k)"
  using assms by (simp add: reprioritised_def kept_def cells_def store_nesting_lock_priority_def set_ceiling_threshold_of
      upd_thread_def Let_def) (intro exI conjI, rule refl, simp_all)

lemma raise_nesting_reprioritised:
  assumes "t = current_thread k"
  shows "reprioritised k (snd (raise_nesting_lock_priority t p k))"
  using assms by (simp add: reprioritised_def kept_def cells_def raise_nesting_lock_priority_def set_ceiling_threshold_of
      upd_thread_def Let_def) (intro exI conjI, rule refl, simp_all)

lemma raise_nesting_priority:
  "c \<le> priority (threads (snd (raise_nesting_lock_priority t c k)) t)"
  by (simp add: raise_nesting_lock_priority_def set_ceiling_threshold_of upd_thread_def Let_def priority_defs
      max_valid_priority status_max_priority le_max_iff_disj priority_max_max split: option.split)

primrec run_state :: "('s, 'a) run \<Rightarrow> 's" where
  "run_state (Finished _ k) = k"
| "run_state (Preempted k _) = k"

primrec finished_with :: "'a \<Rightarrow> ('s, 'a) run \<Rightarrow> bool" where
  "finished_with r (Finished a _) \<longleftrightarrow> a = r"
| "finished_with _ (Preempted _ _) \<longleftrightarrow> False"

text \<open>
  The end of a section: the saved priority is back, and a ready thread above it runs. Unless one
  does, the section ends at once.
\<close>

lemma release_nesting_ok:
  assumes q: "quiescent k"
  defines "t \<equiv> current_thread k"
  shows "\<exists>r. release_nesting_lock e p k = Inr r \<and> quiescent (run_state r) \<and> no_inversion (run_state r)
     \<and> theld (threads (run_state r)) = theld (threads (store_nesting_lock_priority t p k))
     \<and> locks (run_state r) = locks k \<and> waits (run_state r) = waits k \<and> runnable k \<subseteq> runnable (run_state r)
     \<and> (current_thread (run_state r) \<noteq> t \<or> finished_with () r)"
proof -
  let ?s = "store_nesting_lock_priority t p k"
  have "quiescent ?s" unfolding t_def by (intro reprioritised_quiescent [OF q] store_nesting_reprioritised refl)
  then obtain k1 where k1: "locked_cond_reschedule e ?s = Inr k1" "quiescent k1" "no_inversion k1"
    "reconsidered (now e) ?s k1" using locked_cond_reschedule_ok by blast
  obtain k2 where k2: "locked_cond_reschedule e k1 = Inr k2" "quiescent k2" "no_inversion k2"
    "reconsidered (now e) k1 k2" using locked_cond_reschedule_ok [OF k1(2)] by blast
  have l: "locks ?s = locks k" "waits ?s = waits k" "runnable ?s = runnable k"
    by (simp_all add: store_nesting_lock_priority_def set_ceiling_threshold_of upd_thread_def Let_def waits_def runnable_def)
  note w = reconsidered_waits [OF k1(4)] reconsidered_waits [OF k2(4)]
  have ci: "current_interrupt k = None" "current_interrupt k1 = None"
    using quiescentD(4) [OF q] quiescentD(4) [OF k1(2)] by simp_all
  have rel: "release_nesting_lock e p k =
      then_run (as_run k (Inr k1)) (\<lambda>_ k1. as_run k1 (locked_cond_reschedule e k1))"
    using k1(1) by (simp add: release_nesting_lock_def thread_context_is_current [OF q] set_nesting_lock_priority_def t_def)
  show ?thesis
  proof (cases "current_thread k1 = t")
    case True
    have "release_nesting_lock e p k = as_run k1 (Inr k2)"
      using True ci k2(1) by (simp add: rel as_run_def then_run_def t_def)
    then show ?thesis
      using True ci k2 l w reconsidered_frame [OF k1(4)] reconsidered_frame [OF k2(4)]
      by (auto simp: as_run_def)
  next
    case False
    then show ?thesis
      using ci k1 l w reconsidered_frame [OF k1(4)] by (auto simp: rel as_run_def then_run_def t_def)
  qed
qed

text \<open>With no ready thread above the restored priority, the thread keeps the processor.\<close>

lemma release_nesting_stays:
  assumes q: "quiescent k"
    and le: "\<forall>u \<in> set (ready_queue k). tprio (threads k) u \<le>
        tprio (threads (store_nesting_lock_priority (current_thread k) p k)) (current_thread k)"
  shows "release_nesting_lock e p k =
       Inr (Finished () (unlocked (unlocked (store_nesting_lock_priority (current_thread k) p k))))"
    and "quiescent (unlocked (unlocked (store_nesting_lock_priority (current_thread k) p k)))"
proof -
  let ?t = "current_thread k"
  let ?s = "store_nesting_lock_priority ?t p k"
  have r: "reprioritised k ?s" by (rule store_nesting_reprioritised) simp
  have q1: "quiescent ?s" by (rule reprioritised_quiescent [OF q r])
  have "?t \<notin> set (ready_queue k)" using inv_placed [OF quiescentD(1) [OF q]] by (auto simp: placed_def)
  then have "tprio (threads ?s) u = tprio (threads k) u" if "u \<in> set (ready_queue k)" for u
    using reprioritised_views(4) [OF r, of u] that by blast
  moreover have c: "current_thread ?s = ?t" "ready_queue ?s = ready_queue k" using r by (simp_all add: reprioritised_def)
  ultimately have none: "\<not> (\<exists>u \<in> set (ready_queue ?s). tprio (threads ?s) (current_thread ?s) < tprio (threads ?s) u)"
    using le by (simp add: not_less)
  have k1: "locked_cond_reschedule e ?s = Inr (unlocked ?s)" "quiescent (unlocked ?s)"
    using locked_cond_reschedule_ok [OF q1, of e] none by (auto simp: reconsidered_def)
  have k2: "locked_cond_reschedule e (unlocked ?s) = Inr (unlocked (unlocked ?s))" "quiescent (unlocked (unlocked ?s))"
    using locked_cond_reschedule_ok [OF k1(2), of e] none by (auto simp: reconsidered_def)
  show "quiescent (unlocked (unlocked ?s))" by (rule k2(2))
  show "release_nesting_lock e p k = Inr (Finished () (unlocked (unlocked ?s)))"
    using c(1) k1(1) k2(1) by (simp add: release_nesting_lock_def thread_context_is_current [OF q]
        set_nesting_lock_priority_def as_run_def then_run_def)
qed

section \<open>A sample kernel with a lock\<close>

lemma sample_quiet_locks: "locks_ok sample_quiet"
  by (simp add: locks_ok_def sample_quiet_def sample_kernel_def sample_thread_def raw_thread_new_def
      held_priority_def ceiling_lock_new_def)

lemma sample_quiet_lock_facts:
  "thread_id (threads sample_quiet 1) \<noteq> IDLE_THREAD_ID" "owner (locks sample_quiet 1) = None"
  "lock_list_link (locks sample_quiet 1) = None" "ceiling_priority (locks sample_quiet 1) = Thread 9"
  "priority (threads sample_quiet 1) = Thread 3"
  by (simp_all add: sample_quiet_def sample_kernel_def sample_thread_def raw_thread_new_def IDLE_THREAD_ID_def
      ceiling_lock_new_def priority_defs)

section \<open>Properties\<close>

text \<open>
  Claim C18. A thread whose priority is at most the ceiling of a free lock acquires it: the lock has
  that thread as its owner, the thread runs on at exactly the ceiling priority, the interrupt
  threshold is that of the ceiling, and the list of held locks stays sorted with the lock priority
  of its head.
\<close>

theorem acquire_correct:
  assumes "quiescent k" and "locks_ok k"
    and "thread_id (threads k (current_thread k)) \<noteq> IDLE_THREAD_ID"
    and "owner (locks k l) = None" and "lock_list_link (locks k l) = None"
    and "priority (threads k (current_thread k)) \<le> ceiling_priority (locks k l)"
  shows "\<exists>k'. acquire_scoped_lock e l k = Inr k' \<and> quiescent k' \<and> locks_ok k'
     \<and> current_thread k' = current_thread k \<and> owner (locks k' l) = Some (PThread (current_thread k))
     \<and> priority (threads k' (current_thread k)) = ceiling_priority (locks k l)
     \<and> interrupt_threshold k' = threshold_of (status_valid (ceiling_priority (locks k l)))"
proof -
  let ?t = "current_thread k"
  let ?k = "with_locks ?t (l # scoped_locks (threads k ?t)) l (Some (PThread ?t)) k"
  note a = acquire_scoped_lock_ok [OF assms] and p = acquired_priority [OF assms(2,6)]
  have "locks_ok ?k" using acquired_locks_ok [OF assms(2,4), of ?t] p(1) by simp
  then have "locks_ok (unlocked ?k)" using locks_ok_cong [of "unlocked ?k" ?k] by simp
  moreover have "owner (locks ?k l) = Some (PThread ?t)" by (simp add: with_locks_def Let_def)
  moreover have "interrupt_threshold (unlocked ?k) = interrupt_threshold ?k" by (simp add: unlocked_def)
  ultimately show ?thesis using a p(3,4) by auto
qed

theorem acquire_correct_witness:
  "\<exists>k'. acquire_scoped_lock (sample_env 0) 1 sample_quiet = Inr k' \<and> locks_ok k'
     \<and> owner (locks k' 1) = Some (PThread 1) \<and> priority (threads k' 1) = Thread 9"
  using acquire_correct [of sample_quiet 1 "sample_env 0", OF sample_quiet_quiescent sample_quiet_locks]
    sample_quiet_lock_facts sample_quiet_facts(2) by auto

lemma acquire_checked:
  assumes "quiescent k" and "checked_acquire (current_thread k) l (k\<lparr>preempt_lock := Some (PThread (current_thread k))\<rparr>) = Inl x"
  shows "acquire_scoped_lock e l k = Inl x"
  using assms quiescentD(4) [OF assms(1)]
  by (simp add: acquire_scoped_lock_def current_execution_context_def acquire_scoped_lock_in_thread_def
      pl_with_def pl_acquire_nesting_lock_def unit_op_def)

lemma acquire_panics:
  assumes "quiescent k" and "owner (locks k l) = Some c" and "c \<noteq> PThread (current_thread k)"
    and "thread_id (threads k (current_thread k)) \<noteq> IDLE_THREAD_ID"
    and "priority (threads k (current_thread k)) \<le> ceiling_priority (locks k l)"
  shows "acquire_scoped_lock e l k = Inl (Panic ''Lock already owned. The scheduler should have prevented this.'')"
proof (rule acquire_checked [OF assms(1)])
  have "state (threads k (current_thread k)) = Running"
    using inv_states(4) [OF quiescentD(1) [OF assms(1)], of "current_thread k"] by (simp add: view_folds)
  then show "checked_acquire (current_thread k) l (k\<lparr>preempt_lock := Some (PThread (current_thread k))\<rparr>) =
      Inl (Panic ''Lock already owned. The scheduler should have prevented this.'')"
    using assms(2-5) by (auto simp: checked_acquire_def thread_acquire_scoped_lock_def atomic_compare_exchange_def)
qed

text \<open>
  Claim C20. What stops a thread from acquiring a lock: being the idle thread, holding it already, a
  priority above the ceiling, and, which the ceilings are meant to exclude, a lock that another
  thread holds.
\<close>

theorem acquire_errors:
  assumes "quiescent k"
  defines "t \<equiv> current_thread k"
  shows "(thread_id (threads k t) = IDLE_THREAD_ID \<longrightarrow>
        acquire_scoped_lock e l k = Inl (Runtime IdleThreadCeilingLock))
   \<and> (thread_id (threads k t) \<noteq> IDLE_THREAD_ID \<longrightarrow>
        (owner (locks k l) = Some (PThread t) \<longrightarrow> acquire_scoped_lock e l k = Inl (Runtime RecursiveLock))
      \<and> (owner (locks k l) \<noteq> Some (PThread t) \<and> priority (threads k t) > ceiling_priority (locks k l) \<longrightarrow>
           acquire_scoped_lock e l k = Inl (Runtime CeilingPriorityViolation))
      \<and> (\<forall>c. owner (locks k l) = Some c \<and> c \<noteq> PThread t \<and> priority (threads k t) \<le> ceiling_priority (locks k l) \<longrightarrow>
           acquire_scoped_lock e l k =
             Inl (Panic ''Lock already owned. The scheduler should have prevented this.'')))"
proof -
  let ?p = "k\<lparr>preempt_lock := Some (PThread t)\<rparr>"
  have st: "state (threads k t) = Running"
    using inv_states(4) [OF quiescentD(1) [OF assms(1)], of t] by (simp add: view_folds t_def)
  note err = acquire_checked [OF assms(1), of l, folded t_def]
  show ?thesis
    using st by (auto intro!: err simp: checked_acquire_def thread_acquire_scoped_lock_def
        atomic_compare_exchange_def)
qed

theorem acquire_errors_witness:
  "acquire_scoped_lock (sample_env 0) 0 sample_quiet =
     Inl (Panic ''Lock already owned. The scheduler should have prevented this.'')"
proof -
  have "owner (locks sample_quiet 0) = Some (PThread 3)" "ceiling_priority (locks sample_quiet 0) = Thread 9"
    by (simp_all add: sample_quiet_def sample_kernel_def ceiling_lock_new_def)
  with acquire_errors [OF sample_quiet_quiescent, of "sample_env 0" 0] sample_quiet_lock_facts sample_quiet_facts(2)
  show ?thesis by (simp add: not_less)
qed

text \<open>
  Claim C19. The owner releases a lock, in whatever order it acquired its locks: the lock is free,
  the thread keeps the others and the priority that the highest of them, its section and its base
  give it, and if a ready thread is now more urgent, it runs: there is no priority inversion.
\<close>

theorem release_correct:
  assumes "quiescent k" and "locks_ok k" and "owner (locks k l) = Some (PThread (current_thread k))"
  defines "t \<equiv> current_thread k"
  shows "\<exists>k'. release_scoped_lock e l k = Inr k' \<and> quiescent k' \<and> locks_ok k' \<and> no_inversion k'
     \<and> owner (locks k' l) = None \<and> scoped_locks (threads k' t) = remove1 l (scoped_locks (threads k t))
     \<and> priority (threads k' t) = max_valid (base_priority (threads k t))
          (status_max (fst (lock_priorities (threads k t))) (held_priority (scoped_locks (threads k' t)) k'))
     \<and> ((\<forall>u \<in> set (ready_queue k). priority (threads k u) \<le> priority (threads k' t)) \<longrightarrow> current_thread k' = t)"
proof -
  let ?k = "with_locks t (remove1 l (scoped_locks (threads k t))) l None k"
  obtain k' where k': "release_scoped_lock e l k = Inr k'" "quiescent k'" "no_inversion k'"
    "reconsidered (now e) ?k k'" using release_scoped_lock_ok [OF assms(1-3), of e] unfolding t_def by blast
  note fr = reconsidered_frame [OF k'(4)]
  have held: "base_priority (threads k' u) = base_priority (threads ?k u)"
    "lock_priorities (threads k' u) = lock_priorities (threads ?k u)"
    "scoped_locks (threads k' u) = scoped_locks (threads ?k u)" for u
    using fun_cong [OF fr(1), of u] by (simp_all add: theld_def)
  have ok: "locks_ok k'"
    using locks_ok_cong [OF fr] released_locks_ok [OF assms(2,3)] by (simp add: t_def)
  have o: "owner (locks k' l) = None" by (simp add: fr(2) with_locks_def Let_def)
  have sl: "scoped_locks (threads k' t) = remove1 l (scoped_locks (threads k t))"
    by (simp add: held with_locks_def Let_def)
  have lp: "fst (lock_priorities (threads k' t)) = fst (lock_priorities (threads k t))"
    "base_priority (threads k' t) = base_priority (threads k t)" by (simp_all add: held with_locks_def Let_def)
  have pr: "priority (threads k' t) = max_valid (base_priority (threads k t))
          (status_max (fst (lock_priorities (threads k t))) (held_priority (scoped_locks (threads k' t)) k'))"
    using locks_okD(3) [OF ok, of t] lp by (simp add: priority_defs)
  have "current_thread k' = t" if le: "\<forall>u \<in> set (ready_queue k). priority (threads k u) \<le> priority (threads k' t)"
  proof -
    have "priority (threads ?k t) = priority (threads k' t)"
      by (simp add: priority_defs held del: with_locks_simps)
    moreover have "u \<in> set (ready_queue k) \<Longrightarrow> priority (threads ?k u) = priority (threads k u)" for u
      using inv_placed [OF quiescentD(1) [OF assms(1)]]
      by (auto simp: with_locks_def Let_def placed_def t_def)
    ultimately have "\<not> (\<exists>u \<in> set (ready_queue ?k). tprio (threads ?k) (current_thread ?k) < tprio (threads ?k) u)"
      using le by (auto simp: tprio_def not_less t_def)
    then have "k' = unlocked ?k" using k'(4) by (simp add: reconsidered_def del: with_locks_simps)
    then show ?thesis by (simp add: t_def)
  qed
  with k' ok o sl pr show ?thesis by blast
qed

theorem release_correct_witness:
  "\<exists>k1 k'. acquire_scoped_lock (sample_env 0) 1 sample_quiet = Inr k1
     \<and> release_scoped_lock (sample_env 0) 1 k1 = Inr k' \<and> owner (locks k' 1) = None \<and> no_inversion k'"
proof -
  have c: "current_thread sample_quiet = 1" by (rule sample_quiet_facts)
  let ?w = "with_locks 1 (1 # scoped_locks (threads sample_quiet 1)) 1 (Some (PThread 1)) sample_quiet"
  have a: "acquire_scoped_lock (sample_env 0) 1 sample_quiet = Inr (unlocked ?w)" "quiescent (unlocked ?w)"
    using acquire_scoped_lock_ok [of sample_quiet 1, OF sample_quiet_quiescent sample_quiet_locks]
      sample_quiet_lock_facts c by simp_all
  have "locks_ok ?w"
    using acquired_locks_ok [OF sample_quiet_locks sample_quiet_lock_facts(2), of 1]
      acquired_priority(1) [OF sample_quiet_locks, of 1 1] sample_quiet_lock_facts(4,5) by simp
  then have ok: "locks_ok (unlocked ?w)" using locks_ok_cong [of "unlocked ?w" ?w] by simp
  have "owner (locks (unlocked ?w) 1) = Some (PThread (current_thread (unlocked ?w)))"
    by (simp add: c) (simp add: with_locks_def Let_def)
  from release_correct [OF a(2) ok this, of "sample_env 0"] a(1) show ?thesis by blast
qed

text \<open>
  \<open>CeilingLockGuard::relock\<close> does not take the lock: the guard it creates is dropped at
  once, so for a thread that is not less urgent than every ready thread the lock is free again when
  it returns.
\<close>

theorem guard_relock_leaves_lock_free:
  assumes "quiescent k" and "locks_ok k"
    and "thread_id (threads k (current_thread k)) \<noteq> IDLE_THREAD_ID"
    and "owner (locks k l) = None" and "lock_list_link (locks k l) = None"
    and "priority (threads k (current_thread k)) \<le> ceiling_priority (locks k l)"
  shows "\<exists>k1. raw_guard_relock e l k = Inr k1 \<and> owner (locks k1 l) = Some (PThread (current_thread k))
     \<and> (\<exists>r. cl_guard_relock e l k = Inr r
          \<and> (case r of Finished _ k' \<Rightarrow> owner (locks k' l) = None | Preempted k' _ \<Rightarrow> owner (locks k' l) = None))"
proof -
  let ?t = "current_thread k"
  let ?w = "with_locks ?t (l # scoped_locks (threads k ?t)) l (Some (PThread ?t)) k"
  note a = acquire_scoped_lock_ok(1) [OF assms, of e] acquire_scoped_lock_ok(2) [OF assms]
  have own: "owner (locks (unlocked ?w) l) = Some (PThread ?t)" by (simp add: with_locks_def Let_def)
  have "locks_ok ?w" using acquired_locks_ok [OF assms(2,4), of ?t] acquired_priority(1) [OF assms(2,6)] by simp
  then have ok: "locks_ok (unlocked ?w)" using locks_ok_cong [of "unlocked ?w" ?w] by simp
  obtain k' where k': "release_scoped_lock e l (unlocked ?w) = Inr k'"
    "reconsidered (now e) (with_locks ?t (remove1 l (scoped_locks (threads (unlocked ?w) ?t))) l None (unlocked ?w)) k'"
    using release_scoped_lock_ok [OF a(2) ok, of l e] own by auto
  have "owner (locks k' l) = None"
    using reconsidered_frame(2) [OF k'(2)] by (simp add: with_locks_def Let_def)
  moreover have "current_interrupt k = None" "current_interrupt (unlocked ?w) = None"
    using quiescentD(4) [OF assms(1)] quiescentD(4) [OF a(2)] by simp_all
  ultimately show ?thesis
    using a(1) own k'(1) by (auto simp: cl_guard_relock_def raw_lock_def raw_guard_unlock_def raw_guard_relock_def
        as_run_def then_run_def)
qed

theorem guard_relock_leaves_lock_free_witness:
  "\<exists>r. cl_guard_relock (sample_env 0) 1 sample_quiet = Inr r
     \<and> (case r of Finished _ k' \<Rightarrow> owner (locks k' 1) = None | Preempted k' _ \<Rightarrow> owner (locks k' 1) = None)"
  using guard_relock_leaves_lock_free [of sample_quiet 1 "sample_env 0", OF sample_quiet_quiescent sample_quiet_locks]
    sample_quiet_lock_facts sample_quiet_facts(2) by auto

text \<open>
  An interrupt handler that acquires a lock it holds is not told so: the owner is never
  recorded, the check for recursion never succeeds, and the second acquisition ends in the panic
  of the list. The first one gives the handler the lock's ceiling as its priority.
\<close>

theorem interrupt_recursion_undetected:
  assumes "current_interrupt k = Some i" and "owner (locks k l) = None" and "lock_list_link (locks k l) = None"
    and "owned_locks (interrupts k i) = []" and "i_lock_priorities (interrupts k i) = (status_valid p, SInvalid)"
    and "i_base_priority (interrupts k i) \<le> p" and "p \<le> ceiling_priority (locks k l)"
  shows "\<exists>k'. acquire_scoped_lock e l k = Inr k' \<and> i_priority (interrupts k' i) = ceiling_priority (locks k l)
     \<and> owner (locks k' l) = None
     \<and> acquire_scoped_lock e l k' = Inl (Panic ''Cannot acquire a node that is already in a list'')"
proof -
  let ?k1 = "upd_interrupt i (\<lambda>x. x\<lparr>owned_locks := [l]\<rparr>)
      (upd_lock l (\<lambda>x. x\<lparr>lock_list_link := Some (PInterrupt i)\<rparr>) k)"
  let ?k = "i_update_owned_lock_priority i ?k1"
  let ?c = "ceiling_priority (locks k l)"
  have np: "\<not> i_priority (interrupts k i) > ?c"
    using assms(5-7) by (simp add: i_priority_def i_lock_priority_def max_def)
  then have "acquire_scoped_lock e l k = Inr ?k"
    using assms by (simp add: acquire_scoped_lock_def current_execution_context_def
        acquire_scoped_lock_in_interrupt_def i_acquire_lock_def c_insert_after_def)
  moreover have "held_priority [l] ?k1 = status_valid ?c"
    by (simp add: held_priority_def upd_interrupt_def upd_lock_def)
  then have k: "interrupts ?k i = (interrupts k i)\<lparr>owned_locks := [l], i_lock_priorities := (status_valid p, status_valid ?c)\<rparr>"
    "locks ?k = (locks k)(l := (locks k l)\<lparr>lock_list_link := Some (PInterrupt i)\<rparr>)" "current_interrupt ?k = Some i"
    using assms(1,5) by (simp_all add: i_update_owned_lock_priority_def Let_def set_ceiling_threshold_of)
      (simp_all add: upd_interrupt_def upd_lock_def)
  then have "i_priority (interrupts ?k i) = ?c"
    using assms(7) order_trans [OF assms(6,7)] by (simp add: i_priority_def i_lock_priority_def max_def)
  ultimately show ?thesis
    using k assms(2) by (simp add: acquire_scoped_lock_def current_execution_context_def
        acquire_scoped_lock_in_interrupt_def i_acquire_lock_def c_insert_after_def)
qed

definition sample_handler :: kernel where
  "sample_handler = sample_kernel\<lparr>interrupts := \<lambda>i. raw_interrupt_new 0 (Interrupt 1),
     locks := \<lambda>l. ceiling_lock_new (Interrupt 2), current_interrupt := Some 7\<rparr>"

theorem interrupt_recursion_undetected_witness:
  "\<exists>k'. acquire_scoped_lock (sample_env 0) 1 sample_handler = Inr k'
     \<and> acquire_scoped_lock (sample_env 0) 1 k' = Inl (Panic ''Cannot acquire a node that is already in a list'')"
proof -
  have "current_interrupt sample_handler = Some 7" "owner (locks sample_handler 1) = None"
    "lock_list_link (locks sample_handler 1) = None" "owned_locks (interrupts sample_handler 7) = []"
    "i_lock_priorities (interrupts sample_handler 7) = (status_valid (Interrupt 1), SInvalid)"
    "i_base_priority (interrupts sample_handler 7) \<le> Interrupt 1" "Interrupt 1 \<le> ceiling_priority (locks sample_handler 1)"
    by (simp_all add: sample_handler_def sample_kernel_def raw_interrupt_new_def ceiling_lock_new_def)
  from interrupt_recursion_undetected [OF this, of "sample_env 0"] show ?thesis by blast
qed

text \<open>
  Claim C21. A section with a ceiling: the body runs at least at the ceiling; when it is over,
  whatever it did in between, the thread has the section priority it had before, so that a ready
  thread that became more urgent runs, and otherwise the section returns the body's result.
\<close>

theorem section_correct:
  assumes "quiescent k" and "f (snd (acquire_nesting_lock c k)) = Inr (Finished r k2)" and "quiescent k2"
    and "current_thread k2 = current_thread k"
  defines "t \<equiv> current_thread k"
  shows "quiescent (snd (acquire_nesting_lock c k))
     \<and> c \<le> priority (threads (snd (acquire_nesting_lock c k)) t)
     \<and> (\<exists>run. cl_with e c f k = Inr run \<and> quiescent (run_state run) \<and> no_inversion (run_state run)
          \<and> lock_priorities (threads (run_state run) t) =
              (fst (lock_priorities (threads k t)), snd (lock_priorities (threads k2 t)))
          \<and> locks (run_state run) = locks k2
          \<and> (current_thread (run_state run) \<noteq> t \<or> finished_with r run))"
proof -
  let ?a = "raise_nesting_lock_priority t c k" and ?s = "fst (lock_priorities (threads k t))"
  have a: "acquire_nesting_lock c k = ?a" "fst ?a = ?s"
    by (simp_all add: acquire_nesting_lock_def thread_context_is_current [OF assms(1)] t_def
        raise_nesting_lock_priority_def Let_def)
  obtain run where run: "release_nesting_lock e ?s k2 = Inr run" "quiescent (run_state run)" "no_inversion (run_state run)"
    "theld (threads (run_state run)) = theld (threads (store_nesting_lock_priority t ?s k2))"
    "locks (run_state run) = locks k2" "current_thread (run_state run) \<noteq> t \<or> finished_with () run"
    using release_nesting_ok [OF assms(3), of e ?s] assms(4) unfolding t_def by auto
  let ?g = "\<lambda>_ k3. Inr (Finished r k3)"
  have lp: "lock_priorities (threads (run_state run) t) = (?s, snd (lock_priorities (threads k2 t)))"
    using fun_cong [OF run(4), of t] by (simp add: theld_def store_nesting_lock_priority_def upd_thread_def Let_def
        set_ceiling_threshold_of)
  obtain run' where run': "bind_run ?g run = Inr run'" "run_state run' = run_state run"
    "finished_with () run \<Longrightarrow> finished_with r run'" by (cases run) auto
  have "cl_with e c f k = Inr run'"
    using assms(2) a run(1) run'(1) by (cases ?a) (simp add: cl_with_def then_run_def)
  moreover have "quiescent (snd ?a)"
    unfolding t_def by (intro reprioritised_quiescent [OF assms(1)] raise_nesting_reprioritised refl)
  ultimately show ?thesis using raise_nesting_priority [of c t k] run run' lp a by auto
qed

theorem section_correct_witness:
  "\<exists>run. cl_with (sample_env 0) (Thread 9) (\<lambda>k. Inr (Finished True k)) sample_quiet = Inr run
     \<and> quiescent (run_state run) \<and> no_inversion (run_state run)"
proof -
  let ?k = sample_quiet
  let ?k2 = "snd (acquire_nesting_lock (Thread 9) ?k)"
  have "acquire_nesting_lock (Thread 9) ?k = raise_nesting_lock_priority 1 (Thread 9) ?k"
    by (simp add: acquire_nesting_lock_def thread_context_is_current [OF sample_quiet_quiescent] sample_quiet_facts)
  then have "reprioritised ?k ?k2" using raise_nesting_reprioritised [of 1 ?k] sample_quiet_facts(2) by simp
  then have "quiescent ?k2" "current_thread ?k2 = current_thread ?k"
    using reprioritised_quiescent [OF sample_quiet_quiescent] by (auto simp: reprioritised_def)
  with section_correct [where f = "\<lambda>k. Inr (Finished True k)", OF sample_quiet_quiescent refl, of "Thread 9" "sample_env 0"]
  show ?thesis by blast
qed

text \<open>
  A thread that blocks while it holds a lock is not protected by the ceiling: with the
  idle thread running, the next timer interrupt hands the processor to a ready thread at or below
  the ceiling, and when that thread asks for the lock, as its priority allows, the kernel panics
  because the lock is taken.
\<close>

theorem blocked_owner_breaks_exclusion:
  assumes "quiescent k" and "current_thread k = idle_thread k" and "u \<in> set (blocked_list k)"
    and "owner (locks k l) = Some (PThread u)" and "sleep_queue k = []" and "t \<in> set (ready_queue k)"
    and "priority (threads k (idle_thread k)) < priority (threads k t)"
    and "\<forall>s \<in> set (ready_queue k). thread_id (threads k s) \<noteq> IDLE_THREAD_ID
           \<and> priority (threads k s) \<le> ceiling_priority (locks k l)"
  shows "\<exists>k'. kernel_wakeup_handler e k = Inr ((), k') \<and> current_thread k' \<in> set (ready_queue k)
     \<and> acquire_scoped_lock e l k' = Inl (Panic ''Lock already owned. The scheduler should have prevented this.'')"
proof -
  note inv = quiescentD(1) [OF assms(1)]
  obtain k' where k': "kernel_wakeup_handler e k = Inr ((), k')" "quiescent k'" "rescheduled (now e) k k'"
    using timer_ok [OF quiescentD(8) [OF assms(1)]] by blast
  let ?c = "current_thread k'"
  have fr: "sched_frame k k'" and le: "\<forall>s \<in> set (ready_queue k'). tprio (threads k') s \<le> tprio (threads k') ?c"
    and sets: "{idle_thread k, ?c} \<union> set (ready_queue k') = {idle_thread k} \<union> set (ready_queue k)"
    using k'(3) assms(2,5) by (simp_all add: rescheduled_def due_threads_def)
  have same: "tprio (threads k') = tprio (threads k)" "tid (threads k') = tid (threads k)" "locks k' = locks k"
    using fr by (simp_all add: sched_frame_def)
  have "t \<noteq> idle_thread k" using inv_idle_unlisted [OF inv] assms(6) by auto
  moreover have "tprio (threads k) t \<le> tprio (threads k) ?c" if "t \<noteq> ?c"
    using le sets same(1) that assms(6) \<open>t \<noteq> idle_thread k\<close> by auto
  ultimately have "?c \<noteq> idle_thread k" using assms(7) by (auto simp: tprio_def)
  then have c: "?c \<in> set (ready_queue k)" using sets by auto
  then have "?c \<noteq> u" using inv_placed [OF inv] assms(3) by (auto simp: placed_def)
  moreover have "thread_id (threads k' ?c) \<noteq> IDLE_THREAD_ID"
    "priority (threads k' ?c) \<le> ceiling_priority (locks k' l)"
    using assms(8) c same(3) fun_cong [OF same(1), of ?c, unfolded tprio_def]
      fun_cong [OF same(2), of ?c, unfolded tid_def] by simp_all
  ultimately show ?thesis
    using k'(1) c acquire_panics [OF k'(2), of l "PThread u" e] assms(4) same(3) by auto
qed

definition sample_waiting :: kernel where
  "sample_waiting = sample_idle\<lparr>current_interrupt := None, alarm := None\<rparr>"

lemma sample_waiting_quiescent: "quiescent sample_waiting"
proof -
  have "stacks_alive sample_waiting"
    by (simp add: stacks_alive_def tstack_def sample_waiting_def sample_idle_def sample_kernel_def sample_thread_def
        raw_thread_new_def is_alive_def CANARY_BYTE_def)
  moreover have "aq_holds (pending_resume sample_waiting) []" "aq_holds (pending_sleep sample_waiting) []"
    "aq_holds (pending_executor_polls sample_waiting) []" "\<not> raw_borrowed sample_waiting"
    "preempt_lock sample_waiting = None" "pending_reschedule_kind sample_waiting = 0" "current_interrupt sample_waiting = None"
    "sleep_queue sample_waiting = []"
    by (simp_all add: sample_waiting_def sample_idle_def sample_kernel_def aq_new_holds)
  moreover have "sched_inv sample_waiting" using sample_idle_inv by (simp add: sample_waiting_def)
  ultimately show ?thesis
    by (simp add: quiescent_def settled_def threads_only_def)
qed

theorem blocked_owner_breaks_exclusion_witness:
  "\<exists>k'. kernel_wakeup_handler (sample_env 0) sample_waiting = Inr ((), k') \<and> current_thread k' \<in> {1, 2}
     \<and> acquire_scoped_lock (sample_env 0) 0 k' =
         Inl (Panic ''Lock already owned. The scheduler should have prevented this.'')"
proof -
  let ?k = sample_waiting
  have q: "current_thread ?k = idle_thread ?k" "3 \<in> set (blocked_list ?k)" "owner (locks ?k 0) = Some (PThread 3)"
    "sleep_queue ?k = []" "1 \<in> set (ready_queue ?k)"
    "priority (threads ?k (idle_thread ?k)) < priority (threads ?k 1)"
    "\<forall>s \<in> set (ready_queue ?k). thread_id (threads ?k s) \<noteq> IDLE_THREAD_ID
           \<and> priority (threads ?k s) \<le> ceiling_priority (locks ?k 0)"
    by (simp_all add: sample_waiting_def sample_idle_def sample_kernel_def sample_thread_def raw_thread_new_def
        priority_defs ceiling_lock_new_def IDLE_THREAD_ID_def)
  have "ready_queue ?k = [1, 2]" by (simp add: sample_waiting_def sample_idle_def)
  with blocked_owner_breaks_exclusion [OF sample_waiting_quiescent q, of "sample_env 0"] show ?thesis by simp
qed

end
