(* ===== verification/Thread_Events.thy ===== *)
theory Thread_Events
  imports Ceiling_Lock
begin

text \<open>
  Sending and waiting for events (\<open>thread/raw_thread.rs\<close>, \<open>event_set.rs\<close>, \<open>events.rs\<close>,
  \<open>thread/reference.rs\<close>): the event sets of the theory \<open>Events\<close>, the system calls and the resuming of
  threads composed.
\<close>

section \<open>Operations\<close>

text \<open>
  A system call with a result. A thread that blocks in it goes on with that result when it runs
  again.
\<close>

definition call_run :: "kernel \<Rightarrow> ('a \<times> kernel) res \<Rightarrow> 'a krun res" where
  "call_run k r =
     bind_res r (\<lambda>(v, k1).
       Inr (if current_interrupt k = None \<and> current_thread k1 \<noteq> current_thread k
            then Preempted k1 (\<lambda>k2. Inr (Finished v k2)) else Finished v k1))"

definition set_events :: "tptr \<Rightarrow> event_set \<Rightarrow> kernel \<Rightarrow> kernel" where
  "set_events t es = upd_thread t (\<lambda>x. x\<lparr>events := es\<rparr>)"

definition raw_thread_resume :: "env \<Rightarrow> tptr \<Rightarrow> kernel \<Rightarrow> kernel res" where
  "raw_thread_resume e t k = resume_thread e (thread_yield e) t k"

definition raw_thread_send_events :: "env \<Rightarrow> tptr \<Rightarrow> u32 \<Rightarrow> kernel \<Rightarrow> kernel res" where
  "raw_thread_send_events e t evs k =
     (let (notify, es) = es_send_events evs (events (threads k t)); k1 = set_events t es k in
      if notify then raw_thread_resume e t k1 else Inr k1)"

definition thread_ref_send_events :: "env \<Rightarrow> tptr \<Rightarrow> u32 \<Rightarrow> kernel \<Rightarrow> kernel res" where
  "thread_ref_send_events e t evs k = raw_thread_send_events e t evs k"

text \<open>The waits. The system call is about the current thread, the event set is that of \<open>t\<close>.\<close>

definition raw_thread_wait_events :: "env \<Rightarrow> tptr \<Rightarrow> u32 \<Rightarrow> kernel \<Rightarrow> u32 krun res" where
  "raw_thread_wait_events e t evs k =
     then_run (call_run k (thread_wait_event e evs k)) (\<lambda>received k1.
       let (r, es) = wait_events_return evs received (events (threads k1 t)) in
       Inr (Finished r (set_events t es k1)))"

definition raw_thread_wait_events_until ::
  "env \<Rightarrow> tptr \<Rightarrow> u32 \<Rightarrow> instant \<Rightarrow> kernel \<Rightarrow> (wait_events_until_error + u32) krun res" where
  "raw_thread_wait_events_until e t evs until k =
     then_run (call_run k (thread_wait_event_until e evs until k)) (\<lambda>received k1.
       let (r, es) = wait_events_until_return evs received (events (threads k1 t)) in
       Inr (Finished r (set_events t es k1)))"

definition raw_thread_try_wait_events :: "env \<Rightarrow> tptr \<Rightarrow> u32 \<Rightarrow> kernel \<Rightarrow> (try_wait_events_error + u32) krun res" where
  "raw_thread_try_wait_events e t evs k =
     (case try_wait_events_mask evs (events (threads k t)) of
        Inl err \<Rightarrow> Inr (Finished (Inl err) k)
      | Inr wanted \<Rightarrow> then_run (raw_thread_wait_events e t wanted k) (\<lambda>r k1. Inr (Finished (Inr r) k1)))"

text \<open>The functions for the current thread.\<close>

definition wait_events :: "env \<Rightarrow> u32 \<Rightarrow> kernel \<Rightarrow> u32 krun res" where
  "wait_events e evs k =
     (case current_execution_context k of
        InInterrupt _ \<Rightarrow> Inl (Panic ''wait_events is not available in interrupt context'')
      | InThread t \<Rightarrow> raw_thread_wait_events e t evs k)"

definition wait_events_until ::
  "env \<Rightarrow> u32 \<Rightarrow> instant option \<Rightarrow> kernel \<Rightarrow> (wait_events_until_error + u32) krun res" where
  "wait_events_until e evs until_opt k =
     (case current_execution_context k of
        InInterrupt _ \<Rightarrow> Inl (Panic ''wait_events is not available in interrupt context'')
      | InThread t \<Rightarrow>
          (case until_opt of
             Some until \<Rightarrow> raw_thread_wait_events_until e t evs until k
           | None \<Rightarrow> then_run (raw_thread_wait_events e t evs k) (\<lambda>r k1. Inr (Finished (Inr r) k1))))"

section \<open>Waiting\<close>

text \<open>A call that blocks the thread, and what follows it.\<close>

lemma call_run_blocks:
  assumes "r = Inr (v, k1)" and "current_interrupt k = None" and "current_thread k1 \<noteq> current_thread k"
  shows "\<exists>rest. then_run (call_run k r) f = Inr (Preempted k1 rest) \<and> (\<forall>k2. rest k2 = f v k2)"
  using assms by (simp add: call_run_def then_run_def)

lemma blocked_not_current:
  assumes "quiescent k" and "t \<in> set (blocked_list k)"
  shows "current_thread k \<noteq> t"
  using inv_placed [OF quiescentD(1) [OF assms(1)]] assms(2) by (auto simp: placed_def)

lemma wait_events_blocks:
  assumes q: "quiescent k" and t: "t = current_thread k" "t \<noteq> idle_thread k"
    and prep: "wait_event_prepare evs (events (threads k t)) = ((received, True), es)"
  shows "\<exists>k1 rest. raw_thread_wait_events e t evs k = Inr (Preempted k1 rest) \<and> quiescent k1
     \<and> blocked_on None k k1 \<and> events (threads k1 t) = es
     \<and> (\<forall>k2. rest k2 = (let (r, es) = wait_events_return evs received (events (threads k2 t)) in
           Inr (Finished r (set_events t es k2))))"
proof -
  from wait_event_syscall_ok [OF q _ _ disjI1 [OF conjI [OF refl refl]], of evs received True es e] t prep
  obtain k1 where k1: "kernel_syscall_handler e (SysWaitEvent evs) k = Inr (received, k1)" "quiescent k1"
    "blocked_on None k k1" "tevents (threads k1) = (tevents (threads k))(t := es)" by auto
  have ni: "\<not> in_interrupt k" using quiescentD(4) [OF q] by (simp add: in_interrupt_def)
  have "t \<in> set (blocked_list k1)" using k1(3) t by (simp add: blocked_on_def)
  then have "current_thread k1 \<noteq> current_thread k" using blocked_not_current [OF k1(2)] t by simp
  from call_run_blocks [OF k1(1) quiescentD(4) [OF q] this] obtain rest where
    "raw_thread_wait_events e t evs k = Inr (Preempted k1 rest)"
    "\<forall>k2. rest k2 = (let (r, es) = wait_events_return evs received (events (threads k2 t)) in
           Inr (Finished r (set_events t es k2)))"
    using ni unfolding raw_thread_wait_events_def thread_wait_event_def by auto
  moreover have "events (threads k1 t) = es" using fun_cong [OF k1(4), of t] by (simp add: tevents_def)
  ultimately show ?thesis using k1 by blast
qed

section \<open>Sending\<close>

lemma set_events_simps [simp]:
  "quiescent (set_events t es k) = quiescent k" "blocked_list (set_events t es k) = blocked_list k"
  "ready_queue (set_events t es k) = ready_queue k" "current_thread (set_events t es k) = current_thread k"
  "idle_thread (set_events t es k) = idle_thread k"
  "events (threads (set_events t es k) u) = (if u = t then es else events (threads k u))"
  "tstate (threads (set_events t es k)) = tstate (threads k)"
proof -
  have "stacks_alive (set_events t es k) = stacks_alive k" "threads_only (set_events t es k) = threads_only k"
    by (simp_all add: set_events_def stacks_alive_def threads_only_def) (simp_all add: upd_thread_def)
  moreover have "sched_inv (set_events t es k) = sched_inv k" by (simp add: set_events_def)
  ultimately show "quiescent (set_events t es k) = quiescent k"
    by (simp add: quiescent_def settled_def) (simp add: set_events_def upd_thread_def)
qed (auto simp: set_events_def upd_thread_def tstate_def)

text \<open>Events that the waiting thread needs make it runnable, and are in its set.\<close>

lemma resume_blocked:
  assumes q: "quiescent k" and b: "t \<in> set (blocked_list k)"
  shows "\<exists>k'. raw_thread_resume e t k = Inr k' \<and> quiescent k' \<and> t \<in> runnable k' \<and> t \<notin> set (blocked_list k')
     \<and> evs_kept (tevents (threads k)) (tevents (threads k'))"
proof -
  obtain k' k1 where k': "raw_thread_resume e t k = Inr k'" "quiescent k'" "resumed t k k1"
    and run: "if resume_preempts t k1 then rescheduled (now e) k1 k'
        else threads k' = threads k1 \<and> ready_queue k' = ready_queue k1 \<and> blocked_list k' = blocked_list k1"
    using thread_resume_ok [OF q, of e t] by (auto simp: raw_thread_resume_def resumed_and_run_def split: if_splits)
  have "tstate (threads k) t = Blocked" using inv_states(2) [OF quiescentD(1) [OF q]] b by simp
  then have r: "t \<in> set (ready_queue k1)" "t \<notin> set (blocked_list k1)"
    "evs_kept (tevents (threads k)) (tevents (threads k1))"
    using k'(3) by (simp_all add: resumed_def)
  have "t \<in> runnable k' \<and> t \<notin> set (blocked_list k') \<and> evs_kept (tevents (threads k1)) (tevents (threads k'))"
  proof (cases "resume_preempts t k1")
    case True
    then have re: "rescheduled (now e) k1 k'" using run by simp
    then have "idle_thread k' = idle_thread k1" by (simp add: rescheduled_def sched_frame_def)
    with re r show ?thesis by (auto simp: rescheduled_def runnable_def)
  qed (use run r in \<open>auto simp: runnable_def\<close>)
  then show ?thesis using k'(1,2) evs_kept_trans [OF r(3)] by blast
qed

lemma send_to_waiter:
  assumes q: "quiescent k" and b: "t \<in> set (blocked_list k)"
    and s: "es_send_events evs (events (threads k t)) = (notify, es)"
  shows "\<exists>k'. raw_thread_send_events e t evs k = Inr k' \<and> quiescent k'
     \<and> (if notify then t \<in> runnable k' \<and> t \<notin> set (blocked_list k') else k' = set_events t es k)
     \<and> (\<forall>n. bit (sent_events_mask es) n \<longrightarrow> bit (sent_events_mask (events (threads k' t))) n)"
proof (cases notify)
  case True
  obtain k' where "raw_thread_resume e t (set_events t es k) = Inr k'" "quiescent k'" "t \<in> runnable k'"
    "t \<notin> set (blocked_list k')" "evs_kept (tevents (threads (set_events t es k))) (tevents (threads k'))"
    using resume_blocked [of "set_events t es k" t e] q b by auto
  then show ?thesis using s True by (auto simp: raw_thread_send_events_def evs_kept_def tevents_def)
qed (use s q in \<open>simp add: raw_thread_send_events_def\<close>)

section \<open>Properties\<close>

text \<open>
  Claim C11. Events are delivered. A thread that waits for any of some events, none of which has been
  sent, blocks. Whatever is sent to it while it is blocked is kept in its set; when one of the
  events it waits for is among what has been sent, it becomes runnable, and otherwise it stays
  blocked. When it runs again, its wait returns the events of its mask that have been sent, and
  takes exactly those out of the set.
\<close>

theorem events_delivered:
  assumes "quiescent k" and "t = current_thread k" and "t \<noteq> idle_thread k"
    and "\<not> all_flag evs" and "sent_events_mask (events (threads k t)) AND evs = 0"
  shows "\<exists>k1 rest. raw_thread_wait_events e t evs k = Inr (Preempted k1 rest) \<and> quiescent k1
     \<and> t \<in> set (blocked_list k1) \<and> events (threads k1 t) = (events (threads k t))\<lparr>waited_events_mask := evs\<rparr>
     \<and> (\<forall>k2 m. quiescent k2 \<longrightarrow> t \<in> set (blocked_list k2) \<longrightarrow> waited_events_mask (events (threads k2 t)) = evs \<longrightarrow>
          (\<exists>k3. raw_thread_send_events e' t m k2 = Inr k3 \<and> quiescent k3
             \<and> (let sent = sent_events_mask (events (threads k2 t)) OR user_bits m in
                (\<forall>n. bit sent n \<longrightarrow> bit (sent_events_mask (events (threads k3 t))) n)
              \<and> (if sent AND evs \<noteq> 0 then t \<in> runnable k3 \<and> t \<notin> set (blocked_list k3)
                 else t \<in> set (blocked_list k3)))))
     \<and> (\<forall>k4. \<exists>k5. rest k4 = Inr (Finished (sent_events_mask (events (threads k4 t)) AND evs) k5)
          \<and> sent_events_mask (events (threads k5 t)) = sent_events_mask (events (threads k4 t)) AND NOT evs
          \<and> waited_events_mask (events (threads k5 t)) = 0)"
proof -
  let ?es = "events (threads k t)"
  have u: "evs AND NOT REQUIRE_ALL_EVENTS = evs" "evs AND REQUIRE_ALL_EVENTS = 0"
    using assms(4) and_or_split [of evs REQUIRE_ALL_EVENTS] by (simp_all add: all_flag_def)
  have c: "REQUIRE_ALL_EVENTS AND evs = 0" using u(2) by (simp add: and.commute)
  have keep: "sent_events_mask ?es AND NOT evs = sent_events_mask ?es"
    using and_or_split [of "sent_events_mask ?es" evs] assms(5) by simp
  have prep: "wait_event_prepare evs ?es = ((0, True), ?es\<lparr>waited_events_mask := evs\<rparr>)"
    using assms(5) keep by (simp add: wait_event_prepare_def Let_def event_ops u wait_event_blocks_def)
  from wait_events_blocks [OF assms(1-3) prep, of e] obtain k1 rest where k1:
    "raw_thread_wait_events e t evs k = Inr (Preempted k1 rest)" "quiescent k1" "blocked_on None k k1"
    "events (threads k1 t) = ?es\<lparr>waited_events_mask := evs\<rparr>"
    "\<And>k2. rest k2 = (let (r, es) = wait_events_return evs 0 (events (threads k2 t)) in Inr (Finished r (set_events t es k2)))"
    by blast
  have "\<exists>k3. raw_thread_send_events e' t m k2 = Inr k3 \<and> quiescent k3
             \<and> (let sent = sent_events_mask (events (threads k2 t)) OR user_bits m in
                (\<forall>n. bit sent n \<longrightarrow> bit (sent_events_mask (events (threads k3 t))) n)
              \<and> (if sent AND evs \<noteq> 0 then t \<in> runnable k3 \<and> t \<notin> set (blocked_list k3)
                 else t \<in> set (blocked_list k3)))"
    if "quiescent k2" "t \<in> set (blocked_list k2)" "waited_events_mask (events (threads k2 t)) = evs" for k2 m
  proof -
    let ?sent = "sent_events_mask (events (threads k2 t)) OR user_bits m"
    have "es_send_events m (events (threads k2 t)) = (?sent AND evs \<noteq> 0, (events (threads k2 t))\<lparr>sent_events_mask := ?sent\<rparr>)"
      using that(3) by (auto simp: es_send_events_def Let_def u c should_notify_def user_bits_def and.commute)
    from send_to_waiter [OF that(1,2) this, of e'] that(2) show ?thesis by (fastforce split: if_splits)
  qed
  moreover have "\<exists>k5. rest k4 = Inr (Finished (sent_events_mask (events (threads k4 t)) AND evs) k5)
          \<and> sent_events_mask (events (threads k5 t)) = sent_events_mask (events (threads k4 t)) AND NOT evs
          \<and> waited_events_mask (events (threads k5 t)) = 0" for k4
    by (simp add: k1(5) wait_events_return_def event_ops)
  moreover have "t \<in> set (blocked_list k1)" using k1(3) assms(2) by (simp add: blocked_on_def)
  ultimately show ?thesis using k1(1,2,4) by (intro exI [of _ k1] exI [of _ rest]) blast
qed

theorem events_delivered_witness:
  "\<exists>k1 rest. raw_thread_wait_events (sample_env 0) 1 3 sample_quiet = Inr (Preempted k1 rest)
     \<and> (\<exists>k3. raw_thread_send_events (sample_env 0) 1 2 k1 = Inr k3 \<and> 1 \<in> runnable k3)"
proof -
  have "\<not> all_flag 3" "sent_events_mask (events (threads sample_quiet 1)) AND 3 = 0"
    by (simp_all add: all_flag_def REQUIRE_ALL_EVENTS_def sample_quiet_def sample_kernel_def sample_thread_def
        raw_thread_new_def event_set_new_def)
  from events_delivered [OF sample_quiet_quiescent _ _ this, of "sample_env 0" "sample_env 0"] sample_quiet_facts(2,3)
  obtain k1 rest where k1: "raw_thread_wait_events (sample_env 0) 1 3 sample_quiet = Inr (Preempted k1 rest)"
    "quiescent k1" "1 \<in> set (blocked_list k1)"
    "events (threads k1 1) = (events (threads sample_quiet 1))\<lparr>waited_events_mask := 3\<rparr>"
    and send: "\<forall>k2 m. quiescent k2 \<longrightarrow> 1 \<in> set (blocked_list k2) \<longrightarrow> waited_events_mask (events (threads k2 1)) = 3 \<longrightarrow>
          (\<exists>k3. raw_thread_send_events (sample_env 0) 1 m k2 = Inr k3 \<and> quiescent k3
             \<and> (let sent = sent_events_mask (events (threads k2 1)) OR user_bits m in
                (\<forall>n. bit sent n \<longrightarrow> bit (sent_events_mask (events (threads k3 1))) n)
              \<and> (if sent AND 3 \<noteq> 0 then 1 \<in> runnable k3 \<and> 1 \<notin> set (blocked_list k3)
                 else 1 \<in> set (blocked_list k3))))" by auto
  have m: "(sent_events_mask (events (threads k1 1)) OR user_bits 2) AND 3 \<noteq> 0"
    unfolding k1(4) by (simp add: user_bits_def REQUIRE_ALL_EVENTS_def sample_quiet_def sample_kernel_def sample_thread_def
        raw_thread_new_def event_set_new_def)
  have "waited_events_mask (events (threads k1 1)) = 3" unfolding k1(4) by simp
  from send [rule_format, OF k1(2,3) this, of 2] m k1(1) show ?thesis by (auto simp: Let_def)
qed

text \<open>
  A wait for all of several events, some of which have been sent, never ends unless those are
  sent a second time: the system call takes the events that are there out of the set before it
  blocks the thread, and the senders look for all of them in the set. However many of the missing
  events are sent, the thread stays blocked.
\<close>

theorem wait_all_misses_events:
  assumes "quiescent k" and "t = current_thread k" and "t \<noteq> idle_thread k" and "all_flag evs"
    and "early = sent_events_mask (events (threads k t)) AND user_bits evs"
    and "early \<noteq> 0" and "early \<noteq> user_bits evs"
  shows "\<exists>k1 rest. raw_thread_wait_events e t evs k = Inr (Preempted k1 rest) \<and> quiescent k1
     \<and> t \<in> set (blocked_list k1) \<and> waited_events_mask (events (threads k1 t)) = evs
     \<and> sent_events_mask (events (threads k1 t)) AND early = 0
     \<and> (\<forall>k2 m. quiescent k2 \<longrightarrow> t \<in> set (blocked_list k2) \<longrightarrow> waited_events_mask (events (threads k2 t)) = evs
          \<longrightarrow> sent_events_mask (events (threads k2 t)) AND early = 0 \<longrightarrow> m AND early = 0 \<longrightarrow>
          (\<exists>k3. raw_thread_send_events e' t m k2 = Inr k3 \<and> quiescent k3 \<and> t \<in> set (blocked_list k3)
             \<and> waited_events_mask (events (threads k3 t)) = evs
             \<and> sent_events_mask (events (threads k3 t)) = sent_events_mask (events (threads k2 t)) OR user_bits m
             \<and> sent_events_mask (events (threads k3 t)) AND early = 0))"
proof -
  let ?es = "events (threads k t)" and ?u = "user_bits evs"
  have sub: "early AND ?u = early" using assms(5) by (simp add: and.assoc)
  have prep: "wait_event_prepare evs ?es =
      ((early, True), \<lparr>waited_events_mask = evs, sent_events_mask = sent_events_mask ?es AND NOT ?u\<rparr>)"
    using assms(4,5,7) sub
    by (simp add: wait_event_prepare_def Let_def event_ops wait_event_blocks_def all_flag_def user_bits_def [symmetric])
  from wait_events_blocks [OF assms(1-3) prep, of e] obtain k1 rest where k1:
    "raw_thread_wait_events e t evs k = Inr (Preempted k1 rest)" "quiescent k1" "blocked_on None k k1"
    "events (threads k1 t) = \<lparr>waited_events_mask = evs, sent_events_mask = sent_events_mask ?es AND NOT ?u\<rparr>"
    by blast
  have gone: "(sent_events_mask ?es AND NOT ?u) AND early = 0"
    unfolding assms(5) by (intro bit_word_eqI) (auto simp: bit_simps)
  have "\<exists>k3. raw_thread_send_events e' t m k2 = Inr k3 \<and> quiescent k3 \<and> t \<in> set (blocked_list k3)
             \<and> waited_events_mask (events (threads k3 t)) = evs
             \<and> sent_events_mask (events (threads k3 t)) = sent_events_mask (events (threads k2 t)) OR user_bits m
             \<and> sent_events_mask (events (threads k3 t)) AND early = 0"
    if h: "quiescent k2" "t \<in> set (blocked_list k2)" "waited_events_mask (events (threads k2 t)) = evs"
      "sent_events_mask (events (threads k2 t)) AND early = 0" "m AND early = 0" for k2 m
  proof -
    let ?sent = "sent_events_mask (events (threads k2 t)) OR user_bits m"
    have none: "?sent AND early = 0"
      using h(4,5) by (auto simp: bit_eq_iff bit_simps user_bits_def)
    have "?u AND ?sent \<noteq> ?u"
    proof
      assume "?u AND ?sent = ?u"
      then have "early = early AND (?u AND ?sent)" using sub by simp
      also have "\<dots> = 0" using none by (auto simp: bit_eq_iff bit_simps)
      finally show False using assms(6) by simp
    qed
    then have "es_send_events m (events (threads k2 t)) = (False, (events (threads k2 t))\<lparr>sent_events_mask := ?sent\<rparr>)"
      using h(3) assms(4) by (simp add: es_send_events_def Let_def should_notify_def user_bits_def all_flag_def)
    then have "raw_thread_send_events e' t m k2 =
        Inr (set_events t ((events (threads k2 t))\<lparr>sent_events_mask := ?sent\<rparr>) k2)"
      by (simp add: raw_thread_send_events_def)
    with h none show ?thesis by simp
  qed
  moreover have "t \<in> set (blocked_list k1)" using k1(3) assms(2) by (simp add: blocked_on_def)
  ultimately show ?thesis using k1(1,2,4) gone by (intro exI [of _ k1] exI [of _ rest]) simp
qed

theorem wait_all_misses_events_witness:
  "\<exists>k1 rest k3. raw_thread_wait_events (sample_env 0) 1 (REQUIRE_ALL_EVENTS OR 3)
        (set_events 1 \<lparr>waited_events_mask = 0, sent_events_mask = 1\<rparr> sample_quiet) = Inr (Preempted k1 rest)
     \<and> raw_thread_send_events (sample_env 0) 1 2 k1 = Inr k3 \<and> 1 \<in> set (blocked_list k3)"
proof -
  let ?k = "set_events 1 \<lparr>waited_events_mask = 0, sent_events_mask = 1\<rparr> sample_quiet" and ?e = "REQUIRE_ALL_EVENTS OR 3"
  have h: "quiescent ?k" "1 = current_thread ?k" "1 \<noteq> idle_thread ?k" "all_flag ?e"
    "1 = sent_events_mask (events (threads ?k 1)) AND user_bits ?e" "(1 :: u32) \<noteq> 0" "(1 :: u32) \<noteq> user_bits ?e"
    using sample_quiet_quiescent sample_quiet_facts(2,3) by (simp_all add: all_flag_def user_bits_def REQUIRE_ALL_EVENTS_def)
  obtain k1 rest where k1: "raw_thread_wait_events (sample_env 0) 1 ?e ?k = Inr (Preempted k1 rest)" "quiescent k1"
    "1 \<in> set (blocked_list k1)" "waited_events_mask (events (threads k1 1)) = ?e"
    "sent_events_mask (events (threads k1 1)) AND 1 = 0"
    and send: "\<forall>k2 m. quiescent k2 \<longrightarrow> 1 \<in> set (blocked_list k2) \<longrightarrow> waited_events_mask (events (threads k2 1)) = ?e
          \<longrightarrow> sent_events_mask (events (threads k2 1)) AND 1 = 0 \<longrightarrow> m AND 1 = 0 \<longrightarrow>
          (\<exists>k3. raw_thread_send_events (sample_env 0) 1 m k2 = Inr k3 \<and> quiescent k3 \<and> 1 \<in> set (blocked_list k3)
             \<and> waited_events_mask (events (threads k3 1)) = ?e
             \<and> sent_events_mask (events (threads k3 1)) = sent_events_mask (events (threads k2 1)) OR user_bits m
             \<and> sent_events_mask (events (threads k3 1)) AND 1 = 0)"
    using wait_all_misses_events [OF h, of "sample_env 0" "sample_env 0"] by blast
  have "(2 :: u32) AND 1 = 0" by simp
  from send [rule_format, OF k1(2-5) this] k1(1) show ?thesis by blast
qed

end
