(* ===== verification/Executor.thy ===== *)
theory Executor
  imports Cells Atomic_Queue Linked_List Priority Time Events
begin

text \<open>
  Asynchronous tasks (\<open>task/task.rs\<close>), the pools they come from (\<open>task/task_pool.rs\<close>) and the
  executors that poll them in a thread or in an interrupt handler (\<open>task/mod.rs\<close>). The state is a
  set of task cells with the executor of one thread and that of one interrupt handler. A future is
  an argument: \<open>poll_future t w\<close> polls the future of task \<open>t\<close>, which may call the operations below
  on the state. What an executor asks of the kernel, to wake its thread or to be polled, is
  recorded in the order it asks.
\<close>

section \<open>Tasks and executors\<close>

definition ASYNC_TASK_STATE_FREE :: u32 where
  "ASYNC_TASK_STATE_FREE = 0"

definition ASYNC_TASK_STATE_UNINIT :: u32 where
  "ASYNC_TASK_STATE_UNINIT = 1"

definition ASYNC_TASK_STATE_RUNNING :: u32 where
  "ASYNC_TASK_STATE_RUNNING = 2"

definition ASYNC_TASK_STATE_FINISHED :: u32 where
  "ASYNC_TASK_STATE_FINISHED = 3"

datatype local_executor = NoExecutor | ThreadExecutor | InterruptExecutor

datatype waker = WakeTask nat | NoopWaker

record raw_task =
  rt_executor :: local_executor
  ready_list_link :: bool
  sleep_list_link :: bool
  wakeup_time :: instant
  rt_priority :: priority
  on_result_waker :: "waker option"

text \<open>A value that is not initialised, or that was moved out, is \<open>None\<close>.\<close>

record ('f, 'o) task =
  task_state :: u32
  control_block :: "raw_task option"
  task_future :: "'f option"
  task_output :: "'o option"

record thread_executor =
  tx_priority :: priority
  tx_ready :: "nat list ref_cell"
  tx_sleep :: "nat list ref_cell"
  tx_pending :: "nat atomic_queue"

record interrupt_executor =
  ix_priority :: priority
  ix_ready :: "nat list ref_cell"
  ix_sleep :: "nat list ref_cell"
  ix_wfi :: "nat list ref_cell"
  ix_pending :: "nat atomic_queue"

datatype notification = SendEvents u32 | SetPollPending | PollNow | ScheduleWakeup u64

record ('f, 'o) world =
  task_cells :: "nat \<Rightarrow> ('f, 'o) task"
  thread_ex :: thread_executor
  interrupt_ex :: interrupt_executor
  in_isr :: bool
  notifications :: "notification list"
  world_clock :: u64

datatype poll_kind = OnAttach | OnInterrupt | OnWakeup | OnResume

definition raw_thread_executor_new :: "priority \<Rightarrow> thread_executor" where
  "raw_thread_executor_new p =
     \<lparr>tx_priority = p, tx_ready = prc_new [], tx_sleep = prc_new [], tx_pending = aq_new\<rparr>"

definition raw_interrupt_executor_new :: "priority \<Rightarrow> interrupt_executor" where
  "raw_interrupt_executor_new p =
     \<lparr>ix_priority = p, ix_ready = prc_new [], ix_sleep = prc_new [], ix_wfi = prc_new [], ix_pending = aq_new\<rparr>"

definition notify :: "notification \<Rightarrow> ('f, 'o) world \<Rightarrow> ('f, 'o) world" where
  "notify n w = w\<lparr>notifications := notifications w @ [n]\<rparr>"

definition cb_of :: "nat \<Rightarrow> ('f, 'o) world \<Rightarrow> raw_task res" where
  "cb_of t w = assume_init (control_block (task_cells w t))"

definition upd_task :: "nat \<Rightarrow> (('f, 'o) task \<Rightarrow> ('f, 'o) task) \<Rightarrow> ('f, 'o) world \<Rightarrow> ('f, 'o) world" where
  "upd_task t f w = w\<lparr>task_cells := (task_cells w)(t := f (task_cells w t))\<rparr>"

definition upd_cb :: "nat \<Rightarrow> (raw_task \<Rightarrow> raw_task) \<Rightarrow> ('f, 'o) world \<Rightarrow> ('f, 'o) world" where
  "upd_cb t f w = upd_task t (\<lambda>x. x\<lparr>control_block := map_option f (control_block x)\<rparr>) w"

text \<open>Adding a task to the contents of a ready list or of a list of waiting tasks.\<close>

definition push_ready :: "nat \<Rightarrow> nat list \<Rightarrow> ('f, 'o) world \<Rightarrow> (nat list \<times> ('f, 'o) world) res" where
  "push_ready t xs w =
     bind_res (cb_of t w) (\<lambda>cb.
     bind_res (c_push_back (ready_list_link cb) t xs) (\<lambda>ys.
       Inr (ys, upd_cb t (\<lambda>b. b\<lparr>ready_list_link := True\<rparr>) w)))"

definition set_tx_ready :: "nat list ref_cell \<Rightarrow> ('f, 'o) world \<Rightarrow> ('f, 'o) world" where
  "set_tx_ready c w = w\<lparr>thread_ex := (thread_ex w)\<lparr>tx_ready := c\<rparr>\<rparr>"

definition set_ix_ready :: "nat list ref_cell \<Rightarrow> ('f, 'o) world \<Rightarrow> ('f, 'o) world" where
  "set_ix_ready c w = w\<lparr>interrupt_ex := (interrupt_ex w)\<lparr>ix_ready := c\<rparr>\<rparr>"

text \<open>One use of a mutable reference: borrow, change the contents, drop.\<close>

definition with_list ::
  "nat list ref_cell \<Rightarrow> (nat list \<Rightarrow> (nat list \<times> 'w) res) \<Rightarrow> (nat list ref_cell \<times> 'w) res" where
  "with_list c f =
     bind_res (prc_borrow_mut c) (\<lambda>c1.
     bind_res (f (cell_value c1)) (\<lambda>(ys, w).
     bind_res (ref_drop (refmut_write ys c1)) (\<lambda>c2. Inr (c2, w))))"

section \<open>Operations both executors have\<close>

text \<open>Moving the tasks of the pending queue to the ready list.\<close>

partial_function (option) drain_pending ::
  "nat atomic_queue \<Rightarrow> nat list \<Rightarrow> ('f, 'o) world \<Rightarrow> (nat atomic_queue \<times> nat list \<times> ('f, 'o) world) res option" where
  [code]: "drain_pending q xs w =
     (case aq_pop_front q of
        Inl e \<Rightarrow> Some (Inl e)
      | Inr (None, q1) \<Rightarrow> Some (Inr (q1, xs, w))
      | Inr (Some t, q1) \<Rightarrow>
          (case push_ready t xs w of Inl e \<Rightarrow> Some (Inl e) | Inr (ys, w1) \<Rightarrow> drain_pending q1 ys w1))"

text \<open>Moving the tasks whose time has come from the front of the sleep queue to the ready list.\<close>

fun wake_due :: "u64 \<Rightarrow> nat list \<Rightarrow> nat list \<Rightarrow> ('f, 'o) world \<Rightarrow> (nat list \<times> nat list \<times> ('f, 'o) world) res" where
  "wake_due now [] ready w = Inr ([], ready, w)"
| "wake_due now (t # ts) ready w =
     bind_res (cb_of t w) (\<lambda>cb.
       if tick (wakeup_time cb) \<le> now then
         bind_res (push_ready t ready (upd_cb t (\<lambda>b. b\<lparr>sleep_list_link := False\<rparr>) w)) (\<lambda>(ready1, w1).
           wake_due now ts ready1 w1)
       else Inr (t # ts, ready, w))"

definition wakeup_of :: "('f, 'o) world \<Rightarrow> nat \<Rightarrow> u64" where
  "wakeup_of w t = (case control_block (task_cells w t) of Some cb \<Rightarrow> tick (wakeup_time cb) | None \<Rightarrow> 0)"

definition sleep_insert :: "nat \<Rightarrow> instant \<Rightarrow> nat list \<Rightarrow> ('f, 'o) world \<Rightarrow> (nat list \<times> ('f, 'o) world) res" where
  "sleep_insert t dl xs w =
     bind_res (cb_of t w) (\<lambda>cb.
     bind_res (c_insert_after (sleep_list_link cb) (\<lambda>q. wakeup_of w q \<le> tick dl) t xs) (\<lambda>ys.
       Inr (ys, upd_cb t (\<lambda>b. b\<lparr>sleep_list_link := True\<rparr>) w)))"

definition set_wakeup_time :: "nat \<Rightarrow> instant \<Rightarrow> ('f, 'o) world \<Rightarrow> ('f, 'o) world" where
  "set_wakeup_time t dl w = upd_cb t (\<lambda>b. b\<lparr>wakeup_time := dl\<rparr>) w"

text \<open>\<open>RawTaskHandle::as_ref\<close>: the control block of a task that has been initialised.\<close>

definition handle_as_ref :: "nat \<Rightarrow> ('f, 'o) world \<Rightarrow> nat res" where
  "handle_as_ref t w =
     (if task_state (task_cells w t) = ASYNC_TASK_STATE_UNINIT
      then Inl (Panic ''assertion failed: task.state.load(Ordering::Relaxed) != ASYNC_TASK_STATE_UNINIT'')
      else Inr t)"

section \<open>The executor of a thread\<close>

definition tx_spawn :: "nat \<Rightarrow> ('f, 'o) world \<Rightarrow> ('f, 'o) world res" where
  "tx_spawn t w =
     bind_res (handle_as_ref t w) (\<lambda>task_to_spawn.
     bind_res (with_list (tx_ready (thread_ex w)) (\<lambda>xs. push_ready task_to_spawn xs w)) (\<lambda>(c, w1).
       Inr (set_tx_ready c w1)))"

definition tx_resume_task :: "nat \<Rightarrow> ('f, 'o) world \<Rightarrow> ('f, 'o) world res" where
  "tx_resume_task t w =
     bind_res (aq_push_back t (tx_pending (thread_ex w))) (\<lambda>q.
       Inr (notify (SendEvents EXECUTOR_WAKEUP_EVENT) (w\<lparr>thread_ex := (thread_ex w)\<lparr>tx_pending := q\<rparr>\<rparr>)))"

definition tx_task_sleep_until :: "nat \<Rightarrow> instant \<Rightarrow> ('f, 'o) world \<Rightarrow> ('f, 'o) world res" where
  "tx_task_sleep_until t dl w =
     (let w1 = set_wakeup_time t dl w in
      bind_res (with_list (tx_sleep (thread_ex w1)) (\<lambda>xs. sleep_insert t dl xs w1)) (\<lambda>(c, w2).
        Inr (w2\<lparr>thread_ex := (thread_ex w2)\<lparr>tx_sleep := c\<rparr>\<rparr>)))"

text \<open>A task has become ready exactly when the ready list has changed.\<close>

definition tx_resume_pending_tasks :: "bool \<Rightarrow> ('f, 'o) world \<Rightarrow> ('f, 'o) world res" where
  "tx_resume_pending_tasks notify_executor w =
     bind_res (prc_borrow_mut (tx_ready (thread_ex w))) (\<lambda>ready_queue.
     bind_res (loop_result (drain_pending (tx_pending (thread_ex w)) (cell_value ready_queue) w)) (\<lambda>(q, ys, w1).
     bind_res (ref_drop (refmut_write ys ready_queue)) (\<lambda>c.
       let w2 = w1\<lparr>thread_ex := (thread_ex w1)\<lparr>tx_ready := c, tx_pending := q\<rparr>\<rparr> in
       Inr (if ys \<noteq> cell_value ready_queue \<and> notify_executor
            then notify (SendEvents EXECUTOR_WAKEUP_EVENT) w2 else w2))))"

definition tx_resume_sleeping_tasks :: "('f, 'o) world \<Rightarrow> ('f, 'o) world res" where
  "tx_resume_sleeping_tasks w =
     bind_res (prc_borrow_mut (tx_ready (thread_ex w))) (\<lambda>ready_queue.
     bind_res (prc_borrow_mut (tx_sleep (thread_ex w))) (\<lambda>sleep_queue.
     bind_res (wake_due (world_clock w) (cell_value sleep_queue) (cell_value ready_queue) w) (\<lambda>(sleeping, ready, w1).
     bind_res (ref_drop (refmut_write sleeping sleep_queue)) (\<lambda>s.
     bind_res (ref_drop (refmut_write ready ready_queue)) (\<lambda>r.
       Inr (w1\<lparr>thread_ex := (thread_ex w1)\<lparr>tx_ready := r, tx_sleep := s\<rparr>\<rparr>))))))"

section \<open>The executor of an interrupt handler\<close>

definition ix_spawn :: "nat \<Rightarrow> ('f, 'o) world \<Rightarrow> ('f, 'o) world res" where
  "ix_spawn t w =
     bind_res (handle_as_ref t w) (\<lambda>task_to_spawn.
     bind_res (with_list (ix_ready (interrupt_ex w)) (\<lambda>xs. push_ready task_to_spawn xs w)) (\<lambda>(c, w1).
       Inr (set_ix_ready c w1)))"

definition ix_resume_task :: "nat \<Rightarrow> ('f, 'o) world \<Rightarrow> ('f, 'o) world res" where
  "ix_resume_task t w =
     bind_res (aq_push_back t (ix_pending (interrupt_ex w))) (\<lambda>q.
     bind_res (cb_of t w) (\<lambda>cb.
       let w1 = w\<lparr>interrupt_ex := (interrupt_ex w)\<lparr>ix_pending := q\<rparr>\<rparr> in
       if rt_executor cb = InterruptExecutor
       then Inr (notify (if in_isr w1 then SetPollPending else PollNow) w1)
       else Inl Unreachable))"

definition ix_task_sleep_until :: "nat \<Rightarrow> instant \<Rightarrow> ('f, 'o) world \<Rightarrow> ('f, 'o) world res" where
  "ix_task_sleep_until t dl w =
     (let w1 = set_wakeup_time t dl w in
      bind_res (with_list (ix_sleep (interrupt_ex w1)) (\<lambda>xs. sleep_insert t dl xs w1)) (\<lambda>(c, w2).
        Inr (w2\<lparr>interrupt_ex := (interrupt_ex w2)\<lparr>ix_sleep := c\<rparr>\<rparr>)))"

text \<open>The queue of tasks that wait for the interrupt uses the same link as the sleep queue.\<close>

definition task_wait_for_interrupt :: "nat \<Rightarrow> ('f, 'o) world \<Rightarrow> ('f, 'o) world res" where
  "task_wait_for_interrupt t w =
     bind_res (cb_of t w) (\<lambda>cb.
     bind_res (with_list (ix_wfi (interrupt_ex w)) (\<lambda>xs.
       bind_res (c_push_back (sleep_list_link cb) t xs) (\<lambda>ys. Inr (ys, ())))) (\<lambda>(c, _).
       Inr (upd_cb t (\<lambda>b. b\<lparr>sleep_list_link := True\<rparr>) (w\<lparr>interrupt_ex := (interrupt_ex w)\<lparr>ix_wfi := c\<rparr>\<rparr>))))"

text \<open>Here the ready queue is borrowed for each push alone.\<close>

definition ix_push :: "nat \<Rightarrow> ('f, 'o) world \<Rightarrow> ('f, 'o) world res" where
  "ix_push t w =
     bind_res (with_list (ix_ready (interrupt_ex w)) (\<lambda>xs. push_ready t xs w)) (\<lambda>(c, w1). Inr (set_ix_ready c w1))"

partial_function (option) ix_drain :: "('f, 'o) world \<Rightarrow> ('f, 'o) world res option" where
  [code]: "ix_drain w =
     (case aq_pop_front (ix_pending (interrupt_ex w)) of
        Inl e \<Rightarrow> Some (Inl e)
      | Inr (x, q) \<Rightarrow>
          (let w1 = w\<lparr>interrupt_ex := (interrupt_ex w)\<lparr>ix_pending := q\<rparr>\<rparr> in
           case x of
             None \<Rightarrow> Some (Inr w1)
           | Some t \<Rightarrow> (case ix_push t w1 of Inl e \<Rightarrow> Some (Inl e) | Inr w2 \<Rightarrow> ix_drain w2)))"

definition ix_resume_pending_tasks :: "('f, 'o) world \<Rightarrow> ('f, 'o) world res" where
  "ix_resume_pending_tasks w = loop_result (ix_drain w)"

fun ix_wake_due :: "u64 \<Rightarrow> nat list \<Rightarrow> ('f, 'o) world \<Rightarrow> (nat list \<times> ('f, 'o) world) res" where
  "ix_wake_due now [] w = Inr ([], w)"
| "ix_wake_due now (t # ts) w =
     bind_res (cb_of t w) (\<lambda>cb.
       if tick (wakeup_time cb) \<le> now then
         bind_res (ix_push t (upd_cb t (\<lambda>b. b\<lparr>sleep_list_link := False\<rparr>) w)) (\<lambda>w1. ix_wake_due now ts w1)
       else Inr (t # ts, w))"

definition ix_resume_sleeping_tasks :: "('f, 'o) world \<Rightarrow> ('f, 'o) world res" where
  "ix_resume_sleeping_tasks w =
     bind_res (prc_borrow_mut (ix_sleep (interrupt_ex w))) (\<lambda>sleep_queue.
     bind_res (ix_wake_due (world_clock w) (cell_value sleep_queue) w) (\<lambda>(sleeping, w1).
     bind_res (ref_drop (refmut_write sleeping sleep_queue)) (\<lambda>s.
       Inr (w1\<lparr>interrupt_ex := (interrupt_ex w1)\<lparr>ix_sleep := s\<rparr>\<rparr>))))"

fun push_all_ready :: "nat list \<Rightarrow> nat list \<Rightarrow> ('f, 'o) world \<Rightarrow> (nat list \<times> ('f, 'o) world) res" where
  "push_all_ready [] ready w = Inr (ready, w)"
| "push_all_ready (t # ts) ready w =
     bind_res (push_ready t ready (upd_cb t (\<lambda>b. b\<lparr>sleep_list_link := False\<rparr>) w)) (\<lambda>(ready1, w1).
       push_all_ready ts ready1 w1)"

definition ix_resume_wfi_tasks :: "('f, 'o) world \<Rightarrow> ('f, 'o) world res" where
  "ix_resume_wfi_tasks w =
     bind_res (prc_borrow_mut (ix_wfi (interrupt_ex w))) (\<lambda>wfi_queue.
     bind_res (prc_borrow_mut (ix_ready (interrupt_ex w))) (\<lambda>ready_queue.
     bind_res (push_all_ready (cell_value wfi_queue) (cell_value ready_queue) w) (\<lambda>(ready, w1).
     bind_res (ref_drop (refmut_write ready ready_queue)) (\<lambda>r.
     bind_res (ref_drop (refmut_write [] wfi_queue)) (\<lambda>f.
       Inr (w1\<lparr>interrupt_ex := (interrupt_ex w1)\<lparr>ix_ready := r, ix_wfi := f\<rparr>\<rparr>))))))"

section \<open>Either executor\<close>

definition le_get :: "('f, 'o) world \<Rightarrow> local_executor" where
  "le_get w = (if in_isr w then InterruptExecutor else ThreadExecutor)"

fun le_task_sleep_until :: "local_executor \<Rightarrow> nat \<Rightarrow> instant \<Rightarrow> ('f, 'o) world \<Rightarrow> ('f, 'o) world res" where
  "le_task_sleep_until NoExecutor t dl w = Inl (Panic ''No executor found'')"
| "le_task_sleep_until ThreadExecutor t dl w = tx_task_sleep_until t dl w"
| "le_task_sleep_until InterruptExecutor t dl w = ix_task_sleep_until t dl w"

fun le_priority :: "local_executor \<Rightarrow> ('f, 'o) world \<Rightarrow> priority res" where
  "le_priority NoExecutor w = Inl (Panic ''No executor found'')"
| "le_priority ThreadExecutor w = Inr (tx_priority (thread_ex w))"
| "le_priority InterruptExecutor w = Inr (ix_priority (interrupt_ex w))"

fun le_resume_task :: "local_executor \<Rightarrow> nat \<Rightarrow> ('f, 'o) world \<Rightarrow> ('f, 'o) world res" where
  "le_resume_task NoExecutor t w = Inl (Panic ''No executor found'')"
| "le_resume_task ThreadExecutor t w = tx_resume_task t w"
| "le_resume_task InterruptExecutor t w = ix_resume_task t w"

fun le_resume_pending_tasks :: "local_executor \<Rightarrow> ('f, 'o) world \<Rightarrow> ('f, 'o) world res" where
  "le_resume_pending_tasks NoExecutor w = Inl (Panic ''No executor found'')"
| "le_resume_pending_tasks ThreadExecutor w = tx_resume_pending_tasks True w"
| "le_resume_pending_tasks InterruptExecutor w = ix_resume_pending_tasks w"

fun wake :: "waker \<Rightarrow> ('f, 'o) world \<Rightarrow> ('f, 'o) world res" where
  "wake NoopWaker w = Inr w"
| "wake (WakeTask t) w = bind_res (cb_of t w) (\<lambda>raw. le_resume_task (rt_executor raw) t w)"

section \<open>The life of a task\<close>

definition task_new :: "('f, 'o) task" where
  "task_new = \<lparr>task_state = ASYNC_TASK_STATE_FREE, control_block = None, task_future = None, task_output = None\<rparr>"

text \<open>The task inherits the priority of its executor, which is asked for it.\<close>

definition task_init :: "nat \<Rightarrow> 'f \<Rightarrow> local_executor \<Rightarrow> ('f, 'o) world \<Rightarrow> ('f, 'o) world res" where
  "task_init t future executor w =
     bind_res (le_priority executor w) (\<lambda>p.
       Inr (upd_task t (\<lambda>x. x\<lparr>control_block := Some \<lparr>rt_executor = executor, ready_list_link = False,
            sleep_list_link = False, wakeup_time = instant_ZERO, rt_priority = p, on_result_waker = None\<rparr>,
          task_future := Some future, task_state := ASYNC_TASK_STATE_RUNNING\<rparr>) w))"

definition task_claim :: "nat \<Rightarrow> ('f, 'o) world \<Rightarrow> bool \<times> ('f, 'o) world" where
  "task_claim t w =
     (case atomic_compare_exchange (task_state (task_cells w t)) ASYNC_TASK_STATE_FREE ASYNC_TASK_STATE_UNINIT of
        (Inr _, st) \<Rightarrow> (True, upd_task t (\<lambda>x. x\<lparr>task_state := st\<rparr>) w)
      | (Inl _, st) \<Rightarrow> (False, w))"

text \<open>Moving the control block out drops it, which moves the pending tasks of its executor.\<close>

definition drop_control_block :: "nat \<Rightarrow> ('f, 'o) world \<Rightarrow> ('f, 'o) world res" where
  "drop_control_block t w =
     bind_res (cb_of t w) (\<lambda>cb.
     bind_res (le_resume_pending_tasks (rt_executor cb) w) (\<lambda>w1.
       Inr (upd_task t (\<lambda>x. x\<lparr>control_block := None\<rparr>) w1)))"

definition drop_future :: "nat \<Rightarrow> ('f, 'o) world \<Rightarrow> ('f, 'o) world res" where
  "drop_future t w =
     bind_res (assume_init (task_future (task_cells w t))) (\<lambda>_. Inr (upd_task t (\<lambda>x. x\<lparr>task_future := None\<rparr>) w))"

definition drop_handle :: "nat \<Rightarrow> ('f, 'o) world \<Rightarrow> ('f, 'o) world res" where
  "drop_handle t w =
     (let (old_state, st) = atomic_swap (task_state (task_cells w t)) ASYNC_TASK_STATE_FREE;
          w1 = upd_task t (\<lambda>x. x\<lparr>task_state := st\<rparr>) w
      in if old_state = ASYNC_TASK_STATE_RUNNING then
           bind_res (drop_control_block t w1) (\<lambda>w2. drop_future t w2)
         else if old_state = ASYNC_TASK_STATE_FINISHED then
           bind_res (drop_control_block t w1) (\<lambda>w2.
           bind_res (drop_future t w2) (\<lambda>w3.
           bind_res (assume_init (task_output (task_cells w3 t))) (\<lambda>_.
             Inr (upd_task t (\<lambda>x. x\<lparr>task_output := None\<rparr>) w3))))
         else Inr w1)"

definition task_poll ::
  "(nat \<Rightarrow> ('f, 'o) world \<Rightarrow> ('o option \<times> ('f, 'o) world) res) \<Rightarrow> nat \<Rightarrow> ('f, 'o) world \<Rightarrow> (bool \<times> ('f, 'o) world) res" where
  "task_poll poll_future t w =
     bind_res (cb_of t w) (\<lambda>_.
     bind_res (assume_init (task_future (task_cells w t))) (\<lambda>_.
     bind_res (poll_future t w) (\<lambda>(r, w1).
       case r of
         None \<Rightarrow> Inr (False, w1)
       | Some result \<Rightarrow>
           let w2 = upd_task t (\<lambda>x. x\<lparr>task_output := Some result, task_state := ASYNC_TASK_STATE_FINISHED\<rparr>) w1 in
           bind_res (cb_of t w2) (\<lambda>cb.
             let w3 = upd_cb t (\<lambda>b. b\<lparr>on_result_waker := None\<rparr>) w2 in
             bind_res (case on_result_waker cb of Some k \<Rightarrow> wake k w3 | None \<Rightarrow> Inr w3) (\<lambda>w4. Inr (True, w4))))))"

definition try_read_output :: "nat \<Rightarrow> waker \<Rightarrow> ('f, 'o) world \<Rightarrow> ('o option \<times> ('f, 'o) world) res" where
  "try_read_output t k w =
     (if task_state (task_cells w t) = ASYNC_TASK_STATE_FINISHED then
        bind_res (assume_init (task_output (task_cells w t))) (\<lambda>out.
        bind_res (drop_control_block t (upd_task t (\<lambda>x. x\<lparr>task_output := None\<rparr>) w)) (\<lambda>w1.
        bind_res (drop_future t w1) (\<lambda>w2.
          Inr (Some out, upd_task t (\<lambda>x. x\<lparr>task_state := ASYNC_TASK_STATE_FREE\<rparr>) w2))))
      else
        bind_res (cb_of t w) (\<lambda>_. Inr (None, upd_cb t (\<lambda>b. b\<lparr>on_result_waker := Some k\<rparr>) w)))"

section \<open>Pools and handles\<close>

fun pool_alloc :: "nat list \<Rightarrow> ('f, 'o) world \<Rightarrow> nat option \<times> ('f, 'o) world" where
  "pool_alloc [] w = (None, w)"
| "pool_alloc (t # ts) w = (let (ok, w1) = task_claim t w in if ok then (Some t, w1) else pool_alloc ts w)"

definition builder_attach :: "nat \<Rightarrow> 'f \<Rightarrow> ('f, 'o) world \<Rightarrow> ('f, 'o) world res" where
  "builder_attach t future w = task_init t future NoExecutor w"

definition with_executor :: "nat \<Rightarrow> local_executor \<Rightarrow> ('f, 'o) world \<Rightarrow> ('f, 'o) world res" where
  "with_executor t executor w =
     bind_res (handle_as_ref t w) (\<lambda>_. Inr (upd_cb t (\<lambda>b. b\<lparr>rt_executor := executor\<rparr>) w))"

fun le_spawn :: "local_executor \<Rightarrow> nat \<Rightarrow> ('f, 'o) world \<Rightarrow> ('f, 'o) world res" where
  "le_spawn NoExecutor t w = Inl (Panic ''No executor found'')"
| "le_spawn ThreadExecutor t w = bind_res (with_executor t ThreadExecutor w) (tx_spawn t)"
| "le_spawn InterruptExecutor t w = bind_res (with_executor t InterruptExecutor w) (ix_spawn t)"

text \<open>The result is the join handle, the task it names, or \<open>None\<close> if the pool is empty.\<close>

definition spawn :: "nat list \<Rightarrow> 'f \<Rightarrow> ('f, 'o) world \<Rightarrow> (nat option \<times> ('f, 'o) world) res" where
  "spawn task_pool future w =
     (case pool_alloc task_pool w of
        (None, w1) \<Rightarrow> Inr (None, w1)
      | (Some t, w1) \<Rightarrow>
          bind_res (builder_attach t future w1) (\<lambda>w2.
          bind_res (le_spawn (le_get w2) t w2) (\<lambda>w3. Inr (Some t, w3))))"

text \<open>A join handle is a task, or \<open>None\<close> once it has returned the output.\<close>

definition join_poll :: "nat option \<Rightarrow> waker \<Rightarrow> ('f, 'o) world \<Rightarrow> ('o option \<times> nat option \<times> ('f, 'o) world) res" where
  "join_poll h cx w =
     (case h of
        None \<Rightarrow> Inl (Panic ''JoinHandle polled after completion'')
      | Some t \<Rightarrow>
          bind_res (try_read_output t cx w) (\<lambda>(ret, w1).
            case ret of
              Some out \<Rightarrow> bind_res (drop_handle t w1) (\<lambda>w2. Inr (Some out, None, w2))
            | None \<Rightarrow> Inr (None, Some t, w1)))"

section \<open>Polling\<close>

text \<open>
  The mutable reference to the ready queue, a temporary of the loop condition, lives until the end
  of the loop body.
\<close>

partial_function (option) ix_poll_ready_tasks ::
  "(nat \<Rightarrow> ('f, 'o) world \<Rightarrow> ('o option \<times> ('f, 'o) world) res) \<Rightarrow> ('f, 'o) world \<Rightarrow> ('f, 'o) world res option" where
  [code]: "ix_poll_ready_tasks poll_future w =
     (case prc_borrow_mut (ix_ready (interrupt_ex w)) of
        Inl e \<Rightarrow> Some (Inl e)
      | Inr c \<Rightarrow>
          (case cell_value c of
             [] \<Rightarrow> Some (bind_res (ref_drop c) (\<lambda>c1. Inr (set_ix_ready c1 w)))
           | t # ts \<Rightarrow>
               (case task_poll poll_future t (upd_cb t (\<lambda>b. b\<lparr>ready_list_link := False\<rparr>)
                   (set_ix_ready (refmut_write ts c) w)) of
                  Inl e \<Rightarrow> Some (Inl e)
                | Inr (_, w1) \<Rightarrow>
                    (case ref_drop (ix_ready (interrupt_ex w1)) of
                       Inl e \<Rightarrow> Some (Inl e)
                     | Inr c1 \<Rightarrow> ix_poll_ready_tasks poll_future (set_ix_ready c1 w1)))))"

definition ix_poll ::
  "(nat \<Rightarrow> ('f, 'o) world \<Rightarrow> ('o option \<times> ('f, 'o) world) res) \<Rightarrow> poll_kind \<Rightarrow> ('f, 'o) world \<Rightarrow> ('f, 'o) world res" where
  "ix_poll poll_future kind w =
     bind_res (case kind of
         OnAttach \<Rightarrow> bind_res (ix_resume_wfi_tasks w) ix_resume_sleeping_tasks
       | OnInterrupt \<Rightarrow> ix_resume_wfi_tasks w
       | OnWakeup \<Rightarrow> ix_resume_sleeping_tasks w
       | OnResume \<Rightarrow> Inr w) (\<lambda>w1.
     bind_res (ix_resume_pending_tasks w1) (\<lambda>w2.
     bind_res (loop_result (ix_poll_ready_tasks poll_future w2)) (\<lambda>w3.
     bind_res (prc_borrow (ix_sleep (interrupt_ex w3))) (\<lambda>sleep.
     bind_res (ref_drop sleep) (\<lambda>_.
       case cell_value sleep of
         [] \<Rightarrow> Inr w3
       | t # _ \<Rightarrow> bind_res (cb_of t w3) (\<lambda>cb. Inr (notify (ScheduleWakeup (tick (wakeup_time cb))) w3)))))))"

text \<open>
  In a thread the ready queue stays borrowed while its tasks are polled. The result says whether
  the task that is waited for is finished.
\<close>

partial_function (option) tx_poll_ready ::
  "(nat \<Rightarrow> ('f, 'o) world \<Rightarrow> ('o option \<times> ('f, 'o) world) res) \<Rightarrow> nat \<Rightarrow> ('f, 'o) world \<Rightarrow> (bool \<times> ('f, 'o) world) res option" where
  [code]: "tx_poll_ready poll_future target w =
     (case cell_value (tx_ready (thread_ex w)) of
        [] \<Rightarrow> Some (Inr (False, w))
      | t # ts \<Rightarrow>
          (case task_poll poll_future t (upd_cb t (\<lambda>b. b\<lparr>ready_list_link := False\<rparr>)
              (set_tx_ready (refmut_write ts (tx_ready (thread_ex w))) w)) of
             Inl e \<Rightarrow> Some (Inl e)
           | Inr (finished, w1) \<Rightarrow>
               if finished \<and> t = target then Some (Inr (True, w1)) else tx_poll_ready poll_future target w1))"

text \<open>
  \<open>wait\<close> is \<open>wait_events_until\<close> for the wakeup event: it returns when the event is sent or the
  deadline has passed, and everything else runs meanwhile.
\<close>

partial_function (option) tx_block_on_loop ::
  "(nat \<Rightarrow> ('f, 'o) world \<Rightarrow> ('o option \<times> ('f, 'o) world) res) \<Rightarrow> (instant option \<Rightarrow> ('f, 'o) world \<Rightarrow> ('f, 'o) world res)
     \<Rightarrow> nat \<Rightarrow> ('f, 'o) world \<Rightarrow> ('f, 'o) world res option" where
  [code]: "tx_block_on_loop poll_future wait target w =
     (case bind_res (tx_resume_sleeping_tasks w) (\<lambda>w1. bind_res (tx_resume_pending_tasks False w1) (\<lambda>w2.
          bind_res (prc_borrow_mut (tx_ready (thread_ex w2))) (\<lambda>c. Inr (set_tx_ready c w2)))) of
        Inl e \<Rightarrow> Some (Inl e)
      | Inr w3 \<Rightarrow>
          (case tx_poll_ready poll_future target w3 of
             None \<Rightarrow> None
           | Some (Inl e) \<Rightarrow> Some (Inl e)
           | Some (Inr (done, w4)) \<Rightarrow>
               if done then Some (bind_res (ref_drop (tx_ready (thread_ex w4))) (\<lambda>c. Inr (set_tx_ready c w4)))
               else
                 (case bind_res (prc_borrow (tx_sleep (thread_ex w4))) (\<lambda>s. wait
                     (case cell_value s of [] \<Rightarrow> None | t # _ \<Rightarrow> Some \<lparr>tick = wakeup_of w4 t\<rparr>) w4) of
                    Inl e \<Rightarrow> Some (Inl e)
                  | Inr w5 \<Rightarrow>
                      (case ref_drop (tx_ready (thread_ex w5)) of
                         Inl e \<Rightarrow> Some (Inl e)
                       | Inr c \<Rightarrow> tx_block_on_loop poll_future wait target (set_tx_ready c w5)))))"

definition tx_block_on ::
  "(nat \<Rightarrow> ('f, 'o) world \<Rightarrow> ('o option \<times> ('f, 'o) world) res) \<Rightarrow> (instant option \<Rightarrow> ('f, 'o) world \<Rightarrow> ('f, 'o) world res)
     \<Rightarrow> nat \<Rightarrow> ('f, 'o) world \<Rightarrow> ('o \<times> ('f, 'o) world) res" where
  "tx_block_on poll_future wait t w =
     bind_res (tx_spawn t w) (\<lambda>w1.
     bind_res (loop_result (tx_block_on_loop poll_future wait t w1)) (\<lambda>w2.
     bind_res (try_read_output t NoopWaker w2) (\<lambda>(out, w3).
       case out of
         Some v \<Rightarrow> bind_res (drop_handle t w3) (\<lambda>w4. Inr (v, w4))
       | None \<Rightarrow> Inl (Panic ''Task was not ready after block_on''))))"

text \<open>Joining from outside the executor, and blocking on a future, which gets a task of its own, \<open>t\<close>.\<close>

definition join ::
  "(nat \<Rightarrow> ('f, 'o) world \<Rightarrow> ('o option \<times> ('f, 'o) world) res) \<Rightarrow> (instant option \<Rightarrow> ('f, 'o) world \<Rightarrow> ('f, 'o) world res)
     \<Rightarrow> nat option \<Rightarrow> ('f, 'o) world \<Rightarrow> ('o \<times> ('f, 'o) world) res" where
  "join poll_future wait h w =
     (case h of
        None \<Rightarrow> Inl (Panic ''JoinHandle polled after completion'')
      | Some t \<Rightarrow> tx_block_on poll_future wait t w)"

definition is_finished :: "nat option \<Rightarrow> bool" where
  "is_finished h \<longleftrightarrow> h = None"

definition block_on ::
  "(nat \<Rightarrow> ('f, 'o) world \<Rightarrow> ('o option \<times> ('f, 'o) world) res) \<Rightarrow> (instant option \<Rightarrow> ('f, 'o) world \<Rightarrow> ('f, 'o) world res)
     \<Rightarrow> nat \<Rightarrow> 'f \<Rightarrow> ('f, 'o) world \<Rightarrow> ('o \<times> ('f, 'o) world) res" where
  "block_on poll_future wait t future w =
     bind_res (task_init t future ThreadExecutor (upd_task t (\<lambda>_. task_new) w)) (\<lambda>w1.
       tx_block_on poll_future wait t w1)"

section \<open>Sleeping\<close>

record sleep = sleep_deadline :: instant

definition sleep_for :: "bool \<Rightarrow> u64 \<Rightarrow> duration \<Rightarrow> sleep res" where
  "sleep_for checks clock duration =
     bind_res (instant_add checks (instant_now clock) duration) (\<lambda>dl. Inr \<lparr>sleep_deadline = dl\<rparr>)"

definition sleep_until :: "instant \<Rightarrow> sleep" where
  "sleep_until dl = \<lparr>sleep_deadline = dl\<rparr>"

definition is_elapsed :: "u64 \<Rightarrow> sleep \<Rightarrow> bool" where
  "is_elapsed clock s \<longleftrightarrow> instant_le (sleep_deadline s) (instant_now clock)"

text \<open>Polled by the task \<open>t\<close>; the result says whether the time has come.\<close>

definition sleep_poll :: "nat \<Rightarrow> sleep \<Rightarrow> ('f, 'o) world \<Rightarrow> (bool \<times> ('f, 'o) world) res" where
  "sleep_poll t s w =
     (if instant_le (sleep_deadline s) (instant_now (world_clock w)) then Inr (True, w)
      else bind_res (le_task_sleep_until (le_get w) t (sleep_deadline s) w) (\<lambda>w1. Inr (False, w1)))"

section \<open>Moving tasks to the ready list\<close>

text \<open>\<open>idle_task w t\<close>: the task is initialised and in no ready list.\<close>

definition idle_task :: "('f, 'o) world \<Rightarrow> nat \<Rightarrow> bool" where
  "idle_task w t \<longleftrightarrow> (\<exists>cb. control_block (task_cells w t) = Some cb \<and> \<not> ready_list_link cb)"

lemma cb_of_Inr [simp]: "control_block (task_cells w t) = Some cb \<Longrightarrow> cb_of t w = Inr cb"
  by (simp add: cb_of_def assume_init_def)

lemma upd_cb_other [simp]: "u \<noteq> t \<Longrightarrow> task_cells (upd_cb t f w) u = task_cells w u"
  by (simp add: upd_cb_def upd_task_def)

lemma upd_cb_same [simp]: "control_block (task_cells (upd_cb t f w) t) = map_option f (control_block (task_cells w t))"
  by (simp add: upd_cb_def upd_task_def)

lemma upd_cb_fields [simp]:
  "thread_ex (upd_cb t f w) = thread_ex w" "interrupt_ex (upd_cb t f w) = interrupt_ex w" "in_isr (upd_cb t f w) = in_isr w"
  "notifications (upd_cb t f w) = notifications w" "world_clock (upd_cb t f w) = world_clock w"
  "task_state (task_cells (upd_cb t f w) u) = task_state (task_cells w u)"
  "task_output (task_cells (upd_cb t f w) u) = task_output (task_cells w u)"
  "task_future (task_cells (upd_cb t f w) u) = task_future (task_cells w u)"
  by (simp_all add: upd_cb_def upd_task_def)

lemma push_ready_idle:
  "idle_task w t \<Longrightarrow> push_ready t xs w = Inr (xs @ [t], upd_cb t (\<lambda>b. b\<lparr>ready_list_link := True\<rparr>) w)"
  by (auto simp: idle_task_def push_ready_def c_push_back_def)

lemma idle_task_other: "idle_task w u \<Longrightarrow> u \<noteq> t \<Longrightarrow> idle_task (upd_cb t f w) u"
  by (simp add: idle_task_def)

text \<open>\<open>linked_ready ts w w'\<close>: the states differ only in the links of the tasks \<open>ts\<close>, which are in the ready list now.\<close>

definition linked_ready :: "nat list \<Rightarrow> ('f, 'o) world \<Rightarrow> ('f, 'o) world \<Rightarrow> bool" where
  "linked_ready ts w w' \<longleftrightarrow>
     thread_ex w' = thread_ex w \<and> interrupt_ex w' = interrupt_ex w \<and> notifications w' = notifications w
   \<and> in_isr w' = in_isr w \<and> world_clock w' = world_clock w
   \<and> (\<forall>t. t \<notin> set ts \<longrightarrow> task_cells w' t = task_cells w t)
   \<and> (\<forall>t. wakeup_of w' t = wakeup_of w t \<and> task_state (task_cells w' t) = task_state (task_cells w t)
        \<and> task_future (task_cells w' t) = task_future (task_cells w t)
        \<and> task_output (task_cells w' t) = task_output (task_cells w t)
        \<and> map_option on_result_waker (control_block (task_cells w' t)) =
            map_option on_result_waker (control_block (task_cells w t)))
   \<and> (\<forall>t \<in> set ts. \<exists>cb. control_block (task_cells w' t) = Some cb \<and> ready_list_link cb)"

lemma linked_ready_Nil: "linked_ready [] w w"
  by (simp add: linked_ready_def)

lemma linked_ready_Cons:
  assumes "linked_ready ts (upd_cb t f w) w'" and "idle_task w t"
    and "\<And>b. wakeup_time (f b) = wakeup_time b" "\<And>b. on_result_waker (f b) = on_result_waker b" "\<And>b. ready_list_link (f b)"
  shows "linked_ready (t # ts) w w'"
proof -
  have w: "wakeup_of (upd_cb t f w) u = wakeup_of w u" for u
    using assms(3) by (cases "u = t") (simp_all add: wakeup_of_def split: option.split)
  have k: "map_option on_result_waker (control_block (task_cells (upd_cb t f w) u)) =
      map_option on_result_waker (control_block (task_cells w u))" for u
    using assms(4) by (cases "u = t") (simp_all add: option.map_comp comp_def)
  have "\<exists>cb. control_block (task_cells w' t) = Some cb \<and> ready_list_link cb"
  proof (cases "t \<in> set ts")
    case False
    then have "task_cells w' t = task_cells (upd_cb t f w) t" using assms(1) by (simp add: linked_ready_def)
    then show ?thesis using assms(2,5) by (auto simp: idle_task_def)
  qed (use assms(1) in \<open>simp add: linked_ready_def\<close>)
  then show ?thesis using assms(1) w k by (auto simp: linked_ready_def)
qed

lemma drain_pending_result:
  assumes "aq_holds q ts" and "distinct ts" and "\<forall>t \<in> set ts. idle_task w t"
  shows "\<exists>q' w'. drain_pending q xs w = Some (Inr (q', xs @ ts, w')) \<and> aq_holds q' [] \<and> linked_ready ts w w'"
  using assms
proof (induction ts arbitrary: q xs w)
  case Nil
  from aq.deq_law [OF Nil(1)] obtain q' where "aq_pop_front q = Inr (None, q')" "aq_holds q' []" by auto
  then show ?case by (subst drain_pending.simps) (simp add: linked_ready_Nil)
next
  case (Cons t ts)
  from aq.deq_law [OF Cons.prems(1)] obtain q' where q': "aq_pop_front q = Inr (Some t, q')" "aq_holds q' ts" by auto
  let ?w = "upd_cb t (\<lambda>b. b\<lparr>ready_list_link := True\<rparr>) w"
  have p: "push_ready t xs w = Inr (xs @ [t], ?w)" using Cons.prems(3) by (simp add: push_ready_idle)
  have "\<forall>u \<in> set ts. idle_task ?w u" using Cons.prems by (auto intro: idle_task_other)
  from Cons.IH [OF q'(2) _ this, of "xs @ [t]"] Cons.prems(2) obtain q'' w'
    where r: "drain_pending q' (xs @ [t]) ?w = Some (Inr (q'', xs @ t # ts, w'))" "aq_holds q'' []" "linked_ready ts ?w w'"
    by auto
  have "linked_ready (t # ts) w w'" by (rule linked_ready_Cons [OF r(3)]) (use Cons.prems(3) in simp_all)
  then show ?case using r p q' by (subst drain_pending.simps) simp
qed

lemma borrow_mut_zero:
  assumes "cell_borrow c = 0"
  shows "prc_borrow_mut c = Inr (c\<lparr>cell_borrow := - 1\<rparr>)"
    and "ref_drop (refmut_write v (c\<lparr>cell_borrow := - 1\<rparr>)) = Inr (c\<lparr>cell_value := v\<rparr>)"
  using assms by (cases c, simp add: prc_borrow_mut_def ref_drop_def refmut_write_def flag_defs)+

lemma resume_pending_result:
  assumes "cell_borrow (tx_ready (thread_ex w)) = 0" and "aq_holds (tx_pending (thread_ex w)) ts" and "distinct ts"
    and "\<forall>t \<in> set ts. idle_task w t"
  shows "\<exists>w1 q. linked_ready ts w w1 \<and> aq_holds q []
     \<and> tx_resume_pending_tasks n w =
         Inr ((if ts \<noteq> [] \<and> n then notify (SendEvents EXECUTOR_WAKEUP_EVENT) else id)
           (w1\<lparr>thread_ex := (thread_ex w)\<lparr>tx_ready := (tx_ready (thread_ex w))
              \<lparr>cell_value := cell_value (tx_ready (thread_ex w)) @ ts\<rparr>, tx_pending := q\<rparr>\<rparr>))"
proof -
  let ?c = "tx_ready (thread_ex w)"
  obtain q w1 where r: "drain_pending (tx_pending (thread_ex w)) (cell_value ?c) w = Some (Inr (q, cell_value ?c @ ts, w1))"
    "aq_holds q []" "linked_ready ts w w1" using drain_pending_result [OF assms(2-4)] by blast
  have "thread_ex w1 = thread_ex w" using r(3) by (simp add: linked_ready_def)
  then show ?thesis
    using r borrow_mut_zero [OF assms(1)]
    by (intro exI [of _ w1] exI [of _ q]) (simp add: tx_resume_pending_tasks_def loop_result_def)
qed

lemma upd_cb_upd_cb: "upd_cb t g (upd_cb t f w) = upd_cb t (\<lambda>b. g (f b)) w"
  by (simp add: upd_cb_def upd_task_def option.map_comp comp_def)

lemma wakeup_of_upd_cb: "(\<And>b. wakeup_time (f b) = wakeup_time b) \<Longrightarrow> wakeup_of (upd_cb t f w) u = wakeup_of w u"
  by (cases "u = t") (simp_all add: wakeup_of_def split: option.split)

lemma wake_due_result:
  assumes "distinct ts" and "\<forall>t \<in> set ts. idle_task w t"
  shows "\<exists>w'. wake_due now ts ready w =
       Inr (dropWhile (\<lambda>t. wakeup_of w t \<le> now) ts, ready @ takeWhile (\<lambda>t. wakeup_of w t \<le> now) ts, w')
     \<and> linked_ready (takeWhile (\<lambda>t. wakeup_of w t \<le> now) ts) w w'"
  using assms
proof (induction ts arbitrary: ready w)
  case Nil
  then show ?case by (simp add: linked_ready_Nil)
next
  case (Cons t ts)
  obtain cb where cb: "control_block (task_cells w t) = Some cb" "\<not> ready_list_link cb"
    using Cons.prems(2) by (auto simp: idle_task_def)
  then have wt: "wakeup_of w t = tick (wakeup_time cb)" by (simp add: wakeup_of_def)
  show ?case
  proof (cases "wakeup_of w t \<le> now")
    case True
    let ?f = "\<lambda>b :: raw_task. b\<lparr>sleep_list_link := False, ready_list_link := True\<rparr>"
    let ?w = "upd_cb t ?f w"
    have "idle_task (upd_cb t (\<lambda>b. b\<lparr>sleep_list_link := False\<rparr>) w) t" using cb by (simp add: idle_task_def)
    then have p: "push_ready t ready (upd_cb t (\<lambda>b. b\<lparr>sleep_list_link := False\<rparr>) w) = Inr (ready @ [t], ?w)"
      by (simp add: push_ready_idle upd_cb_upd_cb)
    have eq: "wakeup_of ?w u = wakeup_of w u" for u by (rule wakeup_of_upd_cb) simp
    have "\<forall>u \<in> set ts. idle_task ?w u" using Cons.prems by (auto intro: idle_task_other)
    from Cons.IH [OF _ this, of "ready @ [t]"] Cons.prems(1) obtain w'
      where w': "wake_due now ts (ready @ [t]) ?w = Inr (dropWhile (\<lambda>t. wakeup_of w t \<le> now) ts,
          ready @ t # takeWhile (\<lambda>t. wakeup_of w t \<le> now) ts, w')"
        "linked_ready (takeWhile (\<lambda>t. wakeup_of w t \<le> now) ts) ?w w'" by (auto simp: eq)
    have "linked_ready (t # takeWhile (\<lambda>t. wakeup_of w t \<le> now) ts) w w'"
      by (rule linked_ready_Cons [OF w'(2)]) (use Cons.prems(2) in simp_all)
    then show ?thesis using True w'(1) cb p wt by simp
  next
    case False
    then show ?thesis using cb wt by (simp add: linked_ready_Nil)
  qed
qed

definition sleepers_sorted :: "('f, 'o) world \<Rightarrow> nat list \<Rightarrow> bool" where
  "sleepers_sorted w xs \<longleftrightarrow> sorted_wrt (\<lambda>a b. wakeup_of w a \<le> wakeup_of w b) xs"

lemma due_filter:
  assumes "sleepers_sorted w xs"
  shows "takeWhile (\<lambda>t. wakeup_of w t \<le> now) xs = filter (\<lambda>t. wakeup_of w t \<le> now) xs"
    and "dropWhile (\<lambda>t. wakeup_of w t \<le> now) xs = filter (\<lambda>t. \<not> wakeup_of w t \<le> now) xs"
  using takeWhile_filter_sorted [OF assms [unfolded sleepers_sorted_def], of "\<lambda>t. wakeup_of w t \<le> now"] order_trans
  by blast+

lemma resume_sleeping_result:
  assumes "cell_borrow (tx_ready (thread_ex w)) = 0" and "cell_borrow (tx_sleep (thread_ex w)) = 0"
    and "distinct (cell_value (tx_sleep (thread_ex w)))" and "\<forall>t \<in> set (cell_value (tx_sleep (thread_ex w))). idle_task w t"
    and "sleepers_sorted w (cell_value (tx_sleep (thread_ex w)))"
  shows "\<exists>w'. tx_resume_sleeping_tasks w = Inr w'
     \<and> tx_ready (thread_ex w') = (tx_ready (thread_ex w))\<lparr>cell_value := cell_value (tx_ready (thread_ex w))
          @ filter (\<lambda>t. wakeup_of w t \<le> world_clock w) (cell_value (tx_sleep (thread_ex w)))\<rparr>
     \<and> tx_sleep (thread_ex w') = (tx_sleep (thread_ex w))\<lparr>cell_value :=
          filter (\<lambda>t. \<not> wakeup_of w t \<le> world_clock w) (cell_value (tx_sleep (thread_ex w)))\<rparr>"
proof -
  let ?r = "tx_ready (thread_ex w)" and ?s = "tx_sleep (thread_ex w)"
  obtain w1 where "wake_due (world_clock w) (cell_value ?s) (cell_value ?r) w =
      Inr (filter (\<lambda>t. \<not> wakeup_of w t \<le> world_clock w) (cell_value ?s),
        cell_value ?r @ filter (\<lambda>t. wakeup_of w t \<le> world_clock w) (cell_value ?s), w1)"
    using wake_due_result [OF assms(3,4)] due_filter [OF assms(5)] by metis
  then show ?thesis using borrow_mut_zero [OF assms(1)] borrow_mut_zero [OF assms(2)]
    by (simp add: tx_resume_sleeping_tasks_def)
qed

lemma sleep_until_result:
  assumes "cell_borrow (tx_sleep (thread_ex w)) = 0" and "sleepers_sorted w (cell_value (tx_sleep (thread_ex w)))"
    and "control_block (task_cells w t) = Some cb" "\<not> sleep_list_link cb" and "t \<notin> set (cell_value (tx_sleep (thread_ex w)))"
  shows "\<exists>w'. tx_task_sleep_until t dl w = Inr w'
     \<and> tx_sleep (thread_ex w') = (tx_sleep (thread_ex w))\<lparr>cell_value :=
          filter (\<lambda>u. wakeup_of w u \<le> tick dl) (cell_value (tx_sleep (thread_ex w))) @ [t]
          @ filter (\<lambda>u. \<not> wakeup_of w u \<le> tick dl) (cell_value (tx_sleep (thread_ex w)))\<rparr>
     \<and> sleepers_sorted w' (cell_value (tx_sleep (thread_ex w'))) \<and> wakeup_of w' t = tick dl"
proof -
  let ?s = "tx_sleep (thread_ex w)" and ?w1 = "set_wakeup_time t dl w"
  let ?w2 = "upd_cb t (\<lambda>b. b\<lparr>wakeup_time := dl, sleep_list_link := True\<rparr>) w"
  let ?xs = "filter (\<lambda>u. wakeup_of w u \<le> tick dl) (cell_value ?s) @ [t] @ filter (\<lambda>u. \<not> wakeup_of w u \<le> tick dl) (cell_value ?s)"
  have eq: "wakeup_of ?w1 u = wakeup_of w u" "wakeup_of ?w2 u = wakeup_of w u" if "u \<noteq> t" for u
    using that by (simp_all add: wakeup_of_def set_wakeup_time_def)
  have t: "wakeup_of ?w2 t = tick dl" using assms(3) by (simp add: wakeup_of_def)
  have "insert_after (\<lambda>u. wakeup_of ?w1 u \<le> tick dl) t (cell_value ?s) = insert_after (\<lambda>u. wakeup_of w u \<le> tick dl) t (cell_value ?s)"
    by (rule insert_after_cong) (metis eq(1) assms(5))
  also have xs: "\<dots> = ?xs" using due_filter [OF assms(2)] by (simp add: insert_after_takeWhile)
  finally have ins: "sleep_insert t dl (cell_value ?s) ?w1 = Inr (?xs, ?w2)"
    using assms(3,4) by (simp add: sleep_insert_def c_insert_after_def set_wakeup_time_def upd_cb_upd_cb)
  have ne: "x \<noteq> t" if "x \<in> set (cell_value ?s)" for x using that assms(5) by auto
  have "sorted_wrt (\<lambda>a b. wakeup_of ?w2 a \<le> wakeup_of ?w2 b) (cell_value ?s)"
    using assms(2) eq(2) ne sorted_wrt_cong_on [of "cell_value ?s" "\<lambda>a b. wakeup_of ?w2 a \<le> wakeup_of ?w2 b"
        "\<lambda>a b. wakeup_of w a \<le> wakeup_of w b"] by (simp add: sleepers_sorted_def)
  then have "sleepers_sorted ?w2 (insert_after (\<lambda>u. wakeup_of w u \<le> tick dl) t (cell_value ?s))"
    unfolding sleepers_sorted_def using t eq(2) ne
    by (intro sorted_insert_after) (auto intro: transpI order_trans)
  then have "sleepers_sorted ?w2 ?xs" unfolding xs .
  then show ?thesis using ins borrow_mut_zero [OF assms(1)] t
    by (simp add: tx_task_sleep_until_def with_list_def set_wakeup_time_def wakeup_of_def sleepers_sorted_def)
qed

section \<open>Allocating and joining\<close>

lemma pool_alloc_find:
  "pool_alloc pool w =
     (case find (\<lambda>t. task_state (task_cells w t) = ASYNC_TASK_STATE_FREE) pool of
        None \<Rightarrow> (None, w)
      | Some t \<Rightarrow> (Some t, upd_task t (\<lambda>x. x\<lparr>task_state := ASYNC_TASK_STATE_UNINIT\<rparr>) w))"
  by (induction pool) (auto simp: task_claim_def atomic_compare_exchange_def)

lemma upd_task_simps [simp]:
  "task_cells (upd_task t f w) u = (if u = t then f (task_cells w t) else task_cells w u)"
  "thread_ex (upd_task t f w) = thread_ex w" "interrupt_ex (upd_task t f w) = interrupt_ex w"
  "notifications (upd_task t f w) = notifications w" "in_isr (upd_task t f w) = in_isr w"
  by (simp_all add: upd_task_def)

lemma notify_simps [simp]:
  "task_cells (notify n w) = task_cells w" "thread_ex (notify n w) = thread_ex w"
  "notifications (notify n w) = notifications w @ [n]"
  by (simp_all add: notify_def)

lemma async_states [simp]:
  "ASYNC_TASK_STATE_RUNNING \<noteq> ASYNC_TASK_STATE_FINISHED" "ASYNC_TASK_STATE_FREE \<noteq> ASYNC_TASK_STATE_FINISHED"
  "ASYNC_TASK_STATE_FREE \<noteq> ASYNC_TASK_STATE_RUNNING" "ASYNC_TASK_STATE_FINISHED \<noteq> ASYNC_TASK_STATE_UNINIT"
  "ASYNC_TASK_STATE_RUNNING \<noteq> ASYNC_TASK_STATE_UNINIT" "ASYNC_TASK_STATE_FREE \<noteq> ASYNC_TASK_STATE_UNINIT"
  by (simp_all add: ASYNC_TASK_STATE_FREE_def ASYNC_TASK_STATE_UNINIT_def ASYNC_TASK_STATE_RUNNING_def
      ASYNC_TASK_STATE_FINISHED_def)

text \<open>A finished task gives its output when the ready queue of its executor is not borrowed.\<close>

lemma join_finished:
  assumes "task_state (task_cells w t) = ASYNC_TASK_STATE_FINISHED" and "task_output (task_cells w t) = Some out"
    and "control_block (task_cells w t) = Some cb" and "rt_executor cb = ThreadExecutor" and "task_future (task_cells w t) = Some f"
    and "cell_borrow (tx_ready (thread_ex w)) = 0" and "aq_holds (tx_pending (thread_ex w)) ts" and "distinct ts"
    and "\<forall>u \<in> set ts. idle_task w u"
  shows "\<exists>w'. join_poll (Some t) k w = Inr (Some out, None, w') \<and> task_state (task_cells w' t) = ASYNC_TASK_STATE_FREE
     \<and> cell_value (tx_ready (thread_ex w')) = cell_value (tx_ready (thread_ex w)) @ ts"
proof -
  let ?w = "upd_task t (\<lambda>x. x\<lparr>task_output := None\<rparr>) w"
  have idle: "\<forall>u \<in> set ts. idle_task ?w u" using assms(9) by (auto simp: idle_task_def)
  have hyp: "cell_borrow (tx_ready (thread_ex ?w)) = 0" "aq_holds (tx_pending (thread_ex ?w)) ts" using assms(6,7) by simp_all
  obtain w1 q where w1: "linked_ready ts ?w w1" "tx_resume_pending_tasks True ?w =
      Inr ((if ts \<noteq> [] \<and> True then notify (SendEvents EXECUTOR_WAKEUP_EVENT) else id)
        (w1\<lparr>thread_ex := (thread_ex ?w)\<lparr>tx_ready := (tx_ready (thread_ex ?w))
           \<lparr>cell_value := cell_value (tx_ready (thread_ex ?w)) @ ts\<rparr>, tx_pending := q\<rparr>\<rparr>))"
    using resume_pending_result [OF hyp assms(8) idle, of True] by blast
  have "task_future (task_cells w1 t) = Some f" using w1(1) assms(5) by (simp add: linked_ready_def)
  then show ?thesis
    using assms(1-4) w1(2) by (simp add: join_poll_def try_read_output_def assume_init_def drop_control_block_def
        drop_future_def drop_handle_def atomic_swap_def Let_def)
qed

section \<open>A sample of tasks\<close>

definition sample_cb :: raw_task where
  "sample_cb = \<lparr>rt_executor = ThreadExecutor, ready_list_link = False, sleep_list_link = False, wakeup_time = instant_ZERO,
     rt_priority = Thread 3, on_result_waker = None\<rparr>"

text \<open>Tasks 0 and 3 are running, task 2 is finished.\<close>

definition sample_tasks :: "(unit, nat) world" where
  "sample_tasks =
     \<lparr>task_cells = (\<lambda>_. task_new)
        (0 := \<lparr>task_state = ASYNC_TASK_STATE_RUNNING, control_block = Some sample_cb, task_future = Some (), task_output = None\<rparr>,
         3 := \<lparr>task_state = ASYNC_TASK_STATE_RUNNING, control_block = Some sample_cb, task_future = Some (), task_output = None\<rparr>,
         2 := \<lparr>task_state = ASYNC_TASK_STATE_FINISHED, control_block = Some sample_cb, task_future = Some (), task_output = Some 42\<rparr>),
      thread_ex = raw_thread_executor_new (Thread 3), interrupt_ex = raw_interrupt_executor_new (Interrupt 1),
      in_isr = False, notifications = [], world_clock = 10\<rparr>"

lemma sample_tasks_facts:
  "task_cells sample_tasks 0 = \<lparr>task_state = ASYNC_TASK_STATE_RUNNING, control_block = Some sample_cb, task_future = Some (), task_output = None\<rparr>"
  "task_cells sample_tasks 3 = \<lparr>task_state = ASYNC_TASK_STATE_RUNNING, control_block = Some sample_cb, task_future = Some (), task_output = None\<rparr>"
  "task_cells sample_tasks 2 = \<lparr>task_state = ASYNC_TASK_STATE_FINISHED, control_block = Some sample_cb, task_future = Some (), task_output = Some 42\<rparr>"
  "tx_pending (thread_ex sample_tasks) = aq_new" "tx_ready (thread_ex sample_tasks) = prc_new []" "tx_sleep (thread_ex sample_tasks) = prc_new []"
  "rt_executor sample_cb = ThreadExecutor" "\<not> ready_list_link sample_cb" "\<not> sleep_list_link sample_cb" "wakeup_time sample_cb = instant_ZERO"
  by (simp_all add: sample_tasks_def sample_cb_def raw_thread_executor_new_def)

lemma aq_new_can_push: "aq_can_push x aq_new"
  by (simp add: aq_can_push_def is_linked_def aq_new_def)

section \<open>Properties\<close>



text \<open>
  Joining a task: the first poll of the join handle finds the task running and leaves a waker; when
  the task finishes, the joining task is woken through its executor; the next poll, made while the
  ready queue is not in use, returns the output, and the task's cell can be claimed again.
\<close>

theorem join_delivers_output:
  assumes "task_state (task_cells w t) = ASYNC_TASK_STATE_RUNNING" and "control_block (task_cells w t) = Some cb"
    and "rt_executor cb = ThreadExecutor" and "task_future (task_cells w t) = Some f" and "idle_task w j" and "t \<noteq> j"
    and "control_block (task_cells w j) = Some cj" and "rt_executor cj = ThreadExecutor"
    and "cell_borrow (tx_ready (thread_ex w)) = 0" and "aq_holds (tx_pending (thread_ex w)) []"
    and "aq_can_push j (tx_pending (thread_ex w))" and "\<forall>w'. poll_future t w' = Inr (Some out, w')"
  shows "\<exists>w1 w2 w3. join_poll (Some t) (WakeTask j) w = Inr (None, Some t, w1)
     \<and> task_poll poll_future t w1 = Inr (True, w2) \<and> aq_holds (tx_pending (thread_ex w2)) [j]
     \<and> notifications w2 = notifications w @ [SendEvents EXECUTOR_WAKEUP_EVENT]
     \<and> join_poll (Some t) k w2 = Inr (Some out, None, w3) \<and> j \<in> set (cell_value (tx_ready (thread_ex w3)))
     \<and> fst (task_claim t w3)"
proof -
  let ?w1 = "upd_cb t (\<lambda>b. b\<lparr>on_result_waker := Some (WakeTask j)\<rparr>) w"
  let ?w2 = "upd_cb t (\<lambda>b. b\<lparr>on_result_waker := None\<rparr>)
      (upd_task t (\<lambda>x. x\<lparr>task_output := Some out, task_state := ASYNC_TASK_STATE_FINISHED\<rparr>) ?w1)"
  obtain q where q: "aq_push_back j (tx_pending (thread_ex w)) = Inr q" "aq_holds q [j]"
    using aq.enq_law [OF assms(10,11)] by auto
  let ?w3 = "notify (SendEvents EXECUTOR_WAKEUP_EVENT) (?w2\<lparr>thread_ex := (thread_ex w)\<lparr>tx_pending := q\<rparr>\<rparr>)"
  have p1: "join_poll (Some t) (WakeTask j) w = Inr (None, Some t, ?w1)"
    using assms(1,2) by (simp add: join_poll_def try_read_output_def)
  have c1: "control_block (task_cells ?w1 t) = Some (cb\<lparr>on_result_waker := Some (WakeTask j)\<rparr>)" using assms(2) by simp
  have "control_block (task_cells ?w2 j) = Some cj" using assms(6,7) by simp
  then have wk: "wake (WakeTask j) ?w2 = Inr ?w3" using assms(8) q(1) by (simp add: tx_resume_task_def)
  have p2: "task_poll poll_future t ?w1 = Inr (True, ?w3)"
    using c1 assms(4,12) wk by (simp add: task_poll_def assume_init_def Let_def del: wake.simps)
  have "idle_task ?w3 j" using assms(5,6) by (simp add: idle_task_def)
  moreover have "control_block (task_cells ?w3 t) = Some (cb\<lparr>on_result_waker := None\<rparr>)" using assms(2) by simp
  ultimately obtain w3 where p3: "join_poll (Some t) k ?w3 = Inr (Some out, None, w3)"
    "task_state (task_cells w3 t) = ASYNC_TASK_STATE_FREE" "cell_value (tx_ready (thread_ex w3)) = cell_value (tx_ready (thread_ex ?w3)) @ [j]"
    using join_finished [of ?w3 t out "cb\<lparr>on_result_waker := None\<rparr>" f "[j]" k] assms(3,4,9) q(2) by auto
  have "fst (task_claim t w3)" using p3(2) by (simp add: task_claim_def atomic_compare_exchange_def)
  then show ?thesis using p1 p2 p3 q(2) by (intro exI [of _ ?w1] exI [of _ ?w3] exI [of _ w3]) simp
qed

theorem join_delivers_output_witness:
  "\<exists>w1 w2 w3. join_poll (Some 0) (WakeTask 3) sample_tasks = Inr (None, Some 0, w1)
     \<and> task_poll (\<lambda>_ w. Inr (Some 5, w)) 0 w1 = Inr (True, w2) \<and> join_poll (Some 0) NoopWaker w2 = Inr (Some 5, None, w3)"
proof -
  let ?w = sample_tasks
  have h: "task_state (task_cells ?w 0) = ASYNC_TASK_STATE_RUNNING" "control_block (task_cells ?w 0) = Some sample_cb"
    "rt_executor sample_cb = ThreadExecutor" "task_future (task_cells ?w 0) = Some ()" "idle_task ?w 3" "(0 :: nat) \<noteq> 3"
    "control_block (task_cells ?w 3) = Some sample_cb" "rt_executor sample_cb = ThreadExecutor"
    "cell_borrow (tx_ready (thread_ex ?w)) = 0" "aq_holds (tx_pending (thread_ex ?w)) []" "aq_can_push 3 (tx_pending (thread_ex ?w))"
    by (simp_all add: sample_tasks_facts idle_task_def prc_new_def aq_new_holds aq_new_can_push)
  from join_delivers_output [OF h, of "\<lambda>_ w. Inr (Some 5, w)" 5 NoopWaker] show ?thesis by blast
qed

text \<open>
  No task can be made from a pool: attaching a future asks for the priority of the executor before
  there is one. Spawning panics whenever the pool has a free cell.
\<close>

theorem spawn_from_pool_panics:
  "builder_attach t future w = Inl (Panic ''No executor found'')
   \<and> spawn pool future w =
       (if \<exists>t \<in> set pool. task_state (task_cells w t) = ASYNC_TASK_STATE_FREE
        then Inl (Panic ''No executor found'') else Inr (None, w))"
proof -
  have "builder_attach u future w1 = Inl (Panic ''No executor found'')" for u w1
    by (simp add: builder_attach_def task_init_def)
  then show ?thesis
    by (auto simp: spawn_def pool_alloc_find find_None_iff find_Some_iff split: option.split)
qed

text \<open>
  A task that is woken again before its executor has taken it off the pending queue ends the
  system with the queue's error.
\<close>

theorem second_wake_fails:
  assumes "control_block (task_cells w t) = Some cb" and "rt_executor cb = ThreadExecutor"
    and "aq_holds (tx_pending (thread_ex w)) ts" and "aq_can_push t (tx_pending (thread_ex w))"
  shows "\<exists>w1. wake (WakeTask t) w = Inr w1 \<and> wake (WakeTask t) w1 = Inl (AtomicQueue ItemAlreadyInQueue)"
proof -
  obtain d where d: "aq_rel (tx_pending (thread_ex w)) d ts" using assms(3) by (auto simp: aq_holds_def)
  obtain q where q: "aq_push_back t (tx_pending (thread_ex w)) = Inr q" "aq_owned q (Item t)"
    using aq_push_back_rel [OF d, of t] aq_can_push_dummy [OF d assms(4)] assms(4) by (auto simp: aq_can_push_def)
  then show ?thesis using assms(1,2) aq_push_back_owned [of t q] by (simp add: tx_resume_task_def is_linked_def)
qed

theorem second_wake_fails_witness:
  "\<exists>w1. wake (WakeTask 0) sample_tasks = Inr w1 \<and> wake (WakeTask 0) w1 = Inl (AtomicQueue ItemAlreadyInQueue)"
  using second_wake_fails [of sample_tasks 0 sample_cb "[]"]
  by (simp add: sample_tasks_facts aq_new_holds aq_new_can_push del: wake.simps)

text \<open>
  A task that awaits a finished task of its own executor panics: the executor has its ready queue
  borrowed while it polls, and taking the output drops the task, which borrows the queue again.
\<close>

theorem join_inside_task_panics:
  assumes "task_state (task_cells w t) = ASYNC_TASK_STATE_FINISHED" and "task_output (task_cells w t) = Some out"
    and "control_block (task_cells w t) = Some cb" and "rt_executor cb = ThreadExecutor"
    and "control_block (task_cells w u) = Some cu" and "task_future (task_cells w u) = Some f" and "u \<noteq> t"
    and "tx_ready (thread_ex w) = prc_new [u]" and "tx_sleep (thread_ex w) = prc_new []" and "aq_holds (tx_pending (thread_ex w)) []"
    and "\<forall>w'. poll_future u w' = bind_res (join_poll (Some t) (WakeTask u) w') (\<lambda>(r, _, w''). Inr (r, w''))"
  shows "tx_block_on_loop poll_future wait u w = Some (Inl (Panic ''already borrowed''))"
proof -
  have b: "cell_borrow (tx_ready (thread_ex w)) = 0" "cell_borrow (tx_sleep (thread_ex w)) = 0"
    "cell_value (tx_ready (thread_ex w)) = [u]" "cell_value (tx_sleep (thread_ex w)) = []"
    using assms(8,9) by (simp_all add: prc_new_def)
  have s: "tx_resume_sleeping_tasks w = Inr w"
    using borrow_mut_zero [OF b(1)] borrow_mut_zero [OF b(2)] b(3,4) by (simp add: tx_resume_sleeping_tasks_def)
  obtain w1 q where r: "linked_ready [] w w1" "tx_resume_pending_tasks False w =
      Inr (w1\<lparr>thread_ex := (thread_ex w)\<lparr>tx_ready := (tx_ready (thread_ex w))\<lparr>cell_value := cell_value (tx_ready (thread_ex w)) @ []\<rparr>, tx_pending := q\<rparr>\<rparr>)"
    using resume_pending_result [OF b(1) assms(10), of False] by auto
  have same: "task_cells w1 = task_cells w" using r(1) by (auto simp: linked_ready_def)
  let ?w2 = "w1\<lparr>thread_ex := (thread_ex w)\<lparr>tx_ready := tx_ready (thread_ex w), tx_pending := q\<rparr>\<rparr>"
  let ?c = "(tx_ready (thread_ex w))\<lparr>cell_borrow := - 1\<rparr>"
  let ?w3 = "upd_cb u (\<lambda>b. b\<lparr>ready_list_link := False\<rparr>) (set_tx_ready (refmut_write [] ?c) (set_tx_ready ?c ?w2))"
  have "prc_borrow_mut (tx_ready (thread_ex ?w3)) = Inl (Panic ''already borrowed'')"
    by (simp add: set_tx_ready_def refmut_write_def prc_borrow_mut_def with_flag_def new_mutable_def)
  then have "join_poll (Some t) (WakeTask u) ?w3 = Inl (Panic ''already borrowed'')"
    using assms(1-4,7) by (simp add: join_poll_def try_read_output_def assume_init_def drop_control_block_def
        tx_resume_pending_tasks_def set_tx_ready_def same)
  then have "task_poll poll_future u ?w3 = Inl (Panic ''already borrowed'')"
    using assms(5,6,11) by (simp add: task_poll_def assume_init_def set_tx_ready_def same)
  then have "tx_poll_ready poll_future u (set_tx_ready ?c ?w2) = Some (Inl (Panic ''already borrowed''))"
    using b(3) by (subst tx_poll_ready.simps) (simp add: set_tx_ready_def)
  then show ?thesis
    using s r(2) borrow_mut_zero(1) [OF b(1)] by (subst tx_block_on_loop.simps) simp
qed

theorem join_inside_task_panics_witness:
  "tx_block_on_loop (\<lambda>u w'. bind_res (join_poll (Some 2) (WakeTask u) w') (\<lambda>(r, _, w''). Inr (r, w''))) (\<lambda>_. Inr) 3
     (sample_tasks\<lparr>thread_ex := (thread_ex sample_tasks)\<lparr>tx_ready := prc_new [3]\<rparr>\<rparr>) = Some (Inl (Panic ''already borrowed''))"
proof (rule join_inside_task_panics [where t = 2 and out = 42 and cb = sample_cb and cu = sample_cb and f = "()"])
qed (simp_all add: sample_tasks_facts aq_new_holds)

text \<open>A task that is ready when it is polled for the first time.\<close>

lemma loop_polls_ready:
  assumes "task_future (task_cells w t) = Some f" and "control_block (task_cells w t) = Some cb"
    and "on_result_waker cb = None"
    and "tx_ready (thread_ex w) = prc_new [t]" and "tx_sleep (thread_ex w) = prc_new []"
    and "aq_holds (tx_pending (thread_ex w)) []" and "\<forall>w'. poll_future t w' = Inr (Some out, w')"
  shows "\<exists>w1. tx_block_on_loop poll_future wait t w = Some (Inr w1)
     \<and> task_cells w1 t = \<lparr>task_state = ASYNC_TASK_STATE_FINISHED,
          control_block = Some (cb\<lparr>ready_list_link := False, on_result_waker := None\<rparr>), task_future = Some f, task_output = Some out\<rparr>
     \<and> tx_ready (thread_ex w1) = prc_new [] \<and> aq_holds (tx_pending (thread_ex w1)) []"
proof -
  have b: "cell_borrow (tx_ready (thread_ex w)) = 0" "cell_borrow (tx_sleep (thread_ex w)) = 0"
    "cell_value (tx_ready (thread_ex w)) = [t]" "cell_value (tx_sleep (thread_ex w)) = []"
    using assms(4,5) by (simp_all add: prc_new_def)
  have s: "tx_resume_sleeping_tasks w = Inr w"
    using borrow_mut_zero [OF b(1)] borrow_mut_zero [OF b(2)] b(3,4) by (simp add: tx_resume_sleeping_tasks_def)
  obtain w1 q where r: "linked_ready [] w w1" "aq_holds q []" "tx_resume_pending_tasks False w =
      Inr (w1\<lparr>thread_ex := (thread_ex w)\<lparr>tx_ready := (tx_ready (thread_ex w))\<lparr>cell_value := cell_value (tx_ready (thread_ex w)) @ []\<rparr>, tx_pending := q\<rparr>\<rparr>)"
    using resume_pending_result [OF b(1) assms(6), of False] by auto
  have same: "task_cells w1 = task_cells w" using r(1) by (auto simp: linked_ready_def)
  let ?w2 = "w1\<lparr>thread_ex := (thread_ex w)\<lparr>tx_ready := tx_ready (thread_ex w), tx_pending := q\<rparr>\<rparr>"
  let ?c = "(tx_ready (thread_ex w))\<lparr>cell_borrow := - 1\<rparr>"
  let ?w3 = "upd_cb t (\<lambda>b. b\<lparr>ready_list_link := False\<rparr>) (set_tx_ready (refmut_write [] ?c) (set_tx_ready ?c ?w2))"
  let ?w4 = "upd_cb t (\<lambda>b. b\<lparr>on_result_waker := None\<rparr>)
      (upd_task t (\<lambda>x. x\<lparr>task_output := Some out, task_state := ASYNC_TASK_STATE_FINISHED\<rparr>) ?w3)"
  have p: "task_poll poll_future t ?w3 = Inr (True, ?w4)"
    using assms(1,2,3,7) by (simp add: task_poll_def assume_init_def set_tx_ready_def same Let_def)
  have "tx_poll_ready poll_future t (set_tx_ready ?c ?w2) = Some (Inr (True, ?w4))"
    using b(3) p by (subst tx_poll_ready.simps) (simp add: set_tx_ready_def)
  moreover have "ref_drop (tx_ready (thread_ex ?w4)) = Inr (prc_new [])"
    using borrow_mut_zero(2) [OF b(1), of "[]"] b by (simp add: set_tx_ready_def prc_new_def)
  ultimately have "tx_block_on_loop poll_future wait t w = Some (Inr (set_tx_ready (prc_new []) ?w4))"
    using s r(3) borrow_mut_zero(1) [OF b(1)] by (subst tx_block_on_loop.simps) simp
  then show ?thesis using r(2) assms(1,2) by (simp add: set_tx_ready_def same)
qed

text \<open>
  \<open>block_on\<close> of a future that is ready returns its output and gives the task's cell back, whatever
  the wait would do.
\<close>

theorem block_on_returns:
  assumes "tx_ready (thread_ex w) = prc_new []" and "tx_sleep (thread_ex w) = prc_new []"
    and "aq_holds (tx_pending (thread_ex w)) []" and "\<forall>w'. poll_future t w' = Inr (Some out, w')"
  shows "\<exists>w'. block_on poll_future wait t future w = Inr (out, w')
     \<and> task_state (task_cells w' t) = ASYNC_TASK_STATE_FREE \<and> cell_value (tx_ready (thread_ex w')) = []"
proof -
  let ?cb = "\<lparr>rt_executor = ThreadExecutor, ready_list_link = False, sleep_list_link = False,
     wakeup_time = instant_ZERO, rt_priority = tx_priority (thread_ex w), on_result_waker = None\<rparr>"
  let ?w1 = "upd_task t (\<lambda>_. \<lparr>task_state = ASYNC_TASK_STATE_RUNNING, control_block = Some ?cb,
      task_future = Some future, task_output = None\<rparr>) w"
  let ?w2 = "set_tx_ready (prc_new [t]) (upd_cb t (\<lambda>b. b\<lparr>ready_list_link := True\<rparr>) ?w1)"
  have z: "cell_borrow (tx_ready (thread_ex w)) = 0" "cell_value (tx_ready (thread_ex w)) = []"
    "(tx_ready (thread_ex w))\<lparr>cell_value := [t]\<rparr> = prc_new [t]" using assms(1) by (simp_all add: prc_new_def)
  have i: "task_init t future ThreadExecutor (upd_task t (\<lambda>_. task_new) w) = Inr ?w1"
    by (simp add: task_init_def task_new_def) (simp add: upd_task_def)
  have sp: "tx_spawn t ?w1 = Inr ?w2"
    using borrow_mut_zero [OF z(1)] z(2,3)
    by (simp add: tx_spawn_def with_list_def push_ready_def cb_of_def assume_init_def handle_as_ref_def c_push_back_def
        ASYNC_TASK_STATE_RUNNING_def ASYNC_TASK_STATE_UNINIT_def)
  obtain w3 where w3: "tx_block_on_loop poll_future wait t ?w2 = Some (Inr w3)"
    "task_cells w3 t = \<lparr>task_state = ASYNC_TASK_STATE_FINISHED,
          control_block = Some (?cb\<lparr>ready_list_link := False, on_result_waker := None\<rparr>), task_future = Some future, task_output = Some out\<rparr>"
    "tx_ready (thread_ex w3) = prc_new []" "aq_holds (tx_pending (thread_ex w3)) []"
    using loop_polls_ready [of ?w2 t future "?cb\<lparr>ready_list_link := True\<rparr>" poll_future out wait] assms
    by (auto simp: set_tx_ready_def)
  obtain w4 where "join_poll (Some t) NoopWaker w3 = Inr (Some out, None, w4)"
    "task_state (task_cells w4 t) = ASYNC_TASK_STATE_FREE" "cell_value (tx_ready (thread_ex w4)) = []"
    using join_finished [of w3 t out _ future "[]" NoopWaker] w3 by (auto simp: prc_new_def)
  moreover from this(1) have "bind_res (try_read_output t NoopWaker w3) (\<lambda>(o', w4). case o' of
      Some v \<Rightarrow> bind_res (drop_handle t w4) (\<lambda>w5. Inr (v, w5))
    | None \<Rightarrow> Inl (Panic ''Task was not ready after block_on'')) = Inr (out, w4)"
    by (auto simp: join_poll_def bind_res_eq_Inr split: option.splits)
  ultimately show ?thesis using i sp w3(1) by (simp add: block_on_def tx_block_on_def loop_result_def)
qed

text \<open>
  A join handle whose task is still in the ready queue of the executor cannot be joined: \<open>block_on\<close>
  puts the task into the queue a second time, which panics.
\<close>

theorem join_of_queued_task_panics:
  assumes "tx_spawn t w = Inr w1"
  shows "join poll_future wait (Some t) w1 = Inl (Panic ''Cannot acquire a node that is already in a list'')"
proof -
  have st: "handle_as_ref t w = Inr t" using assms by (auto simp: tx_spawn_def handle_as_ref_def split: if_splits)
  from assms obtain c1 cb ys c2 where s: "prc_borrow_mut (tx_ready (thread_ex w)) = Inr c1"
    "control_block (task_cells w t) = Some cb" "c_push_back (ready_list_link cb) t (cell_value c1) = Inr ys"
    "ref_drop (refmut_write ys c1) = Inr c2"
    "w1 = set_tx_ready c2 (upd_cb t (\<lambda>b. b\<lparr>ready_list_link := True\<rparr>) w)"
    by (auto simp: tx_spawn_def with_list_def push_ready_def cb_of_def assume_init_def st bind_res_eq_Inr split: option.splits)
  have z: "cell_borrow (tx_ready (thread_ex w)) = 0"
    using s(1) by (auto simp: prc_borrow_mut_def with_flag_def new_mutable_def split: if_splits)
  then have c2: "cell_borrow c2 = 0" using s(1,4) borrow_mut_zero(1) [OF z] borrow_mut_zero(2) [OF z, of ys] by auto
  have "tx_spawn t w1 = Inl (Panic ''Cannot acquire a node that is already in a list'')"
    using st s(2,5) borrow_mut_zero(1) [OF c2]
    by (auto simp: tx_spawn_def with_list_def push_ready_def cb_of_def assume_init_def handle_as_ref_def c_push_back_def
        set_tx_ready_def split: if_splits)
  then show ?thesis by (simp add: join_def tx_block_on_def)
qed

theorem join_of_queued_task_panics_witness:
  "\<exists>w1. tx_spawn 3 sample_tasks = Inr w1
     \<and> join (\<lambda>_ w. Inr (None, w)) (\<lambda>_. Inr) (Some 3) w1 = Inl (Panic ''Cannot acquire a node that is already in a list'')"
proof -
  have "\<exists>w1. tx_spawn 3 sample_tasks = Inr w1"
    using borrow_mut_zero(1) [of "prc_new ([] :: nat list)"] borrow_mut_zero(2) [of "prc_new []" "[3 :: nat]"]
    by (simp add: tx_spawn_def handle_as_ref_def sample_tasks_facts with_list_def push_ready_def cb_of_def assume_init_def
        c_push_back_def ASYNC_TASK_STATE_RUNNING_def ASYNC_TASK_STATE_UNINIT_def prc_new_def)
  then show ?thesis using join_of_queued_task_panics [of 3 sample_tasks] by blast
qed

theorem block_on_returns_witness:
  "\<exists>w'. block_on (\<lambda>_ w. Inr (Some 7, w)) (\<lambda>_. Inr) 9 () sample_tasks = Inr (7, w')"
  using block_on_returns [of sample_tasks "\<lambda>_ w. Inr (Some 7, w)" 9 7 "\<lambda>_. Inr" "()"]
  by (auto simp: sample_tasks_facts aq_new_holds)

end
