(* ===== verification/Wait_Queue.thy ===== *)
theory Wait_Queue
  imports Ceiling_Lock Cells
begin

text \<open>
  Wait queues (\<open>kernel/waiter.rs\<close>), the mutex (\<open>sync/mutex.rs\<close>) and condition variables
  (\<open>sync/condvar.rs\<close>). The state is the kernel together with the borrow flags of the cells that
  hold the wait queues and the data that a mutex protects. Code that gives up the processor in
  the middle is a \<open>run\<close>: what it does afterwards is a function of the state in which its thread
  goes on.
\<close>

section \<open>Operations\<close>

subsection \<open>Code over the kernel and the shared data\<close>

record 't sync =
  kern :: kernel
  queue_borrow :: "wptr \<Rightarrow> borrow_flag"
  guarded :: 't

primrec lift_run :: "'a krun \<Rightarrow> 't sync \<Rightarrow> ('t sync, 'a) run" where
  "lift_run (Finished a k) s = Finished a (s\<lparr>kern := k\<rparr>)"
| "lift_run (Preempted k c) s =
     Preempted (s\<lparr>kern := k\<rparr>) (\<lambda>s1. map_sum id (\<lambda>r. r s1) ((map_sum id lift_run \<circ> c) (kern s1)))"

definition on_kernel :: "(kernel \<Rightarrow> 'a krun res) \<Rightarrow> 't sync \<Rightarrow> ('t sync, 'a) run res" where
  "on_kernel f s = bind_res (f (kern s)) (\<lambda>r. Inr (lift_run r s))"

text \<open>A kernel operation of the running thread, which may lose the processor in it.\<close>

definition kernel_call :: "(kernel \<Rightarrow> kernel res) \<Rightarrow> 't sync \<Rightarrow> ('t sync, unit) run res" where
  "kernel_call f = on_kernel (\<lambda>k. as_run k (f k))"

text \<open>\<open>CeilingLock::with\<close> around code over this state.\<close>

definition section_with ::
  "env \<Rightarrow> priority \<Rightarrow> ('t sync \<Rightarrow> ('t sync, 'a) run res) \<Rightarrow> 't sync \<Rightarrow> ('t sync, 'a) run res" where
  "section_with e CEILING f s =
     (let (restore, k1) = acquire_nesting_lock CEILING (kern s) in
      then_run (f (s\<lparr>kern := k1\<rparr>)) (\<lambda>result s2.
      then_run (on_kernel (release_nesting_lock e restore) s2) (\<lambda>_ s3. Inr (Finished result s3))))"

subsection \<open>Suspendables\<close>

definition suspendable_notify :: "env \<Rightarrow> sptr \<Rightarrow> kernel \<Rightarrow> unit krun res" where
  "suspendable_notify e x k =
     (case kind (suspendables k x) of
        KNone \<Rightarrow> Inr (Finished () k)
      | KThread t \<Rightarrow> as_run k (resume_thread e (thread_yield e) t k)
      | KInterrupt _ \<Rightarrow> Inr (Finished () k)
      | KAsync _ waker \<Rightarrow> bind_res (wake_by_ref e waker k) (\<lambda>k1. Inr (Finished () k1)))"

subsection \<open>Wait queues\<close>

definition wait_pop_front :: "wptr \<Rightarrow> kernel \<Rightarrow> sptr option \<times> kernel" where
  "wait_pop_front w k =
     (case wait_queues k w of
        [] \<Rightarrow> (None, k)
      | x # rest \<Rightarrow>
          (Some x, upd_suspendable x (\<lambda>s. s\<lparr>wait_link := None\<rparr>)
             (k\<lparr>wait_queues := (wait_queues k)(w := rest)\<rparr>)))"

definition wait_push_back :: "wptr \<Rightarrow> sptr \<Rightarrow> kernel \<Rightarrow> kernel res" where
  "wait_push_back w x k =
     (if wait_link (suspendables k x) \<noteq> None
      then Inl (Panic ''Cannot acquire a node that is already in a list'')
      else Inr (upd_suspendable x (\<lambda>s. s\<lparr>wait_link := Some w\<rparr>)
             (k\<lparr>wait_queues := (wait_queues k)(w := wait_queues k w @ [x])\<rparr>)))"

definition borrow_queue :: "wptr \<Rightarrow> 't sync \<Rightarrow> 't sync res" where
  "borrow_queue w s =
     bind_res (new_mutable (queue_borrow s w)) (\<lambda>b. Inr (s\<lparr>queue_borrow := (queue_borrow s)(w := b)\<rparr>))"

definition return_queue :: "wptr \<Rightarrow> 't sync \<Rightarrow> 't sync res" where
  "return_queue w s =
     bind_res (borrow_ref_drop (queue_borrow s w)) (\<lambda>b. Inr (s\<lparr>queue_borrow := (queue_borrow s)(w := b)\<rparr>))"

definition with_queue ::
  "wptr \<Rightarrow> ('t sync \<Rightarrow> ('t sync, 'a) run res) \<Rightarrow> 't sync \<Rightarrow> ('t sync, 'a) run res" where
  "with_queue w f s =
     bind_res (borrow_queue w s) (\<lambda>s1.
     then_run (f s1) (\<lambda>a s2. bind_res (return_queue w s2) (\<lambda>s3. Inr (Finished a s3))))"

definition wq_wait :: "env \<Rightarrow> priority \<Rightarrow> wptr \<Rightarrow> 't sync \<Rightarrow> ('t sync, unit) run res" where
  "wq_wait e CEILING w = kernel_call (thread_wait e w (into_any CEILING))"

definition notify_front :: "env \<Rightarrow> wptr \<Rightarrow> 't sync \<Rightarrow> ('t sync, bool) run res" where
  "notify_front e w s =
     (case wait_pop_front w (kern s) of
        (None, k) \<Rightarrow> Inr (Finished False (s\<lparr>kern := k\<rparr>))
      | (Some waiter, k) \<Rightarrow>
          then_run (on_kernel (suspendable_notify e waiter) (s\<lparr>kern := k\<rparr>)) (\<lambda>_ s1. Inr (Finished True s1)))"

definition notify_one :: "env \<Rightarrow> priority \<Rightarrow> wptr \<Rightarrow> 't sync \<Rightarrow> ('t sync, unit) run res" where
  "notify_one e CEILING w =
     section_with e CEILING (with_queue w (\<lambda>s. then_run (notify_front e w s) (\<lambda>_ s1. Inr (Finished () s1))))"

text \<open>
  The loop ends when the queue is empty; while it runs, other threads may enter the queue only if
  it is preempted. \<open>n\<close> bounds the number of rounds.
\<close>

primrec notify_loop :: "nat \<Rightarrow> env \<Rightarrow> wptr \<Rightarrow> 't sync \<Rightarrow> ('t sync, unit) run res" where
  "notify_loop 0 e w s = Inl Diverges"
| "notify_loop (Suc n) e w s =
     then_run (notify_front e w s) (\<lambda>more s1. if more then notify_loop n e w s1 else Inr (Finished () s1))"

definition notify_all :: "nat \<Rightarrow> env \<Rightarrow> priority \<Rightarrow> wptr \<Rightarrow> 't sync \<Rightarrow> ('t sync, unit) run res" where
  "notify_all n e CEILING w = section_with e CEILING (with_queue w (notify_loop n e w))"

text \<open>
  One poll of \<open>async_wait\<close> by the task \<open>x\<close>; \<open>queued\<close> is the variable of the future. The result is
  whether the wait is over, and the variable.
\<close>

definition enqueue_or_check :: "wptr \<Rightarrow> sptr \<Rightarrow> bool \<Rightarrow> 't sync \<Rightarrow> ('t sync, bool \<times> bool) run res" where
  "enqueue_or_check w x queued s =
     (if \<not> queued then
        bind_res (wait_push_back w x (kern s)) (\<lambda>k. Inr (Finished (False, True) (s\<lparr>kern := k\<rparr>)))
      else Inr (Finished (wait_link (suspendables (kern s) x) = None, queued) s))"

definition async_wait_poll ::
  "env \<Rightarrow> priority \<Rightarrow> wptr \<Rightarrow> sptr \<Rightarrow> bool \<Rightarrow> 't sync \<Rightarrow> ('t sync, bool \<times> bool) run res" where
  "async_wait_poll e CEILING w x queued = section_with e CEILING (with_queue w (enqueue_or_check w x queued))"

text \<open>\<open>AsyncWaiterQueue\<close>, without a lock; the second and later polls do not borrow the queue.\<close>

definition awq_wait_poll :: "wptr \<Rightarrow> sptr \<Rightarrow> bool \<Rightarrow> 't sync \<Rightarrow> ('t sync, bool \<times> bool) run res" where
  "awq_wait_poll w x queued s =
     (if \<not> queued then with_queue w (enqueue_or_check w x queued) s else enqueue_or_check w x queued s)"

definition awq_notify_one :: "env \<Rightarrow> wptr \<Rightarrow> 't sync \<Rightarrow> ('t sync, unit) run res" where
  "awq_notify_one e w s =
     (if in_interrupt (kern s) then Inl (Runtime InterruptHandlerViolation)
      else with_queue w (\<lambda>s. then_run (notify_front e w s) (\<lambda>_ s1. Inr (Finished () s1))) s)"

definition awq_notify_all :: "nat \<Rightarrow> env \<Rightarrow> wptr \<Rightarrow> 't sync \<Rightarrow> ('t sync, unit) run res" where
  "awq_notify_all n e w s =
     (if in_interrupt (kern s) then Inl (Runtime InterruptHandlerViolation)
      else with_queue w (notify_loop n e w) s)"

subsection \<open>Mutex\<close>

text \<open>
  The lock of a mutex is a raw ceiling lock; the data is \<open>guarded\<close>, which a guard reads and writes.
\<close>

definition mutex_lock :: "env \<Rightarrow> lptr \<Rightarrow> 't sync \<Rightarrow> ('t sync, unit) run res" where
  "mutex_lock e l = kernel_call (raw_lock e l)"

definition mutex_try_lock :: "env \<Rightarrow> lptr \<Rightarrow> 't sync \<Rightarrow> ('t sync, unit) run res" where
  "mutex_try_lock e l = mutex_lock e l"

definition guard_deref :: "'t sync \<Rightarrow> 't" where
  "guard_deref s = guarded s"

definition guard_deref_mut :: "('t \<Rightarrow> 't) \<Rightarrow> 't sync \<Rightarrow> 't sync" where
  "guard_deref_mut f s = s\<lparr>guarded := f (guarded s)\<rparr>"

definition mutex_unlock :: "env \<Rightarrow> lptr \<Rightarrow> 't sync \<Rightarrow> ('t sync, unit) run res" where
  "mutex_unlock e l = kernel_call (raw_guard_unlock e l)"

subsection \<open>Condition variables\<close>

definition wait_lock :: "env \<Rightarrow> priority \<Rightarrow> wptr \<Rightarrow> lptr \<Rightarrow> 't sync \<Rightarrow> ('t sync, unit) run res" where
  "wait_lock e CEILING w l s =
     then_run (kernel_call (raw_guard_unlock e l) s) (\<lambda>_ s1.
     then_run (wq_wait e CEILING w s1) (\<lambda>_ s2.
     kernel_call (raw_guard_relock e l) s2))"

definition cv_wait :: "env \<Rightarrow> priority \<Rightarrow> wptr \<Rightarrow> lptr \<Rightarrow> 't sync \<Rightarrow> ('t sync, unit) run res" where
  "cv_wait e CEILING w l s =
     (if in_interrupt (kern s) then Inl (Runtime InterruptHandlerViolation) else wait_lock e CEILING w l s)"

text \<open>The condition may change the data. \<open>n\<close> bounds the number of times it is asked.\<close>

primrec wait_while_loop ::
  "nat \<Rightarrow> env \<Rightarrow> priority \<Rightarrow> wptr \<Rightarrow> lptr \<Rightarrow> ('t \<Rightarrow> bool \<times> 't) \<Rightarrow> 't sync \<Rightarrow> ('t sync, unit) run res" where
  "wait_while_loop 0 e CEILING w l condition s = Inl Diverges"
| "wait_while_loop (Suc n) e CEILING w l condition s =
     (let (b, d) = condition (guarded s); s1 = s\<lparr>guarded := d\<rparr> in
      if b then then_run (cv_wait e CEILING w l s1) (\<lambda>_ s2. wait_while_loop n e CEILING w l condition s2)
      else Inr (Finished () s1))"

definition wait_while ::
  "nat \<Rightarrow> env \<Rightarrow> priority \<Rightarrow> wptr \<Rightarrow> lptr \<Rightarrow> ('t \<Rightarrow> bool \<times> 't) \<Rightarrow> 't sync \<Rightarrow> ('t sync, unit) run res" where
  "wait_while n e CEILING w l condition s =
     (if in_interrupt (kern s) then Inl (Runtime InterruptHandlerViolation)
      else wait_while_loop n e CEILING w l condition s)"

text \<open>
  \<open>async_wait\<close> before its first suspension, and after the wait is over: \<open>raw.lock()\<close> makes a new
  guard, which is dropped at the end of the statement.
\<close>

definition async_wait_start :: "env \<Rightarrow> lptr \<Rightarrow> 't sync \<Rightarrow> ('t sync, unit) run res" where
  "async_wait_start e l = kernel_call (raw_guard_unlock e l)"

definition async_wait_end :: "env \<Rightarrow> lptr \<Rightarrow> 't sync \<Rightarrow> ('t sync, unit) run res" where
  "async_wait_end e l s =
     then_run (kernel_call (raw_lock e l) s) (\<lambda>_ s1. kernel_call (raw_guard_unlock e l) s1)"

definition cv_notify_one :: "env \<Rightarrow> priority \<Rightarrow> wptr \<Rightarrow> 't sync \<Rightarrow> ('t sync, unit) run res" where
  "cv_notify_one e CEILING w = notify_one e CEILING w"

definition cv_notify_all :: "nat \<Rightarrow> env \<Rightarrow> priority \<Rightarrow> wptr \<Rightarrow> 't sync \<Rightarrow> ('t sync, unit) run res" where
  "cv_notify_all n e CEILING w = notify_all n e CEILING w"

section \<open>Runs\<close>

lemma lift_run_simps [simp]:
  "run_state (lift_run r s) = s\<lparr>kern := run_state r\<rparr>" "finished_with a (lift_run r s) = finished_with a r"
  by (cases r; simp)+

lemma bind_run_finish:
  "\<exists>r'. bind_run (\<lambda>_ s. Inr (Finished b s)) r = Inr r' \<and> run_state r' = run_state r
     \<and> (finished_with () r \<longrightarrow> finished_with b r')"
  by (cases r) auto

lemma then_run_Finished [simp]: "then_run (Inr (Finished a s)) f = f a s"
  by (simp add: then_run_def)

lemma then_run_Preempted: "then_run (Inr (Preempted s c)) f = Inr (Preempted s (\<lambda>s1. then_run (c s1) f))"
proof -
  have "bind_res ((map_sum id (bind_run f) \<circ> c) s1) (\<lambda>r. r) = bind_res (c s1) (bind_run f)" for s1
    by (cases "c s1") simp_all
  then show ?thesis by (simp add: then_run_def)
qed

section \<open>Waking a waiter\<close>

text \<open>A waiter that the ceiling of the queue covers.\<close>

definition waiter_ok :: "priority \<Rightarrow> kernel \<Rightarrow> sptr \<Rightarrow> bool" where
  "waiter_ok c k x \<longleftrightarrow> (\<exists>t. x = OfThread t \<and> t \<in> set (blocked_list k) \<and> tprio (threads k) t \<le> c)"

definition waiters_ok :: "priority \<Rightarrow> wptr \<Rightarrow> kernel \<Rightarrow> bool" where
  "waiters_ok c w k \<longleftrightarrow> distinct (wait_queues k w) \<and> (\<forall>x \<in> set (wait_queues k w). waiter_ok c k x)"

text \<open>
  \<open>woken_up w ts k k'\<close>: the first waiters of the queue \<open>w\<close>, the threads \<open>ts\<close>, have been made
  ready, and nothing else of the scheduling has changed.
\<close>

definition woken_up :: "wptr \<Rightarrow> tptr list \<Rightarrow> kernel \<Rightarrow> kernel \<Rightarrow> bool" where
  "woken_up w ts k k' \<longleftrightarrow>
     quiescent k' \<and> sched_frame k k' \<and> current_thread k' = current_thread k
   \<and> set (ready_queue k') = set (ready_queue k) \<union> set ts
   \<and> set (blocked_list k') = set (blocked_list k) - set ts
   \<and> wait_queues k' = (wait_queues k)(w := drop (length ts) (wait_queues k w))
   \<and> (\<forall>x. wait_link (suspendables k' x) = (if x \<in> OfThread ` set ts then None else wait_link (suspendables k x)))"

lemma woken_up_refl: "quiescent k \<Longrightarrow> woken_up w [] k k"
  by (simp add: woken_up_def)

lemma woken_up_step: "woken_up w [t] k k1 \<Longrightarrow> woken_up w ts k1 k2 \<Longrightarrow> woken_up w (t # ts) k k2"
  by (auto simp: woken_up_def drop_Suc tl_drop intro: sched_frame_trans)

definition popped :: "wptr \<Rightarrow> sptr \<Rightarrow> kernel \<Rightarrow> kernel" where
  "popped w x k = upd_suspendable x (\<lambda>s. s\<lparr>wait_link := None\<rparr>)
     (k\<lparr>wait_queues := (wait_queues k)(w := tl (wait_queues k w))\<rparr>)"

lemma popped_simps [simp]:
  "quiescent (popped w x k) = quiescent k" "threads (popped w x k) = threads k"
  "ready_queue (popped w x k) = ready_queue k" "blocked_list (popped w x k) = blocked_list k"
  "current_thread (popped w x k) = current_thread k" "idle_thread (popped w x k) = idle_thread k"
  "locks (popped w x k) = locks k" "kind (suspendables (popped w x k) y) = kind (suspendables k y)"
  "waits (popped w x k) = ((wait_queues k)(w := tl (wait_queues k w)),
     (\<lambda>y. if y = x then None else wait_link (suspendables k y)))"
proof -
  have "sched_inv (k\<lparr>wait_queues := q\<rparr>) = sched_inv k" for q by (simp add: sched_inv_fl_def)
  then show "quiescent (popped w x k) = quiescent k"
    by (simp add: popped_def quiescent_def settled_def stacks_alive_def threads_only_def)
      (simp add: upd_suspendable_def)
qed (auto simp: popped_def upd_suspendable_def waits_def)

lemma resume_waiter:
  assumes q: "quiescent k" and b: "t \<in> set (blocked_list k)"
    and le: "tprio (threads k) t \<le> tprio (threads k) (current_thread k)"
    and x: "wait_queues k w = OfThread t # rest"
  shows "\<exists>k'. resume_thread e (thread_yield e) t (popped w (OfThread t) k) = Inr k' \<and> woken_up w [t] k k'"
proof -
  let ?p = "popped w (OfThread t) k"
  obtain k' k1 where k': "resume_thread e (thread_yield e) t ?p = Inr k'" "quiescent k'" "resumed t ?p k1"
    and same: "if resume_preempts t k1 then rescheduled (now e) k1 k'
        else threads k' = threads k1 \<and> ready_queue k' = ready_queue k1 \<and> blocked_list k' = blocked_list k1
          \<and> suspended_list k' = suspended_list k1 \<and> sleep_queue k' = sleep_queue k1
          \<and> suspendables k' = suspendables k1 \<and> current_thread k' = current_thread k1
          \<and> idle_thread k' = idle_thread k1 \<and> locks k' = locks k1 \<and> wait_queues k' = wait_queues k1"
    using thread_resume_ok [of ?p e t] q by (auto simp: resumed_and_run_def)
  have fr: "sched_frame k k1" "current_thread k1 = current_thread k" and w: "waits k1 = waits ?p"
    using k'(3) by (simp_all add: resumed_def sched_frame_def)
  have "\<not> resume_preempts t k1"
    using le fr le_max_valid(1) [of "tprio (threads k) (current_thread k)" "locks_priority_ceiling k1"]
    by (auto simp: resume_preempts_def sched_frame_def view_folds not_less intro: order_trans)
  with same have eq: "threads k' = threads k1" "ready_queue k' = ready_queue k1" "blocked_list k' = blocked_list k1"
    "current_thread k' = current_thread k1" "idle_thread k' = idle_thread k1" "locks k' = locks k1" "waits k' = waits k1"
    by (simp_all add: waits_def)
  have "tstate (threads k) t = Blocked" using inv_states(2) [OF quiescentD(1) [OF q]] b by simp
  with k'(3) have lists: "set (ready_queue k1) = insert t (set (ready_queue k))"
    "set (blocked_list k1) = set (blocked_list k) - {t}"
    by (simp_all add: resumed_def)
  have ws: "wait_queues k' = (wait_queues k)(w := rest)"
    "(\<lambda>s. wait_link (suspendables k' s)) = (\<lambda>y. if y = OfThread t then None else wait_link (suspendables k y))"
    using eq(7) w x by (simp_all add: waits_def [of k'])
  have "woken_up w [t] k k'"
    unfolding woken_up_def using k'(2) fr eq lists ws(1) x fun_cong [OF ws(2)]
    by (simp add: sched_frame_def insert_commute)
  with k'(1) show ?thesis by blast
qed

lemma notify_front_ok:
  assumes q: "quiescent (kern s)" and ok: "waiters_ok c w (kern s)"
    and le: "c \<le> tprio (threads (kern s)) (current_thread (kern s))"
  shows "wait_queues (kern s) w = [] \<Longrightarrow> notify_front e w s = Inr (Finished False s)"
    and "wait_queues (kern s) w = x # rest \<Longrightarrow>
      \<exists>t k'. x = OfThread t \<and> notify_front e w s = Inr (Finished True (s\<lparr>kern := k'\<rparr>)) \<and> woken_up w [t] (kern s) k'"
proof -
  let ?k = "kern s"
  show "wait_queues ?k w = [] \<Longrightarrow> notify_front e w s = Inr (Finished False s)"
    by (simp add: notify_front_def wait_pop_front_def)
  assume x: "wait_queues ?k w = x # rest"
  then obtain t where t: "x = OfThread t" "t \<in> set (blocked_list ?k)" "tprio (threads ?k) t \<le> c"
    using ok by (auto simp: waiters_ok_def waiter_ok_def)
  obtain k' where k': "resume_thread e (thread_yield e) t (popped w (OfThread t) ?k) = Inr k'" "woken_up w [t] ?k k'"
    using resume_waiter [OF q t(2) order_trans [OF t(3) le]] x t(1) by blast
  have "tstate (threads ?k) t \<noteq> Created" using inv_states(2) [OF quiescentD(1) [OF q], of t] t(2) by auto
  then have kd: "kind (suspendables ?k (OfThread t)) = KThread t"
    using quiescentD(1) [OF q] by (simp add: sched_inv_fl_def identified_def)
  have pop: "wait_pop_front w ?k = (Some x, popped w x ?k)" using x by (simp add: wait_pop_front_def popped_def)
  have "current_thread k' = current_thread ?k" using k'(2) by (simp add: woken_up_def)
  then have "suspendable_notify e x (popped w x ?k) = Inr (Finished () k')"
    using k'(1) kd t(1) by (simp add: suspendable_notify_def as_run_def)
  then show "\<exists>t k'. x = OfThread t \<and> notify_front e w s = Inr (Finished True (s\<lparr>kern := k'\<rparr>)) \<and> woken_up w [t] ?k k'"
    using pop k'(2) t(1) by (intro exI [of _ t] exI [of _ k']) (simp add: notify_front_def on_kernel_def)
qed

lemma waiters_ok_woken:
  assumes "waiters_ok c w k" and "wait_queues k w = OfThread t # rest" and "woken_up w [t] k k'"
  shows "waiters_ok c w k'"
  using assms by (auto simp: waiters_ok_def waiter_ok_def woken_up_def sched_frame_def)

lemma notify_loop_ok:
  assumes "quiescent (kern s)" and "waiters_ok c w (kern s)"
    and "c \<le> tprio (threads (kern s)) (current_thread (kern s))" and "length (wait_queues (kern s) w) < n"
  shows "\<exists>ts k'. wait_queues (kern s) w = map OfThread ts \<and> woken_up w ts (kern s) k'
     \<and> notify_loop n e w s = Inr (Finished () (s\<lparr>kern := k'\<rparr>))"
  using assms
proof (induction n arbitrary: s)
  case (Suc n)
  note front = notify_front_ok [OF Suc.prems(1-3)]
  show ?case
  proof (cases "wait_queues (kern s) w")
    case Nil
    with front(1) woken_up_refl [OF Suc.prems(1)] show ?thesis by (intro exI [of _ "[]"] exI [of _ "kern s"]) simp
  next
    case (Cons x rest)
    obtain t k1 where t: "x = OfThread t" "notify_front e w s = Inr (Finished True (s\<lparr>kern := k1\<rparr>))"
      "woken_up w [t] (kern s) k1" using front(2) [OF Cons] by blast
    let ?s = "s\<lparr>kern := k1\<rparr>"
    have k1: "quiescent (kern ?s)" "c \<le> tprio (threads (kern ?s)) (current_thread (kern ?s))"
      "wait_queues (kern ?s) w = rest" "length (wait_queues (kern ?s) w) < n"
      using t(3) Suc.prems(3,4) Cons by (simp_all add: woken_up_def sched_frame_def)
    have "waiters_ok c w (kern ?s)" using waiters_ok_woken [OF Suc.prems(2)] Cons t(1,3) by simp
    from Suc.IH [OF k1(1) this k1(2,4)] obtain ts k' where ts: "rest = map OfThread ts" "woken_up w ts k1 k'"
      "notify_loop n e w ?s = Inr (Finished () (?s\<lparr>kern := k'\<rparr>))" using k1(3) by auto
    from woken_up_step [OF t(3) ts(2)] ts(1,3) t(1,2) Cons show ?thesis
      by (intro exI [of _ "t # ts"] exI [of _ k']) simp
  qed
qed simp

section \<open>In a section of the ceiling\<close>

lemma with_queue_ok:
  assumes "queue_borrow s w = 0" and "f (s\<lparr>queue_borrow := (queue_borrow s)(w := - 1)\<rparr>) =
      Inr (Finished a (s\<lparr>queue_borrow := (queue_borrow s)(w := - 1), kern := k\<rparr>))"
  shows "with_queue w f s = Inr (Finished a (s\<lparr>kern := k\<rparr>))"
proof -
  have "(queue_borrow s)(w := 0) = queue_borrow s" using assms(1) by (simp add: fun_upd_idem)
  then show ?thesis
    using assms by (simp add: with_queue_def borrow_queue_def return_queue_def new_mutable_def borrow_ref_drop_def)
qed

lemma raised_ok:
  fixes c :: priority
  assumes q: "quiescent k"
  defines "k1 \<equiv> snd (acquire_nesting_lock c k)"
  shows "fst (acquire_nesting_lock c k) = fst (lock_priorities (threads k (current_thread k)))"
    and "quiescent k1" and "reprioritised k k1" and "waits k1 = waits k" and "locks k1 = locks k"
    and "c \<le> tprio (threads k1) (current_thread k1)"
proof -
  let ?t = "current_thread k"
  have a: "acquire_nesting_lock c k = raise_nesting_lock_priority ?t c k"
    by (simp add: acquire_nesting_lock_def thread_context_is_current [OF q])
  show "fst (acquire_nesting_lock c k) = fst (lock_priorities (threads k ?t))"
    by (simp add: a raise_nesting_lock_priority_def Let_def)
  show r: "reprioritised k k1" using raise_nesting_reprioritised [of ?t k c] a by (simp add: k1_def)
  then show "quiescent k1" by (rule reprioritised_quiescent [OF q])
  show "waits k1 = waits k" "locks k1 = locks k"
    by (simp_all add: k1_def a raise_nesting_lock_priority_def Let_def waits_def set_ceiling_threshold_of upd_thread_def)
  have "current_thread k1 = ?t" using r by (simp add: reprioritised_def)
  then show "c \<le> tprio (threads k1) (current_thread k1)"
    using raise_nesting_priority [of c ?t k] a by (simp add: k1_def tprio_def)
qed

lemma section_with_ok:
  assumes q: "quiescent (kern s)" and f: "f (s\<lparr>kern := snd (acquire_nesting_lock c (kern s))\<rparr>) = Inr (Finished r s2)"
    and q2: "quiescent (kern s2)" and c: "current_thread (kern s2) = current_thread (kern s)"
  shows "\<exists>run. section_with e c f s = Inr run \<and> quiescent (kern (run_state run)) \<and> no_inversion (kern (run_state run))
     \<and> locks (kern (run_state run)) = locks (kern s2) \<and> waits (kern (run_state run)) = waits (kern s2)
     \<and> runnable (kern (run_state run)) \<supseteq> runnable (kern s2)
     \<and> queue_borrow (run_state run) = queue_borrow s2 \<and> guarded (run_state run) = guarded s2
     \<and> (current_thread (kern (run_state run)) \<noteq> current_thread (kern s) \<or> finished_with r run)"
proof -
  let ?p = "fst (lock_priorities (threads (kern s) (current_thread (kern s))))"
  obtain r1 where r1: "release_nesting_lock e ?p (kern s2) = Inr r1" "quiescent (run_state r1)" "no_inversion (run_state r1)"
    "locks (run_state r1) = locks (kern s2)" "waits (run_state r1) = waits (kern s2)"
    "runnable (kern s2) \<subseteq> runnable (run_state r1)"
    "current_thread (run_state r1) \<noteq> current_thread (kern s2) \<or> finished_with () r1"
    using release_nesting_ok [OF q2, of e ?p] by blast
  obtain r2 where r2: "bind_run (\<lambda>_ s. Inr (Finished r s)) (lift_run r1 s2) = Inr r2"
    "run_state r2 = run_state (lift_run r1 s2)" "finished_with () (lift_run r1 s2) \<longrightarrow> finished_with r r2"
    using bind_run_finish [of r "lift_run r1 s2"] by (elim exE conjE) (rule that)
  have "section_with e c f s = Inr r2"
    unfolding section_with_def Let_def split_def f raised_ok(1) [OF q] then_run_Finished on_kernel_def r1(1)
    by (simp only: then_run_def bind_res_simps r2(1))
  with r1 r2 c show ?thesis by auto
qed

text \<open>
  \<open>notified w ws s run\<close>: the waiters \<open>ws\<close> have been taken off the front of the queue and made
  runnable. The other queues, the locks, the protected data and the borrow flags are unchanged, no
  thread waits for the processor behind a less urgent one, and the notifier goes on unless it lost
  the processor.
\<close>

definition notified :: "wptr \<Rightarrow> sptr list \<Rightarrow> 't sync \<Rightarrow> ('t sync, unit) run \<Rightarrow> bool" where
  "notified w ws s run \<longleftrightarrow>
     (let k = kern s; k' = kern (run_state run) in
        quiescent k' \<and> no_inversion k' \<and> locks k' = locks k
      \<and> wait_queues k' = (wait_queues k)(w := drop (length ws) (wait_queues k w))
      \<and> (\<forall>t. OfThread t \<in> set ws \<longrightarrow> t \<in> runnable k' \<and> wait_link (suspendables k' (OfThread t)) = None)
      \<and> queue_borrow (run_state run) = queue_borrow s \<and> guarded (run_state run) = guarded s
      \<and> (current_thread k' \<noteq> current_thread k \<or> finished_with () run))"

lemma section_notifies:
  fixes s :: "'t sync" and c :: priority and w :: wptr
  defines "k1 \<equiv> snd (acquire_nesting_lock c (kern s))"
  defines "b \<equiv> s\<lparr>kern := k1, queue_borrow := (queue_borrow s)(w := - 1)\<rparr>"
  assumes q: "quiescent (kern s)" and free: "queue_borrow s w = 0"
    and f: "f b = Inr (Finished () (b\<lparr>kern := k2\<rparr>))" and k2: "woken_up w ts k1 k2"
  shows "\<exists>run. section_with e c (with_queue w f) s = Inr run \<and> notified w (map OfThread ts) s run"
proof -
  note a = raised_ok [OF q, of c, folded k1_def]
  have same: "wait_queues k1 = wait_queues (kern s)" "current_thread k1 = current_thread (kern s)"
    using a(3,4) by (simp_all add: reprioritised_def waits_def)
  have "with_queue w f (s\<lparr>kern := k1\<rparr>) = Inr (Finished () (s\<lparr>kern := k2\<rparr>))"
    using with_queue_ok [of "s\<lparr>kern := k1\<rparr>" w f "()" k2] free f by (simp add: b_def)
  moreover have "quiescent k2" "current_thread k2 = current_thread (kern s)" "locks k2 = locks (kern s)"
    "\<forall>t \<in> set ts. t \<in> runnable k2"
    using k2 a(5) by (simp_all add: woken_up_def same sched_frame_def runnable_def)
  ultimately obtain run where run: "section_with e c (with_queue w f) s = Inr run"
    "quiescent (kern (run_state run))" "no_inversion (kern (run_state run))"
    "locks (kern (run_state run)) = locks (kern s)" "waits (kern (run_state run)) = waits k2"
    "runnable k2 \<subseteq> runnable (kern (run_state run))" "queue_borrow (run_state run) = queue_borrow s"
    "guarded (run_state run) = guarded s" "\<forall>t \<in> set ts. t \<in> runnable k2"
    "current_thread (kern (run_state run)) \<noteq> current_thread (kern s) \<or> finished_with () run"
    using section_with_ok [where f = "with_queue w f", OF q, of c "()" "s\<lparr>kern := k2\<rparr>" e] by (auto simp: k1_def)
  moreover have "wait_queues (kern (run_state run)) = wait_queues k2"
    "wait_link (suspendables (kern (run_state run)) x) = wait_link (suspendables k2 x)" for x
    using run(5) by (simp_all add: waits_def fun_eq_iff)
  ultimately show ?thesis using k2 same(1) by (auto simp: woken_up_def notified_def Let_def)
qed

lemma waiters_ok_reprioritised:
  assumes q: "quiescent k" and r: "reprioritised k k'" and w: "waits k' = waits k"
  shows "waiters_ok c w k' = waiters_ok c w k"
proof -
  have b: "blocked_list k' = blocked_list k" using r by (simp add: reprioritised_def)
  have "current_thread k \<notin> set (blocked_list k)"
    using inv_placed [OF quiescentD(1) [OF q]] by (auto simp: placed_def)
  then have "tprio (threads k') t = tprio (threads k) t" if "t \<in> set (blocked_list k)" for t
    using reprioritised_views(4) [OF r, of t] that by blast
  then have "waiter_ok c k' x = waiter_ok c k x" for x by (auto simp: waiter_ok_def b)
  then show ?thesis using w by (simp add: waiters_ok_def waits_def)
qed

text \<open>A notification of a queue whose waiters are covered by its ceiling.\<close>

lemma notify_ready:
  assumes q: "quiescent (kern s)" and ok: "waiters_ok c w (kern s)"
  defines "b \<equiv> s\<lparr>kern := snd (acquire_nesting_lock c (kern s)), queue_borrow := (queue_borrow s)(w := - 1)\<rparr>"
  shows "quiescent (kern b)" "waiters_ok c w (kern b)" "c \<le> tprio (threads (kern b)) (current_thread (kern b))"
    "wait_queues (kern b) = wait_queues (kern s)"
  using raised_ok [OF q, of c] waiters_ok_reprioritised [OF q raised_ok(3,4) [OF q, of c]] ok
  by (simp_all add: b_def waits_def)

lemma notify_one_ok:
  assumes q: "quiescent (kern s)" and free: "queue_borrow s w = 0" and ok: "waiters_ok c w (kern s)"
  shows "\<exists>run. notify_one e c w s = Inr run \<and> notified w (take 1 (wait_queues (kern s) w)) s run"
proof -
  let ?k1 = "snd (acquire_nesting_lock c (kern s))"
  let ?b = "s\<lparr>kern := ?k1, queue_borrow := (queue_borrow s)(w := - 1)\<rparr>"
  note b = notify_ready [OF q ok]
  obtain ts k3 where one: "take 1 (wait_queues (kern s) w) = map OfThread ts" "woken_up w ts ?k1 k3"
    "then_run (notify_front e w ?b) (\<lambda>_ s1. Inr (Finished () s1)) = Inr (Finished () (?b\<lparr>kern := k3\<rparr>))"
  proof (cases "wait_queues (kern s) w")
    case Nil
    then show ?thesis using that [of "[]" ?k1] notify_front_ok(1) [OF b(1-3), of e] woken_up_refl [of ?k1] b by simp
  next
    case (Cons x us)
    then obtain t k' where "x = OfThread t" "woken_up w [t] ?k1 k'" "notify_front e w ?b = Inr (Finished True (?b\<lparr>kern := k'\<rparr>))"
      using notify_front_ok(2) [OF b(1-3), of x us e] b(4) by auto
    with Cons show ?thesis using that [of "[t]" k'] by simp
  qed
  show ?thesis
    unfolding notify_one_def one(1)
    by (rule section_notifies [where f = "\<lambda>s. then_run (notify_front e w s) (\<lambda>_ s1. Inr (Finished () s1))",
          OF q free one(3,2)])
qed

lemma notify_all_ok:
  assumes q: "quiescent (kern s)" and free: "queue_borrow s w = 0" and ok: "waiters_ok c w (kern s)"
    and n: "length (wait_queues (kern s) w) < n"
  shows "\<exists>run. notify_all n e c w s = Inr run \<and> notified w (wait_queues (kern s) w) s run"
proof -
  let ?k1 = "snd (acquire_nesting_lock c (kern s))"
  let ?b = "s\<lparr>kern := ?k1, queue_borrow := (queue_borrow s)(w := - 1)\<rparr>"
  note b = notify_ready [OF q ok]
  obtain ts k2 where all: "wait_queues (kern s) w = map OfThread ts" "woken_up w ts ?k1 k2"
    "notify_loop n e w ?b = Inr (Finished () (?b\<lparr>kern := k2\<rparr>))"
    using notify_loop_ok [OF b(1-3), of n e] b(4) n by auto
  show ?thesis
    unfolding notify_all_def all(1) by (rule section_notifies [where f = "notify_loop n e w", OF q free all(3,2)])
qed

section \<open>Properties\<close>

text \<open>
  Claim C25. A notification of a wait queue whose waiters are covered by its ceiling returns: \<open>notify_one\<close>
  takes the first waiter off the queue and makes it runnable, \<open>notify_all\<close> does so with all of
  them, in as many rounds as there are waiters and one; nothing else changes, and the processor
  goes to a woken thread that is more urgent than the notifier.
\<close>

theorem notify_wakes_waiters:
  assumes "quiescent (kern s)" and "queue_borrow s w = 0" and "waiters_ok c w (kern s)"
    and "length (wait_queues (kern s) w) < n"
  shows "(\<exists>run. notify_one e c w s = Inr run \<and> notified w (take 1 (wait_queues (kern s) w)) s run)
     \<and> (\<exists>run. notify_all n e c w s = Inr run \<and> notified w (wait_queues (kern s) w) s run)"
  using notify_one_ok [OF assms(1-3)] notify_all_ok [OF assms] by blast

definition sample_sync :: "bool sync" where
  "sample_sync = \<lparr>kern = sample_quiet\<lparr>wait_queues := (\<lambda>_. [])(7 := [OfThread 3])\<rparr>, queue_borrow = \<lambda>_. 0, guarded = True\<rparr>"

lemma quiescent_wait_queues [simp]: "quiescent (k\<lparr>wait_queues := q\<rparr>) = quiescent k"
proof -
  have "sched_inv (k\<lparr>wait_queues := q\<rparr>) = sched_inv k" by (simp add: sched_inv_fl_def)
  then show ?thesis by (simp add: quiescent_def settled_def stacks_alive_def threads_only_def)
qed

theorem notify_wakes_waiters_witness:
  "\<exists>run. notify_one (sample_env 0) (Thread 9) 7 sample_sync = Inr run \<and> 3 \<in> runnable (kern (run_state run))
     \<and> wait_queues (kern (run_state run)) 7 = []"
proof -
  have "quiescent (kern sample_sync)" by (simp add: sample_sync_def sample_quiet_quiescent)
  moreover have "waiters_ok (Thread 9) 7 (kern sample_sync)"
    by (simp add: waiters_ok_def waiter_ok_def sample_sync_def sample_quiet_def sample_kernel_def tprio_def sample_thread_def
        raw_thread_new_def priority_defs max_valid_priority)
  moreover have "queue_borrow sample_sync 7 = 0" "wait_queues (kern sample_sync) 7 = [OfThread 3]"
    by (simp_all add: sample_sync_def)
  ultimately show ?thesis
    using notify_wakes_waiters [of sample_sync 7 "Thread 9" 2 "sample_env 0"] by (auto simp: notified_def Let_def)
qed

lemma kernel_call_stays:
  assumes "f (kern s) = Inr k" and "current_interrupt (kern s) = None" and "current_thread k = current_thread (kern s)"
  shows "kernel_call f s = Inr (Finished () (s\<lparr>kern := k\<rparr>))"
  using assms by (simp add: kernel_call_def on_kernel_def as_run_def)

lemma kernel_call_run:
  "f (kern s) = Inr k \<Longrightarrow> \<exists>run. kernel_call f s = Inr run \<and> run_state run = s\<lparr>kern := k\<rparr>"
  by (simp add: kernel_call_def on_kernel_def as_run_def)

lemma kernel_call_preempted:
  assumes "f (kern s) = Inr k" and "current_interrupt (kern s) = None" and "current_thread k \<noteq> current_thread (kern s)"
  shows "\<exists>rest. then_run (kernel_call f s) g = Inr (Preempted (s\<lparr>kern := k\<rparr>) rest) \<and> (\<forall>s1. rest s1 = g () s1)"
  using assms by (simp add: kernel_call_def on_kernel_def as_run_def then_run_def)

lemma wq_wait_blocks:
  assumes "quiescent (kern s)" and "t = current_thread (kern s)" and "t \<noteq> idle_thread (kern s)"
    and "wait_link (suspendables (kern s) (OfThread t)) = None"
  shows "\<exists>k rest. then_run (wq_wait e c w s) g = Inr (Preempted (s\<lparr>kern := k\<rparr>) rest) \<and> (\<forall>s1. rest s1 = g () s1)
     \<and> quiescent k \<and> blocked_on None (kern s) k \<and> t \<in> set (blocked_list k) \<and> OfThread t \<in> set (wait_queues k w)"
proof -
  obtain k where k: "thread_wait e w (into_any c) (kern s) = Inr k" "quiescent k" "blocked_on None (kern s) k"
    "OfThread t \<in> set (wait_queues k w)"
    using wait_syscall_ok [OF assms(1), of e w "into_any c"] assms(2-4) by auto
  have "t \<in> set (blocked_list k)" using k(3) assms(2) by (simp add: blocked_on_def)
  moreover from this have "current_thread k \<noteq> t"
    using inv_placed [OF quiescentD(1) [OF k(2)]] by (auto simp: placed_def)
  ultimately show ?thesis
    using kernel_call_preempted [where f = "thread_wait e w (into_any c)", OF k(1) quiescentD(4) [OF assms(1)], of g] k assms(2)
    by (auto simp: wq_wait_def)
qed

text \<open>Releasing a lock hands the processor to a ready thread that is above the remaining priority.\<close>

lemma release_preempts:
  assumes q: "quiescent k" and ok: "locks_ok k" and t: "t = current_thread k"
    and own: "owner (locks k l) = Some (PThread t)" and u: "u \<in> set (ready_queue k)"
    and lt: "priority (threads (with_locks t (remove1 l (scoped_locks (threads k t))) l None k) t) < priority (threads k u)"
  shows "\<exists>k'. release_scoped_lock e l k = Inr k' \<and> quiescent k' \<and> current_thread k' \<noteq> t
     \<and> owner (locks k' l) = None \<and> waits k' = waits k"
proof -
  let ?w = "with_locks t (remove1 l (scoped_locks (threads k t))) l None k"
  obtain k' where k': "release_scoped_lock e l k = Inr k'" "quiescent k'" "reconsidered (now e) ?w k'"
    using release_scoped_lock_ok [OF q ok] t own by blast
  have "u \<noteq> t" and ui: "u \<noteq> idle_thread k"
    using inv_placed [OF quiescentD(1) [OF q]] inv_idle_unlisted [OF quiescentD(1) [OF q]] u t by (auto simp: placed_def)
  then have lt': "tprio (threads ?w) (current_thread ?w) < tprio (threads ?w) u"
    using lt t reprioritised_views(4) [OF with_locks_reprioritised [OF t]] by (simp add: tprio_def)
  then have re: "rescheduled (now e) ?w k'" using k'(3) u by (auto simp: reconsidered_def split: if_splits)
  have "current_thread k' \<noteq> t"
  proof
    assume "current_thread k' = t"
    moreover have "{idle_thread k, current_thread k'} \<union> set (ready_queue k') =
       {idle_thread k, t} \<union> set (ready_queue k) \<union> due_threads (now e) ?w" 
      "\<forall>v \<in> set (ready_queue k'). tprio (threads k') v \<le> tprio (threads k') (current_thread k')"
      using re t by (simp_all add: rescheduled_def)
    moreover have "tprio (threads k') = tprio (threads ?w)" using re by (simp add: rescheduled_def sched_frame_def)
    ultimately show False using u ui \<open>u \<noteq> t\<close> lt' t by (auto simp: not_less [symmetric])
  qed
  moreover have "owner (locks k' l) = None" using reconsidered_frame(2) [OF k'(3)] by (simp add: with_locks_def Let_def)
  moreover have "waits k' = waits k" using reconsidered_waits(1) [OF k'(3)] by (simp add: waits_def)
  ultimately show ?thesis using k'(1,2) by blast
qed

text \<open>
  Claim C37. The wait on a condition variable is not atomic: when the guard is unlocked, a more urgent ready
  thread runs at once. The waiter has left the mutex but is not in the queue yet; when it runs
  again it enters the queue and blocks whatever the data says by then, so a notification, or any
  change of the condition, that happened in between is lost.
\<close>

theorem condvar_wait_loses_notification:
  assumes "quiescent (kern s)" and "locks_ok (kern s)" and "t = current_thread (kern s)"
    and "owner (locks (kern s) l) = Some (PThread t)"
    and "u \<in> set (ready_queue (kern s))"
    and "priority (threads (with_locks t (remove1 l (scoped_locks (threads (kern s) t))) l None (kern s)) t)
      < priority (threads (kern s) u)"
  shows "\<exists>s1 rest. wait_lock e c w l s = Inr (Preempted s1 rest)
     \<and> quiescent (kern s1) \<and> current_thread (kern s1) \<noteq> t \<and> owner (locks (kern s1) l) = None
     \<and> waits (kern s1) = waits (kern s) \<and> guarded s1 = guarded s
     \<and> (\<forall>s2. quiescent (kern s2) \<longrightarrow> current_thread (kern s2) = t \<longrightarrow> t \<noteq> idle_thread (kern s2)
          \<longrightarrow> wait_link (suspendables (kern s2) (OfThread t)) = None
          \<longrightarrow> (\<exists>s3 rest'. rest s2 = Inr (Preempted s3 rest') \<and> guarded s3 = guarded s2
               \<and> t \<in> set (blocked_list (kern s3)) \<and> OfThread t \<in> set (wait_queues (kern s3) w)))"
proof -
  let ?wait = "\<lambda>_ s1. then_run (wq_wait e c w s1) (\<lambda>_ s2. kernel_call (raw_guard_relock e l) s2)"
  obtain k1 where k1: "release_scoped_lock e l (kern s) = Inr k1" "quiescent k1" "current_thread k1 \<noteq> t"
    "owner (locks k1 l) = None" "waits k1 = waits (kern s)"
    using release_preempts [OF assms] by blast
  then obtain rest where rest: "wait_lock e c w l s = Inr (Preempted (s\<lparr>kern := k1\<rparr>) rest)" "\<forall>s1. rest s1 = ?wait () s1"
    using kernel_call_preempted [where f = "raw_guard_unlock e l" and g = ?wait, of s k1] quiescentD(4) [OF assms(1)] assms(3)
    by (auto simp: wait_lock_def raw_guard_unlock_def)
  have "\<exists>s3 rest'. rest s2 = Inr (Preempted s3 rest') \<and> guarded s3 = guarded s2
      \<and> t \<in> set (blocked_list (kern s3)) \<and> OfThread t \<in> set (wait_queues (kern s3) w)"
    if "quiescent (kern s2)" "current_thread (kern s2) = t" "t \<noteq> idle_thread (kern s2)"
      "wait_link (suspendables (kern s2) (OfThread t)) = None" for s2
    using wq_wait_blocks [OF that(1) that(2) [symmetric] that(3,4), of e c w] rest(2) by fastforce
  with rest(1) k1 show ?thesis by (intro exI [of _ "s\<lparr>kern := k1\<rparr>"] exI [of _ rest]) simp
qed

text \<open>A state in which thread 1 holds the lock 1 and thread 4, above its base priority, is ready.\<close>

lemma sample_contended:
  "\<exists>k. quiescent k \<and> locks_ok k \<and> current_thread k = 1 \<and> owner (locks k 1) = Some (PThread 1) \<and> 4 \<in> set (ready_queue k)
     \<and> theld (threads k) 1 = (Thread 3, (SInvalid, SThread 9), [1]) \<and> priority (threads k 4) = Thread 7"
proof -
  let ?w = "unlocked (with_locks 1 [1] 1 (Some (PThread 1)) sample_quiet)"
  have sl: "scoped_locks (threads sample_quiet 1) = []" "current_thread sample_quiet = 1"
    by (simp_all add: sample_quiet_def sample_kernel_def sample_thread_def raw_thread_new_def)
  have q: "quiescent ?w"
    using acquire_scoped_lock_ok(2) [OF sample_quiet_quiescent sample_quiet_locks] sample_quiet_lock_facts sl by simp
  have "locks_ok (with_locks 1 [1] 1 (Some (PThread 1)) sample_quiet)"
    using acquired_locks_ok [OF sample_quiet_locks sample_quiet_lock_facts(2), of 1] sl by simp
  then have ok: "locks_ok ?w" using locks_ok_cong [of ?w "with_locks 1 [1] 1 (Some (PThread 1)) sample_quiet"] by simp
  have v: "theld (threads ?w) 1 = (Thread 3, (SInvalid, SThread 9), [1])" "owner (locks ?w 1) = Some (PThread 1)"
    "tprio (threads ?w) 4 = Thread 7" "tprio (threads ?w) 1 = Thread 9" "tstate (threads ?w) 4 = Suspended"
    by (simp_all add: with_locks_def Let_def theld_def tprio_def tstate_def sample_quiet_def sample_kernel_def sample_thread_def
        raw_thread_new_def held_priority_def ceiling_lock_new_def priority_defs max_valid_priority)
  obtain k k1 where k: "resume_thread (sample_env 0) (thread_yield (sample_env 0)) 4 ?w = Inr k" "quiescent k" "resumed 4 ?w k1"
    and same: "if resume_preempts 4 k1 then rescheduled 0 k1 k
        else threads k = threads k1 \<and> ready_queue k = ready_queue k1 \<and> current_thread k = current_thread k1 \<and> locks k = locks k1"
    using thread_resume_ok [OF q, of "sample_env 0" 4] by (auto simp: resumed_and_run_def sample_env_def split: if_splits)
  have fr: "sched_frame ?w k1" "current_thread k1 = 1" "4 \<in> set (ready_queue k1)"
    using k(3) v(5) sl(2) by (simp_all add: resumed_def)
  have held: "theld (threads k1) = theld (threads ?w)" "locks k1 = locks ?w"
    and prio: "tprio (threads k1) 4 = Thread 7" "tprio (threads k1) 1 = Thread 9"
    using fr(1) v(3,4) unfolding sched_frame_def by metis+
  have "\<not> resume_preempts 4 k1"
    using prio fr(2) by (simp add: resume_preempts_def view_folds max_valid_priority split: option.split)
  with same have "threads k = threads k1" "ready_queue k = ready_queue k1" "current_thread k = 1" "locks k = locks k1"
    using fr(2) by simp_all
  then show ?thesis
    using k(2) fr(3) v(1,2) ok locks_ok_cong [of k ?w] held prio(1)
    by (intro exI [of _ k]) (simp add: tprio_def del: unlocked_simps One_nat_def)
qed

theorem condvar_wait_loses_notification_witness:
  "\<exists>s :: bool sync. quiescent (kern s)
     \<and> (\<exists>s1 rest. wait_lock (sample_env 0) (Thread 9) 7 1 s = Inr (Preempted s1 rest) \<and> owner (locks (kern s1) 1) = None)"
proof -
  obtain k where k: "quiescent k" "locks_ok k" "current_thread k = 1" "owner (locks k 1) = Some (PThread 1)"
    "4 \<in> set (ready_queue k)" "theld (threads k) 1 = (Thread 3, (SInvalid, SThread 9), [1])" "priority (threads k 4) = Thread 7"
    using sample_contended by blast
  let ?s = "\<lparr>kern = k, queue_borrow = \<lambda>_. 0, guarded = True\<rparr>"
  have "priority (threads (with_locks 1 (remove1 1 (scoped_locks (threads k 1))) 1 None k) 1) < priority (threads k 4)"
    using k(6,7) by (simp add: with_locks_def Let_def held_priority_def priority_defs theld_def max_valid_priority)
  with condvar_wait_loses_notification [of ?s 1 1 4 "sample_env 0" "Thread 9" 7] k show ?thesis
    by (intro exI [of _ ?s]) auto
qed

text \<open>
  \<open>Condvar::async_wait\<close> returns its guard without the lock: the lock is taken and released again
  in the same statement, so the data is used unprotected.
\<close>

theorem async_wait_returns_unlocked:
  assumes "quiescent (kern s)" and "locks_ok (kern s)"
    and "thread_id (threads (kern s) (current_thread (kern s))) \<noteq> IDLE_THREAD_ID"
    and "owner (locks (kern s) l) = None" and "lock_list_link (locks (kern s) l) = None"
    and "priority (threads (kern s) (current_thread (kern s))) \<le> ceiling_priority (locks (kern s) l)"
  shows "\<exists>run. async_wait_end e l s = Inr run \<and> owner (locks (kern (run_state run)) l) = None
     \<and> guarded (run_state run) = guarded s"
proof -
  let ?t = "current_thread (kern s)"
  let ?w = "unlocked (with_locks ?t (l # scoped_locks (threads (kern s) ?t)) l (Some (PThread ?t)) (kern s))"
  note a = acquire_scoped_lock_ok [OF assms]
  have lock: "kernel_call (raw_lock e l) s = Inr (Finished () (s\<lparr>kern := ?w\<rparr>))"
    using a(1) quiescentD(4) [OF assms(1)] by (intro kernel_call_stays) (simp_all add: raw_lock_def)
  have "locks_ok (with_locks ?t (l # scoped_locks (threads (kern s) ?t)) l (Some (PThread ?t)) (kern s))"
    using acquired_locks_ok [OF assms(2,4), of ?t] acquired_priority(1) [OF assms(2,6)] by simp
  then have "locks_ok ?w" by (subst locks_ok_cong) simp_all
  moreover have "owner (locks ?w l) = Some (PThread (current_thread ?w))" by simp (simp add: with_locks_def Let_def)
  ultimately obtain k' where k': "release_scoped_lock e l ?w = Inr k'"
    "reconsidered (now e) (with_locks ?t (remove1 l (scoped_locks (threads ?w ?t))) l None ?w) k'"
    using release_scoped_lock_ok [OF a(2), of l e] by auto
  have "owner (locks k' l) = None" using reconsidered_frame(2) [OF k'(2)] by (simp add: with_locks_def Let_def)
  then show ?thesis
    using kernel_call_run [where f = "raw_guard_unlock e l", of "s\<lparr>kern := ?w\<rparr>" k'] k'(1)
    by (auto simp: async_wait_end_def lock raw_guard_unlock_def)
qed

theorem async_wait_returns_unlocked_witness:
  "\<exists>run. async_wait_end (sample_env 0) 1 \<lparr>kern = sample_quiet, queue_borrow = \<lambda>_. 0, guarded = True\<rparr> = Inr run
     \<and> owner (locks (kern (run_state run)) 1) = None"
  using async_wait_returns_unlocked [of "\<lparr>kern = sample_quiet, queue_borrow = \<lambda>_. 0, guarded = True\<rparr>" 1 "sample_env 0"]
    sample_quiet_quiescent sample_quiet_locks sample_quiet_lock_facts sample_quiet_facts(2)
  by auto

end
