(* ===== verification/Mutex_Section.thy ===== *)
theory Mutex_Section
  imports Wait_Queue
begin

text \<open>
  Facts about code that uses a mutex with a condition variable, shared by the channels and the
  rendezvous: a notification that leaves the processor with the notifier, and locking and unlocking
  the mutex when no thread that is more urgent is ready.
\<close>

section \<open>Runs and notifications\<close>

primrec returns :: "'a \<Rightarrow> ('s, 'a) run \<Rightarrow> bool" where
  "returns r (Finished a _) \<longleftrightarrow> a = r"
| "returns r (Preempted _ c) \<longleftrightarrow> (\<forall>s. c s = Inr (Finished r s))"

lemma then_kernel_call:
  assumes "f (kern s) = Inr k"
  shows "\<exists>run. then_run (kernel_call f s) (\<lambda>_ s1. Inr (Finished b s1)) = Inr run \<and> run_state run = s\<lparr>kern := k\<rparr>
     \<and> returns b run \<and> (current_thread k = current_thread (kern s) \<longrightarrow> finished_with b run)"
  using assms by (simp add: kernel_call_def on_kernel_def as_run_def then_run_def)

lemma theld_priorities:
  assumes "theld ts = theld ts'"
  shows "tprio ts = tprio ts'" "tlock ts = tlock ts'"
  using fun_cong [OF assms] by (simp_all add: fun_eq_iff theld_def tprio_def tlock_def priority_defs)

text \<open>Raising and restoring the section priority of the running thread leaves its data as they were.\<close>

lemma section_frame:
  fixes c :: priority
  assumes q: "quiescent k" and fr: "sched_frame (snd (acquire_nesting_lock c k)) k2"
    and c: "current_thread k2 = current_thread k"
  shows "sched_frame k (unlocked (unlocked (store_nesting_lock_priority (current_thread k)
    (fst (lock_priorities (threads k (current_thread k)))) k2)))"
proof -
  let ?t = "current_thread k"
  let ?s = "store_nesting_lock_priority ?t (fst (lock_priorities (threads k ?t))) k2"
  have a: "snd (acquire_nesting_lock c k) = snd (raise_nesting_lock_priority ?t c k)"
    by (simp add: acquire_nesting_lock_def thread_context_is_current [OF q])
  have v: "theld (threads k2) u = (if u = ?t then (base_priority (threads k ?t),
      (fst (lock_priorities (threads (snd (acquire_nesting_lock c k)) ?t)), snd (lock_priorities (threads k ?t))),
      scoped_locks (threads k ?t)) else theld (threads k) u)" for u
    using fr by (simp add: sched_frame_def a)
      (simp add: raise_nesting_lock_priority_def Let_def set_ceiling_threshold_of upd_thread_def theld_def)
  have "theld (threads ?s) u = theld (threads k) u" for u
    using v [of u] by (cases "u = ?t") (auto simp: prod_eq_iff store_nesting_lock_priority_def Let_def set_ceiling_threshold_of upd_thread_def theld_def)
  then have th: "theld (threads ?s) = theld (threads k)" by blast
  note r = raised_ok [OF q, of c]
  have "tid (threads ?s) = tid (threads k2)" "tstack (threads ?s) = tstack (threads k2)" "locks ?s = locks k2"
    "idle_thread ?s = idle_thread k2"
    by (auto simp: store_nesting_lock_priority_def Let_def set_ceiling_threshold_of upd_thread_def view_defs)
  moreover have "tid (threads k2) = tid (threads k)" "tstack (threads k2) = tstack (threads k)"
    "locks k2 = locks k" "idle_thread k2 = idle_thread k"
    using fr r(5) reprioritised_views(2,3) [OF r(3)] r(3) by (simp_all add: sched_frame_def reprioritised_def)
  ultimately show ?thesis using th theld_priorities [OF th] by (simp add: sched_frame_def)
qed

lemma notify_stays:
  assumes q: "quiescent (kern s)" and free: "queue_borrow s w = 0" and ok: "waiters_ok c w (kern s)"
    and le: "\<forall>u. OfThread u \<in> set (take 1 (wait_queues (kern s) w))
        \<longrightarrow> tprio (threads (kern s)) u \<le> tprio (threads (kern s)) (current_thread (kern s))"
    and top: "\<forall>u \<in> set (ready_queue (kern s)). tprio (threads (kern s)) u \<le> tprio (threads (kern s)) (current_thread (kern s))"
  shows "\<exists>ts k'. take 1 (wait_queues (kern s) w) = map OfThread ts \<and> woken_up w ts (kern s) k'
     \<and> notify_one e c w s = Inr (Finished () (s\<lparr>kern := k'\<rparr>))"
proof -
  let ?k = "kern s" and ?t = "current_thread (kern s)"
  let ?k1 = "snd (acquire_nesting_lock c ?k)" and ?p = "fst (lock_priorities (threads ?k ?t))"
  let ?b = "s\<lparr>kern := ?k1, queue_borrow := (queue_borrow s)(w := - 1)\<rparr>"
  let ?f = "\<lambda>s. then_run (notify_front e w s) (\<lambda>_ s1. Inr (Finished () s1))"
  note a = raised_ok [OF q, of c]
  have same: "wait_queues ?k1 = wait_queues ?k" "\<And>x. wait_link (suspendables ?k1 x) = wait_link (suspendables ?k x)"
    "ready_queue ?k1 = ready_queue ?k" "blocked_list ?k1 = blocked_list ?k" "current_thread ?k1 = ?t"
    using a(3,4) by (simp_all add: waits_def reprioritised_def fun_eq_iff)
  have b: "quiescent (kern ?b)" "waiters_ok c w (kern ?b)" "c \<le> tprio (threads (kern ?b)) (current_thread (kern ?b))"
    using a(2,6) waiters_ok_reprioritised [OF q a(3,4)] ok by simp_all
  obtain ts k2 where k2: "woken_up w ts ?k1 k2" "?f ?b = Inr (Finished () (?b\<lparr>kern := k2\<rparr>))"
    "take 1 (wait_queues ?k w) = map OfThread ts"
  proof (cases "wait_queues ?k w")
    case Nil
    then show ?thesis using that [of "[]" ?k1] notify_front_ok(1) [OF b, of e] woken_up_refl [OF a(2)] same(1) by simp
  next
    case (Cons x rest)
    then show ?thesis using that notify_front_ok(2) [OF b, of x rest e] same(1) by auto
  qed
  let ?s = "unlocked (unlocked (store_nesting_lock_priority ?t ?p k2))"
  have fr: "sched_frame ?k1 k2" "current_thread k2 = ?t" "quiescent k2" using k2(1) same(5) by (simp_all add: woken_up_def)
  have frs: "sched_frame ?k ?s" by (rule section_frame [OF q fr(1,2)])
  have st: "ready_queue ?s = ready_queue k2" "blocked_list ?s = blocked_list k2" "current_thread ?s = ?t"
    "wait_queues ?s = wait_queues k2" "suspendables ?s = suspendables k2"
    using fr(2) by (simp_all add: store_nesting_lock_priority_def Let_def set_ceiling_threshold_of upd_thread_def)
  have pt: "tprio (threads (store_nesting_lock_priority ?t ?p k2)) ?t = tprio (threads ?k) ?t"
    using frs by (simp add: sched_frame_def)
  have "tprio (threads k2) u \<le> tprio (threads ?k) ?t" if u: "u \<in> set (ready_queue k2)" for u
  proof -
    have "u \<noteq> ?t" using inv_placed [OF quiescentD(1) [OF fr(3)]] u fr(2) by (auto simp: placed_def)
    then have eq: "tprio (threads k2) u = tprio (threads ?k) u"
      using reprioritised_views(4) [OF a(3)] fr(1) by (simp add: sched_frame_def)
    consider "u \<in> set (ready_queue ?k)" | "u \<in> set ts" using u k2(1) same(3) by (auto simp: woken_up_def)
    then show ?thesis
    proof cases
      case 2
      then have "OfThread u \<in> set (take 1 (wait_queues ?k w))" using k2(3) by simp
      then show ?thesis using le eq by simp
    qed (use top eq in simp)
  qed
  then have "release_nesting_lock e ?p k2 = Inr (Finished () ?s)" and qs: "quiescent ?s"
    using release_nesting_stays(1) [OF fr(3), of ?p e] release_nesting_stays(2) [OF fr(3), of ?p] fr(2) pt by simp_all
  moreover have "with_queue w ?f (s\<lparr>kern := ?k1\<rparr>) = Inr (Finished () (s\<lparr>kern := k2\<rparr>))"
    using with_queue_ok [of "s\<lparr>kern := ?k1\<rparr>" w ?f "()" k2] free k2(2) by simp
  ultimately have "notify_one e c w s = Inr (Finished () (s\<lparr>kern := ?s\<rparr>))"
    using a(1) by (simp add: notify_one_def section_with_def split_def on_kernel_def)
  moreover have "woken_up w ts ?k ?s"
    using k2(1) qs frs st same unfolding woken_up_def by simp
  ultimately show ?thesis using k2(3) by blast
qed

lemma then_returns:
  assumes "m = Inr run" and "returns a run"
  shows "\<exists>run'. then_run m (\<lambda>a s. Inr (Finished (g a) s)) = Inr run' \<and> run_state run' = run_state run
     \<and> returns (g a) run' \<and> (finished_with a run \<longrightarrow> finished_with (g a) run')"
  using assms by (cases run) (auto simp: then_run_def)

section \<open>Locking and unlocking\<close>

text \<open>
  The running thread may lock \<open>l\<close>, whose ceiling is \<open>c\<close>: it is not the idle thread, its priority is
  at most the ceiling, no ready thread is above it, and the lock is free.
\<close>

definition lockable :: "lptr \<Rightarrow> priority \<Rightarrow> kernel \<Rightarrow> bool" where
  "lockable l c k \<longleftrightarrow>
     (let t = current_thread k in
        quiescent k \<and> locks_ok k \<and> thread_id (threads k t) \<noteq> IDLE_THREAD_ID
      \<and> owner (locks k l) = None \<and> lock_list_link (locks k l) = None \<and> ceiling_priority (locks k l) = c
      \<and> priority (threads k t) \<le> c \<and> (\<forall>u \<in> set (ready_queue k). priority (threads k u) \<le> priority (threads k t)))"

text \<open>The mutex is locked by the running thread of \<open>k\<close>, in the state \<open>k'\<close>.\<close>

definition mutex_held :: "lptr \<Rightarrow> priority \<Rightarrow> kernel \<Rightarrow> kernel \<Rightarrow> bool" where
  "mutex_held l c k k' \<longleftrightarrow>
     quiescent k' \<and> locks_ok k' \<and> current_thread k' = current_thread k
   \<and> owner (locks k' l) = Some (PThread (current_thread k))
   \<and> tprio (threads k') (current_thread k) = c
   \<and> (\<forall>u \<in> set (ready_queue k'). tprio (threads k') u \<le> c)"

lemma mutex_lock_ok:
  assumes "lockable l c (kern s)"
  shows "\<exists>k. mutex_lock e l s = Inr (Finished () (s\<lparr>kern := k\<rparr>)) \<and> mutex_held l c (kern s) k
     \<and> waits k = waits (kern s) \<and> (\<forall>d w. waiters_ok d w k = waiters_ok d w (kern s))"
proof -
  let ?k = "kern s" and ?t = "current_thread (kern s)"
  let ?w = "with_locks ?t (l # scoped_locks (threads ?k ?t)) l (Some (PThread ?t)) ?k"
  have u: "quiescent ?k" "locks_ok ?k" "thread_id (threads ?k ?t) \<noteq> IDLE_THREAD_ID" "owner (locks ?k l) = None"
    "lock_list_link (locks ?k l) = None" "priority (threads ?k ?t) \<le> ceiling_priority (locks ?k l)"
    "ceiling_priority (locks ?k l) = c"
    using assms by (simp_all add: lockable_def Let_def)
  note a = acquire_scoped_lock_ok(1) [OF u(1-6), of e] acquire_scoped_lock_ok(2) [OF u(1-6)]
  have r: "reprioritised ?k ?w" by (rule with_locks_reprioritised) simp
  have lock: "mutex_lock e l s = Inr (Finished () (s\<lparr>kern := unlocked ?w\<rparr>))"
    using a(1) quiescentD(4) [OF u(1)] unfolding mutex_lock_def by (intro kernel_call_stays) (simp_all add: raw_lock_def)
  have "locks_ok ?w" using acquired_locks_ok [OF u(2,4), of ?t] acquired_priority(1) [OF u(2,6)] by simp
  then have "locks_ok (unlocked ?w)" by (subst locks_ok_cong) simp_all
  moreover have "owner (locks ?w l) = Some (PThread ?t)" by (simp add: with_locks_def Let_def)
  moreover have pt: "tprio (threads ?w) ?t = c" using acquired_priority(3) [OF u(2,6)] u(7) by (simp add: tprio_def)
  moreover have "tprio (threads ?w) v \<le> c" if v: "v \<in> set (ready_queue ?k)" for v
  proof -
    have "v \<noteq> ?t" using inv_placed [OF quiescentD(1) [OF u(1)]] v by (auto simp: placed_def)
    then have "tprio (threads ?w) v = priority (threads ?k v)" using reprioritised_views(4) [OF r] by (simp add: tprio_def)
    then show ?thesis using assms v by (auto simp: lockable_def Let_def intro: order_trans)
  qed
  ultimately have "mutex_held l c ?k (unlocked ?w)" using a(2) by (simp add: mutex_held_def)
  moreover have w: "waits ?w = waits ?k" "waits (unlocked ?w) = waits ?w" by (simp_all add: waits_def)
  moreover have "waiters_ok d w (unlocked ?w) = waiters_ok d w ?k" for d w
    using waiters_ok_reprioritised [OF u(1) r w(1), of d w] by (simp add: waiters_ok_def waiter_ok_def)
  ultimately show ?thesis using lock by (intro exI [of _ "unlocked ?w"]) simp
qed

lemma mutex_held_woken:
  assumes h: "mutex_held l c k k1" and "woken_up w ts k1 k2" and "\<forall>t \<in> set ts. tprio (threads k1) t \<le> c"
  shows "mutex_held l c k k2"
proof -
  have "sched_frame k1 k2" using assms(2) by (simp add: woken_up_def)
  then have "locks_ok k2 = locks_ok k1" by (intro locks_ok_cong) (simp_all add: sched_frame_def)
  then show ?thesis using assms by (auto simp: mutex_held_def woken_up_def sched_frame_def)
qed

text \<open>
  Guard \<open>relock\<close> is \<open>lock\<close>, and a notification from inside the section wakes the first waiter and
  keeps the section.
\<close>

lemma relock_is_lock: "kernel_call (raw_guard_relock e l) = mutex_lock e l"
  by (rule ext) (simp add: mutex_lock_def kernel_call_def raw_guard_relock_def [abs_def] raw_lock_def [abs_def])

lemma waiters_below:
  assumes "waiters_ok c w k" and "take 1 (wait_queues k w) = map OfThread ts" and "t \<in> set ts"
  shows "tprio (threads k) t \<le> c"
proof -
  have "OfThread t \<in> set (take 1 (wait_queues k w))" using assms(2,3) by simp
  then show ?thesis using assms(1) in_set_takeD by (fastforce simp: waiters_ok_def waiter_ok_def)
qed

lemma notify_in_section:
  assumes h: "mutex_held l c k (kern s)" and free: "queue_borrow s w = 0" and ok: "waiters_ok c w (kern s)"
  shows "\<exists>ts k'. take 1 (wait_queues (kern s) w) = map OfThread ts \<and> woken_up w ts (kern s) k'
     \<and> notify_one e c w s = Inr (Finished () (s\<lparr>kern := k'\<rparr>)) \<and> mutex_held l c k k'"
proof -
  have "quiescent (kern s)" "\<forall>u. OfThread u \<in> set (take 1 (wait_queues (kern s) w))
        \<longrightarrow> tprio (threads (kern s)) u \<le> tprio (threads (kern s)) (current_thread (kern s))"
    "\<forall>u \<in> set (ready_queue (kern s)). tprio (threads (kern s)) u \<le> tprio (threads (kern s)) (current_thread (kern s))"
    using h ok by (auto simp: mutex_held_def waiters_ok_def waiter_ok_def dest!: in_set_takeD)
  from notify_stays [OF this(1) free ok this(2,3), of e] obtain ts k' where ts:
    "take 1 (wait_queues (kern s) w) = map OfThread ts" "woken_up w ts (kern s) k'"
    "notify_one e c w s = Inr (Finished () (s\<lparr>kern := k'\<rparr>))" by blast
  moreover have "mutex_held l c k k'" using mutex_held_woken [OF h ts(2)] waiters_below [OF ok ts(1)] by blast
  ultimately show ?thesis by blast
qed

text \<open>A short critical section: the thread locks, changes the data and unlocks, and goes on.\<close>

definition restored :: "kernel \<Rightarrow> kernel \<Rightarrow> bool" where
  "restored k k' \<longleftrightarrow>
     quiescent k' \<and> sched_frame k k' \<and> current_thread k' = current_thread k
   \<and> ready_queue k' = ready_queue k \<and> blocked_list k' = blocked_list k \<and> waits k' = waits k"

lemma sched_frame_thread:
  assumes "sched_frame k k'"
  shows "thread_id (threads k' t) = thread_id (threads k t)" "priority (threads k' t) = priority (threads k t)"
    "locks_ok k' = locks_ok k" "locks k' = locks k" "idle_thread k' = idle_thread k"
  using assms locks_ok_cong [of k' k] by (simp_all add: sched_frame_def tid_def tprio_def fun_eq_iff)

lemma restored_lockable:
  assumes "restored k k'"
  shows "quiescent k \<Longrightarrow> lockable l c k' = lockable l c k" "waiters_ok d w k' = waiters_ok d w k"
proof -
  have fr: "sched_frame k k'" "current_thread k' = current_thread k" "ready_queue k' = ready_queue k"
    "blocked_list k' = blocked_list k" "wait_queues k' = wait_queues k" "quiescent k'"
    using assms by (simp_all add: restored_def waits_def)
  then show "quiescent k \<Longrightarrow> lockable l c k' = lockable l c k"
    by (simp add: lockable_def sched_frame_thread [OF fr(1)])
  show "waiters_ok d w k' = waiters_ok d w k"
    using fr by (simp add: waiters_ok_def waiter_ok_def sched_frame_def)
qed

lemma mutex_section:
  fixes s :: "'t sync"
  assumes "lockable l c (kern s)"
  shows "\<exists>k k'. mutex_lock e l s = Inr (Finished () (s\<lparr>kern := k\<rparr>)) \<and> \<not> in_interrupt k
     \<and> (\<forall>g. mutex_unlock e l (s\<lparr>kern := k, guarded := g\<rparr>) = Inr (Finished () (s\<lparr>kern := k', guarded := g\<rparr>)))
     \<and> restored (kern s) k'"
proof -
  let ?k = "kern s" and ?t = "current_thread (kern s)"
  let ?ls = "scoped_locks (threads ?k ?t)"
  let ?w = "unlocked (with_locks ?t (l # ?ls) l (Some (PThread ?t)) ?k)"
  let ?r = "with_locks ?t ?ls l None ?w"
  have u: "quiescent ?k" "locks_ok ?k" "thread_id (threads ?k ?t) \<noteq> IDLE_THREAD_ID" "owner (locks ?k l) = None"
    "lock_list_link (locks ?k l) = None" "priority (threads ?k ?t) \<le> ceiling_priority (locks ?k l)"
    and top: "\<forall>v \<in> set (ready_queue ?k). priority (threads ?k v) \<le> priority (threads ?k ?t)"
    using assms by (simp_all add: lockable_def Let_def)
  note a = acquire_scoped_lock_ok(1) [OF u(1-6), of e] acquire_scoped_lock_ok(2) [OF u(1-6)]
  have lock: "mutex_lock e l s = Inr (Finished () (s\<lparr>kern := ?w\<rparr>))"
    using a(1) quiescentD(4) [OF u(1)] unfolding mutex_lock_def by (intro kernel_call_stays) (simp_all add: raw_lock_def)
  obtain k0 where "mutex_lock e l s = Inr (Finished () (s\<lparr>kern := k0\<rparr>))" "mutex_held l c ?k k0"
    using mutex_lock_ok [OF assms, of e] by blast
  then have h: "mutex_held l c ?k ?w" using lock by (metis Inr_inject run.inject(1) sync.ext_inject sync.surjective sync.update_convs(1))
  have hp: "held_priority ?ls ?w = held_priority ?ls ?k" by (rule held_priority_cong) (simp add: with_locks_def Let_def)
  have th: "theld (threads ?r) = theld (threads ?k)"
    using locks_okD(3) [OF u(2), of ?t] hp by (auto simp: theld_def with_locks_def Let_def fun_eq_iff prod_eq_iff)
  have lk: "locks ?r = locks ?k" using u(4,5) by (auto simp: with_locks_def Let_def fun_eq_iff)
  have ids: "tid (threads ?r) = tid (threads ?k)" "tstack (threads ?r) = tstack (threads ?k)"
    by (auto simp: with_locks_def Let_def view_defs)
  have fr: "sched_frame ?k ?r" using th theld_priorities [OF th] lk ids by (simp add: sched_frame_def)
  have "remove1 l (scoped_locks (threads ?w ?t)) = ?ls" by (simp add: with_locks_def Let_def)
  with h obtain k' where k': "release_scoped_lock e l ?w = Inr k'" "quiescent k'" "reconsidered (now e) ?r k'"
    using release_scoped_lock_ok [of ?w l e] by (auto simp: mutex_held_def)
  have "\<not> (\<exists>v \<in> set (ready_queue ?r). tprio (threads ?r) (current_thread ?r) < tprio (threads ?r) v)"
    using top fr by (auto simp: sched_frame_def tprio_def not_less)
  then have eq: "k' = unlocked ?r" using k'(3) by (simp add: reconsidered_def del: with_locks_simps)
  have un: "mutex_unlock e l (s\<lparr>kern := ?w, guarded := g\<rparr>) = Inr (Finished () (s\<lparr>kern := k', guarded := g\<rparr>))" for g
    using k'(1) eq quiescentD(4) [OF a(2)] kernel_call_stays [of "raw_guard_unlock e l" "s\<lparr>kern := ?w, guarded := g\<rparr>" k']
    by (simp add: mutex_unlock_def raw_guard_unlock_def)
  have "restored ?k k'" using k'(2) fr eq by (simp add: restored_def sched_frame_def waits_def)
  moreover have "\<not> in_interrupt ?w" using quiescentD(4) [OF a(2)] by (simp add: in_interrupt_def)
  ultimately show ?thesis using lock un by blast
qed

lemma wait_while_false:
  assumes "\<not> in_interrupt (kern s)" and "\<not> b (guarded s)" and "0 < n"
  shows "wait_while n e c w l (\<lambda>f. (b f, f)) s = Inr (Finished () s)"
  using assms by (cases n) (simp_all add: wait_while_def)

end
