(* ===== verification/Ring_Buffer.thy ===== *)
theory Ring_Buffer
  imports Fifo_Queue Cells
begin

text \<open>
  The ring buffer of the channels (\<open>FIFO\<close> of \<open>sync/channel.rs\<close>), a provider of the FIFO queue
  interface. A slot that is not initialised, or whose item was moved out, is \<open>None\<close>. The indices
  stay below the capacity, so they are natural numbers.
\<close>

section \<open>Operations\<close>

record 't fifo =
  head :: nat
  tail :: nat
  used :: nat
  slots :: "'t option list"

definition push_to_slice :: "'t \<Rightarrow> 't fifo \<Rightarrow> (bool \<times> 't fifo) res" where
  "push_to_slice item f =
     (if used f = length (slots f) then Inr (False, f)
      else if head f < length (slots f) then
        Inr (True, f\<lparr>slots := (slots f)[head f := Some item], head := (head f + 1) mod length (slots f),
          used := used f + 1\<rparr>)
      else Inl IndexOutOfBounds)"

definition pop_from_slice :: "'t fifo \<Rightarrow> ('t option \<times> 't fifo) res" where
  "pop_from_slice f =
     (if used f = 0 then Inr (None, f)
      else if tail f < length (slots f) then
        bind_res (assume_init (slots f ! tail f)) (\<lambda>item.
          Inr (Some item, f\<lparr>slots := (slots f)[tail f := None], tail := (tail f + 1) mod length (slots f),
            used := used f - 1\<rparr>))
      else Inl IndexOutOfBounds)"

definition fifo_new :: "nat \<Rightarrow> 't fifo" where
  "fifo_new CAPACITY = \<lparr>head = 0, tail = 0, used = 0, slots = replicate CAPACITY None\<rparr>"

definition fifo_push :: "'t \<Rightarrow> 't fifo \<Rightarrow> (bool \<times> 't fifo) res" where
  "fifo_push item f = push_to_slice item f"

definition fifo_pop :: "'t fifo \<Rightarrow> ('t option \<times> 't fifo) res" where
  "fifo_pop f = pop_from_slice f"

definition fifo_capacity :: "'t fifo \<Rightarrow> nat" where
  "fifo_capacity f = length (slots f)"

definition fifo_used :: "'t fifo \<Rightarrow> nat" where
  "fifo_used f = used f"

definition fifo_free :: "'t fifo \<Rightarrow> nat" where
  "fifo_free f = length (slots f) - used f"

definition fifo_is_empty :: "'t fifo \<Rightarrow> bool" where
  "fifo_is_empty f \<longleftrightarrow> used f = 0"

definition fifo_is_full :: "'t fifo \<Rightarrow> bool" where
  "fifo_is_full f \<longleftrightarrow> used f = length (slots f)"

text \<open>\<open>Drop\<close>: pop until nothing is left.\<close>

partial_function (option) fifo_drop :: "'t fifo \<Rightarrow> 't fifo res option" where
  [code]: "fifo_drop f =
     (case fifo_pop f of
        Inl e \<Rightarrow> Some (Inl e) | Inr (Some _, f1) \<Rightarrow> fifo_drop f1 | Inr (None, f1) \<Rightarrow> Some (Inr f1))"

section \<open>Contents\<close>

definition fifo_rel :: "'t fifo \<Rightarrow> 't list \<Rightarrow> bool" where
  "fifo_rel f xs \<longleftrightarrow>
     length xs = used f \<and> used f \<le> length (slots f)
   \<and> (0 < length (slots f) \<longrightarrow> tail f < length (slots f) \<and> head f = (tail f + used f) mod length (slots f))
   \<and> (\<forall>i < used f. slots f ! ((tail f + i) mod length (slots f)) = Some (xs ! i))"

lemma ring_distinct:
  assumes "i < u" and "u < (n :: nat)"
  shows "(t + i) mod n \<noteq> (t + u) mod n"
proof
  assume "(t + i) mod n = (t + u) mod n"
  then have "n dvd (t + u) - (t + i)" using assms(1) by (metis mod_eq_dvd_iff_nat add_le_mono1 less_imp_le_nat add.commute)
  then show False using assms by (simp add: nat_dvd_not_less)
qed

lemma fifo_new_rel: "fifo_rel (fifo_new n) []"
  by (simp add: fifo_rel_def fifo_new_def)

lemma fifo_push_rel:
  assumes rel: "fifo_rel f xs" and room: "\<not> fifo_is_full f"
  shows "\<exists>f'. fifo_push x f = Inr (True, f') \<and> fifo_rel f' (xs @ [x]) \<and> length (slots f') = length (slots f)"
proof -
  let ?n = "length (slots f)" and ?u = "used f" and ?t = "tail f"
  have lt: "?u < ?n" using rel room by (simp add: fifo_rel_def fifo_is_full_def)
  have h: "?t < ?n" "head f = (?t + ?u) mod ?n" "length xs = ?u" using rel lt by (auto simp: fifo_rel_def)
  have hb: "(?t + ?u) mod ?n < ?n" using h(1) by (intro mod_less_divisor) linarith
  let ?f = "f\<lparr>slots := (slots f)[head f := Some x], head := (head f + 1) mod ?n, used := ?u + 1\<rparr>"
  have "slots ?f ! ((?t + i) mod ?n) = Some ((xs @ [x]) ! i)" if i: "i < ?u + 1" for i
  proof (cases "i = ?u")
    case True
    then show ?thesis using hb h(2,3) by (simp add: nth_append)
  next
    case False
    then have "i < ?u" using i by simp
    then have "(?t + i) mod ?n \<noteq> head f" "slots f ! ((?t + i) mod ?n) = Some (xs ! i)"
      using ring_distinct [OF _ lt, of i ?t] rel h(2) by (simp_all add: fifo_rel_def)
    then show ?thesis using \<open>i < ?u\<close> h(3) by (simp add: nth_append)
  qed
  moreover have "(head f + 1) mod ?n = (?t + (?u + 1)) mod ?n" using h(2) by (simp add: mod_simps)
  ultimately have "fifo_rel ?f (xs @ [x])" using h lt by (simp add: fifo_rel_def)
  moreover have "fifo_push x f = Inr (True, ?f)" using lt h hb by (simp add: fifo_push_def push_to_slice_def)
  ultimately show ?thesis by (intro exI [of _ ?f]) simp
qed

lemma fifo_pop_rel:
  assumes rel: "fifo_rel f xs"
  shows "\<exists>f'. fifo_pop f = Inr (first_opt xs, f') \<and> fifo_rel f' (tl xs) \<and> length (slots f') = length (slots f)"
proof (cases xs)
  case Nil
  then show ?thesis using rel by (simp add: fifo_pop_def pop_from_slice_def fifo_rel_def)
next
  case (Cons x ys)
  let ?n = "length (slots f)" and ?u = "used f" and ?t = "tail f"
  have u: "0 < ?u" "?u \<le> ?n" "?t < ?n" "head f = (?t + ?u) mod ?n" using rel Cons by (auto simp: fifo_rel_def)
  have at: "slots f ! ((?t + i) mod ?n) = Some (xs ! i)" if "i < ?u" for i using rel that by (simp add: fifo_rel_def)
  let ?f = "f\<lparr>slots := (slots f)[?t := None], tail := (?t + 1) mod ?n, used := ?u - 1\<rparr>"
  have "slots ?f ! ((tail ?f + i) mod ?n) = Some (ys ! i)" if "i < ?u - 1" for i
  proof -
    have "i + 1 < ?n" using that u(2) by simp
    from ring_distinct [OF _ this, of 0 ?t] have "(?t + (i + 1)) mod ?n \<noteq> ?t" using u(3) by simp
    moreover have "(tail ?f + i) mod ?n = (?t + (i + 1)) mod ?n" by (simp add: mod_simps)
    ultimately show ?thesis using at [of "i + 1"] that Cons by simp
  qed
  moreover have "(?t + ?u) mod ?n = ((?t + 1) mod ?n + (?u - 1)) mod ?n"
  proof -
    have "?t + ?u = (?t + 1) + (?u - 1)" using u(1) by simp
    then show ?thesis by (metis mod_add_left_eq)
  qed
  ultimately have "fifo_rel ?f ys" using rel u Cons by (auto simp: fifo_rel_def)
  moreover have "fifo_pop f = Inr (Some x, ?f)"
    using at [of 0] u Cons by (simp add: fifo_pop_def pop_from_slice_def assume_init_def)
  ultimately show ?thesis using Cons by (intro exI [of _ ?f]) simp
qed

definition fifo_enq :: "'t \<Rightarrow> 't fifo \<Rightarrow> 't fifo res" where
  "fifo_enq x f = bind_res (fifo_push x f) (\<lambda>(_, f1). Inr f1)"

interpretation ring: fifo_queue fifo_rel "\<lambda>_ f. \<not> fifo_is_full f" fifo_enq fifo_pop
proof unfold_locales
  fix q :: "'a fifo" and xs x
  assume "fifo_rel q xs" and "\<not> fifo_is_full q"
  from fifo_push_rel [OF this, of x] show "\<exists>q'. fifo_enq x q = Inr q' \<and> fifo_rel q' (xs @ [x])"
    by (auto simp: fifo_enq_def)
next
  fix q :: "'a fifo" and xs
  assume "fifo_rel q xs"
  from fifo_pop_rel [OF this] show "\<exists>q'. fifo_pop q = Inr (first_opt xs, q') \<and> fifo_rel q' (tl xs)" by blast
qed

lemma fifo_drop_empties:
  "fifo_rel f xs \<Longrightarrow> \<exists>f'. fifo_drop f = Some (Inr f') \<and> fifo_rel f' []"
proof (induction xs arbitrary: f)
  case Nil
  from fifo_pop_rel [OF Nil] show ?case by (subst fifo_drop.simps) auto
next
  case (Cons x xs)
  from fifo_pop_rel [OF Cons.prems] obtain f1 where "fifo_pop f = Inr (Some x, f1)" "fifo_rel f1 xs" by auto
  with Cons.IH [of f1] show ?case by (subst fifo_drop.simps) auto
qed

section \<open>Properties\<close>

text \<open>
  The ring buffer refines a bounded queue: it holds at most its capacity, refuses an item exactly
  when it is full and is then unchanged, otherwise appends it; it gives the oldest item, nothing
  exactly when it is empty; no slot is read before it is written; the counts are those of the
  contents, and dropping the buffer empties it.
\<close>

theorem ring_buffer_refines_queue:
  assumes "fifo_rel f xs"
  shows "length xs \<le> fifo_capacity f \<and> fifo_used f = length xs \<and> fifo_free f = fifo_capacity f - length xs
   \<and> (fifo_is_empty f \<longleftrightarrow> xs = []) \<and> (fifo_is_full f \<longleftrightarrow> length xs = fifo_capacity f)
   \<and> (\<exists>ok f'. fifo_push x f = Inr (ok, f') \<and> ok = (length xs < fifo_capacity f)
        \<and> fifo_rel f' (if ok then xs @ [x] else xs) \<and> fifo_capacity f' = fifo_capacity f)
   \<and> (\<exists>f'. fifo_pop f = Inr (first_opt xs, f') \<and> fifo_rel f' (tl xs) \<and> fifo_capacity f' = fifo_capacity f)
   \<and> (\<exists>f'. fifo_drop f = Some (Inr f') \<and> fifo_is_empty f')"
proof -
  have u: "length xs = used f" "used f \<le> length (slots f)" using assms by (simp_all add: fifo_rel_def)
  have push: "\<exists>ok f'. fifo_push x f = Inr (ok, f') \<and> ok = (length xs < fifo_capacity f)
      \<and> fifo_rel f' (if ok then xs @ [x] else xs) \<and> fifo_capacity f' = fifo_capacity f"
  proof (cases "fifo_is_full f")
    case True
    then have "fifo_push x f = Inr (False, f)" by (simp add: fifo_push_def push_to_slice_def fifo_is_full_def)
    then show ?thesis using assms u True
      by (intro exI [of _ False] exI [of _ f]) (simp add: fifo_is_full_def fifo_capacity_def)
  next
    case False
    then show ?thesis using fifo_push_rel [OF assms False, of x] u by (auto simp: fifo_is_full_def fifo_capacity_def)
  qed
  have "\<exists>f'. fifo_drop f = Some (Inr f') \<and> fifo_is_empty f'"
    using fifo_drop_empties [OF assms] by (auto simp: fifo_rel_def fifo_is_empty_def)
  moreover have "used f = 0 \<longleftrightarrow> xs = []" using u(1) by auto
  ultimately show ?thesis using u push fifo_pop_rel [OF assms]
    by (simp add: fifo_capacity_def fifo_used_def fifo_free_def fifo_is_empty_def fifo_is_full_def)
qed

theorem ring_buffer_refines_queue_witness:
  "\<exists>f'. fifo_push True (fifo_new 2) = Inr (True, f') \<and> fifo_rel f' [True]"
  using ring_buffer_refines_queue [OF fifo_new_rel, of 2 True] by (auto simp: fifo_capacity_def fifo_new_def)

end
