(* ===== verification/Channel.thy ===== *)
theory Channel
  imports Mutex_Section Ring_Buffer
begin

text \<open>
  Channels (\<open>sync/channel.rs\<close>): a ring buffer in a mutex, with a condition variable for the
  receivers and one for the senders. The ring buffer is the data that the mutex protects.
\<close>

section \<open>Operations\<close>

datatype try_recv_error = Empty
datatype 't try_send_error = Full 't

text \<open>The lock of the mutex and the queues of the condition variables, all with one ceiling.\<close>

record channel =
  ch_lock :: lptr
  receivers :: wptr
  senders :: wptr
  CEILING :: priority

definition ch_new :: "nat \<Rightarrow> bool \<times> 't fifo" where
  "ch_new CAPACITY = (False, fifo_new CAPACITY)"

text \<open>
  The common end of the receiving operations, with the mutex locked: take an item, notify a sender,
  unlock the mutex as the guard goes out of scope.
\<close>

definition ch_take :: "env \<Rightarrow> channel \<Rightarrow> 't fifo sync \<Rightarrow> ('t fifo sync, 't) run res" where
  "ch_take e ch s =
     bind_res (fifo_pop (guarded s)) (\<lambda>(popped_item, f).
     case popped_item of
       None \<Rightarrow> Inl (Panic ''called Option::unwrap() on a None value'')
     | Some item \<Rightarrow>
         then_run (cv_notify_one e (CEILING ch) (senders ch) (s\<lparr>guarded := f\<rparr>)) (\<lambda>_ s1.
         then_run (mutex_unlock e (ch_lock ch) s1) (\<lambda>_ s2. Inr (Finished item s2))))"

definition ch_try_recv :: "env \<Rightarrow> channel \<Rightarrow> 't fifo sync \<Rightarrow> ('t fifo sync, try_recv_error + 't) run res" where
  "ch_try_recv e ch s =
     then_run (mutex_lock e (ch_lock ch) s) (\<lambda>_ s1.
     if fifo_is_empty (guarded s1)
     then then_run (mutex_unlock e (ch_lock ch) s1) (\<lambda>_ s2. Inr (Finished (Inl Empty) s2))
     else then_run (ch_take e ch s1) (\<lambda>item s2. Inr (Finished (Inr item) s2)))"

definition ch_recv :: "nat \<Rightarrow> env \<Rightarrow> channel \<Rightarrow> 't fifo sync \<Rightarrow> ('t fifo sync, 't) run res" where
  "ch_recv n e ch s =
     then_run (mutex_lock e (ch_lock ch) s) (\<lambda>_ s1.
     then_run (wait_while n e (CEILING ch) (receivers ch) (ch_lock ch) (\<lambda>f. (fifo_is_empty f, f)) s1) (\<lambda>_ s2.
     ch_take e ch s2))"

text \<open>The common end of the sending operations. The result of the push is not looked at.\<close>

definition ch_put :: "env \<Rightarrow> channel \<Rightarrow> 't \<Rightarrow> 't fifo sync \<Rightarrow> ('t fifo sync, unit) run res" where
  "ch_put e ch item s =
     bind_res (fifo_push item (guarded s)) (\<lambda>(_, f).
       then_run (cv_notify_one e (CEILING ch) (receivers ch) (s\<lparr>guarded := f\<rparr>)) (\<lambda>_ s1.
       then_run (mutex_unlock e (ch_lock ch) s1) (\<lambda>_ s2. Inr (Finished () s2))))"

definition ch_send :: "nat \<Rightarrow> env \<Rightarrow> channel \<Rightarrow> 't \<Rightarrow> 't fifo sync \<Rightarrow> ('t fifo sync, unit) run res" where
  "ch_send n e ch item s =
     then_run (mutex_lock e (ch_lock ch) s) (\<lambda>_ s1.
     then_run (wait_while n e (CEILING ch) (senders ch) (ch_lock ch) (\<lambda>f. (fifo_is_full f, f)) s1) (\<lambda>_ s2.
     ch_put e ch item s2))"

definition ch_try_send ::
  "env \<Rightarrow> channel \<Rightarrow> 't \<Rightarrow> 't fifo sync \<Rightarrow> ('t fifo sync, 't try_send_error + unit) run res" where
  "ch_try_send e ch item s =
     then_run (mutex_lock e (ch_lock ch) s) (\<lambda>_ s1.
     if fifo_is_full (guarded s1)
     then then_run (mutex_unlock e (ch_lock ch) s1) (\<lambda>_ s2. Inr (Finished (Inl (Full item)) s2))
     else then_run (ch_put e ch item s1) (\<lambda>_ s2. Inr (Finished (Inr ()) s2)))"

definition ch_capacity :: "'t fifo sync \<Rightarrow> nat" where
  "ch_capacity s = fifo_capacity (guarded s)"

definition ch_query :: "('t fifo \<Rightarrow> nat) \<Rightarrow> env \<Rightarrow> channel \<Rightarrow> 't fifo sync \<Rightarrow> ('t fifo sync, nat) run res" where
  "ch_query q e ch s =
     then_run (mutex_lock e (ch_lock ch) s) (\<lambda>_ s1.
     then_run (mutex_unlock e (ch_lock ch) s1) (\<lambda>_ s2. Inr (Finished (q (guarded s1)) s2)))"

definition ch_free :: "env \<Rightarrow> channel \<Rightarrow> 't fifo sync \<Rightarrow> ('t fifo sync, nat) run res" where
  "ch_free = ch_query fifo_free"

definition ch_used :: "env \<Rightarrow> channel \<Rightarrow> 't fifo sync \<Rightarrow> ('t fifo sync, nat) run res" where
  "ch_used = ch_query fifo_used"

text \<open>The flag that keeps the receiver unique.\<close>

definition ch_receiver :: "bool \<Rightarrow> bool res" where
  "ch_receiver receiver_acquired =
     (case atomic_compare_exchange receiver_acquired False True of
        (Inr _, cell) \<Rightarrow> Inr cell | (Inl _, _) \<Rightarrow> Inl (Panic ''Receiver already acquired''))"

definition receiver_drop :: "bool \<Rightarrow> bool" where
  "receiver_drop _ = False"

section \<open>Using a channel\<close>

text \<open>
  A thread may use the channel: it can lock the mutex, the queues are not borrowed, and their
  waiters are covered by the ceiling.
\<close>

definition usable :: "channel \<Rightarrow> 't fifo sync \<Rightarrow> bool" where
  "usable ch s \<longleftrightarrow>
     lockable (ch_lock ch) (CEILING ch) (kern s)
   \<and> (\<forall>w \<in> {receivers ch, senders ch}. queue_borrow s w = 0 \<and> waiters_ok (CEILING ch) w (kern s))"

text \<open>
  \<open>ch_done ch w ws s xs r run\<close>: an operation is over. The mutex is free, the channel holds \<open>xs\<close>,
  the waiters \<open>ws\<close> of the queue \<open>w\<close> have been woken, the result is \<open>r\<close>, at once unless a more
  urgent thread runs.
\<close>

definition ch_done ::
  "channel \<Rightarrow> wptr \<Rightarrow> sptr list \<Rightarrow> 't fifo sync \<Rightarrow> 't list \<Rightarrow> 'a \<Rightarrow> ('t fifo sync, 'a) run \<Rightarrow> bool" where
  "ch_done ch w ws s xs r run \<longleftrightarrow>
     (let k = kern s; k' = kern (run_state run) in
        quiescent k' \<and> no_inversion k' \<and> owner (locks k' (ch_lock ch)) = None
      \<and> fifo_rel (guarded (run_state run)) xs \<and> fifo_capacity (guarded (run_state run)) = fifo_capacity (guarded s)
      \<and> wait_queues k' = (wait_queues k)(w := drop (length ws) (wait_queues k w))
      \<and> (\<forall>t. OfThread t \<in> set ws \<longrightarrow> t \<in> runnable k') \<and> queue_borrow (run_state run) = queue_borrow s
      \<and> returns r run \<and> (current_thread k' = current_thread k \<longrightarrow> finished_with r run))"

lemma mutex_unlock_ok:
  assumes h: "mutex_held (ch_lock ch) (CEILING ch) (kern s) k2" and w: "wait_queues k2 = (wait_queues (kern s))(w := drop (length ws) (wait_queues (kern s) w))"
    and ws: "\<forall>t. OfThread t \<in> set ws \<longrightarrow> t \<in> runnable k2"
    and f: "fifo_rel f xs" "fifo_capacity f = fifo_capacity (guarded s)"
  shows "\<exists>run. then_run (mutex_unlock e (ch_lock ch) (s\<lparr>guarded := f, kern := k2\<rparr>)) (\<lambda>_ s2. Inr (Finished r s2)) = Inr run
     \<and> ch_done ch w ws s xs r run"
proof -
  let ?l = "ch_lock ch" and ?t = "current_thread (kern s)"
  have k2: "quiescent k2" "locks_ok k2" "current_thread k2 = ?t" "owner (locks k2 ?l) = Some (PThread (current_thread k2))"
    using h by (simp_all add: mutex_held_def)
  let ?w = "with_locks ?t (remove1 ?l (scoped_locks (threads k2 ?t))) ?l None k2"
  obtain k' where k': "release_scoped_lock e ?l k2 = Inr k'" "quiescent k'" "no_inversion k'" "reconsidered (now e) ?w k'"
    using release_scoped_lock_ok [OF k2(1,2,4), of e] k2(3) by auto
  obtain run where run: "then_run (mutex_unlock e ?l (s\<lparr>guarded := f, kern := k2\<rparr>)) (\<lambda>_ s2. Inr (Finished r s2)) = Inr run"
    "run_state run = s\<lparr>guarded := f, kern := k'\<rparr>" "returns r run" "current_thread k' = ?t \<longrightarrow> finished_with r run"
    using then_kernel_call [where f = "raw_guard_unlock e ?l", of "s\<lparr>guarded := f, kern := k2\<rparr>" k' r] k'(1) k2(3)
    by (auto simp: mutex_unlock_def raw_guard_unlock_def)
  have "owner (locks k' ?l) = None" using reconsidered_frame(2) [OF k'(4)] by (simp add: with_locks_def Let_def)
  moreover have "wait_queues k' = wait_queues k2" "runnable k2 \<subseteq> runnable k'"
    using reconsidered_waits [OF k'(4)] k2(3) by (simp_all add: waits_def runnable_def)
  ultimately have "ch_done ch w ws s xs r run" using k' run w ws f by (auto simp: ch_done_def Let_def)
  with run(1) show ?thesis by blast
qed

lemma notify_unlock_ok:
  assumes u: "usable ch s" and h: "mutex_held (ch_lock ch) (CEILING ch) (kern s) k" and w: "w \<in> {receivers ch, senders ch}"
    and k: "waits k = waits (kern s)" "waiters_ok (CEILING ch) w k"
    and f: "fifo_rel f xs" "fifo_capacity f = fifo_capacity (guarded s)"
  shows "\<exists>run. then_run (cv_notify_one e (CEILING ch) w (s\<lparr>kern := k, guarded := f\<rparr>)) (\<lambda>_ s1.
         then_run (mutex_unlock e (ch_lock ch) s1) (\<lambda>_ s2. Inr (Finished r s2))) = Inr run
     \<and> ch_done ch w (take 1 (wait_queues (kern s) w)) s xs r run"
proof -
  let ?s = "s\<lparr>kern := k, guarded := f\<rparr>"
  have wq: "wait_queues k = wait_queues (kern s)" using k(1) by (simp add: waits_def)
  have pre: "queue_borrow ?s w = 0" "mutex_held (ch_lock ch) (CEILING ch) (kern s) (kern ?s)" "waiters_ok (CEILING ch) w (kern ?s)"
    using u w h k(2) by (auto simp: usable_def)
  obtain ts k2 where ts: "take 1 (wait_queues k w) = map OfThread ts" "woken_up w ts k k2"
    "notify_one e (CEILING ch) w ?s = Inr (Finished () (?s\<lparr>kern := k2\<rparr>))" "mutex_held (ch_lock ch) (CEILING ch) (kern s) k2"
    using notify_in_section [OF pre(2,1,3), of e] by auto
  have "wait_queues k2 = (wait_queues (kern s))(w := drop (length (map OfThread ts)) (wait_queues (kern s) w))"
    "\<forall>t. OfThread t \<in> set (map OfThread ts) \<longrightarrow> t \<in> runnable k2"
    using ts(2) wq by (auto simp: woken_up_def runnable_def)
  from mutex_unlock_ok [OF ts(4) this f, of e r] ts(1,3) wq show ?thesis
    by (simp add: cv_notify_one_def)
qed

lemma ch_put_ok:
  assumes u: "usable ch s" and h: "mutex_held (ch_lock ch) (CEILING ch) (kern s) k" and k: "waits k = waits (kern s)" "waiters_ok (CEILING ch) (receivers ch) k"
    and f: "fifo_rel (guarded s) xs" "length xs < fifo_capacity (guarded s)"
  shows "\<exists>run. ch_put e ch v (s\<lparr>kern := k\<rparr>) = Inr run
     \<and> ch_done ch (receivers ch) (take 1 (wait_queues (kern s) (receivers ch))) s (xs @ [v]) () run"
proof -
  have "\<not> fifo_is_full (guarded s)" using f by (simp add: fifo_is_full_def fifo_rel_def fifo_capacity_def)
  then obtain f' where f': "fifo_push v (guarded s) = Inr (True, f')" "fifo_rel f' (xs @ [v])"
    "fifo_capacity f' = fifo_capacity (guarded s)"
    using fifo_push_rel [OF f(1), of v] by (auto simp: fifo_capacity_def)
  show ?thesis using notify_unlock_ok [OF u h _ k f'(2,3), of e "()"] f'(1) by (simp add: ch_put_def)
qed

lemma ch_take_ok:
  assumes u: "usable ch s" and h: "mutex_held (ch_lock ch) (CEILING ch) (kern s) k" and k: "waits k = waits (kern s)" "waiters_ok (CEILING ch) (senders ch) k"
    and f: "fifo_rel (guarded s) (x # xs)"
  shows "\<exists>run. ch_take e ch (s\<lparr>kern := k\<rparr>) = Inr run
     \<and> ch_done ch (senders ch) (take 1 (wait_queues (kern s) (senders ch))) s xs x run"
proof -
  obtain f' where f': "fifo_pop (guarded s) = Inr (Some x, f')" "fifo_rel f' xs" "fifo_capacity f' = fifo_capacity (guarded s)"
    using fifo_pop_rel [OF f] by (auto simp: fifo_capacity_def)
  show ?thesis using notify_unlock_ok [OF u h _ k f'(2,3), of e x] f'(1) by (simp add: ch_take_def)
qed

lemma ch_done_map:
  assumes "m = Inr run" and "ch_done ch w ws s xs r run"
  shows "\<exists>run'. then_run m (\<lambda>a s. Inr (Finished (g a) s)) = Inr run' \<and> ch_done ch w ws s xs (g r) run'"
proof -
  have "returns r run" using assms(2) by (simp add: ch_done_def Let_def)
  from then_returns [OF assms(1) this, of g] assms(2) show ?thesis by (auto simp: ch_done_def Let_def)
qed

lemma unlock_unchanged:
  assumes "mutex_held (ch_lock ch) (CEILING ch) (kern s) k" and "waits k = waits (kern s)" and "fifo_rel (guarded s) xs"
  shows "\<exists>run. then_run (mutex_unlock e (ch_lock ch) (s\<lparr>kern := k\<rparr>)) (\<lambda>_ s2. Inr (Finished r s2)) = Inr run
     \<and> ch_done ch w [] s xs r run"
proof -
  have "s\<lparr>guarded := guarded s, kern := k\<rparr> = s\<lparr>kern := k\<rparr>" by simp
  moreover have "wait_queues k = (wait_queues (kern s))(w := drop (length []) (wait_queues (kern s) w))"
    using assms(2) by (simp add: waits_def)
  ultimately show ?thesis
    using mutex_unlock_ok [where ws = "[]" and f = "guarded s" and r = r and e = e, OF assms(1) _ _ assms(3) refl] by simp
qed

section \<open>Properties\<close>

text \<open>
  Claim C23. A channel is a bounded first-in first-out queue. \<open>try_send\<close> appends the item or gives it back
  when the channel is full, \<open>try_recv\<close> takes the oldest item or says that there is none, \<open>send\<close>
  and \<open>recv\<close> do the same when they need not wait; after a transfer the first waiting thread of the
  other side is runnable. In every case the mutex is free afterwards, the result is returned, and a
  thread that was woken and is more urgent runs.
\<close>

theorem channel_refines_queue:
  assumes "usable ch s" and "fifo_rel (guarded s) xs" and "0 < n"
  shows "(\<exists>run. ch_try_send e ch v s = Inr run
      \<and> (if length xs < fifo_capacity (guarded s)
         then ch_done ch (receivers ch) (take 1 (wait_queues (kern s) (receivers ch))) s (xs @ [v]) (Inr ()) run
         else ch_done ch (receivers ch) [] s xs (Inl (Full v)) run))
     \<and> (\<exists>run. ch_try_recv e ch s = Inr run
      \<and> (case xs of
           [] \<Rightarrow> ch_done ch (senders ch) [] s [] (Inl Empty) run
         | x # ys \<Rightarrow> ch_done ch (senders ch) (take 1 (wait_queues (kern s) (senders ch))) s ys (Inr x) run))
     \<and> (length xs < fifo_capacity (guarded s) \<longrightarrow> (\<exists>run. ch_send n e ch v s = Inr run
      \<and> ch_done ch (receivers ch) (take 1 (wait_queues (kern s) (receivers ch))) s (xs @ [v]) () run))
     \<and> (xs \<noteq> [] \<longrightarrow> (\<exists>run. ch_recv n e ch s = Inr run
      \<and> ch_done ch (senders ch) (take 1 (wait_queues (kern s) (senders ch))) s (tl xs) (hd xs) run))"
proof (intro conjI impI)
  obtain k where lock: "mutex_lock e (ch_lock ch) s = Inr (Finished () (s\<lparr>kern := k\<rparr>))" and h: "mutex_held (ch_lock ch) (CEILING ch) (kern s) k"
    and k: "waits k = waits (kern s)" "waiters_ok (CEILING ch) (receivers ch) k" "waiters_ok (CEILING ch) (senders ch) k"
    using mutex_lock_ok [of "ch_lock ch" "CEILING ch" s e] assms(1) by (auto simp: usable_def)
  have fe: "fifo_is_full (guarded s) \<longleftrightarrow> \<not> length xs < fifo_capacity (guarded s)" "fifo_is_empty (guarded s) \<longleftrightarrow> xs = []"
    using assms(2) by (auto simp: fifo_is_full_def fifo_is_empty_def fifo_rel_def fifo_capacity_def)
  have ni: "\<not> in_interrupt k" using h quiescentD(4) [of k] by (simp add: mutex_held_def in_interrupt_def)
  show "\<exists>run. ch_try_send e ch v s = Inr run
      \<and> (if length xs < fifo_capacity (guarded s)
         then ch_done ch (receivers ch) (take 1 (wait_queues (kern s) (receivers ch))) s (xs @ [v]) (Inr ()) run
         else ch_done ch (receivers ch) [] s xs (Inl (Full v)) run)"
  proof (cases "length xs < fifo_capacity (guarded s)")
    case True
    from ch_put_ok [OF assms(1) h k(1,2) assms(2) True, of e v] obtain run where run: "ch_put e ch v (s\<lparr>kern := k\<rparr>) = Inr run"
      "ch_done ch (receivers ch) (take 1 (wait_queues (kern s) (receivers ch))) s (xs @ [v]) () run" by blast
    with True fe lock ch_done_map [where g = "\<lambda>_. Inr ()", OF run] show ?thesis by (simp add: ch_try_send_def)
  next
    case False
    with fe lock unlock_unchanged [OF h k(1) assms(2), of e "Inl (Full v)"] show ?thesis by (simp add: ch_try_send_def)
  qed
  show "\<exists>run. ch_try_recv e ch s = Inr run
      \<and> (case xs of
           [] \<Rightarrow> ch_done ch (senders ch) [] s [] (Inl Empty) run
         | x # ys \<Rightarrow> ch_done ch (senders ch) (take 1 (wait_queues (kern s) (senders ch))) s ys (Inr x) run)"
  proof (cases xs)
    case Nil
    with fe lock unlock_unchanged [OF h k(1) assms(2), of e "Inl Empty"] show ?thesis by (simp add: ch_try_recv_def)
  next
    case (Cons x ys)
    obtain run where run: "ch_take e ch (s\<lparr>kern := k\<rparr>) = Inr run"
      "ch_done ch (senders ch) (take 1 (wait_queues (kern s) (senders ch))) s ys x run"
      using ch_take_ok [OF assms(1) h k(1,3)] assms(2) Cons by blast
    with Cons fe lock ch_done_map [where g = Inr, OF run] show ?thesis by (simp add: ch_try_recv_def)
  qed
  show "\<exists>run. ch_send n e ch v s = Inr run
      \<and> ch_done ch (receivers ch) (take 1 (wait_queues (kern s) (receivers ch))) s (xs @ [v]) () run"
    if "length xs < fifo_capacity (guarded s)"
    using ch_put_ok [OF assms(1) h k(1,2) assms(2) that, of e v] that fe lock
      wait_while_false [of "s\<lparr>kern := k\<rparr>" fifo_is_full n, OF _ _ assms(3)] ni by (simp add: ch_send_def)
  show "\<exists>run. ch_recv n e ch s = Inr run
      \<and> ch_done ch (senders ch) (take 1 (wait_queues (kern s) (senders ch))) s (tl xs) (hd xs) run" if "xs \<noteq> []"
    using ch_take_ok [OF assms(1) h k(1,3), of "hd xs" "tl xs" e] that assms(2) fe lock
      wait_while_false [of "s\<lparr>kern := k\<rparr>" fifo_is_empty n, OF _ _ assms(3)] ni by (simp add: ch_recv_def)
qed

definition sample_channel :: channel where
  "sample_channel = \<lparr>ch_lock = 1, receivers = 7, senders = 8, CEILING = Thread 9\<rparr>"

definition sample_channel_state :: "bool fifo sync" where
  "sample_channel_state =
     \<lparr>kern = sample_quiet\<lparr>wait_queues := (\<lambda>_. [])(7 := [OfThread 3])\<rparr>, queue_borrow = \<lambda>_. 0, guarded = fifo_new 2\<rparr>"

lemma sample_channel_usable: "usable sample_channel sample_channel_state"
proof -
  let ?k = "sample_quiet\<lparr>wait_queues := (\<lambda>_. [])(7 := [OfThread 3])\<rparr>"
  have "locks_ok ?k" using sample_quiet_locks locks_ok_cong [of ?k sample_quiet] by simp
  moreover have "priority (threads sample_quiet 3) = Thread 9" "priority (threads sample_quiet 2) = Thread 2"
    "blocked_list sample_quiet = [3]" "ready_queue sample_quiet = [2]" "current_thread sample_quiet = 1"
    by (simp_all add: sample_quiet_def sample_kernel_def sample_thread_def raw_thread_new_def priority_defs max_valid_priority)
  ultimately show ?thesis
    using sample_quiet_quiescent sample_quiet_lock_facts
    by (simp add: usable_def lockable_def Let_def sample_channel_def sample_channel_state_def waiters_ok_def waiter_ok_def tprio_def)
qed

theorem channel_refines_queue_witness:
  "\<exists>run. ch_try_send (sample_env 0) sample_channel True sample_channel_state = Inr run
     \<and> fifo_rel (guarded (run_state run)) [True] \<and> 3 \<in> runnable (kern (run_state run))"
proof -
  have rel: "fifo_rel (guarded sample_channel_state) []" "fifo_capacity (guarded sample_channel_state) = 2"
    "wait_queues (kern sample_channel_state) (receivers sample_channel) = [OfThread 3]"
    by (simp_all add: sample_channel_state_def sample_channel_def fifo_new_rel) (simp add: fifo_capacity_def fifo_new_def)
  then obtain run where "ch_try_send (sample_env 0) sample_channel True sample_channel_state = Inr run"
    "ch_done sample_channel (receivers sample_channel) [OfThread 3] sample_channel_state [True] (Inr ()) run"
    using channel_refines_queue [where n = 3, OF sample_channel_usable rel(1), of "sample_env 0" True] by auto
  then show ?thesis by (auto simp: ch_done_def Let_def)
qed

end
