(* ===== verification/Rendezvous.thy ===== *)
theory Rendezvous
  imports Mutex_Section
begin

text \<open>
  Rendezvous (\<open>sync/rendezvous.rs\<close>): one thread leaves an argument and waits for the result,
  another waits for the argument, computes the result and leaves it. The argument and the result are
  in mutexes of their own, with one condition variable for both threads. Shared values
  (\<open>sync/shared.rs\<close>) are references to a mutex.
\<close>

section \<open>Operations\<close>

text \<open>
  The locks of the two mutexes, the queue of the condition variable and the ceiling of all three.
  The protected data are the pair of the argument and the result.
\<close>

record rendezvous =
  arg_lock :: lptr
  result_lock :: lptr
  waiter :: wptr
  rv_CEILING :: priority

type_synonym ('a, 'r) rv_sync = "('a option \<times> 'r option) sync"

definition rv_new :: "'a option \<times> 'r option" where
  "rv_new = (None, None)"

text \<open>The two ends hold the same reference.\<close>

definition rv_split :: "rendezvous \<Rightarrow> rendezvous \<times> rendezvous" where
  "rv_split rv = (rv, rv)"

text \<open>\<open>entry\<close>: provide the argument and notify, then wait for the result. \<open>n\<close> bounds the waits.\<close>

definition rv_collect :: "nat \<Rightarrow> env \<Rightarrow> rendezvous \<Rightarrow> ('a, 'r) rv_sync \<Rightarrow> (('a, 'r) rv_sync, 'r) run res" where
  "rv_collect n e rv s =
     then_run (mutex_lock e (result_lock rv) s) (\<lambda>_ s1.
     then_run (wait_while n e (rv_CEILING rv) (waiter rv) (result_lock rv) (\<lambda>d. (snd d = None, d)) s1) (\<lambda>_ s2.
     case snd (guard_deref s2) of
       None \<Rightarrow> Inl (Panic ''called Option::unwrap() on a None value'')
     | Some result \<Rightarrow>
         then_run (mutex_unlock e (result_lock rv) (guard_deref_mut (\<lambda>d. (fst d, None)) s2)) (\<lambda>_ s3.
         Inr (Finished result s3))))"

definition rv_entry ::
  "nat \<Rightarrow> env \<Rightarrow> rendezvous \<Rightarrow> 'a \<Rightarrow> ('a, 'r) rv_sync \<Rightarrow> (('a, 'r) rv_sync, 'r) run res" where
  "rv_entry n e rv arg s =
     then_run (mutex_lock e (arg_lock rv) s) (\<lambda>_ s1.
     then_run (mutex_unlock e (arg_lock rv) (guard_deref_mut (\<lambda>d. (Some arg, snd d)) s1)) (\<lambda>_ s2.
     then_run (cv_notify_one e (rv_CEILING rv) (waiter rv) s2) (\<lambda>_ s3.
     rv_collect n e rv s3)))"

text \<open>\<open>accept\<close>. The closure is code of the caller, which may use the kernel.\<close>

definition rv_respond :: "env \<Rightarrow> rendezvous \<Rightarrow> 'r \<Rightarrow> ('a, 'r) rv_sync \<Rightarrow> (('a, 'r) rv_sync, unit) run res" where
  "rv_respond e rv result s =
     then_run (mutex_lock e (result_lock rv) s) (\<lambda>_ s1.
     then_run (mutex_unlock e (result_lock rv) (guard_deref_mut (\<lambda>d. (fst d, Some result)) s1)) (\<lambda>_ s2.
     cv_notify_one e (rv_CEILING rv) (waiter rv) s2))"

definition rv_accept ::
  "nat \<Rightarrow> env \<Rightarrow> rendezvous \<Rightarrow> ('a \<Rightarrow> ('a, 'r) rv_sync \<Rightarrow> (('a, 'r) rv_sync, 'r) run res)
     \<Rightarrow> ('a, 'r) rv_sync \<Rightarrow> (('a, 'r) rv_sync, unit) run res" where
  "rv_accept n e rv closure s =
     then_run (mutex_lock e (arg_lock rv) s) (\<lambda>_ s1.
     then_run (wait_while n e (rv_CEILING rv) (waiter rv) (arg_lock rv) (\<lambda>d. (fst d = None, d)) s1) (\<lambda>_ s2.
     case fst (guard_deref s2) of
       None \<Rightarrow> Inl (Panic ''called Option::unwrap() on a None value'')
     | Some arg \<Rightarrow>
         then_run (mutex_unlock e (arg_lock rv) (guard_deref_mut (\<lambda>d. (None, snd d)) s2)) (\<lambda>_ s3.
         then_run (closure arg s3) (\<lambda>result s4.
         rv_respond e rv result s4))))"

subsection \<open>Shared values\<close>

definition shared_new :: "lptr \<Rightarrow> lptr" where
  "shared_new shared = shared"

definition shared_deref :: "lptr \<Rightarrow> lptr" where
  "shared_deref shared = shared"

section \<open>Using a rendezvous\<close>

text \<open>
  The running thread can lock both mutexes, the queue is not borrowed and its waiters are covered by
  the ceiling.
\<close>

definition rv_usable :: "rendezvous \<Rightarrow> ('a, 'r) rv_sync \<Rightarrow> bool" where
  "rv_usable rv s \<longleftrightarrow>
     lockable (arg_lock rv) (rv_CEILING rv) (kern s) \<and> lockable (result_lock rv) (rv_CEILING rv) (kern s)
   \<and> queue_borrow s (waiter rv) = 0 \<and> waiters_ok (rv_CEILING rv) (waiter rv) (kern s)"

lemma rv_usable_restored:
  assumes "rv_usable rv s" and "restored (kern s) k"
  shows "rv_usable rv (s\<lparr>kern := k, guarded := d\<rparr>)"
  using assms restored_lockable [OF assms(2)] by (simp add: rv_usable_def lockable_def Let_def)

lemma lockable_quiescent: "lockable l c k \<Longrightarrow> quiescent k"
  by (simp add: lockable_def Let_def)

text \<open>A result that is there is taken at once.\<close>

lemma collect_result:
  assumes l: "lockable (result_lock rv) (rv_CEILING rv) (kern s)" and d: "guarded s = (x, Some r)" and n: "0 < n"
  shows "\<exists>k. rv_collect n e rv s = Inr (Finished r (s\<lparr>kern := k, guarded := (x, None)\<rparr>)) \<and> restored (kern s) k"
proof -
  obtain k k' where k: "mutex_lock e (result_lock rv) s = Inr (Finished () (s\<lparr>kern := k\<rparr>))" "\<not> in_interrupt k"
    "\<And>g. mutex_unlock e (result_lock rv) (s\<lparr>kern := k, guarded := g\<rparr>) = Inr (Finished () (s\<lparr>kern := k', guarded := g\<rparr>))"
    "restored (kern s) k'"
    using mutex_section [OF l, of e] by blast
  have "wait_while n e (rv_CEILING rv) (waiter rv) (result_lock rv) (\<lambda>d. (snd d = None, d)) (s\<lparr>kern := k\<rparr>)
      = Inr (Finished () (s\<lparr>kern := k\<rparr>))"
    using wait_while_false [of "s\<lparr>kern := k\<rparr>" "\<lambda>d. snd d = None" n e] k(2) d n by simp
  with k d show ?thesis by (intro exI [of _ k']) (simp add: rv_collect_def guard_deref_def guard_deref_mut_def)
qed

text \<open>
  Without a result the caller unlocks the mutex and blocks on the condition variable; when it runs
  again it collects the result from the start.
\<close>

lemma collect_waits:
  assumes l: "lockable (result_lock rv) (rv_CEILING rv) (kern s)" and d: "guarded s = (x, None)"
    and t: "t = current_thread (kern s)" "t \<noteq> idle_thread (kern s)" "wait_link (suspendables (kern s) (OfThread t)) = None"
  shows "\<exists>k0 k rest. rv_collect (Suc n) e rv s = Inr (Preempted (s\<lparr>kern := k, guarded := (x, None)\<rparr>) rest)
     \<and> restored (kern s) k0 \<and> blocked_on None k0 k \<and> quiescent k \<and> OfThread t \<in> set (wait_queues k (waiter rv))
     \<and> (\<forall>s3. lockable (result_lock rv) (rv_CEILING rv) (kern s3) \<longrightarrow> rest s3 = rv_collect n e rv s3)"
proof -
  let ?l = "result_lock rv" and ?c = "rv_CEILING rv" and ?w = "waiter rv" and ?b = "\<lambda>d :: 'a option \<times> 'b option. (snd d = None, d)"
  obtain k1 k0 where k: "mutex_lock e ?l s = Inr (Finished () (s\<lparr>kern := k1\<rparr>))" "\<not> in_interrupt k1"
    "\<And>g. mutex_unlock e ?l (s\<lparr>kern := k1, guarded := g\<rparr>) = Inr (Finished () (s\<lparr>kern := k0, guarded := g\<rparr>))"
    "restored (kern s) k0"
    using mutex_section [OF l, of e] by blast
  let ?s0 = "s\<lparr>kern := k0, guarded := (x, None)\<rparr>"
  have un: "kernel_call (raw_guard_unlock e ?l) (s\<lparr>kern := k1, guarded := (x, None)\<rparr>) = Inr (Finished () ?s0)"
    using k(3) [of "(x, None)"] by (simp add: mutex_unlock_def)
  have q: "quiescent (kern ?s0)" "t = current_thread (kern ?s0)" "t \<noteq> idle_thread (kern ?s0)"
    "wait_link (suspendables (kern ?s0) (OfThread t)) = None"
    using k(4) t by (simp_all add: restored_def sched_frame_def waits_def fun_eq_iff)
  obtain k2 rest where w: "then_run (wq_wait e ?c ?w ?s0) (\<lambda>_. kernel_call (raw_guard_relock e ?l))
      = Inr (Preempted (?s0\<lparr>kern := k2\<rparr>) rest)" "\<forall>s1. rest s1 = mutex_lock e ?l s1"
    "quiescent k2" "blocked_on None k0 k2" "OfThread t \<in> set (wait_queues k2 ?w)"
    using wq_wait_blocks [OF q, of e ?c ?w "\<lambda>_. kernel_call (raw_guard_relock e ?l)"] by (auto simp: relock_is_lock)
  have "rv_collect (Suc n) e rv s = Inr (Preempted (?s0\<lparr>kern := k2\<rparr>) (\<lambda>s3.
      then_run (then_run (mutex_lock e ?l s3) (\<lambda>_ s4. wait_while_loop n e ?c ?w ?l ?b s4)) (\<lambda>_ s2.
        case snd (guard_deref s2) of
          None \<Rightarrow> Inl (Panic ''called Option::unwrap() on a None value'')
        | Some result \<Rightarrow> then_run (mutex_unlock e ?l (guard_deref_mut (\<lambda>d. (fst d, None)) s2)) (\<lambda>_ s3.
            Inr (Finished result s3)))))" (is "_ = Inr (Preempted _ ?rest)")
    using k(1,2) d un w(1,2)
    by (simp add: rv_collect_def wait_while_def cv_wait_def wait_lock_def then_run_Preempted)
  moreover have "?rest s3 = rv_collect n e rv s3" if s3: "lockable ?l ?c (kern s3)" for s3
  proof -
    obtain k3 where "mutex_lock e ?l s3 = Inr (Finished () (s3\<lparr>kern := k3\<rparr>))" "\<not> in_interrupt k3"
      using mutex_section [OF s3, of e] by blast
    then show ?thesis by (simp add: rv_collect_def wait_while_def)
  qed
  moreover have "?s0\<lparr>kern := k2\<rparr> = s\<lparr>kern := k2, guarded := (x, None)\<rparr>" by simp
  ultimately show ?thesis using w(3-5) k(4) by (intro exI [of _ k0] exI [of _ k2] exI [of _ ?rest]) simp
qed

text \<open>The notification of a response, from the state before the section.\<close>

lemma notified_restored:
  assumes "restored (kern s) k" and "notified w ws (s\<lparr>kern := k, guarded := d\<rparr>) run"
  shows "notified w ws (s\<lparr>guarded := d\<rparr>) run"
  using assms by (simp add: notified_def restored_def sched_frame_def waits_def Let_def)

lemma respond_ok:
  assumes u: "rv_usable rv s"
  shows "\<exists>run. rv_respond e rv r s = Inr run
     \<and> notified (waiter rv) (take 1 (wait_queues (kern s) (waiter rv))) (s\<lparr>guarded := (fst (guarded s), Some r)\<rparr>) run"
proof -
  have "lockable (result_lock rv) (rv_CEILING rv) (kern s)" using u by (simp add: rv_usable_def)
  from mutex_section [OF this, of e] obtain k k' where
    k: "mutex_lock e (result_lock rv) s = Inr (Finished () (s\<lparr>kern := k\<rparr>))"
    "\<And>g. mutex_unlock e (result_lock rv) (s\<lparr>kern := k, guarded := g\<rparr>) = Inr (Finished () (s\<lparr>kern := k', guarded := g\<rparr>))"
    "restored (kern s) k'" by blast
  let ?s = "s\<lparr>kern := k', guarded := (fst (guarded s), Some r)\<rparr>"
  have "rv_usable rv ?s" by (rule rv_usable_restored [OF u k(3)])
  then obtain run where "notify_one e (rv_CEILING rv) (waiter rv) ?s = Inr run"
    "notified (waiter rv) (take 1 (wait_queues (kern ?s) (waiter rv))) ?s run"
    using notify_one_ok [of ?s "waiter rv" "rv_CEILING rv" e] by (auto simp: rv_usable_def lockable_def Let_def)
  moreover have "wait_queues k' = wait_queues (kern s)" using k(3) by (simp add: restored_def waits_def)
  ultimately show ?thesis
    using k notified_restored [OF k(3)] by (simp add: rv_respond_def guard_deref_mut_def cv_notify_one_def)
qed

lemma accept_argument:
  assumes u: "rv_usable rv s" and d: "guarded s = (Some a, x)" and n: "0 < n"
    and f: "\<And>s1. closure a s1 = Inr (Finished (f a) s1)"
  shows "\<exists>run. rv_accept n e rv closure s = Inr run
     \<and> notified (waiter rv) (take 1 (wait_queues (kern s) (waiter rv))) (s\<lparr>guarded := (None, Some (f a))\<rparr>) run"
proof -
  have "lockable (arg_lock rv) (rv_CEILING rv) (kern s)" using u by (simp add: rv_usable_def)
  from mutex_section [OF this, of e] obtain k k' where
    k: "mutex_lock e (arg_lock rv) s = Inr (Finished () (s\<lparr>kern := k\<rparr>))" "\<not> in_interrupt k"
    "\<And>g. mutex_unlock e (arg_lock rv) (s\<lparr>kern := k, guarded := g\<rparr>) = Inr (Finished () (s\<lparr>kern := k', guarded := g\<rparr>))"
    "restored (kern s) k'" by blast
  let ?s = "s\<lparr>kern := k', guarded := (None, x)\<rparr>"
  have u': "rv_usable rv ?s" by (rule rv_usable_restored [OF u k(4)])
  from respond_ok [OF u', of e "f a"] obtain run where run: "rv_respond e rv (f a) ?s = Inr run"
    "notified (waiter rv) (take 1 (wait_queues k' (waiter rv))) (s\<lparr>kern := k', guarded := (None, Some (f a))\<rparr>) run" by auto
  have "wait_while n e (rv_CEILING rv) (waiter rv) (arg_lock rv) (\<lambda>d. (fst d = None, d)) (s\<lparr>kern := k\<rparr>)
      = Inr (Finished () (s\<lparr>kern := k\<rparr>))"
    using wait_while_false [of "s\<lparr>kern := k\<rparr>" "\<lambda>d. fst d = None" n e] k(2) d n by simp
  then have "rv_accept n e rv closure s = Inr run"
    using k(1,3) d f run(1) by (simp add: rv_accept_def guard_deref_def guard_deref_mut_def)
  moreover have "wait_queues k' = wait_queues (kern s)" using k(4) by (simp add: restored_def waits_def)
  ultimately show ?thesis using notified_restored [OF k(4)] run(2) by auto
qed

text \<open>Waking a thread that is not more urgent, between sections.\<close>

lemma woken_up_restored:
  assumes "restored k k1" and "woken_up w ts k1 k2" and "restored k2 k3"
  shows "woken_up w ts k k3"
proof -
  have "sched_frame k k3" using assms by (auto simp: restored_def woken_up_def intro: sched_frame_trans)
  moreover have "wait_queues k1 = wait_queues k" "wait_queues k3 = wait_queues k2"
    "\<And>x. wait_link (suspendables k1 x) = wait_link (suspendables k x)"
    "\<And>x. wait_link (suspendables k3 x) = wait_link (suspendables k2 x)"
    using assms(1,3) by (simp_all add: restored_def waits_def fun_eq_iff)
  ultimately show ?thesis using assms by (simp add: restored_def woken_up_def)
qed

lemma woken_up_lockable:
  assumes "lockable l c k" and "woken_up w ts k k'" and "\<forall>u \<in> set ts. priority (threads k u) \<le> priority (threads k (current_thread k))"
  shows "lockable l c k'"
proof -
  have fr: "sched_frame k k'" "current_thread k' = current_thread k" "set (ready_queue k') = set (ready_queue k) \<union> set ts" "quiescent k'"
    using assms(2) by (simp_all add: woken_up_def)
  then show ?thesis using assms(1,3) by (auto simp: lockable_def Let_def sched_frame_thread [OF fr(1)])
qed

lemma post_argument:
  assumes u: "rv_usable rv s"
    and le: "\<forall>v. OfThread v \<in> set (take 1 (wait_queues (kern s) (waiter rv)))
        \<longrightarrow> priority (threads (kern s) v) \<le> priority (threads (kern s) (current_thread (kern s)))"
  shows "\<exists>ts k1 k2. take 1 (wait_queues (kern s) (waiter rv)) = map OfThread ts
     \<and> restored (kern s) k1 \<and> woken_up (waiter rv) ts k1 k2 \<and> lockable (result_lock rv) (rv_CEILING rv) k2
     \<and> rv_entry n e rv a s = rv_collect n e rv (s\<lparr>kern := k2, guarded := (Some a, snd (guarded s))\<rparr>)"
proof -
  let ?c = "rv_CEILING rv" and ?w = "waiter rv"
  have l: "lockable (arg_lock rv) ?c (kern s)" "lockable (result_lock rv) ?c (kern s)" using u by (simp_all add: rv_usable_def)
  from mutex_section [OF l(1), of e] obtain k k1 where
    k: "mutex_lock e (arg_lock rv) s = Inr (Finished () (s\<lparr>kern := k\<rparr>))"
    "\<And>g. mutex_unlock e (arg_lock rv) (s\<lparr>kern := k, guarded := g\<rparr>) = Inr (Finished () (s\<lparr>kern := k1, guarded := g\<rparr>))"
    "restored (kern s) k1" by blast
  let ?s1 = "s\<lparr>kern := k1, guarded := (Some a, snd (guarded s))\<rparr>"
  have u1: "rv_usable rv ?s1" by (rule rv_usable_restored [OF u k(3)])
  have fr: "sched_frame (kern s) k1" "current_thread k1 = current_thread (kern s)" "wait_queues k1 = wait_queues (kern s)"
    using k(3) by (simp_all add: restored_def waits_def)
  have below: "\<forall>v. OfThread v \<in> set (take 1 (wait_queues (kern ?s1) ?w))
        \<longrightarrow> tprio (threads (kern ?s1)) v \<le> tprio (threads (kern ?s1)) (current_thread (kern ?s1))"
    using le fr by (simp add: sched_frame_def tprio_def fun_eq_iff)
  have pre: "quiescent (kern ?s1)" "queue_borrow ?s1 ?w = 0" "waiters_ok ?c ?w (kern ?s1)"
    "\<forall>v \<in> set (ready_queue (kern ?s1)). tprio (threads (kern ?s1)) v \<le> tprio (threads (kern ?s1)) (current_thread (kern ?s1))"
    using u1 by (simp_all add: rv_usable_def lockable_def Let_def tprio_def)
  from notify_stays [OF pre(1-3) below pre(4), of e] obtain ts k2 where ts:
    "take 1 (wait_queues k1 ?w) = map OfThread ts" "woken_up ?w ts k1 k2"
    "notify_one e ?c ?w ?s1 = Inr (Finished () (?s1\<lparr>kern := k2\<rparr>))" by auto
  have "lockable (result_lock rv) ?c k1" using u1 by (simp add: rv_usable_def)
  from woken_up_lockable [OF this ts(2)] have "lockable (result_lock rv) ?c k2"
    using below ts(1) by (simp add: tprio_def)
  moreover have "rv_entry n e rv a s = rv_collect n e rv (?s1\<lparr>kern := k2\<rparr>)"
    using k(1,2) ts(3) by (simp add: rv_entry_def guard_deref_mut_def cv_notify_one_def)
  moreover have "?s1\<lparr>kern := k2\<rparr> = s\<lparr>kern := k2, guarded := (Some a, snd (guarded s))\<rparr>" by simp
  ultimately show ?thesis using ts(1,2) k(3) fr(3) by metis
qed

section \<open>Properties\<close>


definition sample_rendezvous :: rendezvous where
  "sample_rendezvous = \<lparr>arg_lock = 1, result_lock = 2, waiter = 7, rv_CEILING = Thread 9\<rparr>"

definition sample_rv_state :: "int option \<Rightarrow> int option \<Rightarrow> (int, int) rv_sync" where
  "sample_rv_state a r = \<lparr>kern = sample_quiet\<lparr>wait_queues := \<lambda>_. []\<rparr>, queue_borrow = \<lambda>_. 0, guarded = (a, r)\<rparr>"

lemma sample_rv_usable: "rv_usable sample_rendezvous (sample_rv_state a r)"
proof -
  let ?k = "sample_quiet\<lparr>wait_queues := \<lambda>_. []\<rparr>"
  have "locks_ok ?k" using sample_quiet_locks locks_ok_cong [of ?k sample_quiet] by simp
  moreover have "priority (threads sample_quiet 2) = Thread 2" "ready_queue sample_quiet = [2]" "current_thread sample_quiet = 1"
    "owner (locks sample_quiet 2) = None" "lock_list_link (locks sample_quiet 2) = None" "ceiling_priority (locks sample_quiet 2) = Thread 9"
    by (simp_all add: sample_quiet_def sample_kernel_def sample_thread_def raw_thread_new_def ceiling_lock_new_def
        priority_defs max_valid_priority)
  ultimately show ?thesis
    using sample_quiet_quiescent sample_quiet_lock_facts
    by (simp add: rv_usable_def lockable_def Let_def sample_rendezvous_def sample_rv_state_def waiters_ok_def)
qed


end
