(* ===== verification/Local_Storage.thy ===== *)
theory Local_Storage
  imports Kernel_Steps
begin

text \<open>
  Local storage (\<open>tls.rs\<close>): every thread and every interrupt handler may have an array of entries
  from a type to a pointer, in which the executors are found. Types are the numbers that \<open>TypeId\<close>
  gives them; a null pointer is \<open>None\<close>. The cells that own the values come from the package
  \<open>static_cell\<close>: taking or initialising one is a parameter of the operations.
\<close>

section \<open>The interface of a keyed store\<close>

text \<open>
  A store with a limited number of entries: \<open>contents\<close> is the map it represents, \<open>put\<close> adds an entry
  for a key that has none as long as there is room.
\<close>

locale keyed_store =
  fixes inv :: "'s \<Rightarrow> bool" and contents :: "'s \<Rightarrow> 'k \<Rightarrow> 'v option" and room :: "'s \<Rightarrow> bool"
    and get :: "'k \<Rightarrow> 's \<Rightarrow> 'v option res" and put :: "'k \<Rightarrow> 'v \<Rightarrow> 's \<Rightarrow> 's res" and remove :: "'k \<Rightarrow> 's \<Rightarrow> 's"
  assumes get_law: "inv s \<Longrightarrow> get k s = Inr (contents s k)"
    and put_law: "inv s \<Longrightarrow> contents s k = None \<Longrightarrow> room s \<Longrightarrow>
      \<exists>s'. put k v s = Inr s' \<and> inv s' \<and> contents s' = (contents s)(k \<mapsto> v)"
    and full_law: "\<not> room s \<Longrightarrow> \<exists>e. put k v s = Inl e"
    and remove_law: "inv s \<Longrightarrow> inv (remove k s) \<and> contents (remove k s) = (contents s)(k := None)"
begin

lemma put_get_remove:
  assumes "inv s" and "contents s k = None" and "room s"
  shows "\<exists>s'. put k v s = Inr s' \<and> inv s' \<and> get k s' = Inr (Some v)
     \<and> (\<forall>j. j \<noteq> k \<longrightarrow> get j s' = get j s) \<and> inv (remove k s') \<and> (\<forall>j. get j (remove k s') = get j s)"
proof -
  obtain s' where s': "put k v s = Inr s'" "inv s'" "contents s' = (contents s)(k \<mapsto> v)"
    using put_law [OF assms] by blast
  have "contents (remove k s') = contents s" using remove_law [OF s'(2), of k] s'(3) assms(2) by (auto simp: fun_eq_iff)
  then show ?thesis
    using s' assms(1) remove_law [OF s'(2), of k] by (intro exI [of _ s']) (simp add: get_law)
qed

end

section \<open>Operations\<close>

record local_storage_entry =
  entry_key :: "nat option"
  entry_value :: "nat option"

type_synonym local_storage = "local_storage_entry list"

definition INITIAL_ENTRY :: local_storage_entry where
  "INITIAL_ENTRY = \<lparr>entry_key = None, entry_value = None\<rparr>"

definition local_storage_array_new :: "nat \<Rightarrow> local_storage" where
  "local_storage_array_new N = replicate N INITIAL_ENTRY"

text \<open>The index of the first entry with the key.\<close>

fun find_entry :: "nat option \<Rightarrow> local_storage \<Rightarrow> nat option" where
  "find_entry key [] = None"
| "find_entry key (e # es) = (if entry_key e = key then Some 0 else map_option Suc (find_entry key es))"

definition remove_entry :: "nat \<Rightarrow> local_storage \<Rightarrow> local_storage" where
  "remove_entry key es =
     (case find_entry (Some key) es of
        Some i \<Rightarrow> es[i := \<lparr>entry_key = None, entry_value = None\<rparr>] | None \<Rightarrow> es)"

definition put_by_type_id :: "nat \<Rightarrow> nat \<Rightarrow> local_storage \<Rightarrow> local_storage res" where
  "put_by_type_id key value_ptr es =
     (case find_entry None es of
        None \<Rightarrow> Inl (Panic ''called Option::unwrap() on a None value'')
      | Some i \<Rightarrow> Inr (es[i := \<lparr>entry_key = Some key, entry_value = Some value_ptr\<rparr>]))"

text \<open>A reference made from a null pointer is a read of memory that is not there.\<close>

definition raw_get :: "nat \<Rightarrow> local_storage \<Rightarrow> nat option res" where
  "raw_get key es =
     (case find_entry (Some key) es of
        None \<Rightarrow> Inr None
      | Some i \<Rightarrow> (case entry_value (es ! i) of None \<Rightarrow> Inl UninitRead | Some p \<Rightarrow> Inr (Some p)))"

text \<open>
  \<open>raw_put\<close> and \<open>raw_put_init\<close>: \<open>take\<close> gives the pointer to the value in the cell \<open>c\<close>, once.
\<close>

definition raw_put :: "('c \<Rightarrow> (nat \<times> 'c) res) \<Rightarrow> nat \<Rightarrow> 'c \<Rightarrow> local_storage \<Rightarrow> ('c \<times> local_storage) res" where
  "raw_put take_cell key c es =
     bind_res (take_cell c) (\<lambda>(p, c1). bind_res (put_by_type_id key p es) (\<lambda>es1. Inr (c1, es1)))"

definition raw_put_with ::
  "('c \<Rightarrow> (nat \<times> 'c) res) \<Rightarrow> (nat \<Rightarrow> 'c \<Rightarrow> 'r \<times> 'c) \<Rightarrow> nat \<Rightarrow> 'c \<Rightarrow> local_storage
     \<Rightarrow> ('r \<times> 'c \<times> local_storage) res" where
  "raw_put_with take_cell on_put key c es =
     bind_res (take_cell c) (\<lambda>(p, c1).
       let (rval, c2) = on_put p c1 in
       bind_res (put_by_type_id key p es) (\<lambda>es1. Inr (rval, c2, es1)))"

definition raw_put_init ::
  "('t \<Rightarrow> 'c \<Rightarrow> (nat \<times> 'c) res) \<Rightarrow> nat \<Rightarrow> 't \<Rightarrow> 'c \<Rightarrow> local_storage \<Rightarrow> ('c \<times> local_storage) res" where
  "raw_put_init init_cell key val c es =
     bind_res (init_cell val c) (\<lambda>(p, c1). bind_res (put_by_type_id key p es) (\<lambda>es1. Inr (c1, es1)))"

text \<open>The variant that computes the value with a closure, once the cell is known to be free.\<close>

definition raw_put_init_with ::
  "((unit \<Rightarrow> 't) \<Rightarrow> 'c \<Rightarrow> (nat \<times> 'c) res) \<Rightarrow> nat \<Rightarrow> (unit \<Rightarrow> 't) \<Rightarrow> 'c \<Rightarrow> local_storage
     \<Rightarrow> ('c \<times> local_storage) res" where
  "raw_put_init_with init_with key init c es =
     bind_res (init_with init c) (\<lambda>(p, c1). bind_res (put_by_type_id key p es) (\<lambda>es1. Inr (c1, es1)))"

subsection \<open>The storage of the current context\<close>

record storages =
  thread_storage :: "tptr \<Rightarrow> local_storage option"
  interrupt_storage :: "iptr \<Rightarrow> local_storage option"

definition current_storage :: "kernel \<Rightarrow> storages \<Rightarrow> local_storage option" where
  "current_storage k st =
     (case current_execution_context k of
        InInterrupt i \<Rightarrow> interrupt_storage st i | InThread t \<Rightarrow> thread_storage st t)"

definition set_current_storage :: "kernel \<Rightarrow> local_storage \<Rightarrow> storages \<Rightarrow> storages" where
  "set_current_storage k es st =
     (case current_execution_context k of
        InInterrupt i \<Rightarrow> st\<lparr>interrupt_storage := (interrupt_storage st)(i \<mapsto> es)\<rparr>
      | InThread t \<Rightarrow> st\<lparr>thread_storage := (thread_storage st)(t \<mapsto> es)\<rparr>)"

definition tls_get :: "nat \<Rightarrow> kernel \<Rightarrow> storages \<Rightarrow> nat option res" where
  "tls_get key k st =
     (case current_storage k st of None \<Rightarrow> Inr None | Some es \<Rightarrow> raw_get key es)"

definition put_to_current_tls :: "nat \<Rightarrow> nat \<Rightarrow> kernel \<Rightarrow> storages \<Rightarrow> storages res" where
  "put_to_current_tls key value_ptr k st =
     (case current_storage k st of
        None \<Rightarrow> Inl (Panic (if in_interrupt k then ''Interrupt does not have local storage''
                           else ''Thread does not have local storage''))
      | Some es \<Rightarrow> bind_res (put_by_type_id key value_ptr es) (\<lambda>es1. Inr (set_current_storage k es1 st)))"

definition tls_put ::
  "('c \<Rightarrow> (nat \<times> 'c) res) \<Rightarrow> nat \<Rightarrow> 'c \<Rightarrow> kernel \<Rightarrow> storages \<Rightarrow> ('c \<times> storages) res" where
  "tls_put take_cell key c k st =
     bind_res (take_cell c) (\<lambda>(p, c1). bind_res (put_to_current_tls key p k st) (\<lambda>st1. Inr (c1, st1)))"

definition tls_put_with ::
  "('c \<Rightarrow> (nat \<times> 'c) res) \<Rightarrow> (nat \<Rightarrow> 'c \<Rightarrow> 'r \<times> 'c) \<Rightarrow> nat \<Rightarrow> 'c \<Rightarrow> kernel \<Rightarrow> storages
     \<Rightarrow> ('r \<times> 'c \<times> storages) res" where
  "tls_put_with take_cell on_put key c k st =
     bind_res (take_cell c) (\<lambda>(p, c1).
       let (rval, c2) = on_put p c1 in
       bind_res (put_to_current_tls key p k st) (\<lambda>st1. Inr (rval, c2, st1)))"

definition tls_put_init ::
  "('t \<Rightarrow> 'c \<Rightarrow> (nat \<times> 'c) res) \<Rightarrow> nat \<Rightarrow> 't \<Rightarrow> 'c \<Rightarrow> kernel \<Rightarrow> storages \<Rightarrow> ('c \<times> storages) res" where
  "tls_put_init init_cell key val c k st =
     bind_res (init_cell val c) (\<lambda>(p, c1). bind_res (put_to_current_tls key p k st) (\<lambda>st1. Inr (c1, st1)))"

definition tls_put_init_with ::
  "((unit \<Rightarrow> 't) \<Rightarrow> 'c \<Rightarrow> (nat \<times> 'c) res) \<Rightarrow> nat \<Rightarrow> (unit \<Rightarrow> 't) \<Rightarrow> 'c \<Rightarrow> kernel \<Rightarrow> storages
     \<Rightarrow> ('c \<times> storages) res" where
  "tls_put_init_with init_with key init c k st =
     bind_res (init_with init c) (\<lambda>(p, c1). bind_res (put_to_current_tls key p k st) (\<lambda>st1. Inr (c1, st1)))"

definition tls_remove :: "nat \<Rightarrow> kernel \<Rightarrow> storages \<Rightarrow> storages" where
  "tls_remove key k st =
     (case current_storage k st of None \<Rightarrow> st | Some es \<Rightarrow> set_current_storage k (remove_entry key es) st)"

text \<open>Dropping a cell removes the entry of its type.\<close>

definition local_cell_drop :: "nat \<Rightarrow> kernel \<Rightarrow> storages \<Rightarrow> storages" where
  "local_cell_drop key k st = tls_remove key k st"

text \<open>The storage of a thread or an interrupt handler can be set once; the builders panic when it is set again.\<close>

definition set_local_storage :: "tptr \<Rightarrow> local_storage \<Rightarrow> storages \<Rightarrow> storages res" where
  "set_local_storage t es st =
     (if thread_storage st t \<noteq> None then Inl (Panic ''TLS already set'')
      else Inr (st\<lparr>thread_storage := (thread_storage st)(t \<mapsto> es)\<rparr>))"

definition i_set_local_storage :: "iptr \<Rightarrow> local_storage \<Rightarrow> storages \<Rightarrow> storages res" where
  "i_set_local_storage i es st =
     (if interrupt_storage st i \<noteq> None then Inl (Panic ''Local storage already set for interrupt handler'')
      else Inr (st\<lparr>interrupt_storage := (interrupt_storage st)(i \<mapsto> es)\<rparr>))"

text \<open>
  The executor of a thread or of an interrupt handler is a value in its storage, with its own type;
  \<open>executor_new\<close> makes it from a reference to its owner.
\<close>

definition start_executor ::
  "((unit \<Rightarrow> 't) \<Rightarrow> 'c \<Rightarrow> (nat \<times> 'c) res) \<Rightarrow> (tptr \<Rightarrow> 't) \<Rightarrow> nat \<Rightarrow> 'c \<Rightarrow> tptr \<Rightarrow> storages
     \<Rightarrow> ('c \<times> storages) res" where
  "start_executor init_with executor_new executor_type c t st =
     (case thread_storage st t of
        None \<Rightarrow> Inl (Panic ''called Option::unwrap() on a None value'')
      | Some es \<Rightarrow>
          bind_res (raw_put_init_with init_with executor_type (\<lambda>_. executor_new t) c es) (\<lambda>(c1, es1).
            Inr (c1, st\<lparr>thread_storage := (thread_storage st)(t \<mapsto> es1)\<rparr>)))"

definition i_start_executor ::
  "((unit \<Rightarrow> 't) \<Rightarrow> 'c \<Rightarrow> (nat \<times> 'c) res) \<Rightarrow> (iptr \<Rightarrow> 't) \<Rightarrow> nat \<Rightarrow> 'c \<Rightarrow> iptr \<Rightarrow> storages
     \<Rightarrow> ('c \<times> storages) res" where
  "i_start_executor init_with executor_new executor_type c i st =
     (case interrupt_storage st i of
        None \<Rightarrow> Inl (Panic ''called Option::unwrap() on a None value'')
      | Some es \<Rightarrow>
          bind_res (raw_put_init_with init_with executor_type (\<lambda>_. executor_new i) c es) (\<lambda>(c1, es1).
            Inr (c1, st\<lparr>interrupt_storage := (interrupt_storage st)(i \<mapsto> es1)\<rparr>)))"

section \<open>The array is a keyed store\<close>

definition storage_ok :: "local_storage \<Rightarrow> bool" where
  "storage_ok es \<longleftrightarrow>
     distinct (filter (\<lambda>x. x \<noteq> None) (map entry_key es)) \<and> list_all (\<lambda>e. entry_key e = None \<longleftrightarrow> entry_value e = None) es"

fun storage_map :: "local_storage \<Rightarrow> nat \<Rightarrow> nat option" where
  "storage_map [] k = None"
| "storage_map (e # es) k = (if entry_key e = Some k then entry_value e else storage_map es k)"

definition has_room :: "local_storage \<Rightarrow> bool" where
  "has_room es \<longleftrightarrow> None \<in> entry_key ` set es"

lemma find_entry_None: "find_entry key es = None \<longleftrightarrow> key \<notin> entry_key ` set es"
  by (induction es) auto

lemma storage_map_None:
  "storage_ok es \<Longrightarrow> storage_map es k = None \<longleftrightarrow> Some k \<notin> entry_key ` set es"
  by (induction es) (auto simp: storage_ok_def)

lemma find_entry_get:
  "find_entry (Some k) es = Some i \<Longrightarrow> storage_map es k = entry_value (es ! i)"
  by (induction es arbitrary: i) (auto split: if_splits)

lemma find_entry_put:
  fixes v :: nat
  assumes "find_entry None es = Some i" and "storage_ok es" and "Some k \<notin> entry_key ` set es"
  defines "es' \<equiv> es[i := \<lparr>entry_key = Some k, entry_value = Some v\<rparr>]"
  shows "storage_ok es' \<and> storage_map es' = (storage_map es)(k \<mapsto> v) \<and> entry_key ` set es' \<subseteq> insert (Some k) (entry_key ` set es)"
  using assms(1-3) unfolding es'_def
proof (induction es arbitrary: i)
  case (Cons e es)
  show ?case
  proof (cases "entry_key e = None")
    case True
    then show ?thesis using Cons.prems by (auto simp: storage_ok_def fun_eq_iff)
  next
    case False
    then obtain j where j: "i = Suc j" "find_entry None es = Some j" using Cons.prems(1) by auto
    have ok: "storage_ok es" "Some k \<notin> entry_key ` set es" using Cons.prems(2,3) by (auto simp: storage_ok_def split: if_splits)
    note IH = Cons.IH [OF j(2) ok]
    have "entry_key e \<notin> entry_key ` set es" "entry_key e \<noteq> Some k"
      using Cons.prems(2,3) False by (auto simp: storage_ok_def)
    then have "entry_key e \<notin> entry_key ` set (es[j := \<lparr>entry_key = Some k, entry_value = Some v\<rparr>])" using IH by auto
    then show ?thesis using IH Cons.prems(2) False j(1) \<open>entry_key e \<noteq> Some k\<close>
      by (auto simp: storage_ok_def fun_eq_iff)
  qed
qed simp

lemma find_entry_remove:
  assumes "find_entry (Some k) es = Some i" and "storage_ok es"
  defines "es' \<equiv> es[i := \<lparr>entry_key = None, entry_value = None\<rparr>]"
  shows "storage_ok es' \<and> storage_map es' = (storage_map es)(k := None) \<and> entry_key ` set es' \<subseteq> insert None (entry_key ` set es)"
  using assms(1,2) unfolding es'_def
proof (induction es arbitrary: i)
  case (Cons e es)
  show ?case
  proof (cases "entry_key e = Some k")
    case True
    then have "Some k \<notin> entry_key ` set es" using Cons.prems(2) by (auto simp: storage_ok_def)
    then have "storage_map es k = None" using Cons.prems(2) storage_map_None [of es k] by (auto simp: storage_ok_def split: if_splits)
    then show ?thesis using Cons.prems True by (auto simp: storage_ok_def fun_eq_iff)
  next
    case False
    then obtain j where j: "i = Suc j" "find_entry (Some k) es = Some j" using Cons.prems(1) by auto
    have ok: "storage_ok es" using Cons.prems(2) by (auto simp: storage_ok_def split: if_splits)
    note IH = Cons.IH [OF j(2) ok]
    have "entry_key e \<notin> entry_key ` set (es[j := \<lparr>entry_key = None, entry_value = None\<rparr>])" if "entry_key e \<noteq> None"
      using IH Cons.prems(2) that by (auto simp: storage_ok_def)
    then show ?thesis using IH Cons.prems(2) False j(1) by (auto simp: storage_ok_def fun_eq_iff)
  qed
qed simp

interpretation tls: keyed_store storage_ok storage_map has_room raw_get put_by_type_id remove_entry
proof unfold_locales
  fix es k v
  show "raw_get k es = Inr (storage_map es k)" if ok: "storage_ok es"
  proof (cases "find_entry (Some k) es")
    case None
    then have "storage_map es k = None" using storage_map_None [OF ok, of k] find_entry_None [of "Some k" es] by simp
    with None show ?thesis by (simp add: raw_get_def)
  next
    case (Some i)
    then have "storage_map es k \<noteq> None" using storage_map_None [OF ok, of k] find_entry_None [of "Some k" es] by auto
    then show ?thesis using Some find_entry_get [OF Some] by (auto simp: raw_get_def)
  qed
  show "\<exists>es'. put_by_type_id k v es = Inr es' \<and> storage_ok es' \<and> storage_map es' = (storage_map es)(k \<mapsto> v)"
    if a: "storage_ok es" "storage_map es k = None" "has_room es"
  proof -
    obtain i where i: "find_entry None es = Some i" using a(3) find_entry_None [of None es] by (auto simp: has_room_def)
    then show ?thesis using find_entry_put [OF i a(1)] storage_map_None [OF a(1)] a(2) by (auto simp: put_by_type_id_def)
  qed
  show "\<exists>e. put_by_type_id k v es = Inl e" if "\<not> has_room es"
    using that find_entry_None [of None es] by (simp add: put_by_type_id_def has_room_def)
  show "storage_ok (remove_entry k es) \<and> storage_map (remove_entry k es) = (storage_map es)(k := None)" if ok: "storage_ok es"
  proof (cases "find_entry (Some k) es")
    case None
    then have "storage_map es k = None" using storage_map_None [OF ok, of k] find_entry_None [of "Some k" es] by simp
    with None ok show ?thesis by (auto simp: remove_entry_def fun_eq_iff)
  next
    case (Some i)
    then show ?thesis using find_entry_remove [OF Some ok] by (simp add: remove_entry_def)
  qed
qed

lemma current_storage_upd [simp]:
  "current_storage k (set_current_storage k es st) = Some es"
  by (simp add: current_storage_def set_current_storage_def split: execution_context.split)

lemma set_current_storage_other:
  assumes "current_execution_context k' \<noteq> current_execution_context k"
  shows "current_storage k' (set_current_storage k es st) = current_storage k' st"
  using assms by (auto simp: current_storage_def set_current_storage_def split: execution_context.split)

section \<open>Properties\<close>


definition sample_storages :: storages where
  "sample_storages = \<lparr>thread_storage = (\<lambda>_. None)(1 := Some (local_storage_array_new 2)), interrupt_storage = \<lambda>_. None\<rparr>"

text \<open>The cell is taken once: \<open>False\<close> means that it is still full.\<close>

definition sample_take :: "bool \<Rightarrow> (nat \<times> bool) res" where
  "sample_take taken = (if taken then Inl (Panic ''already taken'') else Inr (42, True))"


end
