(* ===== verification/Startup.thy ===== *)
theory Startup
  imports Kernel_Steps
begin

text \<open>
  From the first instruction of the kernel to the running system: building a thread
  (\<open>thread/builder.rs\<close>, \<open>thread/mod.rs\<close>, \<open>thread/reference.rs\<close>), the idle thread
  (\<open>kernel/idle.rs\<close>) and \<open>Scheduler::start\<close>. Shown: the state the scheduler starts from has the
  invariant of Kernel_Steps, and building and starting threads while the system runs keeps it.
\<close>

section \<open>Operations\<close>

text \<open>
  The kernel, whether the memory of the cell \<open>SCHEDULER\<close> may be read, and the next thread
  identifier. The cell is \<open>MaybeUninit\<close>: until it is written, the scheduler's fields of the kernel
  stand for uninitialised memory.
\<close>

record system =
  sys_kernel :: kernel
  SCHEDULER_readable :: bool
  NEXT_FREE_THREAD_ID :: u32

subsection \<open>Building a thread\<close>

text \<open>\<open>Thread::new\<close> puts the control block into its cell; \<open>Thread::init\<close> takes it out, once.\<close>

definition thread_new :: "string \<Rightarrow> priority \<Rightarrow> nat \<Rightarrow> raw_thread" where
  "thread_new nm PRIO closure_wrapper = raw_thread_new nm PRIO closure_wrapper"

record thread_builder =
  built_thread :: tptr
  builder_stack :: stack_ref

definition thread_handle_init ::
  "('c \<Rightarrow> (tptr \<times> 'c) res) \<Rightarrow> stack_ref \<Rightarrow> 'c \<Rightarrow> system \<Rightarrow> (thread_builder \<times> 'c \<times> system) res" where
  "thread_handle_init take_cell stk c s =
     bind_res (take_cell c) (\<lambda>(t, c1).
       Inr (\<lparr>built_thread = t, builder_stack = stk\<rparr>, c1,
            s\<lparr>sys_kernel := upd_suspendable (OfThread t) (\<lambda>_. suspendable_new_thread t) (sys_kernel s)\<rparr>))"

text \<open>
  \<open>attach\<close>: the closure is in its cell, the main function is the wrapper that calls it, and the
  context of the thread, \<open>context_of t\<close>, is set up to run it. The identifiers count up and wrap
  around.
\<close>

definition thread_attach ::
  "(tptr \<Rightarrow> nat) \<Rightarrow> nat \<Rightarrow> thread_builder \<Rightarrow> system \<Rightarrow> tptr \<times> system" where
  "thread_attach context_of closure_wrapper b s =
     (let t = built_thread b;
          (thread_id', counter) = (NEXT_FREE_THREAD_ID s, NEXT_FREE_THREAD_ID s + 1)
      in (t, s\<lparr>NEXT_FREE_THREAD_ID := counter,
               sys_kernel := upd_thread t (\<lambda>x. x\<lparr>main_fn := closure_wrapper, stack := Some (builder_stack b),
                 thread_id := thread_id', thr_context := Some (context_of t)\<rparr>) (sys_kernel s)\<rparr>))"

definition initialized_start :: "env \<Rightarrow> tptr \<Rightarrow> system \<Rightarrow> (tptr \<times> system) res" where
  "initialized_start e t s =
     bind_res (thread_start e t (sys_kernel s)) (\<lambda>k. Inr (t, s\<lparr>sys_kernel := k\<rparr>))"

definition initialized_finish :: "tptr \<Rightarrow> tptr" where
  "initialized_finish t = t"

definition builder_start ::
  "env \<Rightarrow> (tptr \<Rightarrow> nat) \<Rightarrow> nat \<Rightarrow> thread_builder \<Rightarrow> system \<Rightarrow> (tptr \<times> system) res" where
  "builder_start e context_of closure_wrapper b s =
     (let (t, s1) = thread_attach context_of closure_wrapper b s in initialized_start e t s1)"

definition builder_build :: "(tptr \<Rightarrow> nat) \<Rightarrow> nat \<Rightarrow> thread_builder \<Rightarrow> system \<Rightarrow> tptr \<times> system" where
  "builder_build context_of closure_wrapper b s =
     (let (t, s1) = thread_attach context_of closure_wrapper b s in (initialized_finish t, s1))"

text \<open>References to threads.\<close>

definition thread_ref_current :: "kernel \<Rightarrow> tptr res" where
  "thread_ref_current k =
     (case current_execution_context k of
        InThread t \<Rightarrow> Inr t | InInterrupt _ \<Rightarrow> Inl (Panic ''No current thread''))"

definition thread_ref_priority :: "tptr \<Rightarrow> kernel \<Rightarrow> priority" where
  "thread_ref_priority t k = priority (threads k t)"

definition thread_ref_eq :: "tptr \<Rightarrow> tptr \<Rightarrow> bool" where
  "thread_ref_eq t u \<longleftrightarrow> t = u"

subsection \<open>The scheduler\<close>

definition raw_scheduler_new :: "tptr \<Rightarrow> kernel \<Rightarrow> kernel" where
  "raw_scheduler_new idle k =
     k\<lparr>ready_queue := [], sleep_queue := [], suspended_list := [], blocked_list := [],
       idle_thread := idle, current_thread := idle\<rparr>"

definition scheduler_new :: "tptr \<Rightarrow> kernel \<Rightarrow> kernel" where
  "scheduler_new idle k =
     (raw_scheduler_new idle k)\<lparr>pending_resume := aq_new, pending_sleep := aq_new,
       pending_reschedule_kind := RESCHEDULE_KIND_NONE, raw_borrowed := False\<rparr>"

definition scheduler_instance :: "system \<Rightarrow> kernel res" where
  "scheduler_instance s = (if SCHEDULER_readable s then Inr (sys_kernel s) else Inl UninitRead)"

text \<open>
  \<open>PreemptLock::with\<close> asks for the current execution context first: outside of interrupts this
  reads the current thread from the scheduler.
\<close>

definition system_pl_with ::
  "env \<Rightarrow> (kernel \<Rightarrow> kernel res) \<Rightarrow> (kernel \<Rightarrow> ('a \<times> kernel) res) \<Rightarrow> system \<Rightarrow> ('a \<times> system) res" where
  "system_pl_with e yield f s =
     (if in_interrupt (sys_kernel s) then
        bind_res (pl_with e yield f (sys_kernel s)) (\<lambda>(r, k). Inr (r, s\<lparr>sys_kernel := k\<rparr>))
      else
        bind_res (scheduler_instance s) (\<lambda>k.
        bind_res (pl_with e yield f k) (\<lambda>(r, k1). Inr (r, s\<lparr>sys_kernel := k1\<rparr>))))"

subsection \<open>Starting up\<close>

definition IDLE_THREAD_NAME :: string where "IDLE_THREAD_NAME = ''[idle]''"
definition IDLE_THREAD_PRIO :: priority where "IDLE_THREAD_PRIO = Thread 0"

text \<open>
  The function that the macro makes of \<open>idle\<close>: the thread with its stack, attached. \<open>t\<close> is its
  control block, \<open>stk\<close> its initialised stack.
\<close>

definition idle_thread_build ::
  "(tptr \<Rightarrow> nat) \<Rightarrow> nat \<Rightarrow> tptr \<Rightarrow> stack_ref \<Rightarrow> system \<Rightarrow> tptr \<times> system" where
  "idle_thread_build context_of closure_wrapper t stk s =
     thread_attach context_of closure_wrapper \<lparr>built_thread = t, builder_stack = stk\<rparr>
       (s\<lparr>sys_kernel := upd_suspendable (OfThread t) (\<lambda>_. suspendable_new_thread t)
           (upd_thread t (\<lambda>_. thread_new IDLE_THREAD_NAME IDLE_THREAD_PRIO closure_wrapper) (sys_kernel s))\<rparr>)"

definition init_idle_thread ::
  "env \<Rightarrow> (tptr \<Rightarrow> nat) \<Rightarrow> nat \<Rightarrow> tptr \<Rightarrow> stack_ref \<Rightarrow> system \<Rightarrow> (tptr \<times> system) res" where
  "init_idle_thread e context_of closure_wrapper t stk s =
     (let (idle, s1) = idle_thread_build context_of closure_wrapper t stk s in
      bind_res (system_pl_with e (thread_yield e) (\<lambda>k. Inr ((), set_state idle Running k)) s1) (\<lambda>(_, s2).
        Inr (initialized_finish idle, s2)))"

text \<open>\<open>start_first_thread\<close> makes the idle thread's context the current one and jumps to it.\<close>

definition scheduler_start ::
  "env \<Rightarrow> (tptr \<Rightarrow> nat) \<Rightarrow> nat \<Rightarrow> tptr \<Rightarrow> stack_ref \<Rightarrow> system \<Rightarrow> system res" where
  "scheduler_start e context_of closure_wrapper t stk s =
     bind_res (init_idle_thread e context_of closure_wrapper t stk s) (\<lambda>(idle, s1).
       let k = scheduler_new idle (sys_kernel s1) in
       Inr (s1\<lparr>sys_kernel := k\<lparr>thread_context := thr_context (threads k idle)\<rparr>, SCHEDULER_readable := True\<rparr>))"


section \<open>Building keeps the invariant\<close>

text \<open>What building the thread \<open>t\<close> does to the kernel.\<close>

definition built :: "(tptr \<Rightarrow> nat) \<Rightarrow> nat \<Rightarrow> tptr \<Rightarrow> stack_ref \<Rightarrow> u32 \<Rightarrow> kernel \<Rightarrow> kernel" where
  "built context_of w t stk n k =
     upd_thread t (\<lambda>x. x\<lparr>main_fn := w, stack := Some stk, thread_id := n, thr_context := Some (context_of t)\<rparr>)
       (upd_suspendable (OfThread t) (\<lambda>_. suspendable_new_thread t) k)"

lemma build_thread:
  assumes "take_cell c = Inr (t, c1)"
  shows "bind_res (thread_handle_init take_cell stk c s) (\<lambda>(b, c2, s1). Inr (builder_build context_of w b s1))
     = Inr (t, s\<lparr>sys_kernel := built context_of w t stk (NEXT_FREE_THREAD_ID s) (sys_kernel s),
         NEXT_FREE_THREAD_ID := NEXT_FREE_THREAD_ID s + 1\<rparr>)"
  using assms by (simp add: thread_handle_init_def builder_build_def thread_attach_def initialized_finish_def built_def)

lemma built_views:
  "tstate (threads (built c w t stk n k)) = tstate (threads k)"
  "tprio (threads (built c w t stk n k)) = tprio (threads k)"
  "tlock (threads (built c w t stk n k)) = tlock (threads k)"
  "tid (threads (built c w t stk n k)) = (tid (threads k))(t := n)"
  "tstack (threads (built c w t stk n k)) = (tstack (threads k))(t := Some stk)"
  by (auto simp: built_def view_defs upd_thread_def upd_suspendable_def priority_defs)

lemma built_simps [simp]:
  "ready_queue (built c w t stk n k) = ready_queue k" "blocked_list (built c w t stk n k) = blocked_list k"
  "suspended_list (built c w t stk n k) = suspended_list k" "sleep_queue (built c w t stk n k) = sleep_queue k"
  "current_thread (built c w t stk n k) = current_thread k" "idle_thread (built c w t stk n k) = idle_thread k"
  "cells (built c w t stk n k) = cells k" "pending_reschedule_kind (built c w t stk n k) = pending_reschedule_kind k"
  "suspendables (built c w t stk n k) = (suspendables k)(OfThread t := suspendable_new_thread t)"
  by (simp_all add: built_def upd_thread_def upd_suspendable_def cells_def)

lemma unbuilt_created:
  assumes "sched_inv k" and "tstack (threads k) t = None"
  shows "tstate (threads k) t = Created"
  using assms by (auto simp: sched_inv_fl_def identified_def)

lemma built_inv:
  assumes inv: "sched_inv k" and t: "tstack (threads k) t = None"
  shows "sched_inv (built c w t stk n k)"
proof -
  have st: "tstate (threads k) t = Created" by (rule unbuilt_created [OF assms])
  then have "t \<notin> set (blocked_list k)" using inv_states [OF inv, of t] by auto
  then have "OfThread t \<notin> set (sleep_queue k)" using sleeping_thread_blocked [OF inv] by blast
  then have "\<forall>s \<in> set (sleep_queue k). suspendables (built c w t stk n k) s = suspendables k s" by auto
  moreover have "sleeping {} (suspendables k) (blocked_list k) (sleep_queue k)" using inv by (simp add: sched_inv_fl_def)
  ultimately have "sleeping {} (suspendables (built c w t stk n k)) (blocked_list k) (sleep_queue k)"
    unfolding sleeping_def by (auto elim!: sorted_wrt_mono_rel [rotated])
  moreover have "inj_on ((tid (threads k))(t := n)) {u. tstate (threads k) u \<noteq> Created}
      = inj_on (tid (threads k)) {u. tstate (threads k) u \<noteq> Created}"
    using st by (intro inj_on_cong) auto
  ultimately show ?thesis
    using inv st by (auto simp: sched_inv_fl_def built_views identified_def)
qed

lemma built_quiescent:
  assumes q: "quiescent k" and t: "tstack (threads k) t = None" and stk: "is_alive stk"
  shows "quiescent (built c w t stk n k)"
proof -
  have "sched_inv (built c w t stk n k)" by (rule built_inv [OF quiescentD(1) [OF q] t])
  with q stk built_simps(7) [of c w t stk n k] show ?thesis
    by (simp add: quiescent_def settled_def cells_def stacks_alive_def threads_only_def built_views)
qed

section \<open>The running system\<close>

text \<open>
  The identifiers of the threads that have been built are below the counter and different, and
  the idle thread has its reserved one.
\<close>

definition ids_ok :: "system \<Rightarrow> bool" where
  "ids_ok s \<longleftrightarrow>
     (let k = sys_kernel s in
        thread_id (threads k (idle_thread k)) = IDLE_THREAD_ID
      \<and> (\<forall>t. stack (threads k t) \<noteq> None \<longrightarrow>
            IDLE_THREAD_ID \<le> thread_id (threads k t) \<and> thread_id (threads k t) < NEXT_FREE_THREAD_ID s)
      \<and> (\<forall>t u. stack (threads k t) \<noteq> None \<longrightarrow> stack (threads k u) \<noteq> None \<longrightarrow>
            thread_id (threads k t) = thread_id (threads k u) \<longrightarrow> t = u))"

text \<open>
  A step of the system: a kernel operation, or building a thread that has not been built yet, with
  an intact stack and before the counter of the identifiers wraps around. The cell of the thread
  knows whether it has been taken.
\<close>

inductive system_step :: "system \<Rightarrow> system \<Rightarrow> bool" where
  kernel: "kernel_step (sys_kernel s) k \<Longrightarrow> system_step s (s\<lparr>sys_kernel := k\<rparr>)"
| build: "thread_handle_init take_cell stk (c :: bool) s = Inr (b, c1, s1) \<Longrightarrow> stack (threads (sys_kernel s) (built_thread b)) = None \<Longrightarrow>
    is_alive stk \<Longrightarrow> NEXT_FREE_THREAD_ID s \<noteq> - 1 \<Longrightarrow> builder_build context_of w b s1 = (t, s') \<Longrightarrow> system_step s s'"

definition system_ok :: "system \<Rightarrow> bool" where
  "system_ok s \<longleftrightarrow> SCHEDULER_readable s \<and> quiescent (sys_kernel s) \<and> within_locks (sys_kernel s) \<and> ids_ok s"

lemma no_wrap_less:
  fixes n :: u32
  assumes "n \<noteq> - 1"
  shows "n < n + 1"
proof -
  have "1 + n \<noteq> 0" using assms by (simp add: eq_neg_iff_add_eq_0 add.commute)
  then show ?thesis using unatSuc [of n] by (simp add: word_less_nat_alt add.commute)
qed

lemma ids_ok_views:
  "ids_ok s \<longleftrightarrow> tid (threads (sys_kernel s)) (idle_thread (sys_kernel s)) = IDLE_THREAD_ID
   \<and> (\<forall>t. tstack (threads (sys_kernel s)) t \<noteq> None \<longrightarrow> IDLE_THREAD_ID \<le> tid (threads (sys_kernel s)) t
        \<and> tid (threads (sys_kernel s)) t < NEXT_FREE_THREAD_ID s)
   \<and> (\<forall>t u. tstack (threads (sys_kernel s)) t \<noteq> None \<longrightarrow> tstack (threads (sys_kernel s)) u \<noteq> None \<longrightarrow>
        tid (threads (sys_kernel s)) t = tid (threads (sys_kernel s)) u \<longrightarrow> t = u)"
  by (simp add: ids_ok_def Let_def view_defs)

lemma system_step_ok:
  assumes "system_step s s'" and ok: "system_ok s"
  shows "system_ok s'"
  using assms(1)
proof (cases rule: system_step.cases)
  case (kernel k)
  from kernel_step_ok [OF kernel(2)] ok kernel(1)
  show ?thesis by (simp add: system_ok_def ids_ok_views ids_frame_def stepped_def)
next
  case (build take_cell stk c b c1 s1 context_of w t)
  let ?k = "sys_kernel s" and ?n = "NEXT_FREE_THREAD_ID s"
  have q: "quiescent ?k" "within_locks ?k" "ids_ok s" "SCHEDULER_readable s" using ok by (simp_all add: system_ok_def)
  have tk: "take_cell c = Inr (built_thread b, c1)"
    using build(1) by (auto simp: thread_handle_init_def elim!: bind_res_InrE split: prod.splits)
  have s': "s' = s\<lparr>sys_kernel := built context_of w (built_thread b) stk ?n ?k, NEXT_FREE_THREAD_ID := ?n + 1\<rparr>"
    using build_thread [where take_cell = take_cell and stk = stk and s = s and context_of = context_of and w = w, OF tk] build(1,5)
    by simp
  have none: "tstack (threads ?k) (built_thread b) = None" using build(2) by (simp add: view_defs)
  have "quiescent (sys_kernel s')" using built_quiescent [OF q(1) none build(3)] s' by simp
  moreover have "within_locks (sys_kernel s')" using q(2) s' by (simp add: within_locks_views built_views)
  moreover have "built_thread b \<noteq> idle_thread ?k"
    using unbuilt_created [OF quiescentD(1) [OF q(1)] none] quiescentD(1) [OF q(1)]
    by (auto simp: sched_inv_fl_def identified_def)
  moreover have "IDLE_THREAD_ID \<le> ?n"
    using q(3) quiescentD(1) [OF q(1)] unfolding ids_ok_views
    by (metis identified_def less_imp_le order_trans sched_inv_fl_def)
  ultimately show ?thesis
    using q(3,4) no_wrap_less [OF build(4)] s' unfolding system_ok_def ids_ok_views
    by (auto simp: built_views intro: less_trans)
qed

section \<open>The first state\<close>

text \<open>
  The state in which \<open>start_kernel\<close> finds the static data: no interrupt handler runs, every control
  block is new, the first identifier is that of the idle thread. \<open>empty_scheduler\<close>: the memory of
  the scheduler, whether it has been written or not, reads as an empty one, as memory that is all
  zero does.
\<close>

definition boot_state :: "system \<Rightarrow> bool" where
  "boot_state s \<longleftrightarrow>
     (let k = sys_kernel s in
        current_interrupt k = None \<and> preempt_lock k = None \<and> pending_executor_polls k = aq_new
      \<and> NEXT_FREE_THREAD_ID s = IDLE_THREAD_ID
      \<and> (\<forall>t. state (threads k t) = Created \<and> stack (threads k t) = None))"

definition empty_scheduler :: "kernel \<Rightarrow> bool" where
  "empty_scheduler k \<longleftrightarrow>
     pending_resume k = aq_new \<and> pending_sleep k = aq_new \<and> pending_reschedule_kind k = RESCHEDULE_KIND_NONE
   \<and> \<not> raw_borrowed k"

lemma pl_with_empty:
  assumes "empty_scheduler k" and "current_interrupt k = None" and "preempt_lock k = None"
  shows "pl_with e (thread_yield e) (\<lambda>k. Inr ((), set_state t Running k)) k = Inr ((), unlocked (set_state t Running k))"
  using assms complete_pending_empty [of "set_state t Running (k\<lparr>preempt_lock := Some (PThread (current_thread k))\<rparr>)" e]
  by (simp add: pl_with_def pl_acquire_nesting_lock_def current_execution_context_def pl_release_nesting_lock_def
      empty_scheduler_def aq_new_holds is_reschedule_pending_def unlocked_def set_state_def upd_thread_def Let_def)

text \<open>The state after start-up: the idle thread, built and running, and the new scheduler.\<close>

definition first_state :: "(tptr \<Rightarrow> nat) \<Rightarrow> nat \<Rightarrow> tptr \<Rightarrow> stack_ref \<Rightarrow> system \<Rightarrow> kernel" where
  "first_state context_of w t stk s =
     (let k = built context_of w t stk (NEXT_FREE_THREAD_ID s)
            (upd_thread t (\<lambda>_. thread_new IDLE_THREAD_NAME IDLE_THREAD_PRIO w) (sys_kernel s));
          k1 = scheduler_new t (unlocked (set_state t Running k))
      in k1\<lparr>thread_context := thr_context (threads k1 t)\<rparr>)"

lemma scheduler_start_eq:
  assumes boot: "boot_state s" and "SCHEDULER_readable s" and "empty_scheduler (sys_kernel s)"
  shows "scheduler_start e context_of w t stk s = Inr (s\<lparr>sys_kernel := first_state context_of w t stk s,
      NEXT_FREE_THREAD_ID := IDLE_THREAD_ID + 1\<rparr>)"
proof -
  let ?k = "built context_of w t stk (NEXT_FREE_THREAD_ID s)
    (upd_thread t (\<lambda>_. thread_new IDLE_THREAD_NAME IDLE_THREAD_PRIO w) (sys_kernel s))"
  have b: "idle_thread_build context_of w t stk s = (t, s\<lparr>sys_kernel := ?k, NEXT_FREE_THREAD_ID := IDLE_THREAD_ID + 1\<rparr>)"
    using boot by (simp add: idle_thread_build_def thread_attach_def built_def boot_state_def Let_def
        upd_thread_def upd_suspendable_def)
  have "empty_scheduler ?k" "current_interrupt ?k = None" "preempt_lock ?k = None"
    using assms by (simp_all add: empty_scheduler_def boot_state_def built_def upd_thread_def upd_suspendable_def Let_def)
  from pl_with_empty [OF this, of e t] this(2) b assms(2) show ?thesis
    by (simp add: scheduler_start_def init_idle_thread_def system_pl_with_def scheduler_instance_def
        in_interrupt_def initialized_finish_def first_state_def Let_def)
qed

lemma first_state_ok:
  assumes boot: "boot_state s" and stk: "is_alive stk"
  shows "quiescent (first_state context_of w t stk s)" and "within_locks (first_state context_of w t stk s)"
    and "ids_ok (s\<lparr>sys_kernel := first_state context_of w t stk s, NEXT_FREE_THREAD_ID := IDLE_THREAD_ID + 1\<rparr>)"
proof -
  let ?k = "first_state context_of w t stk s"
  have th: "tstate (threads ?k) = (\<lambda>u. if u = t then Running else Created)"
    "tstack (threads ?k) = (\<lambda>_. None)(t := Some stk)" "tid (threads ?k) t = IDLE_THREAD_ID"
    using boot by (auto simp: boot_state_def first_state_def Let_def view_defs scheduler_new_def raw_scheduler_new_def
        set_state_def upd_thread_def built_def upd_suspendable_def unlocked_def)
  have q: "ready_queue ?k = []" "blocked_list ?k = []" "suspended_list ?k = []" "sleep_queue ?k = []"
    "idle_thread ?k = t" "current_thread ?k = t" "kind (suspendables ?k (OfThread t)) = KThread t"
    "pending_resume ?k = aq_new" "pending_sleep ?k = aq_new" "pending_reschedule_kind ?k = 0" "\<not> raw_borrowed ?k"
    "preempt_lock ?k = None" "current_interrupt ?k = None" "pending_executor_polls ?k = aq_new"
    using boot by (simp_all add: first_state_def Let_def scheduler_new_def raw_scheduler_new_def set_state_def
        upd_thread_def built_def upd_suspendable_def unlocked_def suspendable_new_thread_def RESCHEDULE_KIND_NONE_def
        boot_state_def)
  have "sched_inv ?k"
    by (auto simp: sched_inv_fl_def placed_def ordered_def sleeping_def identified_def q th split: if_splits)
  then show "quiescent ?k"
    using stk by (auto simp: quiescent_def settled_def q th aq_new_holds stacks_alive_def threads_only_def split: if_splits)
  show "within_locks ?k" by (simp add: within_locks_def q)
  show "ids_ok (s\<lparr>sys_kernel := ?k, NEXT_FREE_THREAD_ID := IDLE_THREAD_ID + 1\<rparr>)"
    using th(3) by (auto simp: ids_ok_views q th(2) IDLE_THREAD_ID_def split: if_splits)
qed

lemma system_run_ok: "system_step\<^sup>*\<^sup>* s s' \<Longrightarrow> system_ok s \<Longrightarrow> system_ok s'"
  by (induction rule: rtranclp_induct) (auto dest: system_step_ok)

lemma ids_ok_startable:
  assumes "ids_ok s" and "sched_inv (sys_kernel s)" and "stack (threads (sys_kernel s) t) \<noteq> None"
    and "state (threads (sys_kernel s) t) = Created"
  shows "startable t (sys_kernel s)"
  unfolding startable_def
proof (intro conjI allI impI)
  fix u assume u: "state (threads (sys_kernel s) u) \<noteq> Created"
  then have "stack (threads (sys_kernel s) u) \<noteq> None"
    using assms(2) by (auto simp: sched_inv_fl_def identified_def view_defs)
  then show "thread_id (threads (sys_kernel s) u) \<noteq> thread_id (threads (sys_kernel s) t)"
    using assms(1,3,4) u unfolding ids_ok_def Let_def by metis
qed (use assms in simp_all)

section \<open>Properties\<close>

lemma startup_uninitialised:
  assumes "boot_state s" and "\<not> SCHEDULER_readable s"
  shows "scheduler_start e context_of w t stk s = Inl UninitRead"
proof -
  obtain s1 where s1: "idle_thread_build context_of w t stk s = (t, s1)" "\<not> SCHEDULER_readable s1"
    "\<not> in_interrupt (sys_kernel s1)"
    using assms by (simp add: idle_thread_build_def thread_attach_def boot_state_def in_interrupt_def Let_def
        upd_thread_def upd_suspendable_def)
  then show ?thesis
    by (simp add: scheduler_start_def init_idle_thread_def system_pl_with_def scheduler_instance_def)
qed

lemma system_keeps:
  assumes ok: "system_ok s0" and run: "system_step\<^sup>*\<^sup>* s0 s'"
  shows "sched_inv (sys_kernel s') \<and> within_locks (sys_kernel s')
     \<and> inj_on (\<lambda>u. thread_id (threads (sys_kernel s') u)) {u. stack (threads (sys_kernel s') u) \<noteq> None}
     \<and> (\<forall>u. stack (threads (sys_kernel s') u) \<noteq> None \<longrightarrow> state (threads (sys_kernel s') u) = Created \<longrightarrow>
          (\<exists>k. thread_start e u (sys_kernel s') = Inr k \<and> system_step\<^sup>*\<^sup>* s0 (s'\<lparr>sys_kernel := k\<rparr>)))"
proof -
  have s': "quiescent (sys_kernel s')" "within_locks (sys_kernel s')" "ids_ok s'"
    using system_run_ok [OF run ok] by (simp_all add: system_ok_def)
  have "\<exists>k. thread_start e u (sys_kernel s') = Inr k \<and> system_step\<^sup>*\<^sup>* s0 (s'\<lparr>sys_kernel := k\<rparr>)"
    if u: "stack (threads (sys_kernel s') u) \<noteq> None" "state (threads (sys_kernel s') u) = Created" for u
  proof -
    have st: "startable u (sys_kernel s')" by (rule ids_ok_startable [OF s'(3) quiescentD(1) [OF s'(1)] u])
    then obtain k where k: "thread_start e u (sys_kernel s') = Inr k" using thread_start_ok [OF s'(1)] by blast
    have "system_step s' (s'\<lparr>sys_kernel := k\<rparr>)" by (rule system_step.kernel [OF kernel_step.start [OF st k]])
    with run k show ?thesis by (meson rtranclp.rtrancl_into_rtrancl)
  qed
  moreover have "inj_on (\<lambda>u. thread_id (threads (sys_kernel s') u)) {u. stack (threads (sys_kernel s') u) \<noteq> None}"
    using s'(3) by (auto simp: ids_ok_def Let_def inj_on_def)
  ultimately show ?thesis using s' quiescentD(1) by blast
qed


definition sample_boot :: "bool \<Rightarrow> system" where
  "sample_boot readable =
     \<lparr>sys_kernel = sample_quiet\<lparr>threads := \<lambda>t. raw_thread_new ''t'' (Thread 1) 0\<rparr>,
      SCHEDULER_readable = readable, NEXT_FREE_THREAD_ID = IDLE_THREAD_ID\<rparr>"

definition sample_stack :: stack_ref where
  "sample_stack = \<lparr>canary = replicate 16 CANARY_BYTE, stack_len = 100, element_size = 8\<rparr>"

lemma sample_boot_facts:
  "boot_state (sample_boot r)" "SCHEDULER_readable (sample_boot r) = r" "empty_scheduler (sys_kernel (sample_boot r))"
  "is_alive sample_stack"
  by (simp_all add: boot_state_def sample_boot_def empty_scheduler_def sample_quiet_def sample_kernel_def
      raw_thread_new_def RESCHEDULE_KIND_NONE_def sample_stack_def is_alive_def list_all_iff)


end
