(* ===== verification/Interrupt_Dispatch.thy ===== *)
theory Interrupt_Dispatch
  imports Local_Storage Interrupt_Lock Ceiling_Lock
begin

text \<open>
  Interrupt handlers (\<open>kernel/interrupt.rs\<close>): the vector table, attaching and enabling a handler,
  and the path of an interrupt from the controller's claim through the handler's closure and its
  executor to the return to a thread. The interrupt controller is that of the hardware layer, given
  by its operations; the closures are code of the application.
\<close>

section \<open>The interface of an interrupt controller\<close>

record ('h, 'c) controller =
  MAX_INTERRUPT_NUMBER :: nat
  claim_interrupt :: "'h \<Rightarrow> ('c \<times> 'h) res"
  get_interrupt_number :: "'c \<Rightarrow> u16"
  complete_interrupt :: "'c \<Rightarrow> 'h \<Rightarrow> 'h res"
  hal_set_interrupt_priority :: "u16 \<Rightarrow> u8 \<Rightarrow> 'h \<Rightarrow> (u8 \<times> 'h) res"
  hal_enable_interrupt :: "u16 \<Rightarrow> 'h \<Rightarrow> 'h res"
  hal_get_threshold :: "'h \<Rightarrow> u8"
  hal_set_threshold :: "u8 \<Rightarrow> 'h \<Rightarrow> 'h"
  hal_acquire :: "'h \<Rightarrow> bool \<times> 'h"
  hal_restore :: "bool \<Rightarrow> 'h \<Rightarrow> 'h"

definition e310x_controller :: "(e310x, e310x_claim) controller" where
  "e310x_controller =
     \<lparr>MAX_INTERRUPT_NUMBER = 52, claim_interrupt = e_claim_interrupt, get_interrupt_number = e_interrupt_number,
      complete_interrupt = (\<lambda>c h. Inr (e_complete_interrupt c h)),
      hal_set_interrupt_priority = e_set_interrupt_priority, hal_enable_interrupt = e_enable_interrupt,
      hal_get_threshold = e_get_interrupt_threshold, hal_set_threshold = e_set_interrupt_threshold,
      hal_acquire = e_acquire, hal_restore = e_restore\<rparr>"

text \<open>The simulator has no interrupts besides the timer: claiming one is not implemented.\<close>

definition sim_controller :: "(simulator, u16) controller" where
  "sim_controller =
     \<lparr>MAX_INTERRUPT_NUMBER = SIM_MAX_INTERRUPT_NUMBER, claim_interrupt = (\<lambda>_. Inl Unimplemented),
      get_interrupt_number = id, complete_interrupt = (\<lambda>_ _. Inl Unimplemented),
      hal_set_interrupt_priority = sim_set_interrupt_priority, hal_enable_interrupt = sim_enable_interrupt,
      hal_get_threshold = sim_get_interrupt_threshold, hal_set_threshold = sim_set_interrupt_threshold,
      hal_acquire = sim_acquire, hal_restore = sim_restore\<rparr>"

text \<open>
  What the dispatch relies on: the threshold is a register, and completing a claim restores the
  threshold that was in force when the interrupt was claimed, whatever happened in between.
\<close>

locale interrupt_controller =
  fixes C :: "('h, 'c) controller"
  assumes threshold_law: "hal_get_threshold C (hal_set_threshold C t h) = t"
    and complete_law: "claim_interrupt C h = Inr (c, h1) \<Longrightarrow> complete_interrupt C c h2 = Inr h3 \<Longrightarrow>
      hal_get_threshold C h3 = hal_get_threshold C h"

lemma byte_in_register: "ucast (ucast t :: u32) = (t :: u8)"
  by (rule bit_word_eqI) (simp add: bit_simps)

interpretation e310x_irq: interrupt_controller e310x_controller
proof unfold_locales
  fix t h
  show "hal_get_threshold e310x_controller (hal_set_threshold e310x_controller t h) = t"
    by (simp add: e310x_controller_def e_get_interrupt_threshold_def e_set_interrupt_threshold_def byte_in_register)
next
  fix h c h1 h2 h3
  assume "claim_interrupt e310x_controller h = Inr (c, h1)" "complete_interrupt e310x_controller c h2 = Inr h3"
  then show "hal_get_threshold e310x_controller h3 = hal_get_threshold e310x_controller h"
    by (auto simp: e310x_controller_def e_claim_interrupt_def e_complete_interrupt_def e_get_interrupt_threshold_def
        e_set_interrupt_threshold_def byte_in_register Let_def elim!: bind_res_InrE)
qed

interpretation sim_irq: interrupt_controller sim_controller
  by unfold_locales (simp_all add: sim_controller_def sim_get_interrupt_threshold_def sim_set_interrupt_threshold_def)

section \<open>Operations\<close>

record interrupt_vector =
  handler_ptr :: "nat option"
  icb_ptr :: "iptr option"

record 'h machine =
  mach_kernel :: kernel
  INTERRUPT_VECTORS :: "interrupt_vector list"
  mach_storages :: storages
  mach_hw :: "'h interrupt_state"

definition initial_vectors :: "nat \<Rightarrow> interrupt_vector list" where
  "initial_vectors max_number = replicate (max_number + 1) \<lparr>handler_ptr = None, icb_ptr = None\<rparr>"

text \<open>
  The code that is not the kernel's: \<open>closure_code f c\<close> is the call of the closure of the type of
  the wrapper \<open>f\<close> whose data is at \<open>c\<close>; \<open>poll_executor_at\<close> polls the executor at an address.
  \<open>executor_type\<close> is the type identifier of the interrupt executors.
\<close>

record app =
  closure_code :: "nat \<Rightarrow> nat \<Rightarrow> kernel \<Rightarrow> kernel res"
  poll_on_attach :: "nat \<Rightarrow> kernel \<Rightarrow> kernel res"
  poll_on_interrupt :: "nat \<Rightarrow> kernel \<Rightarrow> kernel res"
  executor_type :: nat

subsection \<open>The hardware\<close>

text \<open>The kernel's \<open>interrupt_threshold\<close> is the controller's register.\<close>

definition with_threshold ::
  "('h, 'c) controller \<Rightarrow> ('h \<Rightarrow> ('r \<times> 'h) res) \<Rightarrow> 'h machine \<Rightarrow> ('r \<times> 'h machine) res" where
  "with_threshold C f m =
     bind_res (f (hal_set_threshold C (interrupt_threshold (mach_kernel m)) (hw (mach_hw m)))) (\<lambda>(r, h).
       Inr (r, m\<lparr>mach_hw := (mach_hw m)\<lparr>hw := h\<rparr>,
                 mach_kernel := (mach_kernel m)\<lparr>interrupt_threshold := hal_get_threshold C h\<rparr>\<rparr>))"

definition interrupt_lock_with ::
  "('h, 'c) controller \<Rightarrow> ('h machine \<Rightarrow> ('r \<times> 'h machine) res) \<Rightarrow> 'h machine \<Rightarrow> ('r \<times> 'h machine) res" where
  "interrupt_lock_with C f m =
     bind_res (f (m\<lparr>mach_hw := il_enter (hal_acquire C) (mach_hw m)\<rparr>)) (\<lambda>(r, m1).
       Inr (r, m1\<lparr>mach_hw := il_leave (hal_restore C) (mach_hw m1)\<rparr>))"

subsection \<open>Vectors\<close>

definition get_interrupt_vector :: "u16 \<Rightarrow> 'h machine \<Rightarrow> interrupt_vector res" where
  "get_interrupt_vector number m =
     (if unat number < length (INTERRUPT_VECTORS m) then Inr (INTERRUPT_VECTORS m ! unat number)
      else Inl IndexOutOfBounds)"

definition set_interrupt_vector :: "u16 \<Rightarrow> interrupt_vector \<Rightarrow> 'h machine \<Rightarrow> 'h machine res" where
  "set_interrupt_vector number v m =
     (if unat number < length (INTERRUPT_VECTORS m)
      then Inr (m\<lparr>INTERRUPT_VECTORS := (INTERRUPT_VECTORS m)[unat number := v]\<rparr>)
      else Inl IndexOutOfBounds)"

subsection \<open>Attaching and enabling\<close>

definition is_attached :: "iptr \<Rightarrow> kernel \<Rightarrow> bool" where
  "is_attached i k \<longleftrightarrow> closure_ptr (interrupts k i) \<noteq> None"

definition executor_of :: "app \<Rightarrow> iptr \<Rightarrow> storages \<Rightarrow> nat option res" where
  "executor_of a i st =
     (case interrupt_storage st i of None \<Rightarrow> Inr None | Some es \<Rightarrow> raw_get (executor_type a) es)"

text \<open>What runs in the interrupt context of an attachment: the storage is that of the handler.\<close>

definition attach_poll :: "app \<Rightarrow> storages \<Rightarrow> kernel \<Rightarrow> (unit \<times> kernel) res" where
  "attach_poll a st k =
     bind_res (tls_get (executor_type a) k st) (\<lambda>executor.
       case executor of
         None \<Rightarrow> Inr ((), k)
       | Some x \<Rightarrow> bind_res (poll_on_attach a x k) (\<lambda>k1. Inr ((), k1)))"

definition raw_attach ::
  "('h, 'c) controller \<Rightarrow> app \<Rightarrow> env \<Rightarrow> iptr \<Rightarrow> nat \<Rightarrow> nat \<Rightarrow> 'h machine \<Rightarrow> (unit \<times> 'h machine) res" where
  "raw_attach C a e i handler closure m =
     (let m0 = m\<lparr>mach_kernel := upd_interrupt i (\<lambda>x. x\<lparr>closure_ptr := Some closure\<rparr>) (mach_kernel m)\<rparr>;
          icb = interrupts (mach_kernel m0) i
      in
      bind_res (with_threshold C (hal_set_interrupt_priority C (intnum icb) (get_value (i_base_priority icb))) m0)
        (\<lambda>(_, m1).
      bind_res (set_interrupt_vector (intnum icb) \<lparr>handler_ptr = Some handler, icb_ptr = Some i\<rparr> m1) (\<lambda>m2.
        let (old_priority, k1) = i_raise_nesting_lock_priority i (i_base_priority icb) (mach_kernel m2) in
        bind_res (interrupt_context e i (attach_poll a (mach_storages m2)) k1) (\<lambda>(_, k2).
          Inr ((), m2\<lparr>mach_kernel := i_set_nesting_lock_priority i old_priority k2\<rparr>)))))"

definition interrupt_attach ::
  "('h, 'c) controller \<Rightarrow> app \<Rightarrow> env \<Rightarrow> iptr \<Rightarrow> nat \<Rightarrow> nat \<Rightarrow> 'h machine \<Rightarrow> (unit \<times> 'h machine) res" where
  "interrupt_attach C a e i handler closure = interrupt_lock_with C (raw_attach C a e i handler closure)"

definition raw_enable_interrupt :: "('h, 'c) controller \<Rightarrow> iptr \<Rightarrow> 'h machine \<Rightarrow> (unit \<times> 'h machine) res" where
  "raw_enable_interrupt C i m =
     with_threshold C (\<lambda>h. bind_res (hal_enable_interrupt C (intnum (interrupts (mach_kernel m) i)) h) (\<lambda>h1. Inr ((), h1))) m"

definition interrupt_enable :: "('h, 'c) controller \<Rightarrow> iptr \<Rightarrow> 'h machine \<Rightarrow> (unit \<times> 'h machine) res" where
  "interrupt_enable C i =
     interrupt_lock_with C (\<lambda>m.
       if \<not> is_attached i (mach_kernel m)
       then Inl (Panic ''Attempt to enable interrupt that has not been attached'')
       else raw_enable_interrupt C i m)"

text \<open>
  A handler is made with an interrupt priority; anything else stops the compilation. \<open>init\<close> takes
  it out of its cell, once.
\<close>

definition interrupt_handler_new :: "u16 \<Rightarrow> priority \<Rightarrow> raw_interrupt res" where
  "interrupt_handler_new number PRIO =
     (if is_interrupt PRIO then Inr (raw_interrupt_new number PRIO)
      else Inl (Panic ''Interrupt handler priority must be an interrupt priority''))"

definition interrupt_handler_init ::
  "('c \<Rightarrow> (iptr \<times> 'c) res) \<Rightarrow> 'c \<Rightarrow> 'h machine \<Rightarrow> (iptr \<times> 'c \<times> 'h machine) res" where
  "interrupt_handler_init take_cell c m =
     bind_res (take_cell c) (\<lambda>(i, c1).
       Inr (i, c1, m\<lparr>mach_kernel := upd_suspendable (OfInterrupt i) (\<lambda>_. suspendable_new_interrupt i) (mach_kernel m)\<rparr>))"

text \<open>Spawning a task in the executor of the handler, if it has one; \<open>None\<close> is \<open>Err(())\<close>.\<close>

definition interrupt_spawn :: "app \<Rightarrow> (nat \<Rightarrow> 's \<Rightarrow> ('j \<times> 's) res) \<Rightarrow> iptr \<Rightarrow> storages \<Rightarrow> 's \<Rightarrow> ('j option \<times> 's) res" where
  "interrupt_spawn a spawn_in i st s =
     bind_res (executor_of a i st) (\<lambda>executor.
       case executor of
         None \<Rightarrow> Inr (None, s)
       | Some x \<Rightarrow> bind_res (spawn_in x s) (\<lambda>(j, s1). Inr (Some j, s1)))"

subsection \<open>Dispatch\<close>

definition closure_wrapper :: "app \<Rightarrow> storages \<Rightarrow> nat \<Rightarrow> iptr \<Rightarrow> kernel \<Rightarrow> (unit \<times> kernel) res" where
  "closure_wrapper a st handler i k =
     (case closure_ptr (interrupts k i) of
        None \<Rightarrow> Inl UninitRead
      | Some c \<Rightarrow>
          bind_res (closure_code a handler c k) (\<lambda>k1.
          bind_res (executor_of a i st) (\<lambda>executor.
            case executor of
              None \<Rightarrow> Inr ((), k1)
            | Some x \<Rightarrow> bind_res (poll_on_interrupt a x k1) (\<lambda>k2. Inr ((), k2)))))"

text \<open>A call through a null pointer is undefined, like a read through one.\<close>

definition kernel_interrupt_handler ::
  "('h, 'c) controller \<Rightarrow> app \<Rightarrow> env \<Rightarrow> 'h machine \<Rightarrow> (unit \<times> 'h machine) res" where
  "kernel_interrupt_handler C a e m =
     bind_res (with_threshold C (claim_interrupt C) m) (\<lambda>(claim, m1).
       let interrupt_number = get_interrupt_number C claim in
       if unat interrupt_number > MAX_INTERRUPT_NUMBER C then Inl (Panic ''unexpected interrupt'')
       else
         bind_res (get_interrupt_vector interrupt_number m1) (\<lambda>vector.
         case (handler_ptr vector, icb_ptr vector) of
           (Some handler_fn, Some icb) \<Rightarrow>
             bind_res (interrupt_context e icb (closure_wrapper a (mach_storages m1) handler_fn icb) (mach_kernel m1))
               (\<lambda>(_, k). with_threshold C (\<lambda>h. bind_res (complete_interrupt C claim h) (\<lambda>h1. Inr ((), h1)))
                   (m1\<lparr>mach_kernel := k\<rparr>))
         | _ \<Rightarrow> Inl UninitRead))"

subsection \<open>Waiting for an interrupt\<close>

text \<open>
  The future of \<open>wait_for_interrupt\<close>: it can be made in an interrupt handler only. Its first poll puts
  the task into the executor's queue, by \<open>task_wait\<close>; the next one is ready. The result is whether
  the future is ready, with its variable \<open>first_poll\<close>.
\<close>

definition wait_for_interrupt :: "kernel \<Rightarrow> iptr res" where
  "wait_for_interrupt k =
     (case current_execution_context k of
        InInterrupt i \<Rightarrow> Inr i
      | InThread _ \<Rightarrow> Inl (Panic ''cannot wait for interrupt in thread context''))"

definition wait_for_interrupt_poll ::
  "app \<Rightarrow> (nat \<Rightarrow> 's \<Rightarrow> 's res) \<Rightarrow> iptr \<Rightarrow> storages \<Rightarrow> bool \<Rightarrow> 's \<Rightarrow> ((bool \<times> bool) \<times> 's) res" where
  "wait_for_interrupt_poll a task_wait i st first_poll s =
     bind_res (executor_of a i st) (\<lambda>executor.
       case executor of
         None \<Rightarrow> Inl (Panic ''called Option::unwrap() on a None value'')
       | Some x \<Rightarrow> if first_poll then bind_res (task_wait x s) (\<lambda>s1. Inr ((False, False), s1))
                    else Inr ((True, first_poll), s))"

section \<open>The path of an interrupt\<close>

text \<open>What the kernel asks of the code that runs in an interrupt: it leaves no work half done.\<close>

definition isr_done :: "iptr \<Rightarrow> kernel \<Rightarrow> bool" where
  "isr_done i k \<longleftrightarrow>
     settled (Some i) k \<and> (pending_reschedule_kind k = RESCHEDULE_KIND_NONE \<or> pending_reschedule_kind k AND 3 \<noteq> 0)"

text \<open>The outcome of an interrupt: a reschedule if the handler asked for one.\<close>

definition isr_outcome :: "u64 \<Rightarrow> kernel \<Rightarrow> kernel \<Rightarrow> bool" where
  "isr_outcome n k1 k' \<longleftrightarrow>
     quiescent k' \<and> (if pending_reschedule_kind k1 = RESCHEDULE_KIND_NONE then current_thread k' = current_thread k1
        else rescheduled n k1 k')"

lemma threshold_irrelevant [simp]:
  "settled j (k\<lparr>interrupt_threshold := t\<rparr>) = settled j k"
  "quiescent (k\<lparr>interrupt_threshold := t\<rparr>) = quiescent k"
  "at_interrupt i (k\<lparr>interrupt_threshold := t\<rparr>) = (at_interrupt i k)\<lparr>interrupt_threshold := t\<rparr>"
  by (simp_all add: settled_def quiescent_def stacks_alive_def threads_only_def at_interrupt_def)

lemma isr_context_ok:
  assumes q: "quiescent k" and f: "f (at_interrupt i k) = Inr (r, k1)" and d: "isr_done i k1"
  shows "\<exists>k2. interrupt_context e i f k = Inr (r, k2) \<and> isr_outcome (now e) k1 k2"
proof -
  have "settled None k" "settled (Some i) k1" "pending_reschedule_kind k1 = 0 \<or> pending_reschedule_kind k1 AND 3 \<noteq> 0"
    using q d by (auto simp: quiescent_def isr_done_def RESCHEDULE_KIND_NONE_def)
  from interrupt_context_ok [where f = f, OF this(1) f this(2,3), of e] obtain k2 where k2:
    "interrupt_context e i f k = Inr (r, after_interrupt k2)" "quiescent (after_interrupt k2)"
    "if pending_reschedule_kind k1 = 0 then k2 = polls_ready k1 else rescheduled (now e) k1 k2" by blast
  then have "isr_outcome (now e) k1 (after_interrupt k2)"
    by (cases "pending_reschedule_kind k1 = 0")
      (simp_all add: isr_outcome_def RESCHEDULE_KIND_NONE_def rescheduled_after, simp add: after_interrupt_def polls_ready_def)
  with k2(1) show ?thesis by blast
qed

lemma isr_outcome_threshold [simp]: "isr_outcome n k1 (k\<lparr>interrupt_threshold := t\<rparr>) = isr_outcome n k1 k"
proof -
  have "next_alarm (k\<lparr>interrupt_threshold := t\<rparr>) = next_alarm k" by (simp add: next_alarm_def split: list.split)
  then have "rescheduled n k1 (k\<lparr>interrupt_threshold := t\<rparr>) = rescheduled n k1 k"
    by (simp add: rescheduled_def sched_frame_def waits_def)
  then show ?thesis by (simp add: isr_outcome_def)
qed

context interrupt_controller
begin

lemma dispatch_ok:
  assumes q: "quiescent (mach_kernel m)"
    and claim: "claim_interrupt C (hal_set_threshold C (interrupt_threshold (mach_kernel m)) (hw (mach_hw m))) = Inr (c, h1)"
    and number: "unat (get_interrupt_number C c) \<le> MAX_INTERRUPT_NUMBER C"
      "length (INTERRUPT_VECTORS m) = MAX_INTERRUPT_NUMBER C + 1"
    and vec: "INTERRUPT_VECTORS m ! unat (get_interrupt_number C c) = \<lparr>handler_ptr = Some f, icb_ptr = Some i\<rparr>"
    and run: "closure_wrapper a (mach_storages m) f i
        ((at_interrupt i (mach_kernel m))\<lparr>interrupt_threshold := hal_get_threshold C h1\<rparr>) = Inr ((), k1)"
      "isr_done i k1"
    and complete: "\<And>h. \<exists>h3. complete_interrupt C c h = Inr h3"
  shows "\<exists>m'. kernel_interrupt_handler C a e m = Inr ((), m') \<and> isr_outcome (now e) k1 (mach_kernel m')
     \<and> interrupt_threshold (mach_kernel m') = interrupt_threshold (mach_kernel m)
     \<and> INTERRUPT_VECTORS m' = INTERRUPT_VECTORS m \<and> mach_storages m' = mach_storages m
     \<and> (\<exists>t. complete_interrupt C c (hal_set_threshold C t h1) = Inr (hw (mach_hw m')))"
proof -
  let ?k = "(mach_kernel m)\<lparr>interrupt_threshold := hal_get_threshold C h1\<rparr>"
  let ?m1 = "m\<lparr>mach_hw := (mach_hw m)\<lparr>hw := h1\<rparr>, mach_kernel := ?k\<rparr>"
  have m1: "with_threshold C (claim_interrupt C) m = Inr (c, ?m1)" using claim by (simp add: with_threshold_def)
  obtain k2 where k2: "interrupt_context e i (closure_wrapper a (mach_storages m) f i) ?k = Inr ((), k2)"
    "isr_outcome (now e) k1 k2"
    using isr_context_ok [of ?k "closure_wrapper a (mach_storages m) f i" i "()" k1 e] q run by auto
  obtain h3 where h3: "complete_interrupt C c (hal_set_threshold C (interrupt_threshold k2) h1) = Inr h3"
    using complete by blast
  have "hal_get_threshold C h3 = interrupt_threshold (mach_kernel m)"
    using complete_law [OF claim h3] threshold_law by simp
  moreover have "get_interrupt_vector (get_interrupt_number C c) ?m1 = Inr \<lparr>handler_ptr = Some f, icb_ptr = Some i\<rparr>"
    using number vec by (simp add: get_interrupt_vector_def)
  ultimately show ?thesis
    using m1 k2 h3 number(1) by (auto simp: kernel_interrupt_handler_def Let_def with_threshold_def)
qed

end

section \<open>Attaching\<close>

lemma upd_interrupt_quiescent [simp]:
  "quiescent (upd_interrupt i f k) = quiescent k" "settled j (upd_interrupt i f k) = settled j k"
  by (simp_all add: quiescent_def settled_def upd_interrupt_def stacks_alive_def threads_only_def)

lemma i_raise_simps:
  "fst (i_raise_nesting_lock_priority i p k) = fst (i_lock_priorities (interrupts k i))"
  "quiescent (snd (i_raise_nesting_lock_priority i p k)) = quiescent k"
  "quiescent (i_set_nesting_lock_priority i q k) = quiescent k"
  "current_thread (snd (i_raise_nesting_lock_priority i p k)) = current_thread k"
  "current_thread (i_set_nesting_lock_priority i q k) = current_thread k"
  by (simp_all add: i_raise_nesting_lock_priority_def i_set_nesting_lock_priority_def Let_def set_ceiling_threshold_of)
    (simp_all add: upd_interrupt_def)

text \<open>
  The state in which the handler is polled: its closure and its vector are set and the priority is
  raised.
\<close>

definition attaching :: "iptr \<Rightarrow> nat \<Rightarrow> u8 \<Rightarrow> kernel \<Rightarrow> kernel" where
  "attaching i c t k =
     snd (i_raise_nesting_lock_priority i (i_base_priority (interrupts k i))
       ((upd_interrupt i (\<lambda>x. x\<lparr>closure_ptr := Some c\<rparr>) k)\<lparr>interrupt_threshold := t\<rparr>))"

lemma attaching_simps:
  "quiescent (attaching i c t k) = quiescent k" "current_thread (attaching i c t k) = current_thread k"
  by (simp_all add: attaching_def i_raise_simps) (simp add: upd_interrupt_def)

lemma raw_attach_ok:
  fixes C :: "('h, 'c) controller"
  assumes q: "quiescent (mach_kernel m)"
    and prio: "hal_set_interrupt_priority C n (get_value (i_base_priority (interrupts (mach_kernel m) i)))
        (hal_set_threshold C (interrupt_threshold (mach_kernel m)) (hw (mach_hw m))) = Inr (old, h1)"
    and n: "n = intnum (interrupts (mach_kernel m) i)" "unat n < length (INTERRUPT_VECTORS m)"
    and poll: "attach_poll a (mach_storages m) (at_interrupt i (attaching i c (hal_get_threshold C h1) (mach_kernel m))) = Inr ((), k1)"
      "isr_done i k1"
  shows "\<exists>k2. raw_attach C a e i f c m = Inr ((), m\<lparr>mach_hw := (mach_hw m)\<lparr>hw := h1\<rparr>,
        INTERRUPT_VECTORS := (INTERRUPT_VECTORS m)[unat n := \<lparr>handler_ptr = Some f, icb_ptr = Some i\<rparr>],
        mach_kernel := i_set_nesting_lock_priority i (fst (i_lock_priorities (interrupts (mach_kernel m) i))) k2\<rparr>)
     \<and> interrupt_context e i (attach_poll a (mach_storages m)) (attaching i c (hal_get_threshold C h1) (mach_kernel m)) = Inr ((), k2)
     \<and> isr_outcome (now e) k1 k2"
proof -
  let ?k = "attaching i c (hal_get_threshold C h1) (mach_kernel m)"
  obtain k2 where k2: "interrupt_context e i (attach_poll a (mach_storages m)) ?k = Inr ((), k2)" "isr_outcome (now e) k1 k2"
    using isr_context_ok [of ?k "attach_poll a (mach_storages m)" i "()" k1 e] q poll by (auto simp: attaching_simps)
  have "raw_attach C a e i f c m = Inr ((), m\<lparr>mach_hw := (mach_hw m)\<lparr>hw := h1\<rparr>,
        INTERRUPT_VECTORS := (INTERRUPT_VECTORS m)[unat n := \<lparr>handler_ptr = Some f, icb_ptr = Some i\<rparr>],
        mach_kernel := i_set_nesting_lock_priority i (fst (i_lock_priorities (interrupts (mach_kernel m) i))) k2\<rparr>)"
    using prio n k2(1) unfolding raw_attach_def Let_def with_threshold_def set_interrupt_vector_def attaching_def
    by (simp add: upd_interrupt_def split_def i_raise_simps)
  with k2 show ?thesis by blast
qed

lemma attach_poll_none:
  assumes "executor_of a i st = Inr None"
  shows "attach_poll a st (at_interrupt i k) = Inr ((), at_interrupt i k)"
  using assms by (simp add: attach_poll_def tls_get_def current_storage_def current_execution_context_def at_interrupt_def
      executor_of_def split: option.splits)

lemma quiescent_isr_done: "quiescent k \<Longrightarrow> isr_done i (at_interrupt i k)"
  by (simp add: isr_done_def quiescent_def at_interrupt_settled) (simp add: at_interrupt_def RESCHEDULE_KIND_NONE_def)

lemma interrupt_context_nothing:
  assumes "quiescent k" and "f (at_interrupt i k) = Inr ((), at_interrupt i k)"
  shows "interrupt_context e i f k = Inr ((), polls_ready k)"
proof -
  have st: "settled (Some i) (at_interrupt i k)" "pending_reschedule_kind (at_interrupt i k) = 0" "settled None k"
    using assms(1) by (simp_all add: quiescent_def at_interrupt_settled) (simp add: at_interrupt_def)
  have "current_interrupt k = None" using st(3) by (simp add: settled_def)
  then have "after_interrupt (polls_ready (at_interrupt i k)) = polls_ready k"
    by (cases k) (simp add: after_interrupt_def polls_ready_def at_interrupt_def)
  then show ?thesis using interrupt_context_ok [where f = f, OF st(3) assms(2) st(1), of e] st(2) by auto
qed

text \<open>The e310x with its vector table and its priority registers.\<close>

definition e310x_sized :: "e310x machine \<Rightarrow> bool" where
  "e310x_sized m \<longleftrightarrow> length (INTERRUPT_VECTORS m) = 53 \<and> length (plic_priority (hw (mach_hw m))) = 53"

lemma e310x_attach_ok:
  fixes m :: "e310x machine"
  assumes q: "quiescent (mach_kernel m)" and sz: "e310x_sized m"
    and n: "n = intnum (interrupts (mach_kernel m) i)" "unat n \<le> 52"
    and poll: "attach_poll a (mach_storages m)
        (at_interrupt i (attaching i c (interrupt_threshold (mach_kernel m)) (mach_kernel m))) = Inr ((), k1)" "isr_done i k1"
  shows "\<exists>m' k2. interrupt_attach e310x_controller a e i f c m = Inr ((), m')
     \<and> INTERRUPT_VECTORS m' = (INTERRUPT_VECTORS m)[unat n := \<lparr>handler_ptr = Some f, icb_ptr = Some i\<rparr>]
     \<and> mach_storages m' = mach_storages m
     \<and> mach_kernel m' = i_set_nesting_lock_priority i (fst (i_lock_priorities (interrupts (mach_kernel m) i))) k2
     \<and> interrupt_context e i (attach_poll a (mach_storages m))
          (attaching i c (interrupt_threshold (mach_kernel m)) (mach_kernel m)) = Inr ((), k2)
     \<and> isr_outcome (now e) k1 k2"
proof -
  let ?C = e310x_controller and ?m = "m\<lparr>mach_hw := il_enter e_acquire (mach_hw m)\<rparr>"
  let ?p = "get_value (i_base_priority (interrupts (mach_kernel m) i))"
  let ?h = "hal_set_threshold ?C (interrupt_threshold (mach_kernel m)) (hw (il_enter e_acquire (mach_hw m)))"
  have len: "length (plic_priority ?h) = 53" "length (INTERRUPT_VECTORS m) = 53"
    using sz by (simp_all add: e310x_sized_def il_enter_def e_acquire_def e310x_controller_def e_set_interrupt_threshold_def)
  then obtain old h1 where h1: "hal_set_interrupt_priority ?C n ?p ?h = Inr (old, h1)" "plic_threshold h1 = plic_threshold ?h"
    using n(2) by (auto simp: e310x_controller_def e_set_interrupt_priority_def e_acquire_def e_restore_def Let_def)
  have t: "hal_get_threshold ?C h1 = interrupt_threshold (mach_kernel m)"
    using h1(2) e310x_irq.threshold_law [of "interrupt_threshold (mach_kernel m)" "hw (il_enter e_acquire (mach_hw m))"]
    by (simp add: e310x_controller_def e_get_interrupt_threshold_def)
  note raw_attach_ok [where m = ?m and C = ?C and a = a and n = n and i = i and c = c and e = e and f = f and ?k1.0 = k1
      and old = old and ?h1.0 = h1]
  then obtain k2 where k2: "raw_attach ?C a e i f c ?m = Inr ((), ?m\<lparr>mach_hw := (mach_hw ?m)\<lparr>hw := h1\<rparr>,
        INTERRUPT_VECTORS := (INTERRUPT_VECTORS m)[unat n := \<lparr>handler_ptr = Some f, icb_ptr = Some i\<rparr>],
        mach_kernel := i_set_nesting_lock_priority i (fst (i_lock_priorities (interrupts (mach_kernel m) i))) k2\<rparr>)"
    "interrupt_context e i (attach_poll a (mach_storages m))
          (attaching i c (interrupt_threshold (mach_kernel m)) (mach_kernel m)) = Inr ((), k2)"
    "isr_outcome (now e) k1 k2"
    using q h1(1) n len poll t by auto
  have "hal_acquire ?C = e_acquire" by (simp add: e310x_controller_def)
  with k2 show ?thesis by (auto simp: interrupt_attach_def interrupt_lock_with_def)
qed

text \<open>
  The interrupt \<open>n\<close> is pending in \<open>m\<close>, where the handler \<open>i\<close> has the closure at \<open>c\<close>; \<open>k1\<close> is the
  state in which that closure leaves the kernel.
\<close>

definition interrupt_arrives :: "app \<Rightarrow> u16 \<Rightarrow> iptr \<Rightarrow> nat \<Rightarrow> nat \<Rightarrow> e310x machine \<Rightarrow> kernel \<Rightarrow> bool" where
  "interrupt_arrives a n i f c m k1 \<longleftrightarrow>
     (let k = mach_kernel m; h = hw (mach_hw m) in
        quiescent k \<and> e310x_sized m \<and> closure_ptr (interrupts k i) = Some c \<and> plic_claim h = ucast n
      \<and> closure_code a f c ((at_interrupt i k)\<lparr>interrupt_threshold := ucast (plic_priority h ! unat n)\<rparr>) = Inr k1
      \<and> isr_done i k1)"

lemma number_in_register: "ucast (ucast n :: u32) = (n :: u16)"
  by (rule bit_word_eqI) (simp add: bit_simps)

lemma e310x_dispatch_ok:
  assumes arr: "interrupt_arrives a n i f c m k1" and n: "unat n \<le> 52"
    and vec: "INTERRUPT_VECTORS m ! unat n = \<lparr>handler_ptr = Some f, icb_ptr = Some i\<rparr>"
    and ex: "executor_of a i (mach_storages m) = Inr None"
  shows "\<exists>m'. kernel_interrupt_handler e310x_controller a e m = Inr ((), m') \<and> isr_outcome (now e) k1 (mach_kernel m')
     \<and> interrupt_threshold (mach_kernel m') = interrupt_threshold (mach_kernel m)
     \<and> hd (plic_completed (hw (mach_hw m'))) = ucast n"
proof -
  let ?C = e310x_controller and ?h = "hw (mach_hw m)"
  let ?g = "hal_set_threshold ?C (interrupt_threshold (mach_kernel m)) ?h"
  note d = arr [unfolded interrupt_arrives_def Let_def e310x_sized_def]
  have "plic_priority ?g = plic_priority ?h" "plic_claim ?g = ucast n"
    using d by (simp_all add: e310x_controller_def e_set_interrupt_threshold_def)
  then obtain cl h1 where cl: "claim_interrupt ?C ?g = Inr (cl, h1)" "get_interrupt_number ?C cl = n"
    "hal_get_threshold ?C h1 = ucast (plic_priority ?h ! unat n)"
    using d n by (simp add: e310x_controller_def e_claim_interrupt_def e_get_interrupt_priority_def number_in_register
        e_restore_def e_get_interrupt_threshold_def e_set_interrupt_threshold_def byte_in_register Let_def)
  have cpl: "complete_interrupt ?C cl h = Inr (e_complete_interrupt cl h)" for h by (simp add: e310x_controller_def)
  have run: "closure_wrapper a (mach_storages m) f i
      ((at_interrupt i (mach_kernel m))\<lparr>interrupt_threshold := hal_get_threshold ?C h1\<rparr>) = Inr ((), k1)"
    using d ex cl(3) by (simp add: closure_wrapper_def) (simp add: at_interrupt_def)
  have q: "quiescent (mach_kernel m)" "isr_done i k1" "length (INTERRUPT_VECTORS m) = MAX_INTERRUPT_NUMBER ?C + 1"
    "unat (get_interrupt_number ?C cl) \<le> MAX_INTERRUPT_NUMBER ?C"
    using d n cl(2) by (simp_all add: e310x_controller_def)
  from e310x_irq.dispatch_ok [OF q(1) cl(1) q(4,3) _ run q(2), of e] vec cl(2) cpl
  obtain m' t where m': "kernel_interrupt_handler ?C a e m = Inr ((), m')" "isr_outcome (now e) k1 (mach_kernel m')"
    "interrupt_threshold (mach_kernel m') = interrupt_threshold (mach_kernel m)"
    "complete_interrupt ?C cl (hal_set_threshold ?C t h1) = Inr (hw (mach_hw m'))" by auto
  have "hw (mach_hw m') = e_complete_interrupt cl (hal_set_threshold ?C t h1)" using m'(4) cpl by simp
  then have "hd (plic_completed (hw (mach_hw m'))) = ucast n"
    using cl(2) by (simp add: e310x_controller_def e_complete_interrupt_def Let_def)
  with m' show ?thesis by blast
qed

section \<open>Properties\<close>

text \<open>
  Claim C12. On the e310x, a handler without an executor and its interrupt. Attaching it fills its entry of the vector
  table and leaves the others alone. From then on, in any state with this table, when the interrupt
  is pending: the claim finds the handler, its closure runs once, in the interrupt context and with
  the threshold at the interrupt's priority, the claim is completed, the threshold is what it was
  before the interrupt, and the kernel is quiescent again, with a more urgent thread running if the
  closure has asked for a reschedule.
\<close>

theorem attached_handler_runs:
  fixes m :: "e310x machine"
  assumes "quiescent (mach_kernel m)" and "e310x_sized m" and n: "n = intnum (interrupts (mach_kernel m) i)"
    and "unat n \<le> 52" and "executor_of a i (mach_storages m) = Inr None"
  shows "\<exists>m'. interrupt_attach e310x_controller a e i f c m = Inr ((), m')
     \<and> quiescent (mach_kernel m') \<and> is_attached i (mach_kernel m')
     \<and> length (INTERRUPT_VECTORS m') = length (INTERRUPT_VECTORS m) \<and> mach_storages m' = mach_storages m
     \<and> (\<forall>j < 53. j \<noteq> unat n \<longrightarrow> INTERRUPT_VECTORS m' ! j = INTERRUPT_VECTORS m ! j)
     \<and> (\<forall>e2 m2 k1. INTERRUPT_VECTORS m2 = INTERRUPT_VECTORS m' \<longrightarrow> mach_storages m2 = mach_storages m' \<longrightarrow>
          interrupt_arrives a n i f c m2 k1 \<longrightarrow>
          (\<exists>m3. kernel_interrupt_handler e310x_controller a e2 m2 = Inr ((), m3)
             \<and> isr_outcome (now e2) k1 (mach_kernel m3)
             \<and> interrupt_threshold (mach_kernel m3) = interrupt_threshold (mach_kernel m2)
             \<and> hd (plic_completed (hw (mach_hw m3))) = ucast n))"
proof -
  let ?k = "attaching i c (interrupt_threshold (mach_kernel m)) (mach_kernel m)"
  have qk: "quiescent ?k" using assms(1) by (simp add: attaching_simps)
  note none = attach_poll_none [OF assms(5), of ?k]
  obtain m' k2 where m': "interrupt_attach e310x_controller a e i f c m = Inr ((), m')"
    "INTERRUPT_VECTORS m' = (INTERRUPT_VECTORS m)[unat n := \<lparr>handler_ptr = Some f, icb_ptr = Some i\<rparr>]"
    "mach_storages m' = mach_storages m"
    "mach_kernel m' = i_set_nesting_lock_priority i (fst (i_lock_priorities (interrupts (mach_kernel m) i))) k2"
    "interrupt_context e i (attach_poll a (mach_storages m)) ?k = Inr ((), k2)" "isr_outcome (now e) (at_interrupt i ?k) k2"
    using e310x_attach_ok [OF assms(1,2) n assms(4) none quiescent_isr_done [OF qk], of e f] by blast
  have "k2 = polls_ready ?k" using interrupt_context_nothing [where f = "attach_poll a (mach_storages m)", OF qk none, of e] m'(5) by simp
  then have "is_attached i (mach_kernel m')"
    using m'(4) by (simp add: is_attached_def i_set_nesting_lock_priority_def Let_def set_ceiling_threshold_of
        upd_interrupt_def polls_ready_def attaching_def i_raise_nesting_lock_priority_def)
  moreover have "quiescent (mach_kernel m')" using m'(4,6) by (simp add: i_raise_simps isr_outcome_def)
  moreover have "INTERRUPT_VECTORS m' ! unat n = \<lparr>handler_ptr = Some f, icb_ptr = Some i\<rparr>"
    using m'(2) assms(2,4) by (simp add: e310x_sized_def)
  ultimately show ?thesis
    using m'(1-3) assms(5) e310x_dispatch_ok [OF _ assms(4), of a i f c] by auto
qed

definition sample_app :: app where
  "sample_app =
     \<lparr>closure_code = \<lambda>_ _ k. resume_thread (sample_env 0) no_yield 3 k,
      poll_on_attach = \<lambda>_ k. resume_thread (sample_env 0) no_yield 3 k, poll_on_interrupt = \<lambda>_. Inr, executor_type = 1\<rparr>"

text \<open>A handler (5) for the interrupt 3, of priority 2; the flag says whether it has an executor.\<close>

definition sample_machine :: "bool \<Rightarrow> e310x machine" where
  "sample_machine executor =
     \<lparr>mach_kernel = upd_interrupt 5 (\<lambda>_. raw_interrupt_new 3 (Interrupt 2)) sample_quiet,
      INTERRUPT_VECTORS = initial_vectors 52,
      mach_storages = \<lparr>thread_storage = \<lambda>_. None,
        interrupt_storage = (\<lambda>_. None)(5 := if executor then Some [\<lparr>entry_key = Some 1, entry_value = Some 9\<rparr>] else None)\<rparr>,
      mach_hw = \<lparr>INTERRUPT_LOCK_NESTING = 0,
        hw = \<lparr>plic_priority = replicate 53 2, plic_threshold = 0, plic_enable = [0, 0], plic_claim = 3, plic_completed = [],
              mie = True, mtimecmp = 0, mtimecmph = 0\<rparr>\<rparr>\<rparr>"

lemma sample_machine_facts:
  "quiescent (mach_kernel (sample_machine x))" "e310x_sized (sample_machine x)"
  "interrupts (mach_kernel (sample_machine x)) 5 = raw_interrupt_new 3 (Interrupt 2)"
  "intnum (interrupts (mach_kernel (sample_machine x)) 5) = 3" "unat (3 :: u16) \<le> 52"
  "executor_of sample_app 5 (mach_storages (sample_machine False)) = Inr None"
  "\<not> is_attached 5 (mach_kernel (sample_machine x))"
  by (simp_all add: sample_machine_def sample_quiet_quiescent e310x_sized_def initial_vectors_def executor_of_def)
    (simp_all add: upd_interrupt_def raw_interrupt_new_def is_attached_def)

text \<open>Its interrupt, when the handler is attached and its closure resumes thread 3, is dispatched and completed.\<close>

theorem attached_handler_runs_witness:
  "\<exists>m' m2 m3. interrupt_attach e310x_controller sample_app (sample_env 0) 5 7 8 (sample_machine False) = Inr ((), m')
     \<and> INTERRUPT_VECTORS m2 = INTERRUPT_VECTORS m' \<and> plic_claim (hw (mach_hw m2)) = 3
     \<and> kernel_interrupt_handler e310x_controller sample_app (sample_env 0) m2 = Inr ((), m3)
     \<and> quiescent (mach_kernel m3) \<and> hd (plic_completed (hw (mach_hw m3))) = 3"
proof -
  let ?m = "sample_machine False" and ?e = "sample_env 0"
  obtain m' where m': "interrupt_attach e310x_controller sample_app ?e 5 7 8 ?m = Inr ((), m')"
    "length (INTERRUPT_VECTORS m') = length (INTERRUPT_VECTORS ?m)" "mach_storages m' = mach_storages ?m"
    and run: "\<And>m2 k1. INTERRUPT_VECTORS m2 = INTERRUPT_VECTORS m' \<Longrightarrow> mach_storages m2 = mach_storages m' \<Longrightarrow>
      interrupt_arrives sample_app 3 5 7 8 m2 k1 \<Longrightarrow>
      \<exists>m3. kernel_interrupt_handler e310x_controller sample_app ?e m2 = Inr ((), m3)
        \<and> isr_outcome (now ?e) k1 (mach_kernel m3) \<and> hd (plic_completed (hw (mach_hw m3))) = ucast (3 :: u16)"
    using attached_handler_runs [OF sample_machine_facts(1,2) sample_machine_facts(4) [symmetric] sample_machine_facts(5,6),
        of "sample_env 0" 7 8] by metis
  let ?k = "upd_interrupt 5 (\<lambda>x. x\<lparr>closure_ptr := Some 8\<rparr>) (mach_kernel ?m)"
  let ?m2 = "?m\<lparr>INTERRUPT_VECTORS := INTERRUPT_VECTORS m', mach_kernel := ?k\<rparr>"
  let ?ki = "(at_interrupt 5 ?k)\<lparr>interrupt_threshold := ucast (plic_priority (hw (mach_hw ?m)) ! unat (3 :: u16))\<rparr>"
  have q: "quiescent ?k" using sample_machine_facts(1) by simp
  have st: "settled (Some 5) ?ki" "pending_reschedule_kind ?ki = 0"
    using at_interrupt_settled [OF quiescentD(8) [OF q]] quiescentD(6) [OF q] by (simp_all) (simp add: at_interrupt_def)
  obtain k1 where k1: "resume_thread ?e no_yield 3 ?ki = Inr (unlocked k1)" "resumed 3 ?ki k1" "settled (Some 5) (unlocked k1)"
    using isr_resume_settled [OF st(1)] by blast
  have "isr_done 5 (unlocked k1)"
    using k1(3) resumed_kind [OF k1(2) st(2)] by (simp add: isr_done_def RESCHEDULE_KIND_NONE_def)
  moreover have "closure_ptr (interrupts ?k 5) = Some 8" "e310x_sized ?m2" "plic_claim (hw (mach_hw ?m)) = 3"
    using sample_machine_facts(2) [of False] m'(2) by (simp_all add: upd_interrupt_def e310x_sized_def) (simp add: sample_machine_def)
  ultimately have arr: "interrupt_arrives sample_app 3 5 7 8 ?m2 (unlocked k1)" and pl: "plic_claim (hw (mach_hw ?m2)) = 3"
    using q k1(1) by (simp_all add: interrupt_arrives_def Let_def sample_app_def)
  obtain m3 where "kernel_interrupt_handler e310x_controller sample_app ?e ?m2 = Inr ((), m3)"
    "isr_outcome (now ?e) (unlocked k1) (mach_kernel m3)" "hd (plic_completed (hw (mach_hw m3))) = 3"
    using run [OF _ _ arr] m'(3) by auto
  moreover have "INTERRUPT_VECTORS ?m2 = INTERRUPT_VECTORS m'" by simp
  ultimately show ?thesis using m'(1) pl unfolding isr_outcome_def by blast
qed

text \<open>
  What goes wrong without an attached handler: enabling the interrupt of such a handler panics,
  an interrupt number outside the table panics, and an interrupt with an empty vector is a call
  through a null pointer.
\<close>

theorem unattached_interrupt_errors:
  "(\<not> is_attached i (mach_kernel m) \<longrightarrow>
      interrupt_enable C i m = Inl (Panic ''Attempt to enable interrupt that has not been attached''))
   \<and> (with_threshold C (claim_interrupt C) m = Inr (cl, m1) \<longrightarrow>
      (unat (get_interrupt_number C cl) > MAX_INTERRUPT_NUMBER C \<longrightarrow>
         kernel_interrupt_handler C a e m = Inl (Panic ''unexpected interrupt''))
    \<and> (unat (get_interrupt_number C cl) \<le> MAX_INTERRUPT_NUMBER C \<longrightarrow>
       length (INTERRUPT_VECTORS m) = MAX_INTERRUPT_NUMBER C + 1 \<longrightarrow>
       handler_ptr (INTERRUPT_VECTORS m ! unat (get_interrupt_number C cl)) = None \<longrightarrow>
         kernel_interrupt_handler C a e m = Inl UninitRead))"
proof -
  have "INTERRUPT_VECTORS m1 = INTERRUPT_VECTORS m" if "with_threshold C (claim_interrupt C) m = Inr (cl, m1)"
    using that by (auto simp: with_threshold_def elim!: bind_res_InrE)
  then show ?thesis
    by (auto simp: interrupt_enable_def interrupt_lock_with_def kernel_interrupt_handler_def get_interrupt_vector_def
        Let_def)
qed

theorem unattached_interrupt_errors_witness:
  "interrupt_enable e310x_controller 5 (sample_machine False)
     = Inl (Panic ''Attempt to enable interrupt that has not been attached'')
   \<and> kernel_interrupt_handler e310x_controller sample_app (sample_env 0) (sample_machine False) = Inl UninitRead"
proof -
  let ?C = e310x_controller and ?m = "sample_machine False"
  obtain cl m1 where cl: "with_threshold ?C (claim_interrupt ?C) ?m = Inr (cl, m1)" "get_interrupt_number ?C cl = 3"
    by (simp add: with_threshold_def e310x_controller_def e_claim_interrupt_def sample_machine_def
        e_get_interrupt_priority_def e_set_interrupt_threshold_def e_restore_def Let_def)
  have "MAX_INTERRUPT_NUMBER ?C = 52" "length (INTERRUPT_VECTORS ?m) = 53" "handler_ptr (INTERRUPT_VECTORS ?m ! 3) = None"
    by (simp_all add: e310x_controller_def sample_machine_def initial_vectors_def nth_Cons_numeral)
  then show ?thesis
    using unattached_interrupt_errors [of 5 ?m ?C cl m1 sample_app "sample_env 0"] cl sample_machine_facts(7) by simp
qed

text \<open>
  Attaching leaves interrupts masked. The priority that is restored at the end is the handler's
  own, not the thread's: in the thread that has attached a handler of priority \<open>p\<close> the threshold
  stays at \<open>p\<close>, whatever it was before, so that neither this interrupt nor any other up to \<open>p\<close> is
  delivered.
\<close>

theorem attach_leaves_threshold_raised:
  fixes m :: "e310x machine"
  assumes "quiescent (mach_kernel m)" and "e310x_sized m"
    and icb: "interrupts (mach_kernel m) i = raw_interrupt_new n (Interrupt p)" and "unat n \<le> 52"
    and "executor_of a i (mach_storages m) = Inr None"
  shows "\<exists>m'. interrupt_attach e310x_controller a e i f c m = Inr ((), m') \<and> interrupt_threshold (mach_kernel m') = p"
proof -
  let ?k = "attaching i c (interrupt_threshold (mach_kernel m)) (mach_kernel m)"
  have qk: "quiescent ?k" using assms(1) by (simp add: attaching_simps)
  have n: "n = intnum (interrupts (mach_kernel m) i)" using icb by (simp add: raw_interrupt_new_def)
  note none = attach_poll_none [OF assms(5), of ?k]
  obtain m' k2 where m': "interrupt_attach e310x_controller a e i f c m = Inr ((), m')"
    "mach_kernel m' = i_set_nesting_lock_priority i (fst (i_lock_priorities (interrupts (mach_kernel m) i))) k2"
    "interrupt_context e i (attach_poll a (mach_storages m)) ?k = Inr ((), k2)"
    using e310x_attach_ok [OF assms(1,2) n assms(4) none quiescent_isr_done [OF qk], of e f] by blast
  have "k2 = polls_ready ?k"
    using interrupt_context_nothing [where f = "attach_poll a (mach_storages m)", OF qk none, of e] m'(3) by simp
  then have "interrupt_threshold (mach_kernel m') = p"
    using m'(2) icb by (simp add: i_set_nesting_lock_priority_def Let_def set_ceiling_threshold_of
        upd_interrupt_def polls_ready_def attaching_def i_raise_nesting_lock_priority_def raw_interrupt_new_def)
  with m'(1) show ?thesis by blast
qed

theorem attach_leaves_threshold_raised_witness:
  "interrupt_threshold (mach_kernel (sample_machine False)) = 0
   \<and> (\<exists>m'. interrupt_attach e310x_controller sample_app (sample_env 0) 5 7 8 (sample_machine False) = Inr ((), m')
        \<and> interrupt_threshold (mach_kernel m') = 2)"
  using attach_leaves_threshold_raised [OF sample_machine_facts(1-3,5,6), of "sample_env 0" 7 8]
  by (simp add: sample_machine_def upd_interrupt_def sample_quiet_def sample_kernel_def)

text \<open>
  Attaching can switch threads behind the processor's back. The interrupt context in which the
  handler is polled performs the pending reschedule, but the attaching code is not in a trap whose
  return would load the new thread's registers: \<open>attach\<close> returns to its caller while the kernel
  takes another thread for the running one.
\<close>

theorem attach_switches_without_trap:
  fixes m :: "e310x machine"
  assumes "quiescent (mach_kernel m)" and "e310x_sized m" and "n = intnum (interrupts (mach_kernel m) i)" and "unat n \<le> 52"
    and poll: "attach_poll a (mach_storages m)
        (at_interrupt i (attaching i c (interrupt_threshold (mach_kernel m)) (mach_kernel m))) = Inr ((), k1)" "isr_done i k1"
    and asked: "pending_reschedule_kind k1 \<noteq> RESCHEDULE_KIND_NONE" "current_thread k1 = current_thread (mach_kernel m)"
    and urgent: "u \<in> set (ready_queue k1)" "priority (threads k1 (current_thread k1)) < priority (threads k1 u)"
  shows "\<exists>m'. interrupt_attach e310x_controller a e i f c m = Inr ((), m')
     \<and> current_thread (mach_kernel m') \<noteq> current_thread (mach_kernel m)"
proof -
  obtain m' k2 where m': "interrupt_attach e310x_controller a e i f c m = Inr ((), m')"
    "mach_kernel m' = i_set_nesting_lock_priority i (fst (i_lock_priorities (interrupts (mach_kernel m) i))) k2"
    "isr_outcome (now e) k1 k2"
    using e310x_attach_ok [OF assms(1-4) poll, of e f] by blast
  have r: "rescheduled (now e) k1 k2" using m'(3) asked(1) by (simp add: isr_outcome_def)
  have "current_thread k2 \<noteq> current_thread k1"
  proof
    assume same: "current_thread k2 = current_thread k1"
    have "u \<in> {idle_thread k1, current_thread k2} \<union> set (ready_queue k2)" using r urgent(1) by (auto simp: rescheduled_def)
    moreover have "u \<noteq> idle_thread k1" "u \<noteq> current_thread k1"
      using inv_placed [of "{}" k1] poll(2) urgent(1) by (auto simp: isr_done_def settled_def placed_def)
    ultimately have "u \<in> set (ready_queue k2)" using same by auto
    then have "tprio (threads k1) u \<le> tprio (threads k1) (current_thread k1)"
      using r same by (auto simp: rescheduled_def sched_frame_def)
    with urgent(2) show False by (simp add: tprio_def)
  qed
  then show ?thesis using m'(1,2) asked(2) by (simp add: i_raise_simps)
qed

theorem attach_switches_without_trap_witness:
  "\<exists>m'. interrupt_attach e310x_controller sample_app (sample_env 0) 5 7 8 (sample_machine True) = Inr ((), m')
     \<and> current_thread (mach_kernel m') \<noteq> current_thread (mach_kernel (sample_machine True))"
proof -
  let ?m = "sample_machine True" and ?e = "sample_env 0"
  let ?k = "attaching 5 8 (interrupt_threshold (mach_kernel ?m)) (mach_kernel ?m)"
  have q: "quiescent ?k" using sample_machine_facts(1) by (simp add: attaching_simps)
  have same: "threads ?k = threads sample_quiet" "ready_queue ?k = ready_queue sample_quiet"
    "blocked_list ?k = [3]" "current_thread ?k = 1" "pending_reschedule_kind ?k = 0"
    by (simp_all add: attaching_def i_raise_nesting_lock_priority_def Let_def set_ceiling_threshold_of upd_interrupt_def
        sample_machine_def sample_quiet_def sample_kernel_def)
  have pr: "tprio (threads ?k) 3 = Thread 9" "tprio (threads ?k) 1 = Thread 3" "tlock (threads ?k) 1 = SInvalid"
    "tstate (threads ?k) 3 = Blocked"
    by (simp_all add: same view_defs sample_quiet_def sample_kernel_def sample_thread_def raw_thread_new_def
        priority_defs max_valid_priority)
  obtain k1 where k1: "resume_thread ?e no_yield 3 (at_interrupt 5 ?k) = Inr (unlocked k1)" "resumed 3 ?k k1"
    "settled (Some 5) (unlocked k1)" "pending_reschedule_kind (unlocked k1) = (if resume_preempts 3 k1 then 1 else 0)"
    using isr_resume_body [OF q, of ?e 3 5] by blast
  have k1': "3 \<in> set (ready_queue k1)" "set (blocked_list k1) = {}" "current_thread k1 = 1" "sched_frame ?k k1"
    using k1(2) pr(4) same by (simp_all add: resumed_def)
  have "resume_preempts 3 k1"
    using k1' pr by (simp add: resume_preempts_def view_folds locks_priority_ceiling_def sched_frame_def max_valid_priority)
  then have fin: "isr_done 5 (unlocked k1)" "pending_reschedule_kind (unlocked k1) \<noteq> RESCHEDULE_KIND_NONE"
    using k1(3,4) by (simp_all add: isr_done_def RESCHEDULE_KIND_NONE_def)
  have "tls_get 1 (at_interrupt 5 ?k) (mach_storages ?m) = Inr (Some 9)"
    by (simp add: tls_get_def current_storage_def current_execution_context_def at_interrupt_def sample_machine_def raw_get_def)
  then have poll: "attach_poll sample_app (mach_storages ?m) (at_interrupt 5 ?k) = Inr ((), unlocked k1)"
    using k1(1) by (simp add: attach_poll_def sample_app_def)
  have "current_thread (unlocked k1) = current_thread (mach_kernel ?m)" "3 \<in> set (ready_queue (unlocked k1))"
    "priority (threads (unlocked k1) (current_thread (unlocked k1))) < priority (threads (unlocked k1) 3)"
    using k1' pr by (simp_all add: sched_frame_def view_folds sample_machine_def upd_interrupt_def sample_quiet_def sample_kernel_def)
  then show ?thesis
    using attach_switches_without_trap [OF sample_machine_facts(1,2) sample_machine_facts(4) [symmetric]
        sample_machine_facts(5) poll fin] by blast
qed

end
