(* ===== verification/Syscall_Abi.thy ===== *)
theory Syscall_Abi
  imports Kernel_Steps
begin

text \<open>
  The registers in which a system call and its arguments reach the kernel (\<open>kernel/syscall.rs\<close>): the
  identifiers, what the wrappers pass, and what the handler makes of it.
\<close>

section \<open>System calls in registers\<close>

text \<open>
  The identifier and the three arguments of a system call, as the wrappers pass them. \<open>error_at\<close> is
  the address of the wrapper of an error.
\<close>

definition SYSCALL_ID_YIELD :: u32 where "SYSCALL_ID_YIELD = 1"
definition SYSCALL_ID_WAIT :: u32 where "SYSCALL_ID_WAIT = 2"
definition SYSCALL_ID_WAIT_EVENT :: u32 where "SYSCALL_ID_WAIT_EVENT = 3"
definition SYSCALL_ID_WAIT_EVENT_UNTIL :: u32 where "SYSCALL_ID_WAIT_EVENT_UNTIL = 4"
definition SYSCALL_ID_DELAY_UNTIL :: u32 where "SYSCALL_ID_DELAY_UNTIL = 5"
definition SYSCALL_ID_RUNTIME_ERROR :: u32 where "SYSCALL_ID_RUNTIME_ERROR = 6"
definition SYSCALL_ID_START_THREAD :: u32 where "SYSCALL_ID_START_THREAD = 7"
definition SYSCALL_ID_SUSPEND :: u32 where "SYSCALL_ID_SUSPEND = 8"
definition SYSCALL_ID_POLL_INTERRUPT_EXECUTOR :: u32 where "SYSCALL_ID_POLL_INTERRUPT_EXECUTOR = 9"

lemmas syscall_ids = SYSCALL_ID_YIELD_def SYSCALL_ID_WAIT_def SYSCALL_ID_WAIT_EVENT_def
  SYSCALL_ID_WAIT_EVENT_UNTIL_def SYSCALL_ID_DELAY_UNTIL_def SYSCALL_ID_RUNTIME_ERROR_def
  SYSCALL_ID_START_THREAD_def SYSCALL_ID_SUSPEND_def SYSCALL_ID_POLL_INTERRUPT_EXECUTOR_def

fun syscall_registers :: "(runtime_error \<Rightarrow> u32) \<Rightarrow> syscall \<Rightarrow> u32 \<times> u32 \<times> u32 \<times> u32" where
  "syscall_registers error_at SysYield = (SYSCALL_ID_YIELD, 0, 0, 0)"
| "syscall_registers error_at (SysWait w ceiling) = (SYSCALL_ID_WAIT, of_nat w, scast ceiling, 0)"
| "syscall_registers error_at (SysWaitEvent evs) = (SYSCALL_ID_WAIT_EVENT, evs, 0, 0)"
| "syscall_registers error_at (SysWaitEventUntil evs hi lo) = (SYSCALL_ID_WAIT_EVENT_UNTIL, evs, hi, lo)"
| "syscall_registers error_at (SysDelayUntil hi lo) = (SYSCALL_ID_DELAY_UNTIL, hi, lo, 0)"
| "syscall_registers error_at (SysRuntimeError err) = (SYSCALL_ID_RUNTIME_ERROR, error_at err, 0, 0)"
| "syscall_registers error_at (SysStartThread t) = (SYSCALL_ID_START_THREAD, of_nat t, 0, 0)"
| "syscall_registers error_at (SysSuspend maybe_thread) =
     (SYSCALL_ID_SUSPEND, (case maybe_thread of Some t \<Rightarrow> of_nat t | None \<Rightarrow> 0), 0, 0)"
| "syscall_registers error_at (SysPollInterruptExecutor i) = (SYSCALL_ID_POLL_INTERRUPT_EXECUTOR, of_nat i, 0, 0)"
| "syscall_registers error_at (SysInvalid i) = (of_nat i, 0, 0, 0)"

text \<open>Pointers fit into a register and are not null; an invalid call has no identifier of the others.\<close>

fun call_fits :: "syscall \<Rightarrow> bool" where
  "call_fits (SysWait w ceiling) \<longleftrightarrow> w < 2 ^ 32"
| "call_fits (SysStartThread t) \<longleftrightarrow> t < 2 ^ 32"
| "call_fits (SysSuspend maybe_thread) \<longleftrightarrow> (case maybe_thread of Some t \<Rightarrow> 0 < t \<and> t < 2 ^ 32 | None \<Rightarrow> True)"
| "call_fits (SysPollInterruptExecutor i) \<longleftrightarrow> i < 2 ^ 32"
| "call_fits (SysInvalid i) \<longleftrightarrow> (i = 0 \<or> 9 < i) \<and> i < 2 ^ 32"
| "call_fits _ \<longleftrightarrow> True"

text \<open>What the handler makes of the registers; \<open>error_of\<close> reads the wrapper of an error.\<close>

definition decode_syscall :: "(u32 \<Rightarrow> runtime_error) \<Rightarrow> u32 \<Rightarrow> u32 \<Rightarrow> u32 \<Rightarrow> u32 \<Rightarrow> syscall" where
  "decode_syscall error_of i arg0 arg1 arg2 =
     (if i = SYSCALL_ID_YIELD then SysYield
      else if i = SYSCALL_ID_WAIT then SysWait (unat arg0) (ucast arg1)
      else if i = SYSCALL_ID_WAIT_EVENT then SysWaitEvent arg0
      else if i = SYSCALL_ID_WAIT_EVENT_UNTIL then SysWaitEventUntil arg0 arg1 arg2
      else if i = SYSCALL_ID_DELAY_UNTIL then SysDelayUntil arg0 arg1
      else if i = SYSCALL_ID_RUNTIME_ERROR then SysRuntimeError (error_of arg0)
      else if i = SYSCALL_ID_START_THREAD then SysStartThread (unat arg0)
      else if i = SYSCALL_ID_SUSPEND then SysSuspend (if arg0 = 0 then None else Some (unat arg0))
      else if i = SYSCALL_ID_POLL_INTERRUPT_EXECUTOR then SysPollInterruptExecutor (unat arg0)
      else SysInvalid (unat i))"

definition private_kernel_syscall_handler ::
  "(u32 \<Rightarrow> runtime_error) \<Rightarrow> env \<Rightarrow> u32 \<Rightarrow> u32 \<Rightarrow> u32 \<Rightarrow> u32 \<Rightarrow> kernel \<Rightarrow> (u32 \<times> kernel) res" where
  "private_kernel_syscall_handler error_of e i arg0 arg1 arg2 k =
     kernel_syscall_handler e (decode_syscall error_of i arg0 arg1 arg2) k"

lemma pointer_in_register: "p < 2 ^ 32 \<Longrightarrow> unat (of_nat p :: u32) = p"
  by (simp add: unat_of_nat take_bit_nat_eq_self)

lemma ceiling_in_register: "ucast (scast p :: u32) = (p :: i16)"
  by (rule bit_word_eqI) (auto simp: bit_simps)

section \<open>Properties\<close>

text \<open>
  Claim C35. The registers carry every system call: what the handler decodes is what the wrapper was
  called with, for pointers that fit into a register and are not null.
\<close>

theorem syscall_abi_roundtrip:
  assumes errors: "\<And>err. error_of (error_at err) = err" and fits: "call_fits call"
    and regs: "syscall_registers error_at call = (i, arg0, arg1, arg2)"
  shows "decode_syscall error_of i arg0 arg1 arg2 = call
     \<and> private_kernel_syscall_handler error_of e i arg0 arg1 arg2 k = kernel_syscall_handler e call k"
proof -
  have d: "decode_syscall error_of i arg0 arg1 arg2 = call"
  proof (cases call)
    case (SysInvalid n)
    with fits have "unat (of_nat n :: u32) = n" "n = 0 \<or> 9 < n" by (auto simp: pointer_in_register)
    then have "(of_nat n :: u32) \<notin> {1, 2, 3, 4, 5, 6, 7, 8, 9}" by auto
    then show ?thesis using regs SysInvalid \<open>unat (of_nat n :: u32) = n\<close>
      by (auto simp: decode_syscall_def syscall_ids)
  next
    case (SysSuspend m)
    have "(of_nat t :: u32) \<noteq> 0" "unat (of_nat t :: u32) = t" if "m = Some t" for t
      using that fits SysSuspend pointer_in_register [of t] by auto
    then show ?thesis using regs SysSuspend by (cases m) (auto simp: decode_syscall_def syscall_ids)
  qed (use regs errors fits in \<open>auto simp: decode_syscall_def syscall_ids pointer_in_register ceiling_in_register\<close>)
  then show ?thesis by (simp add: private_kernel_syscall_handler_def)
qed

definition sample_errors :: "runtime_error list" where
  "sample_errors =
     [IdleTaskSuspend, CeilingPriorityViolation, LockOwnerViolation, TaskTerminated, RecursiveLock, InterruptHandlerViolation,
      BlockingForbidden, IdleThreadCeilingLock]"

definition sample_error_at :: "runtime_error \<Rightarrow> u32" where
  "sample_error_at err = of_nat (length (takeWhile (\<lambda>x. x \<noteq> err) sample_errors))"

theorem syscall_abi_roundtrip_witness:
  "syscall_registers sample_error_at (SysWait 100 (-3)) = (2, 100, - 3, 0)
   \<and> decode_syscall (\<lambda>p. sample_errors ! unat p) 2 100 (- 3) 0 = SysWait 100 (-3)"
proof -
  have errors: "sample_errors ! unat (sample_error_at err) = err" for err
    by (cases err) (simp_all add: sample_errors_def sample_error_at_def)
  have r: "syscall_registers sample_error_at (SysWait 100 (-3)) = (2, 100, - 3, 0)" by (simp add: syscall_ids)
  from syscall_abi_roundtrip [OF errors _ r] r show ?thesis by simp
qed

end
