(* ===== verification/Riscv.thy ===== *)
theory Riscv
  imports Interrupt_Dispatch Syscall_Abi
begin

text \<open>
  The RISC-V processor (\<open>scars-arch-riscv\<close>): the contexts of threads, the trap handler, and around it
  the trap vector (\<open>trap.S\<close>), which saves and restores the registers. The vector relies on two
  compiled functions to keep registers that a function may overwrite, and on no second interrupt
  before its last instruction: under these two conditions interrupts are shown to be transparent to
  every thread, and without them not to be. The result of a system call does not reach its caller.
\<close>

section \<open>Traps\<close>

record trap_frame =
  gp_regs :: "u32 list"
  frame_pc :: u32
  frame_mstatus :: u32
  frame_threshold :: u32

definition rv_stack_top_ptr :: "trap_frame \<Rightarrow> u32" where
  "rv_stack_top_ptr fr = gp_regs fr ! 1"

text \<open>
  The initial context of a thread. \<open>set_bit\<close> and \<open>set_bits\<close> are those of the package \<open>bit_field\<close>,
  \<open>mpp_machine\<close> the encoding of machine mode in the package \<open>riscv\<close>; \<open>on_abort\<close> is the address of the
  function to which a thread returns.
\<close>

definition rv_context_init ::
  "(nat \<Rightarrow> bool \<Rightarrow> u32 \<Rightarrow> u32) \<Rightarrow> (nat \<Rightarrow> nat \<Rightarrow> u32 \<Rightarrow> u32 \<Rightarrow> u32) \<Rightarrow> u32 \<Rightarrow> u32 \<Rightarrow> u32 \<Rightarrow> u32 option \<Rightarrow> u32 \<Rightarrow> trap_frame" where
  "rv_context_init set_bit' set_bits mpp_machine on_abort main argument stack_ptr =
     (let mstatus = set_bits 11 13 mpp_machine (set_bit' 7 True 0);
          regs = replicate 29 0;
          regs = regs[0 := on_abort];
          regs = regs[1 := stack_ptr];
          regs = regs[7 := (case argument of Some arg \<Rightarrow> arg | None \<Rightarrow> 0)]
      in \<lparr>gp_regs = regs, frame_pc = main, frame_mstatus = mstatus, frame_threshold = 0\<rparr>)"

datatype fault_kind =
    InstructionAddressMisaligned | InstructionAddressFault | IllegalInstruction | Breakpoint
  | LoadAddressMisaligned | LoadAccessFault | StoreAddressMisaligned | StoreAccessFault | UnknownFault

definition fault_kind_try_from :: "u32 \<Rightarrow> fault_kind option" where
  "fault_kind_try_from v =
     (if v = 0 then Some InstructionAddressMisaligned else if v = 1 then Some InstructionAddressFault
      else if v = 2 then Some IllegalInstruction else if v = 3 then Some Breakpoint
      else if v = 4 then Some LoadAddressMisaligned else if v = 5 then Some LoadAccessFault
      else if v = 6 then Some StoreAddressMisaligned else if v = 7 then Some StoreAccessFault else None)"

record riscv_fault =
  rv_fault_kind :: fault_kind
  rv_mtval :: u32
  rv_fault_frame :: nat

definition riscv_fault_new :: "fault_kind \<Rightarrow> u32 \<Rightarrow> nat \<Rightarrow> riscv_fault" where
  "riscv_fault_new kind' mtval frame = \<lparr>rv_fault_kind = kind', rv_mtval = mtval, rv_fault_frame = frame\<rparr>"

text \<open>
  The processor with the board's machine: the registers \<open>x1\<close> to \<open>x31\<close>, the program counter,
  \<open>mscratch\<close>, which holds the context of the thread that runs and is null inside a trap, and the
  frames of the threads by address. A trap resumes, or ends the program: by \<open>on_exit\<close>, or with a
  hardware error that the kernel reports.
\<close>

record rv_machine =
  rv_board :: "e310x machine"
  rv_frames :: "nat \<Rightarrow> trap_frame"
  rv_x :: "nat \<Rightarrow> u32"
  rv_pc :: u32
  rv_mscratch :: "nat option"

datatype rv_outcome = Resumed rv_machine | Exited nat | HardwareError riscv_fault

definition kernel_trap_handler ::
  "(u32 \<Rightarrow> runtime_error) \<Rightarrow> app \<Rightarrow> env \<Rightarrow> u32 \<Rightarrow> u32 \<Rightarrow> u32 \<Rightarrow> rv_machine \<Rightarrow> rv_outcome res" where
  "kernel_trap_handler error_of a e mepc mtval mcause s =
     (let is_async = (drop_bit 31 mcause AND 1 = 1);
          exception_code = mcause AND (push_bit 30 1 - 1);
          m = rv_board s
      in
      if is_async then
        (if exception_code = 7 then
           bind_res (kernel_wakeup_handler e (mach_kernel m)) (\<lambda>(_, k).
             Inr (Resumed (s\<lparr>rv_board := m\<lparr>mach_kernel := k\<rparr>\<rparr>)))
         else if exception_code = 11 then
           bind_res (kernel_interrupt_handler e310x_controller a e m) (\<lambda>(_, m1). Inr (Resumed (s\<lparr>rv_board := m1\<rparr>)))
         else Inr (Exited 1))
      else
        (case thread_context (mach_kernel m) of
           None \<Rightarrow> Inl UninitRead
         | Some ctx \<Rightarrow>
             if exception_code = 8 \<or> exception_code = 9 \<or> exception_code = 11 then
               let fr = (rv_frames s ctx)\<lparr>frame_pc := mepc + 4\<rparr>; regs = gp_regs fr in
               bind_res (private_kernel_syscall_handler error_of e (regs ! 14) (regs ! 7) (regs ! 8) (regs ! 9)
                 (mach_kernel m)) (\<lambda>(rval, k).
               Inr (Resumed (s\<lparr>rv_board := m\<lparr>mach_kernel := k\<rparr>,
                 rv_frames := (rv_frames s)(ctx := fr\<lparr>gp_regs := regs[10 := rval]\<rparr>)\<rparr>)))
             else
               Inr (HardwareError (riscv_fault_new
                 (case fault_kind_try_from exception_code of Some kind' \<Rightarrow> kind' | None \<Rightarrow> UnknownFault) mtval ctx))))"

subsection \<open>The trap vector\<close>

text \<open>
  The registers saved at the entry, those saved when the thread is switched, and the word of the
  frame that holds a register. Of \<open>mstatus\<close> the model has the bits that \<open>trap.S\<close> restores: the
  previous interrupt enable (7) and the previous mode (11 and 12), which is machine mode always; the
  interrupt enable itself is \<open>mie\<close> of the board.
\<close>

definition caller_saved :: "nat list" where
  "caller_saved = [1, 2, 5, 6, 7, 10, 11, 12, 13, 14, 15, 16, 17, 28, 29, 30, 31]"

definition callee_saved :: "nat list" where
  "callee_saved = [8, 9, 18, 19, 20, 21, 22, 23, 24, 25, 26, 27]"

definition frame_slot :: "nat \<Rightarrow> nat" where
  "frame_slot n = (if n \<le> 2 then n - 1 else n - 3)"

definition sw_registers :: "nat list \<Rightarrow> (nat \<Rightarrow> u32) \<Rightarrow> trap_frame \<Rightarrow> trap_frame" where
  "sw_registers ns x fr = fr\<lparr>gp_regs := fold (\<lambda>n regs. regs[frame_slot n := x n]) ns (gp_regs fr)\<rparr>"

definition lw_registers :: "nat list \<Rightarrow> trap_frame \<Rightarrow> (nat \<Rightarrow> u32) \<Rightarrow> nat \<Rightarrow> u32" where
  "lw_registers ns fr x = fold (\<lambda>n x. x(n := gp_regs fr ! frame_slot n)) ns x"

definition save_interrupt_threshold :: "e310x machine \<Rightarrow> trap_frame \<Rightarrow> trap_frame" where
  "save_interrupt_threshold m fr = fr\<lparr>frame_threshold := ucast (interrupt_threshold (mach_kernel m))\<rparr>"

definition restore_interrupt_threshold :: "trap_frame \<Rightarrow> e310x machine \<Rightarrow> e310x machine" where
  "restore_interrupt_threshold fr m =
     m\<lparr>mach_kernel := (mach_kernel m)\<lparr>interrupt_threshold := ucast (frame_threshold fr)\<rparr>\<rparr>"

definition rv_mie :: "e310x machine \<Rightarrow> bool" where
  "rv_mie m = mie (hw (mach_hw m))"

definition set_mie :: "bool \<Rightarrow> e310x machine \<Rightarrow> e310x machine" where
  "set_mie b m = m\<lparr>mach_hw := (mach_hw m)\<lparr>hw := (hw (mach_hw m))\<lparr>mie := b\<rparr>\<rparr>\<rparr>"

definition mstatus_at_trap :: "bool \<Rightarrow> u32" where
  "mstatus_at_trap b = (if b then 0x1880 else 0x1800)"

text \<open>
  The compiled functions that the vector calls may change the caller-saved registers: what they leave
  there is a parameter of the model. After \<open>kernel_trap_handler\<close> the vector uses none of them. But
  it keeps the address of the context in \<open>t6\<close> over the call of \<open>_save_interrupt_threshold\<close>, and the
  addresses of the interrupted and the next context in \<open>t5\<close> and \<open>t6\<close> over that of
  \<open>_restore_interrupt_threshold\<close>.
\<close>

record rv_calls =
  handler_leaves :: "nat \<Rightarrow> u32"
  save_leaves :: "nat \<Rightarrow> nat"
  restore_leaves :: "nat \<times> nat \<Rightarrow> nat \<times> nat"

definition keeps_temporaries :: "rv_calls \<Rightarrow> bool" where
  "keeps_temporaries f \<longleftrightarrow> (\<forall>t6. save_leaves f t6 = t6) \<and> (\<forall>t5 t6. restore_leaves f (t5, t6) = (t5, t6))"

text \<open>The result is the address that is pushed on the stack of the interrupt handlers.\<close>

definition save_context_to_thread :: "rv_calls \<Rightarrow> nat \<Rightarrow> rv_machine \<Rightarrow> nat \<times> rv_machine" where
  "save_context_to_thread f t6 s =
     (let frames = (rv_frames s)(t6 := save_interrupt_threshold (rv_board s)
            (sw_registers (butlast caller_saved) (rv_x s) (rv_frames s t6)));
          t5 = save_leaves f t6;
          fr = (sw_registers [last caller_saved] (rv_x s) (frames t5))
            \<lparr>frame_pc := rv_pc s, frame_mstatus := mstatus_at_trap (rv_mie (rv_board s))\<rparr>
      in (t5, s\<lparr>rv_frames := frames(t5 := fr), rv_board := set_mie False (rv_board s), rv_mscratch := None\<rparr>))"

text \<open>
  \<open>x\<close> are the registers when the handler has returned, \<open>prev\<close> the context that was pushed. The
  handler is a function, so that \<open>x\<close> has the registers of before that a function keeps. The return
  comes in two parts: \<open>mscratch\<close> is set first, the registers are restored behind it, up to \<open>mret\<close>.
\<close>

definition return_mscratch :: "rv_machine \<Rightarrow> (nat \<times> rv_machine) res" where
  "return_mscratch s =
     (case thread_context (mach_kernel (rv_board s)) of
        None \<Rightarrow> Inl UninitRead
      | Some ctx \<Rightarrow> Inr (ctx, s\<lparr>rv_mscratch := Some ctx\<rparr>))"

definition return_registers :: "rv_calls \<Rightarrow> (nat \<Rightarrow> u32) \<Rightarrow> nat \<Rightarrow> nat \<Rightarrow> rv_machine \<Rightarrow> rv_machine" where
  "return_registers f x prev ctx s =
     (let mepc = frame_pc (rv_frames s ctx);
          mpie = bit (frame_mstatus (rv_frames s ctx)) 7;
          m = restore_interrupt_threshold (rv_frames s ctx) (rv_board s);
          (t5, t6) = restore_leaves f (prev, ctx);
          frames = (if t5 = t6 then rv_frames s
            else (rv_frames s)(t5 := sw_registers callee_saved x (rv_frames s t5)));
          x = (if t5 = t6 then x else lw_registers callee_saved (frames t6) x);
          x = lw_registers caller_saved (frames t6) x
      in s\<lparr>rv_board := set_mie mpie m, rv_frames := frames, rv_x := x, rv_pc := mepc\<rparr>)"

definition return_to_thread :: "rv_calls \<Rightarrow> (nat \<Rightarrow> u32) \<Rightarrow> nat \<Rightarrow> rv_machine \<Rightarrow> rv_machine res" where
  "return_to_thread f x prev s =
     bind_res (return_mscratch s) (\<lambda>(ctx, s). Inr (return_registers f x prev ctx s))"

definition after_handler :: "rv_calls \<Rightarrow> (nat \<Rightarrow> u32) \<Rightarrow> nat \<Rightarrow> u32" where
  "after_handler f x n = (if n \<in> set caller_saved then handler_leaves f n else x n)"

text \<open>
  A trap in an interrupt handler: the registers are pushed on the stack, below a word that is left
  free for the alignment, and popped when the handler returns. The last instruction is \<open>ret\<close>.
\<close>

definition nested_saved :: "nat list" where
  "nested_saved = [1, 5, 6, 7, 10, 11, 12, 13, 14, 15, 16, 17, 28, 29, 30, 31]"

definition return_to_interrupt :: "(nat \<Rightarrow> u32) \<Rightarrow> (nat \<Rightarrow> u32) \<Rightarrow> rv_machine \<Rightarrow> rv_machine" where
  "return_to_interrupt x0 x s =
     (let sp = x0 2 - 17 * 4 - 4;
          x = (x(2 := sp + 4));
          x = fold (\<lambda>n x. x(n := x0 n)) nested_saved x;
          x = x(2 := x 2 + 16 * 4)
      in s\<lparr>rv_x := x, rv_pc := x 1\<rparr>)"

text \<open>
  A trap that is not itself interrupted between the handler and \<open>mret\<close>; what becomes of it otherwise
  is the subject of the last theorem.
\<close>

definition rv_trap ::
  "(u32 \<Rightarrow> runtime_error) \<Rightarrow> app \<Rightarrow> env \<Rightarrow> rv_calls \<Rightarrow> u32 \<Rightarrow> u32 \<Rightarrow> rv_machine \<Rightarrow> rv_outcome res" where
  "rv_trap error_of a e f mtval mcause s =
     (case rv_mscratch s of
        Some ctx \<Rightarrow>
          (let (prev, s0) = save_context_to_thread f ctx s in
           bind_res (kernel_trap_handler error_of a e (rv_pc s) mtval mcause s0) (\<lambda>out.
            case out of
              Resumed s1 \<Rightarrow> bind_res (return_to_thread f (after_handler f (rv_x s)) prev s1) (\<lambda>s2. Inr (Resumed s2))
            | _ \<Rightarrow> Inr out))
      | None \<Rightarrow>
          bind_res (kernel_trap_handler error_of a e (rv_pc s) mtval mcause (s\<lparr>rv_board := set_mie False (rv_board s)\<rparr>)) (\<lambda>out.
            case out of
              Resumed s1 \<Rightarrow> Inr (Resumed (return_to_interrupt (rv_x s) (after_handler f (rv_x s)) s1))
            | _ \<Rightarrow> Inr out))"

text \<open>
  \<open>syscall\<close>: the registers at the \<open>ecall\<close> instruction, whose cause is 11 in machine mode, and the
  result that the calling code takes from \<open>a0\<close> when it goes on. \<open>a0\<close> is \<open>x10\<close>, \<open>a7\<close> is \<open>x17\<close>.
\<close>

definition rv_syscall ::
  "(u32 \<Rightarrow> runtime_error) \<Rightarrow> app \<Rightarrow> env \<Rightarrow> rv_calls \<Rightarrow> u32 \<Rightarrow> u32 \<Rightarrow> u32 \<Rightarrow> u32 \<Rightarrow> rv_machine \<Rightarrow> rv_outcome res" where
  "rv_syscall error_of a e f i arg0 arg1 arg2 s =
     rv_trap error_of a e f 0 11 (s\<lparr>rv_x := (rv_x s)(17 := i, 10 := arg0, 11 := arg1, 12 := arg2)\<rparr>)"

definition rv_syscall_result :: "(nat \<Rightarrow> u32) \<Rightarrow> u32" where
  "rv_syscall_result x = x 10"

section \<open>Saved registers\<close>

text \<open>
  What belongs to a thread: the registers, the program counter, whether interrupts are enabled, and
  the threshold; in the processor when it runs, in its frame when it does not.
\<close>

record rv_thread_view =
  view_x :: "u32 list"
  view_pc :: u32
  view_mie :: bool
  view_threshold :: u8

definition saved_registers :: "nat list" where
  "saved_registers = [1, 2] @ [5..<32]"

definition frame_view :: "(nat \<Rightarrow> u32) \<Rightarrow> trap_frame \<Rightarrow> rv_thread_view" where
  "frame_view x fr =
     \<lparr>view_x = map x saved_registers, view_pc = frame_pc fr, view_mie = bit (frame_mstatus fr) 7,
      view_threshold = ucast (frame_threshold fr)\<rparr>"

definition frame_x :: "trap_frame \<Rightarrow> nat \<Rightarrow> u32" where
  "frame_x fr n = gp_regs fr ! frame_slot n"

definition rv_view :: "rv_machine \<Rightarrow> nat \<Rightarrow> rv_thread_view" where
  "rv_view s c =
     (if rv_mscratch s = Some c then
        \<lparr>view_x = map (rv_x s) saved_registers, view_pc = rv_pc s, view_mie = rv_mie (rv_board s),
         view_threshold = interrupt_threshold (mach_kernel (rv_board s))\<rparr>
      else frame_view (frame_x (rv_frames s c)) (rv_frames s c))"

definition rv_running :: "nat \<Rightarrow> rv_machine \<Rightarrow> bool" where
  "rv_running c s \<longleftrightarrow> rv_mscratch s = Some c \<and> thread_context (mach_kernel (rv_board s)) = Some c"

definition rv_frames_ok :: "rv_machine \<Rightarrow> bool" where
  "rv_frames_ok s \<longleftrightarrow> (\<forall>c. length (gp_regs (rv_frames s c)) = 29)"

lemma saved_registers_split: "set saved_registers = set caller_saved \<union> set callee_saved"
  by (simp add: saved_registers_def caller_saved_def callee_saved_def upt_rec_numeral) blast

lemma saved_registers_disjoint: "set callee_saved \<inter> set caller_saved = {}"
  by (simp add: caller_saved_def callee_saved_def)

lemma frame_slot_bound: "n \<in> set saved_registers \<Longrightarrow> frame_slot n < 29"
  by (auto simp: saved_registers_def frame_slot_def)

lemma frame_slot_inj: "inj_on frame_slot (set saved_registers)"
  by (auto simp: inj_on_def saved_registers_def frame_slot_def)

lemma sw_fold_nth:
  assumes "set ns \<subseteq> set saved_registers" "length regs = 29" "n \<in> set saved_registers"
  shows "fold (\<lambda>n regs. regs[frame_slot n := x n]) ns regs ! frame_slot n
    = (if n \<in> set ns then x n else regs ! frame_slot n)"
  using assms
proof (induction ns arbitrary: regs)
  case (Cons m ns)
  have "frame_slot m = frame_slot n \<longleftrightarrow> m = n"
    using Cons.prems inj_onD [OF frame_slot_inj, of m n] by auto
  then show ?case using Cons frame_slot_bound [of n] by (auto simp: nth_list_update)
qed simp

lemma sw_fold_length: "length (fold (\<lambda>n regs. regs[frame_slot n := x n]) ns regs) = length regs"
  by (induction ns arbitrary: regs) simp_all

lemma lw_fold: "fold (\<lambda>n x. x(n := v n)) ns x n = (if n \<in> set ns then v n else x n)"
  by (induction ns arbitrary: x) auto

lemma frame_view_cong:
  assumes "\<And>n. n \<in> set saved_registers \<Longrightarrow> x n = y n" "frame_pc fr = frame_pc fr'"
    "frame_mstatus fr = frame_mstatus fr'" "frame_threshold fr = frame_threshold fr'"
  shows "frame_view x fr = frame_view y fr'"
  using assms by (simp add: frame_view_def)

lemma sw_registers_simps [simp]:
  "length (gp_regs (sw_registers ns x fr)) = length (gp_regs fr)" "frame_pc (sw_registers ns x fr) = frame_pc fr"
  "frame_mstatus (sw_registers ns x fr) = frame_mstatus fr" "frame_threshold (sw_registers ns x fr) = frame_threshold fr"
  by (simp_all add: sw_registers_def sw_fold_length)

lemma sw_registers_x:
  assumes "set ns \<subseteq> set saved_registers" "length (gp_regs fr) = 29" "n \<in> set saved_registers"
  shows "frame_x (sw_registers ns x fr) n = (if n \<in> set ns then x n else frame_x fr n)"
  using sw_fold_nth [OF assms] by (simp add: frame_x_def sw_registers_def)

lemma lw_registers_x: "lw_registers ns fr x n = (if n \<in> set ns then frame_x fr n else x n)"
  by (simp add: lw_registers_def lw_fold frame_x_def)

lemma board_simps [simp]:
  "mach_kernel (set_mie b m) = mach_kernel m" "rv_mie (set_mie b m) = b"
  "rv_mie (restore_interrupt_threshold fr m) = rv_mie m"
  "mach_kernel (restore_interrupt_threshold fr m) = (mach_kernel m)\<lparr>interrupt_threshold := ucast (frame_threshold fr)\<rparr>"
  by (simp_all add: set_mie_def rv_mie_def restore_interrupt_threshold_def)

text \<open>
  The end of a trap: every thread finds what its frame holds, the one that was interrupted the
  callee-saved registers of the processor.
\<close>

lemma return_to_thread_view:
  assumes f: "keeps_temporaries f" and ok: "rv_frames_ok s" and ctx: "thread_context (mach_kernel (rv_board s)) = Some c'"
  obtains s' where "return_to_thread f x c s = Inr s'" "rv_running c' s'" "rv_frames_ok s'"
    "mach_kernel (rv_board s') = (mach_kernel (rv_board s))\<lparr>interrupt_threshold := ucast (frame_threshold (rv_frames s c'))\<rparr>"
    "\<And>d. rv_view s' d =
       frame_view (\<lambda>n. if d = c \<and> n \<notin> set caller_saved then x n else frame_x (rv_frames s d) n) (rv_frames s d)"
proof -
  obtain s' where s': "return_to_thread f x c s = Inr s'"
    using ctx by (simp add: return_to_thread_def return_mscratch_def)
  have "s' = return_registers f x c c' (s\<lparr>rv_mscratch := Some c'\<rparr>)"
    using s' ctx by (simp add: return_to_thread_def return_mscratch_def)
  note d = this [unfolded return_registers_def]
  have left: "restore_leaves f (c, c') = (c, c')" using f by (simp add: keeps_temporaries_def)
  have run: "rv_mscratch s' = Some c'" "mach_kernel (rv_board s')
      = (mach_kernel (rv_board s))\<lparr>interrupt_threshold := ucast (frame_threshold (rv_frames s c'))\<rparr>"
    "rv_pc s' = frame_pc (rv_frames s c')" "rv_mie (rv_board s') = bit (frame_mstatus (rv_frames s c')) 7"
    using d left by (simp_all add: Let_def)
  have fr: "rv_frames s' = (if c = c' then rv_frames s
      else (rv_frames s)(c := sw_registers callee_saved x (rv_frames s c)))"
    and xs: "rv_x s' n = (if n \<in> set caller_saved \<or> c \<noteq> c' \<and> n \<in> set callee_saved then frame_x (rv_frames s c') n else x n)" for n
    using d left by (auto simp: Let_def lw_registers_x)
  have sub: "set callee_saved \<subseteq> set saved_registers" using saved_registers_split by blast
  have dis: "n \<in> set saved_registers \<Longrightarrow> n \<in> set callee_saved \<longleftrightarrow> n \<notin> set caller_saved" for n
    using saved_registers_split saved_registers_disjoint by blast
  have view: "rv_view s' d =
       frame_view (\<lambda>n. if d = c \<and> n \<notin> set caller_saved then x n else frame_x (rv_frames s d) n) (rv_frames s d)" for d
  proof (cases "d = c'")
    case True
    then show ?thesis using run xs dis by (auto simp: rv_view_def frame_view_def)
  next
    case False
    moreover have "length (gp_regs (rv_frames s d)) = 29" using ok by (simp add: rv_frames_ok_def)
    ultimately show ?thesis
      using run fr dis by (auto simp: rv_view_def sw_registers_x [OF sub] intro!: frame_view_cong)
  qed
  have "rv_running c' s'" using run ctx by (simp add: rv_running_def)
  moreover have "rv_frames_ok s'" using ok fr by (simp add: rv_frames_ok_def)
  ultimately show ?thesis using s' run(2) view that by blast
qed

text \<open>The beginning of a trap, when the call keeps the address of the context.\<close>

definition context_saved :: "nat \<Rightarrow> rv_machine \<Rightarrow> rv_machine" where
  "context_saved ctx s =
     (let fr = save_interrupt_threshold (rv_board s) (sw_registers caller_saved (rv_x s) (rv_frames s ctx));
          fr = fr\<lparr>frame_pc := rv_pc s, frame_mstatus := mstatus_at_trap (rv_mie (rv_board s))\<rparr>
      in s\<lparr>rv_frames := (rv_frames s)(ctx := fr), rv_board := set_mie False (rv_board s), rv_mscratch := None\<rparr>)"

lemma sw_registers_append: "sw_registers (ns @ ms) x fr = sw_registers ms x (sw_registers ns x fr)"
  by (simp add: sw_registers_def)

lemma save_context_kept:
  assumes "keeps_temporaries f"
  shows "save_context_to_thread f c s = (c, context_saved c s)"
proof -
  have "sw_registers caller_saved x fr = sw_registers [last caller_saved] x (sw_registers (butlast caller_saved) x fr)" for x fr
    unfolding sw_registers_append [symmetric] by (simp add: caller_saved_def)
  moreover have "sw_registers ns x (save_interrupt_threshold m fr) = save_interrupt_threshold m (sw_registers ns x fr)" for ns x m fr
    by (simp add: sw_registers_def save_interrupt_threshold_def)
  ultimately show ?thesis
    using assms by (simp add: save_context_to_thread_def context_saved_def Let_def keeps_temporaries_def)
qed

lemma save_context_view:
  assumes "rv_running c s" "rv_frames_ok s"
  shows "rv_frames_ok (context_saved c s)"
    and "mach_kernel (rv_board (context_saved c s)) = mach_kernel (rv_board s)"
    and "frame_pc (rv_frames (context_saved c s) c) = rv_pc s"
    and "n \<in> set caller_saved \<Longrightarrow> frame_x (rv_frames (context_saved c s) c) n = rv_x s n"
    and "frame_view (\<lambda>n. if d = c \<and> n \<notin> set caller_saved then rv_x s n
        else frame_x (rv_frames (context_saved c s) d) n) (rv_frames (context_saved c s) d) = rv_view s d"
proof -
  let ?t = "context_saved c s"
  have len: "length (gp_regs (rv_frames s d)) = 29" for d using assms(2) by (simp add: rv_frames_ok_def)
  then show "rv_frames_ok ?t"
    by (simp add: context_saved_def Let_def rv_frames_ok_def save_interrupt_threshold_def)
  show "mach_kernel (rv_board ?t) = mach_kernel (rv_board s)" "frame_pc (rv_frames ?t c) = rv_pc s"
    by (simp_all add: context_saved_def Let_def)
  have sub: "set caller_saved \<subseteq> set saved_registers" using saved_registers_split by blast
  have fx: "frame_x (rv_frames ?t c) m = (if m \<in> set caller_saved then rv_x s m else frame_x (rv_frames s c) m)"
    if "m \<in> set saved_registers" for m
    using sw_registers_x [OF sub len [of c] that, of "rv_x s"]
    by (simp add: context_saved_def Let_def frame_x_def save_interrupt_threshold_def)
  then show "frame_x (rv_frames ?t c) n = rv_x s n" if "n \<in> set caller_saved" using that sub by auto
  have b: "bit (mstatus_at_trap b) 7 = b" for b by (simp add: mstatus_at_trap_def)
  have t: "ucast (ucast t :: u32) = t" for t :: u8 by (rule byte_in_register)
  show "frame_view (\<lambda>n. if d = c \<and> n \<notin> set caller_saved then rv_x s n else frame_x (rv_frames ?t d) n) (rv_frames ?t d)
    = rv_view s d"
  proof (cases "d = c")
    case True
    then show ?thesis using assms(1) fx
      by (auto simp: rv_view_def rv_running_def frame_view_def)
        (simp_all add: context_saved_def Let_def save_interrupt_threshold_def b t)
  next
    case False
    then show ?thesis using assms(1)
      by (auto simp: rv_view_def rv_running_def context_saved_def Let_def)
  qed
qed

text \<open>A trap in a thread, from what the handler makes of the saved state.\<close>

lemma rv_trap_resumed:
  assumes f: "keeps_temporaries f" and run: "rv_running c s" and ok: "rv_frames_ok s1" and ctx: "thread_context (mach_kernel (rv_board s1)) = Some c'"
    and h: "kernel_trap_handler error_of a e (rv_pc s) mtval mcause (context_saved c s) = Inr (Resumed s1)"
  obtains s' where "rv_trap error_of a e f mtval mcause s = Inr (Resumed s')" "rv_running c' s'" "rv_frames_ok s'"
    "mach_kernel (rv_board s') = (mach_kernel (rv_board s1))\<lparr>interrupt_threshold := ucast (frame_threshold (rv_frames s1 c'))\<rparr>"
    "\<And>d. rv_view s' d =
       frame_view (\<lambda>n. if d = c \<and> n \<notin> set caller_saved then rv_x s n else frame_x (rv_frames s1 d) n) (rv_frames s1 d)"
proof -
  have x: "(\<lambda>n. if d = c \<and> n \<notin> set caller_saved then after_handler f (rv_x s) n else y n)
     = (\<lambda>n. if d = c \<and> n \<notin> set caller_saved then rv_x s n else y n)" for d y
    by (auto simp: after_handler_def)
  from return_to_thread_view [OF f ok ctx, of "after_handler f (rv_x s)" c] obtain s' where
    "return_to_thread f (after_handler f (rv_x s)) c s1 = Inr s'" "rv_running c' s'" "rv_frames_ok s'"
    "mach_kernel (rv_board s') = (mach_kernel (rv_board s1))\<lparr>interrupt_threshold := ucast (frame_threshold (rv_frames s1 c'))\<rparr>"
    "\<And>d. rv_view s' d =
       frame_view (\<lambda>n. if d = c \<and> n \<notin> set caller_saved then rv_x s n else frame_x (rv_frames s1 d) n) (rv_frames s1 d)"
    unfolding x by blast
  then show ?thesis using that run h by (simp add: rv_trap_def rv_running_def save_context_kept [OF f])
qed

lemma async_handler_frames:
  assumes "kernel_trap_handler error_of a e mepc mtval mcause s = Inr (Resumed s1)" "drop_bit 31 mcause AND 1 = 1"
  shows "rv_frames s1 = rv_frames s"
  using assms by (auto simp: kernel_trap_handler_def Let_def split: if_splits elim!: bind_res_InrE)

lemma async_trap_view:
  assumes f: "keeps_temporaries f" and run: "rv_running c s" and ok: "rv_frames_ok s" and async: "drop_bit 31 mcause AND 1 = 1"
    and r: "rv_trap error_of a e f mtval mcause s = Inr (Resumed s')"
  shows "(\<exists>c'. rv_running c' s') \<and> rv_frames_ok s' \<and> (\<forall>d. rv_view s' d = rv_view s d)"
proof -
  let ?t = "context_saved c s"
  note sv = save_context_view [OF run ok]
  from r run obtain s1 where h: "kernel_trap_handler error_of a e (rv_pc s) mtval mcause ?t = Inr (Resumed s1)"
    "return_to_thread f (after_handler f (rv_x s)) c s1 = Inr s'"
    by (auto simp: rv_trap_def rv_running_def save_context_kept [OF f] elim!: bind_res_InrE split: rv_outcome.splits)
  have fr: "rv_frames s1 = rv_frames ?t" using async_handler_frames [OF h(1) async] .
  obtain c1 where c1: "thread_context (mach_kernel (rv_board s1)) = Some c1"
    using h(2) by (auto simp: return_to_thread_def return_mscratch_def split: option.splits)
  have "rv_frames_ok s1" using sv(1) fr by (simp add: rv_frames_ok_def)
  from rv_trap_resumed [OF f run this c1 h(1)] obtain s2 where
    s2: "rv_trap error_of a e f mtval mcause s = Inr (Resumed s2)" "rv_running c1 s2" "rv_frames_ok s2"
    "\<And>d. rv_view s2 d = rv_view s d" unfolding fr sv(5) by blast
  from s2(1) r have "s' = s2" by simp
  with s2(2-4) show "(\<exists>c'. rv_running c' s') \<and> rv_frames_ok s' \<and> (\<forall>d. rv_view s' d = rv_view s d)" by blast
qed

lemma timer_trap_returns:
  assumes f: "keeps_temporaries f" and run: "rv_running c s" and ok: "rv_frames_ok s"
    and k': "kernel_wakeup_handler e (mach_kernel (rv_board s)) = Inr ((), k')" "thread_context k' = Some c'"
  shows "\<exists>prev s0 s1 s'. save_context_to_thread f c s = (prev, s0)
    \<and> kernel_trap_handler error_of a e (rv_pc s) mtval 0x80000007 s0 = Inr (Resumed s1) \<and> \<not> rv_mie (rv_board s1)
    \<and> rv_trap error_of a e f mtval 0x80000007 s = Inr (Resumed s') \<and> rv_running c' s'"
proof -
  let ?t = "context_saved c s"
  let ?s1 = "?t\<lparr>rv_board := (rv_board ?t)\<lparr>mach_kernel := k'\<rparr>\<rparr>"
  note sv = save_context_view [OF run ok]
  have h: "kernel_trap_handler error_of a e (rv_pc s) mtval 0x80000007 ?t = Inr (Resumed ?s1)"
    using k'(1) sv(2) by (simp add: kernel_trap_handler_def Let_def)
  have "rv_frames_ok ?s1" using sv(1) by (simp add: rv_frames_ok_def)
  then obtain s' where "rv_trap error_of a e f mtval 0x80000007 s = Inr (Resumed s')" "rv_running c' s'"
    using rv_trap_resumed [OF f run _ _ h, of c'] k'(2) by auto
  moreover have "\<not> rv_mie (rv_board ?s1)" by (simp add: context_saved_def Let_def rv_mie_def set_mie_def)
  ultimately show ?thesis using h save_context_kept [OF f] by blast
qed

section \<open>Properties\<close>


text \<open>
  Thread 1 runs, thread 3 sleeps until 50; each context is at the address of its thread.
\<close>

definition sample_rv_kernel :: kernel where
  "sample_rv_kernel =
     sample_quiet\<lparr>thread_context := Some 1, threads := \<lambda>t. (threads sample_quiet t)\<lparr>thr_context := Some t\<rparr>\<rparr>"

definition sample_calls :: rv_calls where
  "sample_calls = \<lparr>handler_leaves = \<lambda>_. 0, save_leaves = \<lambda>t6. t6, restore_leaves = \<lambda>t. t\<rparr>"

lemma sample_calls_keep: "keeps_temporaries sample_calls"
  by (simp add: keeps_temporaries_def sample_calls_def)

definition sample_rv :: rv_machine where
  "sample_rv =
     \<lparr>rv_board = (sample_machine False)\<lparr>mach_kernel := sample_rv_kernel\<rparr>,
      rv_frames = \<lambda>c. \<lparr>gp_regs = replicate 29 (of_nat c), frame_pc = of_nat c, frame_mstatus = 0x1880, frame_threshold = 0\<rparr>,
      rv_x = of_nat, rv_pc = 1000, rv_mscratch = Some 1\<rparr>"

lemma sample_rv_facts:
  "rv_running 1 sample_rv" "rv_frames_ok sample_rv" "mach_kernel (rv_board sample_rv) = sample_rv_kernel"
  by (simp_all add: sample_rv_def rv_running_def rv_frames_ok_def sample_rv_kernel_def)

lemma sample_timer:
  "(case kernel_wakeup_handler (sample_env 100) sample_rv_kernel of Inr (u, k) \<Rightarrow> thread_context k | Inl _ \<Rightarrow> None) = Some 3"
  by code_simp


text \<open>
  A system call on this processor: the kernel gets the identifier and the arguments that the
  caller passed, the caller continues behind the instruction, and no other thread's context
  changes. The result of the call is lost: it is stored where \<open>a3\<close> is restored from, so that the
  caller takes its own first argument for the result, and finds \<open>a3\<close>, which the call is not
  declared to change, overwritten.
\<close>

theorem riscv_syscall_result_lost:
  assumes f: "keeps_temporaries f" and run: "rv_running c s" and ok: "rv_frames_ok s"
    and call: "private_kernel_syscall_handler error_of e i arg0 arg1 arg2 (mach_kernel (rv_board s)) = Inr (rval, k')"
    and next_thread: "thread_context k' = Some c'"
  shows "\<exists>s'. rv_syscall error_of a e f i arg0 arg1 arg2 s = Inr (Resumed s') \<and> rv_running c' s'
     \<and> (\<forall>d. d \<noteq> c \<longrightarrow> rv_view s' d = rv_view s d)
     \<and> view_pc (rv_view s' c) = rv_pc s + 4
     \<and> view_x (rv_view s' c) = map ((rv_x s)(17 := i, 10 := arg0, 11 := arg1, 12 := arg2, 13 := rval)) saved_registers
     \<and> (c' = c \<longrightarrow> rv_syscall_result (rv_x s') = arg0)"
proof -
  define x where "x = (rv_x s)(17 := i, 10 := arg0, 11 := arg1, 12 := arg2)"
  define s0 where "s0 = s\<lparr>rv_x := x\<rparr>"
  define t where "t = context_saved c s0"
  have s0: "rv_x s0 = x" "rv_pc s0 = rv_pc s" "rv_board s0 = rv_board s" by (simp_all add: s0_def)
  have s0_view: "rv_view s0 d = rv_view s d" if "d \<noteq> c" for d
    using that run by (simp add: s0_def rv_view_def rv_running_def)
  have run': "rv_running c s0" and ok': "rv_frames_ok s0" using run ok by (simp_all add: rv_running_def rv_frames_ok_def s0_def)
  note sv = save_context_view [OF run' ok', folded t_def]
  have regs: "gp_regs (rv_frames t c) ! frame_slot n = x n" if "n \<in> set caller_saved" for n
    using sv(4) [OF that] by (simp add: frame_x_def s0_def)
  have args: "gp_regs (rv_frames t c) ! 14 = i" "gp_regs (rv_frames t c) ! 7 = arg0"
    "gp_regs (rv_frames t c) ! 8 = arg1" "gp_regs (rv_frames t c) ! 9 = arg2"
    using regs [of 17] regs [of 10] regs [of 11] regs [of 12] by (simp_all add: caller_saved_def frame_slot_def x_def)
  define fr where "fr = (rv_frames t c)\<lparr>frame_pc := rv_pc s + 4, gp_regs := (gp_regs (rv_frames t c))[10 := rval]\<rparr>"
  define s1 where "s1 = t\<lparr>rv_board := (rv_board t)\<lparr>mach_kernel := k'\<rparr>, rv_frames := (rv_frames t)(c := fr)\<rparr>"
  have h: "kernel_trap_handler error_of a e (rv_pc s0) 0 11 t = Inr (Resumed s1)"
    using call sv(2) run by (simp add: kernel_trap_handler_def Let_def rv_running_def args fr_def s1_def s0)
  have len: "length (gp_regs (rv_frames t c)) = 29" using sv(1) by (simp add: rv_frames_ok_def)
  have frx: "frame_x fr n = (if n = 13 then rval else frame_x (rv_frames t c) n)" if "n \<in> set saved_registers" for n
    using that len by (auto simp: frame_x_def fr_def nth_list_update frame_slot_def saved_registers_def)
  have ok1: "rv_frames_ok s1" using sv(1) by (simp add: rv_frames_ok_def s1_def fr_def)
  have ctx: "thread_context (mach_kernel (rv_board s1)) = Some c'" using next_thread by (simp add: s1_def)
  obtain s' where s': "rv_trap error_of a e f 0 11 s0 = Inr (Resumed s')" "rv_running c' s'"
    "\<And>d. rv_view s' d =
       frame_view (\<lambda>n. if d = c \<and> n \<notin> set caller_saved then rv_x s0 n else frame_x (rv_frames s1 d) n) (rv_frames s1 d)"
    using rv_trap_resumed [OF f run' ok1 ctx h [unfolded t_def]] by blast
  have others: "rv_view s' d = rv_view s d" if "d \<noteq> c" for d
    using that s'(3) [of d] sv(5) [of d] s0_view [of d] by (simp add: s1_def)
  have pc: "view_pc (rv_view s' c) = rv_pc s + 4" using s'(3) [of c] by (simp add: frame_view_def s1_def fr_def)
  have xs: "view_x (rv_view s' c) = map (x(13 := rval)) saved_registers"
    unfolding s'(3) frame_view_def using frx sv(4) by (auto simp: s1_def caller_saved_def s0_def)
  have "rv_syscall_result (rv_x s') = arg0" if "c' = c"
  proof -
    have "\<forall>n \<in> set saved_registers. rv_x s' n = (x(13 := rval)) n"
      using xs s'(2) that by (simp add: rv_view_def rv_running_def)
    moreover have "10 \<in> set saved_registers" by (simp add: saved_registers_def)
    ultimately have "rv_x s' 10 = (x(13 := rval)) 10" by (rule bspec)
    then show ?thesis by (simp add: rv_syscall_result_def x_def)
  qed
  then show ?thesis using s'(1,2) others pc xs unfolding rv_syscall_def x_def s0_def by blast
qed

lemma sample_yield:
  "(case private_kernel_syscall_handler (\<lambda>_. RecursiveLock) (sample_env 0) 1 7 0 0 sample_rv_kernel of
      Inr (r, k) \<Rightarrow> Some (r, thread_context k) | Inl _ \<Rightarrow> None) = Some (0, Some 1)"
  by code_simp

theorem riscv_syscall_result_lost_witness:
  "\<exists>k' s'. private_kernel_syscall_handler (\<lambda>_. RecursiveLock) (sample_env 0) 1 7 0 0 sample_rv_kernel = Inr (0, k')
     \<and> rv_syscall (\<lambda>_. RecursiveLock) sample_app (sample_env 0) sample_calls 1 7 0 0 sample_rv = Inr (Resumed s')
     \<and> rv_syscall_result (rv_x s') = 7"
proof -
  obtain k' where k': "private_kernel_syscall_handler (\<lambda>_. RecursiveLock) (sample_env 0) 1 7 0 0 sample_rv_kernel = Inr (0, k')"
    "thread_context k' = Some 1" using sample_yield by (auto split: sum.splits)
  from riscv_syscall_result_lost [OF sample_calls_keep sample_rv_facts(1,2) k' [folded sample_rv_facts(3)], of sample_app] k'(1)
  show ?thesis by blast
qed

text \<open>
  A thread starts as it was built. When an interrupt returns to a thread whose frame is the
  initial context, the processor is at its main function with the argument in \<open>a0\<close>, the stack
  pointer at the top of its stack, the abort function as return address, interrupts enabled and the
  threshold 0. Used of the bit field operations: \<open>set_bit\<close> writes its bit and no other, \<open>set_bits\<close>
  leaves the bits outside its range.
\<close>

theorem riscv_thread_starts:
  assumes bit_field: "\<And>i b v j. i < 32 \<Longrightarrow> bit (set_bit' i b v :: u32) j = (if j = i then b else bit v j)"
      "\<And>lo hi v w j. j < lo \<Longrightarrow> bit (set_bits lo hi v w :: u32) j = bit w j"
    and run: "keeps_temporaries f" "rv_running c s" "rv_frames_ok s" and c': "c' \<noteq> c"
    and fresh: "rv_frames s c' = rv_context_init set_bit' set_bits mpp abort main argument stack_ptr"
    and trap: "drop_bit 31 mcause AND 1 = 1" "rv_trap error_of a e f mtval mcause s = Inr (Resumed s')" "rv_running c' s'"
  shows "rv_pc s' = main \<and> rv_x s' 10 = (case argument of Some arg \<Rightarrow> arg | None \<Rightarrow> 0)
     \<and> rv_x s' 2 = stack_ptr \<and> rv_x s' 1 = abort \<and> rv_mie (rv_board s')
     \<and> interrupt_threshold (mach_kernel (rv_board s')) = 0"
proof -
  have view: "rv_view s' c' = rv_view s c'" using async_trap_view [OF run trap(1,2)] by blast
  have old: "rv_view s c' = frame_view (frame_x (rv_frames s c')) (rv_frames s c')"
    using run c' by (simp add: rv_view_def rv_running_def)
  have x: "rv_x s' n = frame_x (rv_frames s c') n" if "n \<in> set saved_registers" for n
    using view old trap(3) that by (auto simp: rv_view_def rv_running_def frame_view_def)
  have xs: "rv_x s' 10 = frame_x (rv_frames s c') 10" "rv_x s' 2 = frame_x (rv_frames s c') 2" "rv_x s' 1 = frame_x (rv_frames s c') 1"
    by (rule x, simp add: saved_registers_def)+
  have "rv_x s' 10 = (case argument of Some arg \<Rightarrow> arg | None \<Rightarrow> 0)" "rv_x s' 2 = stack_ptr" "rv_x s' 1 = abort"
    unfolding xs fresh by (simp_all add: frame_x_def rv_context_init_def frame_slot_def Let_def)
  moreover have "bit (frame_mstatus (rv_frames s c')) 7" using bit_field by (simp add: fresh rv_context_init_def Let_def)
  then have "rv_pc s' = main" "rv_mie (rv_board s')" "interrupt_threshold (mach_kernel (rv_board s')) = 0"
    using view old trap(3) fresh by (simp_all add: rv_view_def rv_running_def frame_view_def rv_context_init_def Let_def)
  ultimately show ?thesis by blast
qed

definition sample_set_bit :: "nat \<Rightarrow> bool \<Rightarrow> u32 \<Rightarrow> u32" where
  "sample_set_bit i b v = (if b then set_bit i v else unset_bit i v)"

definition sample_set_bits :: "nat \<Rightarrow> nat \<Rightarrow> u32 \<Rightarrow> u32 \<Rightarrow> u32" where
  "sample_set_bits lo hi v w = take_bit lo w OR push_bit lo (take_bit (hi - lo) v) OR push_bit hi (drop_bit hi w)"

definition sample_rv_fresh :: rv_machine where
  "sample_rv_fresh =
     sample_rv\<lparr>rv_frames := (rv_frames sample_rv)(3 := rv_context_init sample_set_bit sample_set_bits 3 64 500 (Some 9) 4096)\<rparr>"

lemma sample_rv_fresh_facts:
  "rv_running 1 sample_rv_fresh" "rv_frames_ok sample_rv_fresh" "mach_kernel (rv_board sample_rv_fresh) = sample_rv_kernel"
  "rv_frames sample_rv_fresh 3 = rv_context_init sample_set_bit sample_set_bits 3 64 500 (Some 9) 4096"
  using sample_rv_facts by (simp_all add: sample_rv_fresh_def rv_running_def rv_frames_ok_def rv_context_init_def Let_def)

lemma sample_timer_trap:
  assumes "rv_running 1 s" "rv_frames_ok s" "mach_kernel (rv_board s) = sample_rv_kernel"
  shows "\<exists>s'. rv_trap (\<lambda>_. RecursiveLock) sample_app (sample_env 100) sample_calls 0 0x80000007 s = Inr (Resumed s') \<and> rv_running 3 s'"
proof -
  obtain k' where "kernel_wakeup_handler (sample_env 100) sample_rv_kernel = Inr ((), k')" "thread_context k' = Some 3"
    using sample_timer by (auto split: sum.splits)
  then show ?thesis using timer_trap_returns [OF sample_calls_keep assms(1,2)] assms(3) by metis
qed

theorem riscv_thread_starts_witness:
  "\<exists>s'. rv_trap (\<lambda>_. RecursiveLock) sample_app (sample_env 100) sample_calls 0 0x80000007 sample_rv_fresh = Inr (Resumed s')
     \<and> rv_pc s' = 500 \<and> rv_x s' 10 = 9 \<and> rv_x s' 2 = 4096"
proof -
  obtain s' where s': "rv_trap (\<lambda>_. RecursiveLock) sample_app (sample_env 100) sample_calls 0 0x80000007 sample_rv_fresh = Inr (Resumed s')"
    "rv_running 3 s'" using sample_timer_trap [OF sample_rv_fresh_facts(1-3)] by blast
  have b: "bit (sample_set_bit i b v) j = (if j = i then b else bit v j)" if "i < 32" for i b v j
    using that by (auto simp: sample_set_bit_def bit_simps)
  have "bit (sample_set_bits lo hi v w) j = bit w j" if "j < lo" for lo hi v w j
    using that by (auto simp: sample_set_bits_def bit_simps)
  from riscv_thread_starts [of sample_set_bit sample_set_bits, OF _ this sample_calls_keep sample_rv_fresh_facts(1,2) _ sample_rv_fresh_facts(4) _ s'] b
  have "rv_pc s' = 500 \<and> rv_x s' 10 = 9 \<and> rv_x s' 2 = 4096" by simp
  with s'(1) show ?thesis by blast
qed

text \<open>
  An interrupt inside an interrupt handler is not transparent: the stack pointer comes back
  four bytes lower, because the word for the alignment is not popped, and the last instruction
  jumps to the return address of the interrupted function instead of the instruction that was
  interrupted.
\<close>

theorem nested_trap_not_transparent:
  assumes "rv_mscratch s = None" and "rv_trap error_of a e f mtval mcause s = Inr (Resumed s')"
  shows "rv_x s' 2 = rv_x s 2 - 4 \<and> rv_pc s' = rv_x s 1
     \<and> (\<forall>n \<in> set nested_saved \<union> set callee_saved. rv_x s' n = rv_x s n)"
proof -
  let ?y = "after_handler f (rv_x s)"
  obtain s1 where s': "s' = return_to_interrupt (rv_x s) ?y s1"
    using assms by (auto simp: rv_trap_def elim!: bind_res_InrE split: rv_outcome.splits)
  have "\<forall>n \<in> set callee_saved. ?y n = rv_x s n"
    using saved_registers_disjoint by (auto simp: after_handler_def)
  then show ?thesis
    unfolding s' by (auto simp: return_to_interrupt_def Let_def lw_fold nested_saved_def callee_saved_def)
qed

theorem nested_trap_not_transparent_witness:
  "\<exists>s'. rv_trap (\<lambda>_. RecursiveLock) sample_app (sample_env 100) sample_calls 0 0x80000007 (sample_rv\<lparr>rv_mscratch := None\<rparr>)
         = Inr (Resumed s')
     \<and> rv_x s' 2 = rv_x sample_rv 2 - 4 \<and> rv_pc s' = rv_x sample_rv 1 \<and> rv_pc sample_rv \<noteq> rv_x sample_rv 1"
proof -
  let ?s = "sample_rv\<lparr>rv_mscratch := None\<rparr>"
  obtain u k' where "kernel_wakeup_handler (sample_env 100) sample_rv_kernel = Inr (u, k')"
    using sample_timer by (auto split: sum.splits)
  then obtain s' where s': "rv_trap (\<lambda>_. RecursiveLock) sample_app (sample_env 100) sample_calls 0 0x80000007 ?s = Inr (Resumed s')"
    by (simp add: rv_trap_def kernel_trap_handler_def Let_def sample_rv_facts)
  from nested_trap_not_transparent [OF _ s'] s' show ?thesis by (simp add: sample_rv_def)
qed

text \<open>
  When the compiled functions use the registers that the calling convention gives them, the vector
  goes wrong. If \<open>_save_interrupt_threshold\<close> leaves another address in \<open>t6\<close>, the program counter and
  the status of the interrupted thread are stored there, and its own frame keeps the old ones. If
  \<open>_restore_interrupt_threshold\<close> changes \<open>t6\<close>, the thread that is returned to gets the caller-saved
  registers of whatever lies at that address.
\<close>

theorem clobbered_temporaries_corrupt:
  "(save_leaves f c \<noteq> c \<longrightarrow>
     (\<exists>s0. save_context_to_thread f c s = (save_leaves f c, s0)
       \<and> frame_pc (rv_frames s0 c) = frame_pc (rv_frames s c)
       \<and> frame_mstatus (rv_frames s0 c) = frame_mstatus (rv_frames s c)
       \<and> frame_pc (rv_frames s0 (save_leaves f c)) = rv_pc s))
   \<and> (thread_context (mach_kernel (rv_board s)) = Some c' \<and> restore_leaves f (c, c') = (v, w) \<longrightarrow>
     (\<exists>s'. return_to_thread f x c s = Inr s' \<and> rv_running c' s' \<and> rv_pc s' = frame_pc (rv_frames s c')
       \<and> (\<forall>n \<in> set caller_saved. rv_x s' n = frame_x (rv_frames s w) n)))"
proof (intro conjI impI)
  assume "save_leaves f c \<noteq> c"
  then show "\<exists>s0. save_context_to_thread f c s = (save_leaves f c, s0)
       \<and> frame_pc (rv_frames s0 c) = frame_pc (rv_frames s c)
       \<and> frame_mstatus (rv_frames s0 c) = frame_mstatus (rv_frames s c)
       \<and> frame_pc (rv_frames s0 (save_leaves f c)) = rv_pc s"
    by (simp add: save_context_to_thread_def Let_def save_interrupt_threshold_def)
next
  assume "thread_context (mach_kernel (rv_board s)) = Some c' \<and> restore_leaves f (c, c') = (v, w)"
  then show "\<exists>s'. return_to_thread f x c s = Inr s' \<and> rv_running c' s' \<and> rv_pc s' = frame_pc (rv_frames s c')
       \<and> (\<forall>n \<in> set caller_saved. rv_x s' n = frame_x (rv_frames s w) n)"
    by (auto simp: return_to_thread_def return_mscratch_def return_registers_def Let_def rv_running_def lw_registers_x)
qed

theorem clobbered_temporaries_corrupt_witness:
  "\<exists>s'. return_to_thread (sample_calls\<lparr>restore_leaves := \<lambda>(t5, t6). (t5, 7)\<rparr>) (\<lambda>_. 0) 1 sample_rv = Inr s'
     \<and> rv_running 1 s' \<and> rv_x s' 10 = 7"
proof -
  let ?f = "sample_calls\<lparr>restore_leaves := \<lambda>(t5, t6). (t5, 7)\<rparr>"
  obtain s' where s': "return_to_thread ?f (\<lambda>_. 0) 1 sample_rv = Inr s'" "rv_running 1 s'"
    "\<forall>n \<in> set caller_saved. rv_x s' n = frame_x (rv_frames sample_rv 7) n"
    using conjunct2 [OF clobbered_temporaries_corrupt [of ?f 1 sample_rv 1 1 7 "\<lambda>_. 0"]] sample_rv_facts
    by (auto simp: rv_running_def)
  then have "rv_x s' 10 = 7" by (simp add: caller_saved_def frame_x_def sample_rv_def frame_slot_def)
  with s'(1,2) show ?thesis by blast
qed

text \<open>
  An interrupt that is taken between \<open>csrw mscratch\<close> and \<open>mret\<close>, which is possible after an external
  interrupt, because \<open>complete_interrupt\<close> leaves interrupts enabled: it is saved as one of the thread
  that is being returned to. The frame of this thread then has an address of the vector itself and
  the registers of the vector, and where the thread was to continue is lost.
\<close>

theorem interrupted_return_loses_thread:
  assumes ctx: "return_mscratch s1 = Inr (c', s2)" and f: "keeps_temporaries f" and ok: "rv_frames_ok s1"
    and mid: "s3 = s2\<lparr>rv_x := x, rv_pc := vector_pc\<rparr>"
  shows "\<exists>s4. save_context_to_thread f c' s3 = (c', s4) \<and> rv_mscratch s3 = Some c'
     \<and> frame_pc (rv_frames s4 c') = vector_pc \<and> (\<forall>n \<in> set caller_saved. frame_x (rv_frames s4 c') n = x n)"
proof -
  have "rv_running c' s3" "rv_frames_ok s3"
    using ctx ok by (auto simp: return_mscratch_def rv_running_def rv_frames_ok_def mid split: option.splits)
  note sv = save_context_view [OF this]
  have "rv_mscratch s3 = Some c'" using \<open>rv_running c' s3\<close> by (simp add: rv_running_def)
  moreover have "frame_pc (rv_frames (context_saved c' s3) c') = vector_pc" using sv(3) by (simp add: mid)
  moreover have "\<forall>n \<in> set caller_saved. frame_x (rv_frames (context_saved c' s3) c') n = x n"
    using sv(4) by (simp add: mid)
  ultimately show ?thesis using save_context_kept [OF f] by blast
qed

theorem interrupted_return_loses_thread_witness:
  "\<exists>s2 s4. return_mscratch sample_rv = Inr (1, s2) \<and> rv_mie (rv_board s2)
     \<and> save_context_to_thread sample_calls 1 (s2\<lparr>rv_x := \<lambda>_. 0, rv_pc := 16\<rparr>) = (1, s4)
     \<and> frame_pc (rv_frames s4 1) = 16 \<and> frame_pc (rv_frames sample_rv 1) = 1"
proof -
  have s2: "return_mscratch sample_rv = Inr (1, sample_rv)" "rv_mie (rv_board sample_rv)"
    by (simp_all add: return_mscratch_def sample_rv_def sample_rv_kernel_def sample_machine_def rv_mie_def)
  then show ?thesis
    using interrupted_return_loses_thread [OF s2(1) sample_calls_keep sample_rv_facts(2) refl, of 16 "\<lambda>_. 0"]
    by (auto simp: sample_rv_def)
qed

end
