(* ===== verification/Cortex_M.thy ===== *)
theory Cortex_M
  imports Interrupt_Dispatch Syscall_Abi
begin

text \<open>
  The Cortex-M processor (\<open>scars-arch-cortex-m\<close>): the contexts of threads, the start of the first
  thread, and the assembly of the exception handlers, instruction by instruction: the system call,
  the interrupts and the context switch. The priority mask \<open>BASEPRI\<close> is the register of the kernel's
  interrupt threshold. A system call's result reaches its caller here; the switch loses nothing but
  the registers of the floating point unit; the thread that an interrupt interrupts goes on with the
  priority mask that the handler has left; the first thread starts with a priority mask that is read
  from the wrong address.
\<close>

section \<open>The processor\<close>

text \<open>
  Core registers \<open>r0\<close> to \<open>r12\<close>, the link register, the program counter, the process stack pointer,
  the special registers, the registers \<open>s16\<close> to \<open>s31\<close> of the floating point unit, the memory in
  words by their addresses, and the board with the kernel's state. One exception is handled at a
  time.
\<close>

record 'h cm_machine =
  cm_r :: "nat \<Rightarrow> u32"
  cm_lr :: u32
  cm_pc :: u32
  cm_xpsr :: u32
  cm_psp :: u32
  cm_control :: u32
  cm_fpu :: "nat \<Rightarrow> u32"
  cm_mem :: "u32 \<Rightarrow> u32"
  cm_board :: "'h machine"

fun store_words :: "u32 \<Rightarrow> u32 list \<Rightarrow> (u32 \<Rightarrow> u32) \<Rightarrow> u32 \<Rightarrow> u32" where
  "store_words a [] m = m"
| "store_words a (w # ws) m = store_words (a + 4) ws (m(a := w))"

definition load_words :: "u32 \<Rightarrow> nat \<Rightarrow> (u32 \<Rightarrow> u32) \<Rightarrow> u32 list" where
  "load_words a n m = map (\<lambda>i. m (a + 4 * of_nat i)) [0..<n]"

definition set_registers :: "nat list \<Rightarrow> u32 list \<Rightarrow> (nat \<Rightarrow> u32) \<Rightarrow> nat \<Rightarrow> u32" where
  "set_registers ns ws r = fold (\<lambda>(n, w) r. r(n := w)) (zip ns ws) r"

text \<open>\<open>CURRENT_THREAD_CONTEXT\<close> is null before the first thread starts.\<close>

definition cm_current :: "'h cm_machine \<Rightarrow> u32" where
  "cm_current s = (case thread_context (mach_kernel (cm_board s)) of Some c \<Rightarrow> of_nat c | None \<Rightarrow> 0)"

text \<open>
  \<open>BASEPRI\<close>. On the stm32f4 \<open>set_interrupt_threshold\<close> writes it and \<open>get_interrupt_threshold\<close> reads
  it, so that the kernel's \<open>interrupt_threshold\<close> stands for its contents; the instructions \<open>mrs\<close> and
  \<open>msr\<close> access the same register. It has four bits, 4 to 7.
\<close>

definition basepri_of :: "u8 \<Rightarrow> u32" where
  "basepri_of threshold = ucast (push_bit NVIC_PRIO_SHIFT (NVIC_PRIO_MAX - threshold))"

definition threshold_in :: "u32 \<Rightarrow> u8" where
  "threshold_in basepri = NVIC_PRIO_MAX - drop_bit NVIC_PRIO_SHIFT (ucast basepri)"

definition cm_threshold :: "'h cm_machine \<Rightarrow> u8" where
  "cm_threshold s = interrupt_threshold (mach_kernel (cm_board s))"

definition board_threshold :: "u8 \<Rightarrow> 'h machine \<Rightarrow> 'h machine" where
  "board_threshold t m = m\<lparr>mach_kernel := (mach_kernel m)\<lparr>interrupt_threshold := t\<rparr>\<rparr>"

definition cm_basepri :: "'h cm_machine \<Rightarrow> u32" where
  "cm_basepri s = basepri_of (cm_threshold s)"

definition msr_basepri :: "u32 \<Rightarrow> 'h cm_machine \<Rightarrow> 'h cm_machine" where
  "msr_basepri w s = s\<lparr>cm_board := board_threshold (threshold_in w) (cm_board s)\<rparr>"

lemma basepri_register:
  "basepri_of t AND 0xF0 = basepri_of t" "w AND 0xF0 = w \<Longrightarrow> basepri_of (threshold_in w) = w"
proof -
  have f: "(0xF0 :: u32) = push_bit 4 (mask 4)" by (simp add: mask_eq_exp_minus_1)
  show "basepri_of t AND 0xF0 = basepri_of t"
    unfolding f basepri_of_def NVIC_PRIO_SHIFT_def by (rule bit_word_eqI) (auto simp: bit_simps)
  assume "w AND 0xF0 = w"
  then have b: "4 \<le> n \<and> n < 8" if "bit w n" for n
  proof -
    have "bit (w AND push_bit 4 (mask 4)) n" using that \<open>w AND 0xF0 = w\<close> unfolding f by (simp only:)
    then show ?thesis by (auto simp: bit_simps)
  qed
  show "basepri_of (threshold_in w) = w"
    unfolding basepri_of_def threshold_in_def NVIC_PRIO_SHIFT_def
    by (rule bit_word_eqI) (auto simp: bit_simps dest: b, metis b le_add_diff_inverse)
qed

text \<open>These are the stm32f4's functions, for the thresholds that it has.\<close>

lemma stm_threshold_basepri:
  assumes "t \<le> 15"
  shows "\<exists>b. stm_set_interrupt_threshold checks basepri_write t s = Inr (basepri_write b s) \<and> ucast b = basepri_of t"
    and "stm_get_interrupt_threshold checks (\<lambda>s. ucast (basepri_of t)) s = Inr t"
    and "stm_get_interrupt_threshold checks (\<lambda>s. ucast w) s = Inr (threshold_in w)"
proof -
  show "\<exists>b. stm_set_interrupt_threshold checks basepri_write t s = Inr (basepri_write b s) \<and> ucast b = basepri_of t"
    using assms by (auto simp: stm_set_interrupt_threshold_def sub_ck_def NVIC_PRIO_MAX_def basepri_of_def not_less)
  have get: "stm_get_interrupt_threshold checks (\<lambda>s. ucast w) s = Inr (threshold_in w)" for w :: u32
  proof -
    have "drop_bit 4 (x :: u8) \<le> 15" for x
    proof -
      have "unat (drop_bit 4 x) = unat x div 16" by (simp add: drop_bit_eq_div unat_div)
      moreover have "unat x < 256" using unsigned_less [of x, where 'a = nat] by simp
      then have "unat x div 16 \<le> 15" by arith
      ultimately show ?thesis by (simp add: word_le_nat_alt)
    qed
    then show ?thesis by (simp add: stm_get_interrupt_threshold_def sub_ck_def threshold_in_def NVIC_PRIO_MAX_def NVIC_PRIO_SHIFT_def not_less)
  qed
  show "stm_get_interrupt_threshold checks (\<lambda>s. ucast w) s = Inr (threshold_in w)" by (rule get)
  have "bit (15 - t) n \<longrightarrow> n < 4" for n
  proof -
    have "unat (15 - t) < 2 ^ 4" using assms by (simp add: word_le_nat_alt unat_sub)
    then have "unat (15 - t) = unat (take_bit 4 (15 - t))" by (simp only: unsigned_take_bit_eq) (simp add: take_bit_eq_mod)
    then have "15 - t = take_bit 4 (15 - t)" by (simp only: word_unat_eq_iff)
    then show ?thesis by (metis bit_take_bit_iff)
  qed
  then have "drop_bit 4 (push_bit 4 (15 - t)) = 15 - t"
    by (intro bit_word_eqI) (auto simp: bit_simps)
  then show "stm_get_interrupt_threshold checks (\<lambda>s. ucast (basepri_of t)) s = Inr t"
    unfolding get by (simp add: threshold_in_def basepri_of_def NVIC_PRIO_MAX_def NVIC_PRIO_SHIFT_def byte_in_register)
qed

section \<open>The interrupts of the stm32f4\<close>

text \<open>
  The functions of the crate \<open>cortex_m\<close> on the interrupt controller and the interrupt mask, whose state
  is \<open>nvic\<close>, are parameters, and so is \<open>dma2d\<close>, the largest interrupt number, a constant of the crate
  of the device.
\<close>

record 'n cortex_m =
  nvic_get_priority :: "u16 \<Rightarrow> 'n \<Rightarrow> u8"
  nvic_set_priority :: "u16 \<Rightarrow> u8 \<Rightarrow> 'n \<Rightarrow> 'n"
  nvic_unpend :: "u16 \<Rightarrow> 'n \<Rightarrow> 'n"
  nvic_unmask :: "u16 \<Rightarrow> 'n \<Rightarrow> 'n"
  primask_is_active :: "'n \<Rightarrow> bool"
  interrupt_disable :: "'n \<Rightarrow> 'n"
  interrupt_enable' :: "'n \<Rightarrow> 'n"

record 'n stm32f4 =
  BASEPRI :: u8
  ICSR :: u32
  nvic :: 'n

definition on_nvic :: "('n \<Rightarrow> 'n) \<Rightarrow> 'n stm32f4 \<Rightarrow> 'n stm32f4" where
  "on_nvic f h = h\<lparr>nvic := f (nvic h)\<rparr>"

definition stm32f4_controller :: "bool \<Rightarrow> nat \<Rightarrow> 'n cortex_m \<Rightarrow> ('n stm32f4, u8) controller" where
  "stm32f4_controller checks dma2d p =
     \<lparr>MAX_INTERRUPT_NUMBER = dma2d,
      claim_interrupt = (\<lambda>h. bind_res (stm_claim_interrupt checks (ICSR h)) (\<lambda>n. Inr (n, h))),
      get_interrupt_number = ucast,
      complete_interrupt = (\<lambda>n h. Inr (stm_complete_interrupt (\<lambda>n. on_nvic (nvic_unpend p n)) n h)),
      hal_set_interrupt_priority =
        stm_set_interrupt_priority checks (\<lambda>n h. nvic_get_priority p n (nvic h)) (\<lambda>n q. on_nvic (nvic_set_priority p n q)),
      hal_enable_interrupt = (\<lambda>n h. Inr (stm_enable_interrupt (\<lambda>n. on_nvic (nvic_unmask p n)) n h)),
      hal_get_threshold = (\<lambda>h. threshold_in (ucast (BASEPRI h))),
      hal_set_threshold = (\<lambda>t h. h\<lparr>BASEPRI := ucast (basepri_of t)\<rparr>),
      hal_acquire = stm_acquire (\<lambda>h. primask_is_active p (nvic h)) (on_nvic (interrupt_disable p)),
      hal_restore = stm_restore (on_nvic (interrupt_enable' p))\<rparr>"

section \<open>Contexts\<close>

definition cm_stack_top_ptr :: "u32 \<Rightarrow> (u32 \<Rightarrow> u32) \<Rightarrow> u32" where
  "cm_stack_top_ptr ctx m = m (ctx + 9 * 4)"

text \<open>
  The initial context: nine words from the start, the floating point registers, the stack pointer
  and the priority mask. The exception frame is a type of the package \<open>cortex_m_rt\<close>: \<open>ef_size\<close> is its
  size, \<open>ef_offset\<close> where its fields are.
\<close>

datatype ef_field = EfR0 | EfR1 | EfR2 | EfR3 | EfR12 | EfLr | EfPc | EfXpsr

definition cm_context_init ::
  "u32 \<Rightarrow> (ef_field \<Rightarrow> u32) \<Rightarrow> u32 \<Rightarrow> u32 \<Rightarrow> u32 \<Rightarrow> u32 option \<Rightarrow> u32 \<Rightarrow> u32 \<Rightarrow> (u32 \<Rightarrow> u32) \<Rightarrow> u32 \<Rightarrow> u32" where
  "cm_context_init ef_size ef_offset basepri on_abort main argument stack_ptr ctx m =
     (let m = store_words ctx [0, 0, 0, 0, 0, 0, 0, 0, 0xFFFFFFFD] m;
          m = store_words (ctx + 11 * 4) (replicate 16 0) m;
          frame_ptr = stack_ptr - ef_size;
          m = m(ctx + 9 * 4 := frame_ptr);
          m = m(ctx + 10 * 4 := basepri);
          m = m(frame_ptr + ef_offset EfR0 := (case argument of Some arg \<Rightarrow> arg | None \<Rightarrow> 0));
          m = m(frame_ptr + ef_offset EfR1 := 0);
          m = m(frame_ptr + ef_offset EfR2 := 0);
          m = m(frame_ptr + ef_offset EfR3 := 0);
          m = m(frame_ptr + ef_offset EfR12 := 0);
          m = m(frame_ptr + ef_offset EfLr := on_abort);
          m = m(frame_ptr + ef_offset EfPc := main)
      in m(frame_ptr + ef_offset EfXpsr := 0x01000000))"

text \<open>\<open>start_first_thread\<close>, with \<open>r0\<close> the context of the idle thread.\<close>

definition cm_start_first_thread :: "nat \<Rightarrow> 'h cm_machine \<Rightarrow> 'h cm_machine" where
  "cm_start_first_thread idle_context s =
     (let s = s\<lparr>cm_board := (cm_board s)\<lparr>mach_kernel := (mach_kernel (cm_board s))\<lparr>thread_context := Some idle_context\<rparr>\<rparr>\<rparr>;
          m = cm_mem s;
          r = (cm_r s)(0 := of_nat idle_context);
          r = r(4 := m (r 0 + 9 * 4));
          r = r(5 := m (r 4 + 6 * 4));
          lr = m (r 4 + 5 * 4);
          r = set_registers [0, 1, 2, 3, 12] (load_words (r 4) 5 m) r;
          r = r(4 := r 4 + 8 * 4);
          psp = r 4;
          r = r(4 := 2);
          control = r 4;
          r = r(4 := m (r 0 + 10 * 4));
          s = msr_basepri (r 4) s
      in s\<lparr>cm_r := r, cm_lr := lr, cm_psp := psp, cm_control := control, cm_pc := r 5\<rparr>)"

section \<open>Exceptions\<close>

text \<open>
  What the processor does at an exception in a thread whose floating point context is not active:
  eight words are pushed on the process stack and \<open>lr\<close> is the code of the return; at the return they
  are popped.
\<close>

definition EXC_RETURN :: u32 where "EXC_RETURN = 0xFFFFFFFD"

definition caller_frame :: "'h cm_machine \<Rightarrow> u32 list" where
  "caller_frame s = [cm_r s 0, cm_r s 1, cm_r s 2, cm_r s 3, cm_r s 12, cm_lr s, cm_pc s, cm_xpsr s]"

definition exception_entry :: "'h cm_machine \<Rightarrow> 'h cm_machine" where
  "exception_entry s =
     s\<lparr>cm_mem := store_words (cm_psp s - 32) (caller_frame s) (cm_mem s),
       cm_psp := cm_psp s - 32, cm_lr := EXC_RETURN\<rparr>"

definition exception_return :: "'h cm_machine \<Rightarrow> 'h cm_machine" where
  "exception_return s =
     (let f = load_words (cm_psp s) 8 (cm_mem s) in
      s\<lparr>cm_r := set_registers [0, 1, 2, 3, 12] (take 5 f) (cm_r s), cm_lr := f ! 5, cm_pc := f ! 6, cm_xpsr := f ! 7,
        cm_psp := cm_psp s + 32\<rparr>)"

definition switch_context :: "'h cm_machine \<Rightarrow> 'h cm_machine" where
  "switch_context s =
     (let r0 = cm_r s 0; r1 = cm_r s 1 in
      if r0 = r1 then s
      else
        let m = store_words r0 (map (cm_r s) [4..<12] @ [cm_lr s]) (cm_mem s);
            r = (cm_r s)(2 := cm_psp s);
            m = m(r0 + 9 * 4 := r 2);
            r = r(2 := cm_basepri s);
            m = m(r0 + 10 * 4 := r 2);
            r = r(2 := m (r1 + 9 * 4));
            psp = r 2;
            ws = load_words r1 9 m;
            r = set_registers [4..<12] (take 8 ws) r;
            lr = ws ! 8;
            r = r(2 := m (r1 + 10 * 4));
            s = msr_basepri (r 2) s
        in s\<lparr>cm_r := r, cm_lr := lr, cm_psp := psp, cm_mem := m\<rparr>)"

text \<open>
  A call of a function from the handlers: \<open>r0\<close> is the result, \<open>junk\<close> what it leaves in the other
  registers that it need not keep.
\<close>

definition after_call :: "u32 \<Rightarrow> (nat \<Rightarrow> u32) \<Rightarrow> (nat \<Rightarrow> u32) \<Rightarrow> nat \<Rightarrow> u32" where
  "after_call result junk r n = (if n = 0 then result else if n \<in> {1, 2, 3, 12} then junk n else r n)"

definition with_kernel :: "kernel \<Rightarrow> 'h cm_machine \<Rightarrow> 'h cm_machine" where
  "with_kernel k s = s\<lparr>cm_board := (cm_board s)\<lparr>mach_kernel := k\<rparr>\<rparr>"

definition SVCall ::
  "(u32 \<Rightarrow> runtime_error) \<Rightarrow> env \<Rightarrow> (nat \<Rightarrow> u32) \<Rightarrow> 'h cm_machine \<Rightarrow> 'h cm_machine res" where
  "SVCall error_of e junk s =
     (let pushed = (cm_current s, cm_lr s); r = cm_r s in
      bind_res (private_kernel_syscall_handler error_of e (r 0) (r 1) (r 2) (r 3) (mach_kernel (cm_board s))) (\<lambda>(rval, k).
        let s = with_kernel k s;
            r = after_call rval junk r;
            r = r(1 := cm_psp s);
            m = (cm_mem s)(r 1 := r 0);
            r = r(0 := fst pushed);
            r = r(1 := cm_current s)
        in Inr (switch_context (s\<lparr>cm_r := r, cm_lr := snd pushed, cm_mem := m\<rparr>))))"

definition DefaultHandler ::
  "('h, 'c) controller \<Rightarrow> app \<Rightarrow> env \<Rightarrow> (nat \<Rightarrow> u32) \<Rightarrow> 'h cm_machine \<Rightarrow> 'h cm_machine res" where
  "DefaultHandler C a e junk s =
     (let r = (cm_r s)(0 := cm_current s); pushed = (r 0, cm_lr s) in
      bind_res (kernel_interrupt_handler C a e (cm_board s)) (\<lambda>(_, b).
        let s = s\<lparr>cm_board := b\<rparr>;
            r = after_call (junk 0) junk r;
            r = r(0 := fst pushed);
            r = r(1 := cm_current s)
        in Inr (switch_context (s\<lparr>cm_r := r, cm_lr := snd pushed\<rparr>))))"

text \<open>\<open>syscall\<close>: the instruction \<open>svc\<close> in a thread, up to the return to a thread.\<close>

definition cm_syscall ::
  "(u32 \<Rightarrow> runtime_error) \<Rightarrow> env \<Rightarrow> (nat \<Rightarrow> u32) \<Rightarrow> u32 \<Rightarrow> u32 \<Rightarrow> u32 \<Rightarrow> u32 \<Rightarrow> 'h cm_machine \<Rightarrow> 'h cm_machine res" where
  "cm_syscall error_of e junk i arg0 arg1 arg2 s =
     bind_res (SVCall error_of e junk (exception_entry (s\<lparr>cm_r := (cm_r s)(0 := i, 1 := arg0, 2 := arg1, 3 := arg2)\<rparr>)))
       (\<lambda>s1. Inr (exception_return s1))"

definition cm_interrupt ::
  "('h, 'c) controller \<Rightarrow> app \<Rightarrow> env \<Rightarrow> (nat \<Rightarrow> u32) \<Rightarrow> 'h cm_machine \<Rightarrow> 'h cm_machine res" where
  "cm_interrupt C a e junk s = bind_res (DefaultHandler C a e junk (exception_entry s)) (\<lambda>s1. Inr (exception_return s1))"

section \<open>Words in memory\<close>

definition addresses :: "u32 \<Rightarrow> nat \<Rightarrow> u32 set" where
  "addresses a n = (\<lambda>i. a + 4 * of_nat i) ` {..<n}"

lemma addresses_Suc: "addresses a (Suc n) = insert a (addresses (a + 4) n)"
proof -
  have "{..<Suc n} = insert 0 (Suc ` {..<n})" by (auto simp: less_Suc_eq_0_disj image_iff)
  then show ?thesis by (simp add: addresses_def image_image algebra_simps)
qed

lemma store_words_outside: "x \<notin> addresses a (length ws) \<Longrightarrow> store_words a ws m x = m x"
  by (induction a ws m rule: store_words.induct) (simp_all add: addresses_Suc)

lemma word_address_inj:
  assumes "i < 2 ^ 30" "j < 2 ^ 30" "4 * of_nat i = (4 * of_nat j :: u32)"
  shows "i = j"
proof -
  have "(of_nat (4 * i) :: u32) = of_nat (4 * j)" using assms(3) by simp
  then have "unat (of_nat (4 * i) :: u32) = unat (of_nat (4 * j) :: u32)" by simp
  then show ?thesis using assms(1,2) pointer_in_register [of "4 * i"] pointer_in_register [of "4 * j"] by simp
qed

lemma head_apart:
  assumes "n < 2 ^ 30"
  shows "a \<notin> addresses (a + 4) n"
proof
  assume "a \<in> addresses (a + 4) n"
  then obtain j where j: "j < n" "a = a + 4 * of_nat (Suc j)" by (auto simp: addresses_def algebra_simps)
  then have "4 * of_nat 0 = (4 * of_nat (Suc j) :: u32)" by simp
  from word_address_inj [OF _ _ this] j(1) assms show False by simp
qed

lemma store_words_inside:
  assumes "i < length ws" "length ws \<le> 2 ^ 30"
  shows "store_words a ws m (a + 4 * of_nat i) = ws ! i"
  using assms
proof (induction ws arbitrary: a i m)
  case (Cons w ws)
  have "a \<notin> addresses (a + 4) (length ws)" using Cons.prems by (intro head_apart) simp
  then have "store_words (a + 4) ws (m(a := w)) a = w" by (simp add: store_words_outside)
  then show ?case using Cons.IH [of "i - 1" "a + 4"] Cons.prems by (cases i) (simp_all add: algebra_simps)
qed simp

lemma load_words_nth: "i < n \<Longrightarrow> load_words a n m ! i = m (a + 4 * of_nat i)"
  by (simp add: load_words_def)

lemma load_words_length [simp]: "length (load_words a n m) = n"
  by (simp add: load_words_def)

lemma load_words_cong: "(\<And>x. x \<in> addresses a n \<Longrightarrow> m x = m' x) \<Longrightarrow> load_words a n m = load_words a n m'"
  by (simp add: load_words_def addresses_def)

lemma load_stored:
  assumes "length ws \<le> 2 ^ 30"
  shows "load_words a (length ws) (store_words a ws m) = ws"
  by (rule nth_equalityI) (simp_all add: load_words_nth store_words_inside [OF _ assms])

lemma store_words_append: "store_words a (ws @ vs) m = store_words (a + 4 * of_nat (length ws)) vs (store_words a ws m)"
  by (induction ws arbitrary: a m) (simp_all add: algebra_simps)

lemma store_words_commute: "a \<notin> addresses b (length ws) \<Longrightarrow> store_words b ws (m(a := v)) = (store_words b ws m)(a := v)"
  by (induction ws arbitrary: b m) (simp_all add: addresses_Suc fun_upd_twist)

lemma store_words_head:
  assumes "length ws < 2 ^ 30"
  shows "(store_words a (w # ws) m)(a := v) = store_words a (v # ws) m"
  using head_apart [OF assms, of a] by (simp add: store_words_commute)

lemma set_registers_other: "n \<notin> set ns \<Longrightarrow> set_registers ns ws r n = r n"
  by (induction ns ws arbitrary: r rule: list_induct2') (simp_all add: set_registers_def)

lemma set_registers_map:
  "distinct ns \<Longrightarrow> length ns = length ws \<Longrightarrow> map (set_registers ns ws r) ns = ws"
proof (induction ns ws arbitrary: r rule: list_induct2')
  case (4 n ns w ws)
  have "set_registers (n # ns) (w # ws) r = set_registers ns ws (r(n := w))" by (simp add: set_registers_def)
  with 4 set_registers_other [of n ns ws "r(n := w)"] show ?case by simp
qed simp_all

section \<open>The context switch\<close>

text \<open>What the switch saves of a thread, and where.\<close>

definition callee_context :: "'h cm_machine \<Rightarrow> u32 list" where
  "callee_context s = map (cm_r s) [4..<12] @ [cm_lr s, cm_psp s, cm_basepri s]"

lemma switch_context_board: "\<exists>t. cm_board (switch_context s) = board_threshold t (cm_board s)"
proof (cases "cm_r s 0 = cm_r s 1")
  case True
  then have "cm_board (switch_context s) = board_threshold (cm_threshold s) (cm_board s)"
    by (simp add: switch_context_def board_threshold_def cm_threshold_def)
  then show ?thesis ..
next
  case False
  then have "cm_board (switch_context s) = board_threshold (cm_threshold (switch_context s)) (cm_board s)"
    by (simp add: switch_context_def Let_def msr_basepri_def cm_threshold_def board_threshold_def del: upt_rec_numeral)
  then show ?thesis ..
qed

lemma switch_context_store:
  assumes "cm_r s 0 \<noteq> cm_r s 1"
  shows "cm_mem (switch_context s) = store_words (cm_r s 0) (callee_context s) (cm_mem s)"
    and "cm_mem (switch_context s) (cm_r s 1 + 40) AND 0xF0 = cm_mem (switch_context s) (cm_r s 1 + 40) \<Longrightarrow>
      callee_context (switch_context s) = load_words (cm_r s 1) 11 (cm_mem (switch_context s))"
    and "cm_fpu (switch_context s) = cm_fpu s"
proof -
  have l: "load_words a 11 m = take 8 (load_words a 9 m) @ [load_words a 9 m ! 8, m (a + 9 * 4), m (a + 10 * 4)]" for a m
  proof -
    have "[0..<11] = [0..<8] @ [8, 9, 10 :: nat]" "[0..<9] = [0..<8] @ [8 :: nat]" by (simp_all add: upt_rec)
    then show ?thesis by (simp add: load_words_def nth_append)
  qed
  have st: "store_words a (map f [4..<12] @ [x, y, z]) m
     = (store_words a (map f [4..<12] @ [x]) m)(a + 9 * 4 := y, a + 10 * 4 := z)" for a f x y z m
    using store_words_append [of a "map f [4..<12] @ [x]" "[y, z]" m] by (simp add: algebra_simps)
  show m: "cm_mem (switch_context s) = store_words (cm_r s 0) (callee_context s) (cm_mem s)"
    using assms by (simp add: switch_context_def Let_def callee_context_def st add.commute)
  assume mask: "cm_mem (switch_context s) (cm_r s 1 + 40) AND 0xF0 = cm_mem (switch_context s) (cm_r s 1 + 40)"
  have "cm_basepri (switch_context s) = basepri_of (threshold_in (cm_mem (switch_context s) (cm_r s 1 + 40)))"
    using assms by (simp add: switch_context_def Let_def cm_basepri_def cm_threshold_def msr_basepri_def board_threshold_def)
  with basepri_register(2) [OF mask]
  have b: "cm_basepri (switch_context s) = cm_mem (switch_context s) (cm_r s 1 + 40)" by simp
  show "callee_context (switch_context s) = load_words (cm_r s 1) 11 (cm_mem (switch_context s))"
    unfolding callee_context_def b using assms
    by (simp add: switch_context_def Let_def l set_registers_map del: upt_rec_numeral)
next
  show "cm_fpu (switch_context s) = cm_fpu s" by (simp add: switch_context_def Let_def msr_basepri_def)
qed

text \<open>
  What belongs to a thread: the registers pushed by the processor, \<open>r4\<close> to \<open>r11\<close>, the stack pointer
  and the priority mask; in the processor when it runs, and else in its stack and its context.
\<close>

definition cm_registers :: "u32 list \<Rightarrow> u32 list \<Rightarrow> u32 \<Rightarrow> u32 \<Rightarrow> u32 list" where
  "cm_registers frame rs psp basepri = frame @ rs @ [psp, basepri]"

definition cm_frozen :: "(u32 \<Rightarrow> u32) \<Rightarrow> u32 \<Rightarrow> u32 list" where
  "cm_frozen m c = cm_registers (load_words (m (c + 36)) 8 m) (load_words c 8 m) (m (c + 36) + 32) (m (c + 40))"

definition cm_live :: "'h cm_machine \<Rightarrow> u32 list" where
  "cm_live s = cm_registers (caller_frame s) (map (cm_r s) [4..<12]) (cm_psp s) (cm_basepri s)"

definition cm_view :: "'h cm_machine \<Rightarrow> u32 \<Rightarrow> u32 list" where
  "cm_view s c = (if c = cm_current s then cm_live s else cm_frozen (cm_mem s) c)"

text \<open>
  The contexts \<open>T\<close> are apart, and so are the stacked frames: of the thread that runs, below its stack
  pointer, and of the others. Each other thread is to be resumed as a thread, and its mask is a value
  of the register.
\<close>

definition cm_layout :: "u32 set \<Rightarrow> 'h cm_machine \<Rightarrow> bool" where
  "cm_layout T s \<longleftrightarrow>
     cm_current s \<in> T
   \<and> (\<forall>c \<in> T. \<forall>d \<in> T. c \<noteq> d \<longrightarrow> addresses c 11 \<inter> addresses d 11 = {})
   \<and> (\<forall>c \<in> T. addresses (cm_psp s - 32) 8 \<inter> addresses c 11 = {})
   \<and> (\<forall>d \<in> T - {cm_current s}. addresses (cm_psp s - 32) 8 \<inter> addresses (cm_mem s (d + 36)) 8 = {}
        \<and> (\<forall>c \<in> T. addresses c 11 \<inter> addresses (cm_mem s (d + 36)) 8 = {})
        \<and> cm_mem s (d + 32) = EXC_RETURN \<and> cm_mem s (d + 40) AND 0xF0 = cm_mem s (d + 40))"

lemma context_addresses: "c + 32 \<in> addresses c 11" "c + 36 \<in> addresses c 11" "c + 40 \<in> addresses c 11"
  "addresses c 8 \<subseteq> addresses c 11"
  by (auto simp: addresses_def intro: image_eqI [of _ _ 8] image_eqI [of _ _ 9] image_eqI [of _ _ 10])

lemma cm_frozen_cong:
  assumes "\<And>x. x \<in> addresses c 11 \<Longrightarrow> m x = m' x" "\<And>x. x \<in> addresses (m (c + 36)) 8 \<Longrightarrow> m x = m' x"
  shows "cm_frozen m c = cm_frozen m' c"
proof -
  have "load_words c 8 m = load_words c 8 m'" by (rule load_words_cong, rule assms(1), rule subsetD [OF context_addresses(4)])
  moreover have "load_words (m (c + 36)) 8 m = load_words (m (c + 36)) 8 m'" by (rule load_words_cong [OF assms(2)])
  ultimately show ?thesis using assms(1) context_addresses by (simp add: cm_frozen_def)
qed

text \<open>From the exception to the return, when the handler leaves the frame \<open>f\<close> on the stack.\<close>

lemma exception_return_live:
  "caller_frame (exception_return s) = load_words (cm_psp s) 8 (cm_mem s)"
  "4 \<le> n \<Longrightarrow> n < 12 \<Longrightarrow> cm_r (exception_return s) n = cm_r s n"
proof -
  obtain a b c d e f g h where f: "load_words (cm_psp s) 8 (cm_mem s) = [a, b, c, d, e, f, g, h]"
    by (simp add: load_words_def upt_rec)
  then show "caller_frame (exception_return s) = load_words (cm_psp s) 8 (cm_mem s)"
    by (simp add: exception_return_def caller_frame_def set_registers_def Let_def)
  show "4 \<le> n \<Longrightarrow> n < 12 \<Longrightarrow> cm_r (exception_return s) n = cm_r s n"
    by (simp add: exception_return_def set_registers_other Let_def)
qed

lemma context_words:
  assumes "load_words c 11 m = callee_context s"
  shows "load_words c 8 m = map (cm_r s) [4..<12]" "m (c + 32) = cm_lr s" "m (c + 36) = cm_psp s" "m (c + 40) = cm_basepri s"
proof -
  have "load_words c 11 m = load_words c 8 m @ [m (c + 32), m (c + 36), m (c + 40)]" by (simp add: load_words_def upt_rec)
  with assms have "load_words c 8 m @ [m (c + 32), m (c + 36), m (c + 40)] = map (cm_r s) [4..<12] @ [cm_lr s, cm_psp s, cm_basepri s]"
    by (simp add: callee_context_def del: upt_rec_numeral)
  then show "load_words c 8 m = map (cm_r s) [4..<12]" "m (c + 32) = cm_lr s" "m (c + 36) = cm_psp s" "m (c + 40) = cm_basepri s"
    by (simp_all del: upt_rec_numeral add: append_eq_append_conv)
qed

lemma exception_return_simps [simp]:
  "cm_current (exception_return s) = cm_current s" "cm_mem (exception_return s) = cm_mem s"
  "cm_fpu (exception_return s) = cm_fpu s" "cm_basepri (exception_return s) = cm_basepri s"
  "cm_psp (exception_return s) = cm_psp s + 32" "cm_board (exception_return s) = cm_board s"
  by (simp_all add: exception_return_def cm_current_def cm_basepri_def cm_threshold_def Let_def)

lemma handler_return:
  fixes s s1 :: "'h cm_machine"
  assumes lay: "cm_layout T s" and f: "length f = 8" and c': "cm_current s1 \<in> T"
    and s1: "cm_mem s1 = store_words (cm_psp s - 32) f (cm_mem s)" "cm_psp s1 = cm_psp s - 32" "cm_lr s1 = EXC_RETURN"
      "cm_r s1 0 = cm_current s" "cm_r s1 1 = cm_current s1"
      "\<And>n. 4 \<le> n \<Longrightarrow> n < 12 \<Longrightarrow> cm_r s1 n = cm_r s n"
  defines "s' \<equiv> exception_return (switch_context s1)"
  shows "cm_lr (switch_context s1) = EXC_RETURN" and "cm_current s' = cm_current s1" and "cm_fpu s' = cm_fpu s1"
    and "cm_view s' (cm_current s) = cm_registers f (map (cm_r s) [4..<12]) (cm_psp s) (cm_basepri s1)"
    and "d \<in> T \<Longrightarrow> d \<noteq> cm_current s \<Longrightarrow> cm_view s' d = cm_frozen (cm_mem s) d"
    and "\<exists>t. cm_board s' = board_threshold t (cm_board s1)"
proof -
  let ?c = "cm_current s" and ?c' = "cm_current s1" and ?s2 = "switch_context s1"
  have mem0: "cm_mem s1 x = cm_mem s x" if "x \<notin> addresses (cm_psp s - 32) 8" for x
    using that f by (simp add: s1(1) store_words_outside)
  have own: "load_words (cm_psp s - 32) 8 (cm_mem s1) = f" using load_stored [of f] f by (simp add: s1(1))
  have sc: "cm_current ?s2 = ?c'" "cm_fpu ?s2 = cm_fpu s1" by (simp_all add: switch_context_def cm_current_def Let_def msr_basepri_def board_threshold_def)
  then show "cm_current s' = ?c'" "cm_fpu s' = cm_fpu s1" by (simp_all add: s'_def)
  show "\<exists>t. cm_board s' = board_threshold t (cm_board s1)" using switch_context_board [of s1] by (simp add: s'_def)
  have live: "cm_live s' = cm_registers (load_words (cm_psp ?s2) 8 (cm_mem ?s2)) (map (cm_r ?s2) [4..<12])
      (cm_psp ?s2 + 32) (cm_basepri ?s2)"
    using exception_return_live(1) [of ?s2] exception_return_live(2) [of _ ?s2] by (simp add: cm_live_def s'_def)
  have frozen: "cm_frozen m d = cm_frozen (cm_mem s) d"
    if "d \<in> T" "d \<noteq> ?c" and m: "\<And>x. x \<notin> addresses ?c 11 \<Longrightarrow> m x = cm_mem s1 x" for m d
  proof (rule sym, rule cm_frozen_cong)
    have "addresses ?c 11 \<inter> addresses d 11 = {}" "addresses (cm_psp s - 32) 8 \<inter> addresses d 11 = {}"
      using lay that(1,2) by (simp_all add: cm_layout_def)
    then show "cm_mem s x = m x" if "x \<in> addresses d 11" for x using that m [of x] mem0 [of x] by (metis disjoint_iff)
    have "addresses ?c 11 \<inter> addresses (cm_mem s (d + 36)) 8 = {}"
      "addresses (cm_psp s - 32) 8 \<inter> addresses (cm_mem s (d + 36)) 8 = {}"
      using lay that(1,2) by (simp_all add: cm_layout_def)
    then show "cm_mem s x = m x" if "x \<in> addresses (cm_mem s (d + 36)) 8" for x using that m [of x] mem0 [of x] by (metis disjoint_iff)
  qed
  have psp: "cm_psp s - 32 + 32 = cm_psp s" by simp
  have "cm_lr ?s2 = EXC_RETURN \<and> cm_view s' ?c = cm_registers f (map (cm_r s) [4..<12]) (cm_psp s) (cm_basepri s1)
      \<and> (d \<in> T \<longrightarrow> d \<noteq> ?c \<longrightarrow> cm_view s' d = cm_frozen (cm_mem s) d)"
  proof (cases "?c = ?c'")
    case True
    then have id: "?s2 = s1" using s1(4,5) by (simp add: switch_context_def)
    have "cm_live s' = cm_registers f (map (cm_r s) [4..<12]) (cm_psp s) (cm_basepri s1)"
      using live own s1(2,6) by (simp add: id psp)
    then show ?thesis
      using True s1(3) frozen [of d "cm_mem s1"] by (simp add: cm_view_def s'_def id)
  next
    case False
    then have ne: "cm_r s1 0 \<noteq> cm_r s1 1" using s1(4,5) by simp
    note sw = switch_context_store [OF ne]
    have len: "length (callee_context s1) = 11" by (simp add: callee_context_def)
    have out: "cm_mem ?s2 x = cm_mem s1 x" if "x \<notin> addresses ?c 11" for x
      using that sw(1) len by (simp add: s1(4) store_words_outside)
    have "load_words ?c 11 (cm_mem ?s2) = callee_context s1"
      using load_stored [of "callee_context s1" ?c] len by (simp add: sw(1) s1(4))
    note saved = context_words [OF this]
    have mask: "cm_mem ?s2 (?c' + 40) AND 0xF0 = cm_mem ?s2 (?c' + 40)"
    proof -
      have x: "?c' + 40 \<in> addresses ?c' 11" by (rule context_addresses)
      have "addresses ?c 11 \<inter> addresses ?c' 11 = {}" "addresses (cm_psp s - 32) 8 \<inter> addresses ?c' 11 = {}"
        "cm_mem s (?c' + 40) AND 0xF0 = cm_mem s (?c' + 40)" using lay c' False by (auto simp: cm_layout_def)
      with x show ?thesis using out mem0 by (metis disjoint_iff)
    qed
    note loaded = context_words [OF sw(2) [unfolded s1(5), OF mask, symmetric]]
    have stack: "load_words (cm_psp s - 32) 8 (cm_mem ?s2) = f"
      unfolding own [symmetric] using lay by (intro load_words_cong out) (auto simp: cm_layout_def)
    have "cm_frozen (cm_mem ?s2) ?c = cm_registers f (map (cm_r s) [4..<12]) (cm_psp s) (cm_basepri s1)"
      using saved stack s1(2,6) by (simp add: cm_frozen_def psp)
    moreover have "cm_live s' = cm_frozen (cm_mem ?s2) ?c'" unfolding live cm_frozen_def using loaded by simp
    moreover have "cm_mem ?s2 (?c' + 32) = EXC_RETURN"
    proof -
      have x: "?c' + 32 \<in> addresses ?c' 11" by (rule context_addresses)
      have "addresses ?c 11 \<inter> addresses ?c' 11 = {}" "addresses (cm_psp s - 32) 8 \<inter> addresses ?c' 11 = {}"
        "cm_mem s (?c' + 32) = EXC_RETURN" using lay c' False by (auto simp: cm_layout_def)
      with x show ?thesis using out mem0 by (metis disjoint_iff)
    qed
    ultimately show ?thesis
      using False frozen [of d "cm_mem ?s2"] out loaded(2) sc by (auto simp: cm_view_def s'_def)
  qed
  then show "cm_lr ?s2 = EXC_RETURN"
    "cm_view s' ?c = cm_registers f (map (cm_r s) [4..<12]) (cm_psp s) (cm_basepri s1)"
    "d \<in> T \<Longrightarrow> d \<noteq> ?c \<Longrightarrow> cm_view s' d = cm_frozen (cm_mem s) d" by blast+
qed

section \<open>Properties\<close>

text \<open>The way back from an interrupt, for what the kernel's handler leaves.\<close>

lemma cm_interrupt_return:
  assumes lay: "cm_layout T s" and r: "kernel_interrupt_handler C a e (cm_board s) = Inr ((), b)"
    and ctx: "thread_context (mach_kernel b) = Some c'" "of_nat c' \<in> T"
  shows "\<exists>s'. cm_interrupt C a e junk s = Inr s' \<and> cm_current s' = of_nat c' \<and> cm_fpu s' = cm_fpu s
     \<and> (\<exists>t. cm_board s' = board_threshold t b)
     \<and> (\<forall>d \<in> T. d \<noteq> cm_current s \<longrightarrow> cm_view s' d = cm_view s d)
     \<and> cm_view s' (cm_current s) =
         cm_registers (caller_frame s) (map (cm_r s) [4..<12]) (cm_psp s) (basepri_of (interrupt_threshold (mach_kernel b)))"
proof -
  define s1 where "s1 = (exception_entry s)\<lparr>cm_board := b,
    cm_r := (after_call (junk 0) junk ((cm_r s)(0 := cm_current s)))(0 := cm_current s, 1 := of_nat c')\<rparr>"
  have cur: "cm_current (exception_entry s) = cm_current s" by (simp add: exception_entry_def cm_current_def)
  have cur1: "cm_current s1 = of_nat c'" using ctx by (simp add: s1_def cm_current_def)
  have run: "cm_interrupt C a e junk s = Inr (exception_return (switch_context s1))"
    using r ctx(1) by (simp add: cm_interrupt_def DefaultHandler_def Let_def cur s1_def)
      (simp add: exception_entry_def cm_current_def)
  have hr: "cm_mem s1 = store_words (cm_psp s - 32) (caller_frame s) (cm_mem s)" "cm_psp s1 = cm_psp s - 32"
    "cm_lr s1 = EXC_RETURN" "cm_r s1 0 = cm_current s" "cm_r s1 1 = cm_current s1"
    "4 \<le> n \<Longrightarrow> n < 12 \<Longrightarrow> cm_r s1 n = cm_r s n" for n
    using cur1 by (simp_all add: s1_def exception_entry_def after_call_def)
  have len: "length (caller_frame s) = 8" by (simp add: caller_frame_def)
  note h = handler_return [OF lay len _ hr, unfolded cur1, OF ctx(2)]
  have "cm_board s1 = b" "cm_basepri s1 = basepri_of (interrupt_threshold (mach_kernel b))"
    by (simp_all add: s1_def cm_basepri_def cm_threshold_def)
  moreover have "cm_view (exception_return (switch_context s1)) d = cm_view s d" if "d \<in> T" "d \<noteq> cm_current s" for d
    using h(5) that by (simp add: cm_view_def)
  moreover have "cm_fpu s1 = cm_fpu s" by (simp add: s1_def exception_entry_def)
  ultimately show ?thesis using run h(2-4,6) by auto
qed

lemma basepri_inj: "t \<le> 15 \<Longrightarrow> u \<le> 15 \<Longrightarrow> basepri_of t = basepri_of u \<longleftrightarrow> t = u"
proof
  assume t: "t \<le> 15" and u: "u \<le> 15" and eq: "basepri_of t = basepri_of u"
  have "(Inr t :: u8 res) = Inr u"
    using stm_threshold_basepri(2) [OF t, of True "()"] stm_threshold_basepri(2) [OF u, of True "()"] unfolding eq by (simp only:)
  then show "t = u" by (simp only: sum.inject)
qed simp

text \<open>The dispatch on the stm32f4: neither the claim nor the completion touches the threshold.\<close>

lemma stm32_dispatch:
  fixes m :: "'n stm32f4 machine"
  assumes number: "stm_claim_interrupt checks (ICSR (hw (mach_hw m))) = Inr n" "unat n \<le> dma2d"
      "length (INTERRUPT_VECTORS m) = dma2d + 1"
    and vec: "INTERRUPT_VECTORS m ! unat n = \<lparr>handler_ptr = Some f, icb_ptr = Some i\<rparr>"
    and handler: "interrupt_context e i (closure_wrapper a (mach_storages m) f i) (mach_kernel m) = Inr ((), k1)"
    and thresholds: "interrupt_threshold (mach_kernel m) \<le> 15" "interrupt_threshold k1 \<le> 15"
  shows "\<exists>b. kernel_interrupt_handler (stm32f4_controller checks dma2d p) a e m = Inr ((), b) \<and> mach_kernel b = k1"
proof -
  have t: "threshold_in (ucast (ucast (basepri_of t) :: u8)) = t" if "t \<le> 15" for t
  proof -
    have "ucast (ucast (basepri_of t) :: u8) = basepri_of t"
      unfolding basepri_of_def by (rule bit_word_eqI) (auto simp: bit_simps)
    then show ?thesis using stm_threshold_basepri(2,3) [OF that, of True] by (metis sum.inject(2))
  qed
  have n: "unat (ucast n :: u16) = unat n"
  proof -
    have "unat n < 256" using unsigned_less [of n, where 'a = nat] by simp
    then have "unat n < 2 ^ 16" by (rule less_trans) simp
    then have "unat n mod 2 ^ 16 = unat n" by (rule mod_less)
    then show ?thesis by (simp add: unsigned_ucast_eq take_bit_eq_mod)
  qed
  have "k\<lparr>interrupt_threshold := interrupt_threshold k\<rparr> = k" for k :: kernel by simp
  then show ?thesis
    using number vec handler t [OF thresholds(1)] t [OF thresholds(2)] n
    by (auto simp: kernel_interrupt_handler_def with_threshold_def stm32f4_controller_def stm_complete_interrupt_def
        on_nvic_def get_interrupt_vector_def Let_def)
qed


text \<open>
  Thread 1 runs with its context at 1000, thread 3 is suspended with its context at 3000. The handler
  of interrupt 3, of priority 2, resumes it. Another handler takes and releases a lock instead.
\<close>

definition sample_cm_kernel :: kernel where
  "sample_cm_kernel = upd_interrupt 5 (\<lambda>_. (raw_interrupt_new 3 (Interrupt 2))\<lparr>closure_ptr := Some 8\<rparr>)
     (upd_lock 9 (\<lambda>_. ceiling_lock_new (Interrupt 3))
     (sample_quiet\<lparr>thread_context := Some 1000, threads := \<lambda>t. (threads sample_quiet t)\<lparr>thr_context := Some (1000 * t)\<rparr>\<rparr>))"

definition sample_cm :: "unit stm32f4 cm_machine" where
  "sample_cm =
     \<lparr>cm_r = of_nat, cm_lr = 0, cm_pc = 100, cm_xpsr = 0x01000000, cm_psp = 2000, cm_control = 2,
      cm_fpu = (\<lambda>_. 0), cm_mem = (\<lambda>_. 0)(3032 := EXC_RETURN, 3036 := 5000, 3040 := 0xF0),
      cm_board =
        \<lparr>mach_kernel = sample_cm_kernel, INTERRUPT_VECTORS = (initial_vectors 90)[3 := \<lparr>handler_ptr = Some 7, icb_ptr = Some 5\<rparr>],
         mach_storages = \<lparr>thread_storage = \<lambda>_. None, interrupt_storage = \<lambda>_. None\<rparr>,
         mach_hw = \<lparr>INTERRUPT_LOCK_NESTING = 0, hw = \<lparr>BASEPRI = 0xF0, ICSR = 19, nvic = ()\<rparr>\<rparr>\<rparr>\<rparr>"

definition sample_cortex_m :: "unit cortex_m" where
  "sample_cortex_m = \<lparr>nvic_get_priority = \<lambda>_ _. 0xD0, nvic_set_priority = \<lambda>_ _ n. n, nvic_unpend = \<lambda>_ n. n,
     nvic_unmask = \<lambda>_ n. n, primask_is_active = \<lambda>_. True, interrupt_disable = \<lambda>n. n, interrupt_enable' = \<lambda>n. n\<rparr>"

definition sample_locking_app :: app where
  "sample_locking_app = sample_app\<lparr>closure_code := \<lambda>_ _ k.
     bind_res (acquire_scoped_lock (sample_env 0) 9 k) (release_scoped_lock (sample_env 0) 9)\<rparr>"

lemma addresses_code [code]: "addresses a n = set (map (\<lambda>i. a + 4 * of_nat i) [0..<n])"
  by (simp add: addresses_def atLeast0LessThan)

lemma sample_cm_layout: "cm_layout {1000, 3000} sample_cm"
  by code_simp

lemma sample_cm_facts:
  "stm_claim_interrupt True (ICSR (hw (mach_hw (cm_board sample_cm)))) = Inr 3" "unat (3 :: u8) \<le> 90"
  "length (INTERRUPT_VECTORS (cm_board sample_cm)) = 90 + 1" "cm_threshold sample_cm = 0" "cm_current sample_cm = 1000"
  "INTERRUPT_VECTORS (cm_board sample_cm) ! unat (3 :: u8) = \<lparr>handler_ptr = Some 7, icb_ptr = Some 5\<rparr>"
  by code_simp+

lemma sample_cm_handlers:
  "(case interrupt_context (sample_env 0) 5 (closure_wrapper sample_app (mach_storages (cm_board sample_cm)) 7 5)
      (mach_kernel (cm_board sample_cm)) of Inr (u, k) \<Rightarrow> Some (thread_context k, interrupt_threshold k) | Inl _ \<Rightarrow> None)
     = Some (Some 3000, 0)"
  "(case interrupt_context (sample_env 0) 5 (closure_wrapper sample_locking_app (mach_storages (cm_board sample_cm)) 7 5)
      (mach_kernel (cm_board sample_cm)) of Inr (u, k) \<Rightarrow> Some (thread_context k, interrupt_threshold k) | Inl _ \<Rightarrow> None)
     = Some (Some 1000, 2)"
  by code_simp+

lemma sample_cm_yield:
  "(case private_kernel_syscall_handler (\<lambda>_. RecursiveLock) (sample_env 0) 1 7 0 0 (mach_kernel (cm_board sample_cm)) of
      Inr (r, k) \<Rightarrow> Some (r, thread_context k) | Inl _ \<Rightarrow> None) = Some (0, Some 1000)"
  by code_simp


text \<open>
  Claim C15. A system call on Cortex-M: the kernel gets the identifier and the arguments, and when the
  caller continues it has the result in \<open>r0\<close> and otherwise the registers of the call; if another
  thread runs first, the result waits in the caller's stack. The caller's priority mask is that of
  the threshold which the kernel leaves: its own unless the call changes the threshold, as the poll
  of an interrupt executor may. No other thread changes.
\<close>

theorem cm_syscall_result:
  fixes s :: "'a cm_machine"
  assumes lay: "cm_layout T s"
    and call: "private_kernel_syscall_handler error_of e i arg0 arg1 arg2 (mach_kernel (cm_board s)) = Inr (rval, k')"
    and ctx: "thread_context k' = Some c'" "of_nat c' \<in> T"
  shows "\<exists>s'. cm_syscall error_of e junk i arg0 arg1 arg2 s = Inr s' \<and> cm_current s' = of_nat c'
     \<and> cm_view s' (cm_current s)
         = cm_view (s\<lparr>cm_r := (cm_r s)(0 := rval, 1 := arg0, 2 := arg1, 3 := arg2),
             cm_board := board_threshold (interrupt_threshold k') (cm_board s)\<rparr>) (cm_current s)
     \<and> (interrupt_threshold k' = cm_threshold s \<longrightarrow> cm_view s' (cm_current s)
         = cm_view (s\<lparr>cm_r := (cm_r s)(0 := rval, 1 := arg0, 2 := arg1, 3 := arg2)\<rparr>) (cm_current s))
     \<and> (\<forall>d \<in> T. d \<noteq> cm_current s \<longrightarrow> cm_view s' d = cm_view s d)
     \<and> (of_nat c' = cm_current s \<longrightarrow> cm_r s' 0 = rval)"
proof -
  define s0 where "s0 = s\<lparr>cm_r := (cm_r s)(0 := i, 1 := arg0, 2 := arg1, 3 := arg2)\<rparr>"
  define f where "f = rval # tl (caller_frame s0)"
  define s1 where "s1 = with_kernel k' (exception_entry s0)\<lparr>
    cm_r := (after_call rval junk (cm_r s0))(0 := cm_current s, 1 := of_nat c'), cm_lr := EXC_RETURN,
    cm_mem := (store_words (cm_psp s - 32) (caller_frame s0) (cm_mem s))(cm_psp s - 32 := rval)\<rparr>"
  have cur: "cm_current (exception_entry s0) = cm_current s" "cm_current s0 = cm_current s"
    by (simp_all add: exception_entry_def cm_current_def s0_def)
  have cur1: "cm_current s1 = of_nat c'" using ctx by (simp add: s1_def cm_current_def with_kernel_def)
  have e0: "cm_r (exception_entry s0) = cm_r s0" "cm_psp (exception_entry s0) = cm_psp s - 32"
    "cm_board (exception_entry s0) = cm_board s" "cm_lr (exception_entry s0) = EXC_RETURN"
    "cm_mem (exception_entry s0) = store_words (cm_psp s - 32) (caller_frame s0) (cm_mem s)"
    by (simp_all add: exception_entry_def s0_def)
  have args: "cm_r s0 0 = i" "cm_r s0 1 = arg0" "cm_r s0 2 = arg1" "cm_r s0 3 = arg2" by (simp_all add: s0_def)
  have new: "cm_current (with_kernel k' t) = of_nat c'" for t :: "'a cm_machine"
    using ctx(1) by (simp add: cm_current_def with_kernel_def)
  have wk: "cm_psp (with_kernel k' t) = cm_psp t" "cm_mem (with_kernel k' t) = cm_mem t" for t :: "'a cm_machine"
    by (simp_all add: with_kernel_def)
  have "SVCall error_of e junk (exception_entry s0) = Inr (switch_context s1)"
    using call by (simp add: SVCall_def Let_def cur e0 args new wk s1_def del: One_nat_def)
      (simp add: with_kernel_def after_call_def e0 fun_upd_twist)
  then have run: "cm_syscall error_of e junk i arg0 arg1 arg2 s = Inr (exception_return (switch_context s1))"
    unfolding cm_syscall_def s0_def [symmetric] by simp
  have cf: "caller_frame s0 = i # tl (caller_frame s0)" by (simp add: caller_frame_def s0_def)
  have "cm_mem s1 = store_words (cm_psp s - 32) f (cm_mem s)"
    using store_words_head [of "tl (caller_frame s0)" "cm_psp s - 32" i] cf
    by (simp add: s1_def f_def del: store_words.simps) (simp add: caller_frame_def)
  then have hr: "cm_mem s1 = store_words (cm_psp s - 32) f (cm_mem s)" "cm_psp s1 = cm_psp s - 32"
    "cm_lr s1 = EXC_RETURN" "cm_r s1 0 = cm_current s" "cm_r s1 1 = cm_current s1"
    "4 \<le> n \<Longrightarrow> n < 12 \<Longrightarrow> cm_r s1 n = cm_r s n" for n
    using cur1 by (simp_all add: s1_def exception_entry_def after_call_def with_kernel_def s0_def)
  have bp: "cm_basepri s1 = basepri_of (interrupt_threshold k')"
    by (simp add: s1_def cm_basepri_def cm_threshold_def with_kernel_def)
  have len: "length f = 8" by (simp add: caller_frame_def f_def)
  note h = handler_return [OF lay len _ hr, unfolded cur1, OF ctx(2)]
  let ?s' = "exception_return (switch_context s1)" and ?r = "(cm_r s)(0 := rval, 1 := arg0, 2 := arg1, 3 := arg2)"
  let ?t = "s\<lparr>cm_r := ?r, cm_board := board_threshold (interrupt_threshold k') (cm_board s)\<rparr>"
  have own: "cm_view ?s' (cm_current s) = cm_view ?t (cm_current s)"
  proof -
    have "cm_current ?t = cm_current s" by (simp add: cm_current_def board_threshold_def)
    moreover have "caller_frame ?t = f" by (simp add: caller_frame_def f_def s0_def)
    moreover have "cm_basepri ?t = basepri_of (interrupt_threshold k')"
      by (simp add: cm_basepri_def cm_threshold_def board_threshold_def)
    ultimately show ?thesis using h(4) bp by (simp add: cm_view_def cm_live_def)
  qed
  have "?t = s\<lparr>cm_r := ?r\<rparr>" if "interrupt_threshold k' = cm_threshold s"
    using that by (simp add: board_threshold_def cm_threshold_def)
  then have same: "interrupt_threshold k' = cm_threshold s \<longrightarrow> cm_view ?s' (cm_current s) = cm_view (s\<lparr>cm_r := ?r\<rparr>) (cm_current s)"
    using own by metis
  have "cm_r ?s' 0 = rval" if "of_nat c' = cm_current s"
    using h(2,4) that by (simp add: cm_view_def cm_live_def cm_registers_def caller_frame_def f_def)
  moreover have "cm_view ?s' d = cm_view s d" if "d \<in> T" "d \<noteq> cm_current s" for d
    using h(5) that by (simp add: cm_view_def)
  ultimately show ?thesis using run h(2) own same by blast
qed

theorem cm_syscall_result_witness:
  "\<exists>s'. cm_syscall (\<lambda>_. RecursiveLock) (sample_env 0) (\<lambda>_. 5) 1 7 0 0 sample_cm = Inr s' \<and> cm_current s' = 1000 \<and> cm_r s' 0 = 0"
proof -
  obtain k' where k': "private_kernel_syscall_handler (\<lambda>_. RecursiveLock) (sample_env 0) 1 7 0 0 (mach_kernel (cm_board sample_cm))
    = Inr (0, k')" "thread_context k' = Some 1000" using sample_cm_yield by (auto split: sum.splits)
  from cm_syscall_result [OF sample_cm_layout k', of "\<lambda>_. 5"] sample_cm_facts(5) show ?thesis by auto
qed

text \<open>
  The first thread starts as its context was made, at its main function with its argument, its
  stack and the abort function as return address, but with the wrong priority mask: the mask is
  read from 40 bytes behind the argument of the thread, because the register with the address of
  the context has been loaded with the argument before; of this word the register takes four bits. Used of the exception frame: its size and
  the order of its fields, which are the processor's.
\<close>

theorem first_thread_basepri:
  fixes s :: "'h cm_machine"
  assumes ef: "ef_size = 32" "ef_offset EfR0 = 0" "ef_offset EfR1 = 4" "ef_offset EfR2 = 8" "ef_offset EfR3 = 12"
      "ef_offset EfR12 = 16" "ef_offset EfLr = 20" "ef_offset EfPc = 24" "ef_offset EfXpsr = 28"
    and ctx: "addresses (of_nat c) 27 \<inter> addresses (stack_ptr - 32) 8 = {}"
    and mem: "cm_mem s = cm_context_init ef_size ef_offset basepri abort main (Some arg) stack_ptr (of_nat c) m"
  shows "let s' = cm_start_first_thread c s in
       cm_current s' = of_nat c \<and> cm_pc s' = main \<and> cm_lr s' = abort \<and> cm_psp s' = stack_ptr
     \<and> cm_r s' 0 = arg \<and> cm_mem s (of_nat c + 40) = basepri \<and> cm_threshold s' = threshold_in (cm_mem s (arg + 40))"
proof -
  let ?ctx = "of_nat c :: u32"
  define p where "p = stack_ptr - 32"
  have apart: "?ctx + 4 * of_nat i \<noteq> p + 4 * of_nat j" if "i < 27" "j < 8" for i j
    using ctx that by (auto simp: addresses_def disjoint_iff p_def)
  note a = apart [of 9 0] apart [of 9 1] apart [of 9 2] apart [of 9 3] apart [of 9 4] apart [of 9 5] apart [of 9 6] apart [of 9 7]
    apart [of 10 0] apart [of 10 1] apart [of 10 2] apart [of 10 3] apart [of 10 4] apart [of 10 5] apart [of 10 6] apart [of 10 7]
  have init: "cm_mem s = cm_context_init 32 ef_offset basepri abort main (Some arg) stack_ptr (of_nat c) m" using mem ef(1) by simp
  have sp: "cm_mem s (?ctx + 36) = p" "cm_mem s (?ctx + 40) = basepri"
    unfolding init cm_context_init_def Let_def ef p_def [symmetric] using a by (simp_all del: store_words.simps)
  have fr: "cm_mem s p = arg" "cm_mem s (p + 20) = abort" "cm_mem s (p + 24) = main"
    unfolding init cm_context_init_def Let_def ef p_def [symmetric] by (simp_all del: store_words.simps)
  have top: "p + 32 = stack_ptr" by (simp add: p_def)
  have l: "load_words x 5 (cm_mem s) = [cm_mem s x, cm_mem s (x + 4), cm_mem s (x + 8), cm_mem s (x + 12), cm_mem s (x + 16)]" for x
    by (simp add: load_words_def upt_rec)
  show ?thesis
    using sp fr top by (simp add: cm_start_first_thread_def Let_def cm_current_def l set_registers_def
        msr_basepri_def board_threshold_def cm_threshold_def)
qed

fun sample_ef_offset :: "ef_field \<Rightarrow> u32" where
  "sample_ef_offset EfR0 = 0" | "sample_ef_offset EfR1 = 4" | "sample_ef_offset EfR2 = 8" | "sample_ef_offset EfR3 = 12"
| "sample_ef_offset EfR12 = 16" | "sample_ef_offset EfLr = 20" | "sample_ef_offset EfPc = 24" | "sample_ef_offset EfXpsr = 28"

theorem first_thread_basepri_witness:
  "let s = sample_cm\<lparr>cm_mem := cm_context_init 32 sample_ef_offset 16 64 500 (Some 8000) 4096 1000 (\<lambda>a. if a = 8040 then 240 else 0)\<rparr>
   in cm_pc (cm_start_first_thread 1000 s) = 500 \<and> cm_mem s 1040 = 16
    \<and> cm_threshold (cm_start_first_thread 1000 s) = threshold_in (cm_mem s 8040)"
proof -
  let ?m = "cm_context_init 32 sample_ef_offset 16 64 500 (Some 8000) 4096 (of_nat 1000) (\<lambda>a. if a = 8040 then 240 else 0)"
  have "addresses (of_nat 1000) 27 \<inter> addresses (4096 - 32) 8 = {}" by code_simp
  from first_thread_basepri [where s = "sample_cm\<lparr>cm_mem := ?m\<rparr>", OF _ _ _ _ _ _ _ _ _ this]
  show ?thesis by (simp add: Let_def)
qed

end
