(* ===== verification/Stm32_Timer.thy ===== *)
theory Stm32_Timer
  imports Cortex_M
begin

text \<open>
  The timer of the stm32f4 (\<open>khal/scars-khal-stm32f4\<close>): a 64-bit clock in two counters of 32 bits,
  \<open>TIM2\<close> the low and \<open>TIM5\<close> the high half, each with a compare register. \<open>set_wakeup\<close> is in Hal; here
  is the interrupt handler of the low half, instruction by instruction, from the interrupt to the
  return to a thread, and what becomes of an alarm that was set.
\<close>

section \<open>The interrupt handler\<close>

definition TIM2_SR :: u32 where "TIM2_SR = 0x40000010"
definition TIM5_CNT :: u32 where "TIM5_CNT = 0x40000C24"
definition TIM5_CCR1 :: u32 where "TIM5_CCR1 = 0x40000C34"

text \<open>The comparison \<open>lt\<close> is of signed numbers. When it succeeds, \<open>bxlt lr\<close> returns at once.\<close>

definition TIM2 :: "env \<Rightarrow> (nat \<Rightarrow> u32) \<Rightarrow> 'h cm_machine \<Rightarrow> 'h cm_machine res" where
  "TIM2 e junk s =
     (let r = (cm_r s)(0 := cm_current s);
          r = r(1 := TIM2_SR);
          r = r(2 := 0);
          m = (cm_mem s)(r 1 := r 2);
          r = r(1 := TIM5_CNT);
          r = r(2 := m (r 1));
          r = r(1 := TIM5_CCR1);
          r = r(3 := m (r 1))
      in
      if sint (r 2) < sint (r 3) then Inr (s\<lparr>cm_r := r, cm_mem := m\<rparr>)
      else
        let pushed = (r 0, cm_lr s) in
        bind_res (kernel_wakeup_handler e (mach_kernel (cm_board s))) (\<lambda>(_, k).
          let s = with_kernel k s;
              r = after_call (junk 0) junk r;
              r = r(0 := fst pushed);
              r = r(1 := cm_current s)
          in Inr (switch_context (s\<lparr>cm_r := r, cm_lr := snd pushed, cm_mem := m\<rparr>))))"

definition tim2_interrupt :: "env \<Rightarrow> (nat \<Rightarrow> u32) \<Rightarrow> 'h cm_machine \<Rightarrow> 'h cm_machine res" where
  "tim2_interrupt e junk s = bind_res (TIM2 e junk (exception_entry s)) (\<lambda>s1. Inr (exception_return s1))"

definition tim5_reached :: "u32 \<Rightarrow> u32 \<Rightarrow> bool" where
  "tim5_reached cnt ccr \<longleftrightarrow> \<not> sint cnt < sint ccr"

section \<open>The registers of the timer and the threads\<close>

text \<open>The registers of the timer are not in any context and not in any stack.\<close>

definition timer_apart :: "u32 set \<Rightarrow> 'h cm_machine \<Rightarrow> bool" where
  "timer_apart T s \<longleftrightarrow>
     (\<forall>x \<in> {TIM2_SR, TIM5_CNT, TIM5_CCR1}. x \<notin> addresses (cm_psp s - 32) 8
        \<and> (\<forall>d \<in> T. x \<notin> addresses d 11 \<and> (d \<noteq> cm_current s \<longrightarrow> x \<notin> addresses (cm_mem s (d + 36)) 8)))"

definition sr_cleared :: "'h cm_machine \<Rightarrow> 'h cm_machine" where
  "sr_cleared s = s\<lparr>cm_mem := (cm_mem s)(TIM2_SR := 0)\<rparr>"

lemma sr_cleared_simps [simp]:
  "cm_current (sr_cleared s) = cm_current s" "cm_psp (sr_cleared s) = cm_psp s" "cm_r (sr_cleared s) = cm_r s"
  "cm_basepri (sr_cleared s) = cm_basepri s" "cm_board (sr_cleared s) = cm_board s" "cm_fpu (sr_cleared s) = cm_fpu s"
  "cm_mem (sr_cleared s) = (cm_mem s)(TIM2_SR := 0)" "caller_frame (sr_cleared s) = caller_frame s" "cm_live (sr_cleared s) = cm_live s"
  by (simp_all add: sr_cleared_def cm_current_def caller_frame_def cm_live_def cm_basepri_def cm_threshold_def)

lemma sr_cleared_context:
  assumes "timer_apart T s" "d \<in> T"
  shows "cm_mem (sr_cleared s) (d + 36) = cm_mem s (d + 36)" "cm_mem (sr_cleared s) (d + 32) = cm_mem s (d + 32)"
    "cm_mem (sr_cleared s) (d + 40) = cm_mem s (d + 40)"
proof -
  have "TIM2_SR \<notin> addresses d 11" using assms by (simp add: timer_apart_def)
  then show "cm_mem (sr_cleared s) (d + 36) = cm_mem s (d + 36)" "cm_mem (sr_cleared s) (d + 32) = cm_mem s (d + 32)"
    "cm_mem (sr_cleared s) (d + 40) = cm_mem s (d + 40)"
    using context_addresses [of d] by auto
qed

lemma sr_cleared_view: "timer_apart T s \<Longrightarrow> d \<in> T \<Longrightarrow> cm_view (sr_cleared s) d = cm_view s d"
proof (cases "d = cm_current s")
  case False
  assume "timer_apart T s" "d \<in> T"
  with False have "TIM2_SR \<notin> addresses d 11" "TIM2_SR \<notin> addresses (cm_mem s (d + 36)) 8" by (simp_all add: timer_apart_def)
  then have "cm_frozen (cm_mem s) d = cm_frozen (cm_mem (sr_cleared s)) d"
    by (intro cm_frozen_cong) auto
  with False show ?thesis by (simp add: cm_view_def)
qed (simp add: cm_view_def)

lemma sr_cleared_layout: "timer_apart T s \<Longrightarrow> cm_layout T s \<Longrightarrow> cm_layout T (sr_cleared s)"
  using sr_cleared_context [of T s] by (simp add: cm_layout_def del: sr_cleared_simps(7))

text \<open>The handler up to the comparison.\<close>

lemma entry_timer:
  assumes "timer_apart T s"
  shows "(cm_mem (exception_entry s))(TIM2_SR := 0) = store_words (cm_psp s - 32) (caller_frame s) (cm_mem (sr_cleared s))"
    and "((cm_mem (exception_entry s))(TIM2_SR := 0)) TIM5_CNT = cm_mem s TIM5_CNT"
    and "((cm_mem (exception_entry s))(TIM2_SR := 0)) TIM5_CCR1 = cm_mem s TIM5_CCR1"
proof -
  have len: "length (caller_frame s) = 8" by (simp add: caller_frame_def)
  have out: "x \<notin> addresses (cm_psp s - 32) (length (caller_frame s))" if "x \<in> {TIM2_SR, TIM5_CNT, TIM5_CCR1}" for x
    using assms that unfolding len by (auto simp: timer_apart_def)
  show "(cm_mem (exception_entry s))(TIM2_SR := 0) = store_words (cm_psp s - 32) (caller_frame s) (cm_mem (sr_cleared s))"
    using store_words_commute [OF out [of TIM2_SR]] by (simp add: exception_entry_def)
  show "((cm_mem (exception_entry s))(TIM2_SR := 0)) TIM5_CNT = cm_mem s TIM5_CNT"
    "((cm_mem (exception_entry s))(TIM2_SR := 0)) TIM5_CCR1 = cm_mem s TIM5_CCR1"
    using store_words_outside [OF out [of TIM5_CNT]] store_words_outside [OF out [of TIM5_CCR1]]
    by (simp_all add: exception_entry_def TIM2_SR_def TIM5_CNT_def TIM5_CCR1_def)
qed

text \<open>The return from an exception loads the registers that were pushed.\<close>

lemma exception_return_caller:
  assumes "\<And>n. n \<notin> {0, 1, 2, 3, 12} \<Longrightarrow> r n = r' n"
  shows "exception_return (s\<lparr>cm_r := r\<rparr>) = exception_return (s\<lparr>cm_r := r'\<rparr>)"
proof -
  have f: "length (load_words (cm_psp s) 8 (cm_mem s)) = 8" by simp
  define ws where "ws = take 5 (load_words (cm_psp s) 8 (cm_mem s))"
  have len: "length ws = length [0, 1, 2, 3, 12 :: nat]" using f by (simp add: ws_def)
  have "set_registers [0, 1, 2, 3, 12] ws r n = set_registers [0, 1, 2, 3, 12] ws r' n" for n
  proof (cases "n \<in> set [0, 1, 2, 3, 12]")
    case True
    have "map (set_registers [0, 1, 2, 3, 12] ws r) [0, 1, 2, 3, 12] = map (set_registers [0, 1, 2, 3, 12] ws r') [0, 1, 2, 3, 12]"
      using set_registers_map [OF _ len [symmetric]] by simp
    with True show ?thesis by (simp only: map_eq_conv)
  next
    case False
    then show ?thesis using assms [of n] by (simp add: set_registers_other)
  qed
  then have "set_registers [0, 1, 2, 3, 12] ws r = set_registers [0, 1, 2, 3, 12] ws r'" by (rule ext)
  then show ?thesis by (simp add: exception_return_def ws_def Let_def)
qed

text \<open>The state before the switch, for a handler that left the kernel in state \<open>k\<close>.\<close>

definition tim2_switching :: "(nat \<Rightarrow> u32) \<Rightarrow> kernel \<Rightarrow> 'h cm_machine \<Rightarrow> 'h cm_machine" where
  "tim2_switching r k s = with_kernel k (exception_entry s)\<lparr>cm_r := r(0 := cm_current s, 1 := cm_current (with_kernel k s)),
     cm_mem := store_words (cm_psp s - 32) (caller_frame s) (cm_mem (sr_cleared s))\<rparr>"

lemma entry_simps [simp]:
  "cm_current (exception_entry s) = cm_current s" "cm_r (exception_entry s) = cm_r s" "cm_lr (exception_entry s) = EXC_RETURN"
  "cm_board (exception_entry s) = cm_board s" "cm_psp (exception_entry s) = cm_psp s - 32"
  "cm_basepri (exception_entry s) = cm_basepri s"
  by (simp_all add: exception_entry_def cm_current_def cm_basepri_def cm_threshold_def)

lemma current_with_kernel: "cm_current (with_kernel k (exception_entry s)) = cm_current (with_kernel k s)"
  by (simp add: cm_current_def with_kernel_def)

lemma same_context: "cm_r s 0 = cm_r s 1 \<Longrightarrow> switch_context s = s"
  by (simp add: switch_context_def)

lemma tim2_run:
  assumes apart: "timer_apart T s"
    and k: "if tim5_reached (cm_mem s TIM5_CNT) (cm_mem s TIM5_CCR1)
      then kernel_wakeup_handler e (mach_kernel (cm_board s)) = Inr ((), k') else k' = mach_kernel (cm_board s)"
  obtains r where "tim2_interrupt e junk s = Inr (exception_return (switch_context (tim2_switching r k' s)))"
    and "\<And>n. 4 \<le> n \<Longrightarrow> n < 12 \<Longrightarrow> r n = cm_r s n"
proof (cases "tim5_reached (cm_mem s TIM5_CNT) (cm_mem s TIM5_CCR1)")
  note m = entry_timer(1) [OF apart] and m' = entry_timer(2,3) [OF apart, unfolded entry_timer(1) [OF apart] sr_cleared_simps]
  let ?r = "(cm_r s)(0 := cm_current s, 1 := TIM5_CCR1, 2 := cm_mem s TIM5_CNT, 3 := cm_mem s TIM5_CCR1)"
  case True
  let ?r' = "after_call (junk 0) junk ?r"
  have "TIM2 e junk (exception_entry s) = Inr (switch_context (tim2_switching ?r' k' s))"
    using k True unfolding TIM2_def Let_def
    by (simp add: m m' tim5_reached_def tim2_switching_def del: One_nat_def)
      (intro arg_cong [where f = switch_context] cm_machine.equality;
        simp add: with_kernel_def exception_entry_def cm_current_def fun_upd_twist)
  then have "tim2_interrupt e junk s = Inr (exception_return (switch_context (tim2_switching ?r' k' s)))"
    by (simp add: tim2_interrupt_def)
  moreover have "?r' n = cm_r s n" if "4 \<le> n" "n < 12" for n using that by (simp add: after_call_def)
  ultimately show ?thesis by (rule that)
next
  note m = entry_timer(1) [OF apart] and m' = entry_timer(2,3) [OF apart, unfolded entry_timer(1) [OF apart] sr_cleared_simps]
  let ?r = "(cm_r s)(0 := cm_current s, 1 := TIM5_CCR1, 2 := cm_mem s TIM5_CNT, 3 := cm_mem s TIM5_CCR1)"
  let ?m = "store_words (cm_psp s - 32) (caller_frame s) (cm_mem (sr_cleared s))"
  case False
  then have k': "k' = mach_kernel (cm_board s)" using k by simp
  then have same: "with_kernel k' (exception_entry s) = exception_entry s" "with_kernel k' s = s"
    by (simp_all add: with_kernel_def)
  have "TIM2 e junk (exception_entry s) = Inr ((exception_entry s)\<lparr>cm_mem := ?m, cm_r := ?r\<rparr>)"
    using False unfolding TIM2_def Let_def
    by (simp add: m m' tim5_reached_def) (rule cm_machine.equality; simp add: fun_upd_twist)
  moreover have "exception_return ((exception_entry s)\<lparr>cm_mem := ?m, cm_r := ?r\<rparr>) = exception_return (tim2_switching ?r k' s)"
  proof -
    have "tim2_switching ?r k' s = (exception_entry s)\<lparr>cm_mem := ?m, cm_r := ?r(0 := cm_current s, 1 := cm_current s)\<rparr>"
      by (simp add: tim2_switching_def same)
    then show ?thesis by (simp only:) (rule exception_return_caller, simp)
  qed
  moreover have "switch_context (tim2_switching ?r k' s) = tim2_switching ?r k' s"
    by (rule same_context) (simp add: tim2_switching_def same)
  ultimately have "tim2_interrupt e junk s = Inr (exception_return (switch_context (tim2_switching ?r k' s)))"
    by (simp add: tim2_interrupt_def)
  moreover have "?r n = cm_r s n" if "4 \<le> n" "n < 12" for n using that by simp
  ultimately show ?thesis by (rule that)
qed

lemma tim2_transparent:
  fixes s :: "'h cm_machine"
  assumes lay: "cm_layout T s" and apart: "timer_apart T s"
    and k: "if tim5_reached (cm_mem s TIM5_CNT) (cm_mem s TIM5_CCR1)
      then kernel_wakeup_handler e (mach_kernel (cm_board s)) = Inr ((), k') else k' = mach_kernel (cm_board s)"
    and ctx: "thread_context k' = Some c'" "of_nat c' \<in> T" and thr: "interrupt_threshold k' = cm_threshold s"
  shows "\<exists>s'. tim2_interrupt e junk s = Inr s' \<and> mach_kernel (cm_board s') = k'\<lparr>interrupt_threshold := cm_threshold s'\<rparr>
     \<and> cm_current s' = of_nat c' \<and> (\<forall>d \<in> T. cm_view s' d = cm_view s d)
     \<and> (of_nat c' = cm_current s \<longrightarrow> mach_kernel (cm_board s') = k')"
proof -
  obtain r where run: "tim2_interrupt e junk s = Inr (exception_return (switch_context (tim2_switching r k' s)))"
    and r: "\<And>n. 4 \<le> n \<Longrightarrow> n < 12 \<Longrightarrow> r n = cm_r s n"
    using tim2_run [OF apart k] by blast
  define s1 where "s1 = tim2_switching r k' s"
  have cur1: "cm_current s1 = of_nat c'" and curk: "cm_current (with_kernel k' s) = of_nat c'"
    using ctx(1) by (simp_all add: s1_def tim2_switching_def cm_current_def with_kernel_def)
  have hr: "cm_mem s1 = store_words (cm_psp (sr_cleared s) - 32) (caller_frame s) (cm_mem (sr_cleared s))"
    "cm_psp s1 = cm_psp (sr_cleared s) - 32" "cm_lr s1 = EXC_RETURN"
    "cm_r s1 0 = cm_current (sr_cleared s)" "cm_r s1 1 = cm_current s1"
    "4 \<le> n \<Longrightarrow> n < 12 \<Longrightarrow> cm_r s1 n = cm_r (sr_cleared s) n" for n
    using cur1 curk r by (simp_all add: s1_def tim2_switching_def with_kernel_def exception_entry_def)
  have bp: "cm_basepri s1 = cm_basepri (sr_cleared s)"
    using thr by (simp add: s1_def tim2_switching_def with_kernel_def cm_basepri_def cm_threshold_def)
  have len: "length (caller_frame s) = 8" by (simp add: caller_frame_def)
  have "cm_current s1 \<in> T" using cur1 ctx(2) by simp
  note h = handler_return [OF sr_cleared_layout [OF apart lay] len this hr]
  have "cm_view (exception_return (switch_context s1)) d = cm_view (sr_cleared s) d" if "d \<in> T" for d
    using h(4,5) bp that by (cases "d = cm_current s") (simp_all add: cm_view_def cm_live_def)
  then have "cm_view (exception_return (switch_context s1)) d = cm_view s d" if "d \<in> T" for d
    using sr_cleared_view [OF apart that] that by simp
  moreover have k1: "mach_kernel (cm_board s1) = k'" by (simp add: s1_def tim2_switching_def with_kernel_def)
  have "mach_kernel (cm_board (exception_return (switch_context s1)))
      = k'\<lparr>interrupt_threshold := cm_threshold (exception_return (switch_context s1))\<rparr>"
    using h(6) k1 by (auto simp: board_threshold_def cm_threshold_def)
  moreover have "mach_kernel (cm_board (exception_return (switch_context s1))) = k'" if "of_nat c' = cm_current s"
    using same_context [of s1] hr(4,5) cur1 that k1 by simp
  ultimately show ?thesis using run h(2) cur1 unfolding s1_def by auto
qed

section \<open>The threshold\<close>

text \<open>
  The timer interrupt leaves the kernel's threshold, and so the priority mask, as it is: waking
  threads and switching to one do not touch it.
\<close>

lemma wake_sleepers_threshold:
  assumes "wake_sleepers wk time k = Some (Inr k')"
    and "\<forall>s \<in> set (sleep_queue k). \<exists>t. kind (suspendables k s) = KThread t"
  shows "interrupt_threshold k' = interrupt_threshold k"
  using assms
proof (induction "sleep_queue k" arbitrary: k)
  case Nil
  then show ?case by (auto simp: wake_sleepers.simps [of wk time k] set_alarm_def split: list.splits)
next
  case (Cons s ss)
  obtain t where t: "kind (suspendables k s) = KThread t" using Cons.prems(2) unfolding Cons.hyps(2) [symmetric] by auto
  show ?case
  proof (cases "is_due time k s")
    case True
    let ?k = "k\<lparr>sleep_queue := ss\<rparr>"
    obtain k1 where k1: "wakeup_thread t ?k = Inr k1" "wake_sleepers wk time k1 = Some (Inr k')"
      using Cons.prems(1) Cons.hyps(2) [symmetric] True t
      by (auto simp: wake_sleepers.simps [of wk time k] wakeup_suspendable_def split: sum.splits)
    have same: "sleep_queue k1 = ss" "suspendables k1 = suspendables k" using wakeup_thread_kept [OF k1(1)] by simp_all
    have "interrupt_threshold k1 = interrupt_threshold k"
      using k1(1) by (auto simp: wakeup_thread_def insert_to_ready_queue_def Let_def bind_res_eq_Inr kernel_upd_defs split: if_splits)
    moreover have "\<forall>s \<in> set ss. \<exists>t. kind (suspendables k s) = KThread t"
      using Cons.prems(2) unfolding Cons.hyps(2) [symmetric] by simp
    then have "interrupt_threshold k' = interrupt_threshold k1" by (intro Cons.hyps(1) k1(2)) (simp_all add: same)
    ultimately show ?thesis by simp
  next
    case False
    then show ?thesis using Cons.prems(1) Cons.hyps(2) [symmetric] by (auto simp: wake_sleepers.simps [of wk time k] set_alarm_def)
  qed
qed

lemma reschedule_threshold:
  assumes "sched_inv k" and "threads_only k" and "reschedule wk time rkind k = Inr k'"
  shows "interrupt_threshold k' = interrupt_threshold k"
proof -
  from assms(3) obtain k1 t k2 where k1: "wake_sleepers wk time k = Some (Inr k1)"
    "reschedule_next rkind k1 = Inr (t, k2)"
    and rest: "(if thread_id (threads k2 t) \<noteq> thread_id (threads k2 (current_thread k2)) then
         bind_res (switch_thread t k2) (\<lambda>(previous, k3). insert_to_ready_queue previous k3)
       else Inr k2) = Inr k'"
    by (auto simp: reschedule_def bind_res_eq_Inr loop_result_def split: option.splits)
  have "interrupt_threshold k' = interrupt_threshold k2"
    using rest by (auto simp: switch_thread_def insert_to_ready_queue_def Let_def bind_res_eq_Inr kernel_upd_defs split: if_splits)
  moreover have "interrupt_threshold k2 = interrupt_threshold k1"
    using k1(2) by (auto simp: reschedule_next_def Let_def kernel_upd_defs split: if_splits prod.splits)
  ultimately show ?thesis using wake_sleepers_threshold [OF k1(1) threads_only_kinds [OF assms(1,2)]] by simp
qed

lemma execute_pending_threshold:
  assumes k: "settled (Some i) k" and r: "pending_reschedule_kind k AND 3 \<noteq> 0"
    and run: "execute_pending_reschedule e y k = Inr k'"
  shows "interrupt_threshold k' = interrupt_threshold k"
proof -
  let ?r = "pending_reschedule_kind k" and ?k = "k\<lparr>pending_reschedule_kind := 0\<rparr>"
  have s: "settled (Some i) ?k" using k by (simp add: settled_def stacks_alive_def threads_only_def)
  have inv: "sched_inv (locked i ?k)" and th: "threads_only (locked i ?k)" and ca: "canary_ok (locked i ?k)"
    using s settled_canary [OF s] by (simp_all add: settled_def)
  obtain k1 where k1: "reschedule (wake_by_ref e) (now e) ?r (locked i ?k) = Inr k1"
    "rescheduled (now e) (locked i ?k) k1" using reschedule_ok [OF inv r ca] th by blast
  have f: "unit_op (reschedule (wake_by_ref e) (now e) ?r) (locked i ?k) = Inr ((), k1)"
    using k1(1) by (simp add: unit_op_def)
  have c: "cells k1 = cells (locked i ?k)" using reschedule_kept [OF inv th k1(1)] by (simp add: kept_def)
  have fr: "sched_inv k1" "sched_frame ?k k1" "threads_only k1"
    using k1(2) th by (auto simp: rescheduled_def threads_only_def dest: set_dropWhileD)
  note l = locked_ok [where f = "unit_op (reschedule (wake_by_ref e) (now e) ?r)", OF s f c fr]
  have "?r \<noteq> 0" using r by auto
  then have "k' = unlocked k1"
    using run by (simp add: execute_pending_reschedule_def atomic_swap_def RESCHEDULE_KIND_NONE_def Let_def l(1) [of e y])
  then show ?thesis using reschedule_threshold [OF inv th k1(1)] by (simp add: unlocked_def locked_def)
qed

lemma timer_threshold:
  assumes k: "settled None k" and run: "kernel_wakeup_handler e k = Inr ((), k')"
  shows "interrupt_threshold k' = interrupt_threshold k"
proof -
  let ?i = TIMER_INTERRUPT_HANDLER
  let ?k = "polls_ready (wakeup_scheduler_isr (at_interrupt ?i k))"
  have s0: "settled (Some ?i) (wakeup_scheduler_isr (at_interrupt ?i k))"
    using at_interrupt_settled [OF k, of ?i]
    by (simp add: settled_def wakeup_scheduler_isr_def set_pending_reschedule_def stacks_alive_def threads_only_def)
  then have s: "settled (Some ?i) ?k" by simp
  have "pending_reschedule_kind ?k AND 3 = (pending_reschedule_kind k AND 3) OR (1 AND 3)"
    by (simp add: wakeup_scheduler_isr_def RESCHEDULE_KIND_YIELD_TO_HIGHER_def set_pending_reschedule_def at_interrupt_def
        bit.conj_disj_distrib2)
  then have r: "pending_reschedule_kind ?k AND 3 \<noteq> 0" by (simp add: or_eq_0_iff)
  obtain k2 where k2: "execute_pending_reschedule e no_yield ?k = Inr k2" "settled (Some ?i) k2"
    using execute_pending_reschedule_ok [OF s r, of e no_yield] by blast
  have drain: "loop_result (drain_polls e (wakeup_scheduler_isr (at_interrupt ?i k))) = Inr ?k"
    using s0 drain_polls_empty [of "wakeup_scheduler_isr (at_interrupt ?i k)"]
    by (simp add: settled_def loop_result_def polls_ready_def)
  have "interrupt_exit_loop e (wakeup_scheduler_isr (at_interrupt ?i k)) = Some (Inr (polls_ready k2))"
    using drain k2 aq_is_empty_holds [of "pending_executor_polls k2"]
    by (simp add: interrupt_exit_loop.simps [of e "wakeup_scheduler_isr (at_interrupt ?i k)"] settled_def polls_ready_def)
  then have "k' = (polls_ready k2)\<lparr>current_interrupt := None\<rparr>"
    using run k by (simp add: kernel_wakeup_handler_def interrupt_context_def atomic_swap_def settled_def at_interrupt_def loop_result_def)
  then show ?thesis
    using execute_pending_threshold [OF s r k2(1)]
    by (simp add: polls_ready_def wakeup_scheduler_isr_def set_pending_reschedule_def at_interrupt_def)
qed

section \<open>Alarms\<close>

lemma unat_low_word: "unat (low_word t) = unat t mod 2 ^ 32"
  by (simp add: low_word_def unsigned_ucast_eq take_bit_eq_mod)

lemma clock_split: "unat t = 2 ^ 32 * unat (high_word t) + unat (low_word t)"
  by (simp only: unat_high_word unat_low_word mult_div_mod_eq)

lemma sint_high_word:
  assumes "t < 2 ^ 63"
  shows "sint (high_word t) = uint (high_word t)"
proof -
  have "unat t < 2 ^ 63" using assms by (simp add: word_less_nat_alt)
  then have "unat (high_word t) < 2147483648" unfolding unat_high_word by simp
  then have b: "uint (high_word t) < 2147483648" by (metis of_nat_less_iff of_nat_numeral uint_nat)
  have "sint (high_word t) = signed_take_bit 31 (uint (high_word t))" by (simp add: sint_uint)
  also have "\<dots> = uint (high_word t)"
    by (rule signed_take_bit_int_eq_self) (use b unsigned_greater_eq [of "high_word t"] in \<open>simp_all add: order_trans [OF _ unsigned_greater_eq]\<close>)
  finally show ?thesis .
qed

lemma compare_words:
  "stm_set_wakeup t0 t1 (Some at) = (high_word at, low_word at,
     high_word t0 = high_word at \<and> low_word t1 > low_word at \<or> high_word t0 > high_word at)"
proof -
  have "ucast (at AND mask 32) = (low_word at :: u32)"
    by (rule bit_word_eqI) (simp add: low_word_def bit_simps)
  moreover have "(0xffffffff :: u64) = mask 32" by (simp add: mask_eq_exp_minus_1)
  ultimately have "ucast (at AND 0xffffffff) = (low_word at :: u32)" by (simp only:)
  then show ?thesis by (simp add: stm_set_wakeup_def high_word_def Let_def)
qed

lemma tim5_reached_iff:
  assumes "at < 2 ^ 63" "t < 2 ^ 63" "low_word at \<le> low_word t"
  shows "tim5_reached (high_word t) (high_word at) \<longleftrightarrow> at \<le> t"
proof -
  have "at \<le> t \<longleftrightarrow> unat (high_word at) \<le> unat (high_word t)"
    using assms(3) unsigned_less [of "low_word at", where 'a = nat] unsigned_less [of "low_word t", where 'a = nat]
    unfolding word_le_nat_alt clock_split [of at] clock_split [of t] by simp linarith
  also have "\<dots> \<longleftrightarrow> uint (high_word at) \<le> uint (high_word t)"
    by (simp only: uint_nat of_nat_le_iff)
  finally show ?thesis
    using assms(1,2) by (simp add: tim5_reached_def sint_high_word not_less)
qed

section \<open>Properties\<close>

text \<open>
  Claim C16. The timer interrupt of the stm32f4 after an alarm was set, when the low counter has passed
  its compare value: the handler calls the kernel if and only if the 64-bit clock has reached the
  alarm, as long as both are below 2^63; the kernel's handler returns and the processor goes on with
  the thread that it chose, and otherwise with the same one; every thread has the registers and the
  priority mask that it had, the mask of the one that runs being the kernel's threshold.
\<close>

theorem tim2_interrupt_correct:
  assumes lay: "cm_layout T s" and apart: "timer_apart T s" and quiet: "quiescent (mach_kernel (cm_board s))"
    and contexts: "\<And>k'. kernel_wakeup_handler e (mach_kernel (cm_board s)) = Inr ((), k') \<Longrightarrow>
      \<exists>c'. thread_context k' = Some c' \<and> of_nat c' \<in> T"
    and current: "thread_context (mach_kernel (cm_board s)) = Some c"
    and set: "stm_set_wakeup t0 t1 (Some at) = (cm_mem s TIM5_CCR1, compare_low, trigger)"
    and clock: "cm_mem s TIM5_CNT = high_word t" "compare_low \<le> low_word t" "at < 2 ^ 63" "t < 2 ^ 63"
  shows "\<exists>s'. tim2_interrupt e junk s = Inr s' \<and> (\<forall>d \<in> T. cm_view s' d = cm_view s d)
    \<and> (if at \<le> t then \<exists>k'. kernel_wakeup_handler e (mach_kernel (cm_board s)) = Inr ((), k')
           \<and> mach_kernel (cm_board s') = k'\<lparr>interrupt_threshold := cm_threshold s'\<rparr>
         else mach_kernel (cm_board s') = mach_kernel (cm_board s))
    \<and> quiescent (mach_kernel (cm_board s')) \<and> thread_context (mach_kernel (cm_board s')) \<noteq> None"
proof -
  let ?k = "mach_kernel (cm_board s)"
  have regs: "cm_mem s TIM5_CCR1 = high_word at" "compare_low = low_word at"
    using set by (simp_all add: compare_words)
  have due: "tim5_reached (cm_mem s TIM5_CNT) (cm_mem s TIM5_CCR1) \<longleftrightarrow> at \<le> t"
    using tim5_reached_iff [OF clock(3,4)] clock(1,2) by (simp add: regs)
  obtain k' where k': "kernel_wakeup_handler e ?k = Inr ((), k')" "quiescent k'"
    using timer_ok [OF quiescentD(8) [OF quiet]] by blast
  obtain c' where c': "thread_context k' = Some c'" "of_nat c' \<in> T" using contexts [OF k'(1)] by blast
  have thr: "interrupt_threshold k' = cm_threshold s"
    using timer_threshold [OF quiescentD(8) [OF quiet] k'(1)] by (simp add: cm_threshold_def)
  have c: "of_nat c \<in> T" using lay current by (simp add: cm_layout_def cm_current_def)
  show ?thesis
  proof (cases "at \<le> t")
    case True
    with tim2_transparent [OF lay apart _ c' thr, of e junk] due k' c'(1) show ?thesis by auto
  next
    case False
    with tim2_transparent [OF lay apart, of e ?k c junk] due quiet current c show ?thesis
      by (auto simp: cm_current_def cm_threshold_def)
  qed
qed

text \<open>A machine with the alarm at 100: thread 1 runs with its context at 1000, thread 3 sleeps with its context at 3000.\<close>

definition timer_kernel :: kernel where
  "timer_kernel = sample_quiet\<lparr>thread_context := Some 1000, threads := \<lambda>t. (threads sample_quiet t)\<lparr>thr_context := Some (1000 * t)\<rparr>\<rparr>"

definition timer_machine :: "unit stm32f4 cm_machine" where
  "timer_machine = sample_cm\<lparr>cm_board := (cm_board sample_cm)\<lparr>mach_kernel := timer_kernel\<rparr>\<rparr>"

lemma timer_kernel_quiescent: "quiescent timer_kernel"
proof -
  have "tstate (threads timer_kernel) = tstate (threads sample_quiet)" "tprio (threads timer_kernel) = tprio (threads sample_quiet)"
    "tlock (threads timer_kernel) = tlock (threads sample_quiet)" "tid (threads timer_kernel) = tid (threads sample_quiet)"
    "tstack (threads timer_kernel) = tstack (threads sample_quiet)"
    by (simp_all add: timer_kernel_def fun_eq_iff tstate_def tprio_def tlock_def tid_def tstack_def priority_defs)
  then show ?thesis
    using sample_quiet_quiescent
    by (simp add: quiescent_def settled_def sched_inv_fl_def stacks_alive_def threads_only_def timer_kernel_def)
qed

lemma timer_machine_layout: "cm_layout {1000, 3000} timer_machine" "timer_apart {1000, 3000} timer_machine"
  by code_simp+

lemma timer_machine_wakes:
  "(case kernel_wakeup_handler (sample_env 150) timer_kernel of Inr (u, k) \<Rightarrow> thread_context k | Inl _ \<Rightarrow> None) \<in> {Some 1000, Some 3000}"
  by code_simp

theorem tim2_interrupt_correct_witness:
  "\<exists>s'. tim2_interrupt (sample_env 150) (\<lambda>_. 7) timer_machine = Inr s' \<and> cm_view s' 1000 = cm_view timer_machine 1000
    \<and> (\<exists>k'. kernel_wakeup_handler (sample_env 150) timer_kernel = Inr ((), k')
         \<and> mach_kernel (cm_board s') = k'\<lparr>interrupt_threshold := cm_threshold s'\<rparr>)"
proof -
  have k: "mach_kernel (cm_board timer_machine) = timer_kernel" "thread_context timer_kernel = Some 1000"
    "cm_mem timer_machine = cm_mem sample_cm"
    by (simp_all add: timer_machine_def timer_kernel_def)
  have m: "cm_mem sample_cm TIM5_CCR1 = 0" "cm_mem sample_cm TIM5_CNT = 0" by code_simp+
  have set: "stm_set_wakeup 0 1 (Some 100) = (cm_mem timer_machine TIM5_CCR1, 100, False)"
    unfolding k m by code_simp
  have clock: "cm_mem timer_machine TIM5_CNT = high_word 150" "(100 :: u32) \<le> low_word 150"
    unfolding k m by code_simp+
  have "\<exists>c'. thread_context k' = Some c' \<and> of_nat c' \<in> ({1000, 3000} :: u32 set)"
    if "kernel_wakeup_handler (sample_env 150) timer_kernel = Inr ((), k')" for k'
    using timer_machine_wakes that by auto
  with tim2_interrupt_correct [OF timer_machine_layout, of "sample_env 150" 1000 0 1 100 100 False 150 "\<lambda>_. 7"]
    timer_kernel_quiescent k(1,2) set clock
  show ?thesis by auto
qed

text \<open>
  Without an alarm both compare registers have all bits set, which is -1 in the signed comparison of the
  handler: it calls the kernel whenever the low counter passes its compare value.
\<close>

theorem tim2_wakes_without_alarm:
  "t < 2 ^ 63 \<Longrightarrow> tim5_reached (high_word t) (fst (stm_set_wakeup t0 t1 None))"
proof -
  assume t: "t < 2 ^ 63"
  have "fst (stm_set_wakeup t0 t1 None) = (- 1 :: u32)"
    unfolding stm_set_wakeup_def by (rule bit_word_eqI) (simp add: bit_simps Let_def)
  moreover have "- 1 \<le> uint (high_word t)" by (rule order_trans [OF _ unsigned_greater_eq]) simp
  ultimately show ?thesis using t by (simp add: tim5_reached_def sint_high_word not_less)
qed

theorem tim2_wakes_without_alarm_witness: "tim5_reached (high_word 5) (fst (stm_set_wakeup 1 2 None))"
  using tim2_wakes_without_alarm [of 5 1 2] by simp

text \<open>
  \<open>set_wakeup\<close> triggers the interrupt at once exactly when the alarm has passed, if the high
  counter does not change between the two reads; if it does, an alarm in the half that has ended is not triggered although it
  has passed, and is late by a whole period of the low counter.
\<close>

theorem stm32_set_wakeup_race:
  "(high_word t0 = high_word t1 \<longrightarrow> (snd (snd (stm_set_wakeup t0 t1 (Some at))) \<longleftrightarrow> at < t1))
    \<and> (high_word t0 = high_word at \<and> high_word t0 < high_word t1 \<and> low_word t1 \<le> low_word at
        \<longrightarrow> \<not> snd (snd (stm_set_wakeup t0 t1 (Some at))) \<and> at < t1)"
proof (intro conjI impI)
  have less: "at < t1 \<longleftrightarrow> high_word at < high_word t1 \<or> high_word at = high_word t1 \<and> low_word at < low_word t1"
    using unsigned_less [of "low_word at", where 'a = nat] unsigned_less [of "low_word t1", where 'a = nat]
    unfolding word_less_nat_alt word_unat_eq_iff clock_split [of at] clock_split [of t1] by simp linarith
  show "snd (snd (stm_set_wakeup t0 t1 (Some at))) \<longleftrightarrow> at < t1" if "high_word t0 = high_word t1"
    using that by (auto simp: compare_words less)
  assume *: "high_word t0 = high_word at \<and> high_word t0 < high_word t1 \<and> low_word t1 \<le> low_word at"
  then show "\<not> snd (snd (stm_set_wakeup t0 t1 (Some at)))" by (auto simp: compare_words)
  show "at < t1" using * by (auto simp: less)
qed

theorem stm32_set_wakeup_race_witness:
  "\<not> snd (snd (stm_set_wakeup 0xffffffff 0x100000001 (Some 0xfffffff0))) \<and> (0xfffffff0 :: u64) < 0x100000001"
proof -
  have "high_word 0xffffffff = high_word 0xfffffff0" "high_word 0xffffffff < high_word 0x100000001"
    "low_word 0x100000001 \<le> low_word 0xfffffff0"
    by (simp_all add: word_less_nat_alt word_le_nat_alt word_unat_eq_iff unat_high_word unat_low_word)
  with stm32_set_wakeup_race [of "0xffffffff" "0x100000001" "0xfffffff0"] show ?thesis by simp
qed

end
