(* ===== verification/Simulator.thy ===== *)
theory Simulator
  imports Interrupt_Dispatch Syscall_Abi
begin

text \<open>
  The processor of the simulator (\<open>khal/scars-khal-sim\<close>): each thread of the kernel is a thread of
  the host, of which all but one wait on their condition variables; traps are signals. The host
  runs its threads in any order, so that the model is a step relation. At any time only the
  kernel's current thread runs, and no resume is lost, provided that threads that have not started
  get no alarm, which the code does not prevent; and an alarm can be lost.
\<close>

section \<open>Virtual contexts\<close>

datatype simulator_error_kind =
    MutexLockFailed | CondWaitFailed | MutexUnlockFailed | ThreadStackInitFailed string nat
  | ClockReadFailed | SignalMaskFailed | SignalHandlerFailed | UnhandledException string | UnknownError

datatype virtual_trap = VSyscall u32 u32 u32 u32 | VAlarm

text \<open>The signals that the handler gets: the system call with its trap, the alarm, and others.\<close>

datatype signal = SyscallSignal virtual_trap | AlarmSignal | OtherSignal

text \<open>
  Where a host thread is: waiting to be started, between its start and its code, in its code; and
  in the signal handler, with the interrupted context and the state to restore: at the entry,
  about to resume another context, about to suspend itself, suspended, and about to return.
\<close>

datatype host_state =
    Parked | Starting | User
  | Trapped nat bool signal | Switching nat bool nat | Leaving nat bool | Waiting nat bool | Returning bool

text \<open>
  The state of the process. Host threads and contexts have the same numbers. \<open>resume_flag\<close> is the flag
  of the contexts, \<open>rval\<close> the result in the trap of a thread's system call, \<open>pending_alarm\<close> says to
  which host threads the alarm signal has been queued, \<open>alarm_blocked\<close> whether a host thread has
  blocked it before it starts, \<open>entered_from\<close> what a host thread did when the handler was entered.
  \<open>failed\<close> is the error that has ended the process.
\<close>

record process =
  proc_kernel :: kernel
  host :: "nat \<Rightarrow> host_state option"
  resume_flag :: "nat \<Rightarrow> bool"
  rval :: "nat \<Rightarrow> u32"
  ints_enabled :: bool
  pending_alarm :: "nat \<Rightarrow> bool"
  alarm_blocked :: "nat \<Rightarrow> bool"
  entered_from :: "nat \<Rightarrow> host_state"
  wait_until :: "u64 option"
  failed :: "simulator_error_kind option"

definition sim_current :: "process \<Rightarrow> nat option" where
  "sim_current s = thread_context (proc_kernel s)"

definition vc_resume :: "nat \<Rightarrow> nat \<Rightarrow> process \<Rightarrow> process" where
  "vc_resume self c s = (if self \<noteq> c then s\<lparr>resume_flag := (resume_flag s)(c := True)\<rparr> else s)"

text \<open>
  \<open>suspend\<close>, with the results of the host's functions: it waits (\<open>None\<close>) while the flag is not set.
  The lock makes the test and the reset of the flag one step.
\<close>

definition vc_suspend :: "int \<Rightarrow> int \<Rightarrow> int \<Rightarrow> nat \<Rightarrow> process \<Rightarrow> simulator_error_kind + process option" where
  "vc_suspend mutex_lock cond_wait mutex_unlock c s =
     (if mutex_lock \<noteq> 0 then Inl MutexLockFailed
      else if \<not> resume_flag s c then (if cond_wait \<noteq> 0 then Inl CondWaitFailed else Inr None)
      else if mutex_unlock \<noteq> 0 then Inl MutexUnlockFailed
      else Inr (Some (s\<lparr>resume_flag := (resume_flag s)(c := False)\<rparr>)))"

text \<open>
  \<open>VirtualContext::init\<close>: the flag is clear and the host thread is created, with the signals blocked
  that the creating thread blocks: the alarm while interrupts are disabled. \<open>attr_init\<close> and
  \<open>attr_setstack\<close> are the results of setting its stack.
\<close>

definition vc_init :: "int \<Rightarrow> int \<Rightarrow> string \<Rightarrow> nat \<Rightarrow> nat \<Rightarrow> process \<Rightarrow> simulator_error_kind + process" where
  "vc_init attr_init attr_setstack name' size' c s =
     (if attr_init \<noteq> 0 \<or> attr_setstack \<noteq> 0 then Inl (ThreadStackInitFailed name' size')
      else Inr (s\<lparr>resume_flag := (resume_flag s)(c := False), host := (host s)(c := Some Parked),
        alarm_blocked := (alarm_blocked s)(c := \<not> ints_enabled s)\<rparr>))"

section \<open>Traps\<close>

definition handle_trap ::
  "(u32 \<Rightarrow> runtime_error) \<Rightarrow> env \<Rightarrow> virtual_trap \<Rightarrow> kernel \<Rightarrow> (u32 \<times> kernel) res" where
  "handle_trap error_of e trap k =
     (case trap of
        VSyscall i arg0 arg1 arg2 \<Rightarrow> private_kernel_syscall_handler error_of e i arg0 arg1 arg2 k
      | VAlarm \<Rightarrow> Inl (Panic ''Unhandled exception''))"

definition handle_alarm :: "env \<Rightarrow> kernel \<Rightarrow> (unit \<times> kernel) res" where
  "handle_alarm e k = kernel_wakeup_handler e k"

text \<open>
  The call of the kernel in the handler. The kernel programs the timer through its alarm: \<open>passes\<close>
  says that a call leaves the alarm whatever it was, that is, does not program it.
\<close>

definition call_kernel ::
  "(u32 \<Rightarrow> runtime_error) \<Rightarrow> env \<Rightarrow> signal \<Rightarrow> kernel \<Rightarrow> (u32 option \<times> kernel) res" where
  "call_kernel error_of e sig k =
     (case sig of
        SyscallSignal trap \<Rightarrow> bind_res (handle_trap error_of e trap k) (\<lambda>(r, k1). Inr (Some r, k1))
      | AlarmSignal \<Rightarrow> bind_res (handle_alarm e k) (\<lambda>(_, k1). Inr (None, k1))
      | OtherSignal \<Rightarrow> Inl (Panic ''Unknown signal''))"

definition passes :: "(kernel \<Rightarrow> ('a \<times> kernel) res) \<Rightarrow> kernel \<Rightarrow> bool" where
  "passes f k \<longleftrightarrow> (\<forall>a. case f (k\<lparr>alarm := a\<rparr>) of Inr (r, k1) \<Rightarrow> alarm k1 = a | Inl _ \<Rightarrow> False)"

text \<open>
  The steps of the process. A system call queues the signal to the host thread of the current
  context; a signal that is queued to a host thread is delivered in its code, or before its start
  unless it is blocked there; the handler blocks both signals. What a thread does in its code, to the kernel and to the interrupt
  mask, leaves the current context. The timer thread queues the alarm to the host thread of the
  context that is current at this moment, and forgets it.
\<close>

inductive sim_step :: "(u32 \<Rightarrow> runtime_error) \<Rightarrow> process \<Rightarrow> process \<Rightarrow> bool" for error_of where
  code: "failed s = None \<Longrightarrow> host s t = Some User \<Longrightarrow> thread_context k = sim_current s \<Longrightarrow>
    sim_step error_of s (s\<lparr>proc_kernel := k, ints_enabled := b\<rparr>)"
| create: "failed s = None \<Longrightarrow> host s t = Some User \<Longrightarrow> host s c = None \<Longrightarrow> vc_init 0 0 n z c s = Inr s' \<Longrightarrow>
    sim_step error_of s s'"
| syscall: "failed s = None \<Longrightarrow> host s t = Some User \<Longrightarrow> sim_current s = Some c \<Longrightarrow> host s c = Some User \<Longrightarrow>
    sim_step error_of s (s\<lparr>host := (host s)(c := Some (Trapped c (ints_enabled s) (SyscallSignal (VSyscall i a0 a1 a2)))),
      entered_from := (entered_from s)(c := User), ints_enabled := False\<rparr>)"
| alarm: "failed s = None \<Longrightarrow> host s t = Some User \<Longrightarrow> pending_alarm s t \<Longrightarrow> ints_enabled s \<Longrightarrow> sim_current s = Some c \<Longrightarrow>
    sim_step error_of s (s\<lparr>host := (host s)(t := Some (Trapped c (ints_enabled s) AlarmSignal)),
      entered_from := (entered_from s)(t := User), pending_alarm := (pending_alarm s)(t := False), ints_enabled := False\<rparr>)"
| early_alarm: "failed s = None \<Longrightarrow> host s t = Some pc \<Longrightarrow> pc = Parked \<or> pc = Starting \<Longrightarrow> pending_alarm s t \<Longrightarrow>
    \<not> alarm_blocked s t \<Longrightarrow> sim_current s = Some c \<Longrightarrow>
    sim_step error_of s (s\<lparr>host := (host s)(t := Some (Trapped c (ints_enabled s) AlarmSignal)),
      entered_from := (entered_from s)(t := pc), pending_alarm := (pending_alarm s)(t := False), ints_enabled := False\<rparr>)"
| kernel: "failed s = None \<Longrightarrow> host s t = Some (Trapped i r sig) \<Longrightarrow>
    call_kernel error_of e sig (proc_kernel s) = Inr (v, k) \<Longrightarrow> thread_context k = Some c \<Longrightarrow> host s c \<noteq> None \<Longrightarrow>
    w = (if passes (call_kernel error_of e sig) (proc_kernel s) then wait_until s else alarm k) \<Longrightarrow>
    sim_step error_of s (s\<lparr>proc_kernel := k, rval := (case v of Some x \<Rightarrow> (rval s)(t := x) | None \<Rightarrow> rval s), wait_until := w,
      host := (host s)(t := Some (if c \<noteq> i then Switching i r c else Returning r))\<rparr>)"
| resume: "failed s = None \<Longrightarrow> host s t = Some (Switching i r c) \<Longrightarrow>
    sim_step error_of s ((vc_resume t c s)\<lparr>host := (host s)(t := Some (Leaving i r))\<rparr>)"
| suspend: "failed s = None \<Longrightarrow> host s t = Some (Leaving i r) \<Longrightarrow>
    sim_step error_of s (s\<lparr>host := (host s)(t := Some (Waiting i r))\<rparr>)"
| wake: "failed s = None \<Longrightarrow> host s t = Some (Waiting i r) \<Longrightarrow> vc_suspend 0 0 0 i s = Inr (Some s') \<Longrightarrow>
    sim_step error_of s (s'\<lparr>host := (host s)(t := Some (Returning r))\<rparr>)"
| back_to_code: "failed s = None \<Longrightarrow> host s t = Some (Returning r) \<Longrightarrow>
    sim_step error_of s (s\<lparr>ints_enabled := r, host := (host s)(t := Some (entered_from s t))\<rparr>)"
| start: "failed s = None \<Longrightarrow> host s t = Some Parked \<Longrightarrow> vc_suspend 0 0 0 t s = Inr (Some s') \<Longrightarrow>
    sim_step error_of s (s'\<lparr>host := (host s)(t := Some Starting)\<rparr>)"
| enter_code: "failed s = None \<Longrightarrow> host s t = Some Starting \<Longrightarrow>
    sim_step error_of s (s\<lparr>ints_enabled := True, host := (host s)(t := Some User)\<rparr>)"
| timer: "failed s = None \<Longrightarrow> sim_current s = Some c \<Longrightarrow> wait_until s = Some time \<Longrightarrow> time \<le> clock_now \<Longrightarrow>
    sim_step error_of s (s\<lparr>wait_until := None, pending_alarm := (pending_alarm s)(c := True)\<rparr>)"
| host_error: "failed s = None \<Longrightarrow> host s t = Some (Waiting i r) \<or> host s t = Some Parked \<and> i = t \<Longrightarrow>
    vc_suspend l cw u i s = Inl err \<Longrightarrow>
    sim_step error_of s (s\<lparr>failed := Some err\<rparr>)"

text \<open>\<open>start_first_thread\<close>: the context of the idle thread is current and is resume_flag by the main host thread, which has none.\<close>

definition sim_start_first_thread :: "nat \<Rightarrow> nat \<Rightarrow> process \<Rightarrow> process" where
  "sim_start_first_thread main_thread c s =
     vc_resume main_thread c (s\<lparr>proc_kernel := (proc_kernel s)\<lparr>thread_context := Some c\<rparr>\<rparr>)"

text \<open>\<open>syscall\<close> in a thread: what it returns when it is in its code again.\<close>

definition sim_syscall_result :: "nat \<Rightarrow> process \<Rightarrow> u32" where
  "sim_syscall_result t s = rval s t"

section \<open>One thread runs\<close>

text \<open>
  A host thread has the processor in its code, at its start and in the handler, up to the resume of
  the next one; between the resume and the wake-up of the next one the processor is in its flag.
\<close>

fun has_processor :: "host_state \<Rightarrow> bool" where
  "has_processor Starting = True" | "has_processor User = True" | "has_processor (Trapped i r sig) = True"
| "has_processor (Switching i r c) = True" | "has_processor (Returning r) = True"
| "has_processor Parked = False" | "has_processor (Leaving i r) = False" | "has_processor (Waiting i r) = False"

fun own_context :: "nat \<Rightarrow> host_state \<Rightarrow> bool" where
  "own_context t (Trapped i r sig) \<longleftrightarrow> i = t" | "own_context t (Switching i r c) \<longleftrightarrow> i = t \<and> c \<noteq> t"
| "own_context t (Leaving i r) \<longleftrightarrow> i = t" | "own_context t (Waiting i r) \<longleftrightarrow> i = t" | "own_context t _ \<longleftrightarrow> True"

definition has_token :: "process \<Rightarrow> nat \<Rightarrow> bool" where
  "has_token s t \<longleftrightarrow> (\<exists>pc. host s t = Some pc \<and> has_processor pc) \<or> resume_flag s t"

text \<open>No thread gets an alarm before its start.\<close>

definition quiet_start :: "process \<Rightarrow> bool" where
  "quiet_start s \<longleftrightarrow> (\<forall>t. (host s t = Some Parked \<or> host s t = Some Starting) \<and> pending_alarm s t \<longrightarrow> alarm_blocked s t)"

text \<open>The processor of \<open>t\<close> is for the context \<open>c\<close>.\<close>

definition for_context :: "process \<Rightarrow> nat \<Rightarrow> nat \<Rightarrow> bool" where
  "for_context s t c \<longleftrightarrow> (case host s t of Some (Switching i r c') \<Rightarrow> c = c' | _ \<Rightarrow> c = t)"

definition sim_inv :: "process \<Rightarrow> bool" where
  "sim_inv s \<longleftrightarrow>
     (\<forall>t pc. host s t = Some pc \<longrightarrow> own_context t pc) \<and> (\<forall>t. entered_from s t = User)
   \<and> (\<exists>t c. sim_current s = Some c \<and> host s c \<noteq> None \<and> host s t \<noteq> None \<and> for_context s t c
        \<and> (\<forall>u. has_token s u \<longleftrightarrow> u = t) \<and> (resume_flag s t \<longrightarrow> (\<forall>pc. host s t = Some pc \<longrightarrow> \<not> has_processor pc)))"

lemma for_own_context:
  assumes "host s t = Some pc" "\<And>i r c. pc \<noteq> Switching i r c"
  shows "for_context s t c \<longleftrightarrow> c = t"
proof (cases pc)
  case (Switching i r d)
  then show ?thesis using assms(2) by blast
qed (use assms(1) in \<open>simp_all add: for_context_def\<close>)

lemma sim_invE:
  assumes "sim_inv s"
  obtains t c where "sim_current s = Some c" "host s c \<noteq> None" "host s t \<noteq> None" "for_context s t c"
    "\<And>u. has_token s u \<longleftrightarrow> u = t" "\<And>pc. resume_flag s t \<Longrightarrow> host s t = Some pc \<Longrightarrow> \<not> has_processor pc"
    "\<And>u pc. host s u = Some pc \<Longrightarrow> own_context u pc" "\<And>u. entered_from s u = User"
  using assms unfolding sim_inv_def by blast

lemma sim_invI:
  assumes "sim_current s = Some c" "host s c \<noteq> None" "host s t \<noteq> None" "for_context s t c"
    "\<And>u. has_token s u \<longleftrightarrow> u = t" "\<And>pc. resume_flag s t \<Longrightarrow> host s t = Some pc \<Longrightarrow> \<not> has_processor pc"
    "\<And>u pc. host s u = Some pc \<Longrightarrow> own_context u pc" "\<And>u. entered_from s u = User"
  shows "sim_inv s"
  using assms unfolding sim_inv_def by blast

text \<open>The thread that has the processor moves on inside its code or the handler, for the same or another context.\<close>

lemma sim_inv_moves:
  assumes inv: "sim_inv s" and pc: "host s t = Some pc" "has_processor pc"
    and s': "host s' = (host s)(t := Some pc')" "has_processor pc'" "own_context t pc'" "resume_flag s' = resume_flag s"
      "sim_current s' = Some c'" "host s c' \<noteq> None" "for_context s' t c'" "\<And>u. entered_from s' u = User"
  shows "sim_inv s'"
  using inv
proof (rule sim_invE)
  fix h c
  assume h: "\<And>u. has_token s u \<longleftrightarrow> u = h" "\<And>pc. resume_flag s h \<Longrightarrow> host s h = Some pc \<Longrightarrow> \<not> has_processor pc"
    "\<And>u pc. host s u = Some pc \<Longrightarrow> own_context u pc"
  have th: "t = h" using pc h(1) by (auto simp: has_token_def)
  have nr: "\<not> resume_flag s t" using h(2) pc th by blast
  show ?thesis
  proof (rule sim_invI [of s' c' t])
    show "has_token s' u \<longleftrightarrow> u = t" for u using h(1) [of u] s' nr th by (auto simp: has_token_def)
  qed (use s' h(3) nr in \<open>auto split: if_splits\<close>)
qed

lemma holder_current:
  assumes "sim_inv s" and "host s t = Some pc" and "has_processor pc" and "\<And>i r c. pc \<noteq> Switching i r c"
  shows "sim_current s = Some t" "\<not> resume_flag s t"
  using assms(1)
proof (atomize(full), rule sim_invE)
  fix h c
  assume h: "sim_current s = Some c" "for_context s h c" "\<And>u. has_token s u \<longleftrightarrow> u = h"
    "\<And>pc. resume_flag s h \<Longrightarrow> host s h = Some pc \<Longrightarrow> \<not> has_processor pc"
  have "h = t" using assms(2,3) h(3) [of t] by (auto simp: has_token_def)
  then show "sim_current s = Some t \<and> \<not> resume_flag s t"
    using h assms(2,3) for_own_context [OF assms(2,4)] by auto
qed

text \<open>A thread that finds its flag set takes the processor.\<close>

lemma sim_inv_wakes:
  assumes inv: "sim_inv s" and pc: "host s t = Some pc" "\<not> has_processor pc" and flag: "resume_flag s t"
    and s': "host s' = (host s)(t := Some pc')" "has_processor pc'" "own_context t pc'" "\<And>i r c. pc' \<noteq> Switching i r c"
      "resume_flag s' = (resume_flag s)(t := False)" "sim_current s' = sim_current s" "\<And>u. entered_from s' u = User"
  shows "sim_inv s'"
  using inv
proof (rule sim_invE)
  fix h c
  assume h: "sim_current s = Some c" "for_context s h c" "\<And>u. has_token s u \<longleftrightarrow> u = h"
    "\<And>u pc. host s u = Some pc \<Longrightarrow> own_context u pc"
  have "t = h" using flag h(3) by (auto simp: has_token_def)
  moreover then have "c = t" using h(2) pc by (auto simp: for_context_def split: host_state.splits)
  ultimately show ?thesis
    using h s' by (intro sim_invI [of s' t t]) (auto simp: has_token_def for_context_def split: host_state.splits if_splits)
qed

lemma entered: "sim_inv s \<Longrightarrow> entered_from s u = User"
  unfolding sim_inv_def by blast

lemma sim_step_inv:
  assumes "sim_step error_of s s'" and inv: "sim_inv s" and quiet: "quiet_start s"
  shows "sim_inv s'"
  using assms(1)
proof cases
  case (code t k b)
  then show ?thesis using inv by (simp add: sim_inv_def sim_current_def has_token_def for_context_def)
next
  case (create t c n z)
  have s': "s' = s\<lparr>resume_flag := (resume_flag s)(c := False), host := (host s)(c := Some Parked),
      alarm_blocked := (alarm_blocked s)(c := \<not> ints_enabled s)\<rparr>"
    using create(4) by (simp add: vc_init_def)
  from inv show ?thesis
  proof (rule sim_invE)
    fix h d
    assume h: "sim_current s = Some d" "host s d \<noteq> None" "host s h \<noteq> None" "for_context s h d" "\<And>u. has_token s u \<longleftrightarrow> u = h"
      "\<And>pc. resume_flag s h \<Longrightarrow> host s h = Some pc \<Longrightarrow> \<not> has_processor pc" "\<And>u pc. host s u = Some pc \<Longrightarrow> own_context u pc"
    have "c \<noteq> h" using h(3) create(3) by auto
    then show ?thesis using h create(3)
      by (intro sim_invI [of s' d h]) (auto simp: s' sim_current_def has_token_def for_context_def entered [OF inv] split: if_splits)
  qed
next
  case (syscall t c i a0 a1 a2)
  have "c = t" using holder_current [OF inv syscall(3)] syscall(4) by simp
  then show ?thesis using syscall by (intro sim_inv_moves [OF inv syscall(3)]) (auto simp: for_context_def sim_current_def entered [OF inv])
next
  case (alarm t c)
  have "c = t" using holder_current [OF inv alarm(3)] alarm(6) by simp
  then show ?thesis using alarm by (intro sim_inv_moves [OF inv alarm(3)]) (auto simp: for_context_def sim_current_def entered [OF inv])
next
  case (early_alarm t pc c)
  then show ?thesis using quiet unfolding quiet_start_def by blast
next
  case (kernel t i r sig e v k c w)
  have "own_context t (Trapped i r sig)" using inv kernel(3) unfolding sim_inv_def by blast
  then show ?thesis using kernel by (intro sim_inv_moves [OF inv kernel(3)]) (auto simp: for_context_def sim_current_def entered [OF inv])
next
  case (resume t i r c)
  from inv show ?thesis
  proof (rule sim_invE)
    fix h d
    assume h: "sim_current s = Some d" "host s d \<noteq> None" "for_context s h d" "\<And>u. has_token s u \<longleftrightarrow> u = h"
      "\<And>u pc. host s u = Some pc \<Longrightarrow> own_context u pc"
      "\<And>pc. resume_flag s h \<Longrightarrow> host s h = Some pc \<Longrightarrow> \<not> has_processor pc"
    have th: "t = h" using resume(3) h(4) [of t] by (auto simp: has_token_def)
    then have d: "d = c" "i = t" "c \<noteq> t" "\<not> resume_flag s t" using h(3,5,6) resume(3) by (force simp: for_context_def)+
    obtain pc where pc: "host s c = Some pc" "\<not> has_processor pc" using h(2,4) d th by (auto simp: has_token_def)
    have "has_token s' u \<longleftrightarrow> u = c" for u
      using h(4) [of u] th d resume by (auto simp: has_token_def vc_resume_def split: if_splits)
    then show ?thesis using h(1,5) d pc resume
      by (intro sim_invI [of s' c c]) (auto simp: sim_current_def for_context_def vc_resume_def entered [OF inv] split: if_splits host_state.splits)
  qed
next
  case (suspend t i r)
  have same: "has_token s' u = has_token s u" "for_context s' u c = for_context s u c" for u c
    using suspend by (auto simp: has_token_def for_context_def)
  have i: "i = t" using inv suspend(3) unfolding sim_inv_def by fastforce
  from inv show ?thesis
  proof (rule sim_invE)
    fix h c
    assume h: "sim_current s = Some c" "host s c \<noteq> None" "host s h \<noteq> None" "for_context s h c" "\<And>u. has_token s u \<longleftrightarrow> u = h"
      "\<And>pc. resume_flag s h \<Longrightarrow> host s h = Some pc \<Longrightarrow> \<not> has_processor pc" "\<And>u pc. host s u = Some pc \<Longrightarrow> own_context u pc"
    show ?thesis
    proof (rule sim_invI [of s' c h])
      show "has_token s' u \<longleftrightarrow> u = h" for u using h(5) same(1) by simp
    qed (use h(1-4,6,7) same(2) suspend i in \<open>auto simp: sim_current_def entered [OF inv] split: if_splits\<close>)
  qed
next
  case (wake t i r s1)
  have "own_context t (Waiting i r)" using inv wake(3) unfolding sim_inv_def by blast
  then show ?thesis using wake
    by (intro sim_inv_wakes [OF inv wake(3)]) (auto simp: vc_suspend_def sim_current_def entered [OF inv] split: if_splits)
next
  case (back_to_code t r)
  have "sim_current s = Some t" using holder_current [OF inv back_to_code(3)] by simp
  then show ?thesis using back_to_code
    by (intro sim_inv_moves [OF inv back_to_code(3)]) (auto simp: for_context_def sim_current_def entered [OF inv])
next
  case (start t s1)
  then show ?thesis
    by (intro sim_inv_wakes [OF inv start(3)]) (auto simp: vc_suspend_def sim_current_def entered [OF inv] split: if_splits)
next
  case (enter_code t)
  have "sim_current s = Some t" using holder_current [OF inv enter_code(3)] by simp
  then show ?thesis using enter_code
    by (intro sim_inv_moves [OF inv enter_code(3)]) (auto simp: for_context_def sim_current_def entered [OF inv])
next
  case (timer c time n)
  then show ?thesis using inv by (simp add: sim_inv_def sim_current_def has_token_def for_context_def)
next
  case (host_error t i r l cw u err)
  then show ?thesis using inv by (simp add: sim_inv_def sim_current_def has_token_def for_context_def)
qed

lemma sim_steps_inv: "(\<lambda>a b. sim_step error_of a b \<and> quiet_start a)\<^sup>*\<^sup>* s s' \<Longrightarrow> sim_inv s \<Longrightarrow> sim_inv s'"
  by (induction rule: rtranclp_induct) (auto intro: sim_step_inv)

section \<open>No resume is lost\<close>

text \<open>Steps of the host that leave the kernel as it is.\<close>

definition host_runs :: "(u32 \<Rightarrow> runtime_error) \<Rightarrow> process \<Rightarrow> process \<Rightarrow> bool" where
  "host_runs error_of s s' \<longleftrightarrow> (sim_step error_of)\<^sup>*\<^sup>* s s' \<and> proc_kernel s' = proc_kernel s \<and> failed s' = failed s"

lemma host_runs_refl [intro]: "host_runs error_of s s"
  by (simp add: host_runs_def)

lemma host_runs_step:
  assumes "sim_step error_of s s1" "proc_kernel s1 = proc_kernel s" "failed s1 = failed s" "host_runs error_of s1 s'"
  shows "host_runs error_of s s'"
  using assms by (auto simp: host_runs_def intro: converse_rtranclp_into_rtranclp)

lemma returning_runs:
  assumes "failed s = None" "host s t = Some (Returning r)" "entered_from s t = User"
  shows "\<exists>s'. host_runs error_of s s' \<and> s' = s\<lparr>ints_enabled := r, host := (host s)(t := Some User)\<rparr>"
  using host_runs_step [OF sim_step.back_to_code [OF assms(1,2)] _ _ host_runs_refl] assms(3) by simp

lemma waiting_runs:
  assumes "failed s = None" "host s t = Some (Waiting t r)" "resume_flag s t" "entered_from s t = User"
  shows "\<exists>s'. host_runs error_of s s'
     \<and> s' = s\<lparr>resume_flag := (resume_flag s)(t := False), ints_enabled := r, host := (host s)(t := Some User)\<rparr>"
proof -
  let ?s1 = "s\<lparr>resume_flag := (resume_flag s)(t := False), host := (host s)(t := Some (Returning r))\<rparr>"
  have "vc_suspend 0 0 0 t s = Inr (Some (s\<lparr>resume_flag := (resume_flag s)(t := False)\<rparr>))"
    using assms(3) by (simp add: vc_suspend_def)
  from sim_step.wake [OF assms(1,2) this] have "sim_step error_of s ?s1" by simp
  with returning_runs [of ?s1 t r error_of] assms(1,4) show ?thesis by (auto intro: host_runs_step)
qed

lemma leaving_runs:
  assumes "failed s = None" "host s t = Some (Leaving t r)" "resume_flag s t" "entered_from s t = User"
  shows "\<exists>s'. host_runs error_of s s'
     \<and> s' = s\<lparr>resume_flag := (resume_flag s)(t := False), ints_enabled := r, host := (host s)(t := Some User)\<rparr>"
proof -
  let ?s1 = "s\<lparr>host := (host s)(t := Some (Waiting t r))\<rparr>"
  have "sim_step error_of s ?s1" by (rule sim_step.suspend [OF assms(1,2)])
  with waiting_runs [of ?s1 t r error_of] assms show ?thesis by (auto intro: host_runs_step)
qed

lemma parked_runs:
  assumes "failed s = None" "host s t = Some Parked" "resume_flag s t"
  shows "\<exists>s'. host_runs error_of s s'
     \<and> s' = s\<lparr>resume_flag := (resume_flag s)(t := False), ints_enabled := True, host := (host s)(t := Some User)\<rparr>"
proof -
  let ?s1 = "s\<lparr>resume_flag := (resume_flag s)(t := False), host := (host s)(t := Some Starting)\<rparr>"
  have "vc_suspend 0 0 0 t s = Inr (Some (s\<lparr>resume_flag := (resume_flag s)(t := False)\<rparr>))"
    using assms(3) by (simp add: vc_suspend_def)
  from sim_step.start [OF assms(1,2) this] have 1: "sim_step error_of s ?s1" by simp
  have "host_runs error_of ?s1 (?s1\<lparr>ints_enabled := True, host := (host ?s1)(t := Some User)\<rparr>)"
    using assms(1) by (intro host_runs_step [OF sim_step.enter_code [of ?s1 t] _ _ host_runs_refl]) simp_all
  from host_runs_step [OF 1 _ _ this] show ?thesis by simp
qed

lemma flag_runs:
  assumes inv: "sim_inv s" and ok: "failed s = None" and flag: "resume_flag s t" "host s t \<noteq> None"
  shows "\<exists>s'. host_runs error_of s s' \<and> host s' t = Some User"
proof -
  obtain pc where pc: "host s t = Some pc" "\<not> has_processor pc" "own_context t pc"
    using inv flag unfolding sim_inv_def by (metis has_token_def option.exhaust)
  then consider "pc = Parked" | r where "pc = Leaving t r" | r where "pc = Waiting t r" by (cases pc) auto
  then show ?thesis
  proof cases
    case 1
    then show ?thesis using parked_runs [OF ok _ flag(1), of error_of] pc by auto
  next
    case 2
    then show ?thesis using leaving_runs [OF ok _ flag(1) entered [OF inv], of _ error_of] pc by auto
  next
    case 3
    then show ?thesis using waiting_runs [OF ok _ flag(1) entered [OF inv], of _ error_of] pc by auto
  qed
qed

definition at_work :: "process \<Rightarrow> nat \<Rightarrow> bool" where
  "at_work s t \<longleftrightarrow> host s t = Some User \<or> (\<exists>i r sig. host s t = Some (Trapped i r sig))"

lemma current_gets_to_work:
  assumes inv: "sim_inv s" and ok: "failed s = None" and quiet: "quiet_start s"
  shows "\<exists>c s'. sim_current s = Some c \<and> host_runs error_of s s' \<and> at_work s' c"
  using inv
proof (rule sim_invE)
  fix t c
  assume h: "sim_current s = Some c" "host s c \<noteq> None" "host s t \<noteq> None" "for_context s t c" "\<And>u. has_token s u \<longleftrightarrow> u = t"
  show ?thesis
  proof (cases "resume_flag s t")
    case True
    then have "\<And>i r c'. host s t \<noteq> Some (Switching i r c')" using inv h(5) unfolding sim_inv_def by (metis has_processor.simps(4) has_token_def)
    then have "c = t" using h(3,4) for_own_context [of s t] by auto
    then show ?thesis using flag_runs [OF inv ok True h(3), of error_of] h(1) by (auto simp: at_work_def)
  next
    case False
    then obtain pc where pc: "host s t = Some pc" "has_processor pc" using h(5) [of t] by (auto simp: has_token_def)
    consider (switch) i r where "pc = Switching i r c" | (work) "at_work s t" "c = t"
      | (entering) "pc = Starting" "c = t" | (returns) r where "pc = Returning r" "c = t"
      using pc h(4) by (cases pc) (auto simp: for_context_def at_work_def)
    then show ?thesis
    proof cases
      case (switch i r)
      have "c \<noteq> t" using inv pc switch unfolding sim_inv_def by fastforce
      let ?s1 = "(vc_resume t c s)\<lparr>host := (host s)(t := Some (Leaving i r))\<rparr>"
      have 1: "sim_step error_of s ?s1" using sim_step.resume [OF ok, of t i r c] pc switch by simp
      have s1: "failed ?s1 = failed s" "resume_flag ?s1 c" "host ?s1 c \<noteq> None" "proc_kernel ?s1 = proc_kernel s"
        using \<open>c \<noteq> t\<close> h(2) by (simp_all add: vc_resume_def)
      then obtain s2 where s2: "host_runs error_of ?s1 s2" "host s2 c = Some User"
        using flag_runs [OF sim_step_inv [OF 1 inv quiet], of c error_of] ok by auto
      have "host_runs error_of s s2" by (rule host_runs_step [OF 1 s1(4,1) s2(1)])
      then show ?thesis using h(1) s2(2) by (auto simp: at_work_def)
    next
      case work
      then show ?thesis using h(1) by auto
    next
      case entering
      then show ?thesis using h(1) pc ok host_runs_step [OF sim_step.enter_code [OF ok, of t] _ _ host_runs_refl]
        by (fastforce simp: at_work_def)
    next
      case (returns r)
      then show ?thesis using h(1) pc returning_runs [OF ok _ entered [OF inv], of t r error_of] by (auto simp: at_work_def)
    qed
  qed
qed

section \<open>Properties\<close>

text \<open>
  Claim C17. In the simulator one thread runs at a time, the kernel's current one, however the host
  schedules its threads, as long as no alarm is delivered to a thread that has not started: from
  the start of the first thread on, at most one host thread has the processor, and one that is in
  its code or enters the trap handler is that of the current context. And no resume is lost:
  unless the host fails, the host threads can always go on until the current context's is in its
  code or in a trap.
\<close>

theorem one_thread_runs:
  assumes "\<And>t. \<not> resume_flag s t" "\<And>t pc. host s t = Some pc \<Longrightarrow> pc = Parked" "host s c = Some Parked" "main_thread \<noteq> c"
      "\<And>t. entered_from s t = User"
    and run: "(\<lambda>a b. sim_step error_of a b \<and> quiet_start a)\<^sup>*\<^sup>* (sim_start_first_thread main_thread c s) s'"
  shows "(\<forall>t u pc pc'. host s' t = Some pc \<and> has_processor pc \<and> host s' u = Some pc' \<and> has_processor pc' \<longrightarrow> t = u)
     \<and> (\<forall>t. at_work s' t \<longrightarrow> sim_current s' = Some t)
     \<and> (failed s' = None \<and> quiet_start s' \<longrightarrow> (\<exists>d s''. sim_current s' = Some d \<and> host_runs error_of s' s'' \<and> at_work s'' d))"
proof -
  have "sim_inv (sim_start_first_thread main_thread c s)"
    using assms(1-5)
    by (intro sim_invI [of _ c c]) (auto simp: sim_start_first_thread_def vc_resume_def sim_current_def has_token_def for_context_def dest!: assms(2))
  with run have inv: "sim_inv s'" by (rule sim_steps_inv)
  then have "t = u" if "host s' t = Some pc" "has_processor pc" "host s' u = Some pc'" "has_processor pc'" for t u pc pc'
    using that unfolding sim_inv_def has_token_def by metis
  moreover have "sim_current s' = Some t" if "at_work s' t" for t
    using that holder_current(1) [OF inv, of t] by (auto simp: at_work_def)
  ultimately show ?thesis using current_gets_to_work [OF inv] by blast
qed

text \<open>Thread 0 is idle and runs first.\<close>

definition sample_process :: process where
  "sample_process =
     \<lparr>proc_kernel = sample_quiet\<lparr>threads := \<lambda>t. (threads sample_quiet t)\<lparr>thr_context := Some t\<rparr>\<rparr>, host = (\<lambda>_. None)(1 := Some Parked),
      resume_flag = \<lambda>_. False, rval = \<lambda>_. 0, ints_enabled = False, pending_alarm = \<lambda>_. False,
      alarm_blocked = \<lambda>_. False, entered_from = \<lambda>_. User, wait_until = Some 50,
      failed = None\<rparr>"

theorem one_thread_runs_witness:
  "\<exists>s'. host_runs (\<lambda>_. RecursiveLock) (sim_start_first_thread 9 1 sample_process) s' \<and> at_work s' 1 \<and> sim_current s' = Some 1"
proof -
  let ?s = "sim_start_first_thread 9 1 sample_process"
  have f: "failed ?s = None" "sim_current ?s = Some 1" "host sample_process 1 = Some Parked" "quiet_start ?s"
    by (simp_all add: quiet_start_def sim_start_first_thread_def vc_resume_def sample_process_def sim_current_def)
  have p: "\<not> resume_flag sample_process t" "host sample_process t = Some pc \<Longrightarrow> pc = Parked" for t pc
    by (auto simp: sample_process_def split: if_splits)
  have e: "entered_from sample_process t = User" for t by (simp add: sample_process_def)
  have "\<exists>d s'. sim_current ?s = Some d \<and> host_runs (\<lambda>_. RecursiveLock) ?s s' \<and> at_work s' d"
    using one_thread_runs [where main_thread = 9 and error_of = "\<lambda>_. RecursiveLock", OF p f(3) _ e rtranclp.rtrancl_refl] f(1,4) by simp
  then obtain s' where s': "host_runs (\<lambda>_. RecursiveLock) ?s s'" "at_work s' 1" using f(2) by auto
  then have "sim_current s' = sim_current ?s" by (simp add: host_runs_def sim_current_def)
  with s' f(2) show ?thesis by auto
qed

text \<open>
  An alarm can be lost in the simulator. The timer thread queues the signal to the host
  thread of the context that is current at that moment. When this thread is in the trap handler,
  for a system call that switches to another thread and does not program the timer, the signal
  stays with the thread that is switched out: the other thread runs, the timer is off, and nothing
  is queued to any thread but the one that waits, as long as it waits.
\<close>

theorem alarm_lost_at_switch:
  assumes ok: "failed s = None" and trap: "host s t = Some (Trapped t r sig)" "sim_current s = Some t"
    and timer: "wait_until s = Some time" "\<And>u. \<not> pending_alarm s u"
    and call: "call_kernel error_of e sig (proc_kernel s) = Inr (v, k)" "passes (call_kernel error_of e sig) (proc_kernel s)"
    and other: "thread_context k = Some c" "c \<noteq> t" "host s c = Some (Waiting c r')" "entered_from s c = User"
  shows "\<exists>s'. (sim_step error_of)\<^sup>*\<^sup>* s s' \<and> proc_kernel s' = k \<and> host s' c = Some User \<and> host s' t = Some (Waiting t r)
     \<and> wait_until s' = None \<and> (\<forall>u. pending_alarm s' u \<longleftrightarrow> u = t)
     \<and> (\<forall>s''. (\<lambda>a b. sim_step error_of a b \<and> host b t = Some (Waiting t r))\<^sup>*\<^sup>* s' s'' \<longrightarrow> pending_alarm s'' t)"
proof -
  let ?s1 = "s\<lparr>wait_until := None, pending_alarm := (pending_alarm s)(t := True)\<rparr>"
  let ?s2 = "?s1\<lparr>proc_kernel := k, rval := (case v of Some x \<Rightarrow> (rval ?s1)(t := x) | None \<Rightarrow> rval ?s1), wait_until := None,
    host := (host ?s1)(t := Some (if c \<noteq> t then Switching t r c else Returning r))\<rparr>"
  let ?s3 = "?s2\<lparr>resume_flag := (resume_flag s)(c := True), host := (host s)(t := Some (Leaving t r))\<rparr>"
  let ?s4 = "?s3\<lparr>host := (host s)(t := Some (Waiting t r))\<rparr>"
  have 1: "sim_step error_of s ?s1" by (rule sim_step.timer [OF ok trap(2) timer(1) order_refl])
  have 2: "sim_step error_of ?s1 ?s2"
    by (rule sim_step.kernel [where i = t and sig = sig and e = e]) (use ok trap call other in simp_all)
  have 3: "sim_step error_of ?s2 ?s3"
    using sim_step.resume [of ?s2 t t r c error_of] ok other(2) by (simp add: vc_resume_def)
  have 4: "sim_step error_of ?s3 ?s4" using sim_step.suspend [of ?s3 t t r error_of] ok by simp
  obtain s' where s': "host_runs error_of ?s4 s'"
    "s' = ?s4\<lparr>resume_flag := (resume_flag ?s4)(c := False), ints_enabled := r', host := (host ?s4)(c := Some User)\<rparr>"
    using waiting_runs [of ?s4 c r' error_of] ok other by auto
  have "(sim_step error_of)\<^sup>*\<^sup>* s s'"
    using 1 2 3 4 s'(1) unfolding host_runs_def by (meson converse_rtranclp_into_rtranclp)
  moreover have w: "host s' t = Some (Waiting t r)" "pending_alarm s' t" using s'(2) other(2) by simp_all
  moreover have "pending_alarm s'' t \<and> host s'' t = Some (Waiting t r)"
    if "(\<lambda>a b. sim_step error_of a b \<and> host b t = Some (Waiting t r))\<^sup>*\<^sup>* s' s''" for s''
    using that
  proof (induction rule: rtranclp_induct)
    case (step a b)
    then have "sim_step error_of a b" by blast
    then have "pending_alarm b t" using step.IH
      by cases (auto simp: vc_init_def vc_resume_def vc_suspend_def split: if_splits)
    then show ?case using step.hyps(2) by blast
  qed (use w in blast)
  ultimately show ?thesis using s'(2) timer(2) by (intro exI [of _ s']) auto
qed

text \<open>Thread 1 suspends itself while the alarm for thread 3 is due; the idle thread runs next.\<close>

definition sample_suspend :: signal where
  "sample_suspend = SyscallSignal (VSyscall 8 0 0 0)"

definition sample_trapped :: process where
  "sample_trapped =
     sample_process\<lparr>proc_kernel := (proc_kernel sample_process)\<lparr>thread_context := Some 1\<rparr>,
       host := (\<lambda>_. None)(1 := Some (Trapped 1 True sample_suspend), 0 := Some (Waiting 0 True))\<rparr>"

lemma sample_suspend_call:
  "case call_kernel (\<lambda>_. RecursiveLock) (sample_env 60) sample_suspend ((proc_kernel sample_trapped)\<lparr>alarm := a\<rparr>) of
     Inr (v, k) \<Rightarrow> thread_context k = Some 0 \<and> alarm k = a | Inl _ \<Rightarrow> False"
  by code_simp

lemma sample_suspend_facts:
  "\<exists>v k. call_kernel (\<lambda>_. RecursiveLock) (sample_env 60) sample_suspend (proc_kernel sample_trapped) = Inr (v, k)
     \<and> passes (call_kernel (\<lambda>_. RecursiveLock) (sample_env 60) sample_suspend) (proc_kernel sample_trapped)
     \<and> thread_context k = Some 0"
proof -
  let ?k = "proc_kernel sample_trapped" and ?f = "call_kernel (\<lambda>_. RecursiveLock) (sample_env 60) sample_suspend"
  have "?k\<lparr>alarm := alarm ?k\<rparr> = ?k" by simp
  then obtain v k where call: "?f ?k = Inr (v, k)" "thread_context k = Some 0"
    using sample_suspend_call [of "alarm ?k"] by (auto split: sum.splits)
  have "passes ?f ?k"
    unfolding passes_def
  proof
    fix a
    show "case ?f (?k\<lparr>alarm := a\<rparr>) of Inr (r, k1) \<Rightarrow> alarm k1 = a | Inl _ \<Rightarrow> False"
      using sample_suspend_call [of a] by (simp split: sum.splits prod.splits)
  qed
  with call show ?thesis by blast
qed

theorem alarm_lost_at_switch_witness:
  "\<exists>s'. (sim_step (\<lambda>_. RecursiveLock))\<^sup>*\<^sup>* sample_trapped s' \<and> host s' 0 = Some User \<and> host s' 1 = Some (Waiting 1 True)
     \<and> wait_until s' = None \<and> pending_alarm s' 1 \<and> \<not> pending_alarm s' 0"
proof -
  obtain v k where call: "call_kernel (\<lambda>_. RecursiveLock) (sample_env 60) sample_suspend (proc_kernel sample_trapped) = Inr (v, k)"
    "passes (call_kernel (\<lambda>_. RecursiveLock) (sample_env 60) sample_suspend) (proc_kernel sample_trapped)"
    and ctx: "thread_context k = Some 0" using sample_suspend_facts by blast
  have s: "failed sample_trapped = None" "host sample_trapped 1 = Some (Trapped 1 True sample_suspend)"
    "sim_current sample_trapped = Some 1" "wait_until sample_trapped = Some 50" "\<not> pending_alarm sample_trapped u"
    "host sample_trapped 0 = Some (Waiting 0 True)" "entered_from sample_trapped 0 = User" for u
    by (simp_all add: sample_trapped_def sample_process_def sim_current_def)
  from alarm_lost_at_switch [OF s(1-5) call ctx _ s(6,7)] show ?thesis by auto
qed

text \<open>
  The proviso is needed. A thread that is created while interrupts are enabled does not block
  the alarm while it waits for its start. When the kernel has made it current and the alarm is
  queued to it before it is resumed, it enters the trap handler although it has not started, and
  two host threads are in the handler at the same time.
\<close>

theorem early_alarm_breaks_exclusion:
  assumes ok: "failed s = None" and trap: "host s t = Some (Trapped t r sig)"
    and timer: "wait_until s = Some time"
    and call: "call_kernel error_of e sig (proc_kernel s) = Inr (v, k)" "passes (call_kernel error_of e sig) (proc_kernel s)"
    and other: "thread_context k = Some c" "c \<noteq> t" "host s c = Some Parked" "\<not> alarm_blocked s c"
  shows "\<exists>s' r'. (sim_step error_of)\<^sup>*\<^sup>* s s' \<and> host s' t = Some (Switching t r c) \<and> host s' c = Some (Trapped c r' AlarmSignal)"
proof -
  let ?s1 = "s\<lparr>proc_kernel := k, rval := (case v of Some x \<Rightarrow> (rval s)(t := x) | None \<Rightarrow> rval s), wait_until := wait_until s,
    host := (host s)(t := Some (if c \<noteq> t then Switching t r c else Returning r))\<rparr>"
  let ?s2 = "?s1\<lparr>wait_until := None, pending_alarm := (pending_alarm ?s1)(c := True)\<rparr>"
  let ?s3 = "?s2\<lparr>host := (host ?s2)(c := Some (Trapped c (ints_enabled ?s2) AlarmSignal)),
      entered_from := (entered_from ?s2)(c := Parked), pending_alarm := (pending_alarm ?s2)(c := False), ints_enabled := False\<rparr>"
  have 1: "sim_step error_of s ?s1"
    by (rule sim_step.kernel [where i = t and sig = sig and e = e]) (use ok trap call other in simp_all)
  have 2: "sim_step error_of ?s1 ?s2"
    by (rule sim_step.timer [where time = time and clock_now = time]) (use ok timer other in \<open>simp_all add: sim_current_def\<close>)
  have 3: "sim_step error_of ?s2 ?s3"
    by (rule sim_step.early_alarm) (use ok other in \<open>simp_all add: sim_current_def\<close>)
  have "(sim_step error_of)\<^sup>*\<^sup>* s ?s3" using 1 2 3 by (meson converse_rtranclp_into_rtranclp rtranclp.rtrancl_refl)
  then show ?thesis using other(2) by (intro exI [of _ ?s3] exI [of _ "ints_enabled s"]) simp
qed

theorem early_alarm_breaks_exclusion_witness:
  "\<exists>s' r'. (sim_step (\<lambda>_. RecursiveLock))\<^sup>*\<^sup>* (sample_trapped\<lparr>host := (host sample_trapped)(0 := Some Parked)\<rparr>) s'
     \<and> host s' 1 = Some (Switching 1 True 0) \<and> host s' 0 = Some (Trapped 0 r' AlarmSignal)"
proof -
  let ?s = "sample_trapped\<lparr>host := (host sample_trapped)(0 := Some Parked)\<rparr>"
  obtain v k where call: "call_kernel (\<lambda>_. RecursiveLock) (sample_env 60) sample_suspend (proc_kernel ?s) = Inr (v, k)"
    "passes (call_kernel (\<lambda>_. RecursiveLock) (sample_env 60) sample_suspend) (proc_kernel ?s)" and ctx: "thread_context k = Some 0"
    using sample_suspend_facts by auto
  have s: "failed ?s = None" "host ?s 1 = Some (Trapped 1 True sample_suspend)" "wait_until ?s = Some 50"
    "host ?s 0 = Some Parked" "\<not> alarm_blocked ?s 0"
    by (simp_all add: sample_trapped_def sample_process_def)
  from early_alarm_breaks_exclusion [OF s(1-3) call ctx _ s(4,5)] show ?thesis by simp
qed

end
