(* ===== verification/Sim_Setup.thy ===== *)
theory Sim_Setup
  imports Simulator
begin

text \<open>
  The set-up of the simulator (\<open>khal/scars-khal-sim\<close>): the signal handlers with the signals that each
  blocks, the interrupt mask and the timer. The step relation of the simulator takes the
  handler to block both signals; here is where the code sees to it. The results of the
  host's functions are arguments.
\<close>

datatype host_signal = SYSCALL_SIGNAL | ALARM_SIGNAL

text \<open>The dispositions of signals are those of the process: the signals blocked in the handler of each, if it has one.\<close>

record sim_setup =
  sigactions :: "host_signal \<Rightarrow> host_signal set option"
  interrupt_sigmask :: "host_signal set"
  timer_wait_until :: "u64 option"
  timer_started :: bool
  irq_priority :: "nat \<Rightarrow> u8"
  irq_threshold :: u8
  irq_enable :: "nat \<Rightarrow> bool"

definition sigset :: "int \<Rightarrow> int \<Rightarrow> host_signal \<Rightarrow> host_signal set option" where
  "sigset sigemptyset sigaddset x = (if sigemptyset \<noteq> 0 \<or> sigaddset \<noteq> 0 then None else Some {x})"

definition vt_init :: "int \<Rightarrow> int \<Rightarrow> int \<Rightarrow> sim_setup \<Rightarrow> simulator_error_kind + sim_setup" where
  "vt_init sigemptyset sigaddset sigaction s =
     (case sigset sigemptyset sigaddset SYSCALL_SIGNAL of
        None \<Rightarrow> Inl SignalMaskFailed
      | Some m \<Rightarrow>
          if sigaction \<noteq> 0 then Inl SignalHandlerFailed
          else Inr (s\<lparr>sigactions := (sigactions s)(ALARM_SIGNAL := Some m), timer_wait_until := None, timer_started := True\<rparr>))"

definition vic_new :: "int \<Rightarrow> int \<Rightarrow> int \<Rightarrow> int \<Rightarrow> int \<Rightarrow> sim_setup \<Rightarrow> simulator_error_kind + sim_setup" where
  "vic_new sigemptyset1 sigaddset1 sigemptyset2 sigaddset2 sigaction s =
     (case sigset sigemptyset1 sigaddset1 ALARM_SIGNAL of
        None \<Rightarrow> Inl SignalMaskFailed
      | Some interrupt_mask \<Rightarrow>
        (case sigset sigemptyset2 sigaddset2 ALARM_SIGNAL of
           None \<Rightarrow> Inl SignalMaskFailed
         | Some syscall_mask \<Rightarrow>
             if sigaction \<noteq> 0 then Inl SignalHandlerFailed
             else Inr (s\<lparr>sigactions := (sigactions s)(SYSCALL_SIGNAL := Some syscall_mask),
               interrupt_sigmask := interrupt_mask, irq_priority := \<lambda>_. 0, irq_threshold := 0, irq_enable := \<lambda>_. False\<rparr>)))"

text \<open>\<open>Simulator::init\<close>: the timer first, then the interrupt controller; \<open>r\<close> has the results of the host in the order of the calls.\<close>

definition sim_init :: "(nat \<Rightarrow> int) \<Rightarrow> sim_setup \<Rightarrow> simulator_error_kind + sim_setup" where
  "sim_init r s =
     (case vt_init (r 0) (r 1) (r 2) s of
        Inl e \<Rightarrow> Inl e
      | Inr s1 \<Rightarrow> vic_new (r 3) (r 4) (r 5) (r 6) (r 7) s1)"

text \<open>While a handler runs, the host blocks its own signal and those of its mask.\<close>

definition blocked_in_handler :: "sim_setup \<Rightarrow> host_signal \<Rightarrow> host_signal set" where
  "blocked_in_handler s x = (case sigactions s x of None \<Rightarrow> {} | Some m \<Rightarrow> insert x m)"

text \<open>\<open>clock_ticks\<close>, with the result of \<open>clock_gettime\<close> and the time it stored.\<close>

definition sim_clock_ticks :: "bool \<Rightarrow> int \<Rightarrow> timespec \<Rightarrow> simulator_error_kind + u64 res" where
  "sim_clock_ticks checks clock_gettime time =
     (if clock_gettime \<noteq> 0 then Inl ClockReadFailed else Inr (timespec_to_ticks checks time))"

section \<open>Properties\<close>

lemma sigset_Some: "sigset a b x = Some m \<longleftrightarrow> a = 0 \<and> b = 0 \<and> m = {x}"
  by (auto simp: sigset_def)

lemma sim_init_Inr:
  "sim_init r s = Inr s' \<longleftrightarrow> (\<forall>i < 8. r i = 0)
    \<and> s' = s\<lparr>sigactions := (sigactions s)(ALARM_SIGNAL := Some {SYSCALL_SIGNAL}, SYSCALL_SIGNAL := Some {ALARM_SIGNAL}),
        timer_wait_until := None, timer_started := True, interrupt_sigmask := {ALARM_SIGNAL},
        irq_priority := \<lambda>_. 0, irq_threshold := 0, irq_enable := \<lambda>_. False\<rparr>"
proof -
  have "(\<forall>i < 8. r i = 0) \<longleftrightarrow> list_all (\<lambda>i. r i = 0) [0..<8]" by (auto simp: list_all_iff)
  also have "\<dots> \<longleftrightarrow> r 0 = 0 \<and> r 1 = 0 \<and> r 2 = 0 \<and> r 3 = 0 \<and> r 4 = 0 \<and> r 5 = 0 \<and> r 6 = 0 \<and> r 7 = 0"
    by (simp add: upt_rec eval_nat_numeral)
  finally show ?thesis
    by (auto simp: sim_init_def vt_init_def vic_new_def sigset_def split: if_splits)
qed

text \<open>
  The simulator is set up exactly when every call of the host succeeds, and then the handlers
  exclude each other: while one of the two signals is handled, the host blocks both; the
  interrupt mask is the alarm, the timer has started and no alarm is set.
\<close>

theorem sim_handlers_exclude:
  "((\<exists>s'. sim_init r s = Inr s') \<longleftrightarrow> (\<forall>i < 8. r i = 0))
    \<and> (\<forall>s'. sim_init r s = Inr s' \<longrightarrow> (\<forall>x. blocked_in_handler s' x = UNIV) \<and> interrupt_sigmask s' = {ALARM_SIGNAL}
        \<and> timer_started s' \<and> timer_wait_until s' = None)"
proof -
  have all: "(UNIV :: host_signal set) = {SYSCALL_SIGNAL, ALARM_SIGNAL}" by (auto intro: host_signal.exhaust)
  have "blocked_in_handler s' x = UNIV" if "sim_init r s = Inr s'" for s' x
    using that unfolding all by (cases x) (auto simp: sim_init_Inr blocked_in_handler_def)
  then show ?thesis by (auto simp: sim_init_Inr)
qed

definition before_setup :: sim_setup where
  "before_setup = \<lparr>sigactions = \<lambda>_. None, interrupt_sigmask = {}, timer_wait_until = None, timer_started = False,
     irq_priority = \<lambda>_. 0, irq_threshold = 0, irq_enable = \<lambda>_. False\<rparr>"

theorem sim_handlers_exclude_witness:
  "\<exists>s'. sim_init (\<lambda>_. 0) before_setup = Inr s' \<and> blocked_in_handler s' ALARM_SIGNAL = UNIV"
  using sim_handlers_exclude [of "\<lambda>_. 0" before_setup] by auto

text \<open>
  The clock of the simulator reports an error exactly when the host does; otherwise a time that was made
  from ticks is read as these ticks.
\<close>

theorem sim_clock_reads_ticks:
  "ticks_to_timespec checks t = Inr ts \<Longrightarrow>
    sim_clock_ticks checks 0 ts = Inr (Inr t) \<and> (res \<noteq> 0 \<longrightarrow> sim_clock_ticks checks res ts = Inl ClockReadFailed)"
  using timespec_exact [of checks t] by (auto simp: sim_clock_ticks_def)

theorem sim_clock_reads_ticks_witness:
  "\<exists>ts. ticks_to_timespec True 15000001 = Inr ts \<and> sim_clock_ticks True 0 ts = Inr (Inr 15000001)"
proof -
  obtain ts where "ticks_to_timespec True 15000001 = Inr ts" using timespec_exact [of True 15000001] by blast
  with sim_clock_reads_ticks [OF this] show ?thesis by blast
qed

end
