(* ===== verification/Error_Macros.thy ===== *)
theory Error_Macros
  imports Prelude
begin

text \<open>
  The derive macro for error types (\<open>unrecoverable-error-macros\<close>). It turns the format string of an
  error, with the names or the numbers of fields in braces, into a call of \<open>write!\<close> with positional
  arguments. The code that the macro returns is a value of a datatype here, given a meaning by the
  rules of Rust for patterns and for format strings, and the main theorem compares what it writes with
  the text that the format string describes. The \<open>regex\<close> and \<open>syn\<close> crates are a parameter.
\<close>

section \<open>Format strings\<close>

definition ascii :: "char \<Rightarrow> bool" where
  "ascii c \<longleftrightarrow> of_char c < (128 :: nat)"

definition is_digit :: "char \<Rightarrow> bool" where
  "is_digit c \<longleftrightarrow> 48 \<le> (of_char c :: nat) \<and> of_char c \<le> (57 :: nat)"

definition is_word :: "char \<Rightarrow> bool" where
  "is_word c \<longleftrightarrow> is_digit c \<or> 65 \<le> (of_char c :: nat) \<and> of_char c \<le> (90 :: nat)
     \<or> 97 \<le> (of_char c :: nat) \<and> of_char c \<le> (122 :: nat) \<or> c = CHR ''_''"

lemma braces_not_word [simp]:
  "\<not> is_word CHR ''{''" "\<not> is_word CHR ''}''" "\<not> is_word CHR '':''" "\<not> is_word CHR ''?''"
  by (simp_all add: is_word_def is_digit_def)

lemma braces_ascii [simp]:
  "ascii CHR ''{''" "ascii CHR ''}''" "ascii CHR '':''" "ascii CHR ''?''"
  by (simp_all add: ascii_def)

lemma word_ascii: "is_word c \<Longrightarrow> ascii c"
  by (auto simp: is_word_def is_digit_def ascii_def)

text \<open>
  The three regular expressions of the macro, in this order: a name in braces with an optional
  \<open>:?\<close>, a name alone, a name with \<open>:?\<close>. A string is cut into the matches of one of them, leftmost
  first and without overlap, and the characters between them.
\<close>

datatype regex = FieldRegex | PlainRegex | DebugRegex

fun accepts :: "regex \<Rightarrow> bool \<Rightarrow> bool" where
  "accepts FieldRegex d = True"
| "accepts PlainRegex d = (\<not> d)"
| "accepts DebugRegex d = d"

datatype piece = Lit char | Hole string bool

definition match_hole :: "string \<Rightarrow> (string \<times> bool \<times> string) option" where
  "match_hole s =
     (let name = takeWhile is_word s; rest = dropWhile is_word s in
      if name = [] then None
      else if take 1 rest = ''}'' then Some (name, False, drop 1 rest)
      else if take 3 rest = '':?}'' then Some (name, True, drop 3 rest)
      else None)"

lemma match_hole_string:
  assumes "match_hole s = Some (n, d, rest)"
  shows "s = n @ (if d then '':?}'' else ''}'') @ rest" and "n \<noteq> []" and "list_all is_word n"
proof -
  have s: "s = takeWhile is_word s @ take k (dropWhile is_word s) @ drop k (dropWhile is_word s)" for k
    by simp
  consider "take 1 (dropWhile is_word s) = ''}''" "d = False" "rest = drop 1 (dropWhile is_word s)"
    | "take 3 (dropWhile is_word s) = '':?}''" "d = True" "rest = drop 3 (dropWhile is_word s)"
    using assms by (auto simp: match_hole_def Let_def split: if_splits)
  moreover have n: "n = takeWhile is_word s" "n \<noteq> []"
    using assms by (auto simp: match_hole_def Let_def split: if_splits)
  ultimately show "s = n @ (if d then '':?}'' else ''}'') @ rest"
    by cases (metis s, metis s)
  show "n \<noteq> []" and "list_all is_word n"
    using n by (auto simp: list_all_iff dest: set_takeWhileD)
qed

lemma match_hole_shorter: "match_hole s = Some (n, d, rest) \<Longrightarrow> length rest < length s"
  by (drule match_hole_string(1)) simp

lemma match_hole_hit [simp]:
  assumes "list_all is_word n"
  shows "match_hole (n @ CHR ''}'' # s) = (if n = [] then None else Some (n, False, s))"
    and "match_hole (n @ CHR '':'' # CHR ''?'' # CHR ''}'' # s) = (if n = [] then None else Some (n, True, s))"
  using assms by (auto simp: match_hole_def takeWhile_append dropWhile_append list_all_iff numeral_3_eq_3)

function pieces :: "regex \<Rightarrow> string \<Rightarrow> piece list" where
  "pieces r [] = []"
| "pieces r (c # cs) =
     (case (if c = CHR ''{'' then match_hole cs else None) of
        Some (n, d, rest) \<Rightarrow> if accepts r d then Hole n d # pieces r rest else Lit c # pieces r cs
      | None \<Rightarrow> Lit c # pieces r cs)"
  by pat_completeness auto
termination
  by (relation "measure (\<lambda>(_, s). length s)") (auto dest!: match_hole_shorter split: if_splits)

primrec piece_string :: "piece \<Rightarrow> string" where
  "piece_string (Lit c) = [c]"
| "piece_string (Hole n d) = ''{'' @ n @ (if d then '':?}'' else ''}'')"

definition unparse :: "piece list \<Rightarrow> string" where
  "unparse ps = concat (map piece_string ps)"

lemma unparse_simps [simp]:
  "unparse [] = []" "unparse (p # ps) = piece_string p @ unparse ps"
  by (simp_all add: unparse_def)

definition hole_names :: "piece list \<Rightarrow> string list" where
  "hole_names ps = concat (map (\<lambda>p. case p of Lit c \<Rightarrow> [] | Hole n d \<Rightarrow> [n]) ps)"

lemma hole_names_simps [simp]:
  "hole_names [] = []" "hole_names (Lit c # ps) = hole_names ps"
  "hole_names (Hole n d # ps) = n # hole_names ps"
  by (simp_all add: hole_names_def)

definition fill_holes :: "string \<Rightarrow> piece list \<Rightarrow> string" where
  "fill_holes by_text ps = concat (map (\<lambda>p. case p of Lit c \<Rightarrow> [c] | Hole n d \<Rightarrow> by_text) ps)"

lemma fill_holes_simps [simp]:
  "fill_holes t [] = []" "fill_holes t (Lit c # ps) = c # fill_holes t ps"
  "fill_holes t (Hole n d # ps) = t @ fill_holes t ps"
  by (simp_all add: fill_holes_def)

text \<open>Cutting a string loses nothing, and a string without other braces is cut where it was put together.\<close>

lemma unparse_pieces: "unparse (pieces r s) = s"
  by (induction r s rule: pieces.induct) (auto dest!: match_hole_string(1) split: option.split)

lemma pieces_named: "Hole n d \<in> set (pieces r s) \<Longrightarrow> n \<noteq> [] \<and> list_all is_word n"
proof (induction r s rule: pieces.induct)
  case (2 r c cs)
  show ?case
  proof (cases "if c = CHR ''{'' then match_hole cs else None")
    case None
    with 2 show ?thesis by simp
  next
    case (Some m)
    obtain n' d' rest where m: "m = (n', d', rest)" by (cases m)
    with Some have "match_hole cs = Some (n', d', rest)" by (simp split: if_splits)
    then have n': "n' \<noteq> [] \<and> list_all is_word n'" by (simp add: match_hole_string(2,3))
    show ?thesis
    proof (cases "accepts r d'")
      case True
      then have "Hole n d \<in> set (pieces r rest) \<Longrightarrow> n \<noteq> [] \<and> list_all is_word n"
        using 2(2) Some m by blast
      with True Some m n' 2(4) show ?thesis by auto
    next
      case False
      then have "Hole n d \<in> set (pieces r cs) \<Longrightarrow> n \<noteq> [] \<and> list_all is_word n"
        using 2(3) Some m by blast
      with False Some m 2(4) show ?thesis by auto
    qed
  qed
qed simp

definition plain_piece :: "piece \<Rightarrow> bool" where
  "plain_piece p = (case p of Lit c \<Rightarrow> ascii c \<and> c \<noteq> CHR ''{'' \<and> c \<noteq> CHR ''}'' | Hole n d \<Rightarrow> list_all is_word n)"

lemma plain_piece_simps [simp]:
  "plain_piece (Lit c) \<longleftrightarrow> ascii c \<and> c \<noteq> CHR ''{'' \<and> c \<noteq> CHR ''}''"
  "plain_piece (Hole n d) \<longleftrightarrow> list_all is_word n"
  by (simp_all add: plain_piece_def)

text \<open>The replacement of one kind of placeholder by its positional form.\<close>

primrec blanked :: "regex \<Rightarrow> piece \<Rightarrow> piece" where
  "blanked r (Lit c) = Lit c"
| "blanked r (Hole n d) = Hole (if accepts r d then [] else n) d"

lemma blanked_plain: "plain_piece p \<Longrightarrow> plain_piece (blanked r p)"
  by (cases p) simp_all

lemma fill_holes_skip:
  "c \<noteq> CHR ''{'' \<Longrightarrow> fill_holes t (pieces r (c # cs)) = c # fill_holes t (pieces r cs)"
  by simp

lemma fill_holes_word:
  "list_all (\<lambda>c. c \<noteq> CHR ''{'') w \<Longrightarrow> fill_holes t (pieces r (w @ s)) = w @ fill_holes t (pieces r s)"
  by (induction w) (simp_all del: pieces.simps add: fill_holes_skip)

lemma no_brace_word: "list_all is_word n \<Longrightarrow> list_all (\<lambda>c. c \<noteq> CHR ''{'') n"
  by (auto simp: list_all_iff)

lemma fill_holes_pieces:
  assumes "\<And>d. accepts r d \<Longrightarrow> t = piece_string (Hole [] d)" and "list_all plain_piece ps"
  shows "fill_holes t (pieces r (unparse ps)) = unparse (map (blanked r) ps)"
  using assms(2)
proof (induction ps)
  case (Cons p ps)
  then have IH: "fill_holes t (pieces r (unparse ps)) = unparse (map (blanked r) ps)" by simp
  show ?case
  proof (cases p)
    case (Lit c)
    with Cons.prems IH show ?thesis by simp
  next
    case (Hole n d)
    with Cons.prems have n: "list_all is_word n" by simp
    have "fill_holes t (pieces r (n @ (if d then '':?}'' else ''}'') @ unparse ps))
        = n @ (if d then '':?}'' else ''}'') @ unparse (map (blanked r) ps)"
      using fill_holes_word [OF no_brace_word [OF n]] IH by simp
    then show ?thesis
      using Hole n IH assms(1) [of d] by (cases d) (auto split: option.split)
  qed
qed simp

lemma unparse_ascii:
  assumes "list_all plain_piece ps"
  shows "list_all ascii (unparse ps)"
proof -
  have "list_all ascii n" if "list_all is_word n" for n
    using that by (auto simp: list_all_iff intro: word_ascii)
  with assms show ?thesis
    by (induction ps) (auto simp: plain_piece_def split: piece.splits)
qed

section \<open>Rust's formatting\<close>

text \<open>
  What \<open>write!\<close> does with a format string and positional arguments: the text it writes, a rejection by
  the compiler (too few arguments, an argument never used, a brace without a partner), or a
  placeholder with a name, a number or a format specification of its own, which is not needed here.
  A field is known by the texts of its \<open>Display\<close> and \<open>Debug\<close> implementations.
\<close>

record field_text =
  display_text :: string
  debug_text :: string

datatype fmt_result = Text string | Rejected | Outside

primrec prepend :: "string \<Rightarrow> fmt_result \<Rightarrow> fmt_result" where
  "prepend s (Text t) = Text (s @ t)"
| "prepend s Rejected = Rejected"
| "prepend s Outside = Outside"

definition arg_text :: "bool \<Rightarrow> field_text \<Rightarrow> string" where
  "arg_text d v = (if d then debug_text v else display_text v)"

function write_fmt :: "string \<Rightarrow> field_text list \<Rightarrow> fmt_result" where
  "write_fmt [] vs = (if vs = [] then Text [] else Rejected)"
| "write_fmt (c # cs) vs =
     (if c = CHR ''{'' then
        if take 1 cs = ''{'' then prepend ''{'' (write_fmt (drop 1 cs) vs)
        else if take 1 cs = ''}'' then
          (case vs of [] \<Rightarrow> Rejected | v # vs' \<Rightarrow> prepend (arg_text False v) (write_fmt (drop 1 cs) vs'))
        else if take 3 cs = '':?}'' then
          (case vs of [] \<Rightarrow> Rejected | v # vs' \<Rightarrow> prepend (arg_text True v) (write_fmt (drop 3 cs) vs'))
        else if CHR ''}'' \<in> set cs then Outside
        else Rejected
      else if c = CHR ''}'' then
        if take 1 cs = ''}'' then prepend ''}'' (write_fmt (drop 1 cs) vs) else Rejected
      else prepend [c] (write_fmt cs vs))"
  by pat_completeness auto
termination
  by (relation "measure (\<lambda>(s, _). length s)") auto

primrec piece_text :: "(string \<Rightarrow> field_text option) \<Rightarrow> piece \<Rightarrow> string" where
  "piece_text look (Lit c) = [c]"
| "piece_text look (Hole n d) = (case look n of Some v \<Rightarrow> arg_text d v | None \<Rightarrow> piece_string (Hole n d))"

definition named_text :: "(string \<Rightarrow> field_text option) \<Rightarrow> string \<Rightarrow> string" where
  "named_text look s = concat (map (piece_text look) (pieces FieldRegex s))"

text \<open>With every placeholder made positional, the arguments fill the placeholders in order.\<close>

lemma write_fmt_blanked:
  assumes "list_all plain_piece ps" and "map look (hole_names ps) = map Some vs"
  shows "write_fmt (unparse (map (blanked FieldRegex) ps)) vs = Text (concat (map (piece_text look) ps))"
  using assms
proof (induction ps arbitrary: vs)
  case (Cons p ps)
  show ?case
  proof (cases p)
    case (Lit c)
    with Cons show ?thesis by simp
  next
    case (Hole n d)
    with Cons.prems obtain v vs' where "vs = v # vs'" "look n = Some v" "map look (hole_names ps) = map Some vs'"
      by (cases vs) auto
    with Cons Hole show ?thesis by (simp add: numeral_3_eq_3)
  qed
qed simp

section \<open>The macro\<close>

text \<open>
  The parameter: \<open>captures_iter\<close> (the first group of every match) and \<open>replace_all\<close> of the \<open>regex\<close>
  crate, and \<open>Ident::new\<close> of \<open>syn\<close>, which panics (\<open>None\<close>) for a text that is no identifier.
\<close>

record macro_env =
  captures :: "regex \<Rightarrow> string \<Rightarrow> string list"
  replace_all :: "regex \<Rightarrow> string \<Rightarrow> string \<Rightarrow> string"
  ident_new :: "string \<Rightarrow> string option"

definition regex_crate :: "macro_env \<Rightarrow> bool" where
  "regex_crate m \<longleftrightarrow> (\<forall>r s. list_all ascii s \<longrightarrow> captures m r s = hole_names (pieces r s)
     \<and> (\<forall>t. CHR ''$'' \<notin> set t \<longrightarrow> replace_all m r s t = fill_holes t (pieces r s)))"

definition is_ident :: "string \<Rightarrow> bool" where
  "is_ident n \<longleftrightarrow> n \<noteq> [] \<and> list_all is_word n \<and> \<not> is_digit (hd n) \<and> n \<noteq> ''_''"

definition syn_crate :: "macro_env \<Rightarrow> bool" where
  "syn_crate m \<longleftrightarrow> (\<forall>n. is_ident n \<longrightarrow> ident_new m n = Some n)
     \<and> (\<forall>n. n \<noteq> [] \<and> is_digit (hd n) \<longrightarrow> ident_new m n = None)"

text \<open>Numbers: \<open>format!("__self_{}", i)\<close>, and \<open>usize::from_str_radix\<close> on the host.\<close>

fun show_nat :: "nat \<Rightarrow> string" where
  "show_nat n = (if n < 10 then [char_of (48 + n)] else show_nat (n div 10) @ [char_of (48 + n mod 10)])"

declare show_nat.simps [simp del]

definition digits_value :: "string \<Rightarrow> nat" where
  "digits_value s = fold (\<lambda>c a. 10 * a + (of_char c - 48)) s 0"

definition from_str_radix :: "string \<Rightarrow> nat option" where
  "from_str_radix s = (if s \<noteq> [] \<and> list_all is_digit s \<and> digits_value s < 2 ^ 64
     then Some (digits_value s) else None)"

definition self_name :: "nat \<Rightarrow> string" where
  "self_name i = ''__self_'' @ show_nat i"

text \<open>The input, as \<open>syn\<close> parses it. An attribute has its path and, if its argument is a string literal, that string.\<close>

datatype fields = Named_Fields "string list" | Unnamed_Fields nat | Unit_Fields

record attribute =
  attr_path :: string
  attr_lit :: "string option"

record variant =
  variant_ident :: string
  variant_attrs :: "attribute list"
  variant_fields :: fields

datatype data = Enum_Data "variant list" | Struct_Data fields | Union_Data

record derive_input =
  input_ident :: string
  input_attrs :: "attribute list"
  input_data :: data

primrec field_idents :: "fields \<Rightarrow> string option list" where
  "field_idents (Named_Fields ns) = map Some ns"
| "field_idents (Unnamed_Fields k) = replicate k None"
| "field_idents Unit_Fields = []"

text \<open>The output: the body of the \<open>Display\<close> implementation.\<close>

datatype arg = Local_Var string | Self_Field string

datatype pat = Path_Pat | Struct_Pat "string list" | Tuple_Pat "string list"

record match_arm =
  arm_ident :: string
  arm_pat :: pat
  arm_format :: string
  arm_args :: "arg list"

datatype display_body = Match_Self "match_arm list" | Write_Self string "arg list"

fun all_res :: "('a \<Rightarrow> 'b res) \<Rightarrow> 'a list \<Rightarrow> 'b list res" where
  "all_res f [] = Inr []"
| "all_res f (x # xs) = bind_res (f x) (\<lambda>y. bind_res (all_res f xs) (\<lambda>ys. Inr (y # ys)))"

definition new_ident :: "macro_env \<Rightarrow> string \<Rightarrow> string res" where
  "new_ident m n = (case ident_new m n of None \<Rightarrow> Inl (Panic ''invalid identifier'') | Some x \<Rightarrow> Inr x)"

definition custom_format :: "attribute list \<Rightarrow> string option" where
  "custom_format attrs = fold (\<lambda>a acc. if attr_path a = ''unrecoverable_error''
     then (case attr_lit a of Some s \<Rightarrow> Some s | None \<Rightarrow> acc) else acc) attrs None"

definition field_patterns :: "macro_env \<Rightarrow> fields \<Rightarrow> string list res" where
  "field_patterns m fs = all_res (\<lambda>(i, ident). case ident of None \<Rightarrow> new_ident m (self_name i) | Some n \<Rightarrow> Inr n)
     (List.enumerate 0 (field_idents fs))"

definition variant_pattern :: "fields \<Rightarrow> string list \<Rightarrow> pat" where
  "variant_pattern fs fps =
     (if list_ex (\<lambda>ident. ident \<noteq> None) (field_idents fs)
      then Struct_Pat (map (\<lambda>ident. case ident of None \<Rightarrow> [] | Some n \<Rightarrow> n) (field_idents fs))
      else Tuple_Pat fps)"

definition ordered_field_patterns :: "macro_env \<Rightarrow> string list \<Rightarrow> string list \<Rightarrow> arg list res" where
  "ordered_field_patterns m fps format_fields = all_res (\<lambda>n.
     case from_str_radix n of
       Some i \<Rightarrow> if i < length fps then Inr (Local_Var (fps ! i)) else Inl IndexOutOfBounds
     | None \<Rightarrow> bind_res (new_ident m n) (\<lambda>x. Inr (Local_Var x))) format_fields"

definition modified_format :: "macro_env \<Rightarrow> string \<Rightarrow> string" where
  "modified_format m s = replace_all m DebugRegex (replace_all m PlainRegex s ''{}'') ''{:?}''"

definition enum_arm :: "macro_env \<Rightarrow> variant \<Rightarrow> match_arm res" where
  "enum_arm m v =
     (let attrs = custom_format (variant_attrs v); fs = variant_fields v in
      bind_res (field_patterns m fs) (\<lambda>fps.
      let arm_of = (\<lambda>fmt args. if 0 < length fps
            then \<lparr>arm_ident = variant_ident v, arm_pat = variant_pattern fs fps, arm_format = fmt, arm_args = args\<rparr>
            else \<lparr>arm_ident = variant_ident v, arm_pat = Path_Pat, arm_format = fmt, arm_args = []\<rparr>) in
      case attrs of
        Some s \<Rightarrow> bind_res (ordered_field_patterns m fps (captures m FieldRegex s)) (\<lambda>args.
          Inr (arm_of (modified_format m s) args))
      | None \<Rightarrow> Inr (arm_of (variant_ident v) [])))"

definition derive_struct :: "macro_env \<Rightarrow> string \<Rightarrow> attribute list \<Rightarrow> display_body res" where
  "derive_struct m name attrs =
     (case custom_format attrs of
        Some s \<Rightarrow> bind_res (all_res (new_ident m) (captures m FieldRegex s)) (\<lambda>ns.
          Inr (Write_Self (modified_format m s) (map Self_Field ns)))
      | None \<Rightarrow> Inr (Write_Self name []))"

definition derive_unrecoverable_error :: "macro_env \<Rightarrow> derive_input \<Rightarrow> display_body res" where
  "derive_unrecoverable_error m inp =
     (case input_data inp of
        Enum_Data vs \<Rightarrow> bind_res (all_res (enum_arm m) vs) (\<lambda>arms. Inr (Match_Self arms))
      | Struct_Data fs \<Rightarrow> derive_struct m (input_ident inp) (input_attrs inp)
      | Union_Data \<Rightarrow> Inl Unreachable)"

section \<open>What the generated code writes\<close>

text \<open>
  Rust's rules for the generated code: a path pattern fits a variant without fields and without
  parentheses, a struct pattern names every field, a tuple pattern binds as many distinct variables as there are fields. A local
  variable that the pattern does not bind may still be a constant of the surrounding module, which is
  outside the model; a field of \<open>self\<close> that the type does not have is rejected.
\<close>

primrec field_count :: "fields \<Rightarrow> nat" where
  "field_count (Named_Fields ns) = length ns"
| "field_count (Unnamed_Fields k) = k"
| "field_count Unit_Fields = 0"

primrec field_names :: "fields \<Rightarrow> string list" where
  "field_names (Named_Fields ns) = ns"
| "field_names (Unnamed_Fields k) = []"
| "field_names Unit_Fields = []"

fun arm_binds :: "pat \<Rightarrow> fields \<Rightarrow> field_text list \<Rightarrow> (string \<times> field_text) list option" where
  "arm_binds Path_Pat Unit_Fields vals = Some []"
| "arm_binds (Struct_Pat ns) (Named_Fields ms) vals =
     (if distinct ns \<and> set ns = set ms then Some (zip ms vals) else None)"
| "arm_binds (Tuple_Pat ns) (Unnamed_Fields k) vals =
     (if distinct ns \<and> length ns = k then Some (zip ns vals) else None)"
| "arm_binds p fs vals = None"

definition eval_write :: "string \<Rightarrow> (arg \<Rightarrow> field_text option) \<Rightarrow> arg list \<Rightarrow> fmt_result" where
  "eval_write fmt look args =
     (case find (\<lambda>a. look a = None) args of
        Some (Self_Field n) \<Rightarrow> Rejected
      | Some (Local_Var n) \<Rightarrow> Outside
      | None \<Rightarrow> write_fmt fmt (map (the \<circ> look) args))"

primrec arm_arg :: "(string \<times> field_text) list \<Rightarrow> arg \<Rightarrow> field_text option" where
  "arm_arg binds (Local_Var n) = map_of binds n"
| "arm_arg binds (Self_Field n) = None"

primrec self_arg :: "(string \<times> field_text) list \<Rightarrow> arg \<Rightarrow> field_text option" where
  "self_arg selfs (Local_Var n) = None"
| "self_arg selfs (Self_Field n) = map_of selfs n"

definition arm_display :: "match_arm \<Rightarrow> fields \<Rightarrow> field_text list \<Rightarrow> fmt_result" where
  "arm_display a fs vals =
     (case arm_binds (arm_pat a) fs vals of
        None \<Rightarrow> Rejected
      | Some binds \<Rightarrow> eval_write (arm_format a) (arm_arg binds) (arm_args a))"

definition struct_display :: "string \<Rightarrow> arg list \<Rightarrow> fields \<Rightarrow> field_text list \<Rightarrow> fmt_result" where
  "struct_display fmt args fs vals = eval_write fmt (self_arg (zip (field_names fs) vals)) args"

text \<open>
  The whole \<open>match\<close> has to compile before a value can be written: every arm is tried with fields
  whose texts are empty, which decides whether it compiles, for the outcome depends on the values
  only through the text.
\<close>

definition blank_field :: field_text where
  "blank_field = \<lparr>display_text = [], debug_text = []\<rparr>"

definition arm_check :: "match_arm \<Rightarrow> fields \<Rightarrow> fmt_result" where
  "arm_check a fs = arm_display a fs (replicate (field_count fs) blank_field)"

primrec is_text :: "fmt_result \<Rightarrow> bool" where
  "is_text (Text t) = True"
| "is_text Rejected = False"
| "is_text Outside = False"

definition enum_display :: "match_arm list \<Rightarrow> variant list \<Rightarrow> variant \<Rightarrow> field_text list \<Rightarrow> fmt_result" where
  "enum_display arms vs v vals =
     (case find (\<lambda>x. \<not> is_text x) (map2 (\<lambda>a w. arm_check a (variant_fields w)) arms vs) of
        Some e \<Rightarrow> e
      | None \<Rightarrow> (case find (\<lambda>a. arm_ident a = variant_ident v) arms of
            None \<Rightarrow> Rejected
          | Some a \<Rightarrow> arm_display a (variant_fields v) vals))"

text \<open>The reference: every placeholder of the format string is the field it names or numbers.\<close>

definition field_value :: "fields \<Rightarrow> field_text list \<Rightarrow> string \<Rightarrow> field_text option" where
  "field_value fs vals n =
     (case from_str_radix n of
        Some i \<Rightarrow> if i < length vals then Some (vals ! i) else None
      | None \<Rightarrow> map_of (zip (field_names fs) vals) n)"

definition variant_text :: "variant \<Rightarrow> field_text list \<Rightarrow> string" where
  "variant_text v vals =
     (case custom_format (variant_attrs v) of
        None \<Rightarrow> variant_ident v
      | Some s \<Rightarrow> named_text (field_value (variant_fields v) vals) s)"

definition resolves :: "fields \<Rightarrow> string \<Rightarrow> bool" where
  "resolves fs n = (case from_str_radix n of Some i \<Rightarrow> i < field_count fs | None \<Rightarrow> n \<in> set (field_names fs))"

definition format_ok :: "fields \<Rightarrow> string \<Rightarrow> bool" where
  "format_ok fs s \<longleftrightarrow> list_all plain_piece (pieces FieldRegex s) \<and> list_all (resolves fs) (hole_names (pieces FieldRegex s))"

definition variant_ok :: "variant \<Rightarrow> bool" where
  "variant_ok v \<longleftrightarrow> is_ident (variant_ident v)
     \<and> distinct (field_names (variant_fields v)) \<and> list_all is_ident (field_names (variant_fields v))
     \<and> (field_count (variant_fields v) = 0 \<longrightarrow> variant_fields v = Unit_Fields)
     \<and> (case custom_format (variant_attrs v) of None \<Rightarrow> True | Some s \<Rightarrow> format_ok (variant_fields v) s)"

subsection \<open>Numbers\<close>

lemma digit_of_char [simp]:
  assumes "k < 10"
  shows "of_char (char_of (48 + k) :: char) = (48 + k :: nat)" and "is_digit (char_of (48 + k))"
proof -
  show *: "of_char (char_of (48 + k) :: char) = (48 + k :: nat)"
    using assms by simp
  show "is_digit (char_of (48 + k))"
    using assms unfolding is_digit_def * by simp
qed

lemma show_nat_digits: "list_all is_digit (show_nat n) \<and> show_nat n \<noteq> []"
proof (induction n rule: show_nat.induct)
  case (1 n)
  then show ?case by (simp add: show_nat.simps [of n] digit_of_char(2) del: add_numeral_left)
qed

lemma digits_value_show: "digits_value (show_nat n) = n"
proof (induction n rule: show_nat.induct)
  case (1 n)
  then show ?case
    by (cases "n < 10") (simp_all add: show_nat.simps [of n] digits_value_def)
qed

lemma from_str_radix_show: "n < 2 ^ 64 \<Longrightarrow> from_str_radix (show_nat n) = Some n"
  using show_nat_digits [of n] by (simp add: from_str_radix_def digits_value_show)

lemma self_name_inj: "self_name i = self_name j \<longleftrightarrow> i = j"
  by (metis append_same_eq digits_value_show same_append_eq self_name_def)

lemma self_name_ident: "is_ident (self_name i)"
proof -
  have "list_all is_word (show_nat i)"
    using show_nat_digits [of i] by (auto simp: list_all_iff is_word_def)
  then show ?thesis
    by (simp add: is_ident_def self_name_def is_word_def is_digit_def)
qed

lemma ident_not_number: "is_ident n \<Longrightarrow> from_str_radix n = None"
  by (cases n) (auto simp: is_ident_def from_str_radix_def)

subsection \<open>The steps of the macro\<close>

lemma all_res_Inr: "\<forall>x \<in> set xs. f x = Inr (g x) \<Longrightarrow> all_res f xs = Inr (map g xs)"
  by (induction xs) simp_all

lemma new_ident_ok [simp]: "syn_crate m \<Longrightarrow> is_ident n \<Longrightarrow> new_ident m n = Inr n"
  by (simp add: new_ident_def syn_crate_def)

primrec pattern_names :: "fields \<Rightarrow> string list" where
  "pattern_names (Named_Fields ns) = ns"
| "pattern_names (Unnamed_Fields k) = map self_name [0..<k]"
| "pattern_names Unit_Fields = []"

lemma length_pattern_names [simp]: "length (pattern_names fs) = field_count fs"
  by (cases fs) simp_all

lemma pattern_names_Nil [simp]: "pattern_names fs = [] \<longleftrightarrow> field_count fs = 0"
  by (metis length_0_conv length_pattern_names)

lemma field_patterns_ok: "syn_crate m \<Longrightarrow> field_patterns m fs = Inr (pattern_names fs)"
proof (cases fs)
  case (Named_Fields ns)
  let ?g = "\<lambda>(i :: nat, ident). case ident of None \<Rightarrow> [] | Some n \<Rightarrow> n"
  have "field_patterns m fs = Inr (map ?g (List.enumerate 0 (map Some ns)))"
    unfolding field_patterns_def Named_Fields field_idents.simps
    by (rule all_res_Inr) (auto simp: in_set_enumerate_eq)
  moreover have "map ?g (List.enumerate 0 (map Some ns)) = ns"
    by (rule nth_equalityI) (simp_all add: nth_enumerate_eq)
  ultimately show ?thesis using Named_Fields by simp
next
  case (Unnamed_Fields k)
  assume "syn_crate m"
  then have "field_patterns m fs = Inr (map (\<lambda>(i, ident :: string option). self_name i) (List.enumerate 0 (replicate k None)))"
    unfolding field_patterns_def Unnamed_Fields field_idents.simps
    by (intro all_res_Inr) (auto simp: in_set_enumerate_eq self_name_ident)
  moreover have "map (\<lambda>(i, ident :: string option). self_name i) (List.enumerate 0 (replicate k None)) = map self_name [0..<k]"
    by (rule nth_equalityI) (simp_all add: nth_enumerate_eq)
  ultimately show ?thesis using Unnamed_Fields by simp
qed (simp add: field_patterns_def)

lemma modified_format_ok:
  assumes "regex_crate m" and "list_all plain_piece (pieces FieldRegex s)"
  shows "modified_format m s = unparse (map (blanked FieldRegex) (pieces FieldRegex s))"
proof -
  let ?ps = "pieces FieldRegex s"
  let ?qs = "map (blanked PlainRegex) ?ps"
  have s: "unparse ?ps = s" by (rule unparse_pieces)
  have qs: "list_all plain_piece ?qs"
    using assms(2) by (auto simp: list_all_iff blanked_plain)
  have "list_all ascii s" "list_all ascii (unparse ?qs)"
    using unparse_ascii [OF assms(2)] unparse_ascii [OF qs] by (simp_all add: s)
  moreover have "fill_holes ''{}'' (pieces PlainRegex (unparse ?ps)) = unparse ?qs"
    by (rule fill_holes_pieces [OF _ assms(2)]) simp
  moreover have "fill_holes ''{:?}'' (pieces DebugRegex (unparse ?qs)) = unparse (map (blanked DebugRegex) ?qs)"
    by (rule fill_holes_pieces [OF _ qs]) simp
  moreover have "blanked DebugRegex (blanked PlainRegex p) = blanked FieldRegex p" for p
    by (cases p) auto
  ultimately show ?thesis
    using assms(1) by (simp add: modified_format_def regex_crate_def s comp_def)
qed

text \<open>An argument of \<open>write!\<close> has the value of the field that the placeholder stands for.\<close>

definition arg_for :: "fields \<Rightarrow> string \<Rightarrow> string" where
  "arg_for fs n = (case from_str_radix n of Some i \<Rightarrow> pattern_names fs ! i | None \<Rightarrow> n)"

lemma ordered_field_patterns_ok:
  assumes "syn_crate m" "list_all is_ident (field_names fs)" "list_all (resolves fs) ns"
  shows "ordered_field_patterns m (pattern_names fs) ns = Inr (map (Local_Var \<circ> arg_for fs) ns)"
  unfolding ordered_field_patterns_def
proof (rule all_res_Inr, rule ballI)
  fix n assume "n \<in> set ns"
  with assms(3) have n: "resolves fs n" by (simp add: list_all_iff)
  then show "(case from_str_radix n of None \<Rightarrow> bind_res (new_ident m n) (\<lambda>x. Inr (Local_Var x))
      | Some i \<Rightarrow> if i < length (pattern_names fs) then Inr (Local_Var (pattern_names fs ! i)) else Inl IndexOutOfBounds)
    = Inr ((Local_Var \<circ> arg_for fs) n)"
    using assms(1,2) by (auto simp: resolves_def arg_for_def list_all_iff split: option.splits)
qed

lemma zip_lookup:
  assumes "distinct ks" "i < length ks" "length vals = length ks"
  shows "map_of (zip ks vals) (ks ! i) = Some (vals ! i)"
  using assms by (simp add: map_of_zip_nth)

lemma distinct_pattern_names: "distinct (field_names fs) \<Longrightarrow> distinct (pattern_names fs)"
  by (cases fs) (auto simp: distinct_map inj_on_def self_name_inj)

lemma arg_for_value:
  assumes "distinct (field_names fs)" "resolves fs n" "length vals = field_count fs"
  shows "map_of (zip (pattern_names fs) vals) (arg_for fs n) = field_value fs vals n"
    and "field_value fs vals n \<noteq> None"
proof -
  have "map_of (zip (pattern_names fs) vals) (arg_for fs n) = field_value fs vals n \<and> field_value fs vals n \<noteq> None"
  proof (cases "from_str_radix n")
    case None
    with assms obtain ns where "fs = Named_Fields ns" "n \<in> set ns"
      by (cases fs) (auto simp: resolves_def)
    with None assms show ?thesis
      by (simp add: arg_for_def field_value_def map_of_zip_is_Some)
  next
    case (Some i)
    with assms have "i < length (pattern_names fs)" by (simp add: resolves_def)
    with Some assms zip_lookup [OF distinct_pattern_names [OF assms(1)] this, of vals] show ?thesis
      by (simp add: arg_for_def field_value_def)
  qed
  then show "map_of (zip (pattern_names fs) vals) (arg_for fs n) = field_value fs vals n"
    and "field_value fs vals n \<noteq> None" by auto
qed

subsection \<open>Every arm writes what its format string describes\<close>

lemma arm_binds_ok:
  assumes "distinct (field_names fs)" "field_count fs = 0 \<longrightarrow> fs = Unit_Fields"
  shows "arm_binds (if 0 < field_count fs then variant_pattern fs (pattern_names fs) else Path_Pat) fs vals
    = Some (zip (pattern_names fs) vals)"
proof (cases fs)
  case (Named_Fields ns)
  with assms show ?thesis by (cases ns) (auto simp: variant_pattern_def comp_def)
next
  case (Unnamed_Fields k)
  with assms distinct_pattern_names [OF assms(1)] show ?thesis
    by (auto simp: variant_pattern_def list_ex_iff)
qed simp

lemma write_fmt_word: "list_all is_word w \<Longrightarrow> write_fmt w [] = Text w"
  by (induction w) auto

lemma eval_write_ok: "\<forall>a \<in> set args. look a \<noteq> None \<Longrightarrow> eval_write fmt look args = write_fmt fmt (map (the \<circ> look) args)"
proof -
  assume *: "\<forall>a \<in> set args. look a \<noteq> None"
  then have "find (\<lambda>a. look a = None) args = None" by (auto simp: find_None_iff)
  then show ?thesis by (simp add: eval_write_def)
qed

lemma write_named:
  assumes "list_all plain_piece (pieces FieldRegex s)" and "\<forall>n \<in> set (hole_names (pieces FieldRegex s)). look n \<noteq> None"
  shows "write_fmt (unparse (map (blanked FieldRegex) (pieces FieldRegex s))) (map (the \<circ> look) (hole_names (pieces FieldRegex s)))
    = Text (named_text look s)"
  unfolding named_text_def using assms
  by (intro write_fmt_blanked) auto

lemma captures_ok:
  "regex_crate m \<Longrightarrow> list_all plain_piece (pieces FieldRegex s) \<Longrightarrow> captures m FieldRegex s = hole_names (pieces FieldRegex s)"
  using unparse_ascii [of "pieces FieldRegex s"] by (simp add: regex_crate_def unparse_pieces)

lemma no_fields_no_holes: "field_count fs = 0 \<Longrightarrow> list_all (resolves fs) ns \<Longrightarrow> ns = []"
  by (cases ns; cases fs) (auto simp: resolves_def split: option.splits)

lemma arm_display_ok:
  assumes "fs = variant_fields v" "variant_ok v" "custom_format (variant_attrs v) = Some s" "length vals = field_count fs"
    and a: "a = \<lparr>arm_ident = i, arm_pat = (if 0 < field_count fs then variant_pattern fs (pattern_names fs) else Path_Pat),
        arm_format = unparse (map (blanked FieldRegex) (pieces FieldRegex s)),
        arm_args = map (Local_Var \<circ> arg_for fs) (hole_names (pieces FieldRegex s))\<rparr>"
  shows "arm_display a fs vals = Text (variant_text v vals)"
proof -
  let ?ns = "hole_names (pieces FieldRegex s)"
  let ?look = "arm_arg (zip (pattern_names fs) vals)"
  have ok: "distinct (field_names fs)" "field_count fs = 0 \<longrightarrow> fs = Unit_Fields"
    "list_all plain_piece (pieces FieldRegex s)" "list_all (resolves fs) ?ns"
    using assms(1-3) by (auto simp: variant_ok_def format_ok_def)
  have look: "?look (Local_Var (arg_for fs n)) = field_value fs vals n" "field_value fs vals n \<noteq> None" if "n \<in> set ?ns" for n
    using arg_for_value [OF ok(1) _ assms(4), of n] ok(4) that by (auto simp: list_all_iff)
  have "eval_write (arm_format a) ?look (arm_args a)
      = write_fmt (arm_format a) (map (the \<circ> ?look) (arm_args a))"
    by (rule eval_write_ok) (use look in \<open>auto simp: a\<close>)
  also have "map (the \<circ> ?look) (arm_args a) = map (the \<circ> field_value fs vals) ?ns"
    using look by (simp add: a)
  also have "write_fmt (arm_format a) \<dots> = Text (named_text (field_value fs vals) s)"
    using write_named [OF ok(3)] look by (simp add: a)
  finally show ?thesis
    using arm_binds_ok [OF ok(1,2), of vals] assms(1,3) by (simp add: arm_display_def variant_text_def a)
qed

lemma enum_arm_ok:
  assumes "regex_crate m" "syn_crate m" "variant_ok v"
  obtains a where "enum_arm m v = Inr a" and "arm_ident a = variant_ident v"
    and "\<And>vals. length vals = field_count (variant_fields v) \<Longrightarrow> arm_display a (variant_fields v) vals = Text (variant_text v vals)"
proof (cases "custom_format (variant_attrs v)")
  case None
  let ?fs = "variant_fields v"
  let ?a = "\<lparr>arm_ident = variant_ident v,
      arm_pat = (if 0 < field_count ?fs then variant_pattern ?fs (pattern_names ?fs) else Path_Pat),
      arm_format = variant_ident v, arm_args = []\<rparr>"
  have "enum_arm m v = Inr ?a"
    using None by (simp add: enum_arm_def Let_def field_patterns_ok [OF assms(2)])
  moreover have "arm_display ?a ?fs vals = Text (variant_text v vals)" for vals
    using arm_binds_ok [of ?fs vals] assms(3) None
    by (simp add: arm_display_def variant_ok_def variant_text_def eval_write_def is_ident_def write_fmt_word)
  ultimately show ?thesis using that [of ?a] by simp
next
  case (Some s)
  let ?fs = "variant_fields v"
  have ok: "list_all plain_piece (pieces FieldRegex s)" "list_all (resolves ?fs) (hole_names (pieces FieldRegex s))"
    "list_all is_ident (field_names ?fs)"
    using assms(3) Some by (auto simp: variant_ok_def format_ok_def)
  let ?a = "\<lparr>arm_ident = variant_ident v,
      arm_pat = (if 0 < field_count ?fs then variant_pattern ?fs (pattern_names ?fs) else Path_Pat),
      arm_format = unparse (map (blanked FieldRegex) (pieces FieldRegex s)),
      arm_args = map (Local_Var \<circ> arg_for ?fs) (hole_names (pieces FieldRegex s))\<rparr>"
  have "enum_arm m v = Inr ?a"
    using Some no_fields_no_holes [OF _ ok(2)]
    by (auto simp: enum_arm_def Let_def field_patterns_ok [OF assms(2)] captures_ok [OF assms(1) ok(1)]
        ordered_field_patterns_ok [OF assms(2) ok(3,2)] modified_format_ok [OF assms(1) ok(1)])
  with that [of ?a] arm_display_ok [OF refl assms(3) Some _ refl] show ?thesis by simp
qed

lemma all_res_all2:
  "\<forall>x \<in> set xs. \<exists>y. f x = Inr y \<and> P x y \<Longrightarrow> \<exists>ys. all_res f xs = Inr ys \<and> list_all2 P xs ys"
  by (induction xs) auto

lemma find_by_key:
  assumes "list_all2 P vs as" "\<And>v a. P v a \<Longrightarrow> ident a = key v" "distinct (map key vs)" "v \<in> set vs"
  shows "\<exists>a. find (\<lambda>a. ident a = key v) as = Some a \<and> P v a"
  using assms(1,3,4)
proof (induction rule: list_all2_induct)
  case (Cons w ws b bs)
  then have "ident b = key w" using assms(2) by simp
  with Cons show ?case by (cases "v = w") auto
qed simp

definition arm_for :: "variant \<Rightarrow> match_arm \<Rightarrow> bool" where
  "arm_for v a \<longleftrightarrow> arm_ident a = variant_ident v \<and> (\<forall>vals. length vals = field_count (variant_fields v)
     \<longrightarrow> arm_display a (variant_fields v) vals = Text (variant_text v vals))"

lemma arms_check:
  "list_all2 arm_for vs arms \<Longrightarrow> find (\<lambda>x. \<not> is_text x) (map2 (\<lambda>a w. arm_check a (variant_fields w)) arms vs) = None"
  by (induction rule: list_all2_induct) (auto simp: arm_for_def arm_check_def)

lemma enum_derives:
  assumes "regex_crate m" "syn_crate m" and "list_all variant_ok vs" "distinct (map variant_ident vs)"
    and "v \<in> set vs" "length vals = field_count (variant_fields v)"
  shows "\<exists>arms. derive_unrecoverable_error m \<lparr>input_ident = name, input_attrs = attrs, input_data = Enum_Data vs\<rparr>
      = Inr (Match_Self arms) \<and> enum_display arms vs v vals = Text (variant_text v vals)"
proof -
  have "\<exists>a. enum_arm m w = Inr a \<and> arm_for w a" if "w \<in> set vs" for w
    using enum_arm_ok [OF assms(1,2), of w] assms(3) that by (metis arm_for_def list_all_iff)
  then obtain arms where arms: "all_res (enum_arm m) vs = Inr arms" "list_all2 arm_for vs arms"
    using all_res_all2 [of vs "enum_arm m" arm_for] by auto
  obtain a where "find (\<lambda>a. arm_ident a = variant_ident v) arms = Some a" "arm_for v a"
    using find_by_key [OF arms(2) _ assms(4,5), of arm_ident] by (auto simp: arm_for_def)
  with arms assms(6) show ?thesis
    by (simp add: derive_unrecoverable_error_def enum_display_def arms_check arm_for_def)
qed

section \<open>The error types of the kernel\<close>

text \<open>
  The declarations of \<open>kernel/exception.rs\<close>, and crates that behave as documented, for concrete runs.
\<close>

definition with_format :: "string \<Rightarrow> string \<Rightarrow> fields \<Rightarrow> variant" where
  "with_format n s fs = \<lparr>variant_ident = n,
     variant_attrs = [\<lparr>attr_path = ''unrecoverable_error'', attr_lit = Some s\<rparr>], variant_fields = fs\<rparr>"

definition rtos_error_variants :: "variant list" where
  "rtos_error_variants =
     [with_format ''Kernel'' ''Kernel error: {0}'' (Unnamed_Fields 1),
      with_format ''Hardware'' ''Hardware error: {0}'' (Unnamed_Fields 1),
      with_format ''RuntimeError'' ''Runtime error: {0}'' (Unnamed_Fields 1),
      with_format ''Panic'' ''Panic: {0}'' (Unnamed_Fields 1)]"

definition kernel_error_variants :: "variant list" where
  "kernel_error_variants =
     [with_format ''StackOverflow'' ''Stack overflow in thread {thread_name} with stack size {stack_size}''
        (Named_Fields [''thread_name'', ''stack_size''])]"

definition documented_crates :: macro_env where
  "documented_crates = \<lparr>captures = (\<lambda>r s. hole_names (pieces r s)), replace_all = (\<lambda>r s t. fill_holes t (pieces r s)),
     ident_new = (\<lambda>n. if is_ident n then Some n else None)\<rparr>"

lemma documented_crates_ok: "regex_crate documented_crates" "syn_crate documented_crates"
  by (auto simp: regex_crate_def syn_crate_def documented_crates_def is_ident_def)

lemmas char_eval = match_hole_def is_word_def is_digit_def ascii_def

lemmas format_eval = char_eval is_ident_def from_str_radix_def digits_value_def resolves_def custom_format_def

lemma kernel_errors_ok:
  "list_all variant_ok kernel_error_variants" "distinct (map variant_ident kernel_error_variants)"
  by (simp_all add: kernel_error_variants_def with_format_def variant_ok_def format_ok_def format_eval)

lemma rtos_errors_ok:
  "list_all variant_ok rtos_error_variants" "distinct (map variant_ident rtos_error_variants)"
  by (simp_all add: rtos_error_variants_def with_format_def variant_ok_def format_ok_def format_eval)

section \<open>Properties\<close>

text \<open>
  Claim C30. For an enum whose format strings have no braces but placeholders that resolve to
  fields, the derived \<open>Display\<close> compiles, and for every value it writes the text of its variant's
  format string with each placeholder replaced by the field it names or numbers, or the name of the variant
  where there is no format string.
\<close>

theorem derived_enum_display:
  assumes "regex_crate m" "syn_crate m" and "list_all variant_ok vs" "distinct (map variant_ident vs)"
    and "v \<in> set vs" "length vals = field_count (variant_fields v)"
  shows "\<exists>arms. derive_unrecoverable_error m \<lparr>input_ident = name, input_attrs = attrs, input_data = Enum_Data vs\<rparr>
      = Inr (Match_Self arms) \<and> enum_display arms vs v vals = Text (variant_text v vals)"
  using assms by (rule enum_derives)

theorem derived_enum_display_witness:
  "\<exists>arms. derive_unrecoverable_error documented_crates
      \<lparr>input_ident = ''KernelError'', input_attrs = [], input_data = Enum_Data kernel_error_variants\<rparr> = Inr (Match_Self arms)
    \<and> enum_display arms kernel_error_variants (hd kernel_error_variants)
        [\<lparr>display_text = ''main'', debug_text = []\<rparr>, \<lparr>display_text = ''512'', debug_text = ''512''\<rparr>]
      = Text ''Stack overflow in thread main with stack size 512''"
proof -
  let ?vals = "[\<lparr>display_text = ''main'', debug_text = []\<rparr>, \<lparr>display_text = ''512'', debug_text = ''512''\<rparr>]"
  have "hd kernel_error_variants \<in> set kernel_error_variants"
    "length ?vals = field_count (variant_fields (hd kernel_error_variants))"
    by (simp_all add: kernel_error_variants_def with_format_def)
  moreover have "variant_text (hd kernel_error_variants) ?vals = ''Stack overflow in thread main with stack size 512''"
    by (simp add: kernel_error_variants_def with_format_def variant_text_def named_text_def field_value_def arg_text_def format_eval)
  ultimately show ?thesis
    using derived_enum_display [OF documented_crates_ok kernel_errors_ok(1,2), of "hd kernel_error_variants" ?vals] by auto
qed

text \<open>
  The derived \<open>Display\<close> of a struct with named fields writes the format string with
  each placeholder replaced by the field it names.
\<close>

theorem derived_struct_display:
  assumes "regex_crate m" "syn_crate m" and "custom_format attrs = Some s"
    and "list_all plain_piece (pieces FieldRegex s)" "list_all is_ident ns"
    and "set (hole_names (pieces FieldRegex s)) \<subseteq> set ns" "length vals = length ns"
  shows "\<exists>fmt args. derive_unrecoverable_error m \<lparr>input_ident = name, input_attrs = attrs, input_data = Struct_Data (Named_Fields ns)\<rparr>
      = Inr (Write_Self fmt args)
    \<and> struct_display fmt args (Named_Fields ns) vals = Text (named_text (field_value (Named_Fields ns) vals) s)"
proof -
  let ?hs = "hole_names (pieces FieldRegex s)"
  let ?fmt = "unparse (map (blanked FieldRegex) (pieces FieldRegex s))"
  let ?look = "field_value (Named_Fields ns) vals"
  let ?self = "self_arg (zip ns vals)"
  have hs: "is_ident n" "map_of (zip ns vals) n = ?look n" "?look n \<noteq> None" if "n \<in> set ?hs" for n
  proof -
    show *: "is_ident n" using that assms(5,6) by (auto simp: list_all_iff)
    have "n \<in> set ns" using that assms(6) by blast
    then obtain y where y: "map_of (zip ns vals) n = Some y"
      using map_of_zip_is_Some [of ns vals n] assms(7) by metis
    have look: "?look n = map_of (zip ns vals) n"
      using ident_not_number [OF *] by (simp add: field_value_def)
    show "map_of (zip ns vals) n = ?look n" by (rule look [symmetric])
    show "?look n \<noteq> None" by (simp add: look y)
  qed
  have "all_res (new_ident m) ?hs = Inr (map id ?hs)"
    by (rule all_res_Inr) (use hs(1) assms(2) in simp)
  then have "derive_struct m name attrs = Inr (Write_Self ?fmt (map Self_Field ?hs))"
    using assms(3) by (simp add: derive_struct_def captures_ok [OF assms(1,4)] modified_format_ok [OF assms(1,4)])
  moreover have "eval_write ?fmt ?self (map Self_Field ?hs) = Text (named_text ?look s)"
  proof -
    have "eval_write ?fmt ?self (map Self_Field ?hs) = write_fmt ?fmt (map (the \<circ> ?self) (map Self_Field ?hs))"
      by (rule eval_write_ok) (use hs in auto)
    also have "map (the \<circ> ?self) (map Self_Field ?hs) = map (the \<circ> ?look) ?hs"
      using hs by simp
    also have "write_fmt ?fmt \<dots> = Text (named_text ?look s)"
      by (rule write_named [OF assms(4)]) (use hs(3) in blast)
    finally show ?thesis .
  qed
  ultimately show ?thesis
    by (simp add: derive_unrecoverable_error_def struct_display_def)
qed

theorem derived_struct_display_witness:
  "\<exists>fmt args. derive_unrecoverable_error documented_crates
      \<lparr>input_ident = ''RISCFault'', input_attrs = [\<lparr>attr_path = ''unrecoverable_error'', attr_lit = Some ''RISCV fault: {kind:?} mtval = {mtval}''\<rparr>],
        input_data = Struct_Data (Named_Fields [''kind'', ''mtval'', ''frame''])\<rparr> = Inr (Write_Self fmt args)
    \<and> struct_display fmt args (Named_Fields [''kind'', ''mtval'', ''frame''])
        [\<lparr>display_text = [], debug_text = ''Breakpoint''\<rparr>, \<lparr>display_text = ''4'', debug_text = ''4''\<rparr>, \<lparr>display_text = [], debug_text = ''0x20001000''\<rparr>]
      = Text ''RISCV fault: Breakpoint mtval = 4''"
proof -
  let ?attrs = "[\<lparr>attr_path = ''unrecoverable_error'', attr_lit = Some ''RISCV fault: {kind:?} mtval = {mtval}''\<rparr>]"
  let ?vals = "[\<lparr>display_text = [], debug_text = ''Breakpoint''\<rparr>, \<lparr>display_text = ''4'', debug_text = ''4''\<rparr>, \<lparr>display_text = [], debug_text = ''0x20001000''\<rparr>]"
  have "custom_format ?attrs = Some ''RISCV fault: {kind:?} mtval = {mtval}''"
    by (simp add: custom_format_def)
  moreover have "list_all plain_piece (pieces FieldRegex ''RISCV fault: {kind:?} mtval = {mtval}'')" by (simp add: format_eval named_text_def field_value_def arg_text_def)
  moreover have "list_all is_ident [''kind'', ''mtval'', ''frame'']" by (simp add: format_eval named_text_def field_value_def arg_text_def)
  moreover have "hole_names (pieces FieldRegex ''RISCV fault: {kind:?} mtval = {mtval}'') = [''kind'', ''mtval'']" by (simp add: format_eval named_text_def field_value_def arg_text_def)
  moreover have "named_text (field_value (Named_Fields [''kind'', ''mtval'', ''frame'']) ?vals) ''RISCV fault: {kind:?} mtval = {mtval}''
      = ''RISCV fault: Breakpoint mtval = 4''" by (simp add: format_eval named_text_def field_value_def arg_text_def)
  ultimately show ?thesis
    using derived_struct_display [OF documented_crates_ok, of ?attrs "''RISCV fault: {kind:?} mtval = {mtval}''" "[''kind'', ''mtval'', ''frame'']" ?vals "''RISCFault''"] by simp
qed

lemma hole_in_pieces: "n \<in> set (hole_names ps) \<Longrightarrow> \<exists>d. Hole n d \<in> set ps"
  by (auto simp: hole_names_def split: piece.splits)

text \<open>
  The struct form of the macro turns every placeholder into an identifier, so the format string of a tuple
  struct, which has to number its fields, makes the macro panic, where the enum form takes the field.
\<close>

theorem numbered_struct_field_panics:
  assumes "regex_crate m" "syn_crate m" and "custom_format attrs = Some s"
    and "list_all plain_piece (pieces FieldRegex s)" and "hole_names (pieces FieldRegex s) = n # ns" "is_digit (hd n)"
  shows "derive_unrecoverable_error m \<lparr>input_ident = name, input_attrs = attrs, input_data = Struct_Data fs\<rparr>
    = Inl (Panic ''invalid identifier'')"
proof -
  have "n \<noteq> []" using assms(5) hole_in_pieces [of n "pieces FieldRegex s"] pieces_named by auto
  with assms show ?thesis
    by (simp add: derive_unrecoverable_error_def derive_struct_def captures_ok new_ident_def syn_crate_def)
qed

theorem numbered_struct_field_panics_witness:
  "derive_unrecoverable_error documented_crates \<lparr>input_ident = ''E'',
      input_attrs = [\<lparr>attr_path = ''unrecoverable_error'', attr_lit = Some ''code {0}''\<rparr>], input_data = Struct_Data (Unnamed_Fields 1)\<rparr>
    = Inl (Panic ''invalid identifier'')"
proof -
  have "list_all plain_piece (pieces FieldRegex ''code {0}'')" by (simp add: format_eval)
  moreover have "hole_names (pieces FieldRegex ''code {0}'') = [''0'']" by (simp add: format_eval)
  moreover have "is_digit (hd ''0'')" by (simp add: format_eval)
  ultimately show ?thesis
    using numbered_struct_field_panics [OF documented_crates_ok, of "[\<lparr>attr_path = ''unrecoverable_error'', attr_lit = Some ''code {0}''\<rparr>]"
        "''code {0}''" "''0''" "[]" "''E''" "Unnamed_Fields 1"]
    by (simp add: custom_format_def)
qed

text \<open>
  Escaped braces cannot be used: the macro takes the name between doubled braces for a
  placeholder as well, and the argument it passes for it is then left over, so the implementation does not compile.
\<close>

lemma pieces_text: "list_all (\<lambda>c. c \<noteq> CHR ''{'') w \<Longrightarrow> pieces r (w @ s) = map Lit w @ pieces r s"
  by (induction w) auto

lemma hole_names_text: "hole_names (map Lit w @ ps) = hole_names ps"
  by (induction w) auto

lemma fill_holes_text: "fill_holes t (map Lit w @ ps) = w @ fill_holes t ps"
  by (induction w) auto

lemma write_fmt_text:
  "list_all (\<lambda>c. c \<noteq> CHR ''{'' \<and> c \<noteq> CHR ''}'') w \<Longrightarrow> write_fmt (w @ s) vs = prepend w (write_fmt s vs)"
proof (induction w)
  case Nil
  show ?case by (cases "write_fmt s vs") simp_all
next
  case (Cons c w)
  then show ?case by (cases "write_fmt s vs") simp_all
qed

theorem escaped_braces_rejected:
  assumes "regex_crate m" "syn_crate m" and "custom_format attrs = Some (u @ ''{{'' @ n @ ''}}'' @ w)"
    and "list_all (\<lambda>c. plain_piece (Lit c)) (u @ w)" and "is_ident n" "n \<in> set ns" "length vals = length ns"
  shows "\<exists>fmt args. derive_unrecoverable_error m \<lparr>input_ident = name, input_attrs = attrs, input_data = Struct_Data (Named_Fields ns)\<rparr>
      = Inr (Write_Self fmt args) \<and> struct_display fmt args (Named_Fields ns) vals = Rejected"
proof -
  let ?s = "u @ ''{{'' @ n @ ''}}'' @ w"
  have chars: "list_all (\<lambda>c. c \<noteq> CHR ''{'') u" "list_all (\<lambda>c. c \<noteq> CHR ''{'') w" "list_all is_word n" "n \<noteq> []"
    using assms(4,5) by (auto simp: list_all_iff is_ident_def)
  have w: "pieces r w = map Lit w" for r
    using pieces_text [OF chars(2), of r "[]"] by simp
  have none: "match_hole (CHR ''{'' # x) = None" "match_hole (CHR ''}'' # x) = None" for x
    by (simp_all add: match_hole_def)
  have plain: "pieces r ?s = map Lit u @ Lit CHR ''{'' # Hole n False # Lit CHR ''}'' # map Lit w" if "accepts r False" for r
    using that chars w by (simp add: pieces_text none)
  have ascii: "list_all ascii ?s" "list_all ascii (u @ ''{{}}'' @ w)"
    using assms(4) chars(3) by (auto simp: list_all_iff intro: word_ascii)
  have blank: "pieces DebugRegex (u @ ''{{}}'' @ w) = map Lit (u @ ''{{}}'' @ w)"
    using chars w by (simp add: pieces_text none)
  have names: "hole_names (pieces FieldRegex ?s) = [n]"
    using plain [of FieldRegex] hole_names_text [of w "[]"] by (simp add: hole_names_text)
  have "fill_holes ''{}'' (pieces PlainRegex ?s) = u @ ''{{}}'' @ w"
    using plain [of PlainRegex] fill_holes_text [of _ w "[]"] by (simp add: fill_holes_text)
  then have "modified_format m ?s = u @ ''{{}}'' @ w"
    using assms(1) ascii blank fill_holes_text [of _ "u @ ''{{}}'' @ w" "[]"]
    by (simp add: modified_format_def regex_crate_def)
  then have "derive_struct m name attrs = Inr (Write_Self (u @ ''{{}}'' @ w) [Self_Field n])"
    using assms(1-3,5) names ascii by (simp add: derive_struct_def regex_crate_def)
  moreover obtain y where y: "map_of (zip ns vals) n = Some y"
    using map_of_zip_is_Some [of ns vals n] assms(6,7) by metis
  have "write_fmt (u @ ''{{}}'' @ w) [y] = Rejected"
  proof -
    have brace: "list_all (\<lambda>c. c \<noteq> CHR ''{'' \<and> c \<noteq> CHR ''}'') u" "list_all (\<lambda>c. c \<noteq> CHR ''{'' \<and> c \<noteq> CHR ''}'') w"
      using assms(4) by (auto simp: list_all_iff)
    from write_fmt_text [OF brace(2), of "[]" "[y]"] show ?thesis
      by (simp add: write_fmt_text [OF brace(1)])
  qed
  then have "struct_display (u @ ''{{}}'' @ w) [Self_Field n] (Named_Fields ns) vals = Rejected"
    using y by (simp add: struct_display_def eval_write_def)
  ultimately show ?thesis
    by (simp add: derive_unrecoverable_error_def)
qed

theorem escaped_braces_rejected_witness:
  "\<exists>fmt args. derive_unrecoverable_error documented_crates \<lparr>input_ident = ''E'',
      input_attrs = [\<lparr>attr_path = ''unrecoverable_error'', attr_lit = Some ''use {{x}}''\<rparr>], input_data = Struct_Data (Named_Fields [''x''])\<rparr>
      = Inr (Write_Self fmt args)
    \<and> struct_display fmt args (Named_Fields [''x'']) [\<lparr>display_text = ''1'', debug_text = ''1''\<rparr>] = Rejected"
proof -
  have "list_all (\<lambda>c. plain_piece (Lit c)) (''use '' @ [])" by (simp add: format_eval)
  moreover have "is_ident ''x''" by (simp add: format_eval)
  ultimately show ?thesis
    using escaped_braces_rejected [OF documented_crates_ok, of "[\<lparr>attr_path = ''unrecoverable_error'', attr_lit = Some ''use {{x}}''\<rparr>]"
        "''use ''" "''x''" "[]" "[''x'']" "[\<lparr>display_text = ''1'', debug_text = ''1''\<rparr>]" "''E''"]
    by (simp add: custom_format_def)
qed

end
