(* ===== verification/Error_Reports.thy ===== *)
theory Error_Reports
  imports Error_Macros
begin

text \<open>
  How an error of the kernel reaches the hardware layer (\<open>kernel/exception.rs\<close>, \<open>unrecoverable-error\<close>): the
  error types, whose \<open>Display\<close> is derived, the handlers that wrap an error in \<open>RtosError\<close>, and the text that
  \<open>hal::error\<close> is given to print. The crates of the derive macro are a parameter, as is the text of
  \<open>Debug\<close>, which the standard library derives.
\<close>

section \<open>Error types\<close>

definition unit_variant :: "string \<Rightarrow> variant" where
  "unit_variant n = \<lparr>variant_ident = n, variant_attrs = [], variant_fields = Unit_Fields\<rparr>"

primrec runtime_error_ident :: "runtime_error \<Rightarrow> string" where
  "runtime_error_ident IdleTaskSuspend = ''IdleTaskSuspend''"
| "runtime_error_ident CeilingPriorityViolation = ''CeilingPriorityViolation''"
| "runtime_error_ident LockOwnerViolation = ''LockOwnerViolation''"
| "runtime_error_ident TaskTerminated = ''TaskTerminated''"
| "runtime_error_ident RecursiveLock = ''RecursiveLock''"
| "runtime_error_ident InterruptHandlerViolation = ''InterruptHandlerViolation''"
| "runtime_error_ident BlockingForbidden = ''BlockingForbidden''"
| "runtime_error_ident IdleThreadCeilingLock = ''IdleThreadCeilingLock''"

definition runtime_error_variants :: "variant list" where
  "runtime_error_variants = map (unit_variant \<circ> runtime_error_ident)
     [IdleTaskSuspend, CeilingPriorityViolation, LockOwnerViolation, TaskTerminated, RecursiveLock,
      InterruptHandlerViolation, BlockingForbidden, IdleThreadCeilingLock]"

primrec queue_error_ident :: "atomic_queue_error \<Rightarrow> string" where
  "queue_error_ident ItemAlreadyInQueue = ''ItemAlreadyInQueue''"
| "queue_error_ident ItemNotInQueue = ''ItemNotInQueue''"

definition queue_error_variants :: "variant list" where
  "queue_error_variants = map (unit_variant \<circ> queue_error_ident) [ItemAlreadyInQueue, ItemNotInQueue]"

text \<open>The \<open>Display\<close> of a value of an enum for which the trait is derived.\<close>

definition derived_display :: "macro_env \<Rightarrow> string \<Rightarrow> variant list \<Rightarrow> variant \<Rightarrow> field_text list \<Rightarrow> fmt_result" where
  "derived_display m name vs v vals =
     (case derive_unrecoverable_error m \<lparr>input_ident = name, input_attrs = [], input_data = Enum_Data vs\<rparr> of
        Inr (Match_Self arms) \<Rightarrow> enum_display arms vs v vals
      | _ \<Rightarrow> Rejected)"

definition runtime_error_display :: "macro_env \<Rightarrow> runtime_error \<Rightarrow> fmt_result" where
  "runtime_error_display m e = derived_display m ''RuntimeError'' runtime_error_variants (unit_variant (runtime_error_ident e)) []"

definition queue_error_display :: "macro_env \<Rightarrow> atomic_queue_error \<Rightarrow> fmt_result" where
  "queue_error_display m e = derived_display m ''AtomicQueueError'' queue_error_variants (unit_variant (queue_error_ident e)) []"

text \<open>The name of a thread is a string slice and its stack size a number, both written as they are by \<open>Display\<close>.\<close>

primrec kernel_error_display :: "macro_env \<Rightarrow> (string \<Rightarrow> string) \<Rightarrow> kernel_error \<Rightarrow> fmt_result" where
  "kernel_error_display m dbg (StackOverflow thread_name stack_size) =
     derived_display m ''KernelError'' kernel_error_variants (hd kernel_error_variants)
       [\<lparr>display_text = thread_name, debug_text = dbg thread_name\<rparr>,
        \<lparr>display_text = show_nat stack_size, debug_text = show_nat stack_size\<rparr>]"

section \<open>The handlers\<close>

text \<open>\<open>RtosError\<close> has the error it wraps as its only field; a fault is known by its text.\<close>

datatype rtos_error = RtosKernel fmt_result | RtosHardware fmt_result | RtosRuntimeError fmt_result | RtosPanic fmt_result

primrec rtos_variant :: "rtos_error \<Rightarrow> variant \<times> fmt_result" where
  "rtos_variant (RtosKernel x) = (rtos_error_variants ! 0, x)"
| "rtos_variant (RtosHardware x) = (rtos_error_variants ! 1, x)"
| "rtos_variant (RtosRuntimeError x) = (rtos_error_variants ! 2, x)"
| "rtos_variant (RtosPanic x) = (rtos_error_variants ! 3, x)"

text \<open>\<open>hal::error\<close> prints the error it is given; the result here is the text it prints.\<close>

definition handle_rtos_error :: "macro_env \<Rightarrow> string \<Rightarrow> rtos_error \<Rightarrow> fmt_result" where
  "handle_rtos_error m dbg e =
     (case rtos_variant e of
        (v, Text t) \<Rightarrow> derived_display m ''RtosError'' rtos_error_variants v [\<lparr>display_text = t, debug_text = dbg\<rparr>]
      | (v, r) \<Rightarrow> r)"

definition handle_runtime_error :: "macro_env \<Rightarrow> string \<Rightarrow> fmt_result \<Rightarrow> fmt_result" where
  "handle_runtime_error m dbg err = handle_rtos_error m dbg (RtosRuntimeError err)"

definition handle_kernel_error :: "macro_env \<Rightarrow> string \<Rightarrow> fmt_result \<Rightarrow> fmt_result" where
  "handle_kernel_error m dbg err = handle_rtos_error m dbg (RtosKernel err)"

definition private_hardware_exception_handler :: "macro_env \<Rightarrow> string \<Rightarrow> fmt_result \<Rightarrow> fmt_result" where
  "private_hardware_exception_handler m dbg err = handle_rtos_error m dbg (RtosHardware err)"

text \<open>
  \<open>unrecoverable_error!\<close> calls the handler that the program links: the one of the crate, which panics with
  the location, unless one is marked \<open>#[unrecoverable_error_handler]\<close>, as the kernel's is.
\<close>

record error_info =
  info_error :: fmt_result
  info_location :: "string option"

definition default_error_handler :: "error_info \<Rightarrow> fmt_result" where
  "default_error_handler info =
     (case info_location info of
        Some loc \<Rightarrow> prepend (''Unrecoverable error at '' @ loc @ '': '') (info_error info)
      | None \<Rightarrow> prepend ''Unrecoverable error: '' (info_error info))"

definition kernel_unrecoverable_error_handler :: "macro_env \<Rightarrow> string \<Rightarrow> error_info \<Rightarrow> fmt_result" where
  "kernel_unrecoverable_error_handler m dbg info = handle_rtos_error m dbg (RtosRuntimeError (info_error info))"

definition raise_unrecoverable_error :: "(error_info \<Rightarrow> fmt_result) option \<Rightarrow> string \<Rightarrow> fmt_result \<Rightarrow> fmt_result" where
  "raise_unrecoverable_error linked caller_location err =
     (let info = \<lparr>info_error = err, info_location = Some caller_location\<rparr> in
      case linked of Some handler \<Rightarrow> handler info | None \<Rightarrow> default_error_handler info)"

section \<open>The derived texts\<close>

lemma derived_display_ok:
  assumes "regex_crate m" "syn_crate m" "list_all variant_ok vs" "distinct (map variant_ident vs)"
    and "v \<in> set vs" "length vals = field_count (variant_fields v)"
  shows "derived_display m name vs v vals = Text (variant_text v vals)"
  using enum_derives [OF assms, of name "[]"] by (auto simp: derived_display_def)

lemma unit_variant_fields [simp]:
  "variant_fields (unit_variant n) = Unit_Fields" "variant_ident (unit_variant n) = n"
  by (simp_all add: unit_variant_def)

lemma unit_variant_ok: "variant_ok (unit_variant n) = is_ident n"
  by (simp add: unit_variant_def variant_ok_def custom_format_def)

lemma unit_variant_text: "variant_text (unit_variant n) [] = n"
  by (simp add: unit_variant_def variant_text_def custom_format_def)

lemma unit_variants_display:
  assumes "regex_crate m" "syn_crate m" "list_all is_ident ns" "distinct ns" "n \<in> set ns"
  shows "derived_display m name (map unit_variant ns) (unit_variant n) [] = Text n"
proof -
  have "list_all variant_ok (map unit_variant ns)" "distinct (map variant_ident (map unit_variant ns))"
    using assms(3,4) by (simp_all add: list_all_iff unit_variant_ok comp_def)
  from derived_display_ok [OF assms(1,2) this, of "unit_variant n" "[]" name] assms(5) show ?thesis
    by (simp add: unit_variant_text)
qed

lemma rtos_display:
  assumes "regex_crate m" "syn_crate m"
  shows "handle_rtos_error m dbg (RtosKernel (Text t)) = Text (''Kernel error: '' @ t)"
    and "handle_rtos_error m dbg (RtosHardware (Text t)) = Text (''Hardware error: '' @ t)"
    and "handle_rtos_error m dbg (RtosRuntimeError (Text t)) = Text (''Runtime error: '' @ t)"
    and "handle_rtos_error m dbg (RtosPanic (Text t)) = Text (''Panic: '' @ t)"
proof -
  have *: "handle_rtos_error m dbg e = Text (variant_text v [\<lparr>display_text = t, debug_text = dbg\<rparr>])"
    if "rtos_variant e = (v, Text t)" "v \<in> set rtos_error_variants" for e v
  proof -
    have "field_count (variant_fields v) = length [\<lparr>display_text = t, debug_text = dbg\<rparr>]"
      using that(2) by (auto simp: rtos_error_variants_def with_format_def)
    from derived_display_ok [OF assms rtos_errors_ok that(2) this [symmetric], of "''RtosError''"] that(1)
    show ?thesis by (simp add: handle_rtos_error_def)
  qed
  have "variant_text (rtos_error_variants ! i) [\<lparr>display_text = t, debug_text = dbg\<rparr>]
      = [''Kernel error: '', ''Hardware error: '', ''Runtime error: '', ''Panic: ''] ! i @ t" if "i \<in> {0, 1, 2, 3}" for i
    using that by (auto simp: rtos_error_variants_def with_format_def variant_text_def named_text_def field_value_def arg_text_def format_eval)
  note texts = this [of 0] this [of 1] this [of 2] this [of 3]
  have "rtos_error_variants ! i \<in> set rtos_error_variants" if "i < 4" for i
    using that by (intro nth_mem) (simp add: rtos_error_variants_def)
  note mem = this [of 0] this [of 1] this [of 2] this [of 3]
  show "handle_rtos_error m dbg (RtosKernel (Text t)) = Text (''Kernel error: '' @ t)"
    using * [of "RtosKernel (Text t)"] texts(1) mem(1) by simp
  show "handle_rtos_error m dbg (RtosHardware (Text t)) = Text (''Hardware error: '' @ t)"
    using * [of "RtosHardware (Text t)"] texts(2) mem(2) by simp
  show "handle_rtos_error m dbg (RtosRuntimeError (Text t)) = Text (''Runtime error: '' @ t)"
    using * [of "RtosRuntimeError (Text t)"] texts(3) mem(3) by simp
  show "handle_rtos_error m dbg (RtosPanic (Text t)) = Text (''Panic: '' @ t)"
    using * [of "RtosPanic (Text t)"] texts(4) mem(4) by simp
qed

lemma runtime_error_text:
  assumes "regex_crate m" "syn_crate m"
  shows "runtime_error_display m e = Text (runtime_error_ident e)"
proof -
  let ?ns = "map runtime_error_ident [IdleTaskSuspend, CeilingPriorityViolation, LockOwnerViolation, TaskTerminated,
    RecursiveLock, InterruptHandlerViolation, BlockingForbidden, IdleThreadCeilingLock]"
  have "list_all is_ident ?ns" "distinct ?ns" by (simp_all add: is_ident_def char_eval)
  moreover have "runtime_error_ident e \<in> set ?ns" by (cases e) simp_all
  ultimately show ?thesis
    using unit_variants_display [OF assms, of ?ns "runtime_error_ident e"]
    by (simp add: runtime_error_display_def runtime_error_variants_def)
qed

lemma queue_error_text:
  assumes "regex_crate m" "syn_crate m"
  shows "queue_error_display m e = Text (queue_error_ident e)"
proof -
  let ?ns = "map queue_error_ident [ItemAlreadyInQueue, ItemNotInQueue]"
  have "list_all is_ident ?ns" "distinct ?ns" by (simp_all add: is_ident_def char_eval)
  moreover have "queue_error_ident e \<in> set ?ns" by (cases e) simp_all
  ultimately show ?thesis
    using unit_variants_display [OF assms, of ?ns "queue_error_ident e"]
    by (simp add: queue_error_display_def queue_error_variants_def)
qed

lemma kernel_error_text:
  assumes "regex_crate m" "syn_crate m"
  shows "kernel_error_display m dbg (StackOverflow n k)
    = Text (''Stack overflow in thread '' @ n @ '' with stack size '' @ show_nat k)"
proof -
  let ?vals = "[\<lparr>display_text = n, debug_text = dbg n\<rparr>, \<lparr>display_text = show_nat k, debug_text = show_nat k\<rparr>]"
  have "hd kernel_error_variants \<in> set kernel_error_variants" "length ?vals = field_count (variant_fields (hd kernel_error_variants))"
    by (simp_all add: kernel_error_variants_def with_format_def)
  note * = derived_display_ok [OF assms kernel_errors_ok this, of "''KernelError''"]
  have "variant_text (hd kernel_error_variants) ?vals = ''Stack overflow in thread '' @ n @ '' with stack size '' @ show_nat k"
    by (simp add: kernel_error_variants_def with_format_def variant_text_def named_text_def field_value_def arg_text_def format_eval)
  with * show ?thesis by simp
qed

section \<open>Properties\<close>

text \<open>
  Claim C31. Every error of the kernel is reported under its own name: the kernel's
  handlers give \<open>hal::error\<close> the derived text of the error behind the kind of error that wraps it, and an
  error raised with \<open>unrecoverable_error!\<close> is reported as a runtime error by the kernel's handler, without the location, which
  the default handler prints.
\<close>

theorem errors_reported:
  assumes "regex_crate m" "syn_crate m"
  shows "handle_kernel_error m dbg (kernel_error_display m sdbg (StackOverflow n k))
      = Text (''Kernel error: Stack overflow in thread '' @ n @ '' with stack size '' @ show_nat k)
    \<and> handle_runtime_error m dbg (runtime_error_display m re) = Text (''Runtime error: '' @ runtime_error_ident re)
    \<and> raise_unrecoverable_error (Some (kernel_unrecoverable_error_handler m dbg)) loc (queue_error_display m qe)
      = Text (''Runtime error: '' @ queue_error_ident qe)
    \<and> raise_unrecoverable_error None loc (queue_error_display m qe)
      = Text (''Unrecoverable error at '' @ loc @ '': '' @ queue_error_ident qe)"
  using rtos_display [OF assms] runtime_error_text [OF assms] queue_error_text [OF assms] kernel_error_text [OF assms]
  by (simp add: handle_kernel_error_def handle_runtime_error_def raise_unrecoverable_error_def
      kernel_unrecoverable_error_handler_def default_error_handler_def Let_def)

theorem errors_reported_witness:
  "handle_runtime_error documented_crates [] (runtime_error_display documented_crates RecursiveLock) = Text ''Runtime error: RecursiveLock''"
  using errors_reported [OF documented_crates_ok] by simp

end
