(* ===== verification/Scars_Macros.thy ===== *)
theory Scars_Macros
  imports Prelude
begin

text \<open>
  The attribute macros of \<open>scars-macros\<close>: \<open>#[thread]\<close>, \<open>#[interrupt_handler]\<close>, \<open>#[task]\<close> and
  \<open>#[entry]\<close>, and the macros that mark the hooks of the kernel. A macro is a function from a parsed
  function to the items it generates, or to the message of a compile error. Tokens that a macro only
  copies (types, visibilities, bodies) are strings. What \<open>darling\<close> makes of the arguments of the
  attribute, an error or a record, is a parameter.
\<close>

section \<open>Functions as the macros parse them\<close>

datatype fn_pat = Ident_Pat bool string | Other_Pat string

datatype fn_arg = Receiver_Arg | Typed_Arg fn_pat string

datatype return_type = Default_Return | Never_Return | Type_Return string

datatype fn_attr = Outer_Attr string | Inner_Attr string

record signature =
  sig_ident :: string
  asyncness :: bool
  generic_params :: nat
  where_clause :: bool
  abi :: bool
  variadic :: bool
  inputs :: "fn_arg list"
  sig_output :: return_type

record item_fn =
  item_attrs :: "fn_attr list"
  item_vis :: string
  item_sig :: signature
  item_body :: string

text \<open>
  The tokens of a function: its attributes, visibility and signature, the attributes at the head of the
  block, and the rest of the block. Parsing collects both kinds of attributes in one list; only those
  in front of the function are written back.
\<close>

record fn_tokens =
  tok_outer :: "string list"
  tok_vis :: string
  tok_sig :: signature
  tok_inner :: "string list"
  tok_body :: string

definition parse_item :: "fn_tokens \<Rightarrow> item_fn" where
  "parse_item t = \<lparr>item_attrs = map Outer_Attr (tok_outer t) @ map Inner_Attr (tok_inner t),
     item_vis = tok_vis t, item_sig = tok_sig t, item_body = tok_body t\<rparr>"

definition item_to_tokens :: "item_fn \<Rightarrow> fn_tokens" where
  "item_to_tokens item = \<lparr>tok_outer = concat (map (\<lambda>a. case a of Outer_Attr s \<Rightarrow> [s] | Inner_Attr s \<Rightarrow> []) (item_attrs item)),
     tok_vis = item_vis item, tok_sig = item_sig item, tok_inner = [], tok_body = item_body item\<rparr>"

section \<open>Generated items\<close>

datatype expr = Expr string | Lit_Str string | Lit_Int string

datatype static_item =
    Thread_Static expr expr expr
  | Interrupt_Static expr expr
  | Pool_Static expr return_type

text \<open>
  The three macros for threads, interrupt handlers and tasks generate an inner function with the body, and an outer function
  of the given name whose static item is attached to the inner one, through a function \<open>define\<close> that takes the
  arguments of the outer function. Both calls forward \<open>fnarg_names\<close>.
\<close>

record generated =
  inner_ident :: string
  inner_inputs :: "fn_arg list"
  outer_vis :: string
  outer_ident :: string
  outer_inputs :: "fn_arg list"
  forwarded :: "string list"
  static_part :: static_item
  kept_attrs :: "string list"

fun strip_mut :: "fn_arg \<Rightarrow> fn_arg" where
  "strip_mut (Typed_Arg (Ident_Pat m n) t) = Typed_Arg (Ident_Pat False n) t"
| "strip_mut a = a"

fun arg_names :: "fn_arg \<Rightarrow> string list" where
  "arg_names (Typed_Arg (Ident_Pat m n) t) = [n]"
| "arg_names a = []"

definition fnarg_names :: "fn_arg list \<Rightarrow> string list" where
  "fnarg_names args = concat (map arg_names args)"

text \<open>The first check that fails gives the compile error.\<close>

definition first_error :: "(bool \<times> string) list \<Rightarrow> string option" where
  "first_error checks = map_option snd (find fst checks)"

section \<open>Threads\<close>

record thread_args =
  thread_name_arg :: "expr option"
  thread_priority_arg :: expr
  thread_stack_size_arg :: expr

definition thread_check :: "signature \<Rightarrow> string option" where
  "thread_check s = first_error
     [(asyncness s, ''async functions cannot be used as thread functions''),
      (generic_params s > 0, ''generic functions cannot be used as thread functions''),
      (where_clause s, ''where clauses are not supported on thread functions''),
      (abi s, ''abi is not supported on thread functions''),
      (variadic s, ''variadic functions cannot be used as thread functions''),
      (sig_output s \<noteq> Never_Return, ''thread functions must return !'')]"

definition default_name :: "expr option \<Rightarrow> signature \<Rightarrow> expr" where
  "default_name given s = (case given of Some e \<Rightarrow> e | None \<Rightarrow> Lit_Str (sig_ident s))"

definition thread :: "(string + thread_args) \<Rightarrow> item_fn \<Rightarrow> string + generated" where
  "thread parsed item =
     (case parsed of
        Inl e \<Rightarrow> Inl e
      | Inr args \<Rightarrow>
          let s = item_sig item in
          case thread_check s of
            Some e \<Rightarrow> Inl e
          | None \<Rightarrow> Inr \<lparr>inner_ident = ''__'' @ sig_ident s @ ''_thread'', inner_inputs = inputs s,
              outer_vis = item_vis item, outer_ident = sig_ident s, outer_inputs = map strip_mut (inputs s),
              forwarded = fnarg_names (inputs s),
              static_part = Thread_Static (thread_priority_arg args) (thread_stack_size_arg args)
                (default_name (thread_name_arg args) s),
              kept_attrs = []\<rparr>)"

section \<open>The entry point\<close>

record entry_args =
  entry_name_arg :: "expr option"
  entry_priority_arg :: "expr option"
  entry_stack_size_arg :: expr

text \<open>
  The function itself is written back. The main thread is generated as a function \<open>_main_thread\<close> with
  \<open>#[thread]\<close> of its own, whose body is a call, and \<open>_start_main_thread\<close> starts it.
\<close>

primrec expr_tokens :: "expr \<Rightarrow> string" where
  "expr_tokens (Expr s) = s"
| "expr_tokens (Lit_Str s) = CHR 0x22 # s @ [CHR 0x22]"
| "expr_tokens (Lit_Int s) = s"

definition main_thread_item :: "string \<Rightarrow> item_fn" where
  "main_thread_item main_fn_ident = \<lparr>item_attrs = [], item_vis = [],
     item_sig = \<lparr>sig_ident = ''_main_thread'', asyncness = False, generic_params = 0, where_clause = False, abi = False,
       variadic = False, inputs = [], sig_output = Never_Return\<rparr>,
     item_body = main_fn_ident @ ''();''\<rparr>"

record entry_items =
  entry_fn :: fn_tokens
  start_symbol :: string
  main_thread_args :: thread_args
  main_thread :: item_fn

definition entry :: "(string + entry_args) \<Rightarrow> item_fn \<Rightarrow> string + entry_items" where
  "entry parsed item =
     (case parsed of
        Inl e \<Rightarrow> Inl e
      | Inr args \<Rightarrow>
          let priority = (case entry_priority_arg args of Some e \<Rightarrow> e | None \<Rightarrow> Lit_Int ''1'') in
          Inr \<lparr>entry_fn = item_to_tokens item, start_symbol = ''_start_main_thread'',
            main_thread_args = \<lparr>thread_name_arg = Some (default_name (entry_name_arg args) (item_sig item)),
              thread_priority_arg = Expr (''::scars::Priority::thread({'' @ expr_tokens priority @ ''})''),
              thread_stack_size_arg = entry_stack_size_arg args\<rparr>,
            main_thread = main_thread_item (sig_ident (item_sig item))\<rparr>)"

section \<open>Interrupt handlers\<close>

record interrupt_handler_args =
  interrupt_arg :: expr
  interrupt_priority_arg :: expr

definition interrupt_handler_check :: "signature \<Rightarrow> string option" where
  "interrupt_handler_check s = first_error
     [(asyncness s, ''async functions cannot be used as interrupt handlers''),
      (generic_params s > 0, ''generic functions cannot be used as interrupt handlers''),
      (where_clause s, ''where clauses are not supported on interrupt handlers''),
      (abi s, ''abi is not supported on interrupt handlers''),
      (variadic s, ''variadic functions cannot be used as interrupt handlers''),
      (sig_output s \<noteq> Default_Return, ''interrupt handlers must not have a return value'')]"

definition interrupt_handler :: "(string + interrupt_handler_args) \<Rightarrow> item_fn \<Rightarrow> string + generated" where
  "interrupt_handler parsed item =
     (case parsed of
        Inl e \<Rightarrow> Inl e
      | Inr args \<Rightarrow>
          let s = item_sig item in
          case interrupt_handler_check s of
            Some e \<Rightarrow> Inl e
          | None \<Rightarrow> Inr \<lparr>inner_ident = ''__'' @ sig_ident s @ ''_interrupt_handler'', inner_inputs = map strip_mut (inputs s),
              outer_vis = item_vis item, outer_ident = sig_ident s, outer_inputs = map strip_mut (inputs s),
              forwarded = fnarg_names (inputs s),
              static_part = Interrupt_Static (interrupt_priority_arg args) (interrupt_arg args),
              kept_attrs = []\<rparr>)"

section \<open>Tasks\<close>

text \<open>The pool of a task holds futures of its return type.\<close>

definition task_check :: "signature \<Rightarrow> string option" where
  "task_check s = first_error
     [(\<not> asyncness s, ''task functions must be async''),
      (generic_params s > 0, ''generic functions cannot be used as task functions''),
      (where_clause s, ''where clauses are not supported on task functions''),
      (abi s, ''abi is not supported on task functions''),
      (variadic s, ''variadic functions cannot be used as task functions'')]"

definition task_attr :: "(string + expr) \<Rightarrow> item_fn \<Rightarrow> string + generated" where
  "task_attr parsed item =
     (case parsed of
        Inl e \<Rightarrow> Inl e
      | Inr pool_size \<Rightarrow>
          let s = item_sig item in
          case task_check s of
            Some e \<Rightarrow> Inl e
          | None \<Rightarrow> Inr \<lparr>inner_ident = ''__'' @ sig_ident s @ ''_interrupt_handler'', inner_inputs = inputs s,
              outer_vis = item_vis item, outer_ident = sig_ident s, outer_inputs = map strip_mut (inputs s),
              forwarded = fnarg_names (inputs s),
              static_part = Pool_Static pool_size (sig_output s),
              kept_attrs = tok_outer (item_to_tokens item)\<rparr>)"

section \<open>Calling the generated function\<close>

text \<open>
  The outer function binds its arguments, calls \<open>define\<close> with \<open>fnarg_names\<close>, which binds them again
  and calls the inner function with the same names. The result is how the inner function binds its parameters, with the
  mutability of each. A call compiles when the parameters are identifiers (a trait function
  without a body takes no other pattern, a function outside a trait no receiver), are distinct, and as many are forwarded
  as the inner function takes.
\<close>

fun bound_name :: "fn_arg \<Rightarrow> (bool \<times> string) option" where
  "bound_name (Typed_Arg (Ident_Pat m n) t) = Some (m, n)"
| "bound_name a = None"

definition call_with :: "fn_arg list \<Rightarrow> string list \<Rightarrow> 'v list \<Rightarrow> 'v list option" where
  "call_with params names vals =
     (if list_all (\<lambda>a. bound_name a \<noteq> None) params \<and> distinct (fnarg_names params)
         \<and> length vals = length params \<and> list_all (\<lambda>n. n \<in> set (fnarg_names params)) names
      then Some (map (the \<circ> map_of (zip (fnarg_names params) vals)) names) else None)"

definition call_generated :: "generated \<Rightarrow> 'v list \<Rightarrow> ((bool \<times> string) \<times> 'v) list option" where
  "call_generated g vals =
     Option.bind (call_with (outer_inputs g) (forwarded g) vals) (\<lambda>defined.
     Option.bind (call_with (outer_inputs g) (forwarded g) defined) (\<lambda>passed.
     if list_all (\<lambda>a. bound_name a \<noteq> None) (inner_inputs g) \<and> length passed = length (inner_inputs g)
     then Some (zip (map (the \<circ> bound_name) (inner_inputs g)) passed) else None))"

definition plain_params :: "fn_arg list \<Rightarrow> bool" where
  "plain_params args \<longleftrightarrow> list_all (\<lambda>a. bound_name a \<noteq> None) args \<and> distinct (fnarg_names args)"

definition plain_signature :: "signature \<Rightarrow> bool" where
  "plain_signature s \<longleftrightarrow> generic_params s = 0 \<and> \<not> where_clause s \<and> \<not> abi s \<and> \<not> variadic s"

text \<open>The bindings with which the inner function should run, \<open>None\<close> where the parameters are not distinct identifiers.\<close>

definition own_bindings :: "(fn_arg \<Rightarrow> fn_arg) \<Rightarrow> fn_arg list \<Rightarrow> 'v list \<Rightarrow> ((bool \<times> string) \<times> 'v) list option" where
  "own_bindings shown args vals =
     (if plain_params args then Some (zip (map (the \<circ> bound_name \<circ> shown) args) vals) else None)"

section \<open>Parameters and names\<close>

lemma fnarg_names_strip [simp]: "fnarg_names (map strip_mut args) = fnarg_names args"
proof -
  have "arg_names (strip_mut a) = arg_names a" for a by (cases a rule: strip_mut.cases) simp_all
  then show ?thesis by (simp add: fnarg_names_def comp_def)
qed

lemma bound_name_strip: "bound_name (strip_mut a) = map_option (\<lambda>(m, n). (False, n)) (bound_name a)"
  by (cases a rule: strip_mut.cases) simp_all

lemma fnarg_names_plain:
  "list_all (\<lambda>a. bound_name a \<noteq> None) args \<Longrightarrow> fnarg_names args = map (snd \<circ> the \<circ> bound_name) args"
proof (induction args)
  case (Cons a args)
  then show ?case by (cases a rule: bound_name.cases) (simp_all add: fnarg_names_def)
qed (simp add: fnarg_names_def)

lemma plain_params_strip: "plain_params (map strip_mut args) = plain_params args"
  by (auto simp: plain_params_def list_all_iff bound_name_strip)

text \<open>A function called with its own parameter names passes on what it was given.\<close>

lemma call_with_own_names:
  assumes "plain_params params" "length vals = length params"
  shows "call_with params (fnarg_names params) vals = Some vals"
proof -
  have len: "length (fnarg_names params) = length params" and dist: "distinct (fnarg_names params)"
    using assms(1) fnarg_names_plain by (auto simp: plain_params_def)
  have "map (the \<circ> map_of (zip (fnarg_names params) vals)) (fnarg_names params) = vals"
    using dist len assms(2) by (intro nth_equalityI) (simp_all add: map_of_zip_nth)
  then show ?thesis
    using assms by (simp add: call_with_def plain_params_def list_all_iff)
qed

section \<open>The contract of the closure macros\<close>

text \<open>
  What the three macros share: the outer function has the parameters of the given one, as
  identifiers that are not mutable, and forwards their names; \<open>shown\<close> is how the inner function declares each.
\<close>

locale closure_macro =
  fixes expand :: "'a \<Rightarrow> item_fn \<Rightarrow> string + generated" and shown :: "fn_arg \<Rightarrow> fn_arg"
  assumes outer_law: "expand parsed item = Inr g \<Longrightarrow> outer_inputs g = map strip_mut (inputs (item_sig item))"
    and forward_law: "expand parsed item = Inr g \<Longrightarrow> forwarded g = fnarg_names (inputs (item_sig item))"
    and inner_law: "expand parsed item = Inr g \<Longrightarrow> inner_inputs g = map shown (inputs (item_sig item))"
    and shown_law: "bound_name a \<noteq> None \<Longrightarrow> bound_name (shown a) \<noteq> None"
begin

lemma forwards:
  assumes g: "expand parsed item = Inr g" and len: "length vals = length (inputs (item_sig item))"
  shows "call_generated g vals = own_bindings shown (inputs (item_sig item)) vals"
proof (cases "plain_params (inputs (item_sig item))")
  let ?args = "inputs (item_sig item)"
  case True
  then have "call_with (outer_inputs g) (forwarded g) vals = Some vals"
    using call_with_own_names [of "map strip_mut ?args" vals] len
    by (simp add: outer_law [OF g] forward_law [OF g] plain_params_strip)
  moreover have "list_all (\<lambda>a. bound_name a \<noteq> None) (inner_inputs g)"
    using True shown_law by (auto simp: inner_law [OF g] plain_params_def list_all_iff)
  ultimately show ?thesis
    using len True by (simp add: call_generated_def own_bindings_def inner_law [OF g] comp_assoc)
next
  case False
  then have "\<not> plain_params (outer_inputs g)"
    by (simp add: outer_law [OF g] plain_params_strip)
  with False show ?thesis
    by (auto simp: call_generated_def call_with_def plain_params_def own_bindings_def)
qed

end

lemma expanded_laws:
  "thread p item = Inr g \<Longrightarrow> outer_inputs g = map strip_mut (inputs (item_sig item))
     \<and> forwarded g = fnarg_names (inputs (item_sig item)) \<and> inner_inputs g = inputs (item_sig item)"
  "interrupt_handler q item = Inr g \<Longrightarrow> outer_inputs g = map strip_mut (inputs (item_sig item))
     \<and> forwarded g = fnarg_names (inputs (item_sig item)) \<and> inner_inputs g = map strip_mut (inputs (item_sig item))"
  "task_attr r item = Inr g \<Longrightarrow> outer_inputs g = map strip_mut (inputs (item_sig item))
     \<and> forwarded g = fnarg_names (inputs (item_sig item)) \<and> inner_inputs g = inputs (item_sig item)"
  by (auto simp: thread_def interrupt_handler_def task_attr_def Let_def split: sum.splits option.splits)

interpretation thread_macro: closure_macro thread id
  by unfold_locales (auto dest: expanded_laws)

interpretation interrupt_macro: closure_macro interrupt_handler strip_mut
  by unfold_locales (auto dest: expanded_laws simp: bound_name_strip)

interpretation task_macro: closure_macro task_attr id
  by unfold_locales (auto dest: expanded_laws)

section \<open>Properties\<close>

lemma first_error_None: "first_error checks = None \<longleftrightarrow> list_all (\<lambda>c. \<not> fst c) checks"
  by (auto simp: first_error_def find_None_iff list_all_iff)

lemma check_None:
  "thread_check s = None \<longleftrightarrow> plain_signature s \<and> \<not> asyncness s \<and> sig_output s = Never_Return"
  "interrupt_handler_check s = None \<longleftrightarrow> plain_signature s \<and> \<not> asyncness s \<and> sig_output s = Default_Return"
  "task_check s = None \<longleftrightarrow> plain_signature s \<and> asyncness s"
  by (auto simp: thread_check_def interrupt_handler_check_def task_check_def first_error_None plain_signature_def)

lemma accepted_iff:
  "(\<exists>g. thread (Inr a) item = Inr g) \<longleftrightarrow> thread_check (item_sig item) = None"
  "(\<exists>g. interrupt_handler (Inr b) item = Inr g) \<longleftrightarrow> interrupt_handler_check (item_sig item) = None"
  "(\<exists>g. task_attr (Inr c) item = Inr g) \<longleftrightarrow> task_check (item_sig item) = None"
  by (auto simp: thread_def interrupt_handler_def task_attr_def Let_def split: option.splits)


definition example_fn :: item_fn where
  "example_fn = \<lparr>item_attrs = [], item_vis = ''pub'',
     item_sig = \<lparr>sig_ident = ''blink'', asyncness = False, generic_params = 0, where_clause = False, abi = False,
       variadic = False, inputs = [Typed_Arg (Ident_Pat True ''count'') ''u32'', Typed_Arg (Ident_Pat False ''pin'') ''Pin''],
       sig_output = Default_Return\<rparr>,
     item_body = ''count += 1;''\<rparr>"


text \<open>
  A function that a macro writes back is the one it parsed, except that the
  attributes at the head of its block are lost.
\<close>

theorem item_tokens_roundtrip: "item_to_tokens (parse_item t) = t\<lparr>tok_inner := []\<rparr>"
proof -
  have "concat (map (\<lambda>a. case a of Outer_Attr s \<Rightarrow> [s] | Inner_Attr s \<Rightarrow> []) (map Outer_Attr os @ map Inner_Attr is)) = os"
    for os "is"
    by (induction os; induction "is") auto
  then show ?thesis by (simp add: item_to_tokens_def parse_item_def)
qed

text \<open>
  \<open>#[entry]\<close> accepts every function: the thread it generates passes the checks of \<open>#[thread]\<close>, which look at the
  generated \<open>_main_thread\<close> and not at the marked function, its priority is 1 and its name the name of the function
  unless given, and its body is a call of the function whose result is dropped, also when the function is \<open>async\<close> and the call only makes a future.
\<close>

theorem entry_checks_nothing:
  "\<exists>items g. entry (Inr args) item = Inr items \<and> thread (Inr (main_thread_args items)) (main_thread items) = Inr g
    \<and> call_generated g ([] :: nat list) = Some [] \<and> item_body (main_thread items) = sig_ident (item_sig item) @ ''();''
    \<and> static_part g = Thread_Static
        (Expr (''::scars::Priority::thread({'' @ expr_tokens (case entry_priority_arg args of Some e \<Rightarrow> e | None \<Rightarrow> Lit_Int ''1'') @ ''})''))
        (entry_stack_size_arg args) (default_name (entry_name_arg args) (item_sig item))"
proof -
  obtain items where items: "entry (Inr args) item = Inr items" by (simp add: entry_def Let_def)
  then have main: "main_thread items = main_thread_item (sig_ident (item_sig item))"
    and margs: "main_thread_args items = \<lparr>thread_name_arg = Some (default_name (entry_name_arg args) (item_sig item)),
      thread_priority_arg = Expr (''::scars::Priority::thread({'' @ expr_tokens (case entry_priority_arg args of Some e \<Rightarrow> e | None \<Rightarrow> Lit_Int ''1'') @ ''})''),
      thread_stack_size_arg = entry_stack_size_arg args\<rparr>"
    by (auto simp: entry_def Let_def)
  have "thread_check (item_sig (main_thread items)) = None"
    unfolding check_None main by (simp add: main_thread_item_def plain_signature_def)
  then obtain g where g: "thread (Inr (main_thread_args items)) (main_thread items) = Inr g"
    using accepted_iff(1) by blast
  moreover have "call_generated g ([] :: nat list) = Some []"
    using thread_macro.forwards [OF g, of "[]"] by (simp add: main main_thread_item_def own_bindings_def plain_params_def fnarg_names_def)
  ultimately show ?thesis
    using items \<open>thread_check _ = None\<close>
    by (auto simp: thread_def Let_def main margs default_name_def main_thread_item_def)
qed

end
