(* ===== verification/Kernel_Hooks.thy ===== *)
theory Kernel_Hooks
  imports Scars_Macros
begin

text \<open>
  The hooks of the kernel and how the program links them: the macros that export a function of the application
  under the symbol of a hook (\<open>scars-macros\<close>), the symbols that the kernel imports and the defaults
  it exports (\<open>kernel/tracing.rs\<close>, \<open>kernel/idle.rs\<close>), and the assignments of the linker script \<open>scars.x\<close>.
\<close>

section \<open>The macros\<close>

datatype fn_type = Fn_Unit | Fn_Thread_Ref

record hook =
  export_symbol :: string
  hook_attrs :: "fn_attr list"
  hook_vis :: string
  hook_sig :: signature
  type_test :: fn_type
  hook_body :: string

definition expand_hook :: "string \<Rightarrow> fn_type \<Rightarrow> item_fn \<Rightarrow> hook" where
  "expand_hook symbol ty item = \<lparr>export_symbol = symbol, hook_attrs = item_attrs item, hook_vis = item_vis item,
     hook_sig = item_sig item, type_test = ty, hook_body = item_body item\<rparr>"

definition idle_thread_hook :: "item_fn \<Rightarrow> hook" where
  "idle_thread_hook = expand_hook ''_scars_idle_thread_hook'' Fn_Unit"

definition trace_thread_new :: "item_fn \<Rightarrow> hook" where
  "trace_thread_new = expand_hook ''_scars_trace_thread_new'' Fn_Thread_Ref"

definition trace_thread_exec_begin :: "item_fn \<Rightarrow> hook" where
  "trace_thread_exec_begin = expand_hook ''_scars_trace_thread_exec_begin'' Fn_Thread_Ref"

definition trace_thread_exec_end :: "item_fn \<Rightarrow> hook" where
  "trace_thread_exec_end = expand_hook ''_scars_trace_thread_exec_end'' Fn_Thread_Ref"

definition trace_thread_ready_begin :: "item_fn \<Rightarrow> hook" where
  "trace_thread_ready_begin = expand_hook ''_scars_trace_thread_ready_begin'' Fn_Thread_Ref"

definition trace_thread_ready_end :: "item_fn \<Rightarrow> hook" where
  "trace_thread_ready_end = expand_hook ''_scars_trace_thread_ready_end'' Fn_Thread_Ref"

definition trace_system_idle :: "item_fn \<Rightarrow> hook" where
  "trace_system_idle = expand_hook ''_scars_trace_system_idle'' Fn_Unit"

definition trace_isr_enter :: "item_fn \<Rightarrow> hook" where
  "trace_isr_enter = expand_hook ''_scars_trace_isr_enter'' Fn_Unit"

definition trace_isr_exit :: "item_fn \<Rightarrow> hook" where
  "trace_isr_exit = expand_hook ''_scars_trace_isr_exit'' Fn_Unit"

definition trace_isr_exit_to_scheduler :: "item_fn \<Rightarrow> hook" where
  "trace_isr_exit_to_scheduler = expand_hook ''_scars_trace_isr_exit_to_scheduler'' Fn_Unit"

text \<open>
  The generated function compiles when the marked function has the type of the test, and when none of its attributes
  stood at the head of its block: they are written in front of the function, where an inner attribute is
  not allowed.
\<close>

definition hook_compiles :: "hook \<Rightarrow> fn_type \<Rightarrow> bool" where
  "hook_compiles h ty \<longleftrightarrow> type_test h = ty
     \<and> list_all (\<lambda>a. case a of Outer_Attr s \<Rightarrow> True | Inner_Attr s \<Rightarrow> False) (hook_attrs h)"

section \<open>The kernel's side\<close>

text \<open>The calls of the kernel, with the symbol and the type under which each is declared.\<close>

datatype kernel_hook =
    Thread_New | Thread_Exec_Begin | Thread_Exec_End | Thread_Ready_Begin | Thread_Ready_End
  | System_Idle | Isr_Enter | Isr_Exit | Isr_Exit_To_Scheduler | Idle_Thread_Hook

primrec link_name :: "kernel_hook \<Rightarrow> string" where
  "link_name Thread_New = ''_scars_trace_thread_new''"
| "link_name Thread_Exec_Begin = ''_scars_trace_thread_exec_begin''"
| "link_name Thread_Exec_End = ''_scars_trace_thread_exec_end''"
| "link_name Thread_Ready_Begin = ''_scars_trace_thread_ready_begin''"
| "link_name Thread_Ready_End = ''_scars_trace_thread_ready_end''"
| "link_name System_Idle = ''_scars_trace_system_idle''"
| "link_name Isr_Enter = ''_scars_trace_isr_enter''"
| "link_name Isr_Exit = ''_scars_trace_isr_exit''"
| "link_name Isr_Exit_To_Scheduler = ''_scars_trace_isr_exit_to_scheduler''"
| "link_name Idle_Thread_Hook = ''_scars_idle_thread_hook''"

primrec extern_type :: "kernel_hook \<Rightarrow> fn_type" where
  "extern_type Thread_New = Fn_Thread_Ref"
| "extern_type Thread_Exec_Begin = Fn_Thread_Ref"
| "extern_type Thread_Exec_End = Fn_Thread_Ref"
| "extern_type Thread_Ready_Begin = Fn_Thread_Ref"
| "extern_type Thread_Ready_End = Fn_Thread_Ref"
| "extern_type System_Idle = Fn_Unit"
| "extern_type Isr_Enter = Fn_Unit"
| "extern_type Isr_Exit = Fn_Unit"
| "extern_type Isr_Exit_To_Scheduler = Fn_Unit"
| "extern_type Idle_Thread_Hook = Fn_Unit"

text \<open>What a symbol stands for: a function of the application, or a default, which does nothing or idles the processor.\<close>

datatype code = Application hook | Default_Nothing fn_type | Default_Idle

primrec code_type :: "code \<Rightarrow> fn_type" where
  "code_type (Application h) = type_test h"
| "code_type (Default_Nothing ty) = ty"
| "code_type Default_Idle = Fn_Unit"

definition default_exports :: "(string \<times> code) list" where
  "default_exports =
     [(''_scars_default_trace_thread_new'', Default_Nothing Fn_Thread_Ref),
      (''_scars_default_trace_thread_exec_begin'', Default_Nothing Fn_Thread_Ref),
      (''_scars_default_trace_thread_exec_end'', Default_Nothing Fn_Thread_Ref),
      (''_scars_default_trace_thread_ready_begin'', Default_Nothing Fn_Thread_Ref),
      (''_scars_default_trace_thread_ready_end'', Default_Nothing Fn_Thread_Ref),
      (''_scars_default_trace_system_idle'', Default_Nothing Fn_Unit),
      (''_scars_default_trace_isr_enter'', Default_Nothing Fn_Unit),
      (''_scars_default_trace_isr_exit'', Default_Nothing Fn_Unit),
      (''_scars_default_trace_isr_exit_to_scheduler'', Default_Nothing Fn_Unit),
      (''_scars_default_idle_thread_hook'', Default_Idle)]"

text \<open>\<open>scars.x\<close>: \<open>PROVIDE\<close> defines a symbol that is used and not defined otherwise.\<close>

definition scars_x :: "(string \<times> string) list" where
  "scars_x =
     [(''_scars_idle_thread_hook'', ''_scars_default_idle_thread_hook''),
      (''_user_exception_handler'', ''_scars_default_user_exception_handler''),
      (''_scars_trace_thread_new'', ''_scars_default_trace_thread_new''),
      (''_scars_trace_thread_send_info'', ''_scars_default_trace_thread_send_info''),
      (''_scars_trace_thread_exec_begin'', ''_scars_default_trace_thread_exec_begin''),
      (''_scars_trace_thread_exec_end'', ''_scars_default_trace_thread_exec_end''),
      (''_scars_trace_thread_ready_begin'', ''_scars_default_trace_thread_ready_begin''),
      (''_scars_trace_thread_ready_end'', ''_scars_default_trace_thread_ready_end''),
      (''_scars_trace_system_idle'', ''_scars_default_trace_system_idle''),
      (''_scars_trace_isr_enter'', ''_scars_default_trace_isr_enter''),
      (''_scars_trace_isr_exit'', ''_scars_default_trace_isr_exit''),
      (''_scars_trace_isr_exit_to_scheduler'', ''_scars_default_trace_isr_exit_to_scheduler'')]"

definition resolve :: "hook list \<Rightarrow> string \<Rightarrow> code option" where
  "resolve hooks symbol =
     (let exports = map (\<lambda>h. (export_symbol h, Application h)) hooks @ default_exports in
      case map_of exports symbol of
        Some c \<Rightarrow> Some c
      | None \<Rightarrow> Option.bind (map_of scars_x symbol) (map_of exports))"

text \<open>The functions of \<open>tracing.rs\<close> call their hook when the feature is on; the idle thread always calls its own.\<close>

definition hook_call :: "bool \<Rightarrow> hook list \<Rightarrow> kernel_hook \<Rightarrow> code option" where
  "hook_call tracing hooks k =
     (if tracing \<or> k = Idle_Thread_Hook then resolve hooks (link_name k) else None)"

text \<open>The macro for each call.\<close>

primrec hook_macro :: "kernel_hook \<Rightarrow> item_fn \<Rightarrow> hook" where
  "hook_macro Thread_New = trace_thread_new"
| "hook_macro Thread_Exec_Begin = trace_thread_exec_begin"
| "hook_macro Thread_Exec_End = trace_thread_exec_end"
| "hook_macro Thread_Ready_Begin = trace_thread_ready_begin"
| "hook_macro Thread_Ready_End = trace_thread_ready_end"
| "hook_macro System_Idle = trace_system_idle"
| "hook_macro Isr_Enter = trace_isr_enter"
| "hook_macro Isr_Exit = trace_isr_exit"
| "hook_macro Isr_Exit_To_Scheduler = trace_isr_exit_to_scheduler"
| "hook_macro Idle_Thread_Hook = idle_thread_hook"

lemmas macro_defs = idle_thread_hook_def trace_thread_new_def trace_thread_exec_begin_def trace_thread_exec_end_def
  trace_thread_ready_begin_def trace_thread_ready_end_def trace_system_idle_def trace_isr_enter_def trace_isr_exit_def
  trace_isr_exit_to_scheduler_def

lemma hook_macro_symbol: "export_symbol (hook_macro k item) = link_name k" "type_test (hook_macro k item) = extern_type k"
  by (cases k; simp add: macro_defs expand_hook_def)+

lemma link_name_inj: "link_name k = link_name l \<longleftrightarrow> k = l"
  by (cases k; cases l) simp_all

section \<open>Properties\<close>

lemma application_hook:
  "map_of (map (\<lambda>h. (export_symbol h, Application h)) (map (\<lambda>(k, item). hook_macro k item) marked)) (link_name k)
    = map_option (\<lambda>item. Application (hook_macro k item)) (map_of marked k)"
  by (induction marked) (auto simp: hook_macro_symbol link_name_inj)

lemma not_default_symbol: "map_of default_exports (link_name k) = None"
  by (cases k) (simp_all add: default_exports_def)

definition default_link :: "kernel_hook \<Rightarrow> string" where
  "default_link k = ''_scars_default_'' @ drop 7 (link_name k)"

lemma default_symbol:
  "map_of scars_x (link_name k) = Some (default_link k)"
  "map_of default_exports (default_link k)
    = Some (if k = Idle_Thread_Hook then Default_Idle else Default_Nothing (extern_type k))"
  by (cases k; simp add: scars_x_def default_exports_def default_link_def)+

lemma link_name_not_default: "link_name k \<noteq> default_link l"
  by (cases k; cases l) (simp_all add: default_link_def)

lemma application_not_default:
  "map_of (map (\<lambda>h. (export_symbol h, Application h)) (map (\<lambda>(k, item). hook_macro k item) marked))
     (default_link l) = None"
  by (induction marked) (auto simp: hook_macro_symbol link_name_not_default link_name_not_default [symmetric])



end
