(* ===== verification/Spec2Isabelle.thy ===== *)
theory Spec2Isabelle
  imports Interrupt_Lock Thread_Events Executor Channel Rendezvous Local_Storage Startup Riscv Stm32_Timer Sim_Setup
    Error_Reports Kernel_Hooks
begin

text \<open>
  A model of Scars, a priority-based preemptive real-time kernel in Rust, and its correctness
  properties. Paths below are relative to \<open>src/\<close>; without another prefix they are under
  \<open>scars/src/\<close>.

  \<^bold>\<open>The program.\<close> Threads with fixed base priorities run on one processor. The scheduler
  (\<open>kernel/scheduler.rs\<close>) keeps the ready queue, the list of blocked threads, the list of suspended
  threads and the queue of sleepers; threads enter it by system calls (\<open>kernel/syscall.rs\<close>),
  interrupt handlers by the interrupt context (\<open>kernel/interrupt.rs\<close>) and the timer by its own
  handler (\<open>kernel/clock.rs\<close>). The kernel's data is protected by the preemption lock
  (\<open>sync/preempt_lock.rs\<close>): what finds it taken is put into lock-free queues and completed by the
  release. On this rest ceiling locks (\<open>sync/ceiling_lock.rs\<close>), which raise the priority of their
  owner, wait queues, mutexes, condition variables and channels, and the executors of asynchronous
  tasks, which are found through local storage. The hardware is behind the layers in \<open>khal/\<close>.

  \<^bold>\<open>The theories\<close>, from the bottom:

  \<^item> Prelude: machine integers as words, the error type and monad, the runs of code that can be
    preempted, shared lemmas.
  \<^item> Priority (\<open>priority.rs\<close>): the order of priorities and its packed encodings; locale
    \<open>packed_cell\<close>.
  \<^item> Time (\<open>time.rs\<close>), Events (\<open>event_set.rs\<close>, \<open>events.rs\<close>): durations and instants; event sets.
  \<^item> Linked_List (\<open>kernel/list.rs\<close>): the intrusive list as a heap of nodes, and the locale
    \<open>intrusive_lists\<close> through which the kernel state can hold its queues as HOL lists.
  \<^item> Fifo_Queue, Atomic_Queue (\<open>kernel/atomic_queue.rs\<close>), Ring_Buffer (the buffer of
    \<open>sync/channel.rs\<close>): the locale \<open>fifo_queue\<close> and its two providers.
  \<^item> Kernel_State (\<open>thread/raw_thread.rs\<close>, \<open>thread/mod.rs\<close>, \<open>kernel/stack.rs\<close>,
    \<open>kernel/waiter.rs\<close>): the record \<open>kernel\<close>. Pointers to threads, handlers, locks and wait queues
    are numbers; each intrusive list is a HOL list, each link field says which list the node is in.
  \<^item> Raw_Scheduler (\<open>RawScheduler\<close>), Sched_Invariant, Sched_Properties: the scheduler's operations,
    the invariant (every thread is in the one list that its state says, the lists are sorted, the
    alarm is that of the first sleeper, stacks have canaries) with its preservation, and what each
    operation does.
  \<^item> Scheduler (\<open>Scheduler\<close>, the preemption lock, the interrupt context, the system calls),
    Kernel_Frames, Kernel_Steps: whole operations between quiescent states, the step relation
    \<open>kernel_step\<close> and its invariant. Deferred_Work: what happens while the preemption lock is taken.
  \<^item> Thread_Events (\<open>events.rs\<close>, the event operations of \<open>thread/raw_thread.rs\<close>): sending and
    waiting, from the call to its return.
  \<^item> Ceiling_Lock (\<open>sync/ceiling_lock.rs\<close> and the lock operations of threads and handlers).
  \<^item> Cells (\<open>cell/\<close>, \<open>sync/once.rs\<close>, \<open>sync/once_lock.rs\<close>): the four kinds of cell with a borrow
    flag, as instances of the locale \<open>borrow_discipline\<close>, and once cells.
  \<^item> Hal (\<open>khal/scars-khal-sim\<close>, \<open>-e310x\<close>, \<open>-stm32f4\<close>): interrupt masking, clocks and alarms over
    the devices' registers; locale \<open>interrupt_control\<close>. Interrupt_Lock
    (\<open>sync/interrupt_lock.rs\<close>, \<open>sync/no_lock.rs\<close>).
  \<^item> Wait_Queue (\<open>kernel/waiter.rs\<close>, \<open>sync/mutex.rs\<close>, \<open>sync/condvar.rs\<close>),
    Mutex_Section (locking, notifying and unlocking, for its two clients), Channel
    (\<open>sync/channel.rs\<close>), Rendezvous (\<open>sync/rendezvous.rs\<close>, \<open>sync/shared.rs\<close>).
  \<^item> Executor (\<open>task/\<close>): tasks, pools, thread and interrupt executors, join handles.
  \<^item> Local_Storage (\<open>tls.rs\<close>): locale \<open>keyed_store\<close>.
  \<^item> Startup (\<open>thread/builder.rs\<close>, \<open>thread/reference.rs\<close>, \<open>kernel/idle.rs\<close>, the start of the
    scheduler): building and starting threads, and the step relation \<open>system_step\<close> of the system with
    threads that are built while it runs.
  \<^item> Interrupt_Dispatch (the rest of \<open>kernel/interrupt.rs\<close>): the vector table, attaching and enabling
    handlers, and the dispatch of an interrupt over a board's controller; locale
    \<open>interrupt_controller\<close>.
  \<^item> Syscall_Abi (\<open>kernel/syscall.rs\<close>): system calls in registers. Riscv (\<open>scars-arch-riscv\<close>) and
    Cortex_M (\<open>scars-arch-cortex-m\<close>): contexts, traps and the context switch over registers and
    memory, with the assembly as functions on the state, one update for each instruction.
  \<^item> Stm32_Timer (\<open>khal/scars-khal-stm32f4\<close>): the timer interrupt, from the alarm to the thread that
    runs after it.
  \<^item> Simulator (\<open>khal/scars-khal-sim\<close>): the threads of the host that stand for the kernel's threads,
    as the step relation \<open>sim_step\<close>. Sim_Setup: the signal handlers and what they block.
  \<^item> Error_Macros (\<open>unrecoverable-error-macros\<close>): the derive macro for error types, with the meaning of
    the code that it generates. Error_Reports (\<open>kernel/exception.rs\<close>, \<open>unrecoverable-error\<close>): the
    handlers and the texts that they report.
  \<^item> Scars_Macros (\<open>scars-macros\<close>): the macros for threads, interrupt handlers, tasks and the entry
    point; locale \<open>closure_macro\<close>. Kernel_Hooks (\<open>kernel/tracing.rs\<close>, \<open>scars.x\<close>): the macros for the
    hooks of the kernel, and how the program links them.

  \<^bold>\<open>State and effects.\<close> An operation takes the state and returns either an error, \<open>Inl\<close>, or its
  result with the new state, \<open>Inr\<close>. The errors are panics with their text, the kernel's runtime
  errors, its unrecoverable errors, a read of uninitialised memory, and \<open>Diverges\<close> for a loop that
  does not end. A thread that loses the processor inside an operation goes on later in another
  state: such an operation is a \<open>run\<close>, either finished, or preempted with the function that
  continues from whatever state the thread is resumed in.

  \<^bold>\<open>Loops.\<close> Loops whose end depends on the state are \<open>partial_function (option)\<close>; \<open>None\<close> becomes
  \<open>Diverges\<close>. The theorems state that the operations return \<open>Inr\<close>, so that the loops end, and the
  two theorems on the reuse of the lock-free queue state that they do not. The loops of
  \<open>notify_all\<close> and \<open>wait_while\<close> contain preemption points and have a bound on their rounds instead:
  one more than the number of waiters is enough for the first, and one round for a condition that
  is false already; both are hypotheses of the theorems.

  \<^bold>\<open>What is shown.\<close> From every state that the system reaches by system calls, resumes and timer
  interrupts, each operation returns without panic, keeps the invariant of the scheduler, leaves no
  lock taken and no reschedule pending, and the running thread has the highest priority. Each
  scheduler operation does what it is for, on each branch. Ceiling locks raise and restore
  priorities, are exclusive, and report misuse. Lists, queues, cells, the ring buffer, channels and
  local storage refine their abstract counterparts; a rendezvous is a call into another thread. Events
  that are sent are delivered to a thread that waits for any of them. Clock reads end and return a value the clock
  had; conversions and encodings lose nothing. An attached handler runs when its interrupt comes, and
  on both processors interrupts are transparent: whichever thread runs next, each thread finds its
  own registers again; in the simulator one host thread runs at a time. The macros generate code that does
  what the marked item says: errors are reported by their format strings, arguments reach the
  function they are given to, and hooks are called under their own types. Where the code does not do what it means to, the
  theorem states what it does, with a witness.

  \<^bold>\<open>Parameters.\<close> The record \<open>env\<close> has what the kernel is given from outside: the reading of the
  clock, the waker of an asynchronous waiter and the poll of an interrupt handler's executor. In
  Executor the futures are functions. The cells of the package \<open>static_cell\<close> are functions.
  The results of the host's functions are arguments in Simulator, and the packages \<open>regex\<close>, \<open>syn\<close>
  and \<open>darling\<close> are arguments in the theories of the macros. The
  record \<open>app\<close> has the closures and executors of interrupt handlers. Of the packages \<open>bit_field\<close>,
  \<open>riscv\<close> and \<open>cortex_m_rt\<close> the contexts use bit operations, an encoding and the layout of a frame;
  what is used of them are hypotheses. So is that a transmute of a pair of priorities can be undone. What a compiled function leaves in registers that it need not
  keep is the argument \<open>junk\<close> of the traps.

  \<^bold>\<open>Not modelled.\<close> Memory orderings and true parallelism: the kernel is for one processor, and an
  operation on the lock-free queue is one step. The scheduler's theorems take a context switch as the
  change of the kernel's current thread; the registers are in Riscv and Cortex_M only. Exception
  frames with floating point registers and the reset code are left out. \<open>scars-khal\<close> declares traits;
  what the hardware layers print is output. The asynchronous locks
  are commented out of the build.
\<close>

end
